(* ===== verification/Prelude.thy ===== *)
theory Prelude
  imports Main "HOL-Library.Word" "HOL-Library.Monad_Syntax"
begin

text \<open>
  Shared ground of the development: the machine integers of the server (C \<open>int\<close> and
  \<open>short\<close>), C's truncating division, the character classes of \<open>ctype.h\<close> in the C
  locale, comparison of NUL-terminated strings, guarded array access, and the lemma
  collections the component theories extend.

  Conventions. A C string is the list of its characters before the terminating NUL; a
  \<open>char *\<close> that walks along a string is the suffix that is left. A function whose C code
  may do something undefined (read or write outside an array, use an uninitialised
  variable, divide \<open>INT_MIN\<close> by \<open>-1\<close>) returns an option, and \<open>None\<close> is that case.
\<close>

named_theorems cdefs \<open>definitions of the components, unfolded when a branch is evaluated\<close>
named_theorems inv_intros \<open>preservation of the components' invariants\<close>
named_theorems cstr_simps \<open>rewriting rules for C string primitives\<close>

unbundle bit_operations_syntax

type_synonym i32 = "32 word"
type_synonym i16 = "16 word"

abbreviation i32_of :: "int \<Rightarrow> i32" where
  "i32_of n \<equiv> word_of_int n"

subsection \<open>Numbers that fit\<close>

lemma sint_i32_of: "- (2 ^ 31) \<le> n \<Longrightarrow> n < 2 ^ 31 \<Longrightarrow> sint (i32_of n) = n"
  by (simp add: signed_of_int signed_take_bit_int_eq_self_iff)

lemma sint_i32_add:
  "- (2 ^ 31) \<le> sint a + sint b \<Longrightarrow> sint a + sint b < 2 ^ 31 \<Longrightarrow> sint (a + b :: i32) = sint a + sint b"
  by (simp add: sint_word_ariths signed_take_bit_int_eq_self)

lemma sint_i32_sub:
  "- (2 ^ 31) \<le> sint a - sint b \<Longrightarrow> sint a - sint b < 2 ^ 31 \<Longrightarrow> sint (a - b :: i32) = sint a - sint b"
  by (simp add: sint_word_ariths signed_take_bit_int_eq_self)

subsection \<open>C integer division\<close>

definition c_div :: "int \<Rightarrow> int \<Rightarrow> int" where
  "c_div a b = sgn a * sgn b * (\<bar>a\<bar> div \<bar>b\<bar>)"

definition c_mod :: "int \<Rightarrow> int \<Rightarrow> int" where
  "c_mod a b = a - b * c_div a b"

lemma c_div_mod_id: "b * c_div a b + c_mod a b = a"
  by (simp add: c_mod_def)

lemma c_mod_eq: "b \<noteq> 0 \<Longrightarrow> c_mod a b = sgn a * (\<bar>a\<bar> mod \<bar>b\<bar>)"
proof -
  assume b: "b \<noteq> 0"
  have "b * (sgn a * sgn b * (\<bar>a\<bar> div \<bar>b\<bar>)) = sgn a * (\<bar>b\<bar> * (\<bar>a\<bar> div \<bar>b\<bar>))"
    by (simp add: abs_sgn algebra_simps)
  moreover have "\<bar>b\<bar> * (\<bar>a\<bar> div \<bar>b\<bar>) = \<bar>a\<bar> - \<bar>a\<bar> mod \<bar>b\<bar>"
    by (simp add: minus_mod_eq_mult_div)
  moreover have "sgn a * \<bar>a\<bar> = a" by (simp add: sgn_mult_abs)
  ultimately show ?thesis by (simp add: c_mod_def c_div_def right_diff_distrib)
qed

lemma c_mod_nonneg: "0 \<le> a \<Longrightarrow> 0 < b \<Longrightarrow> c_mod a b = a mod b"
  by (cases "a = 0") (auto simp: c_mod_eq sgn_if)

lemma c_mod_range: "0 \<le> a \<Longrightarrow> 0 < b \<Longrightarrow> 0 \<le> c_mod a b \<and> c_mod a b < b"
  by (simp add: c_mod_nonneg)

lemma c_mod_bound: "b \<noteq> 0 \<Longrightarrow> \<bar>c_mod a b\<bar> < \<bar>b\<bar>"
  by (simp add: c_mod_eq abs_mult sgn_if)

subsection \<open>Guarded array access\<close>

definition nth_opt :: "'a list \<Rightarrow> int \<Rightarrow> 'a option" where
  "nth_opt xs i = (if 0 \<le> i \<and> i < int (length xs) then Some (xs ! nat i) else None)"

definition upd_opt :: "'a list \<Rightarrow> int \<Rightarrow> 'a \<Rightarrow> 'a list option" where
  "upd_opt xs i x = (if 0 \<le> i \<and> i < int (length xs) then Some (xs[nat i := x]) else None)"

lemma nth_opt_Some_iff [simp]:
  "nth_opt xs i = Some x \<longleftrightarrow> 0 \<le> i \<and> i < int (length xs) \<and> x = xs ! nat i"
  by (auto simp: nth_opt_def)

lemma nth_opt_None_iff [simp]: "nth_opt xs i = None \<longleftrightarrow> i < 0 \<or> int (length xs) \<le> i"
  by (auto simp: nth_opt_def)

lemma nth_opt_append_len [simp]: "nth_opt (xs @ y # ys) (int (length xs)) = Some y"
  by simp

lemma upd_opt_Some_iff [simp]:
  "upd_opt xs i x = Some ys \<longleftrightarrow> 0 \<le> i \<and> i < int (length xs) \<and> ys = xs[nat i := x]"
  by (auto simp: upd_opt_def)

lemma upd_opt_length: "upd_opt xs i x = Some ys \<Longrightarrow> length ys = length xs"
  by simp

subsection \<open>Characters (ctype.h, C locale)\<close>

abbreviation chn :: "char \<Rightarrow> nat" where
  "chn c \<equiv> of_char c"

definition sch :: "char \<Rightarrow> int" where
  "sch c = (if chn c < 128 then int (chn c) else int (chn c) - 256)"

definition c_isspace :: "char \<Rightarrow> bool" where
  "c_isspace c \<longleftrightarrow> (9 \<le> chn c \<and> chn c \<le> 13) \<or> chn c = 32"

definition c_isdigit :: "char \<Rightarrow> bool" where
  "c_isdigit c \<longleftrightarrow> 48 \<le> chn c \<and> chn c \<le> 57"

definition c_isupper :: "char \<Rightarrow> bool" where
  "c_isupper c \<longleftrightarrow> 65 \<le> chn c \<and> chn c \<le> 90"

definition c_islower :: "char \<Rightarrow> bool" where
  "c_islower c \<longleftrightarrow> 97 \<le> chn c \<and> chn c \<le> 122"

definition c_isalpha :: "char \<Rightarrow> bool" where
  "c_isalpha c \<longleftrightarrow> c_isupper c \<or> c_islower c"

definition c_isalnum :: "char \<Rightarrow> bool" where
  "c_isalnum c \<longleftrightarrow> c_isalpha c \<or> c_isdigit c"

definition c_tolower :: "char \<Rightarrow> char" where
  "c_tolower c = (if c_isupper c then char_of (chn c + 32) else c)"

definition c_toupper :: "char \<Rightarrow> char" where
  "c_toupper c = (if c_islower c then char_of (chn c - 32) else c)"

lemmas ctype_defs = c_isspace_def c_isdigit_def c_isupper_def c_islower_def c_isalpha_def
  c_isalnum_def

lemma chn_less [simp]: "chn c < 256"
proof -
  have "(of_char c :: nat) mod 256 < 256" by (rule mod_less_divisor) simp
  then show ?thesis by (simp only: of_char_mod_256)
qed

lemma sch_range: "-128 \<le> sch c \<and> sch c < 128"
  using chn_less [of c] by (simp add: sch_def del: chn_less)

lemma chn_tolower: "chn (c_tolower c) = (if c_isupper c then chn c + 32 else chn c)"
proof (cases "c_isupper c")
  case True
  then have "chn c + 32 < 256" by (simp add: c_isupper_def)
  with True show ?thesis by (simp add: c_tolower_def)
qed (simp add: c_tolower_def)

lemma c_tolower_idem [simp]: "c_tolower (c_tolower c) = c_tolower c"
proof (cases "c_isupper c")
  case True
  then have "\<not> c_isupper (c_tolower c)"
    by (simp add: c_isupper_def chn_tolower)
  then show ?thesis by (simp add: c_tolower_def [of "c_tolower c"])
qed (simp add: c_tolower_def)

subsection \<open>String comparison (string.h, strings.h)\<close>

text \<open>\<open>strcmp\<close> and \<open>strcasecmp\<close>: the difference of the first bytes that differ.\<close>

fun strcmp_by :: "(char \<Rightarrow> char) \<Rightarrow> string \<Rightarrow> string \<Rightarrow> int" where
  "strcmp_by f [] [] = 0"
| "strcmp_by f [] (y # ys) = - int (chn (f y))"
| "strcmp_by f (x # xs) [] = int (chn (f x))"
| "strcmp_by f (x # xs) (y # ys) =
     (if f x = f y then strcmp_by f xs ys else int (chn (f x)) - int (chn (f y)))"

abbreviation c_strcmp :: "string \<Rightarrow> string \<Rightarrow> int" where
  "c_strcmp \<equiv> strcmp_by (\<lambda>c. c)"

abbreviation c_strcasecmp :: "string \<Rightarrow> string \<Rightarrow> int" where
  "c_strcasecmp \<equiv> strcmp_by c_tolower"

text \<open>\<open>!strncmp(s, t, n)\<close> and \<open>!strncasecmp(s, t, n)\<close>.\<close>

fun strn_eq :: "(char \<Rightarrow> char) \<Rightarrow> nat \<Rightarrow> string \<Rightarrow> string \<Rightarrow> bool" where
  "strn_eq f 0 s t \<longleftrightarrow> True"
| "strn_eq f (Suc n) [] [] \<longleftrightarrow> True"
| "strn_eq f (Suc n) (x # xs) (y # ys) \<longleftrightarrow> f x = f y \<and> strn_eq f n xs ys"
| "strn_eq f (Suc n) _ _ \<longleftrightarrow> False"

definition nul_free :: "string \<Rightarrow> bool" where
  "nul_free s \<longleftrightarrow> CHR 0x00 \<notin> set s"

lemma nul_free_simps [cstr_simps, simp]:
  "nul_free []" "nul_free (c # s) \<longleftrightarrow> c \<noteq> CHR 0x00 \<and> nul_free s"
  "nul_free (s @ t) \<longleftrightarrow> nul_free s \<and> nul_free t"
  by (auto simp: nul_free_def)

lemma chn_zero_iff [simp]: "chn c = 0 \<longleftrightarrow> c = CHR 0x00"
  using of_char_eq_iff [of c "CHR 0x00", where 'a = nat] by simp

lemma chn_pos_iff [simp]: "0 < chn c \<longleftrightarrow> c \<noteq> CHR 0x00"
  by (metis chn_zero_iff gr0I less_numeral_extra(3))

subsection \<open>Mapping a function that may fail\<close>

primrec mapM :: "('a \<Rightarrow> 'b option) \<Rightarrow> 'a list \<Rightarrow> 'b list option" where
  "mapM f [] = Some []"
| "mapM f (x # xs) = do { y \<leftarrow> f x; ys \<leftarrow> mapM f xs; Some (y # ys) }"

lemma mapM_cong [fundef_cong]:
  "xs = ys \<Longrightarrow> (\<And>x. x \<in> set ys \<Longrightarrow> f x = g x) \<Longrightarrow> mapM f xs = mapM g ys"
  by (induction ys arbitrary: xs) auto

lemma mapM_append:
  "mapM f (xs @ ys) = do { a \<leftarrow> mapM f xs; b \<leftarrow> mapM f ys; Some (a @ b) }"
  by (induction xs) (auto split: bind_splits)

lemma mapM_length: "mapM f xs = Some ys \<Longrightarrow> length ys = length xs"
  by (induction xs arbitrary: ys) (auto split: bind_splits)

subsection \<open>Changing one element of a list\<close>

fun update_first :: "('a \<Rightarrow> bool) \<Rightarrow> ('a \<Rightarrow> 'a) \<Rightarrow> 'a list \<Rightarrow> 'a list" where
  "update_first P f [] = []"
| "update_first P f (x # xs) = (if P x then f x # xs else x # update_first P f xs)"

lemma update_first_split:
  assumes "find P l = Some s"
  obtains xs ys where "l = xs @ s # ys" "update_first P f l = xs @ f s # ys"
  using assms
proof (induction l arbitrary: thesis)
  case (Cons x l)
  show ?case
  proof (cases "P x")
    case True
    with Cons.prems show ?thesis by (intro Cons.prems(1) [of "[]" l]) auto
  next
    case False
    with Cons.prems(2) obtain xs ys where "l = xs @ s # ys" "update_first P f l = xs @ f s # ys"
      using Cons.IH by auto
    with False show ?thesis by (intro Cons.prems(1) [of "x # xs" ys]) auto
  qed
qed simp

lemma update_first_none: "find P l = None \<Longrightarrow> update_first P f l = l"
  by (induction l) (auto split: if_splits)

end
