(* ===== verification/CString.thy ===== *)
theory CString
  imports Prelude
begin

text \<open>
  String routines: the hash function of \<open>hash.c\<close> and the scanning and matching functions
  of \<open>utils.c\<close> (\<open>match\<close>, \<open>match_full\<close>, \<open>str_in\<close>, \<open>verb_match\<close>, \<open>prep_match\<close>, \<open>valid_ident\<close>,
  \<open>strsub\<close>, \<open>count_words\<close>, \<open>strindex\<close>, \<open>strrindex\<close>, and the fallback string comparisons),
  together with \<open>explode\<close> of \<open>list.c\<close>, which consumes the count of \<open>count_words\<close>. A pointer
  into a string is the suffix it points at.
\<close>

section \<open>hash.c\<close>

definition hash_step :: "i32 \<Rightarrow> char \<Rightarrow> i32" where
  "hash_step h0 c =
     (let h = push_bit 4 h0 + word_of_int (sch c);
          g = h AND 0xf0000000
      in if g \<noteq> 0 then (h XOR drop_bit 24 g) XOR g else h)"

definition hash :: "string \<Rightarrow> i32" where
  "hash s = foldl hash_step 0 s"

definition top_nibble_clear :: "i32 \<Rightarrow> bool" where
  "top_nibble_clear h \<longleftrightarrow> (\<forall>n\<ge>28. \<not> bit h n)"

lemma nibble_mask: "(0xf0000000 :: i32) = NOT (mask 28)"
  by (simp add: mask_eq_exp_minus_1)

lemma bit_nibble_mask: "bit (x AND (0xf0000000 :: i32)) n \<longleftrightarrow> bit x n \<and> 28 \<le> n"
  by (auto simp: nibble_mask bit_simps dest: bit_imp_le_length)

lemma hash_step_clear: "top_nibble_clear (hash_step h c)"
proof -
  define k where "k = push_bit 4 h + (word_of_int (sch c) :: i32)"
  have "\<not> bit (hash_step h c) n" if n: "28 \<le> n" for n
  proof (cases "k AND 0xf0000000 = 0")
    case True
    then have "\<not> bit (k AND 0xf0000000) n" by simp
    with n have "\<not> bit k n" unfolding bit_nibble_mask by simp
    with True show ?thesis
      unfolding hash_step_def Let_def k_def [symmetric] by simp
  next
    case False
    have "\<not> bit (drop_bit 24 (k AND 0xf0000000)) n"
      using n by (auto simp only: bit_drop_bit_eq comp_def dest!: bit_imp_le_length) auto
    moreover have "hash_step h c = (k XOR drop_bit 24 (k AND 0xf0000000)) XOR (k AND 0xf0000000)"
      using False unfolding hash_step_def Let_def k_def [symmetric] by simp
    ultimately show ?thesis using n by (simp only: bit_nibble_mask bit_xor_iff) simp
  qed
  then show ?thesis by (simp add: top_nibble_clear_def)
qed

lemma hash_clear: "top_nibble_clear (hash s)"
proof (cases s rule: rev_cases)
  case Nil
  then show ?thesis by (simp add: hash_def top_nibble_clear_def)
next
  case (snoc t c)
  then show ?thesis by (simp add: hash_def hash_step_clear)
qed

lemma clear_uint: "top_nibble_clear h \<Longrightarrow> uint h < 2 ^ 28"
proof -
  assume "top_nibble_clear h"
  then have "take_bit 28 h = h"
    by (intro bit_word_eqI) (metis bit_take_bit_iff top_nibble_clear_def not_less)
  moreover have "uint (take_bit 28 h) < 2 ^ 28"
    unfolding unsigned_take_bit_eq by (rule take_bit_int_less_exp)
  ultimately show ?thesis by simp
qed

lemma sint_eq_uint_small: "uint (h :: i32) < 2 ^ 31 \<Longrightarrow> sint h = uint h"
proof -
  assume "uint h < 2 ^ 31"
  moreover have "- (2 ^ 31) \<le> uint h" by (rule order_trans [OF _ uint_ge_0]) simp
  ultimately show ?thesis by (simp add: sint_uint signed_take_bit_int_eq_self_iff)
qed

lemma hash_range: "0 \<le> sint (hash s) \<and> sint (hash s) < 2 ^ 28"
  using clear_uint [OF hash_clear, of s] by (simp add: sint_eq_uint_small)

text \<open>The bucket of a name: the result is an index of the table.\<close>

definition hash_index :: "i32 \<Rightarrow> nat \<Rightarrow> nat option" where
  "hash_index h width =
     (let i = c_mod (sint h) (int width)
      in if width = 0 \<or> i < 0 then None else Some (nat i))"

lemma hash_index_in_range: "hash_index h width = Some i \<Longrightarrow> i < width"
  using c_mod_bound [of "int width" "sint h"]
  by (auto simp: hash_index_def Let_def split: if_splits)

lemma hash_index_name: "0 < width \<Longrightarrow> \<exists>i. hash_index (hash s) width = Some i \<and> i < width"
  using hash_range [of s] c_mod_range [of "sint (hash s)" "int width"]
  by (auto simp: hash_index_def Let_def)

section \<open>String comparison\<close>

lemma strn_eq_take: "strn_eq f n s t \<longleftrightarrow> map f (take n s) = map f (take n t)"
  by (induction f n s t rule: strn_eq.induct) auto

lemma strcmp_by_refl [simp]: "strcmp_by f s s = 0"
  by (induction s) auto

lemma strcasecmp_zero_iff:
  "nul_free s \<Longrightarrow> nul_free t \<Longrightarrow> c_strcasecmp s t = 0 \<longleftrightarrow> map c_tolower s = map c_tolower t"
proof (induction c_tolower s t rule: strcmp_by.induct)
  case (2 y ys)
  then show ?case by (auto simp: chn_tolower split: if_splits)
next
  case (3 x xs)
  then show ?case by (auto simp: chn_tolower split: if_splits)
next
  case (4 x xs y ys)
  then show ?case by auto
qed simp

lemma strcmp_zero_iff: "nul_free s \<Longrightarrow> nul_free t \<Longrightarrow> c_strcmp s t = 0 \<longleftrightarrow> s = t"
  by (induction "\<lambda>c :: char. c" s t rule: strcmp_by.induct) auto

lemma strcmp_by_sym: "strcmp_by f t s = - strcmp_by f s t"
  by (induction f s t rule: strcmp_by.induct) auto

lemma strcmp_by_cong_hash: "strcmp_by f s t = 0 \<Longrightarrow> s = t \<Longrightarrow> hash s = hash t"
  by simp

text \<open>
  The fallback comparison of \<open>utils.c\<close>, compiled where the system has no \<open>strcasecmp\<close>.
  The table \<open>cmap\<close> is indexed by a signed \<open>char\<close>: an index below zero reads outside it.
\<close>

definition cmap :: "char \<Rightarrow> char option" where
  "cmap c = (if chn c < 128 then Some (c_tolower c) else None)"

fun fallback_strcasecmp :: "string \<Rightarrow> string \<Rightarrow> int option" where
  "fallback_strcasecmp [] [] = Some 0"
| "fallback_strcasecmp [] (y # ys) =
     do { d \<leftarrow> cmap y; if d = CHR 0x00 then Some 0 else Some (- sch d) }"
| "fallback_strcasecmp (x # xs) [] =
     do { c \<leftarrow> cmap x; if c = CHR 0x00 then Some 0 else Some (sch c) }"
| "fallback_strcasecmp (x # xs) (y # ys) =
     do { c \<leftarrow> cmap x; d \<leftarrow> cmap y;
          if c = d then (if x = CHR 0x00 then Some 0 else fallback_strcasecmp xs ys)
          else Some (sch c - sch d) }"

definition ascii :: "string \<Rightarrow> bool" where
  "ascii s \<longleftrightarrow> (\<forall>c\<in>set s. c \<noteq> CHR 0x00 \<and> chn c < 128)"

lemma ascii_simps [simp]:
  "ascii []" "ascii (c # s) \<longleftrightarrow> c \<noteq> CHR 0x00 \<and> chn c < 128 \<and> ascii s"
  by (auto simp: ascii_def)

lemma ascii_nul_free: "ascii s \<Longrightarrow> nul_free s"
  by (auto simp: ascii_def nul_free_def)

lemma tolower_nul_iff [simp]: "c_tolower c = CHR 0x00 \<longleftrightarrow> c = CHR 0x00"
proof -
  have "c_tolower c = CHR 0x00 \<longleftrightarrow> chn (c_tolower c) = 0" by (rule chn_zero_iff [symmetric])
  also have "\<dots> \<longleftrightarrow> chn c = 0"
    by (simp add: chn_tolower c_isupper_def del: chn_zero_iff)
  finally show ?thesis by simp
qed

lemma tolower_ascii: "chn c < 128 \<Longrightarrow> chn (c_tolower c) < 128"
  by (simp add: chn_tolower c_isupper_def)

lemma fallback_agrees:
  "ascii s \<Longrightarrow> ascii t \<Longrightarrow> fallback_strcasecmp s t = Some (c_strcasecmp s t)"
  by (induction s t rule: fallback_strcasecmp.induct)
    (auto simp: cmap_def sch_def tolower_ascii)

section \<open>utils.c: words of a template\<close>

text \<open>\<open>index(s, marker)\<close>: the suffix that starts at the marker, \<open>[]\<close> when there is none.\<close>

definition c_index :: "char \<Rightarrow> string \<Rightarrow> string" where
  "c_index mk s = dropWhile (\<lambda>c. c \<noteq> mk) s"

definition skip_markers :: "char \<Rightarrow> string \<Rightarrow> string" where
  "skip_markers mk s = dropWhile (\<lambda>c. c = mk) s"

fun scan_word :: "char \<Rightarrow> string \<Rightarrow> nat \<Rightarrow> string \<Rightarrow> bool \<times> string" where
  "scan_word mk w l [] = (False, [])"
| "scan_word mk w l (c # cs) =
     (if c = mk then (False, c # cs)
      else if strn_eq c_tolower l (c # cs) w then (True, c # cs)
      else scan_word mk w l cs)"

lemma scan_word_shorter:
  "length (snd (scan_word mk w l t)) \<le> length t"
  "t \<noteq> [] \<Longrightarrow> hd t \<noteq> mk \<Longrightarrow> \<not> fst (scan_word mk w l t) \<Longrightarrow>
     length (snd (scan_word mk w l t)) < length t"
proof -
  show len: "length (snd (scan_word mk w l t)) \<le> length t" for t
    by (induction t) auto
  assume "t \<noteq> []" "hd t \<noteq> mk" "\<not> fst (scan_word mk w l t)"
  then show "length (snd (scan_word mk w l t)) < length t"
    using len [of "tl t"] by (cases t) (auto split: if_splits)
qed

lemma scan_word_decr:
  assumes "t \<noteq> []" "\<not> fst (scan_word mk w l (skip_markers mk t))"
  shows "length (snd (scan_word mk w l (skip_markers mk t))) < length t"
proof (cases "hd t = mk")
  case True
  with assms(1) have "length (skip_markers mk t) < length t"
    by (cases t) (auto simp: skip_markers_def le_imp_less_Suc length_dropWhile_le)
  with scan_word_shorter(1) show ?thesis by (rule le_less_trans)
next
  case False
  with assms(1) have "skip_markers mk t = t" by (cases t) (auto simp: skip_markers_def)
  with False assms scan_word_shorter(2) show ?thesis by auto
qed

function match_loop :: "char \<Rightarrow> string \<Rightarrow> nat \<Rightarrow> string \<Rightarrow> bool" where
  "match_loop mk w l t =
     (if t = [] then False
      else let r = scan_word mk w l (skip_markers mk t)
           in if fst r then True else match_loop mk w l (snd r))"
  by pat_completeness auto
termination
  by (relation "measure (\<lambda>(mk, w, l, t). length t)") (auto simp: scan_word_decr)

declare match_loop.simps [simp del]

definition match_str :: "string \<Rightarrow> string \<Rightarrow> char \<Rightarrow> bool" where
  "match_str template tomatch mk =
     (let w = skip_markers mk tomatch;
          l = length (takeWhile (\<lambda>c. c \<noteq> mk) w)
      in match_loop mk w l template)"

lemma c_index_decr:
  assumes "t \<noteq> []"
  shows "length (c_index mk (skip_markers mk t)) < length t"
proof (cases "hd t = mk")
  case True
  with assms have "length (skip_markers mk t) < length t"
    by (cases t) (auto simp: skip_markers_def le_imp_less_Suc length_dropWhile_le)
  moreover have "length (c_index mk (skip_markers mk t)) \<le> length (skip_markers mk t)"
    by (simp add: c_index_def length_dropWhile_le)
  ultimately show ?thesis by simp
next
  case False
  with assms show ?thesis
    by (cases t) (auto simp: skip_markers_def c_index_def le_imp_less_Suc length_dropWhile_le)
qed

function match_full_loop :: "char \<Rightarrow> string \<Rightarrow> string \<Rightarrow> bool" where
  "match_full_loop mk w t =
     (if t = [] then False
      else let t' = skip_markers mk t;
               l2 = length (takeWhile (\<lambda>c. c \<noteq> mk) t')
           in if length w = l2 \<and> strn_eq c_tolower l2 t' w then True
              else match_full_loop mk w (c_index mk t'))"
  by pat_completeness auto
termination
  by (relation "measure (\<lambda>(mk, w, t). length t)") (auto simp: c_index_decr)

declare match_full_loop.simps [simp del]

definition match_full :: "string \<Rightarrow> string \<Rightarrow> char \<Rightarrow> bool" where
  "match_full template tomatch mk = match_full_loop mk (skip_markers mk tomatch) template"

section \<open>utils.c: substrings\<close>

fun str_in_from :: "nat \<Rightarrow> string \<Rightarrow> string \<Rightarrow> nat" where
  "str_in_from i s1 [] = 0"
| "str_in_from i s1 (c # t) =
     (if strn_eq c_tolower (length s1) s1 (c # t) then i + 1 else str_in_from (i + 1) s1 t)"

definition str_in :: "string \<Rightarrow> string \<Rightarrow> nat" where
  "str_in s1 s2 = str_in_from 0 s1 s2"

definition cmp_map :: "bool \<Rightarrow> char \<Rightarrow> char" where
  "cmp_map case_counts = (if case_counts then (\<lambda>c. c) else c_tolower)"

text \<open>
  \<open>strindex\<close> walks \<open>s\<close> from the start while \<open>s <= e\<close>, \<open>strrindex\<close> from
  \<open>e = source + strlen(source) - lwhat\<close> down; positions are offsets from \<open>source\<close>.
\<close>

fun strindex_from :: "bool \<Rightarrow> string \<Rightarrow> int \<Rightarrow> nat \<Rightarrow> string \<Rightarrow> nat" where
  "strindex_from cc what e i s =
     (if e < int i then 0
      else if strn_eq (cmp_map cc) (length what) s what then i + 1
      else (case s of [] \<Rightarrow> 0 | _ # s' \<Rightarrow> strindex_from cc what e (i + 1) s'))"

definition strindex :: "string \<Rightarrow> string \<Rightarrow> bool \<Rightarrow> nat" where
  "strindex source what cc =
     strindex_from cc what (int (length source) - int (length what)) 0 source"

fun strrindex_from :: "bool \<Rightarrow> string \<Rightarrow> string \<Rightarrow> nat \<Rightarrow> nat" where
  "strrindex_from cc what source i =
     (if strn_eq (cmp_map cc) (length what) (drop i source) what then i + 1
      else (case i of 0 \<Rightarrow> 0 | Suc j \<Rightarrow> strrindex_from cc what source j))"

definition strrindex :: "string \<Rightarrow> string \<Rightarrow> bool \<Rightarrow> nat" where
  "strrindex source what cc =
     (if length source < length what then 0
      else strrindex_from cc what source (length source - length what))"

declare strindex_from.simps [simp del] strrindex_from.simps [simp del]

function strsub_loop :: "string \<Rightarrow> string \<Rightarrow> bool \<Rightarrow> string \<Rightarrow> string" where
  "strsub_loop what with cc s =
     (case s of [] \<Rightarrow> []
      | c # s' \<Rightarrow>
          if what \<noteq> [] \<and> strn_eq (cmp_map cc) (length what) s what
          then with @ strsub_loop what with cc (drop (length what) s)
          else c # strsub_loop what with cc s')"
  by pat_completeness auto
termination
  by (relation "measure (\<lambda>(what, with, cc, s). length s)") auto

declare strsub_loop.simps [simp del]

definition strsub :: "string \<Rightarrow> string \<Rightarrow> string \<Rightarrow> bool \<Rightarrow> string" where
  "strsub source what with cc =
     (if length what = 0 then source else strsub_loop what with cc source)"

definition valid_ident :: "string \<Rightarrow> bool" where
  "valid_ident s =
     (case s of [] \<Rightarrow> False
      | c # s' \<Rightarrow> (c_isalpha c \<or> c = CHR ''_'') \<and>
                  (\<forall>d\<in>set s'. c_isalnum d \<or> d = CHR ''_''))"

section \<open>utils.c and list.c: splitting at separators\<close>

definition at_sep :: "string \<Rightarrow> string \<Rightarrow> bool" where
  "at_sep sep s = strn_eq (\<lambda>c. c) (length sep) s sep"

fun skip_sep_chars :: "string \<Rightarrow> string \<Rightarrow> string" where
  "skip_sep_chars sep [] = []"
| "skip_sep_chars sep (c # s) =
     (if at_sep sep (c # s) then skip_sep_chars sep s else c # s)"

fun split_word :: "string \<Rightarrow> string \<Rightarrow> string \<times> string" where
  "split_word sep [] = ([], [])"
| "split_word sep (c # s) =
     (if at_sep sep (c # s) then ([], c # s)
      else (c # fst (split_word sep s), snd (split_word sep s)))"

lemma length_skip_sep_chars: "length (skip_sep_chars sep s) \<le> length s"
  by (induction sep s rule: skip_sep_chars.induct) auto

lemma split_word_append: "fst (split_word sep s) @ snd (split_word sep s) = s"
  by (induction sep s rule: split_word.induct) auto

lemma skip_sep_chars_not_at: "skip_sep_chars sep s \<noteq> [] \<Longrightarrow> \<not> at_sep sep (skip_sep_chars sep s)"
  by (induction sep s rule: skip_sep_chars.induct) auto

lemma split_word_shorter:
  "t \<noteq> [] \<Longrightarrow> \<not> at_sep sep t \<Longrightarrow> length (snd (split_word sep t)) < length t"
proof (cases t)
  case (Cons c s)
  assume "\<not> at_sep sep t"
  moreover have "length (snd (split_word sep s)) \<le> length s"
    by (metis split_word_append length_append le_add2)
  ultimately show ?thesis using Cons by simp
qed simp

lemma count_words_decr:
  "skip_sep_chars sep s \<noteq> [] \<Longrightarrow>
     length (snd (split_word sep (skip_sep_chars sep s))) < length s"
  using split_word_shorter [OF _ skip_sep_chars_not_at, of sep s] length_skip_sep_chars [of sep s]
  by simp

function count_words :: "string \<Rightarrow> string \<Rightarrow> nat" where
  "count_words s sep =
     (let t = skip_sep_chars sep s
      in if t = [] then 0 else 1 + count_words (snd (split_word sep t)) sep)"
  by pat_completeness auto
termination
  by (relation "measure (\<lambda>(s, sep). length s)") (auto simp: count_words_decr)

declare count_words.simps [simp del]

text \<open>
  \<open>explode\<close> steps over a whole separator at a time. It is called with a non-empty
  separator; on an empty one the C loop would not advance.
\<close>

function skip_seps :: "string \<Rightarrow> string \<Rightarrow> string" where
  "skip_seps sep s =
     (if s \<noteq> [] \<and> sep \<noteq> [] \<and> at_sep sep s then skip_seps sep (drop (length sep) s) else s)"
  by pat_completeness auto
termination
  by (relation "measure (\<lambda>(sep, s). length s)") auto

declare skip_seps.simps [simp del]

fun explode :: "string \<Rightarrow> string \<Rightarrow> nat \<Rightarrow> string list" where
  "explode str sep 0 = []"
| "explode str sep (Suc n) =
     (let w = split_word sep (skip_seps sep str)
      in fst w # explode (snd w) sep n)"

text \<open>The reference: the maximal runs without the separator character.\<close>

function tokens :: "char \<Rightarrow> string \<Rightarrow> string list" where
  "tokens c s =
     (let t = dropWhile (\<lambda>x. x = c) s
      in if t = [] then []
         else takeWhile (\<lambda>x. x \<noteq> c) t # tokens c (dropWhile (\<lambda>x. x \<noteq> c) t))"
  by pat_completeness auto
termination
proof (relation "measure (\<lambda>(c, s). length s)")
  fix c and s t :: string
  assume "t = dropWhile (\<lambda>x. x = c) s" "t \<noteq> []"
  then have "hd t \<noteq> c" "length t \<le> length s"
    using hd_dropWhile [of "\<lambda>x. x = c" s] by (auto simp: length_dropWhile_le)
  with \<open>t \<noteq> []\<close> have "length (dropWhile (\<lambda>x. x \<noteq> c) t) < length t"
    by (cases t) (auto simp: le_imp_less_Suc length_dropWhile_le)
  with \<open>length t \<le> length s\<close>
  show "((c, dropWhile (\<lambda>x. x \<noteq> c) t), c, s) \<in> measure (\<lambda>(c, s). length s)" by simp
qed auto

declare tokens.simps [simp del]

lemma at_sep_single: "at_sep [c] s \<longleftrightarrow> s \<noteq> [] \<and> hd s = c"
  by (cases s) (auto simp: at_sep_def)

lemma skip_sep_chars_single: "skip_sep_chars [c] s = dropWhile (\<lambda>x. x = c) s"
  by (induction s) (auto simp: at_sep_single)

lemma split_word_single:
  "split_word [c] s = (takeWhile (\<lambda>x. x \<noteq> c) s, dropWhile (\<lambda>x. x \<noteq> c) s)"
  by (induction s) (auto simp: at_sep_single)

lemma skip_seps_single: "skip_seps [c] s = dropWhile (\<lambda>x. x = c) s"
proof (induction s)
  case Nil
  then show ?case by (simp add: skip_seps.simps)
next
  case (Cons x s)
  then show ?case by (simp add: skip_seps.simps [of "[c]" "x # s"] at_sep_single)
qed

lemmas single_sep_simps = skip_sep_chars_single split_word_single skip_seps_single

lemma count_words_tokens: "count_words s [c] = length (tokens c s)"
proof (induction c s rule: tokens.induct)
  case (1 c s)
  then show ?case
    by (subst tokens.simps, subst count_words.simps) (simp add: single_sep_simps Let_def)
qed

lemma explode_tokens: "explode s [c] (length (tokens c s)) = tokens c s"
proof (induction c s rule: tokens.induct)
  case (1 c s)
  show ?case
  proof (cases "dropWhile (\<lambda>x. x = c) s = []")
    case True
    then show ?thesis by (simp add: tokens.simps [of c s])
  next
    case False
    with 1 [OF refl] show ?thesis
      by (subst (1 2) tokens.simps) (simp add: single_sep_simps Let_def)
  qed
qed

section \<open>utils.c: verb and preposition matching\<close>

text \<open>
  \<open>verb_match\<close>: the inner loop walks the current alias and the word together. \<open>star\<close>
  records a \<open>*\<close> seen in this alias. The table \<open>cmap\<close> is indexed by a signed \<open>char\<close>, so a
  character outside ASCII that is compared reads outside the table (\<open>None\<close>).
\<close>

definition at_word_end :: "string \<Rightarrow> bool" where
  "at_word_end v \<longleftrightarrow> v = [] \<or> c_isspace (hd v)"

definition drop_star :: "string \<Rightarrow> bool \<Rightarrow> string \<times> bool" where
  "drop_star v star = (if v \<noteq> [] \<and> hd v = CHR ''*'' then (tl v, True) else (v, star))"

fun verb_match_word :: "string \<Rightarrow> string \<Rightarrow> bool \<Rightarrow> (string \<times> string \<times> bool) option" where
  "verb_match_word v [] star = (let r = drop_star v star in Some (fst r, [], snd r))"
| "verb_match_word v (x # w) star =
     (let r = drop_star v star
      in if at_word_end (fst r) then Some (fst r, x # w, snd r)
         else do { a \<leftarrow> cmap x; b \<leftarrow> cmap (hd (fst r));
                   if a \<noteq> b then Some (fst r, x # w, snd r)
                   else verb_match_word (tl (fst r)) w (snd r) })"

definition next_alias :: "string \<Rightarrow> string" where
  "next_alias v = dropWhile c_isspace (dropWhile (\<lambda>c. \<not> c_isspace c) v)"

lemma drop_star_length: "length (fst (drop_star v star)) \<le> length v"
  by (simp add: drop_star_def)

lemma verb_match_word_length:
  "verb_match_word v w star = Some (v', w', star') \<Longrightarrow> length v' \<le> length v"
proof (induction v w star rule: verb_match_word.induct)
  case (1 v star)
  then show ?case using drop_star_length [of v star] by (auto simp: Let_def)
next
  case (2 v x w star)
  show ?case
  proof (cases "length v' \<le> length (fst (drop_star v star))")
    case True
    then show ?thesis using drop_star_length [of v star] by simp
  next
    case False
    with 2 show ?thesis using drop_star_length [of v star]
      by (fastforce simp: Let_def split: bind_splits if_splits)
  qed
qed

lemma next_alias_length: "length (next_alias v) \<le> length v"
  unfolding next_alias_def using length_dropWhile_le order_trans by blast

text \<open>
  The outer loop moves to the next alias. Each round moves past the alias it tried, which
  the measure shows; the guard on the length is always true (\<open>verb_match_advances\<close>).
\<close>

fun verb_match_fuel :: "nat \<Rightarrow> string \<Rightarrow> string \<Rightarrow> bool option" where
  "verb_match_fuel 0 v w = None"
| "verb_match_fuel (Suc n) v w =
     (if v = [] then Some False
      else do {
        r \<leftarrow> verb_match_word v w False;
        let (v', w', star) = r;
        if star \<and> w' = [] then Some True
        else if w' = [] \<and> at_word_end v' then Some True
        else verb_match_fuel n (next_alias v') w })"

definition verb_match :: "string \<Rightarrow> string \<Rightarrow> bool option" where
  "verb_match verb word = verb_match_fuel (Suc (length verb)) verb word"

section \<open>utils.c: prep_match\<close>

text \<open>
  The comparison of one preposition at \<open>p\<close> with the argument at \<open>a\<close>, that is the loop
  \<open>while (c[*p++] == c[*a++])\<close>. The result is whether it matched, and where \<open>p\<close> and \<open>a\<close>
  end up; \<open>a\<close> is \<open>None\<close> when it was stepped past the terminating NUL. Reading a string past
  its NUL, or indexing \<open>cmap\<close> below zero, makes the whole result \<open>None\<close>.
\<close>

definition cmap0 :: "string \<Rightarrow> char option" where
  "cmap0 s = (case s of [] \<Rightarrow> Some (CHR 0x00) | c # _ \<Rightarrow> cmap c)"

definition starts_space :: "string \<Rightarrow> bool" where
  "starts_space s \<longleftrightarrow> s \<noteq> [] \<and> c_isspace (hd s)"

fun prep_word :: "nat \<Rightarrow> string \<Rightarrow> string \<Rightarrow> (bool \<times> string \<times> string option) option" where
  "prep_word 0 p a = None"
| "prep_word (Suc n) p a = do {
     x \<leftarrow> cmap0 p; y \<leftarrow> cmap0 a;
     if x \<noteq> y then
       (if p = [] then None
        else Some (False, tl p, if a = [] then None else Some (tl a)))
     else if p = [] \<or> a = [] then None
     else
       let p1 = tl p; a1 = tl a;
           us = (p1 \<noteq> [] \<and> hd p1 = CHR ''_'');
           a2 = (if us then dropWhile c_isspace a1 else a1);
           p2 = (if us then tl p1 else p1)
       in if starts_space p2 \<or> (p2 = [] \<and> starts_space a2) \<or> a2 = [] then
            do { u \<leftarrow> cmap0 p2; v \<leftarrow> cmap0 a2;
                 Some (p2 = [] \<or> a2 = [] \<or> u = v, p2, Some a2) }
          else prep_word n p2 a2 }"

text \<open>All prepositions of the list at one word of the argument.\<close>

fun prep_list ::
  "nat \<Rightarrow> string \<Rightarrow> string \<Rightarrow> string option \<Rightarrow> (bool \<times> string option) option" where
  "prep_list 0 p pstart a = None"
| "prep_list (Suc n) p pstart a =
     (if p = [] then Some (False, a)
      else do {
        r \<leftarrow> prep_word (Suc (length p)) (dropWhile c_isspace p) pstart;
        let (hit, p', a') = r;
        if hit then Some (True, a')
        else prep_list n (dropWhile (\<lambda>c. \<not> c_isspace c) p') pstart a' })"

record prep_result =
  pr_dobj :: string
  pr_prep :: string
  pr_iobj :: string

fun prep_scan ::
  "nat \<Rightarrow> string \<Rightarrow> string \<Rightarrow> bool \<Rightarrow> string \<Rightarrow> string \<Rightarrow> prep_result option option" where
  "prep_scan 0 preplist dobj quoted dend a = None"
| "prep_scan (Suc n) preplist dobj quoted dend a =
     (if a = [] then Some None
      else do {
        let dend' = (if quoted then dend else a);
        let pstart = dropWhile c_isspace a;
        r \<leftarrow> prep_list (Suc (length preplist)) preplist pstart (Some pstart);
        let (hit, a') = r;
        a1 \<leftarrow> a';
        if hit then
          Some (Some \<lparr> pr_dobj = take (length dobj - length dend') dobj,
                       pr_prep = take (length pstart - length a1) pstart,
                       pr_iobj = dropWhile c_isspace a1 \<rparr>)
        else prep_scan n preplist dobj quoted dend' (dropWhile (\<lambda>c. \<not> c_isspace c) a1) })"

text \<open>A quoted direct object ends at the next quote that no backslash precedes.\<close>

definition skip_quoted_step :: "string \<Rightarrow> nat" where
  "skip_quoted_step a =
     (if hd a = CHR 0x5C \<and> tl a \<noteq> [] \<and> hd (tl a) = CHR 0x22 then 2 else 1)"

function skip_quoted :: "string \<Rightarrow> string" where
  "skip_quoted a =
     (if a = [] \<or> hd a = CHR 0x22 then a
      else skip_quoted (drop (skip_quoted_step a) a))"
  by pat_completeness auto
termination
  by (relation "measure length") (auto simp: skip_quoted_step_def)

declare skip_quoted.simps [simp del]

definition prep_match :: "string \<Rightarrow> string \<Rightarrow> prep_result option option" where
  "prep_match preplist argstr =
     (let a0 = dropWhile c_isspace argstr;
          quoted = (a0 \<noteq> [] \<and> hd a0 = CHR 0x22);
          dobj = (if quoted then tl a0 else a0);
          a = (if quoted then skip_quoted dobj else dobj)
      in prep_scan (Suc (length argstr)) preplist dobj quoted a a)"

end
