(* ===== verification/KvStore.thy ===== *)
theory KvStore
  imports Prelude
begin

text \<open>
  The contract of a lookup structure that may fail: what a lookup returns after an insert,
  for the same key and for the others. Keys are compared through a normal form \<open>nf\<close> (the
  server compares strings without regard to case). The server has several such structures:
  mapping values (\<open>map.c\<close>), the variables of an object (\<open>var.c\<close>), and the object cache over
  its database (\<open>cache.c\<close>); each interprets the locale in its own theory.
\<close>

locale kv_store =
  fixes find :: "'m \<Rightarrow> 'k \<Rightarrow> 'v option option"
    and put :: "'m \<Rightarrow> 'k \<Rightarrow> 'v \<Rightarrow> 'm option"
    and nf :: "'k \<Rightarrow> 'n"
    and inv :: "'m \<Rightarrow> bool"
    and ok :: "'k \<Rightarrow> bool"
  assumes put_total: "inv m \<Longrightarrow> ok k \<Longrightarrow> \<exists>m'. put m k v = Some m' \<and> inv m'"
    and find_put_same:
      "inv m \<Longrightarrow> ok k \<Longrightarrow> put m k v = Some m' \<Longrightarrow> find m' k = Some (Some v)"
    and find_put_other:
      "inv m \<Longrightarrow> ok k \<Longrightarrow> ok j \<Longrightarrow> nf j \<noteq> nf k \<Longrightarrow> put m k v = Some m' \<Longrightarrow> find m' j = find m j"
begin

lemma put_inv: "inv m \<Longrightarrow> ok k \<Longrightarrow> put m k v = Some m' \<Longrightarrow> inv m'"
  using put_total [of m k v] by auto

fun put_all :: "'m \<Rightarrow> ('k \<times> 'v) list \<Rightarrow> 'm option" where
  "put_all m [] = Some m"
| "put_all m ((k, v) # ps) = Option.bind (put m k v) (\<lambda>m'. put_all m' ps)"

lemma put_all_total:
  "inv m \<Longrightarrow> \<forall>p\<in>set ps. ok (fst p) \<Longrightarrow> \<exists>m'. put_all m ps = Some m' \<and> inv m'"
proof (induction ps arbitrary: m)
  case (Cons p ps)
  obtain k v where p: "p = (k, v)" by (cases p)
  with Cons.prems obtain m1 where "put m k v = Some m1" "inv m1"
    using put_total [of m k v] by auto
  with Cons p show ?case by auto
qed simp

lemma find_put_all_other:
  assumes "inv m" "\<forall>p\<in>set ps. ok (fst p)" "ok j" "\<forall>p\<in>set ps. nf (fst p) \<noteq> nf j"
    "put_all m ps = Some m'"
  shows "find m' j = find m j"
  using assms
proof (induction ps arbitrary: m)
  case (Cons p ps)
  obtain k v where p: "p = (k, v)" by (cases p)
  with Cons.prems obtain m1 where m1: "put m k v = Some m1" "put_all m1 ps = Some m'"
    by (auto split: bind_splits)
  with Cons.prems p have "inv m1" by (auto intro: put_inv)
  with Cons.IH [of m1] Cons.prems m1 p have "find m' j = find m1 j" by simp
  also have "\<dots> = find m j" using Cons.prems m1 p by (intro find_put_other [of m k j]) auto
  finally show ?case .
qed simp

lemma find_put_all:
  assumes "inv m" "\<forall>p\<in>set ps. ok (fst p)" "distinct (map (nf \<circ> fst) ps)"
    "put_all m ps = Some m'" "(k, v) \<in> set ps"
  shows "find m' k = Some (Some v)"
  using assms
proof (induction ps arbitrary: m)
  case (Cons p ps)
  obtain k1 v1 where p: "p = (k1, v1)" by (cases p)
  with Cons.prems obtain m1 where m1: "put m k1 v1 = Some m1" "put_all m1 ps = Some m'"
    by (auto split: bind_splits)
  with Cons.prems p have inv1: "inv m1" by (auto intro: put_inv)
  show ?case
  proof (cases "(k, v) \<in> set ps")
    case True
    with Cons.IH [of m1] Cons.prems m1 inv1 show ?thesis by simp
  next
    case False
    with Cons.prems p have kv: "k = k1" "v = v1" by auto
    have "find m' k = find m1 k"
      using Cons.prems m1 inv1 p kv
      by (intro find_put_all_other [of m1 ps]) (auto simp: image_iff)
    also have "\<dots> = Some (Some v)"
      using Cons.prems m1 p kv by (intro find_put_same [of m]) auto
    finally show ?thesis .
  qed
qed simp

end

text \<open>A store that can also drop a key.\<close>

locale kv_store_del = kv_store find put nf inv ok
  for find :: "'m \<Rightarrow> 'k \<Rightarrow> 'v option option"
    and put :: "'m \<Rightarrow> 'k \<Rightarrow> 'v \<Rightarrow> 'm option"
    and nf :: "'k \<Rightarrow> 'n"
    and inv :: "'m \<Rightarrow> bool"
    and ok :: "'k \<Rightarrow> bool" +
  fixes del :: "'m \<Rightarrow> 'k \<Rightarrow> 'm option"
  assumes del_total: "inv m \<Longrightarrow> ok k \<Longrightarrow> \<exists>m'. del m k = Some m' \<and> inv m'"
    and find_del_same: "inv m \<Longrightarrow> ok k \<Longrightarrow> del m k = Some m' \<Longrightarrow> find m' k = Some None"
    and find_del_other:
      "inv m \<Longrightarrow> ok k \<Longrightarrow> ok j \<Longrightarrow> nf j \<noteq> nf k \<Longrightarrow> del m k = Some m' \<Longrightarrow> find m' j = find m j"
begin

lemma del_inv: "inv m \<Longrightarrow> ok k \<Longrightarrow> del m k = Some m' \<Longrightarrow> inv m'"
  using del_total [of m k] by auto

lemma find_del_put:
  assumes "inv m" "ok k" "put m k v = Some m1" "del m1 k = Some m2" "ok j"
  shows "find m2 j = (if j = k then Some None else if nf j \<noteq> nf k then find m j else find m2 j)"
  using assms find_del_same [of m1 k m2] find_del_other [of m1 k j m2] find_put_other [of m k j v m1]
    put_inv [of m k v m1] by auto

end

end
