(* ===== verification/Values.thy ===== *)
theory Values
  imports CString KvStore
begin

text \<open>
  The values of the language: \<open>Var\<close> and its operations in \<open>var.c\<close>, the error table of
  \<open>error.c\<close>, lists (\<open>list.c\<close>) and mappings (\<open>map.c\<close> over the hash tables of \<open>hash.c\<close>).

  A value is a tree: the reference counts and the sharing of lists, strings and mappings
  are not part of it. The places where the C code asks for them stay visible. \<open>list_assign\<close>,
  \<open>map_add\<close> and \<open>op_add\<close> take a flag for "the reference count is one", and \<open>var_eq\<close>
  takes the comparison of two mapping addresses as a parameter \<open>same\<close>; theorems hold for
  every choice unless they name one.
\<close>

section \<open>cool.h: errors\<close>

datatype err =
  E_NONE | E_TYPE | E_RANGE | E_INVIND | E_DIV | E_MAXREC | E_METHODNF | E_VARNF | E_VERBNF
| E_FOR | E_PERM | E_SERVERNF | E_SERVERDN | E_OBJNF | E_MESSAGE | E_TIMEOUT | E_STACKUND
| E_STACKOVR | E_INTERNAL | E_FILE | E_ARGTYPE | E_NARGS | E_TICKS | E_TERM | E_MAPNF

definition all_errs :: "err list" where
  "all_errs = [E_NONE, E_TYPE, E_RANGE, E_INVIND, E_DIV, E_MAXREC, E_METHODNF, E_VARNF,
     E_VERBNF, E_FOR, E_PERM, E_SERVERNF, E_SERVERDN, E_OBJNF, E_MESSAGE, E_TIMEOUT,
     E_STACKUND, E_STACKOVR, E_INTERNAL, E_FILE, E_ARGTYPE, E_NARGS, E_TICKS, E_TERM, E_MAPNF]"

fun index_of :: "'a \<Rightarrow> 'a list \<Rightarrow> nat" where
  "index_of x [] = 0"
| "index_of x (y # ys) = (if x = y then 0 else Suc (index_of x ys))"

definition err_num :: "err \<Rightarrow> nat" where
  "err_num e = index_of e all_errs"

definition NERRS :: nat where
  "NERRS = 25"

lemma err_num_less: "err_num e < NERRS"
  by (cases e) (simp_all add: err_num_def all_errs_def NERRS_def)

lemma all_errs_err_num: "all_errs ! err_num e = e"
  by (cases e) (simp_all add: err_num_def all_errs_def)

lemma err_num_inj [simp]: "err_num a = err_num b \<longleftrightarrow> a = b"
  by (metis all_errs_err_num)

abbreviation err_code :: "err \<Rightarrow> i32" where
  "err_code e \<equiv> of_nat (err_num e)"

section \<open>error.c\<close>

definition errors :: "(err \<times> string \<times> string) list" where
  "errors =
    [(E_NONE, ''E_NONE'', ''No error''),
     (E_TYPE, ''E_TYPE'', ''Type mismatch''),
     (E_ARGTYPE, ''E_ARGTYPE'', ''Argument type mismatch''),
     (E_NARGS, ''E_NARGS'', ''Incorrect number of arguments''),
     (E_RANGE, ''E_RANGE'', ''Range error''),
     (E_INVIND, ''E_INVIND'', ''Invalid indirection''),
     (E_DIV, ''E_DIV'', ''Division by zero''),
     (E_MAXREC, ''E_MAXREC'', ''Maximum recursion exceeded''),
     (E_METHODNF, ''E_METHODNF'', ''Method not found''),
     (E_VARNF, ''E_VARNF'', ''Variable not found''),
     (E_VERBNF, ''E_VERBNF'', ''Verb not found''),
     (E_FOR, ''E_FOR'', ''For variable not a list''),
     (E_SERVERNF, ''E_SERVERNF'', ''Server not found''),
     (E_SERVERDN, ''E_SERVERDN'', ''Server down''),
     (E_OBJNF, ''E_OBJNF'', ''Object not found''),
     (E_MESSAGE, ''E_MESSAGE'', ''Message unparseable''),
     (E_TIMEOUT, ''E_TIMEOUT'', ''Timed out''),
     (E_STACKOVR, ''E_STACKOVR'', ''Stack overflow''),
     (E_STACKUND, ''E_STACKUND'', ''Stack underflow''),
     (E_PERM, ''E_PERM'', ''Permission denied''),
     (E_INTERNAL, ''E_INTERNAL'', ''Internal error''),
     (E_FILE, ''E_FILE'', ''File not found''),
     (E_TICKS, ''E_TICKS'', ''Task ran out of ticks''),
     (E_TERM, ''E_TERM'', ''Task terminated''),
     (E_MAPNF, ''E_MAPNF'', ''Mapping not found'')]"

fun err_lookup :: "i32 \<Rightarrow> (err \<times> string \<times> string) list \<Rightarrow> (string \<times> string) option" where
  "err_lookup e [] = None"
| "err_lookup e ((x, nd) # es) = (if err_code x = e then Some nd else err_lookup e es)"

definition err_id2desc :: "i32 \<Rightarrow> string" where
  "err_id2desc e = (case err_lookup e errors of Some nd \<Rightarrow> snd nd | None \<Rightarrow> ''Unknown Error'')"

definition err_id2name :: "i32 \<Rightarrow> string" where
  "err_id2name e = (case err_lookup e errors of Some nd \<Rightarrow> fst nd | None \<Rightarrow> ''UNKNOWN_ERROR'')"

fun err_find_name :: "string \<Rightarrow> (err \<times> string \<times> string) list \<Rightarrow> i32" where
  "err_find_name name [] = -1"
| "err_find_name name ((x, nm, d) # es) =
     (if c_strcasecmp nm name = 0 then err_code x else err_find_name name es)"

definition err_name2id :: "string \<Rightarrow> i32" where
  "err_name2id name = err_find_name name errors"

section \<open>cool.h: values\<close>

record objid =
  server :: i16
  oid :: i32

record cstr =
  slen :: nat
  sdata :: string

definition mk_str :: "string \<Rightarrow> cstr" where
  "mk_str s = \<lparr>slen = length s, sdata = s\<rparr>"

lemma mk_str_sel [simp]: "slen (mk_str s) = length s" "sdata (mk_str s) = s"
  by (simp_all add: mk_str_def)

datatype 'a hasht = HashT (hnum: nat) (htable: "'a list list")

datatype var =
  VSTR cstr
| VNUM i32
| VOBJ objid
| VLIST "var list"
| VMAP "(var \<times> var) hasht"
| VERR i32
| VPC i32

type_synonym vmap = "(var \<times> var) hasht"

datatype type_spec = T_STR | T_NUM | T_OBJ | T_LIST | T_MAP | T_ERR | T_PC

fun vtype :: "var \<Rightarrow> type_spec" where
  "vtype (VSTR s) = T_STR"
| "vtype (VNUM n) = T_NUM"
| "vtype (VOBJ ob) = T_OBJ"
| "vtype (VLIST l) = T_LIST"
| "vtype (VMAP m) = T_MAP"
| "vtype (VERR e) = T_ERR"
| "vtype (VPC p) = T_PC"

text \<open>The number of a type, as \<open>typeof()\<close> returns it.\<close>

fun type_num :: "type_spec \<Rightarrow> int" where
  "type_num T_STR = 0" | "type_num T_NUM = 1" | "type_num T_OBJ = 2" | "type_num T_LIST = 3"
| "type_num T_MAP = 4" | "type_num T_ERR = 5" | "type_num T_PC = 6"

fun is_true :: "var \<Rightarrow> bool" where
  "is_true (VNUM n) \<longleftrightarrow> n \<noteq> 0"
| "is_true (VSTR s) \<longleftrightarrow> sdata s \<noteq> []"
| "is_true (VOBJ ob) \<longleftrightarrow> 0 \<le> sint (oid ob)"
| "is_true (VLIST l) \<longleftrightarrow> l \<noteq> []"
| "is_true _ \<longleftrightarrow> False"

abbreviation VNUMi :: "int \<Rightarrow> var" where
  "VNUMi n \<equiv> VNUM (i32_of n)"

abbreviation VSTRs :: "string \<Rightarrow> var" where
  "VSTRs s \<equiv> VSTR (mk_str s)"

section \<open>hash.c: tables and the hash of a value\<close>

definition HASH_INIT_SIZE :: int where
  "HASH_INIT_SIZE = 37"

definition hash_new :: "int \<Rightarrow> 'a hasht" where
  "hash_new htsize = HashT 0 (replicate (nat (max htsize HASH_INIT_SIZE)) [])"

abbreviation hsize :: "'a hasht \<Rightarrow> nat" where
  "hsize h \<equiv> length (htable h)"

abbreviation hentries :: "'a hasht \<Rightarrow> 'a list" where
  "hentries h \<equiv> concat (htable h)"

fun hash_var :: "var \<Rightarrow> i32" where
  "hash_var (VSTR s) = hash (sdata s)"
| "hash_var (VNUM n) = n"
| "hash_var (VOBJ ob) = oid ob"
| "hash_var (VLIST l) = of_nat (length l)"
| "hash_var (VMAP m) = of_nat (hnum m)"
| "hash_var (VERR e) = e"
| "hash_var (VPC p) = 0"

lemma hash_new_size: "hsize (hash_new n) = nat (max n 37)"
  by (simp add: hash_new_def HASH_INIT_SIZE_def)

lemma hash_new_entries [simp]: "hentries (hash_new n) = []" "hnum (hash_new n) = 0"
  by (simp_all add: hash_new_def)

lemma hash_new_size_pos [simp]: "0 < hsize (hash_new n)" "htable (hash_new n) \<noteq> []"
  by (auto simp: hash_new_def HASH_INIT_SIZE_def)

section \<open>var.c: equality and order\<close>

lemma size_list_nth_le: "i < length t \<Longrightarrow> size_list f (t ! i) \<le> size_list (size_list f) t"
proof (induction t arbitrary: i)
  case (Cons a t)
  show ?case
  proof (cases i)
    case (Suc j)
    with Cons.prems Cons.IH [of j] show ?thesis by simp
  qed simp
qed simp

lemma size_list_concat_le: "size_list f (concat t) \<le> size_list (size_list f) t"
  by (induction t) (auto simp: size_list_append)

lemma size_bucket: "i < hsize m \<Longrightarrow> size_list f (htable m ! i) < size_hasht f m"
  by (cases m) (use size_list_nth_le in \<open>auto intro: le_imp_less_Suc\<close>)

lemma size_entries: "size_list f (hentries m) < size_hasht f m"
  by (cases m) (auto intro: le_imp_less_Suc size_list_concat_le)

lemma size_entry [termination_simp]:
  assumes "b \<in> set (htable m)" "(x, y) \<in> set b"
  shows "size x < Suc (size_hasht (\<lambda>p. Suc (size (fst p) + size (snd p))) m)"
    "size y < Suc (size_hasht (\<lambda>p. Suc (size (fst p) + size (snd p))) m)"
proof -
  let ?f = "\<lambda>p. Suc (size (fst p) + size (snd p))"
  have "(x, y) \<in> set (hentries m)" using assms by auto
  then have "?f (x, y) \<le> size_list ?f (hentries m)"
    by (rule size_list_estimation') simp
  also have "\<dots> < size_hasht ?f m" by (rule size_entries)
  finally show "size x < Suc (size_hasht ?f m)" "size y < Suc (size_hasht ?f m)" by simp_all
qed

text \<open>
  \<open>var_eq\<close>. Two mappings at different addresses: the loop asks \<open>map_find\<close> for the first
  key of \<open>v1\<close>. \<open>map_find\<close> answers 0 when it finds the key, and the code tests \<open>!map_find\<close>:
  a found key makes the mappings unequal, and a missing one compares with the uninitialised
  \<open>to\<close>. Either way the loop ends in its first round.
\<close>

function (sequential) var_eq :: "(vmap \<Rightarrow> vmap \<Rightarrow> bool) \<Rightarrow> var \<Rightarrow> var \<Rightarrow> bool option"
  and vars_eq :: "(vmap \<Rightarrow> vmap \<Rightarrow> bool) \<Rightarrow> var list \<Rightarrow> var list \<Rightarrow> bool option"
  and bucket_find ::
    "(vmap \<Rightarrow> vmap \<Rightarrow> bool) \<Rightarrow> var \<Rightarrow> (var \<times> var) list \<Rightarrow> var option option"
where
  "var_eq same (VNUM a) (VNUM b) = Some (a = b)"
| "var_eq same (VPC a) (VPC b) = Some (a = b)"
| "var_eq same (VOBJ a) (VOBJ b) = Some (oid a = oid b \<and> server a = server b)"
| "var_eq same (VERR a) (VERR b) = Some (a = b)"
| "var_eq same (VSTR a) (VSTR b) = Some (c_strcasecmp (sdata a) (sdata b) = 0)"
| "var_eq same (VLIST a) (VLIST b) =
     (if length a \<noteq> length b then Some False else vars_eq same a b)"
| "var_eq same (VMAP a) (VMAP b) =
     (if same a b then Some True
      else if hnum a \<noteq> hnum b then Some False
      else (case hentries a of
              [] \<Rightarrow> Some True
            | (k, v) # _ \<Rightarrow>
                (case hash_index (hash_var k) (hsize b) of
                   None \<Rightarrow> None
                 | Some i \<Rightarrow>
                     (case bucket_find same k (htable b ! i) of
                        None \<Rightarrow> None
                      | Some None \<Rightarrow> None
                      | Some (Some _) \<Rightarrow> Some False))))"
| "var_eq same _ _ = Some False"
| "vars_eq same (x # xs) (y # ys) =
     (case var_eq same x y of
        None \<Rightarrow> None
      | Some False \<Rightarrow> Some False
      | Some True \<Rightarrow> vars_eq same xs ys)"
| "vars_eq same _ _ = Some True"
| "bucket_find same key [] = Some None"
| "bucket_find same key ((k, v) # b) =
     (case var_eq same key k of
        None \<Rightarrow> None
      | Some True \<Rightarrow> Some (Some v)
      | Some False \<Rightarrow> bucket_find same key b)"
  by pat_completeness auto
termination
proof (relation "measure (\<lambda>x. case x of
    Inl (same, a, b) \<Rightarrow> size a + size b
  | Inr (Inl (same, xs, ys)) \<Rightarrow> size_list size xs + size_list size ys
  | Inr (Inr (same, k, b)) \<Rightarrow> size k + size_list (size_prod size size) b)", goal_cases)
  case (3 same a b x y k v i)
  have "size k + 0 < size_list (size_prod size size) (hentries a)"
    using 3 by (cases x) auto
  also have "\<dots> < size_hasht (size_prod size size) a" by (rule size_entries)
  finally have "size k < size_hasht (size_prod size size) a" by simp
  moreover have "size_list (size_prod size size) (htable b ! i) < size_hasht (size_prod size size) b"
    using 3 hash_index_in_range by (intro size_bucket) auto
  ultimately show ?case by simp
qed auto

text \<open>
  \<open>var_compare\<close> switches on the type of \<open>v1\<close> only, and reads the same member of \<open>v2\<close>. A
  number, an error and a program counter share the word of the union; any other mix of
  types reads a pointer as a number or a number as a pointer (\<open>None\<close>).
\<close>

fun var_num_word :: "var \<Rightarrow> i32 option" where
  "var_num_word (VNUM n) = Some n"
| "var_num_word (VERR e) = Some e"
| "var_num_word (VPC p) = Some p"
| "var_num_word _ = None"

fun var_compare :: "var \<Rightarrow> var \<Rightarrow> int option" where
  "var_compare (VNUM a) v2 = map_option (\<lambda>b. sint (a - b)) (var_num_word v2)"
| "var_compare (VSTR a) (VSTR b) = Some (c_strcasecmp (sdata a) (sdata b))"
| "var_compare (VSTR a) _ = None"
| "var_compare (VOBJ a) (VOBJ b) = Some (sint (oid a - oid b))"
| "var_compare (VOBJ a) _ = None"
| "var_compare _ _ = Some (-1)"

section \<open>list.c\<close>

fun list_ismember_from ::
  "(vmap \<Rightarrow> vmap \<Rightarrow> bool) \<Rightarrow> nat \<Rightarrow> var \<Rightarrow> var list \<Rightarrow> nat option" where
  "list_ismember_from same i x [] = Some 0"
| "list_ismember_from same i x (y # ys) =
     (case var_eq same x y of
        None \<Rightarrow> None
      | Some True \<Rightarrow> Some (i + 1)
      | Some False \<Rightarrow> list_ismember_from same (i + 1) x ys)"

definition list_ismember :: "(vmap \<Rightarrow> vmap \<Rightarrow> bool) \<Rightarrow> var \<Rightarrow> var list \<Rightarrow> nat option" where
  "list_ismember same x xs = list_ismember_from same 0 x xs"

text \<open>
  \<open>doinsert\<close> fills a new array of one more element in three parts; \<open>pos\<close> is in
  \<open>1..len + 1\<close> for both of its callers.
\<close>

definition doinsert :: "var list \<Rightarrow> var \<Rightarrow> int \<Rightarrow> var list" where
  "doinsert l v pos =
     map (\<lambda>i. if int i < pos - 1 then l ! i else if int i = pos - 1 then v else l ! (i - 1))
       [0..<length l + 1]"

definition list_insert :: "var list \<Rightarrow> var \<Rightarrow> int \<Rightarrow> var list" where
  "list_insert l v pos =
     doinsert l v (if pos < 1 \<or> int (length l) < pos then 1 else pos)"

definition list_append :: "var list \<Rightarrow> var \<Rightarrow> int \<Rightarrow> var list" where
  "list_append l v pos =
     doinsert l v ((if pos < 1 \<or> int (length l) < pos then int (length l) else pos) + 1)"

definition list_delete :: "var list \<Rightarrow> int \<Rightarrow> var list option" where
  "list_delete l pos =
     (if pos < 1 \<or> int (length l) < pos then None
      else Some (map (\<lambda>i. if int i < pos - 1 then l ! i else l ! (i + 1)) [0..<length l - 1]))"

text \<open>\<open>ref1\<close>: the list has one reference and is updated in place; else it is copied.\<close>

definition list_assign :: "bool \<Rightarrow> var list \<Rightarrow> var \<Rightarrow> int \<Rightarrow> var list option" where
  "list_assign ref1 l v pos =
     (if ref1 then upd_opt l (pos - 1) v
      else Some (map (\<lambda>i. if int i = pos - 1 then v else l ! i) [0..<length l]))"

definition list_subset :: "var list \<Rightarrow> int \<Rightarrow> int \<Rightarrow> var list option" where
  "list_subset l lower upper =
     (if upper < lower - 1 \<or> (lower \<le> upper \<and> (lower < 1 \<or> int (length l) < upper)) then None
      else Some (map (\<lambda>i. l ! nat i) [lower - 1..upper - 1]))"

definition list_setadd ::
  "(vmap \<Rightarrow> vmap \<Rightarrow> bool) \<Rightarrow> var list \<Rightarrow> var \<Rightarrow> var list option" where
  "list_setadd same l v = do {
     t \<leftarrow> list_ismember same v l;
     if t \<noteq> 0 then Some l else Some (list_append l v 0) }"

definition list_setremove ::
  "(vmap \<Rightarrow> vmap \<Rightarrow> bool) \<Rightarrow> var list \<Rightarrow> var \<Rightarrow> var list option" where
  "list_setremove same l v = do {
     t \<leftarrow> list_ismember same v l;
     if t \<noteq> 0 then list_delete l (int t) else Some l }"

text \<open>
  \<open>list_sort\<close> hands the elements to the library's \<open>qsort\<close>, a parameter here, with
  \<open>var_compare\<close> or its converse. Two elements that \<open>var_compare\<close> cannot compare make the
  call undefined.
\<close>

definition comparable :: "var list \<Rightarrow> bool" where
  "comparable l \<longleftrightarrow> (\<forall>a\<in>set l. \<forall>b\<in>set l. var_compare a b \<noteq> None)"

definition sort_cmp :: "bool \<Rightarrow> var \<Rightarrow> var \<Rightarrow> int" where
  "sort_cmp rv a b = (if rv then the (var_compare b a) else the (var_compare a b))"

definition list_sort ::
  "((var \<Rightarrow> var \<Rightarrow> int) \<Rightarrow> var list \<Rightarrow> var list) \<Rightarrow> var list \<Rightarrow> bool \<Rightarrow> var list option" where
  "list_sort qsort l rv =
     (if length l \<le> 1 \<or> comparable l then Some (qsort (sort_cmp rv) l) else None)"

lemma doinsert_take_drop:
  "1 \<le> pos \<Longrightarrow> pos \<le> int (length l) + 1 \<Longrightarrow>
     doinsert l v pos = take (nat (pos - 1)) l @ v # drop (nat (pos - 1)) l"
proof -
  assume "1 \<le> pos" "pos \<le> int (length l) + 1"
  then obtain n where n: "pos = int n + 1" "n \<le> length l"
    by (metis add.commute add_le_cancel_right diff_add_cancel of_nat_le_iff zero_le_imp_eq_int
        le_diff_eq add_0)
  have "doinsert l v pos ! i = (take n l @ v # drop n l) ! i" if "i < length l + 1" for i
  proof -
    have "doinsert l v pos ! i = (if i < n then l ! i else if i = n then v else l ! (i - 1))"
      using that n by (auto simp: doinsert_def simp del: upt_Suc)
    moreover have "(take n l @ v # drop n l) ! i =
      (if i < n then l ! i else if i = n then v else l ! (i - 1))"
    proof (cases "n < i")
      case True
      then obtain j where "i = n + Suc j" using less_iff_Suc_add by auto
      with that n(2) show ?thesis by (simp add: nth_append)
    qed (use that n in \<open>auto simp: nth_append\<close>)
    ultimately show ?thesis by simp
  qed
  then show ?thesis using n by (intro nth_equalityI) (auto simp: doinsert_def)
qed

lemma list_append_end [simp]: "list_append l v 0 = l @ [v]"
  by (simp add: list_append_def doinsert_take_drop)

lemma list_insert_take_drop:
  "list_insert l v pos =
     (let n = (if pos < 1 \<or> int (length l) < pos then 0 else nat (pos - 1))
      in take n l @ v # drop n l)"
  by (auto simp: list_insert_def doinsert_take_drop Let_def)

lemma list_append_take_drop:
  "list_append l v pos =
     (let n = (if pos < 1 \<or> int (length l) < pos then length l else nat pos)
      in take n l @ v # drop n l)"
  by (auto simp: list_append_def doinsert_take_drop Let_def)

lemma list_delete_take_drop:
  "1 \<le> pos \<Longrightarrow> pos \<le> int (length l) \<Longrightarrow>
     list_delete l pos = Some (take (nat (pos - 1)) l @ drop (nat pos) l)"
  by (auto simp: list_delete_def intro!: nth_equalityI)
    (auto simp: nth_append nat_diff_distrib' Suc_nat_eq_nat_zadd1 intro!: arg_cong [of _ _ "(!) l"])

lemma list_assign_update:
  "1 \<le> pos \<Longrightarrow> pos \<le> int (length l) \<Longrightarrow> list_assign ref1 l v pos = Some (l[nat (pos - 1) := v])"
  by (auto simp: list_assign_def upd_opt_def intro!: nth_equalityI) (auto simp: nth_list_update)

lemma list_subset_take_drop:
  "1 \<le> lo \<Longrightarrow> lo \<le> up \<Longrightarrow> up \<le> int (length l) \<Longrightarrow>
     list_subset l lo up = Some (take (nat (up - lo + 1)) (drop (nat (lo - 1)) l))"
  by (auto simp: list_subset_def intro!: nth_equalityI) (auto simp: nat_add_distrib nat_diff_distrib)

lemmas list_shape = list_insert_take_drop list_append_take_drop list_delete_take_drop
  list_assign_update list_subset_take_drop

section \<open>map.c\<close>

abbreviation map_new :: "int \<Rightarrow> vmap" where
  "map_new n \<equiv> hash_new n"

definition map_find :: "(vmap \<Rightarrow> vmap \<Rightarrow> bool) \<Rightarrow> vmap \<Rightarrow> var \<Rightarrow> var option option" where
  "map_find same m key = do {
     i \<leftarrow> hash_index (hash_var key) (hsize m);
     bucket_find same key (htable m ! i) }"

text \<open>The walk along one chain: the flag says that the key was new.\<close>

fun bucket_put ::
  "(vmap \<Rightarrow> vmap \<Rightarrow> bool) \<Rightarrow> var \<Rightarrow> var \<Rightarrow> (var \<times> var) list \<Rightarrow> (bool \<times> (var \<times> var) list) option"
where
  "bucket_put same key v [] = Some (True, [(key, v)])"
| "bucket_put same key v ((k, w) # b) =
     (case var_eq same key k of
        None \<Rightarrow> None
      | Some True \<Rightarrow> Some (False, (k, v) # b)
      | Some False \<Rightarrow> map_option (\<lambda>(new, b'). (new, (k, w) # b')) (bucket_put same key v b))"

definition map_put_at ::
  "(vmap \<Rightarrow> vmap \<Rightarrow> bool) \<Rightarrow> nat \<Rightarrow> vmap \<Rightarrow> var \<Rightarrow> var \<Rightarrow> vmap option" where
  "map_put_at same i m key v =
     (if hsize m \<le> i then None
      else do {
        r \<leftarrow> bucket_put same key v (htable m ! i);
        Some (HashT (if fst r then hnum m + 1 else hnum m) ((htable m)[i := snd r])) })"

text \<open>\<open>map_add\<close> on a mapping with one reference; \<open>map_copy\<close> uses it on its new table.\<close>

definition map_add_own ::
  "(vmap \<Rightarrow> vmap \<Rightarrow> bool) \<Rightarrow> vmap \<Rightarrow> var \<Rightarrow> var \<Rightarrow> vmap option" where
  "map_add_own same m key v = do {
     i \<leftarrow> hash_index (hash_var key) (hsize m);
     map_put_at same i m key v }"

fun map_add_all ::
  "(vmap \<Rightarrow> vmap \<Rightarrow> bool) \<Rightarrow> vmap \<Rightarrow> (var \<times> var) list \<Rightarrow> vmap option" where
  "map_add_all same m [] = Some m"
| "map_add_all same m ((k, v) # ps) = do {
     m' \<leftarrow> map_add_own same m k v;
     map_add_all same m' ps }"

definition map_copy :: "(vmap \<Rightarrow> vmap \<Rightarrow> bool) \<Rightarrow> vmap \<Rightarrow> vmap option" where
  "map_copy same m = map_add_all same (map_new (int (hnum m))) (hentries m)"

text \<open>
  The bucket is chosen from the size of the old table, before a shared mapping is copied;
  the copy may have another size.
\<close>

definition map_add ::
  "bool \<Rightarrow> (vmap \<Rightarrow> vmap \<Rightarrow> bool) \<Rightarrow> vmap \<Rightarrow> var \<Rightarrow> var \<Rightarrow> vmap option" where
  "map_add ref1 same m key v = do {
     i \<leftarrow> hash_index (hash_var key) (hsize m);
     m' \<leftarrow> (if ref1 then Some m else map_copy same m);
     map_put_at same i m' key v }"

definition map_keys :: "vmap \<Rightarrow> var list" where
  "map_keys m = foldl (\<lambda>l p. list_append l (fst p) 0) [] (hentries m)"

lemma map_keys_eq: "map_keys m = map fst (hentries m)"
proof -
  have "foldl (\<lambda>l p. list_append l (fst p) 0) xs ps = xs @ map fst ps" for xs ps
    by (induction ps arbitrary: xs) auto
  from this [of "[]"] show ?thesis unfolding map_keys_def by simp
qed

lemma map_add_owned: "map_add True same m k v = map_add_own same m k v"
  by (simp add: map_add_def map_add_own_def)

subsection \<open>Scalar keys\<close>

text \<open>
  On numbers, objects, errors and strings \<open>var_eq\<close> is total and is equality of a normal
  form, strings being compared without regard to case.
\<close>

fun key_nf :: "var \<Rightarrow> var" where
  "key_nf (VSTR s) = VSTRs (map c_tolower (sdata s))"
| "key_nf v = v"

fun scalar :: "var \<Rightarrow> bool" where
  "scalar (VSTR s) \<longleftrightarrow> nul_free (sdata s)"
| "scalar (VNUM n) \<longleftrightarrow> True"
| "scalar (VOBJ ob) \<longleftrightarrow> True"
| "scalar (VERR e) \<longleftrightarrow> True"
| "scalar _ \<longleftrightarrow> False"

lemma mk_str_inj [simp]: "mk_str s = mk_str t \<longleftrightarrow> s = t"
  by (auto simp: mk_str_def)

lemma var_eq_scalar: "scalar a \<Longrightarrow> scalar b \<Longrightarrow> var_eq same a b = Some (key_nf a = key_nf b)"
  by (cases a; cases b) (auto simp: strcasecmp_zero_iff)

fun nf_lookup :: "var \<Rightarrow> (var \<times> var) list \<Rightarrow> var option" where
  "nf_lookup key [] = None"
| "nf_lookup key ((k, w) # b) = (if key_nf key = key_nf k then Some w else nf_lookup key b)"

fun nf_put :: "var \<Rightarrow> var \<Rightarrow> (var \<times> var) list \<Rightarrow> (var \<times> var) list" where
  "nf_put key v [] = [(key, v)]"
| "nf_put key v ((k, w) # b) =
     (if key_nf key = key_nf k then (k, v) # b else (k, w) # nf_put key v b)"

definition scalar_keys :: "(var \<times> var) list \<Rightarrow> bool" where
  "scalar_keys b \<longleftrightarrow> (\<forall>p\<in>set b. scalar (fst p))"

lemma scalar_keys_simps [simp]:
  "scalar_keys []" "scalar_keys (p # b) \<longleftrightarrow> scalar (fst p) \<and> scalar_keys b"
  "scalar_keys (a @ b) \<longleftrightarrow> scalar_keys a \<and> scalar_keys b"
  by (auto simp: scalar_keys_def)

lemma bucket_find_nf:
  "scalar key \<Longrightarrow> scalar_keys b \<Longrightarrow> bucket_find same key b = Some (nf_lookup key b)"
  by (induction key b rule: nf_lookup.induct) (auto simp: var_eq_scalar)

lemma bucket_put_nf:
  "scalar key \<Longrightarrow> scalar_keys b \<Longrightarrow>
     bucket_put same key v b = Some (nf_lookup key b = None, nf_put key v b)"
  by (induction key v b rule: nf_put.induct) (auto simp: var_eq_scalar)

lemma nf_lookup_put [simp]:
  "nf_lookup j (nf_put key v b) = (if key_nf j = key_nf key then Some v else nf_lookup j b)"
  by (induction key v b rule: nf_put.induct) auto

lemma scalar_keys_put [simp]:
  "scalar key \<Longrightarrow> scalar_keys b \<Longrightarrow> scalar_keys (nf_put key v b)"
  by (induction key v b rule: nf_put.induct) auto

lemma length_nf_put:
  "length (nf_put key v b) = (if nf_lookup key b = None then length b + 1 else length b)"
  by (induction key v b rule: nf_put.induct) auto

lemma nf_put_keys:
  "p \<in> set (nf_put key v b) \<Longrightarrow> fst p = key \<or> fst p \<in> fst ` set b"
  by (induction key v b rule: nf_put.induct) (auto split: if_splits)

lemma nf_put_fresh: "nf_lookup key b = None \<Longrightarrow> nf_put key v b = b @ [(key, v)]"
  by (induction key v b rule: nf_put.induct) (auto split: if_splits)

subsection \<open>Well-formed mappings\<close>

text \<open>
  Every pair is in the bucket of its key, keys are scalar, and the count is right. A key is
  usable when its hash is not negative: C's \<open>%\<close> keeps the sign of a negative number, so a
  negative key has no bucket.
\<close>

definition map_wf :: "vmap \<Rightarrow> bool" where
  "map_wf m \<longleftrightarrow> 0 < hsize m \<and> hnum m = length (hentries m) \<and>
     (\<forall>i<hsize m. scalar_keys (htable m ! i) \<and>
        (\<forall>p\<in>set (htable m ! i). hash_index (hash_var (fst p)) (hsize m) = Some i))"

definition key_ok :: "var \<Rightarrow> bool" where
  "key_ok k \<longleftrightarrow> scalar k \<and> 0 \<le> sint (hash_var k)"

lemma key_ok_index: "key_ok k \<Longrightarrow> 0 < n \<Longrightarrow> \<exists>i. hash_index (hash_var k) n = Some i \<and> i < n"
  using c_mod_range [of "sint (hash_var k)" "int n"]
  by (auto simp: key_ok_def hash_index_def Let_def)

lemma map_wf_new: "map_wf (map_new n)"
  by (simp add: map_wf_def hash_new_def HASH_INIT_SIZE_def)

lemma length_concat_update:
  "i < length t \<Longrightarrow>
     length (concat (t[i := b])) + length (t ! i) = length (concat t) + length b"
  by (induction t arbitrary: i) (auto simp: nth_Cons split: nat.splits)

lemma map_add_own_wf:
  assumes wf: "map_wf m" and k: "key_ok k"
  obtains i where "hash_index (hash_var k) (hsize m) = Some i" "i < hsize m"
    "map_add_own same m k v = Some (HashT
       (if nf_lookup k (htable m ! i) = None then hnum m + 1 else hnum m)
       ((htable m)[i := nf_put k v (htable m ! i)]))"
proof -
  from wf k obtain i where i: "hash_index (hash_var k) (hsize m) = Some i" "i < hsize m"
    using key_ok_index [of k "hsize m"] by (auto simp: map_wf_def)
  moreover have "scalar_keys (htable m ! i)" using wf i by (simp add: map_wf_def)
  ultimately show ?thesis using k
    by (intro that [of i]) (auto simp: map_add_own_def map_put_at_def bucket_put_nf key_ok_def)
qed

lemma map_add_own_inv:
  assumes wf: "map_wf m" and k: "key_ok k"
  shows "\<exists>m'. map_add_own same m k v = Some m' \<and> map_wf m'"
proof -
  from wf k obtain i where i: "hash_index (hash_var k) (hsize m) = Some i" "i < hsize m"
    and eq: "map_add_own same m k v = Some (HashT
       (if nf_lookup k (htable m ! i) = None then hnum m + 1 else hnum m)
       ((htable m)[i := nf_put k v (htable m ! i)]))" (is "_ = Some ?m'")
    by (rule map_add_own_wf)
  have bucket: "scalar_keys (htable m ! j)"
    "\<forall>p\<in>set (htable m ! j). hash_index (hash_var (fst p)) (hsize m) = Some j"
    if "j < hsize m" for j using wf that by (auto simp: map_wf_def)
  have "hnum ?m' = length (hentries ?m')"
    using wf length_concat_update [OF i(2), of "nf_put k v (htable m ! i)"]
    by (auto simp: map_wf_def length_nf_put split: if_splits)
  moreover have "scalar_keys (htable ?m' ! j) \<and>
      (\<forall>p\<in>set (htable ?m' ! j). hash_index (hash_var (fst p)) (hsize ?m') = Some j)"
    if j: "j < hsize ?m'" for j
  proof (cases "j = i")
    case True
    with bucket(2) [OF i(2)] i k bucket(1) [OF i(2)] show ?thesis
      by (fastforce simp: key_ok_def dest: nf_put_keys)
  next
    case False
    with j bucket show ?thesis by auto
  qed
  ultimately have "map_wf ?m'" using wf by (auto simp: map_wf_def)
  with eq show ?thesis by simp
qed

lemma map_find_add_own:
  assumes wf: "map_wf m" and k: "key_ok k" and j: "key_ok j"
    and add: "map_add_own same m k v = Some m'"
  shows "j = k \<Longrightarrow> map_find same m' j = Some (Some v)"
    "key_nf j \<noteq> key_nf k \<Longrightarrow> map_find same m' j = map_find same m j"
proof -
  from wf k obtain i where i: "hash_index (hash_var k) (hsize m) = Some i" "i < hsize m"
    and eq: "map_add_own same m k v = Some (HashT
       (if nf_lookup k (htable m ! i) = None then hnum m + 1 else hnum m)
       ((htable m)[i := nf_put k v (htable m ! i)]))"
    by (rule map_add_own_wf)
  have m': "m' = HashT (if nf_lookup k (htable m ! i) = None then hnum m + 1 else hnum m)
       ((htable m)[i := nf_put k v (htable m ! i)])"
    using add eq by simp
  from wf j obtain i' where i': "hash_index (hash_var j) (hsize m) = Some i'" "i' < hsize m"
    using key_ok_index [of j "hsize m"] by (auto simp: map_wf_def)
  have sk: "scalar j" "scalar k" using j k by (simp_all add: key_ok_def)
  have bk: "scalar_keys (htable m ! n)" if "n < hsize m" for n
    using wf that by (simp add: map_wf_def)
  show "j = k \<Longrightarrow> map_find same m' j = Some (Some v)"
    using i sk bk [OF i(2)] by (simp add: map_find_def m' bucket_find_nf)
  show "key_nf j \<noteq> key_nf k \<Longrightarrow> map_find same m' j = map_find same m j"
    using i i' sk bk [OF i(2)] bk [OF i'(2)]
    by (cases "i' = i") (simp_all add: map_find_def m' bucket_find_nf)
qed

interpretation vmap_store: kv_store "map_find same" "map_add_own same" key_nf map_wf key_ok
  by unfold_locales (auto simp: map_add_own_inv map_find_add_own)

lemma map_add_all_put_all: "map_add_all same m ps = vmap_store.put_all same m ps"
  by (induction ps arbitrary: m) (auto simp: vmap_store.put_all.simps)

end
