(* ===== verification/OpTable.thy ===== *)
theory OpTable
  imports CString
begin

text \<open>
  The opcode table (\<open>opcode.c\<close>) and the table of built-in functions (\<open>builtins.c\<close>). An
  opcode is the token number the generated \<open>x.tab.h\<close> gives it. The functions of the opcodes
  are in the theories of the machine; here is what the rest of the server asks the tables
  for: the inline arguments of an opcode and the argument counts of a built-in.
\<close>

section \<open>x.tab.h: the numbers of the opcodes\<close>

abbreviation (input) O_IF :: int where "O_IF \<equiv> 276"
abbreviation (input) O_ELSEIF :: int where "O_ELSEIF \<equiv> 278"
abbreviation (input) O_ELSE :: int where "O_ELSE \<equiv> 277"
abbreviation (input) O_FOR :: int where "O_FOR \<equiv> 280"
abbreviation (input) O_FORRNG :: int where "O_FORRNG \<equiv> 396"
abbreviation (input) O_WHILE :: int where "O_WHILE \<equiv> 399"
abbreviation (input) O_DO :: int where "O_DO \<equiv> 397"
abbreviation (input) O_DOWHILE :: int where "O_DOWHILE \<equiv> 398"
abbreviation (input) O_AT :: int where "O_AT \<equiv> 282"
abbreviation (input) O_PUSHPC :: int where "O_PUSHPC \<equiv> 401"
abbreviation (input) O_SLEEP :: int where "O_SLEEP \<equiv> 395"
abbreviation (input) O_NUMPUSH :: int where "O_NUMPUSH \<equiv> 332"
abbreviation (input) O_STRPUSH :: int where "O_STRPUSH \<equiv> 333"
abbreviation (input) O_OBJPUSH :: int where "O_OBJPUSH \<equiv> 331"
abbreviation (input) O_LISTPUSH :: int where "O_LISTPUSH \<equiv> 334"
abbreviation (input) O_MAPPUSH :: int where "O_MAPPUSH \<equiv> 335"
abbreviation (input) O_ERRPUSH :: int where "O_ERRPUSH \<equiv> 336"
abbreviation (input) O_GETLVAR :: int where "O_GETLVAR \<equiv> 321"
abbreviation (input) O_GETGVAR :: int where "O_GETGVAR \<equiv> 322"
abbreviation (input) O_GETGVAREXPR :: int where "O_GETGVAREXPR \<equiv> 323"
abbreviation (input) O_GETSYSVAR :: int where "O_GETSYSVAR \<equiv> 330"
abbreviation (input) O_ASGNLVAR :: int where "O_ASGNLVAR \<equiv> 324"
abbreviation (input) O_ASGNGVAR :: int where "O_ASGNGVAR \<equiv> 325"
abbreviation (input) O_ASGNGVAREXPR :: int where "O_ASGNGVAREXPR \<equiv> 326"
abbreviation (input) O_ASGNLVARINDEX :: int where "O_ASGNLVARINDEX \<equiv> 328"
abbreviation (input) O_ASGNGVARINDEX :: int where "O_ASGNGVARINDEX \<equiv> 329"
abbreviation (input) O_PARENTS :: int where "O_PARENTS \<equiv> 290"
abbreviation (input) O_THIS :: int where "O_THIS \<equiv> 303"
abbreviation (input) O_PLAYER :: int where "O_PLAYER \<equiv> 301"
abbreviation (input) O_CALLER :: int where "O_CALLER \<equiv> 302"
abbreviation (input) O_ARGS :: int where "O_ARGS \<equiv> 300"
abbreviation (input) O_SETPLAYER :: int where "O_SETPLAYER \<equiv> 304"
abbreviation (input) O_ADD :: int where "O_ADD \<equiv> 308"
abbreviation (input) O_SUB :: int where "O_SUB \<equiv> 309"
abbreviation (input) O_MUL :: int where "O_MUL \<equiv> 310"
abbreviation (input) O_DIV :: int where "O_DIV \<equiv> 311"
abbreviation (input) O_MOD :: int where "O_MOD \<equiv> 312"
abbreviation (input) O_NEGATE :: int where "O_NEGATE \<equiv> 270"
abbreviation (input) O_AND :: int where "O_AND \<equiv> 261"
abbreviation (input) O_OR :: int where "O_OR \<equiv> 260"
abbreviation (input) O_ENDAND :: int where "O_ENDAND \<equiv> 392"
abbreviation (input) O_ENDOR :: int where "O_ENDOR \<equiv> 393"
abbreviation (input) O_NOT :: int where "O_NOT \<equiv> 269"
abbreviation (input) O_EQ :: int where "O_EQ \<equiv> 263"
abbreviation (input) O_NE :: int where "O_NE \<equiv> 264"
abbreviation (input) O_GT :: int where "O_GT \<equiv> 267"
abbreviation (input) O_GE :: int where "O_GE \<equiv> 268"
abbreviation (input) O_LT :: int where "O_LT \<equiv> 265"
abbreviation (input) O_LE :: int where "O_LE \<equiv> 266"
abbreviation (input) O_MESSAGE :: int where "O_MESSAGE \<equiv> 306"
abbreviation (input) O_MESSAGE_EXPR :: int where "O_MESSAGE_EXPR \<equiv> 307"
abbreviation (input) O_INDEX :: int where "O_INDEX \<equiv> 313"
abbreviation (input) O_IN :: int where "O_IN \<equiv> 262"
abbreviation (input) O_SUBSET :: int where "O_SUBSET \<equiv> 314"
abbreviation (input) O_LSUBSET :: int where "O_LSUBSET \<equiv> 315"
abbreviation (input) O_RSUBSET :: int where "O_RSUBSET \<equiv> 316"
abbreviation (input) O_SPLICE :: int where "O_SPLICE \<equiv> 404"
abbreviation (input) O_ARGSTART :: int where "O_ARGSTART \<equiv> 405"
abbreviation (input) O_LENGTHOF :: int where "O_LENGTHOF \<equiv> 371"
abbreviation (input) O_SETADD :: int where "O_SETADD \<equiv> 347"
abbreviation (input) O_SETREMOVE :: int where "O_SETREMOVE \<equiv> 348"
abbreviation (input) O_LISTINSERT :: int where "O_LISTINSERT \<equiv> 349"
abbreviation (input) O_LISTAPPEND :: int where "O_LISTAPPEND \<equiv> 350"
abbreviation (input) O_LISTDELETE :: int where "O_LISTDELETE \<equiv> 351"
abbreviation (input) O_LISTASSIGN :: int where "O_LISTASSIGN \<equiv> 352"
abbreviation (input) O_EXPLODE :: int where "O_EXPLODE \<equiv> 342"
abbreviation (input) O_SORT :: int where "O_SORT \<equiv> 357"
abbreviation (input) O_STRSUB :: int where "O_STRSUB \<equiv> 343"
abbreviation (input) O_PAD :: int where "O_PAD \<equiv> 345"
abbreviation (input) O_PSUB :: int where "O_PSUB \<equiv> 344"
abbreviation (input) O_STRCMP :: int where "O_STRCMP \<equiv> 359"
abbreviation (input) O_F_INDEX :: int where "O_F_INDEX \<equiv> 360"
abbreviation (input) O_RINDEX :: int where "O_RINDEX \<equiv> 361"
abbreviation (input) O_TOLOWER :: int where "O_TOLOWER \<equiv> 362"
abbreviation (input) O_TOUPPER :: int where "O_TOUPPER \<equiv> 363"
abbreviation (input) O_RANDOM :: int where "O_RANDOM \<equiv> 346"
abbreviation (input) O_TOSTR :: int where "O_TOSTR \<equiv> 368"
abbreviation (input) O_TONUM :: int where "O_TONUM \<equiv> 366"
abbreviation (input) O_TOOBJ :: int where "O_TOOBJ \<equiv> 367"
abbreviation (input) O_TOERR :: int where "O_TOERR \<equiv> 369"
abbreviation (input) O_TYPEOF :: int where "O_TYPEOF \<equiv> 370"
abbreviation (input) O_SERVEROF :: int where "O_SERVEROF \<equiv> 372"
abbreviation (input) O_SERVERNAME :: int where "O_SERVERNAME \<equiv> 373"
abbreviation (input) O_SERVERS :: int where "O_SERVERS \<equiv> 374"
abbreviation (input) O_STOP :: int where "O_STOP \<equiv> 305"
abbreviation (input) O_T_RAISE :: int where "O_T_RAISE \<equiv> 390"
abbreviation (input) O_T_RETURN :: int where "O_T_RETURN \<equiv> 285"
abbreviation (input) O_BREAK :: int where "O_BREAK \<equiv> 287"
abbreviation (input) O_CONTINUE :: int where "O_CONTINUE \<equiv> 286"
abbreviation (input) O_ECHO :: int where "O_ECHO \<equiv> 386"
abbreviation (input) O_ECHON :: int where "O_ECHON \<equiv> 406"
abbreviation (input) O_ECHO_FILE :: int where "O_ECHO_FILE \<equiv> 394"
abbreviation (input) O_CONNECT :: int where "O_CONNECT \<equiv> 358"
abbreviation (input) O_TIME :: int where "O_TIME \<equiv> 340"
abbreviation (input) O_CTIME :: int where "O_CTIME \<equiv> 341"
abbreviation (input) O_CLONE :: int where "O_CLONE \<equiv> 337"
abbreviation (input) O_DESTROY :: int where "O_DESTROY \<equiv> 338"
abbreviation (input) O_CHPARENTS :: int where "O_CHPARENTS \<equiv> 339"
abbreviation (input) O_FIND_METHOD :: int where "O_FIND_METHOD \<equiv> 317"
abbreviation (input) O_SPEW_METHOD :: int where "O_SPEW_METHOD \<equiv> 318"
abbreviation (input) O_LIST_METHOD :: int where "O_LIST_METHOD \<equiv> 319"
abbreviation (input) O_DECOMPILE :: int where "O_DECOMPILE \<equiv> 320"
abbreviation (input) O_POP :: int where "O_POP \<equiv> 327"
abbreviation (input) O_CRYPT :: int where "O_CRYPT \<equiv> 353"
abbreviation (input) O_CHECKMEM :: int where "O_CHECKMEM \<equiv> 354"
abbreviation (input) O_CACHE_STATS :: int where "O_CACHE_STATS \<equiv> 355"
abbreviation (input) O_SET_PARSE :: int where "O_SET_PARSE \<equiv> 356"
abbreviation (input) O_LOCK :: int where "O_LOCK \<equiv> 364"
abbreviation (input) O_UNLOCK :: int where "O_UNLOCK \<equiv> 365"
abbreviation (input) O_HASPARENT :: int where "O_HASPARENT \<equiv> 379"
abbreviation (input) O_OBJSIZE :: int where "O_OBJSIZE \<equiv> 380"
abbreviation (input) O_VARS :: int where "O_VARS \<equiv> 376"
abbreviation (input) O_VERBS :: int where "O_VERBS \<equiv> 375"
abbreviation (input) O_METHODS :: int where "O_METHODS \<equiv> 377"
abbreviation (input) O_VERB :: int where "O_VERB \<equiv> 295"
abbreviation (input) O_RMVERB :: int where "O_RMVERB \<equiv> 297"
abbreviation (input) O_RMMETHOD :: int where "O_RMMETHOD \<equiv> 298"
abbreviation (input) O_RMVAR :: int where "O_RMVAR \<equiv> 299"
abbreviation (input) O_PROGRAM :: int where "O_PROGRAM \<equiv> 388"
abbreviation (input) O_COMPILE :: int where "O_COMPILE \<equiv> 389"
abbreviation (input) O_MATCH :: int where "O_MATCH \<equiv> 381"
abbreviation (input) O_MATCH_FULL :: int where "O_MATCH_FULL \<equiv> 382"
abbreviation (input) O_SHUTDOWN :: int where "O_SHUTDOWN \<equiv> 383"
abbreviation (input) O_SYNC :: int where "O_SYNC \<equiv> 407"
abbreviation (input) O_WRITELOG :: int where "O_WRITELOG \<equiv> 385"
abbreviation (input) O_DISCONNECT :: int where "O_DISCONNECT \<equiv> 387"
abbreviation (input) O_KILL :: int where "O_KILL \<equiv> 402"
abbreviation (input) O_PS :: int where "O_PS \<equiv> 403"
abbreviation (input) O_PASS :: int where "O_PASS \<equiv> 391"

definition LAST_TOKEN :: int where
  "LAST_TOKEN = 410"

section \<open>builtins.c\<close>

record bf_entry =
  bf_num :: int
  bf_name :: string
  minargs :: int
  maxargs :: int

abbreviation (input) bfe :: "int \<Rightarrow> string \<Rightarrow> int \<Rightarrow> int \<Rightarrow> bf_entry" where
  "bfe n s lo hi \<equiv> \<lparr>bf_num = n, bf_name = s, minargs = lo, maxargs = hi\<rparr>"

definition bf_table :: "bf_entry list" where
  "bf_table =
    [bfe O_CLONE ''clone'' 0 0,
     bfe O_DESTROY ''destroy'' 0 0,
     bfe O_CHPARENTS ''chparents'' 1 1,
     bfe O_LOCK ''lock'' 1 1,
     bfe O_RMVERB ''rm_verb'' 1 1,
     bfe O_RMMETHOD ''rm_method'' 1 1,
     bfe O_RMVAR ''rm_var'' 1 1,
     bfe O_UNLOCK ''unlock'' 1 1,
     bfe O_VERB ''add_verb'' 3 3,
     bfe O_ASGNGVAREXPR ''setvar'' 2 2,
     bfe O_CONNECT ''connect'' 2 2,
     bfe O_VERBS ''verbs'' 0 0,
     bfe O_VARS ''vars'' 0 0,
     bfe O_GETGVAREXPR ''getvar'' 1 1,
     bfe O_METHODS ''methods'' 0 0,
     bfe O_HASPARENT ''hasparent'' 1 1,
     bfe O_OBJSIZE ''objsize'' 0 0,
     bfe O_FIND_METHOD ''find_method'' 1 1,
     bfe O_SPEW_METHOD ''spew_method'' 1 1,
     bfe O_LIST_METHOD ''list_method'' 1 4,
     bfe O_DECOMPILE ''decompile'' 0 0,
     bfe O_PSUB ''psub'' 1 1,
     bfe O_ECHO ''echo'' 1 2,
     bfe O_ECHON ''echon'' 1 2,
     bfe O_ECHO_FILE ''echo_file'' 1 2,
     bfe O_DISCONNECT ''disconnect'' 0 1,
     bfe O_PROGRAM ''program'' 0 2,
     bfe O_COMPILE ''compile'' 1 3,
     bfe O_SETADD ''setadd'' 2 2,
     bfe O_SETREMOVE ''setremove'' 2 2,
     bfe O_LISTINSERT ''listinsert'' 2 3,
     bfe O_LISTAPPEND ''listappend'' 2 3,
     bfe O_LISTDELETE ''listdelete'' 2 2,
     bfe O_LISTASSIGN ''listassign'' 3 3,
     bfe O_SORT ''sort'' 1 2,
     bfe O_EXPLODE ''explode'' 1 2,
     bfe O_STRSUB ''strsub'' 3 4,
     bfe O_PAD ''pad'' 2 3,
     bfe O_MATCH ''match'' 2 3,
     bfe O_MATCH_FULL ''match_full'' 2 3,
     bfe O_STRCMP ''strcmp'' 2 2,
     bfe O_F_INDEX ''index'' 2 3,
     bfe O_RINDEX ''rindex'' 2 3,
     bfe O_TOLOWER ''tolower'' 1 1,
     bfe O_TOUPPER ''toupper'' 1 1,
     bfe O_CRYPT ''crypt'' 1 2,
     bfe O_TONUM ''tonum'' 1 1,
     bfe O_TOOBJ ''toobj'' 1 1,
     bfe O_TOSTR ''tostr'' 1 1,
     bfe O_TOERR ''toerr'' 1 1,
     bfe O_TYPEOF ''typeof'' 1 1,
     bfe O_LENGTHOF ''lengthof'' 1 1,
     bfe O_SERVEROF ''serverof'' 1 1,
     bfe O_SERVERNAME ''servername'' 1 1,
     bfe O_SERVERS ''servers'' 0 0,
     bfe O_RANDOM ''random'' 1 1,
     bfe O_TIME ''time'' 0 0,
     bfe O_CTIME ''ctime'' 0 1,
     bfe O_SLEEP ''sleep'' 1 1,
     bfe O_KILL ''kill'' 1 1,
     bfe O_PS ''ps'' 0 0,
     bfe O_SHUTDOWN ''shutdown'' 0 0,
     bfe O_SYNC ''sync'' 0 0,
     bfe O_WRITELOG ''writelog'' 1 1,
     bfe O_CHECKMEM ''checkmem'' 0 0,
     bfe O_CACHE_STATS ''cache_stats'' 0 0,
     bfe O_SET_PARSE ''set_parse'' 2 2]"

fun bf_lookup_in :: "string \<Rightarrow> bf_entry list \<Rightarrow> int" where
  "bf_lookup_in name [] = -1"
| "bf_lookup_in name (b # bs) =
     (if c_strcasecmp (bf_name b) name = 0 then bf_num b else bf_lookup_in name bs)"

definition bf_lookup :: "string \<Rightarrow> int" where
  "bf_lookup name = bf_lookup_in name bf_table"

fun bf_find :: "int \<Rightarrow> bf_entry list \<Rightarrow> bf_entry option" where
  "bf_find n [] = None"
| "bf_find n (b # bs) = (if bf_num b = n then Some b else bf_find n bs)"

definition bf_id2entry :: "int \<Rightarrow> bf_entry option" where
  "bf_id2entry n = bf_find n bf_table"

definition bf_id2name :: "int \<Rightarrow> string option" where
  "bf_id2name n = map_option bf_name (bf_id2entry n)"

section \<open>opcode.c\<close>

datatype arg_type = NUM_ARG | ID_ARG | STR_ARG | VARNO_ARG

record op_entry =
  op_code :: int
  op_name :: string
  op_args :: "arg_type list"

abbreviation (input) ope :: "int \<Rightarrow> string \<Rightarrow> arg_type list \<Rightarrow> op_entry" where
  "ope n s a \<equiv> \<lparr>op_code = n, op_name = s, op_args = a\<rparr>"

definition opcode_info :: "op_entry list" where
  "opcode_info =
    [ope O_IF ''IF'' [NUM_ARG, NUM_ARG],
     ope O_ELSEIF ''ELSEIF'' [NUM_ARG],
     ope O_ELSE ''ELSE'' [],
     ope O_FOR ''FOR'' [VARNO_ARG, NUM_ARG],
     ope O_FORRNG ''FORRNG'' [VARNO_ARG, NUM_ARG],
     ope O_WHILE ''WHILE'' [NUM_ARG],
     ope O_DO ''DO'' [NUM_ARG],
     ope O_DOWHILE ''DOWHILE'' [NUM_ARG, NUM_ARG],
     ope O_AT ''AT'' [NUM_ARG],
     ope O_PUSHPC ''PUSHPC'' [],
     ope O_SLEEP ''SLEEP'' [],
     ope O_NUMPUSH ''NUMPUSH'' [NUM_ARG],
     ope O_STRPUSH ''STRPUSH'' [STR_ARG],
     ope O_OBJPUSH ''OBJPUSH'' [NUM_ARG, NUM_ARG],
     ope O_LISTPUSH ''LISTPUSH'' [],
     ope O_MAPPUSH ''MAPPUSH'' [NUM_ARG],
     ope O_ERRPUSH ''ERRPUSH'' [NUM_ARG],
     ope O_GETLVAR ''GETLVAR'' [VARNO_ARG],
     ope O_GETGVAR ''GETGVAR'' [ID_ARG],
     ope O_GETGVAREXPR ''GETGVAREXPR'' [NUM_ARG],
     ope O_GETSYSVAR ''GETSYSVAR'' [ID_ARG],
     ope O_ASGNLVAR ''ASGNLVAR'' [VARNO_ARG],
     ope O_ASGNGVAR ''ASGNGVAR'' [ID_ARG],
     ope O_ASGNGVAREXPR ''ASGNGVAREXPR'' [NUM_ARG],
     ope O_ASGNLVARINDEX ''ASGNLVARINDEX'' [VARNO_ARG],
     ope O_ASGNGVARINDEX ''ASGNGVARINDEX'' [ID_ARG],
     ope O_PARENTS ''PARENTS'' [],
     ope O_THIS ''THIS'' [],
     ope O_PLAYER ''PLAYER'' [],
     ope O_CALLER ''CALLER'' [],
     ope O_ARGS ''ARGS'' [],
     ope O_SETPLAYER ''SETPLAYER'' [],
     ope O_ADD ''ADD'' [],
     ope O_SUB ''SUB'' [],
     ope O_MUL ''MUL'' [],
     ope O_DIV ''DIV'' [],
     ope O_MOD ''MOD'' [],
     ope O_NEGATE ''NEGATE'' [],
     ope O_AND ''AND'' [NUM_ARG],
     ope O_OR ''OR'' [NUM_ARG],
     ope O_ENDAND ''ENDAND'' [],
     ope O_ENDOR ''ENDOR'' [],
     ope O_NOT ''NOT'' [],
     ope O_EQ ''EQ'' [],
     ope O_NE ''NE'' [],
     ope O_GT ''GT'' [],
     ope O_GE ''GE'' [],
     ope O_LT ''LT'' [],
     ope O_LE ''LE'' [],
     ope O_MESSAGE ''MESSAGE'' [STR_ARG],
     ope O_MESSAGE_EXPR ''MESSAGE_EXPR'' [],
     ope O_INDEX ''INDEX'' [],
     ope O_IN ''IN'' [],
     ope O_SUBSET ''SUBSET'' [],
     ope O_LSUBSET ''LSUBSET'' [],
     ope O_RSUBSET ''RSUBSET'' [],
     ope O_SPLICE ''SPLICE'' [],
     ope O_ARGSTART ''ARGSTART'' [],
     ope O_LENGTHOF ''LENGTHOF'' [],
     ope O_SETADD ''SETADD'' [],
     ope O_SETREMOVE ''SETREMOVE'' [],
     ope O_LISTINSERT ''LISTINSERT'' [],
     ope O_LISTAPPEND ''LISTAPPEND'' [],
     ope O_LISTDELETE ''LISTDELETE'' [],
     ope O_LISTASSIGN ''LISTASSIGN'' [],
     ope O_EXPLODE ''EXPLODE'' [],
     ope O_SORT ''SORT'' [],
     ope O_STRSUB ''STRSUB'' [],
     ope O_PAD ''PAD'' [],
     ope O_PSUB ''PSUB'' [],
     ope O_STRCMP ''STRCMP'' [],
     ope O_F_INDEX ''F_INDEX'' [],
     ope O_RINDEX ''RINDEX'' [],
     ope O_TOLOWER ''TOLOWER'' [],
     ope O_TOUPPER ''TOUPPER'' [],
     ope O_RANDOM ''RANDOM'' [],
     ope O_TOSTR ''TOSTR'' [],
     ope O_TONUM ''TONUM'' [],
     ope O_TOOBJ ''TOOBJ'' [],
     ope O_TOERR ''TOERR'' [],
     ope O_TYPEOF ''TYPEOF'' [],
     ope O_SERVEROF ''SERVEROF'' [],
     ope O_SERVERNAME ''SERVERNAME'' [],
     ope O_SERVERS ''SERVERS'' [],
     ope O_STOP ''STOP'' [],
     ope O_T_RAISE ''RAISE'' [],
     ope O_T_RETURN ''RETURN'' [],
     ope O_BREAK ''BREAK'' [],
     ope O_CONTINUE ''CONTINUE'' [],
     ope O_ECHO ''ECHO'' [],
     ope O_ECHON ''ECHON'' [],
     ope O_ECHO_FILE ''ECHO_FILE'' [],
     ope O_CONNECT ''CONNECT'' [],
     ope O_TIME ''TIME'' [],
     ope O_CTIME ''CTIME'' [],
     ope O_CLONE ''CLONE'' [],
     ope O_DESTROY ''DESTROY'' [],
     ope O_CHPARENTS ''CHPARENTS'' [],
     ope O_FIND_METHOD ''FIND_METHOD'' [],
     ope O_SPEW_METHOD ''SPEW_METHOD'' [],
     ope O_LIST_METHOD ''LIST_METHOD'' [],
     ope O_DECOMPILE ''DECOMPILE'' [],
     ope O_POP ''POP'' [],
     ope O_CRYPT ''CRYPT'' [],
     ope O_CHECKMEM ''CHECKMEM'' [],
     ope O_CACHE_STATS ''CACHE_STATS'' [],
     ope O_SET_PARSE ''SET_PARSE'' [],
     ope O_LOCK ''LOCK'' [],
     ope O_UNLOCK ''UNLOCK'' [],
     ope O_HASPARENT ''HASPARENT'' [],
     ope O_OBJSIZE ''OBJSIZE'' [],
     ope O_VARS ''VARS'' [],
     ope O_VERBS ''VERBS'' [],
     ope O_METHODS ''METHODS'' [],
     ope O_VERB ''VERB'' [],
     ope O_RMVERB ''RMVERB'' [],
     ope O_RMMETHOD ''RMMETHOD'' [],
     ope O_RMVAR ''RMVAR'' [],
     ope O_PROGRAM ''PROGRAM'' [],
     ope O_COMPILE ''COMPILE'' [],
     ope O_MATCH ''MATCH'' [],
     ope O_MATCH_FULL ''MATCH_FULL'' [],
     ope O_SHUTDOWN ''SHUTDOWN'' [],
     ope O_SYNC ''SYNC'' [],
     ope O_WRITELOG ''WRITELOG'' [],
     ope O_DISCONNECT ''DISCONNECT'' [],
     ope O_KILL ''KILL'' [],
     ope O_PS ''PS'' [],
     ope O_PASS ''PASS'' [NUM_ARG]]"

fun op_find :: "int \<Rightarrow> op_entry list \<Rightarrow> op_entry option" where
  "op_find n [] = None"
| "op_find n (e # es) = (if op_code e = n then Some e else op_find n es)"

text \<open>
  \<open>opcodes[n]\<close> after \<open>opcode_init\<close>: undefined outside the array of \<open>LAST_TOKEN\<close> entries, else
  the entry of the opcode or none.
\<close>

definition opcodes :: "int \<Rightarrow> op_entry option option" where
  "opcodes n = (if 0 \<le> n \<and> n < LAST_TOKEN then Some (op_find n opcode_info) else None)"


section \<open>Facts about the tables\<close>

lemma bf_find_distinct: "distinct (map bf_num t) \<Longrightarrow> b \<in> set t \<Longrightarrow> bf_find (bf_num b) t = Some b"
  by (induction t) (auto simp: image_iff)

lemma op_find_distinct:
  "distinct (map op_code t) \<Longrightarrow> e \<in> set t \<Longrightarrow> op_find (op_code e) t = Some e"
  by (induction t) (auto simp: image_iff)

lemma bf_lookup_distinct:
  "distinct (map (map c_tolower \<circ> bf_name) t) \<Longrightarrow> list_all (nul_free \<circ> bf_name) t \<Longrightarrow>
     nul_free name \<Longrightarrow> b \<in> set t \<Longrightarrow> map c_tolower name = map c_tolower (bf_name b) \<Longrightarrow>
     bf_lookup_in name t = bf_num b"
  by (induction t) (auto simp: image_iff strcasecmp_zero_iff list_all_iff)

lemma bf_lookup_none:
  "list_all (nul_free \<circ> bf_name) t \<Longrightarrow> nul_free name \<Longrightarrow>
     \<forall>b\<in>set t. map c_tolower name \<noteq> map c_tolower (bf_name b) \<Longrightarrow> bf_lookup_in name t = -1"
  by (induction t) (auto simp: strcasecmp_zero_iff)

lemma bf_table_nums: "distinct (map bf_num bf_table)"
  by (simp add: bf_table_def)

lemma opcode_info_codes: "distinct (map op_code opcode_info)"
  by (simp add: opcode_info_def)

lemma bf_table_tolower: "map (map c_tolower \<circ> bf_name) bf_table = map bf_name bf_table"
  by (simp add: bf_table_def c_tolower_def c_isupper_def)

lemma bf_table_names: "distinct (map (map c_tolower \<circ> bf_name) bf_table)"
  unfolding bf_table_tolower by (simp add: bf_table_def)

lemma bf_table_nul_free: "list_all (nul_free \<circ> bf_name) bf_table"
  by (simp add: bf_table_def)

text \<open>
  The table of built-ins is a two-way dictionary: looking up the name of an entry in any
  mix of cases finds its token, and the token finds the entry; a name no entry has in any
  case is not found.
\<close>

theorem bf_lookup_spec:
  assumes "nul_free name"
  shows "bf_lookup name =
    (case filter (\<lambda>b. map c_tolower (bf_name b) = map c_tolower name) bf_table of
       [] \<Rightarrow> -1 | b # _ \<Rightarrow> bf_num b) \<and>
    (\<forall>b\<in>set bf_table. bf_id2entry (bf_num b) = Some b)"
proof (intro conjI)
  show "\<forall>b\<in>set bf_table. bf_id2entry (bf_num b) = Some b"
    using bf_find_distinct [OF bf_table_nums] by (simp add: bf_id2entry_def)
  show "bf_lookup name =
    (case filter (\<lambda>b. map c_tolower (bf_name b) = map c_tolower name) bf_table of
       [] \<Rightarrow> -1 | b # _ \<Rightarrow> bf_num b)"
  proof (cases "filter (\<lambda>b. map c_tolower (bf_name b) = map c_tolower name) bf_table")
    case Nil
    then have "\<forall>b\<in>set bf_table. map c_tolower name \<noteq> map c_tolower (bf_name b)"
      by (auto simp: filter_empty_conv)
    with Nil show ?thesis
      using bf_lookup_none [OF bf_table_nul_free assms] by (simp add: bf_lookup_def)
  next
    case (Cons b bs)
    then have "b \<in> set (filter (\<lambda>b. map c_tolower (bf_name b) = map c_tolower name) bf_table)"
      by simp
    then have "b \<in> set bf_table" "map c_tolower name = map c_tolower (bf_name b)" by auto
    with Cons show ?thesis
      using bf_lookup_distinct [OF bf_table_names bf_table_nul_free assms]
      by (simp add: bf_lookup_def)
  qed
qed

theorem bf_lookup_spec_witness: "nul_free ''SetAdd'' \<and> bf_lookup ''SetAdd'' = 347"
proof -
  have "(case filter (\<lambda>b. map c_tolower (bf_name b) = map c_tolower ''SetAdd'') bf_table of
      [] \<Rightarrow> -1 | b # _ \<Rightarrow> bf_num b) = 347"
    by code_simp
  with bf_lookup_spec [of "''SetAdd''"] show ?thesis by simp
qed

end
