(* ===== verification/Objects.thy ===== *)
theory Objects
  imports Values OpTable
begin

text \<open>
  Objects: their symbol tables (\<open>symbol.c\<close>), verbs (\<open>verb.c\<close>), methods (\<open>method.c\<close>) and
  variables (\<open>var.c\<close>), and the searches over parents. The database is a map from object
  numbers to objects, which is what \<open>retrieve\<close> and \<open>cache_put\<close> show of the cache; the
  theory \<open>Cache\<close> relates the two.

  A search over parents recurses on the C stack. It takes an amount of fuel here, the depth
  of calls allowed, and is \<open>None\<close> when it runs out; a database without a parent cycle has a
  bound that is always enough.
\<close>

section \<open>cool.h: objects\<close>

record vardef =
  vd_name :: int
  vd_value :: var

datatype eh = EH_DEFAULT | EH_IGNORE | EH_CATCH

record cmethod =
  m_name :: int
  m_code :: "i32 list"
  m_ehandler :: "eh list"
  m_vars :: "vardef list"
  m_blocked :: bool

record verbdef =
  vb_verb :: int
  vb_prep :: int
  vb_method :: int

record symbol =
  s_ref :: int
  s_str :: "cstr option"

record lock =
  lk_name :: string
  added_by :: i32

record object =
  o_id :: objid
  o_parents :: "var list"
  o_locks :: "lock list"
  o_methods :: "cmethod hasht option"
  o_verbs :: "verbdef list"
  o_vars :: "vardef hasht option"
  o_symbols :: "symbol list"
  o_stsize :: int

type_synonym db = "i32 \<Rightarrow> object option"

definition retrieve :: "db \<Rightarrow> objid \<Rightarrow> object option" where
  "retrieve d ob = (if server ob = 0 then d (oid ob) else None)"

definition valid :: "db \<Rightarrow> objid \<Rightarrow> bool" where
  "valid d ob \<longleftrightarrow> server ob = 0 \<and> d (oid ob) \<noteq> None"

lemma valid_retrieve: "valid d ob \<longleftrightarrow> retrieve d ob \<noteq> None"
  by (simp add: valid_def retrieve_def)

text \<open>\<open>parents->el[i].v.obj\<close>: only an object may be read through that member.\<close>

fun as_obj :: "var \<Rightarrow> objid option" where
  "as_obj (VOBJ ob) = Some ob"
| "as_obj _ = None"

section \<open>symbol.c\<close>

datatype sys_sym =
  BLANK | INIT | PARSE | BOOT_SERVER | CONNECT_SERVER | DISCONNECT_SERVER
| SYM_CONNECT | SYM_DISCONNECT | RAISE | RETURN

definition system_table :: "string list" where
  "system_table = [[], ''init'', ''parse'', ''boot_server'', ''connect_server'',
     ''disconnect_server'', ''connect'', ''disconnect'', ''raise'', ''return'']"

fun sym_sys :: "sys_sym \<Rightarrow> string" where
  "sym_sys BLANK = []"
| "sym_sys INIT = ''init''"
| "sym_sys PARSE = ''parse''"
| "sym_sys BOOT_SERVER = ''boot_server''"
| "sym_sys CONNECT_SERVER = ''connect_server''"
| "sym_sys DISCONNECT_SERVER = ''disconnect_server''"
| "sym_sys SYM_CONNECT = ''connect''"
| "sym_sys SYM_DISCONNECT = ''disconnect''"
| "sym_sys RAISE = ''raise''"
| "sym_sys RETURN = ''return''"

definition sym_get :: "object \<Rightarrow> int \<Rightarrow> cstr option" where
  "sym_get ob n =
     (if n < 0 then map_option mk_str (nth_opt system_table (- n - 1))
      else Option.bind (nth_opt (o_symbols ob) n) s_str)"

definition sym_str :: "object \<Rightarrow> int \<Rightarrow> string option" where
  "sym_str ob n = map_option sdata (sym_get ob n)"

fun sym_find :: "nat \<Rightarrow> string \<Rightarrow> symbol list \<Rightarrow> nat option option" where
  "sym_find i name [] = Some None"
| "sym_find i name (s # ss) =
     (if s_ref s = 0 then sym_find (i + 1) name ss
      else (case s_str s of
              None \<Rightarrow> None
            | Some t \<Rightarrow> if c_strcmp (sdata t) name = 0 then Some (Some i)
                        else sym_find (i + 1) name ss))"

fun sys_find :: "nat \<Rightarrow> string \<Rightarrow> string list \<Rightarrow> nat option" where
  "sys_find i name [] = None"
| "sys_find i name (s # ss) =
     (if c_strcmp s name = 0 then Some i else sys_find (i + 1) name ss)"

fun blank_find :: "nat \<Rightarrow> symbol list \<Rightarrow> nat option" where
  "blank_find i [] = None"
| "blank_find i (s # ss) = (if s_ref s = 0 then Some i else blank_find (i + 1) ss)"

definition sym_init :: "object \<Rightarrow> object" where
  "sym_init ob = ob\<lparr>o_stsize := 16, o_symbols := []\<rparr>"

definition sym_add :: "object \<Rightarrow> cstr \<Rightarrow> (object \<times> int) option" where
  "sym_add ob name = do {
     found \<leftarrow> sym_find 0 (sdata name) (o_symbols ob);
     let fresh = \<lparr>s_ref = 1, s_str = Some name\<rparr>;
     case found of
       Some i \<Rightarrow> do {
         let s = o_symbols ob ! i;
         Some (ob\<lparr>o_symbols := (o_symbols ob)[i := s\<lparr>s_ref := s_ref s + 1\<rparr>]\<rparr>, int i) }
     | None \<Rightarrow>
         (case sys_find 0 (sdata name) system_table of
            Some i \<Rightarrow> Some (ob, - int i - 1)
          | None \<Rightarrow>
              (case blank_find 0 (o_symbols ob) of
                 Some i \<Rightarrow> Some (ob\<lparr>o_symbols := (o_symbols ob)[i := fresh]\<rparr>, int i)
               | None \<Rightarrow>
                   Some (ob\<lparr>o_stsize := (if o_stsize ob \<le> int (length (o_symbols ob))
                                       then o_stsize ob * 2 else o_stsize ob),
                           o_symbols := o_symbols ob @ [fresh]\<rparr>,
                         int (length (o_symbols ob))))) }"

definition sym_free :: "object \<Rightarrow> int \<Rightarrow> object option" where
  "sym_free ob n =
     (if n < 0 then Some ob
      else do {
        s \<leftarrow> nth_opt (o_symbols ob) n;
        let r = s_ref s - 1;
        Some (ob\<lparr>o_symbols := (o_symbols ob)[nat n :=
                \<lparr>s_ref = r, s_str = (if r = 0 then None else s_str s)\<rparr>]\<rparr>) })"

fun sym_free_all :: "object \<Rightarrow> int list \<Rightarrow> object option" where
  "sym_free_all ob [] = Some ob"
| "sym_free_all ob (n # ns) = do { ob' \<leftarrow> sym_free ob n; sym_free_all ob' ns }"

section \<open>opcode.c: the symbols a method's code uses\<close>

fun sym_args :: "arg_type list \<Rightarrow> i32 list \<Rightarrow> int list" where
  "sym_args (a # as) (i # is) =
     (if a = STR_ARG \<or> a = ID_ARG then sint i # sym_args as is else sym_args as is)"
| "sym_args _ _ = []"

text \<open>
  \<open>opcode_free_symbols\<close> walks the code: an opcode, then its inline arguments. It stops at a
  number that is no opcode; arguments missing at the end are read past the array.
\<close>

fun code_symbols :: "nat \<Rightarrow> i32 list \<Rightarrow> int list option" where
  "code_symbols 0 _ = None"
| "code_symbols (Suc n) [] = Some []"
| "code_symbols (Suc n) (c # cs) = do {
     e \<leftarrow> opcodes (sint c);
     case e of
       None \<Rightarrow> Some []
     | Some e \<Rightarrow>
         if length cs < length (op_args e) then None
         else do {
           rest \<leftarrow> code_symbols n (drop (length (op_args e)) cs);
           Some (sym_args (op_args e) cs @ rest) } }"

definition opcode_free_symbols :: "object \<Rightarrow> cmethod \<Rightarrow> object option" where
  "opcode_free_symbols ob m = do {
     ns \<leftarrow> code_symbols (length (m_code m) + 1) (m_code m);
     sym_free_all ob ns }"

definition free_method :: "bool \<Rightarrow> object \<Rightarrow> cmethod \<Rightarrow> object option" where
  "free_method last_ref ob m =
     (if \<not> last_ref then Some ob
      else do {
        ob1 \<leftarrow> sym_free ob (m_name m);
        ob2 \<leftarrow> sym_free_all ob1 (map vd_name (m_vars m));
        opcode_free_symbols ob2 m })"

section \<open>verb.c\<close>

fun verb_insert :: "verbdef \<Rightarrow> verbdef list \<Rightarrow> verbdef list" where
  "verb_insert nv [] = [nv]"
| "verb_insert nv (v # vs) =
     (if 0 \<le> vb_prep nv \<and> vb_verb v = vb_verb nv then nv # v # vs
      else v # verb_insert nv vs)"

definition verb_add :: "object \<Rightarrow> int \<Rightarrow> int \<Rightarrow> int \<Rightarrow> object" where
  "verb_add ob verb prep meth =
     ob\<lparr>o_verbs := verb_insert \<lparr>vb_verb = verb, vb_prep = prep, vb_method = meth\<rparr> (o_verbs ob)\<rparr>"

text \<open>\<open>atoi\<close>; a value outside \<open>int\<close> wraps (the C library leaves it open).\<close>

fun atoi_digits :: "int \<Rightarrow> string \<Rightarrow> int" where
  "atoi_digits a [] = a"
| "atoi_digits a (c # s) =
     (if c_isdigit c then atoi_digits (10 * a + (int (chn c) - 48)) s else a)"

fun c_atoi :: "string \<Rightarrow> i32" where
  "c_atoi [] = 0"
| "c_atoi (c # s) =
     (if c_isspace c then c_atoi s
      else if c = CHR ''-'' then i32_of (- atoi_digits 0 s)
      else if c = CHR ''+'' then i32_of (atoi_digits 0 s)
      else i32_of (atoi_digits 0 (c # s)))"

fun verb_find :: "object \<Rightarrow> string \<Rightarrow> int \<Rightarrow> nat \<Rightarrow> verbdef list \<Rightarrow> nat option option" where
  "verb_find ob verb verbno i [] = Some None"
| "verb_find ob verb verbno i (v # vs) = do {
     s \<leftarrow> sym_str ob (vb_verb v);
     mt \<leftarrow> verb_match s verb;
     if mt \<or> int i = verbno then Some (Some i)
     else verb_find ob verb verbno (i + 1) vs }"

definition verb_rm :: "object \<Rightarrow> string \<Rightarrow> (object \<times> bool) option" where
  "verb_rm ob verb = do {
     let verbno = (case verb of c # _ \<Rightarrow> if c_isdigit c then sint (c_atoi verb) else -1 | [] \<Rightarrow> -1);
     r \<leftarrow> verb_find ob verb verbno 0 (o_verbs ob);
     case r of
       None \<Rightarrow> Some (ob, False)
     | Some i \<Rightarrow> do {
         let v = o_verbs ob ! i;
         let ob0 = ob\<lparr>o_verbs := take i (o_verbs ob) @ drop (i + 1) (o_verbs ob)\<rparr>;
         ob1 \<leftarrow> sym_free ob0 (vb_verb v);
         ob2 \<leftarrow> (if 0 \<le> vb_prep v then sym_free ob1 (vb_prep v) else Some ob1);
         ob3 \<leftarrow> sym_free ob2 (vb_method v);
         Some (ob3, True) } }"

section \<open>method.c\<close>

fun method_in :: "object \<Rightarrow> string \<Rightarrow> cmethod list \<Rightarrow> cmethod option option" where
  "method_in ob name [] = Some None"
| "method_in ob name (m # ms) = do {
     s \<leftarrow> sym_str ob (m_name m);
     if c_strcasecmp s name = 0 then Some (Some m) else method_in ob name ms }"

definition find_method :: "object \<Rightarrow> string \<Rightarrow> cmethod option option" where
  "find_method ob name =
     (case o_methods ob of
        None \<Rightarrow> Some None
      | Some h \<Rightarrow> do {
          i \<leftarrow> hash_index (hash name) (hsize h);
          method_in ob name (htable h ! i) })"

record fmr =
  found :: "(cmethod \<times> object) option"
  found_blocked :: bool
  searched :: "i32 list"

text \<open>
  \<open>do_fmr\<close>. \<open>searched\<close> lists the objects whose \<open>last_search\<close> is the current generation; an
  object is added after its parents have been searched.
\<close>

fun fmr_parents ::
  "(objid \<Rightarrow> fmr \<Rightarrow> fmr option) \<Rightarrow> var list \<Rightarrow> fmr \<Rightarrow> fmr option" where
  "fmr_parents go [] st = Some st"
| "fmr_parents go (p # ps) st = do {
     pid \<leftarrow> as_obj p;
     st' \<leftarrow> go pid st;
     if found_blocked st' then Some st' else fmr_parents go ps st' }"

fun do_fmr :: "nat \<Rightarrow> db \<Rightarrow> string \<Rightarrow> objid \<Rightarrow> fmr \<Rightarrow> fmr option" where
  "do_fmr 0 d name ob st = None"
| "do_fmr (Suc n) d name ob st =
     (case retrieve d ob of
        None \<Rightarrow> Some st
      | Some q \<Rightarrow>
          if oid (o_id q) \<in> set (searched st) \<or> found_blocked st then Some st
          else do {
            st1 \<leftarrow> fmr_parents (do_fmr n d name) (rev (o_parents q)) st;
            if found_blocked st1 then Some st1
            else do {
              let st2 = st1\<lparr>searched := oid (o_id q) # searched st1\<rparr>;
              m \<leftarrow> find_method q name;
              Some (case m of
                  None \<Rightarrow> st2
                | Some m \<Rightarrow> st2\<lparr>found := Some (m, q), found_blocked := m_blocked m\<rparr>) } })"

definition find_method_recursive ::
  "nat \<Rightarrow> db \<Rightarrow> objid \<Rightarrow> string \<Rightarrow> (cmethod \<times> object) option option" where
  "find_method_recursive fuel d ob name =
     map_option found (do_fmr fuel d name ob \<lparr>found = None, found_blocked = False, searched = []\<rparr>)"

definition add_method :: "object \<Rightarrow> cmethod \<Rightarrow> object option" where
  "add_method ob m = do {
     let h = (case o_methods ob of Some h \<Rightarrow> h | None \<Rightarrow> hash_new HASH_INIT_SIZE);
     s \<leftarrow> sym_str ob (m_name m);
     i \<leftarrow> hash_index (hash s) (hsize h);
     Some (ob\<lparr>o_methods :=
       Some (HashT (hnum h + 1) ((htable h)[i := htable h ! i @ [m]]))\<rparr>) }"

fun method_rm_in ::
  "object \<Rightarrow> string \<Rightarrow> cmethod list \<Rightarrow> (cmethod \<times> cmethod list) option option" where
  "method_rm_in ob name [] = Some None"
| "method_rm_in ob name (m # ms) = do {
     s \<leftarrow> sym_str ob (m_name m);
     if c_strcasecmp s name = 0 then Some (Some (m, ms))
     else do {
       r \<leftarrow> method_rm_in ob name ms;
       Some (map_option (\<lambda>(x, rest). (x, m # rest)) r) } }"

definition rm_method :: "bool \<Rightarrow> object \<Rightarrow> string \<Rightarrow> (object \<times> err) option" where
  "rm_method last_ref ob name =
     (case o_methods ob of
        None \<Rightarrow> Some (ob, E_METHODNF)
      | Some h \<Rightarrow> do {
          i \<leftarrow> hash_index (hash name) (hsize h);
          r \<leftarrow> method_rm_in ob name (htable h ! i);
          case r of
            None \<Rightarrow> Some (ob, E_METHODNF)
          | Some (m, rest) \<Rightarrow> do {
              ob' \<leftarrow> free_method last_ref
                (ob\<lparr>o_methods := Some (HashT (hnum h - 1) ((htable h)[i := rest]))\<rparr>) m;
              Some (ob', E_NONE) } })"

end
