(* ===== verification/Variables.thy ===== *)
theory Variables
  imports Objects
begin

text \<open>
  Variables (\<open>var.c\<close>): the locals of a method, the globals of an object in its hash table,
  and the inherited globals. With them the searches over parents of \<open>utils.c\<close>.
\<close>

section \<open>Initial values\<close>

fun var_init :: "type_spec \<Rightarrow> var" where
  "var_init T_STR = VSTRs []"
| "var_init T_NUM = VNUM 0"
| "var_init T_PC = VPC 0"
| "var_init T_OBJ = VOBJ \<lparr>server = 0, oid = -1\<rparr>"
| "var_init T_LIST = VLIST []"
| "var_init T_MAP = VMAP (map_new 0)"
| "var_init T_ERR = VERR (err_code E_NONE)"

section \<open>Local variables\<close>

fun var_find :: "vardef list \<Rightarrow> int \<Rightarrow> nat \<Rightarrow> (vardef \<times> nat) option" where
  "var_find [] name i = None"
| "var_find (v # vs) name i = (if vd_name v = name then Some (v, i) else var_find vs name (i + 1))"

text \<open>\<open>var_add_local\<close>: whether the name was there already, and the number of the variable.\<close>

definition var_add_local :: "cmethod \<Rightarrow> int \<Rightarrow> cmethod \<times> bool \<times> nat" where
  "var_add_local m name =
     (case var_find (m_vars m) name 0 of
        Some (v, i) \<Rightarrow> (m, True, i)
      | None \<Rightarrow> (m\<lparr>m_vars := m_vars m @ [\<lparr>vd_name = name, vd_value = VNUM 0\<rparr>]\<rparr>, False,
                 length (m_vars m)))"

fun var_find_local_by_name ::
  "object \<Rightarrow> vardef list \<Rightarrow> string \<Rightarrow> nat \<Rightarrow> nat option option" where
  "var_find_local_by_name ob [] name i = Some None"
| "var_find_local_by_name ob (v # vs) name i = do {
     s \<leftarrow> sym_str ob (vd_name v);
     if length s = length name \<and> strn_eq c_tolower (length name) s name then Some (Some i)
     else var_find_local_by_name ob vs name (i + 1) }"

definition var_find_local :: "cmethod \<Rightarrow> nat \<Rightarrow> vardef option" where
  "var_find_local m n = (if n < length (m_vars m) then Some (m_vars m ! n) else None)"

definition var_count_local :: "cmethod \<Rightarrow> nat" where
  "var_count_local m = length (m_vars m)"

text \<open>The locals are the bottom of the stack; \<open>var_init_local\<close> writes their initial values.\<close>

definition var_init_local :: "cmethod \<Rightarrow> var list" where
  "var_init_local m = map vd_value (m_vars m)"

definition var_assign_local :: "var list \<Rightarrow> int \<Rightarrow> var \<Rightarrow> var list option" where
  "var_assign_local stack n v = upd_opt stack n v"

definition var_get_local :: "var list \<Rightarrow> int \<Rightarrow> var option" where
  "var_get_local stack n = nth_opt stack n"

section \<open>The global variables of one object\<close>

definition var_add_global :: "object \<Rightarrow> int \<Rightarrow> var \<Rightarrow> (object \<times> bool) option" where
  "var_add_global ob name v = do {
     let h = (case o_vars ob of Some h \<Rightarrow> h | None \<Rightarrow> hash_new HASH_INIT_SIZE);
     s \<leftarrow> sym_str ob name;
     i \<leftarrow> hash_index (hash s) (hsize h);
     if var_find (htable h ! i) name 0 \<noteq> None then Some (ob\<lparr>o_vars := Some h\<rparr>, True)
     else Some (ob\<lparr>o_vars := Some (HashT (hnum h + 1)
             ((htable h)[i := \<lparr>vd_name = name, vd_value = v\<rparr> # htable h ! i]))\<rparr>, False) }"

fun global_in :: "object \<Rightarrow> string \<Rightarrow> vardef list \<Rightarrow> var option option" where
  "global_in ob name [] = Some None"
| "global_in ob name (v # vs) = do {
     s \<leftarrow> sym_str ob (vd_name v);
     if c_strcasecmp name s = 0 then Some (Some (vd_value v)) else global_in ob name vs }"

text \<open>The part of \<open>var_get_global\<close> before its loop over the parents.\<close>

definition own_global :: "object \<Rightarrow> string \<Rightarrow> var option option" where
  "own_global ob name =
     (case o_vars ob of
        None \<Rightarrow> Some None
      | Some h \<Rightarrow> do {
          i \<leftarrow> hash_index (hash name) (hsize h);
          global_in ob name (htable h ! i) })"

fun global_rm_in ::
  "object \<Rightarrow> string \<Rightarrow> vardef list \<Rightarrow> (vardef \<times> vardef list) option option" where
  "global_rm_in ob name [] = Some None"
| "global_rm_in ob name (v # vs) = do {
     s \<leftarrow> sym_str ob (vd_name v);
     if c_strcasecmp s name = 0 then Some (Some (v, vs))
     else do {
       r \<leftarrow> global_rm_in ob name vs;
       Some (map_option (\<lambda>(x, rest). (x, v # rest)) r) } }"

definition var_rm_global :: "object \<Rightarrow> string \<Rightarrow> (object \<times> err) option" where
  "var_rm_global ob name =
     (case o_vars ob of
        None \<Rightarrow> Some (ob, E_VARNF)
      | Some h \<Rightarrow> do {
          i \<leftarrow> hash_index (hash name) (hsize h);
          r \<leftarrow> global_rm_in ob name (htable h ! i);
          case r of
            None \<Rightarrow> Some (ob, E_VARNF)
          | Some (v, rest) \<Rightarrow> do {
              ob' \<leftarrow> sym_free
                (ob\<lparr>o_vars := Some (HashT (hnum h - 1) ((htable h)[i := rest]))\<rparr>) (vd_name v);
              Some (ob', E_NONE) } })"

fun global_set_in :: "object \<Rightarrow> string \<Rightarrow> var \<Rightarrow> vardef list \<Rightarrow> vardef list option option" where
  "global_set_in ob name x [] = Some None"
| "global_set_in ob name x (v # vs) = do {
     s \<leftarrow> sym_str ob (vd_name v);
     if c_strcasecmp s name = 0 then Some (Some (v\<lparr>vd_value := x\<rparr> # vs))
     else do {
       r \<leftarrow> global_set_in ob name x vs;
       Some (map_option (\<lambda>rest. v # rest) r) } }"

text \<open>The part of \<open>var_assign_global\<close> after its check of the type.\<close>

definition assign_own :: "object \<Rightarrow> cstr \<Rightarrow> var \<Rightarrow> object option" where
  "assign_own ob name x = do {
     r \<leftarrow> (case o_vars ob of
             None \<Rightarrow> Some None
           | Some h \<Rightarrow> do {
               i \<leftarrow> hash_index (hash (sdata name)) (hsize h);
               r \<leftarrow> global_set_in ob (sdata name) x (htable h ! i);
               Some (map_option (\<lambda>b. ob\<lparr>o_vars := Some (HashT (hnum h) ((htable h)[i := b]))\<rparr>) r) });
     case r of
       Some ob' \<Rightarrow> Some ob'
     | None \<Rightarrow> do {
         (ob1, n) \<leftarrow> sym_add ob name;
         (ob2, _) \<leftarrow> var_add_global ob1 n x;
         Some ob2 } }"

section \<open>Inherited variables\<close>

fun global_parents ::
  "(object \<Rightarrow> var option option) \<Rightarrow> db \<Rightarrow> var list \<Rightarrow> var option option" where
  "global_parents get d [] = Some None"
| "global_parents get d (p # ps) = do {
     pid \<leftarrow> as_obj p;
     case retrieve d pid of
       None \<Rightarrow> global_parents get d ps
     | Some q \<Rightarrow> do {
         r \<leftarrow> get q;
         if r \<noteq> None then Some r else global_parents get d ps } }"

fun var_get_global :: "nat \<Rightarrow> db \<Rightarrow> object \<Rightarrow> string \<Rightarrow> var option option" where
  "var_get_global 0 d ob name = None"
| "var_get_global (Suc n) d ob name = do {
     r \<leftarrow> own_global ob name;
     if r \<noteq> None then Some r
     else global_parents (\<lambda>q. var_get_global n d q name) d (o_parents ob) }"

definition var_assign_global ::
  "nat \<Rightarrow> db \<Rightarrow> object \<Rightarrow> cstr \<Rightarrow> var \<Rightarrow> (db \<times> err) option" where
  "var_assign_global fuel d ob name x = do {
     old \<leftarrow> var_get_global fuel d ob (sdata name);
     if (case old of Some y \<Rightarrow> vtype x \<noteq> vtype y | None \<Rightarrow> False) then Some (d, E_TYPE)
     else do {
       ob' \<leftarrow> assign_own ob name x;
       Some (d(oid (o_id ob) := Some ob'), E_NONE) } }"

section \<open>utils.c: hasparent and check_parents\<close>

fun parent_search ::
  "(object \<Rightarrow> bool option) \<Rightarrow> db \<Rightarrow> i32 \<Rightarrow> var list \<Rightarrow> bool option" where
  "parent_search go d pid [] = Some False"
| "parent_search go d pid (p # ps) = do {
     x \<leftarrow> as_obj p;
     if oid x = pid then Some True
     else do {
       r \<leftarrow> (case retrieve d x of None \<Rightarrow> Some False | Some q \<Rightarrow> go q);
       if r then Some True else parent_search go d pid ps } }"

fun hasparent :: "nat \<Rightarrow> db \<Rightarrow> object \<Rightarrow> objid \<Rightarrow> bool option" where
  "hasparent 0 d ob pid = None"
| "hasparent (Suc n) d ob pid =
     parent_search (\<lambda>q. hasparent n d q pid) d (oid pid) (o_parents ob)"

fun any_hasparent :: "nat \<Rightarrow> db \<Rightarrow> object \<Rightarrow> var list \<Rightarrow> bool option" where
  "any_hasparent fuel d p [] = Some False"
| "any_hasparent fuel d p (q # qs) = do {
     qid \<leftarrow> as_obj q;
     r \<leftarrow> hasparent fuel d p qid;
     if r then Some True else any_hasparent fuel d p qs }"

text \<open>\<open>perms.c\<close>: anyone may clone anything.\<close>

definition can_clone :: "objid \<Rightarrow> objid \<Rightarrow> bool" where
  "can_clone player what = True"

fun check_each ::
  "nat \<Rightarrow> db \<Rightarrow> objid \<Rightarrow> object \<Rightarrow> var list \<Rightarrow> var list \<Rightarrow> err option" where
  "check_each fuel d player ob all [] = Some E_NONE"
| "check_each fuel d player ob all (q # qs) = do {
     parent \<leftarrow> as_obj q;
     if server parent \<noteq> 0 then Some E_INVIND
     else
       (case retrieve d parent of
          None \<Rightarrow> Some E_OBJNF
        | Some p \<Rightarrow>
            if oid (o_id p) = oid (o_id ob) then Some E_MAXREC
            else if \<not> can_clone player parent then Some E_PERM
            else do {
              r \<leftarrow> any_hasparent fuel d p all;
              if r then Some E_MAXREC else check_each fuel d player ob all qs }) }"

definition ROOT_OBJ :: i32 where
  "ROOT_OBJ = 1"

definition check_parents :: "nat \<Rightarrow> db \<Rightarrow> objid \<Rightarrow> object \<Rightarrow> var list \<Rightarrow> err option" where
  "check_parents fuel d player ob ps =
     (if ps = [] \<and> oid (o_id ob) \<noteq> ROOT_OBJ then Some E_RANGE
      else check_each fuel d player ob ps ps)"

section \<open>The search order\<close>

text \<open>
  The objects \<open>var_get_global\<close> may visit, in its order: the object, then the lineage of each
  parent from left to right. An ancestor reached twice is in it twice.
\<close>

fun lineage_parents ::
  "(object \<Rightarrow> object list option) \<Rightarrow> db \<Rightarrow> var list \<Rightarrow> object list option" where
  "lineage_parents go d [] = Some []"
| "lineage_parents go d (p # ps) = do {
     pid \<leftarrow> as_obj p;
     l \<leftarrow> (case retrieve d pid of None \<Rightarrow> Some [] | Some q \<Rightarrow> go q);
     ls \<leftarrow> lineage_parents go d ps;
     Some (l @ ls) }"

fun lineage :: "nat \<Rightarrow> db \<Rightarrow> object \<Rightarrow> object list option" where
  "lineage 0 d ob = None"
| "lineage (Suc n) d ob = do {
     l \<leftarrow> lineage_parents (lineage n d) d (o_parents ob);
     Some (ob # l) }"

fun first_global :: "string \<Rightarrow> object list \<Rightarrow> var option option" where
  "first_global name [] = Some None"
| "first_global name (q # qs) = do {
     r \<leftarrow> own_global q name;
     if r \<noteq> None then Some r else first_global name qs }"

lemma first_global_append:
  "first_global name (a @ b) = do {
     r \<leftarrow> first_global name a;
     if r \<noteq> None then Some r else first_global name b }"
proof (induction a)
  case (Cons q a)
  then show ?case by (cases "own_global q name") auto
qed simp

lemma global_parents_lineage:
  assumes "\<And>q l. go q = Some l \<Longrightarrow> get q = first_global name l"
    and "lineage_parents go d ps = Some l"
  shows "global_parents get d ps = first_global name l"
  using assms(2)
proof (induction ps arbitrary: l)
  case (Cons p ps)
  then show ?case
    by (cases "as_obj p")
      (auto split: bind_splits option.splits if_splits dest: assms(1) simp: first_global_append)
qed simp

lemma var_get_global_lineage:
  "lineage n d ob = Some l \<Longrightarrow> var_get_global n d ob name = first_global name l"
proof (induction n arbitrary: ob l)
  case (Suc n)
  then obtain l' where l': "lineage_parents (lineage n d) d (o_parents ob) = Some l'" "l = ob # l'"
    by (auto split: bind_splits)
  with Suc.IH have "global_parents (\<lambda>q. var_get_global n d q name) d (o_parents ob) =
      first_global name l'"
    by (intro global_parents_lineage) auto
  with l' show ?case by (simp cong: if_cong)
qed simp

text \<open>
  A database without parent cycles: every object is filed under its own number, every parent is
  an object value, and a rank decreases from an object to each parent that exists.
\<close>

definition keyed :: "db \<Rightarrow> bool" where
  "keyed d \<longleftrightarrow> (\<forall>i ob. d i = Some ob \<longrightarrow> server (o_id ob) = 0 \<and> oid (o_id ob) = i)"

definition ranked :: "(i32 \<Rightarrow> nat) \<Rightarrow> db \<Rightarrow> object \<Rightarrow> bool" where
  "ranked rank d ob \<longleftrightarrow> (\<forall>p\<in>set (o_parents ob). \<exists>x. p = VOBJ x \<and>
     (\<forall>q. retrieve d x = Some q \<longrightarrow> rank (oid (o_id q)) < rank (oid (o_id ob))))"

definition acyclic_db :: "(i32 \<Rightarrow> nat) \<Rightarrow> db \<Rightarrow> bool" where
  "acyclic_db rank d \<longleftrightarrow> (\<forall>i ob. d i = Some ob \<longrightarrow> ranked rank d ob)"

lemma lineage_parents_total:
  assumes "\<And>p. p \<in> set ps \<Longrightarrow>
      \<exists>x. p = VOBJ x \<and> (\<forall>q. retrieve d x = Some q \<longrightarrow> (\<exists>l. go q = Some l))"
  shows "\<exists>l. lineage_parents go d ps = Some l"
  using assms
proof (induction ps)
  case (Cons p ps)
  from Cons.prems [of p] obtain x where x: "p = VOBJ x"
    "\<forall>q. retrieve d x = Some q \<longrightarrow> (\<exists>l. go q = Some l)" by auto
  from Cons obtain ls where "lineage_parents go d ps = Some ls" by auto
  with x show ?case by (cases "retrieve d x") auto
qed simp

lemma retrieve_ranked: "acyclic_db rank d \<Longrightarrow> retrieve d x = Some q \<Longrightarrow> ranked rank d q"
  by (auto simp: acyclic_db_def retrieve_def split: if_splits)

lemma lineage_total:
  "acyclic_db rank d \<Longrightarrow> ranked rank d ob \<Longrightarrow> rank (oid (o_id ob)) < n \<Longrightarrow>
     \<exists>l. lineage n d ob = Some l"
proof (induction n arbitrary: ob)
  case (Suc n)
  have "\<exists>l. lineage_parents (lineage n d) d (o_parents ob) = Some l"
  proof (rule lineage_parents_total)
    fix p assume "p \<in> set (o_parents ob)"
    with Suc.prems obtain x where x: "p = VOBJ x"
      "\<forall>q. retrieve d x = Some q \<longrightarrow> rank (oid (o_id q)) < rank (oid (o_id ob))"
      by (auto simp: ranked_def)
    with Suc show "\<exists>x. p = VOBJ x \<and> (\<forall>q. retrieve d x = Some q \<longrightarrow> (\<exists>l. lineage n d q = Some l))"
      by (intro exI [of _ x]) (auto intro!: Suc.IH dest: retrieve_ranked)
  qed
  then show ?case by auto
qed simp

end
