(* ===== verification/ObjectInv.thy ===== *)
theory ObjectInv
  imports Variables
begin

text \<open>
  The invariant of an object and the contract of its variables. The symbol table counts its
  references: every symbol that a variable, a verb or a method uses is there, with at least as
  many references as uses. The table of variables keeps every variable in the bucket of its
  name, and no two variables of a bucket have the same name in any case. Reading, assigning
  and removing a variable of the object itself then is a store in the sense of \<open>kv_store_del\<close>.
\<close>

section \<open>The symbol table\<close>

abbreviation lower :: "string \<Rightarrow> string" where
  "lower s \<equiv> map c_tolower s"

abbreviation var_uses :: "object \<Rightarrow> int list" where
  "var_uses ob \<equiv> (case o_vars ob of None \<Rightarrow> [] | Some h \<Rightarrow> map vd_name (hentries h))"

definition method_uses :: "cmethod \<Rightarrow> int list" where
  "method_uses m = m_name m # map vd_name (m_vars m) @
     (case code_symbols (length (m_code m) + 1) (m_code m) of None \<Rightarrow> [] | Some ns \<Rightarrow> ns)"

definition verb_uses :: "verbdef \<Rightarrow> int list" where
  "verb_uses v = [vb_verb v, vb_method v] @ (if 0 \<le> vb_prep v then [vb_prep v] else [])"

definition other_uses :: "object \<Rightarrow> int list" where
  "other_uses ob =
     (case o_methods ob of None \<Rightarrow> [] | Some h \<Rightarrow> concat (map method_uses (hentries h))) @
     concat (map verb_uses (o_verbs ob))"

definition sym_uses :: "object \<Rightarrow> int list" where
  "sym_uses ob = var_uses ob @ other_uses ob"

text \<open>A symbol table is sound for a list of uses.\<close>

definition sym_ok :: "symbol list \<Rightarrow> int list \<Rightarrow> bool" where
  "sym_ok ss us \<longleftrightarrow>
     (\<forall>s\<in>set ss. 0 \<le> s_ref s \<and> (0 < s_ref s \<longrightarrow> (\<exists>t. s_str s = Some t \<and> nul_free (sdata t)))) \<and>
     (\<forall>n\<in>set us. -10 \<le> n \<and> n < int (length ss)) \<and>
     (\<forall>i<length ss. int (count_list us (int i)) \<le> s_ref (ss ! i))"

lemma nul_free_system: "list_all nul_free system_table"
  by (simp add: system_table_def)

lemma sym_ok_get:
  assumes ok: "sym_ok (o_symbols ob) us" and n: "n \<in> set us"
  obtains s where "sym_get ob n = Some s" "nul_free (sdata s)"
proof (cases "n < 0")
  case True
  with ok n have "0 \<le> - n - 1" "- n - 1 < int (length system_table)"
    by (auto simp: sym_ok_def system_table_def)
  then show ?thesis
    using True nul_free_system that
    by (auto simp: sym_get_def list_all_length nth_opt_def)
next
  case False
  with ok n have lt: "n < int (length (o_symbols ob))" by (auto simp: sym_ok_def)
  with False have i: "nat n < length (o_symbols ob)" "int (nat n) = n" by auto
  from n have "0 < count_list us n" by (metis count_list_0_iff gr0I)
  with ok i have "0 < s_ref (o_symbols ob ! nat n)"
    unfolding sym_ok_def by (metis of_nat_0_less_iff order_less_le_trans)
  moreover have "o_symbols ob ! nat n \<in> set (o_symbols ob)" using i by simp
  ultimately obtain t where "s_str (o_symbols ob ! nat n) = Some t" "nul_free (sdata t)"
    using ok unfolding sym_ok_def by blast
  with False lt show ?thesis by (intro that [of t]) (auto simp: sym_get_def nth_opt_def)
qed

lemma sym_ok_mono: "sym_ok ss us \<Longrightarrow> (\<And>n. count_list vs n \<le> count_list us n) \<Longrightarrow> sym_ok ss vs"
proof -
  assume ok: "sym_ok ss us" and le: "\<And>n. count_list vs n \<le> count_list us n"
  have "set vs \<subseteq> set us"
  proof
    fix n assume "n \<in> set vs"
    then have "count_list vs n \<noteq> 0" by (simp add: count_list_0_iff)
    with le [of n] have "count_list us n \<noteq> 0" by simp
    then show "n \<in> set us" by (simp add: count_list_0_iff)
  qed
  moreover have "int (count_list vs (int i)) \<le> int (count_list us (int i))" for i
    using le by simp
  ultimately show ?thesis using ok unfolding sym_ok_def by (meson order_trans subsetD)
qed

lemma sym_find_spec:
  assumes "\<forall>s\<in>set ss. 0 \<le> s_ref s \<and> (0 < s_ref s \<longrightarrow> (\<exists>t. s_str s = Some t \<and> nul_free (sdata t)))"
    and "nul_free name"
  shows "\<exists>r. sym_find k name ss = Some r \<and>
    (\<forall>i. r = Some i \<longrightarrow> k \<le> i \<and> i < k + length ss \<and> 0 < s_ref (ss ! (i - k)) \<and>
       (\<exists>t. s_str (ss ! (i - k)) = Some t \<and> sdata t = name))"
  using assms(1)
proof (induction ss arbitrary: k)
  case (Cons s ss)
  from Cons.IH [of "k + 1"] Cons.prems obtain r where r: "sym_find (k + 1) name ss = Some r"
    "\<forall>i. r = Some i \<longrightarrow> k + 1 \<le> i \<and> i < k + 1 + length ss \<and> 0 < s_ref (ss ! (i - (k + 1))) \<and>
       (\<exists>t. s_str (ss ! (i - (k + 1))) = Some t \<and> sdata t = name)" by auto
  have shift: "(s # ss) ! (i - k) = ss ! (i - (k + 1))" if "k + 1 \<le> i" for i
    using that by (simp add: nth_Cons' Suc_diff_Suc)
  show ?case
  proof (cases "s_ref s = 0")
    case True
    with r shift show ?thesis by (intro exI [of _ r]) auto
  next
    case False
    with Cons.prems obtain t where t: "s_str s = Some t" "nul_free (sdata t)" "0 < s_ref s"
      by force
    show ?thesis
    proof (cases "sdata t = name")
      case True
      with False t assms(2) show ?thesis by (auto simp: strcmp_zero_iff)
    next
      case False
      with t assms(2) r shift \<open>s_ref s \<noteq> 0\<close> show ?thesis
        by (intro exI [of _ r]) (auto simp: strcmp_zero_iff)
    qed
  qed
qed simp

lemma sys_find_spec:
  assumes "list_all nul_free ss" "nul_free name" "sys_find k name ss = Some i"
  shows "k \<le> i \<and> i < k + length ss \<and> ss ! (i - k) = name"
  using assms(1,3)
proof (induction ss arbitrary: k)
  case (Cons s ss)
  show ?case
  proof (cases "s = name")
    case True
    with Cons.prems assms(2) show ?thesis by (auto simp: strcmp_zero_iff)
  next
    case False
    with Cons.prems assms(2) have "sys_find (k + 1) name ss = Some i" by (simp add: strcmp_zero_iff)
    with Cons.IH [of "k + 1"] Cons.prems show ?thesis by (auto simp: nth_Cons')
  qed
qed simp

lemma blank_find_spec:
  "blank_find k ss = Some i \<Longrightarrow> k \<le> i \<and> i < k + length ss \<and> s_ref (ss ! (i - k)) = 0"
proof (induction ss arbitrary: k)
  case (Cons s ss)
  show ?case
  proof (cases "s_ref s = 0")
    case False
    with Cons.prems have "blank_find (k + 1) ss = Some i" by simp
    with Cons.IH [of "k + 1"] show ?thesis by (auto simp: nth_Cons')
  qed (use Cons.prems in auto)
qed simp

text \<open>What an operation on the symbol table leaves alone.\<close>

definition same_but_symbols :: "object \<Rightarrow> object \<Rightarrow> bool" where
  "same_but_symbols a b \<longleftrightarrow> o_id a = o_id b \<and> o_parents a = o_parents b \<and> o_locks a = o_locks b \<and>
     o_methods a = o_methods b \<and> o_verbs a = o_verbs b \<and> o_vars a = o_vars b"

lemma same_but_symbols_refl [simp]: "same_but_symbols a a"
  by (simp add: same_but_symbols_def)

lemma same_but_symbols_uses: "same_but_symbols a b \<Longrightarrow> sym_uses a = sym_uses b"
  by (simp add: same_but_symbols_def sym_uses_def other_uses_def)

lemma sym_ok_update:
  assumes ok: "sym_ok ss us" and i: "i < length ss"
    and r: "s_ref s' = s_ref (ss ! i) + 1" "\<exists>t. s_str s' = Some t \<and> nul_free (sdata t)"
  shows "sym_ok (ss[i := s']) (int i # us)"
proof -
  have "0 \<le> s_ref (ss ! i)" using ok i by (simp add: sym_ok_def)
  then have "\<forall>s\<in>set (ss[i := s']). 0 \<le> s_ref s \<and>
      (0 < s_ref s \<longrightarrow> (\<exists>t. s_str s = Some t \<and> nul_free (sdata t)))"
    using ok r unfolding sym_ok_def by (auto dest!: set_update_subset_insert [THEN subsetD])
  moreover have "\<forall>j<length (ss[i := s']).
      int (count_list (int i # us) (int j)) \<le> s_ref (ss[i := s'] ! j)"
    using ok i r(1) unfolding sym_ok_def by (auto simp: nth_list_update)
  ultimately show ?thesis using ok i unfolding sym_ok_def by auto
qed

lemma sym_ok_append:
  assumes ok: "sym_ok ss us" and t: "nul_free (sdata t)"
  shows "sym_ok (ss @ [\<lparr>s_ref = 1, s_str = Some t\<rparr>]) (int (length ss) # us)"
proof -
  have "int (length ss) \<notin> set us" using ok by (force simp: sym_ok_def)
  then show ?thesis
    using ok t by (force simp: sym_ok_def nth_append less_Suc_eq count_list_0_iff)
qed

lemma sym_add_ok:
  assumes ok: "sym_ok (o_symbols ob) us" and name: "nul_free (sdata name)"
  obtains ob' n where "sym_add ob name = Some (ob', n)" "sym_str ob' n = Some (sdata name)"
    "sym_ok (o_symbols ob') (n # us)" "\<forall>k\<in>set us. sym_get ob' k = sym_get ob k"
    "same_but_symbols ob ob'"
proof -
  let ?ss = "o_symbols ob"
  obtain r where r: "sym_find 0 (sdata name) ?ss = Some r"
    "\<And>i. r = Some i \<Longrightarrow> i < length ?ss \<and> 0 < s_ref (?ss ! i) \<and>
       (\<exists>t. s_str (?ss ! i) = Some t \<and> sdata t = sdata name)"
    using sym_find_spec [of ?ss "sdata name" 0] ok name by (force simp: sym_ok_def)
  show ?thesis
  proof (cases r)
    case (Some i)
    with r(2) obtain t where i: "i < length ?ss" "s_str (?ss ! i) = Some t" "sdata t = sdata name"
      by auto
    let ?s = "(?ss ! i)\<lparr>s_ref := s_ref (?ss ! i) + 1\<rparr>"
    show ?thesis
    proof (rule that [of "ob\<lparr>o_symbols := ?ss[i := ?s]\<rparr>" "int i"])
      show "sym_ok (o_symbols (ob\<lparr>o_symbols := ?ss[i := ?s]\<rparr>)) (int i # us)"
        using ok i name by (auto intro!: sym_ok_update)
    qed (use r Some i in \<open>auto simp: sym_add_def sym_str_def sym_get_def nth_opt_def
           same_but_symbols_def nth_list_update Let_def\<close>)
  next
    case None
    show ?thesis
    proof (cases "sys_find 0 (sdata name) system_table")
      case (Some i)
      then have i: "i < length system_table" "system_table ! i = sdata name"
        using sys_find_spec [OF nul_free_system name] by fastforce+
      moreover have "sym_ok ?ss ((- int i - 1) # us)"
        using ok i by (auto simp: sym_ok_def system_table_def)
      ultimately show ?thesis
        using r None Some
        by (intro that [of ob "- int i - 1"]) (auto simp: sym_add_def sym_str_def sym_get_def nth_opt_def)
    next
      case no_sys: None
      let ?f = "\<lparr>s_ref = 1, s_str = Some name\<rparr>"
      show ?thesis
      proof (cases "blank_find 0 ?ss")
        case (Some i)
        then have i: "i < length ?ss" "s_ref (?ss ! i) = 0"
          using blank_find_spec by fastforce+
        then have "count_list us (int i) = 0" using ok by (fastforce simp: sym_ok_def)
        then have fresh: "int i \<notin> set us" by (simp add: count_list_0_iff)
        show ?thesis
        proof (rule that [of "ob\<lparr>o_symbols := ?ss[i := ?f]\<rparr>" "int i"])
          show "sym_ok (o_symbols (ob\<lparr>o_symbols := ?ss[i := ?f]\<rparr>)) (int i # us)"
            using ok i name by (auto intro!: sym_ok_update)
          show "\<forall>k\<in>set us. sym_get (ob\<lparr>o_symbols := ?ss[i := ?f]\<rparr>) k = sym_get ob k"
          proof
            fix k assume "k \<in> set us"
            with fresh have "k \<noteq> int i" by auto
            then show "sym_get (ob\<lparr>o_symbols := ?ss[i := ?f]\<rparr>) k = sym_get ob k"
              by (auto simp: sym_get_def nth_opt_def nth_list_update)
          qed
        qed (use r None no_sys Some i in \<open>auto simp: sym_add_def sym_str_def sym_get_def
               nth_opt_def same_but_symbols_def\<close>)
      next
        case no_blank: None
        let ?n = "int (length ?ss)"
        let ?ob = "ob\<lparr>o_stsize := (if o_stsize ob \<le> ?n then o_stsize ob * 2 else o_stsize ob),
          o_symbols := ?ss @ [?f]\<rparr>"
        show ?thesis
        proof (rule that [of ?ob ?n])
          show "sym_ok (o_symbols ?ob) (?n # us)" using sym_ok_append [OF ok name] by simp
          show "\<forall>k\<in>set us. sym_get ?ob k = sym_get ob k"
            using ok by (auto simp: sym_ok_def sym_get_def nth_opt_def nth_append)
        qed (use r None no_sys no_blank in \<open>auto simp: sym_add_def sym_str_def sym_get_def
               nth_opt_def same_but_symbols_def nth_append\<close>)
      qed
    qed
  qed
qed

lemma sym_free_ok:
  assumes ok: "sym_ok (o_symbols ob) (n # us)"
  obtains ob' where "sym_free ob n = Some ob'" "sym_ok (o_symbols ob') us"
    "\<forall>k\<in>set us. sym_get ob' k = sym_get ob k" "same_but_symbols ob ob'"
proof (cases "n < 0")
  case True
  with ok have "sym_ok (o_symbols ob) us" by (auto intro: sym_ok_mono)
  with True show ?thesis by (intro that [of ob]) (simp_all add: sym_free_def)
next
  case False
  let ?ss = "o_symbols ob" and ?i = "nat n"
  from False ok have i: "?i < length ?ss" "int ?i = n" by (auto simp: sym_ok_def)
  have cnt: "int (count_list us n) + 1 \<le> s_ref (?ss ! ?i)"
    using ok i unfolding sym_ok_def by (auto dest!: spec [of _ ?i])
  let ?r = "s_ref (?ss ! ?i) - 1"
  let ?s = "\<lparr>s_ref = ?r, s_str = (if ?r = 0 then None else s_str (?ss ! ?i))\<rparr>"
  let ?ob = "ob\<lparr>o_symbols := ?ss[?i := ?s]\<rparr>"
  have str: "0 < s_ref s \<Longrightarrow> \<exists>t. s_str s = Some t \<and> nul_free (sdata t)" "0 \<le> s_ref s"
    if "s \<in> set ?ss" for s using ok that by (auto simp: sym_ok_def)
  have "?ss ! ?i \<in> set ?ss" using i by simp
  then have "\<forall>s\<in>set (o_symbols ?ob). 0 \<le> s_ref s \<and>
      (0 < s_ref s \<longrightarrow> (\<exists>t. s_str s = Some t \<and> nul_free (sdata t)))"
    using str cnt by (fastforce dest!: set_update_subset_insert [THEN subsetD])
  moreover have "int (count_list us (int j)) \<le> s_ref (?ss[?i := ?s] ! j)" if j: "j < length ?ss" for j
  proof (cases "j = ?i")
    case True
    with cnt i show ?thesis by simp
  next
    case False
    then have "int j \<noteq> n" by auto
    moreover have "int (count_list (n # us) (int j)) \<le> s_ref (?ss ! j)"
      using ok j unfolding sym_ok_def by blast
    ultimately show ?thesis using False by (simp split: if_splits)
  qed
  ultimately have "sym_ok (o_symbols ?ob) us" using ok i by (auto simp: sym_ok_def)
  moreover have "\<forall>k\<in>set us. sym_get ?ob k = sym_get ob k"
  proof
    fix k assume k: "k \<in> set us"
    show "sym_get ?ob k = sym_get ob k"
    proof (cases "k = n")
      case True
      with k have "count_list us n \<noteq> 0" by (simp add: count_list_0_iff)
      with cnt have "?r \<noteq> 0" by linarith
      with True False i show ?thesis by (simp add: sym_get_def nth_opt_def)
    qed (use False in \<open>auto simp: sym_get_def nth_opt_def nth_list_update\<close>)
  qed
  ultimately show ?thesis
    using False i by (intro that [of ?ob])
      (auto simp: sym_free_def nth_opt_def same_but_symbols_def Let_def)
qed

section \<open>The table of variables\<close>

definition vname :: "object \<Rightarrow> vardef \<Rightarrow> string" where
  "vname ob v = lower (the (sym_str ob (vd_name v)))"

definition named :: "object \<Rightarrow> vardef list \<Rightarrow> bool" where
  "named ob b \<longleftrightarrow> (\<forall>v\<in>set b. \<exists>s. sym_str ob (vd_name v) = Some s \<and> nul_free s)"

definition bucket_ok :: "object \<Rightarrow> nat \<Rightarrow> nat \<Rightarrow> vardef list \<Rightarrow> bool" where
  "bucket_ok ob w i b \<longleftrightarrow> named ob b \<and> distinct (map (vname ob) b) \<and>
     (\<forall>v\<in>set b. hash_index (hash (the (sym_str ob (vd_name v)))) w = Some i)"

definition vars_wf :: "object \<Rightarrow> bool" where
  "vars_wf ob \<longleftrightarrow> (\<forall>h. o_vars ob = Some h \<longrightarrow>
     0 < hsize h \<and> hnum h = length (hentries h) \<and>
     (\<forall>i<hsize h. bucket_ok ob (hsize h) i (htable h ! i)))"

definition object_inv :: "object \<Rightarrow> bool" where
  "object_inv ob \<longleftrightarrow> sym_ok (o_symbols ob) (sym_uses ob) \<and> vars_wf ob"

definition gfind :: "object \<Rightarrow> string \<Rightarrow> vardef list \<Rightarrow> var option" where
  "gfind ob name b = map_option vd_value (find (\<lambda>v. vname ob v = lower name) b)"

lemma gfind_simps [simp]:
  "gfind ob name [] = None"
  "gfind ob name (v # b) = (if vname ob v = lower name then Some (vd_value v) else gfind ob name b)"
  by (simp_all add: gfind_def)

lemma gfind_append:
  "gfind ob name (a @ b) = (case gfind ob name a of None \<Rightarrow> gfind ob name b | Some x \<Rightarrow> Some x)"
  by (induction a) auto

lemma gfind_None_iff: "gfind ob name b = None \<longleftrightarrow> (\<forall>v\<in>set b. vname ob v \<noteq> lower name)"
  by (induction b) auto

lemma named_simps [simp]:
  "named ob []"
  "named ob (v # b) \<longleftrightarrow> (\<exists>s. sym_str ob (vd_name v) = Some s \<and> nul_free s) \<and> named ob b"
  by (auto simp: named_def)

lemma named_append [simp]: "named ob (a @ b) \<longleftrightarrow> named ob a \<and> named ob b"
  by (auto simp: named_def)

lemma global_in_gfind: "named ob b \<Longrightarrow> nul_free name \<Longrightarrow> global_in ob name b = Some (gfind ob name b)"
  by (induction b) (auto simp: strcasecmp_zero_iff vname_def)

lemma global_set_in_spec:
  "named ob b \<Longrightarrow> nul_free name \<Longrightarrow>
     \<exists>r. global_set_in ob name x b = Some r \<and> (r = None \<longrightarrow> gfind ob name b = None) \<and>
       (\<forall>b'. r = Some b' \<longrightarrow> map vd_name b' = map vd_name b \<and> gfind ob name b' = Some x \<and>
          (\<forall>j. lower j \<noteq> lower name \<longrightarrow> gfind ob j b' = gfind ob j b))"
proof (induction b)
  case (Cons v b)
  from Cons.prems obtain s where s: "sym_str ob (vd_name v) = Some s" "nul_free s" by auto
  from Cons obtain r where r: "global_set_in ob name x b = Some r"
    "r = None \<longrightarrow> gfind ob name b = None"
    "\<forall>b'. r = Some b' \<longrightarrow> map vd_name b' = map vd_name b \<and> gfind ob name b' = Some x \<and>
          (\<forall>j. lower j \<noteq> lower name \<longrightarrow> gfind ob j b' = gfind ob j b)" by auto
  show ?case
  proof (cases "lower s = lower name")
    case True
    with s Cons.prems show ?thesis by (auto simp: strcasecmp_zero_iff vname_def)
  next
    case False
    with s Cons.prems r show ?thesis
      by (cases r) (auto simp: strcasecmp_zero_iff vname_def)
  qed
qed simp

lemma global_rm_in_spec:
  "named ob b \<Longrightarrow> nul_free name \<Longrightarrow>
     \<exists>r. global_rm_in ob name b = Some r \<and> (r = None \<longrightarrow> gfind ob name b = None) \<and>
       (\<forall>v rest. r = Some (v, rest) \<longrightarrow>
          (\<exists>us vs. b = us @ v # vs \<and> rest = us @ vs) \<and> vname ob v = lower name)"
proof (induction b)
  case (Cons v b)
  from Cons.prems obtain s where s: "sym_str ob (vd_name v) = Some s" "nul_free s" by auto
  from Cons obtain r where r: "global_rm_in ob name b = Some r"
    "r = None \<longrightarrow> gfind ob name b = None"
    "\<forall>u rest. r = Some (u, rest) \<longrightarrow>
       (\<exists>us vs. b = us @ u # vs \<and> rest = us @ vs) \<and> vname ob u = lower name" by auto
  show ?case
  proof (cases "lower s = lower name")
    case True
    have "\<exists>us vs. v # b = us @ v # vs \<and> b = us @ vs" by (rule exI [of _ "[]"]) simp
    with True s Cons.prems show ?thesis by (auto simp: strcasecmp_zero_iff vname_def)
  next
    case False
    show ?thesis
    proof (cases r)
      case None
      with False s Cons.prems r show ?thesis by (auto simp: strcasecmp_zero_iff vname_def)
    next
      case (Some p)
      obtain u rest where p: "p = (u, rest)" by (cases p)
      with Some r(3) obtain us vs where "b = us @ u # vs" "rest = us @ vs" "vname ob u = lower name"
        by auto
      then have "v # b = (v # us) @ u # vs \<and> v # rest = (v # us) @ vs" by simp
      then have "\<exists>us vs. v # b = us @ u # vs \<and> v # rest = us @ vs" by blast
      with False s Cons.prems r Some p \<open>vname ob u = lower name\<close> show ?thesis
        by (auto simp: strcasecmp_zero_iff vname_def)
    qed
  qed
qed simp

text \<open>Buckets only look at the names of their variables.\<close>

lemma bucket_ok_cong:
  assumes "\<forall>v\<in>set b. sym_get ob' (vd_name v) = sym_get ob (vd_name v)"
  shows "bucket_ok ob' w i b \<longleftrightarrow> bucket_ok ob w i b"
proof -
  have str: "\<forall>v\<in>set b. sym_str ob' (vd_name v) = sym_str ob (vd_name v)"
    using assms by (simp add: sym_str_def)
  then have eq: "map (vname ob') b = map (vname ob) b" by (simp add: vname_def)
  show ?thesis unfolding bucket_ok_def named_def eq using str by simp
qed

lemma gfind_cong:
  "\<forall>v\<in>set b. sym_get ob' (vd_name v) = sym_get ob (vd_name v) \<Longrightarrow>
     gfind ob' name b = gfind ob name b"
  by (induction b) (auto simp: vname_def sym_str_def)

lemma bucket_ok_names:
  assumes "map vd_name b' = map vd_name b"
  shows "bucket_ok ob w i b' \<longleftrightarrow> bucket_ok ob w i b"
proof -
  have all: "(\<forall>v\<in>set b'. P (vd_name v)) \<longleftrightarrow> (\<forall>v\<in>set b. P (vd_name v))" for P
    by (metis (no_types, lifting) assms in_set_conv_nth length_map nth_map)
  have "map (vname ob) b' = map (\<lambda>n. lower (the (sym_str ob n))) (map vd_name b')"
    by (simp add: vname_def)
  also have "\<dots> = map (vname ob) b" using assms by (simp add: vname_def)
  finally show ?thesis
    using all [of "\<lambda>n. \<exists>s. sym_str ob n = Some s \<and> nul_free s"]
      all [of "\<lambda>n. hash_index (hash (the (sym_str ob n))) w = Some i"]
    by (simp add: bucket_ok_def named_def)
qed

lemma vars_bucket: "vars_wf ob \<Longrightarrow> o_vars ob = Some h \<Longrightarrow> i < hsize h \<Longrightarrow>
    bucket_ok ob (hsize h) i (htable h ! i)"
  by (simp add: vars_wf_def)

lemma own_global_gfind:
  assumes "vars_wf ob" "o_vars ob = Some h" "nul_free name"
  obtains i where "hash_index (hash name) (hsize h) = Some i" "i < hsize h"
    "own_global ob name = Some (gfind ob name (htable h ! i))"
proof -
  from assms obtain i where i: "hash_index (hash name) (hsize h) = Some i" "i < hsize h"
    using hash_index_name [of "hsize h" name] by (auto simp: vars_wf_def)
  with assms vars_bucket [of ob h i] show ?thesis
    by (intro that [of i]) (simp_all add: own_global_def global_in_gfind bucket_ok_def)
qed

lemma own_global_total: "vars_wf ob \<Longrightarrow> nul_free name \<Longrightarrow> \<exists>r. own_global ob name = Some r"
  by (cases "o_vars ob") (auto simp: own_global_def elim: own_global_gfind)

subsection \<open>Replacing a bucket\<close>

text \<open>The table \<open>var_add_global\<close> works on: an object without variables gets an empty one.\<close>

definition vtab :: "object \<Rightarrow> vardef hasht" where
  "vtab ob = (case o_vars ob of Some h \<Rightarrow> h | None \<Rightarrow> hash_new HASH_INIT_SIZE)"

lemma vtab_ok:
  assumes "vars_wf ob"
  shows "0 < hsize (vtab ob)" "hnum (vtab ob) = length (hentries (vtab ob))"
    "i < hsize (vtab ob) \<Longrightarrow> bucket_ok ob (hsize (vtab ob)) i (htable (vtab ob) ! i)"
  using assms
  by (auto simp: vars_wf_def vtab_def bucket_ok_def hash_new_def HASH_INIT_SIZE_def
      split: option.splits)

lemma var_uses_vtab: "var_uses ob = map vd_name (hentries (vtab ob))"
  by (simp add: vtab_def split: option.splits)

lemma own_global_vtab:
  assumes "vars_wf ob" "nul_free name"
  obtains i where "hash_index (hash name) (hsize (vtab ob)) = Some i" "i < hsize (vtab ob)"
    "own_global ob name = Some (gfind ob name (htable (vtab ob) ! i))"
proof (cases "o_vars ob")
  case None
  then have "vtab ob = hash_new HASH_INIT_SIZE" by (simp add: vtab_def)
  moreover from this obtain i where "hash_index (hash name) (hsize (vtab ob)) = Some i"
    "i < hsize (vtab ob)" using vtab_ok [OF assms(1)] hash_index_name by blast
  ultimately show ?thesis
    using None by (intro that [of i]) (auto simp: own_global_def hash_new_def)
next
  case (Some h)
  with assms own_global_gfind [of ob h name] that show ?thesis by (auto simp: vtab_def)
qed

lemma in_bucket: "i < length t \<Longrightarrow> v \<in> set (t ! i) \<Longrightarrow> v \<in> set (concat t)"
  by auto

lemma concat_bucket: "v \<in> set (concat t) \<Longrightarrow> \<exists>k<length t. v \<in> set (t ! k)"
  by (metis UN_iff in_set_conv_nth set_concat)

lemma replace_bucket:
  assumes wf: "vars_wf ob" and i: "i < hsize (vtab ob)"
    and tab: "o_vars ob' = Some (HashT k ((htable (vtab ob))[i := b]))"
    and k: "k + length (htable (vtab ob) ! i) = hnum (vtab ob) + length b"
    and b: "bucket_ok ob' (hsize (vtab ob)) i b"
    and keep: "\<forall>v\<in>set (hentries (vtab ob)) - set (htable (vtab ob) ! i).
        sym_get ob' (vd_name v) = sym_get ob (vd_name v)"
  shows "vars_wf ob'"
    and "nul_free j \<Longrightarrow> hash_index (hash j) (hsize (vtab ob)) = Some i \<Longrightarrow>
      own_global ob' j = Some (gfind ob' j b)"
    and "nul_free j \<Longrightarrow> hash_index (hash j) (hsize (vtab ob)) \<noteq> Some i \<Longrightarrow>
      own_global ob' j = own_global ob j"
proof -
  let ?h = "vtab ob"
  have disj: "\<forall>v\<in>set (htable ?h ! n). sym_get ob' (vd_name v) = sym_get ob (vd_name v)"
    if n: "n < hsize ?h" "n \<noteq> i" for n
  proof
    fix v assume v: "v \<in> set (htable ?h ! n)"
    have "v \<notin> set (htable ?h ! i)"
    proof
      assume "v \<in> set (htable ?h ! i)"
      with v vtab_ok(3) [OF wf n(1)] vtab_ok(3) [OF wf i] n(2) show False
        by (auto simp: bucket_ok_def)
    qed
    with v n keep show "sym_get ob' (vd_name v) = sym_get ob (vd_name v)"
      using in_bucket [of n "htable ?h" v] by simp
  qed
  have "bucket_ok ob' (hsize ?h) n ((htable ?h)[i := b] ! n)" if n: "n < hsize ?h" for n
  proof (cases "n = i")
    case False
    with bucket_ok_cong [OF disj [OF n False]] vtab_ok(3) [OF wf n] show ?thesis by simp
  qed (use b i in simp)
  moreover have "k = length (concat ((htable ?h)[i := b]))"
    using k length_concat_update [OF i, of b] vtab_ok(2) [OF wf] by simp
  ultimately show wf': "vars_wf ob'"
    using tab vtab_ok(1) [OF wf] by (simp add: vars_wf_def)
  have tab': "vtab ob' = HashT k ((htable ?h)[i := b])" using tab by (simp add: vtab_def)
  show "own_global ob' j = Some (gfind ob' j b)"
    if "nul_free j" "hash_index (hash j) (hsize ?h) = Some i"
    using own_global_vtab [OF wf' that(1)] that(2) i tab' by auto
  show "own_global ob' j = own_global ob j"
    if j: "nul_free j" "hash_index (hash j) (hsize ?h) \<noteq> Some i"
  proof -
    obtain n where n: "hash_index (hash j) (hsize ?h) = Some n" "n < hsize ?h"
      "own_global ob j = Some (gfind ob j (htable ?h ! n))"
      using own_global_vtab [OF wf j(1)] by blast
    with j(2) have "n \<noteq> i" by auto
    with n own_global_vtab [OF wf' j(1)] tab' gfind_cong [OF disj [of n], of j]
    show ?thesis by auto
  qed
qed

lemma count_concat_update:
  "i < length t \<Longrightarrow>
     count_list (map f (concat (t[i := b]))) n + count_list (map f (t ! i)) n =
     count_list (map f (concat t)) n + count_list (map f b) n"
  by (induction t arbitrary: i) (auto simp: nth_Cons split: nat.splits)

section \<open>Assigning a variable of the object itself\<close>

lemma assign_existing:
  assumes inv: "object_inv ob" and name: "nul_free name"
    and h: "o_vars ob = Some h" and i: "hash_index (hash name) (hsize h) = Some i"
    and set: "global_set_in ob name x (htable h ! i) = Some (Some b)"
    and ob': "ob' = ob\<lparr>o_vars := Some (HashT (hnum h) ((htable h)[i := b]))\<rparr>"
  shows "object_inv ob' \<and> own_global ob' name = Some (Some x) \<and>
    (\<forall>j. nul_free j \<longrightarrow> lower j \<noteq> lower name \<longrightarrow> own_global ob' j = own_global ob j) \<and>
    other_uses ob' = other_uses ob \<and> o_id ob' = o_id ob \<and> o_parents ob' = o_parents ob"
proof -
  have wf: "vars_wf ob" and vt: "vtab ob = h" using inv h by (simp_all add: object_inv_def vtab_def)
  have lt: "i < hsize h" using i by (rule hash_index_in_range)
  have get: "sym_get ob' = sym_get ob" by (intro ext) (simp add: ob' sym_get_def)
  then have gf: "gfind ob' = gfind ob" by (intro ext) (simp add: gfind_def vname_def sym_str_def)
  have bok: "bucket_ok ob (hsize h) i (htable h ! i)" using vars_bucket wf h lt by simp
  then have "named ob (htable h ! i)" by (simp add: bucket_ok_def)
  from global_set_in_spec [OF this name, of x] set
  have b: "map vd_name b = map vd_name (htable h ! i)" "gfind ob name b = Some x"
    "\<forall>j. lower j \<noteq> lower name \<longrightarrow> gfind ob j b = gfind ob j (htable h ! i)" by auto
  have bok': "bucket_ok ob' (hsize (vtab ob)) i b"
    using bok bucket_ok_names [OF b(1)] bucket_ok_cong [of b ob' ob] get vt by simp
  have len: "hnum (vtab ob) + length (htable (vtab ob) ! i) = hnum (vtab ob) + length b"
    using arg_cong [OF b(1), of length] vt by simp
  have tab: "o_vars ob' = Some (HashT (hnum (vtab ob)) ((htable (vtab ob))[i := b]))"
    using ob' vt by simp
  note rb = replace_bucket [OF wf lt [folded vt] tab len bok'] 
  have "map (map vd_name) ((htable h)[i := b]) = map (map vd_name) (htable h)"
    using b(1) lt by (simp add: map_update list_update_same_conv)
  then have "var_uses ob' = var_uses ob" using ob' h by (simp add: map_concat)
  moreover have other: "other_uses ob' = other_uses ob" by (simp add: ob' other_uses_def)
  ultimately have "sym_ok (o_symbols ob') (sym_uses ob')"
    using inv ob' by (simp add: object_inv_def sym_uses_def)
  moreover have "own_global ob' j = own_global ob j" if j: "nul_free j" "lower j \<noteq> lower name" for j
  proof (cases "hash_index (hash j) (hsize h) = Some i")
    case True
    obtain n where "hash_index (hash j) (hsize h) = Some n"
      "own_global ob j = Some (gfind ob j (htable h ! n))"
      using own_global_gfind [OF wf h j(1)] by blast
    with True have "own_global ob j = Some (gfind ob j (htable h ! i))" by simp
    moreover have "own_global ob' j = Some (gfind ob' j b)" using rb(2) j(1) True get vt by simp
    ultimately show ?thesis using b(3) j(2) gf by simp
  qed (use j rb(3) get vt in simp)
  ultimately show ?thesis using rb(1) rb(2) name i b(2) get gf vt other
    by (simp add: object_inv_def ob')
qed

lemma assign_fresh:
  assumes inv: "object_inv ob" and name: "nul_free (sdata name)"
    and none: "own_global ob (sdata name) = Some None"
  shows "\<exists>ob1 n ob'. sym_add ob name = Some (ob1, n) \<and> var_add_global ob1 n x = Some (ob', False) \<and>
    object_inv ob' \<and> own_global ob' (sdata name) = Some (Some x) \<and>
    (\<forall>j. nul_free j \<longrightarrow> lower j \<noteq> lower (sdata name) \<longrightarrow> own_global ob' j = own_global ob j) \<and>
    other_uses ob' = other_uses ob \<and> o_id ob' = o_id ob \<and> o_parents ob' = o_parents ob"
proof -
  have wf: "vars_wf ob" using inv by (simp add: object_inv_def)
  obtain ob1 n where add: "sym_add ob name = Some (ob1, n)" "sym_str ob1 n = Some (sdata name)"
    and ok1: "sym_ok (o_symbols ob1) (n # sym_uses ob)"
    and get: "\<forall>k\<in>set (sym_uses ob). sym_get ob1 k = sym_get ob k" and same: "same_but_symbols ob ob1"
    using sym_add_ok [of ob "sym_uses ob" name] inv name by (auto simp: object_inv_def)
  have vt: "vtab ob1 = vtab ob" using same by (simp add: same_but_symbols_def vtab_def)
  let ?h = "vtab ob"
  obtain i where i: "hash_index (hash (sdata name)) (hsize ?h) = Some i" "i < hsize ?h"
    "gfind ob (sdata name) (htable ?h ! i) = None"
    using own_global_vtab [OF wf name] none by (metis option.inject)
  have uses: "vd_name v \<in> set (sym_uses ob)" if "v \<in> set (hentries ?h)" for v
    using that var_uses_vtab [of ob] by (auto simp: sym_uses_def)
  have getb: "\<forall>v\<in>set (htable ?h ! i). sym_get ob1 (vd_name v) = sym_get ob (vd_name v)"
    using get uses in_bucket [OF i(2)] by blast
  then have "gfind ob1 (sdata name) (htable ?h ! i) = None" using i(3) gfind_cong by metis
  then have fresh: "\<forall>v\<in>set (htable ?h ! i). vname ob1 v \<noteq> lower (sdata name)"
    by (simp add: gfind_None_iff)
  have "vd_name v \<noteq> n" if "v \<in> set (htable ?h ! i)" for v
    using fresh add(2) that by (auto simp: vname_def)
  then have nf: "var_find (htable ?h ! i) n 0 = None"
  proof -
    have "(\<forall>v\<in>set b. vd_name v \<noteq> n) \<Longrightarrow> var_find b n k = None" for b k
      by (induction b arbitrary: k) auto
    with \<open>\<And>v. v \<in> set (htable ?h ! i) \<Longrightarrow> vd_name v \<noteq> n\<close> show ?thesis by blast
  qed
  let ?v = "\<lparr>vd_name = n, vd_value = x\<rparr>"
  let ?b = "?v # htable ?h ! i"
  let ?ob = "ob1\<lparr>o_vars := Some (HashT (hnum ?h + 1) ((htable ?h)[i := ?b]))\<rparr>"
  have vag: "var_add_global ob1 n x = Some (?ob, False)"
    using add(2) i(1) nf vt by (simp add: var_add_global_def vtab_def [symmetric] Let_def)
  have get': "sym_get ?ob = sym_get ob1" by (intro ext) (simp add: sym_get_def)
  have bok: "bucket_ok ob1 (hsize ?h) i (htable ?h ! i)"
    using vtab_ok(3) [OF wf i(2)] bucket_ok_cong [OF getb] by simp
  then have bok': "bucket_ok ?ob (hsize ?h) i ?b"
    using bucket_ok_cong [of ?b ?ob ob1] get' fresh add(2) name i(1)
    by (auto simp: bucket_ok_def vname_def)
  have rb: "vars_wf ?ob"
    "nul_free j \<Longrightarrow> hash_index (hash j) (hsize ?h) = Some i \<Longrightarrow> own_global ?ob j = Some (gfind ?ob j ?b)"
    "nul_free j \<Longrightarrow> hash_index (hash j) (hsize ?h) \<noteq> Some i \<Longrightarrow> own_global ?ob j = own_global ob j"
    for j
    using replace_bucket [OF wf i(2), of ?ob "hnum ?h + 1" ?b] bok' get get' uses by auto
  have gf: "gfind ?ob j (htable ?h ! i) = gfind ob j (htable ?h ! i)" for j
    using gfind_cong [of "htable ?h ! i" ?ob ob j] getb get' by simp
  have vn: "vname ?ob ?v = lower (sdata name)" 
  proof -
    have "sym_str ?ob n = Some (sdata name)" using add(2) unfolding sym_str_def get' .
    then show ?thesis by (simp add: vname_def)
  qed
  have "own_global ?ob j = own_global ob j" if j: "nul_free j" "lower j \<noteq> lower (sdata name)" for j
  proof (cases "hash_index (hash j) (hsize ?h) = Some i")
    case True
    obtain k where "hash_index (hash j) (hsize ?h) = Some k"
      "own_global ob j = Some (gfind ob j (htable ?h ! k))"
      using own_global_vtab [OF wf j(1)] by blast
    with True have "own_global ob j = Some (gfind ob j (htable ?h ! i))" by simp
    with True j rb(2) gf vn show ?thesis by simp
  qed (use j rb(3) in simp)
  moreover have "own_global ?ob (sdata name) = Some (Some x)" using rb(2) name i(1) vn by simp
  moreover have other: "other_uses ?ob = other_uses ob"
    using same by (simp add: other_uses_def same_but_symbols_def)
  moreover have "sym_ok (o_symbols ?ob) (sym_uses ?ob)"
  proof (rule sym_ok_mono)
    show "sym_ok (o_symbols ?ob) (n # sym_uses ob)" using ok1 by simp
    show "count_list (sym_uses ?ob) k \<le> count_list (n # sym_uses ob) k" for k
      using count_concat_update [OF i(2), of vd_name ?b k] other var_uses_vtab [of ob]
      by (simp add: sym_uses_def split: if_splits)
  qed
  ultimately show ?thesis using add(1) vag rb(1) same
    by (intro exI [of _ ob1] exI [of _ n] exI [of _ ?ob])
      (simp add: object_inv_def same_but_symbols_def)
qed

lemma assign_own_ok:
  assumes inv: "object_inv ob" and name: "nul_free (sdata name)"
  obtains ob' where "assign_own ob name x = Some ob'" "object_inv ob'"
    "own_global ob' (sdata name) = Some (Some x)"
    "\<And>j. nul_free j \<Longrightarrow> lower j \<noteq> lower (sdata name) \<Longrightarrow> own_global ob' j = own_global ob j"
    "other_uses ob' = other_uses ob" "o_id ob' = o_id ob" "o_parents ob' = o_parents ob"
proof -
  have wf: "vars_wf ob" using inv by (simp add: object_inv_def)
  show ?thesis
  proof (cases "o_vars ob")
    case None
    then have "own_global ob (sdata name) = Some None" by (simp add: own_global_def)
    from assign_fresh [OF inv name this, of x] None show ?thesis
      by (auto simp: assign_own_def intro: that)
  next
    case (Some h)
    obtain i where i: "hash_index (hash (sdata name)) (hsize h) = Some i" "i < hsize h"
      "own_global ob (sdata name) = Some (gfind ob (sdata name) (htable h ! i))"
      using own_global_gfind [OF wf Some name] by blast
    have "named ob (htable h ! i)" using vars_bucket [OF wf Some i(2)] by (simp add: bucket_ok_def)
    from global_set_in_spec [OF this name, of x] obtain r where
      r: "global_set_in ob (sdata name) x (htable h ! i) = Some r"
      "r = None \<longrightarrow> gfind ob (sdata name) (htable h ! i) = None" by blast
    show ?thesis
    proof (cases r)
      case None
      with r i(3) have "own_global ob (sdata name) = Some None" by simp
      from assign_fresh [OF inv name this, of x] Some None i r show ?thesis
        by (auto simp: assign_own_def intro: that)
    next
      case b: (Some b)
      with r have "global_set_in ob (sdata name) x (htable h ! i) = Some (Some b)" by simp
      note ex = assign_existing [OF inv name Some i(1) this refl]
      have "assign_own ob name x = Some (ob\<lparr>o_vars := Some (HashT (hnum h) ((htable h)[i := b]))\<rparr>)"
        using Some i r b by (simp add: assign_own_def)
      from that [OF this] ex show ?thesis by blast
    qed
  qed
qed

section \<open>Removing a variable of the object itself\<close>

lemma var_rm_ok:
  assumes inv: "object_inv ob" and name: "nul_free name"
  obtains ob' e where "var_rm_global ob name = Some (ob', e)" "object_inv ob'"
    "own_global ob' name = Some None"
    "\<And>j. nul_free j \<Longrightarrow> lower j \<noteq> lower name \<Longrightarrow> own_global ob' j = own_global ob j"
    "e = (if own_global ob name = Some None then E_VARNF else E_NONE)"
    "other_uses ob' = other_uses ob"
proof -
  have wf: "vars_wf ob" using inv by (simp add: object_inv_def)
  show ?thesis
  proof (cases "o_vars ob")
    case None
    with inv show ?thesis by (intro that [of ob E_VARNF]) (auto simp: own_global_def var_rm_global_def)
  next
    case h: (Some h)
    then have vt: "vtab ob = h" by (simp add: vtab_def)
    obtain i where i: "hash_index (hash name) (hsize h) = Some i" "i < hsize h"
      "own_global ob name = Some (gfind ob name (htable h ! i))"
      using own_global_gfind [OF wf h name] by blast
    have bok: "bucket_ok ob (hsize h) i (htable h ! i)" using vars_bucket [OF wf h i(2)] .
    then have "named ob (htable h ! i)" by (simp add: bucket_ok_def)
    from global_rm_in_spec [OF this name] obtain r where
      r: "global_rm_in ob name (htable h ! i) = Some r"
      "r = None \<longrightarrow> gfind ob name (htable h ! i) = None"
      "\<forall>v rest. r = Some (v, rest) \<longrightarrow>
          (\<exists>us vs. htable h ! i = us @ v # vs \<and> rest = us @ vs) \<and> vname ob v = lower name"
      by blast
    show ?thesis
    proof (cases r)
      case None
      with inv h i r show ?thesis by (intro that [of ob E_VARNF]) (auto simp: var_rm_global_def)
    next
      case (Some p)
      obtain v rest where p: "p = (v, rest)" by (cases p)
      with Some r(3) obtain us vs where split: "htable h ! i = us @ v # vs" "rest = us @ vs"
        and v: "vname ob v = lower name" by blast
      let ?b = "us @ vs"
      let ?ob0 = "ob\<lparr>o_vars := Some (HashT (hnum h - 1) ((htable h)[i := ?b]))\<rparr>"
      have cnt: "count_list (map vd_name (hentries h)) k =
          count_list (map vd_name (concat ((htable h)[i := ?b]))) k + (if vd_name v = k then 1 else 0)" for k
        using count_concat_update [OF i(2), of vd_name ?b k] split by (simp split: if_splits)
      have other: "other_uses ?ob0 = other_uses ob" by (simp add: other_uses_def)
      have "sym_ok (o_symbols ob) (vd_name v # sym_uses ?ob0)"
      proof (rule sym_ok_mono)
        show "sym_ok (o_symbols ob) (sym_uses ob)" using inv by (simp add: object_inv_def)
        show "count_list (vd_name v # sym_uses ?ob0) k \<le> count_list (sym_uses ob) k" for k
          using cnt [of k] other h by (simp add: sym_uses_def split: if_splits)
      qed
      then have "sym_ok (o_symbols ?ob0) (vd_name v # sym_uses ?ob0)" by simp
      then obtain ob' where free: "sym_free ?ob0 (vd_name v) = Some ob'"
        "sym_ok (o_symbols ob') (sym_uses ?ob0)"
        and get: "\<forall>k\<in>set (sym_uses ?ob0). sym_get ob' k = sym_get ?ob0 k"
        and same: "same_but_symbols ?ob0 ob'" by (rule sym_free_ok)
      have rm: "var_rm_global ob name = Some (ob', E_NONE)"
        using h i(1) r(1) Some p split free(1) by (simp add: var_rm_global_def)
      have get0: "sym_get ?ob0 = sym_get ob" by (intro ext) (simp add: sym_get_def)
      have uses: "sym_get ob' (vd_name u) = sym_get ob (vd_name u)"
        if "u \<in> set (concat ((htable h)[i := ?b]))" for u
        using get get0 that by (auto simp: sym_uses_def)
      have in_b: "u \<in> set (concat ((htable h)[i := ?b]))" if "u \<in> set ?b" for u
        using that i(2) in_bucket [of i "(htable h)[i := ?b]" u] by simp
      have getb: "\<forall>u\<in>set ?b. sym_get ob' (vd_name u) = sym_get ob (vd_name u)"
        using uses in_b by blast
      have bokb: "bucket_ok ob (hsize h) i ?b" using bok split(1) by (auto simp: bucket_ok_def)
      then have bok': "bucket_ok ob' (hsize (vtab ob)) i ?b" using bucket_ok_cong [OF getb] vt by simp
      have keep: "\<forall>u\<in>set (hentries (vtab ob)) - set (htable (vtab ob) ! i).
          sym_get ob' (vd_name u) = sym_get ob (vd_name u)"
      proof
        fix u assume u: "u \<in> set (hentries (vtab ob)) - set (htable (vtab ob) ! i)"
        then obtain k where k: "k < hsize h" "u \<in> set (htable h ! k)" "k \<noteq> i"
          using vt concat_bucket [of u "htable h"] by fastforce
        then have "u \<in> set (concat ((htable h)[i := ?b]))"
          using in_bucket [of k "(htable h)[i := ?b]" u] by simp
        then show "sym_get ob' (vd_name u) = sym_get ob (vd_name u)" by (rule uses)
      qed
      have "htable h ! i \<noteq> []" using split by simp
      then have "hnum h \<noteq> 0"
        using vtab_ok(2) [OF wf] vt nth_mem [OF i(2)] by auto
      then have len: "hnum h - 1 + length (htable (vtab ob) ! i) = hnum (vtab ob) + length ?b"
        using vt split by simp
      have tab: "o_vars ob' = Some (HashT (hnum h - 1) ((htable (vtab ob))[i := ?b]))"
        using same vt by (simp add: same_but_symbols_def)
      note rb = replace_bucket [OF wf i(2) [folded vt] tab len bok' keep]
      have gf: "gfind ob' j ?b = gfind ob j ?b" for j using gfind_cong [OF getb] by blast
      have "vname ob v \<notin> vname ob ` set ?b"
        using bok split(1) by (simp add: bucket_ok_def image_Un)
      then have "gfind ob name ?b = None"
        unfolding v by (metis gfind_None_iff image_eqI)
      then have gone: "own_global ob' name = Some None" using rb(2) name i(1) vt gf by simp
      have others: "own_global ob' j = own_global ob j" if j: "nul_free j" "lower j \<noteq> lower name" for j
      proof (cases "hash_index (hash j) (hsize h) = Some i")
        case True
        obtain k where "hash_index (hash j) (hsize h) = Some k"
          "own_global ob j = Some (gfind ob j (htable h ! k))"
          using own_global_gfind [OF wf h j(1)] by blast
        with True have "own_global ob j = Some (gfind ob j (htable h ! i))" by simp
        also have "gfind ob j (htable h ! i) = gfind ob j ?b"
          unfolding split(1) using v j(2) by (auto simp: gfind_append split: option.split)
        finally show ?thesis using True j rb(2) gf vt by simp
      qed (use j rb(3) vt in simp)
      have found: "own_global ob name \<noteq> Some None"
        using i(3) split v by (auto simp: gfind_None_iff)
      have inv': "object_inv ob'"
        using free(2) rb(1) same_but_symbols_uses [OF same] by (simp add: object_inv_def)
      show ?thesis using that [OF rm inv' gone others] found same other
        by (simp add: same_but_symbols_def other_uses_def)
    qed
  qed
qed

section \<open>The contract\<close>

definition rm_own :: "object \<Rightarrow> string \<Rightarrow> object option" where
  "rm_own ob name = map_option fst (var_rm_global ob name)"

interpretation globals: kv_store_del own_global "\<lambda>ob k. assign_own ob (mk_str k)" lower
  object_inv nul_free rm_own
proof
  fix ob k x assume "object_inv ob" "nul_free k"
  then show "\<exists>m'. assign_own ob (mk_str k) x = Some m' \<and> object_inv m'"
    using assign_own_ok [of ob "mk_str k" x] by force
next
  fix ob k x ob' assume "object_inv ob" "nul_free k" "assign_own ob (mk_str k) x = Some ob'"
  then show "own_global ob' k = Some (Some x)"
    using assign_own_ok [of ob "mk_str k" x] by force
next
  fix ob k j x ob'
  assume "object_inv ob" "nul_free k" "nul_free j" "lower j \<noteq> lower k"
    "assign_own ob (mk_str k) x = Some ob'"
  then show "own_global ob' j = own_global ob j"
    using assign_own_ok [of ob "mk_str k" x] by force
next
  fix ob k assume "object_inv ob" "nul_free k"
  then show "\<exists>m'. rm_own ob k = Some m' \<and> object_inv m'"
    using var_rm_ok [of ob k] by (force simp: rm_own_def)
next
  fix ob k ob' assume "object_inv ob" "nul_free k" "rm_own ob k = Some ob'"
  then show "own_global ob' k = Some None"
    using var_rm_ok [of ob k] by (force simp: rm_own_def)
next
  fix ob k j ob'
  assume "object_inv ob" "nul_free k" "nul_free j" "lower j \<noteq> lower k" "rm_own ob k = Some ob'"
  then show "own_global ob' j = own_global ob j"
    using var_rm_ok [of ob k] by (force simp: rm_own_def)
qed

end
