(* ===== verification/Storage.thy ===== *)
theory Storage
  imports ObjectInv
begin

text \<open>
  Objects in the database: the variables of the system object (\<open>dispatch.c\<close>), creation,
  replacement and destruction of objects (\<open>storage.c\<close>), and permissions (\<open>perms.c\<close>).
\<close>

section \<open>dispatch.c: the system object\<close>

definition sys_obj :: objid where
  "sys_obj = \<lparr>server = 0, oid = 0\<rparr>"

definition sys_get_global :: "nat \<Rightarrow> db \<Rightarrow> string \<Rightarrow> (var option \<times> err) option" where
  "sys_get_global fuel d name =
     (case retrieve d sys_obj of
        None \<Rightarrow> Some (None, E_OBJNF)
      | Some sys \<Rightarrow> do {
          r \<leftarrow> var_get_global fuel d sys name;
          Some (case r of None \<Rightarrow> (None, E_VARNF) | Some v \<Rightarrow> (Some v, E_NONE)) })"

definition sys_assign_global :: "nat \<Rightarrow> db \<Rightarrow> string \<Rightarrow> var \<Rightarrow> (db \<times> err) option" where
  "sys_assign_global fuel d name v =
     (case retrieve d sys_obj of
        None \<Rightarrow> Some (d, E_OBJNF)
      | Some sys \<Rightarrow> do {
          (d', e) \<leftarrow> var_assign_global fuel d sys (mk_str name) v;
          Some (d', if e = E_TYPE then E_TYPE else E_NONE) })"

section \<open>storage.c\<close>

definition new_object :: object where
  "new_object = \<lparr>o_id = \<lparr>server = 0, oid = -1\<rparr>, o_parents = [], o_locks = [], o_methods = None,
     o_verbs = [], o_vars = None, o_symbols = [], o_stsize = 0\<rparr>"

definition dbtop :: "nat \<Rightarrow> db \<Rightarrow> i32 option" where
  "dbtop fuel d = do {
     (v, e) \<leftarrow> sys_get_global fuel d ''dbtop'';
     Some (case v of Some (VNUM n) \<Rightarrow> n | _ \<Rightarrow> 0) }"

definition set_dbtop :: "nat \<Rightarrow> db \<Rightarrow> i32 \<Rightarrow> db option" where
  "set_dbtop fuel d n = map_option fst (sys_assign_global fuel d ''dbtop'' (VNUM n))"

text \<open>\<open>var_copy_vars\<close>, bucket by bucket; the target is in the database already.\<close>

fun copy_vars :: "nat \<Rightarrow> object \<Rightarrow> vardef list \<Rightarrow> db \<Rightarrow> object \<Rightarrow> db option" where
  "copy_vars fuel src [] d dest = Some d"
| "copy_vars fuel src (v # vs) d dest = do {
     name \<leftarrow> sym_get src (vd_name v);
     (d', e) \<leftarrow> var_assign_global fuel d dest name (vd_value v);
     dest' \<leftarrow> (if e = E_NONE then d' (oid (o_id dest)) else Some dest);
     copy_vars fuel src vs d' dest' }"

definition var_copy_vars :: "nat \<Rightarrow> object \<Rightarrow> db \<Rightarrow> object \<Rightarrow> db option" where
  "var_copy_vars fuel src d dest =
     (case o_vars src of None \<Rightarrow> Some d | Some h \<Rightarrow> copy_vars fuel src (hentries h) d dest)"

definition assign_object :: "nat \<Rightarrow> db \<Rightarrow> objid \<Rightarrow> object \<Rightarrow> db option" where
  "assign_object fuel d ob new =
     (if server ob \<noteq> 0 \<or> sint (oid ob) < 0 then Some d
      else do {
        let d1 = d(oid ob := Some new);
        d2 \<leftarrow> (case retrieve d ob of None \<Rightarrow> Some d1 | Some old \<Rightarrow> var_copy_vars fuel old d1 new);
        top \<leftarrow> dbtop fuel d2;
        if sint top < sint (oid ob) then set_dbtop fuel d2 (oid ob) else Some d2 })"

definition clone :: "nat \<Rightarrow> db \<Rightarrow> objid \<Rightarrow> (db \<times> objid option) option" where
  "clone fuel d pid =
     (if server pid \<noteq> 0 \<or> sint (oid pid) < 0 then Some (d, None)
      else do {
        t \<leftarrow> dbtop fuel d;
        let top = t + 1;
        d1 \<leftarrow> set_dbtop fuel d top;
        let ob = sym_init (new_object\<lparr>o_id := \<lparr>server = 0, oid = top\<rparr>\<rparr>);
        d2 \<leftarrow> assign_object fuel d1 (o_id ob) (ob\<lparr>o_parents := [VOBJ pid]\<rparr>);
        Some (d2, Some (o_id ob)) })"

definition destroy :: "db \<Rightarrow> objid \<Rightarrow> db \<times> bool" where
  "destroy d ob = (if valid d ob then (d(oid ob := None), False) else (d, True))"

section \<open>perms.c\<close>

definition owns ::
  "(vmap \<Rightarrow> vmap \<Rightarrow> bool) \<Rightarrow> nat \<Rightarrow> db \<Rightarrow> objid \<Rightarrow> objid \<Rightarrow> bool option" where
  "owns same fuel d player what =
     (case retrieve d what of
        None \<Rightarrow> Some False
      | Some ob \<Rightarrow>
          if \<not> valid d player then Some False
          else do {
            owners \<leftarrow> var_get_global fuel d ob ''owners'';
            case owners of
              Some (VLIST l) \<Rightarrow> map_option (\<lambda>i. i \<noteq> 0) (list_ismember same (VOBJ player) l)
            | _ \<Rightarrow> Some True })"

definition is_wizard ::
  "(vmap \<Rightarrow> vmap \<Rightarrow> bool) \<Rightarrow> nat \<Rightarrow> db \<Rightarrow> objid \<Rightarrow> bool option" where
  "is_wizard same fuel d player =
     (if player = sys_obj then Some True
      else if \<not> valid d player then Some False
      else do {
        sys \<leftarrow> retrieve d sys_obj;
        wizards \<leftarrow> var_get_global fuel d sys ''wizards'';
        case wizards of
          Some (VLIST l) \<Rightarrow> map_option (\<lambda>i. i \<noteq> 0) (list_ismember same (VOBJ player) l)
        | _ \<Rightarrow> Some False })"

definition can_program ::
  "(vmap \<Rightarrow> vmap \<Rightarrow> bool) \<Rightarrow> nat \<Rightarrow> db \<Rightarrow> objid \<Rightarrow> objid \<Rightarrow> bool option" where
  "can_program same fuel d player what = do {
     own \<leftarrow> owns same fuel d player what;
     if own then Some True else is_wizard same fuel d player }"

section \<open>Membership of objects\<close>

lemma list_ismember_obj:
  "list_ismember_from same k (VOBJ p) l =
     Some (if VOBJ p \<in> set l then k + length (takeWhile (\<lambda>x. x \<noteq> VOBJ p) l) + 1 else 0)"
proof (induction l arbitrary: k)
  case (Cons x l)
  have "var_eq same (VOBJ p) x = Some (x = VOBJ p)"
    by (cases x) (auto intro!: objid.equality)
  with Cons show ?case by auto
qed simp

lemma is_member_obj [simp]:
  "map_option ((<) 0) (list_ismember same (VOBJ p) l) = Some (VOBJ p \<in> set l)"
  by (simp add: list_ismember_def list_ismember_obj)

text \<open>
  Who may program an object: its owners, the wizards and the system object; everybody,
  when the object has no list of owners.
\<close>

theorem can_program_spec:
  assumes "retrieve d what = Some ob" "valid d player" "retrieve d sys_obj = Some sys"
    and "var_get_global fuel d ob ''owners'' = Some owners"
    and "var_get_global fuel d sys ''wizards'' = Some wizards"
  shows "can_program same fuel d player what =
    Some ((case owners of Some (VLIST l) \<Rightarrow> VOBJ player \<in> set l | _ \<Rightarrow> True) \<or> player = sys_obj \<or>
          (case wizards of Some (VLIST l) \<Rightarrow> VOBJ player \<in> set l | _ \<Rightarrow> False))"
proof -
  have "owns same fuel d player what =
      Some (case owners of Some (VLIST l) \<Rightarrow> VOBJ player \<in> set l | _ \<Rightarrow> True)"
    using assms by (simp add: owns_def split: option.split var.split)
  moreover have "is_wizard same fuel d player = Some (player = sys_obj \<or>
      (case wizards of Some (VLIST l) \<Rightarrow> VOBJ player \<in> set l | _ \<Rightarrow> False))"
    using assms by (simp add: is_wizard_def split: option.split var.split)
  ultimately show ?thesis by (simp add: can_program_def)
qed

section \<open>Assignment and lookup\<close>

lemma var_assign_ok:
  assumes inv: "object_inv ob" and name: "nul_free (sdata name)"
    and old: "var_get_global n d ob (sdata name) = Some old"
    and ty: "\<And>y. old = Some y \<Longrightarrow> vtype x = vtype y"
  obtains ob' where
    "var_assign_global n d ob name x = Some (d(oid (o_id ob) := Some ob'), E_NONE)"
    "object_inv ob'" "own_global ob' (sdata name) = Some (Some x)"
    "\<And>j. nul_free j \<Longrightarrow> lower j \<noteq> lower (sdata name) \<Longrightarrow> own_global ob' j = own_global ob j"
    "o_id ob' = o_id ob" "o_parents ob' = o_parents ob"
proof -
  obtain ob' where ob': "assign_own ob name x = Some ob'" "object_inv ob'"
    "own_global ob' (sdata name) = Some (Some x)"
    "\<And>j. nul_free j \<Longrightarrow> lower j \<noteq> lower (sdata name) \<Longrightarrow> own_global ob' j = own_global ob j"
    "o_id ob' = o_id ob" "o_parents ob' = o_parents ob"
    using assign_own_ok [OF inv name, of x] by metis
  moreover from this(1) old ty have
    "var_assign_global n d ob name x = Some (d(oid (o_id ob) := Some ob'), E_NONE)"
    by (auto simp: var_assign_global_def split: option.split)
  ultimately show ?thesis by (intro that [of ob']) auto
qed

text \<open>
  C22: an assignment to a variable of an object either is refused, when the object has or
  inherits a variable of that name with a value of another type, and then changes nothing; or
  the variable has the new value in the object, the other variables of the object keep theirs,
  the object's invariant still holds, and no other object changes.
\<close>

theorem assign_then_get:
  assumes "object_inv ob" "nul_free (sdata name)" "var_get_global n d ob (sdata name) = Some old"
  shows "if \<exists>y. old = Some y \<and> vtype x \<noteq> vtype y
    then var_assign_global n d ob name x = Some (d, E_TYPE)
    else \<exists>ob'. var_assign_global n d ob name x = Some (d(oid (o_id ob) := Some ob'), E_NONE) \<and>
      object_inv ob' \<and> o_parents ob' = o_parents ob \<and>
      var_get_global (Suc k) (d(oid (o_id ob) := Some ob')) ob' (sdata name) = Some (Some x) \<and>
      (\<forall>j. nul_free j \<longrightarrow> lower j \<noteq> lower (sdata name) \<longrightarrow> own_global ob' j = own_global ob j)"
proof (cases "\<exists>y. old = Some y \<and> vtype x \<noteq> vtype y")
  case True
  with assms show ?thesis by (auto simp: var_assign_global_def)
next
  case False
  then have "\<And>y. old = Some y \<Longrightarrow> vtype x = vtype y" by blast
  from var_assign_ok [OF assms this] obtain ob' where
    "var_assign_global n d ob name x = Some (d(oid (o_id ob) := Some ob'), E_NONE)"
    "object_inv ob'" "own_global ob' (sdata name) = Some (Some x)" "o_parents ob' = o_parents ob"
    "\<And>j. nul_free j \<Longrightarrow> lower j \<noteq> lower (sdata name) \<Longrightarrow> own_global ob' j = own_global ob j"
    by metis
  with False show ?thesis by auto
qed

text \<open>
  C31: in a database without parent cycles the search for a variable returns, with fuel above
  the rank of the object, and finds what the first object of the lineage has that has the
  variable at all.
\<close>

theorem inherited_lookup:
  assumes "acyclic_db rank d" "ranked rank d ob" "rank (oid (o_id ob)) < n"
  shows "\<exists>l. lineage n d ob = Some l \<and> hd l = ob \<and> var_get_global n d ob name = first_global name l"
proof -
  obtain l where l: "lineage n d ob = Some l" using lineage_total [OF assms] by blast
  moreover have "hd l = ob" using l by (cases n) (auto split: bind_splits)
  ultimately show ?thesis using var_get_global_lineage by blast
qed

section \<open>Cloning\<close>

lemma own_is_global:
  "own_global ob name = Some (Some v) \<Longrightarrow> var_get_global (Suc n) d ob name = Some (Some v)"
  by simp

text \<open>
  C24: \<open>clone\<close> makes a new object with the number after the old top of the database, with the
  given parent and no variables; the top is moved to that number, and every other object except
  the system object stays as it was.
\<close>

theorem clone_spec:
  assumes sys: "d 0 = Some sys" "object_inv sys" "o_id sys = sys_obj"
    and top: "own_global sys ''dbtop'' = Some (Some (VNUM n))" "0 \<le> sint n" "sint n < 2 ^ 31 - 1"
    and fresh: "d (n + 1) = None" and pid: "server pid = 0" "0 \<le> sint (oid pid)"
  shows "\<exists>d' sys' ob. clone (Suc k) d pid = Some (d', Some \<lparr>server = 0, oid = n + 1\<rparr>) \<and>
    d' = d(0 := Some sys', n + 1 := Some ob) \<and> object_inv sys' \<and>
    own_global sys' ''dbtop'' = Some (Some (VNUM (n + 1))) \<and>
    o_id ob = \<lparr>server = 0, oid = n + 1\<rparr> \<and> o_parents ob = [VOBJ pid] \<and> o_vars ob = None"
proof -
  let ?name = "mk_str ''dbtop''"
  have n1: "sint (n + 1) = sint n + 1"
    using top by (simp add: signed_take_bit_int_eq_self_iff sint_word_ariths)
  with top(2) have ne: "n + 1 \<noteq> 0" by (metis add_le_same_cancel1 signed_0 not_one_le_zero)
  have get: "var_get_global (Suc k) d sys ''dbtop'' = Some (Some (VNUM n))" using top(1) by simp
  have "nul_free (sdata ?name)" "var_get_global (Suc k) d sys (sdata ?name) = Some (Some (VNUM n))"
    "\<And>y. Some (VNUM n) = Some y \<Longrightarrow> vtype (VNUM (n + 1)) = vtype y"
    using get by auto
  from var_assign_ok [OF sys(2) this] obtain sys' where
    sys': "var_assign_global (Suc k) d sys ?name (VNUM (n + 1)) = Some (d(0 := Some sys'), E_NONE)"
    "object_inv sys'" "own_global sys' ''dbtop'' = Some (Some (VNUM (n + 1)))"
    using sys(3) by (metis mk_str_sel(2) objid.select_convs(2) sys_obj_def)
  let ?ob = "(sym_init (new_object\<lparr>o_id := \<lparr>server = 0, oid = n + 1\<rparr>\<rparr>))\<lparr>o_parents := [VOBJ pid]\<rparr>"
  let ?d1 = "d(0 := Some sys')" and ?d2 = "d(0 := Some sys', n + 1 := Some ?ob)"
  have t: "dbtop (Suc k) d = Some n"
    using sys(1) get by (simp add: dbtop_def sys_get_global_def retrieve_def sys_obj_def)
  have s: "set_dbtop (Suc k) d (n + 1) = Some ?d1"
    using sys(1) sys'(1)
    by (simp add: set_dbtop_def sys_assign_global_def retrieve_def sys_obj_def)
  have t2: "dbtop (Suc k) ?d2 = Some (n + 1)"
    using sys'(3) ne own_is_global [OF sys'(3)]
    by (simp add: dbtop_def sys_get_global_def retrieve_def sys_obj_def)
  have a: "assign_object (Suc k) ?d1 \<lparr>server = 0, oid = n + 1\<rparr> ?ob = Some ?d2"
    using fresh ne n1 top t2 by (simp add: assign_object_def retrieve_def)
  have "clone (Suc k) d pid = Some (?d2, Some \<lparr>server = 0, oid = n + 1\<rparr>)"
    using pid t s a by (simp add: clone_def sym_init_def Let_def)
  then show ?thesis using sys' ne
    by (intro exI [of _ ?d2] exI [of _ sys'] exI [of _ ?ob]) (auto simp: sym_init_def new_object_def)
qed

end
