(* ===== verification/MethodSearch.thy ===== *)
theory MethodSearch
  imports Storage
begin

text \<open>
  What the recursive searches over parents find: \<open>find_method_recursive\<close> of \<open>method.c\<close> with
  its marks and its blocked methods, \<open>hasparent\<close> and \<open>check_parents\<close> of \<open>utils.c\<close>.
\<close>

section \<open>Blocked methods\<close>

abbreviation oids :: "object list \<Rightarrow> i32 set" where
  "oids l \<equiv> (\<lambda>q. oid (o_id q)) ` set l"

text \<open>The marked objects are objects of the database, with the existing parents of each.\<close>

definition closed :: "db \<Rightarrow> i32 set \<Rightarrow> bool" where
  "closed d S \<longleftrightarrow> (\<forall>i\<in>S. \<exists>ob. d i = Some ob \<and>
     (\<forall>x q. VOBJ x \<in> set (o_parents ob) \<longrightarrow> retrieve d x = Some q \<longrightarrow> oid (o_id q) \<in> S))"

definition no_blocked :: "db \<Rightarrow> string \<Rightarrow> i32 set \<Rightarrow> bool" where
  "no_blocked d name S \<longleftrightarrow>
     (\<forall>i\<in>S. \<forall>ob m. d i = Some ob \<longrightarrow> find_method ob name = Some (Some m) \<longrightarrow> \<not> m_blocked m)"

definition hit :: "db \<Rightarrow> string \<Rightarrow> fmr \<Rightarrow> bool" where
  "hit d name st \<longleftrightarrow> (\<forall>m q. found st = Some (m, q) \<longrightarrow>
     d (oid (o_id q)) = Some q \<and> find_method q name = Some (Some m) \<and> (found_blocked st \<longrightarrow> m_blocked m))"

definition open_inv :: "db \<Rightarrow> string \<Rightarrow> fmr \<Rightarrow> bool" where
  "open_inv d name st \<longleftrightarrow> closed d (set (searched st)) \<and> no_blocked d name (set (searched st)) \<and>
     (found st = None \<longrightarrow> (\<forall>i\<in>set (searched st). \<forall>ob. d i = Some ob \<longrightarrow> find_method ob name = Some None))"

definition fmr_ok :: "db \<Rightarrow> string \<Rightarrow> fmr \<Rightarrow> bool" where
  "fmr_ok d name st \<longleftrightarrow> hit d name st \<and>
     (if found_blocked st then found st \<noteq> None else open_inv d name st)"

text \<open>The result of a search that started unblocked and was to cover the objects \<open>l\<close>.\<close>

definition covers :: "db \<Rightarrow> string \<Rightarrow> object list \<Rightarrow> fmr \<Rightarrow> fmr \<Rightarrow> bool" where
  "covers d name l st st' \<longleftrightarrow> fmr_ok d name st' \<and>
     (found st' = found st \<or> (\<exists>m p. found st' = Some (m, p) \<and> p \<in> set l)) \<and>
     (\<not> found_blocked st' \<longrightarrow> set (searched st') = set (searched st) \<union> oids l)"

lemma lineage_parents_closed:
  assumes "\<And>q l. q \<in> Q \<Longrightarrow> go q = Some l \<Longrightarrow> oids l \<subseteq> S"
    and "\<And>x q. VOBJ x \<in> set ps \<Longrightarrow> retrieve d x = Some q \<Longrightarrow> q \<in> Q"
    and "lineage_parents go d ps = Some l"
  shows "oids l \<subseteq> S"
  using assms(2,3)
proof (induction ps arbitrary: l)
  case (Cons p ps)
  from Cons.prems(2) obtain x l1 l2 where x: "p = VOBJ x" "l = l1 @ l2"
    "(case retrieve d x of None \<Rightarrow> Some [] | Some q \<Rightarrow> go q) = Some l1"
    "lineage_parents go d ps = Some l2"
    by (cases p) (auto split: bind_splits)
  moreover from x have "oids l1 \<subseteq> S"
    using assms(1) Cons.prems(1) by (cases "retrieve d x") auto
  moreover have "oids l2 \<subseteq> S" using Cons x by auto
  ultimately show ?case by auto
qed simp

lemma closed_parent:
  assumes "keyed d" "closed d S" "oid (o_id ob) \<in> S" "d (oid (o_id ob)) = Some ob"
    and x: "VOBJ x \<in> set (o_parents ob)" "retrieve d x = Some q"
  shows "oid (o_id q) \<in> S" "d (oid (o_id q)) = Some q"
proof -
  show "oid (o_id q) \<in> S" using assms(2-4) x by (fastforce simp: closed_def)
  have "d (oid x) = Some q" using x(2) by (simp add: retrieve_def split: if_splits)
  with assms(1) show "d (oid (o_id q)) = Some q" by (auto simp: keyed_def)
qed

lemma lineage_closed:
  assumes "keyed d" "closed d S"
  shows "oid (o_id ob) \<in> S \<Longrightarrow> d (oid (o_id ob)) = Some ob \<Longrightarrow> lineage n d ob = Some l \<Longrightarrow> oids l \<subseteq> S"
proof (induction n arbitrary: ob l)
  case (Suc n)
  from Suc.prems obtain l' where l': "lineage_parents (lineage n d) d (o_parents ob) = Some l'"
    "l = ob # l'" by (auto split: bind_splits)
  let ?Q = "{q. oid (o_id q) \<in> S \<and> d (oid (o_id q)) = Some q}"
  have "oids la \<subseteq> S" if "q \<in> ?Q" "lineage n d q = Some la" for q la
    using that Suc.IH [of q la] by blast
  moreover have "q \<in> ?Q" if "VOBJ x \<in> set (o_parents ob)" "retrieve d x = Some q" for x q
    using closed_parent [OF assms Suc.prems(1,2) that] by blast
  ultimately have "oids l' \<subseteq> S" using l'(1) by (rule lineage_parents_closed)
  with l' Suc.prems(1) show ?case by simp
qed simp

lemma fmr_parents_covers:
  assumes "\<And>x q l st. retrieve d x = Some q \<Longrightarrow> go' q = Some l \<Longrightarrow> fmr_ok d name st \<Longrightarrow>
      \<not> found_blocked st \<Longrightarrow> \<exists>st'. go x st = Some st' \<and> covers d name l st st'"
    and none: "\<And>x st. retrieve d x = None \<Longrightarrow> go x st = Some st"
    and "lineage_parents go' d ps = Some l" "fmr_ok d name st" "\<not> found_blocked st"
  shows "\<exists>st'. fmr_parents go (rev ps) st = Some st' \<and> covers d name l st st'"
proof -
  have append: "fmr_parents go (a @ [p]) st =
      Option.bind (fmr_parents go a st) (\<lambda>st'. if found_blocked st' then Some st'
        else Option.bind (as_obj p) (\<lambda>x. go x st'))" if "\<not> found_blocked st" for a p st
    using that
  proof (induction a arbitrary: st)
    case (Cons q a)
    then show ?case by (cases "as_obj q"; cases "go (the (as_obj q)) st") auto
  qed (cases "as_obj p"; auto split: bind_splits)
  show ?thesis using assms(3-5)
  proof (induction ps arbitrary: l)
    case (Cons p ps)
    from Cons.prems(1) obtain x l1 l2 where x: "p = VOBJ x" "l = l1 @ l2"
      "(case retrieve d x of None \<Rightarrow> Some [] | Some q \<Rightarrow> go' q) = Some l1"
      "lineage_parents go' d ps = Some l2"
      by (cases p) (auto split: bind_splits)
    with Cons obtain st1 where st1: "fmr_parents go (rev ps) st = Some st1" "covers d name l2 st st1"
      by auto
    show ?case
    proof (cases "found_blocked st1")
      case True
      with st1 x append [OF Cons.prems(3)] show ?thesis by (auto simp: covers_def)
    next
      case False
      have "\<exists>st'. go x st1 = Some st' \<and> covers d name l1 st1 st'"
      proof (cases "retrieve d x")
        case None
        with none st1 x show ?thesis by (auto simp: covers_def)
      next
        case (Some q)
        with x have "go' q = Some l1" by simp
        moreover have "fmr_ok d name st1" using st1 by (simp add: covers_def)
        ultimately show ?thesis using assms(1) [OF Some] False by blast
      qed
      then obtain st' where "go x st1 = Some st'" "covers d name l1 st1 st'" by blast
      with st1 x False append [OF Cons.prems(3)] show ?thesis by (auto simp: covers_def)
    qed
  qed (auto simp: covers_def)
qed

text \<open>
  Every object can answer for its own methods: the lookup meets no dangling symbol and no
  negative bucket.
\<close>

definition methods_total :: "db \<Rightarrow> string \<Rightarrow> bool" where
  "methods_total d name \<longleftrightarrow> (\<forall>i ob. d i = Some ob \<longrightarrow> find_method ob name \<noteq> None)"

lemma closed_insert:
  assumes "closed d S" "d (oid (o_id q)) = Some q"
    and "\<forall>x p. VOBJ x \<in> set (o_parents q) \<longrightarrow> retrieve d x = Some p \<longrightarrow> oid (o_id p) \<in> S"
  shows "closed d (insert (oid (o_id q)) S)"
  using assms unfolding closed_def by (metis insert_iff option.inject)

lemma no_blocked_insert:
  "no_blocked d name S \<Longrightarrow> d i = Some q \<Longrightarrow>
     (\<And>m. find_method q name = Some (Some m) \<Longrightarrow> \<not> m_blocked m) \<Longrightarrow> no_blocked d name (insert i S)"
  by (simp add: no_blocked_def)

definition fmr_note :: "cmethod option \<Rightarrow> object \<Rightarrow> fmr \<Rightarrow> fmr" where
  "fmr_note m q st = (case m of None \<Rightarrow> st
     | Some m \<Rightarrow> st\<lparr>found := Some (m, q), found_blocked := m_blocked m\<rparr>)"

lemma fmr_visit:
  assumes ok: "fmr_ok d name st1" "\<not> found_blocked st1" and db: "d (oid (o_id q)) = Some q"
    and par: "\<forall>x p. VOBJ x \<in> set (o_parents q) \<longrightarrow> retrieve d x = Some p \<longrightarrow>
        oid (o_id p) \<in> set (searched st1)"
    and m: "find_method q name = Some m"
  shows "fmr_ok d name (fmr_note m q (st1\<lparr>searched := oid (o_id q) # searched st1\<rparr>))"
proof -
  have op: "closed d (set (searched st1))" "no_blocked d name (set (searched st1))"
    using ok by (simp_all add: fmr_ok_def open_inv_def)
  note cl = closed_insert [OF op(1) db par]
  show ?thesis
  proof (cases m)
    case None
    have "no_blocked d name (insert (oid (o_id q)) (set (searched st1)))"
      using op(2) db m None by (intro no_blocked_insert) auto
    with ok cl m None db show ?thesis
      by (auto simp: fmr_ok_def hit_def open_inv_def fmr_note_def)
  next
    case (Some m')
    show ?thesis
    proof (cases "m_blocked m'")
      case True
      with Some m db show ?thesis by (simp add: fmr_ok_def hit_def fmr_note_def)
    next
      case False
      have "no_blocked d name (insert (oid (o_id q)) (set (searched st1)))"
        using op(2) db m Some False by (intro no_blocked_insert) auto
      with cl m Some False db show ?thesis
        by (simp add: fmr_ok_def hit_def open_inv_def fmr_note_def)
    qed
  qed
qed

lemma lineage_parents_in:
  assumes "lineage_parents (lineage n d) d ps = Some l" "VOBJ x \<in> set ps" "retrieve d x = Some p"
  shows "p \<in> set l"
  using assms(1,2)
proof (induction ps arbitrary: l)
  case (Cons y ps)
  from Cons.prems(1) obtain z l1 l2 where z: "y = VOBJ z" "l = l1 @ l2"
    "(case retrieve d z of None \<Rightarrow> Some [] | Some q \<Rightarrow> lineage n d q) = Some l1"
    "lineage_parents (lineage n d) d ps = Some l2"
    by (cases y) (auto split: bind_splits)
  show ?case
  proof (cases "z = x")
    case True
    with z assms(3) have "lineage n d p = Some l1" by simp
    then have "p \<in> set l1" by (cases n) (auto split: bind_splits)
    with z show ?thesis by simp
  next
    case False
    with Cons z show ?thesis by auto
  qed
qed simp

lemma do_fmr_step:
  assumes "retrieve d x = Some q" "oid (o_id q) \<notin> set (searched st)" "\<not> found_blocked st"
    and "fmr_parents (do_fmr n d name) (rev (o_parents q)) st = Some st1"
    and "find_method q name = Some m"
  shows "do_fmr (Suc n) d name x st = Some (if found_blocked st1 then st1
    else fmr_note m q (st1\<lparr>searched := oid (o_id q) # searched st1\<rparr>))"
  using assms by (simp add: fmr_note_def Let_def split: option.split)

lemma fmr_note_searched [simp]: "searched (fmr_note m q st) = searched st"
  by (simp add: fmr_note_def split: option.split)

lemma do_fmr_covers:
  assumes kd: "keyed d" and mt: "methods_total d name"
  shows "retrieve d x = Some q \<Longrightarrow> lineage n d q = Some l \<Longrightarrow> fmr_ok d name st \<Longrightarrow>
    \<not> found_blocked st \<Longrightarrow> \<exists>st'. do_fmr (Suc n) d name x st = Some st' \<and> covers d name l st st'"
proof (induction n arbitrary: x q l st)
  case (Suc n)
  have q: "d (oid (o_id q)) = Some q" "oid (o_id q) = oid x"
    using Suc.prems(1) kd by (auto simp: retrieve_def keyed_def split: if_splits)
  from Suc.prems(2) obtain l' where l': "lineage_parents (lineage n d) d (o_parents q) = Some l'"
    "l = q # l'" by (auto split: bind_splits)
  show ?case
  proof (cases "oid (o_id q) \<in> set (searched st)")
    case True
    have "closed d (set (searched st))" using Suc.prems(3,4) by (simp add: fmr_ok_def open_inv_def)
    from lineage_closed [OF kd this True q(1) Suc.prems(2)]
    have "covers d name l st st" using Suc.prems(3) by (auto simp: covers_def)
    moreover have "do_fmr (Suc (Suc n)) d name x st = Some st" using True Suc.prems(1) by simp
    ultimately show ?thesis by blast
  next
    case False
    have visit: "\<exists>st'. do_fmr (Suc n) d name x st = Some st' \<and> covers d name l st st'"
      if "retrieve d x = Some q" "lineage n d q = Some l" "fmr_ok d name st" "\<not> found_blocked st"
      for x q l st using Suc.IH that by blast
    have skip: "do_fmr (Suc n) d name x st = Some st" if "retrieve d x = None" for x st
      using that by simp
    have "\<exists>st1. fmr_parents (do_fmr (Suc n) d name) (rev (o_parents q)) st = Some st1 \<and>
        covers d name l' st st1"
      by (rule fmr_parents_covers [OF _ _ l'(1) Suc.prems(3,4)]) (rule visit, assumption+, rule skip)
    then obtain st1
      where st1: "fmr_parents (do_fmr (Suc n) d name) (rev (o_parents q)) st = Some st1"
        "covers d name l' st st1" by blast
    obtain m where m: "find_method q name = Some m"
      using mt q(1) by (auto simp: methods_total_def)
    note run = do_fmr_step [OF Suc.prems(1) False Suc.prems(4) st1(1) m]
    show ?thesis
    proof (cases "found_blocked st1")
      case True
      moreover have "covers d name l st st1" using st1(2) True unfolding l'(2) by (auto simp: covers_def)
      ultimately show ?thesis using run by (simp del: do_fmr.simps)
    next
      case nb: False
      then have set1: "set (searched st1) = set (searched st) \<union> oids l'" "fmr_ok d name st1"
        using st1(2) by (simp_all add: covers_def)
      have par: "oid (o_id p) \<in> set (searched st1)"
        if "VOBJ y \<in> set (o_parents q)" "retrieve d y = Some p" for y p
        using lineage_parents_in [OF l'(1) that] set1(1) by blast
      let ?st2 = "st1\<lparr>searched := oid (o_id q) # searched st1\<rparr>"
      have "fmr_ok d name (fmr_note m q ?st2)"
        using fmr_visit [OF set1(2) nb q(1) _ m] par by blast
      moreover have "set (searched ?st2) = set (searched st) \<union> oids l"
        unfolding l'(2) using set1(1) by auto
      moreover have "found st1 = found st \<or> (\<exists>m p. found st1 = Some (m, p) \<and> p \<in> set l')"
        using st1(2) by (simp add: covers_def)
      then have "found (fmr_note m q ?st2) = found st \<or>
          (\<exists>m' p. found (fmr_note m q ?st2) = Some (m', p) \<and> p \<in> set l)"
        unfolding l'(2) by (cases m) (auto simp: fmr_note_def)
      ultimately have "covers d name l st (fmr_note m q ?st2)"
        by (simp add: covers_def)
      with run nb show ?thesis by (simp del: do_fmr.simps)
    qed
  qed
qed simp

lemma lineage_in_db:
  assumes "keyed d"
  shows "d (oid (o_id q)) = Some q \<Longrightarrow> lineage n d q = Some l \<Longrightarrow> p \<in> set l \<Longrightarrow>
    d (oid (o_id p)) = Some p"
proof (induction n arbitrary: q l)
  case (Suc n)
  from Suc.prems obtain l' where l': "lineage_parents (lineage n d) d (o_parents q) = Some l'"
    "l = q # l'" by (auto split: bind_splits)
  have "lineage_parents (lineage n d) d ps = Some l' \<Longrightarrow> p \<in> set l' \<Longrightarrow>
      d (oid (o_id p)) = Some p" for ps
  proof (induction ps arbitrary: l')
    case (Cons y ps)
    from Cons.prems(1) obtain z l1 l2 where z: "l' = l1 @ l2"
      "(case retrieve d z of None \<Rightarrow> Some [] | Some q \<Rightarrow> lineage n d q) = Some l1"
      "lineage_parents (lineage n d) d ps = Some l2"
      by (cases y) (auto split: bind_splits)
    have "d (oid (o_id p)) = Some p" if "p \<in> set l1"
    proof (cases "retrieve d z")
      case (Some u)
      then have "d (oid (o_id u)) = Some u"
        using assms by (auto simp: keyed_def retrieve_def split: if_splits)
      with Suc.IH [of u l1] z(2) Some that show ?thesis by simp
    qed (use z that in simp)
    with Cons.IH [OF z(3)] Cons.prems(2) z(1) show ?case by auto
  qed simp
  with l' Suc.prems show ?case by auto
qed simp

text \<open>
  C21: \<open>find_method_recursive\<close> terminates on a database without parent cycles and finds a method
  exactly when an object of the lineage has one. What it finds is a method of that name of an
  object of the lineage. If any object of the lineage has the method as a blocked one, the
  result is a blocked method: no descendant can override it.
\<close>

theorem find_method_recursive_spec:
  assumes kd: "keyed d" and mt: "methods_total d name"
    and q: "retrieve d x = Some q" and l: "lineage n d q = Some l"
  shows "\<exists>r. find_method_recursive (Suc n) d x name = Some r \<and>
    (r = None \<longleftrightarrow> (\<forall>p\<in>set l. find_method p name = Some None)) \<and>
    (\<forall>m p. r = Some (m, p) \<longrightarrow> p \<in> set l \<and> find_method p name = Some (Some m)) \<and>
    ((\<exists>p m. p \<in> set l \<and> find_method p name = Some (Some m) \<and> m_blocked m) \<longrightarrow>
       (\<exists>m p. r = Some (m, p) \<and> m_blocked m))"
proof -
  let ?st = "\<lparr>found = None, found_blocked = False, searched = []\<rparr>"
  have "fmr_ok d name ?st"
    by (simp add: fmr_ok_def hit_def open_inv_def closed_def no_blocked_def)
  from do_fmr_covers [OF kd mt q l this] obtain st' where
    run: "do_fmr (Suc n) d name x ?st = Some st'" and ok: "covers d name l ?st st'"
    by (auto simp del: do_fmr.simps)
  have q_db: "d (oid (o_id q)) = Some q"
    using q kd by (auto simp: retrieve_def keyed_def split: if_splits)
  have in_db: "d (oid (o_id p)) = Some p" if "p \<in> set l" for p
    by (rule lineage_in_db [OF kd q_db l that])
  have sound: "p \<in> set l \<and> find_method p name = Some (Some m)" if "found st' = Some (m, p)" for m p
    using ok that by (auto simp: covers_def fmr_ok_def hit_def)
  have all: "find_method p name = Some None" if none: "found st' = None" and p: "p \<in> set l" for p
  proof -
    have "\<not> found_blocked st'" using ok none by (auto simp: covers_def fmr_ok_def)
    with ok none have "\<forall>i\<in>oids l. \<forall>ob. d i = Some ob \<longrightarrow> find_method ob name = Some None"
      by (simp add: covers_def fmr_ok_def open_inv_def)
    with in_db [OF p] p show ?thesis by blast
  qed
  have blocked: "\<exists>m p. found st' = Some (m, p) \<and> m_blocked m"
    if p: "p \<in> set l" "find_method p name = Some (Some m)" "m_blocked m" for p m
  proof (cases "found_blocked st'")
    case True
    then obtain m p where "found st' = Some (m, p)"
      using ok by (auto simp: covers_def fmr_ok_def)
    moreover from this True ok have "m_blocked m" by (simp add: covers_def fmr_ok_def hit_def)
    ultimately show ?thesis by blast
  next
    case False
    then have s: "set (searched st') = oids l" "fmr_ok d name st'"
      using ok by (simp_all add: covers_def)
    from s(2) False have "no_blocked d name (set (searched st'))"
      by (simp add: fmr_ok_def open_inv_def)
    then have "no_blocked d name (oids l)" unfolding s(1) .
    then have "\<not> m_blocked m"
      using p(1,2) in_db [OF p(1)] unfolding no_blocked_def by blast
    with p(3) show ?thesis by simp
  qed
  have "found st' = None \<longleftrightarrow> (\<forall>p\<in>set l. find_method p name = Some None)"
    using all by (cases "found st'") (auto dest!: sound intro!: bexI)
  moreover have "find_method_recursive (Suc n) d x name = Some (found st')"
    using run by (simp add: find_method_recursive_def del: do_fmr.simps)
  ultimately show ?thesis using sound blocked by (intro exI [of _ "found st'"]) metis
qed

section \<open>hasparent and check_parents\<close>

lemma parent_search_lineage:
  assumes "\<And>q l. go' q = Some l \<Longrightarrow>
      go q = Some (\<exists>u\<in>set l. \<exists>x. VOBJ x \<in> set (o_parents u) \<and> oid x = pid)"
    and "lineage_parents go' d ps = Some l"
  shows "parent_search go d pid ps =
    Some ((\<exists>x. VOBJ x \<in> set ps \<and> oid x = pid) \<or>
          (\<exists>u\<in>set l. \<exists>x. VOBJ x \<in> set (o_parents u) \<and> oid x = pid))"
  using assms(2)
proof (induction ps arbitrary: l)
  case (Cons p ps)
  from Cons.prems obtain y l1 l2 where y: "p = VOBJ y" "l = l1 @ l2"
    "(case retrieve d y of None \<Rightarrow> Some [] | Some q \<Rightarrow> go' q) = Some l1"
    "lineage_parents go' d ps = Some l2"
    by (cases p) (auto split: bind_splits)
  have "(case retrieve d y of None \<Rightarrow> Some False | Some q \<Rightarrow> go q) =
      Some (\<exists>u\<in>set l1. \<exists>x. VOBJ x \<in> set (o_parents u) \<and> oid x = pid)"
    using y(3) assms(1) by (cases "retrieve d y") auto
  with Cons.IH [OF y(4)] y(1,2) show ?case by auto
qed simp

text \<open>
  On a database without parent cycles \<open>hasparent\<close> terminates and answers whether an object
  of the lineage names the given number among its parents.
\<close>

theorem hasparent_spec:
  "lineage n d ob = Some l \<Longrightarrow>
     hasparent n d ob pid = Some (\<exists>u\<in>set l. \<exists>x. VOBJ x \<in> set (o_parents u) \<and> oid x = oid pid)"
proof (induction n arbitrary: ob l)
  case (Suc n)
  then obtain l' where l': "lineage_parents (lineage n d) d (o_parents ob) = Some l'" "l = ob # l'"
    by (auto split: bind_splits)
  have "hasparent (Suc n) d ob pid = Some ((\<exists>x. VOBJ x \<in> set (o_parents ob) \<and> oid x = oid pid) \<or>
      (\<exists>u\<in>set l'. \<exists>x. VOBJ x \<in> set (o_parents u) \<and> oid x = oid pid))"
    unfolding hasparent.simps by (rule parent_search_lineage [OF Suc.IH l'(1)])
  with l'(2) show ?case by (simp only: set_simps bex_simps)
qed simp

text \<open>
  What \<open>check_parents\<close> accepts: only local objects that exist, none of them the object itself,
  and no new parent is an ancestor of another.
\<close>

lemma any_hasparent_False:
  "any_hasparent n d p qs = Some False \<Longrightarrow> VOBJ x \<in> set qs \<Longrightarrow> hasparent n d p x = Some False"
  by (induction qs) (auto split: bind_splits if_splits)

lemma check_each_none:
  "check_each n d player ob all ps = Some E_NONE \<Longrightarrow> p \<in> set ps \<Longrightarrow>
     \<exists>x q. p = VOBJ x \<and> server x = 0 \<and> retrieve d x = Some q \<and> oid (o_id q) \<noteq> oid (o_id ob) \<and>
       any_hasparent n d q all = Some False"
proof (induction ps)
  case (Cons y ps)
  from Cons.prems(1) obtain x q where "y = VOBJ x" "server x = 0" "retrieve d x = Some q"
    "oid (o_id q) \<noteq> oid (o_id ob)" "any_hasparent n d q all = Some False"
    "check_each n d player ob all ps = Some E_NONE"
    by (cases y) (auto split: bind_splits if_splits option.splits simp: can_clone_def)
  with Cons show ?case by auto
qed simp


end
