(* ===== verification/Servers.thy ===== *)
theory Servers
  imports Values
begin

text \<open>
  The table of remote servers (\<open>servers.c\<close>): lookups by id, name and address, adding a server,
  and the filter for repeated messages. The table is a linked list. \<open>serv_add\<close> never sets
  \<open>next\<close> of the node it appends, so the list has a flag for "its last \<open>next\<close> is null"; a search
  that runs off an unterminated list is \<open>None\<close>.
\<close>

record server =
  sv_id :: int
  sv_name :: string
  sv_hostname :: string
  sv_addr :: int
  sv_port :: int
  sv_last :: i32
  sv_connected :: bool

record servtab =
  sv_entries :: "server list"
  sv_ended :: bool

definition serv_find :: "(server \<Rightarrow> bool) \<Rightarrow> servtab \<Rightarrow> server option option" where
  "serv_find p t =
     (case find p (sv_entries t) of
        Some s \<Rightarrow> Some (Some s)
      | None \<Rightarrow> if sv_ended t then Some None else None)"

definition serv_id2name :: "servtab \<Rightarrow> int \<Rightarrow> string option" where
  "serv_id2name t n =
     map_option (\<lambda>r. case r of Some s \<Rightarrow> sv_name s | None \<Rightarrow> [])
       (serv_find (\<lambda>s. 0 \<le> sv_id s \<and> sv_id s = n) t)"

definition serv_name2id :: "servtab \<Rightarrow> string \<Rightarrow> int option" where
  "serv_name2id t name =
     map_option (\<lambda>r. case r of Some s \<Rightarrow> sv_id s | None \<Rightarrow> -1)
       (serv_find (\<lambda>s. c_strcasecmp (sv_name s) name = 0) t)"

definition serv_id2server :: "servtab \<Rightarrow> int \<Rightarrow> server option option" where
  "serv_id2server t n = serv_find (\<lambda>s. sv_id s = n) t"

definition serv_name2server :: "servtab \<Rightarrow> string \<Rightarrow> server option option" where
  "serv_name2server t name = serv_find (\<lambda>s. c_strcasecmp (sv_name s) name = 0) t"

definition serv_addr2server :: "servtab \<Rightarrow> int \<Rightarrow> int \<Rightarrow> server option option" where
  "serv_addr2server t addr port = serv_find (\<lambda>s. sv_addr s = addr \<and> sv_port s = port) t"

fun next_id :: "int \<Rightarrow> server list \<Rightarrow> int" where
  "next_id n [] = n"
| "next_id n (s # ss) = next_id (if n \<le> sv_id s then sv_id s + 1 else n) ss"

text \<open>
  \<open>serv_add\<close>: \<open>hostof\<close> is the reverse name lookup. A name that fills the 30 bytes of its field
  loses its terminator. The code leaves \<open>connected\<close> unset; its only caller sets it.
\<close>

definition serv_add ::
  "(int \<Rightarrow> string option) \<Rightarrow> servtab \<Rightarrow> int \<Rightarrow> int \<Rightarrow> string \<Rightarrow> (servtab \<times> int option) option" where
  "serv_add hostof t addr port name = do {
     known \<leftarrow> serv_addr2server t addr port;
     if known \<noteq> None then Some (t, None)
     else do {
       i \<leftarrow> serv_name2id t name;
       if 0 \<le> i then Some (t, None)
       else if \<not> sv_ended t then None
       else do {
         let n = next_id 0 (sv_entries t);
         case hostof addr of
           None \<Rightarrow> Some (t, None)
         | Some h \<Rightarrow>
             if 30 \<le> length name \<or> 40 \<le> length h then None
             else Some (\<lparr>sv_entries = sv_entries t @ [\<lparr>sv_id = n, sv_name = name, sv_hostname = h,
                    sv_addr = addr, sv_port = port, sv_last = -1, sv_connected = False\<rparr>], sv_ended = False\<rparr>, Some n) } } }"

definition verify_server ::
  "(int \<Rightarrow> string option) \<Rightarrow> server \<Rightarrow> int \<Rightarrow> int \<Rightarrow> bool" where
  "verify_server hostof s addr port =
     (case hostof addr of
        None \<Rightarrow> False
      | Some h \<Rightarrow> c_strcasecmp h (sv_hostname s) = 0 \<and> port = sv_port s)"

fun set_last :: "int \<Rightarrow> i32 \<Rightarrow> server list \<Rightarrow> server list" where
  "set_last n m [] = []"
| "set_last n m (s # ss) = (if sv_id s = n then s\<lparr>sv_last := m\<rparr> # ss else s # set_last n m ss)"

text \<open>\<open>serv_discardmsg\<close>: the new table, and the number it returns.\<close>

definition serv_discardmsg :: "servtab \<Rightarrow> int \<Rightarrow> i32 \<Rightarrow> (servtab \<times> int) option" where
  "serv_discardmsg t n msgid = do {
     r \<leftarrow> serv_id2server t n;
     Some (case r of
         None \<Rightarrow> (t, -1)
       | Some s \<Rightarrow>
           if sint (sv_last s) < sint msgid
           then (t\<lparr>sv_entries := set_last n msgid (sv_entries t)\<rparr>, 0) else (t, 1)) }"

section \<open>Facts\<close>

lemma find_set_last:
  "find (\<lambda>s. sv_id s = n) ss = Some s \<Longrightarrow>
     find (\<lambda>s. sv_id s = k) (set_last n m ss) =
       (if k = n then Some (s\<lparr>sv_last := m\<rparr>) else find (\<lambda>s. sv_id s = k) ss)"
  by (induction ss) (auto split: if_splits)

lemma next_id_fresh: "n \<le> next_id n ss \<and> (\<forall>s\<in>set ss. sv_id s < next_id n ss)"
proof (induction ss arbitrary: n)
  case (Cons s ss)
  have "(if n \<le> sv_id s then sv_id s + 1 else n) \<le> next_id n (s # ss)"
    using Cons [of "if n \<le> sv_id s then sv_id s + 1 else n"] by simp
  then show ?case
    using Cons [of "if n \<le> sv_id s then sv_id s + 1 else n"] by (auto split: if_splits)
qed simp

text \<open>The run of \<open>serv_discardmsg\<close> over the numbers of the messages one server sends.\<close>

fun accepted :: "servtab \<Rightarrow> int \<Rightarrow> i32 list \<Rightarrow> i32 list option" where
  "accepted t n [] = Some []"
| "accepted t n (m # ms) = do {
     (t', r) \<leftarrow> serv_discardmsg t n m;
     ms' \<leftarrow> accepted t' n ms;
     Some (if r = 0 then m # ms' else ms') }"

lemma accepted_above:
  "find (\<lambda>s. sv_id s = n) (sv_entries t) = Some s \<Longrightarrow>
     \<exists>ms'. accepted t n ms = Some ms' \<and> sorted_wrt (\<lambda>a b. sint a < sint b) ms' \<and>
       (\<forall>m\<in>set ms'. sint (sv_last s) < sint m) \<and>
       (sorted_wrt (\<lambda>a b. sint a < sint b) ms \<longrightarrow> (\<forall>m\<in>set ms. sint (sv_last s) < sint m) \<longrightarrow> ms' = ms)"
proof (induction ms arbitrary: t s)
  case (Cons m ms)
  show ?case
  proof (cases "sint (sv_last s) < sint m")
    case True
    let ?t = "t\<lparr>sv_entries := set_last n m (sv_entries t)\<rparr>"
    have d: "serv_discardmsg t n m = Some (?t, 0)"
      using Cons.prems True by (simp add: serv_discardmsg_def serv_id2server_def serv_find_def)
    have "find (\<lambda>s. sv_id s = n) (sv_entries ?t) = Some (s\<lparr>sv_last := m\<rparr>)"
      using find_set_last [OF Cons.prems, of n m] by simp
    moreover have "\<And>k :: i32. sint m < sint k \<Longrightarrow> sint (sv_last s) < sint k" using True by simp
    ultimately show ?thesis using Cons.IH [of ?t] True d by fastforce
  next
    case False
    then have "serv_discardmsg t n m = Some (t, 1)"
      using Cons.prems by (simp add: serv_discardmsg_def serv_id2server_def serv_find_def)
    with Cons.IH [OF Cons.prems] False show ?thesis by auto
  qed
qed simp

text \<open>
  From a known server \<open>serv_discardmsg\<close> lets messages through in strictly increasing order
  of their numbers, each number at most once, and lets all of them through when they arrive in
  that order: a repeated or late message is dropped.
\<close>

theorem discardmsg_monotone:
  assumes "find (\<lambda>s. sv_id s = n) (sv_entries t) = Some s" "sv_last s = -1"
  shows "\<exists>ms'. accepted t n ms = Some ms' \<and> sorted_wrt (\<lambda>a b. sint a < sint b) ms' \<and>
    distinct ms' \<and> (sorted_wrt (\<lambda>a b. sint a < sint b) ms \<longrightarrow> (\<forall>m\<in>set ms. 0 \<le> sint m) \<longrightarrow> ms' = ms)"
proof -
  have "distinct xs" if "sorted_wrt (\<lambda>a b :: i32. sint a < sint b) xs" for xs
    using that by (induction xs) auto
  moreover have "sint (sv_last s) = -1" using assms(2) by simp
  ultimately show ?thesis using accepted_above [OF assms(1), of ms] by force
qed

text \<open>
  After \<open>serv_add\<close> has added a server the list is not terminated: a lookup of a server that is
  not in the table runs off its end.
\<close>

theorem serv_add_unterminated:
  assumes "serv_add hostof t addr port name = Some (t', Some n)"
    and "\<forall>s\<in>set (sv_entries t'). sv_id s \<noteq> k"
  shows "serv_id2server t' k = None"
proof -
  have "\<not> sv_ended t'"
    using assms(1) by (auto simp: serv_add_def Let_def split: bind_splits if_splits option.splits)
  moreover have "find (\<lambda>s. sv_id s = k) (sv_entries t') = None"
    using assms(2) by (simp add: find_None_iff)
  ultimately show ?thesis by (simp add: serv_id2server_def serv_find_def)
qed

end
