(* ===== verification/Text.thy ===== *)
theory Text
  imports Servers
begin

text \<open>
  The text functions of \<open>string.c\<close> and the printing of values (\<open>var.c\<close>, \<open>message.c\<close>): what is
  appended or left in a string. The theory \<open>StrBuf\<close> has the buffers behind them.
\<close>

section \<open>Numbers and objects\<close>

fun dec :: "nat \<Rightarrow> string" where
  "dec n = (if n < 10 then [char_of (48 + n)] else dec (n div 10) @ [char_of (48 + n mod 10)])"

declare dec.simps [simp del]

definition num_text :: "int \<Rightarrow> string" where
  "num_text n = (if n < 0 then CHR ''-'' # dec (nat (- n)) else dec (nat n))"

definition obj_text :: "servtab \<Rightarrow> objid \<Rightarrow> string option" where
  "obj_text t ob = do {
     s \<leftarrow> serv_id2name t (sint (server ob));
     Some (''#'' @ num_text (sint (oid ob)) @ ''@'' @ s) }"

text \<open>\<open>string_catobj\<close>, with the name of the server when \<open>full\<close>.\<close>

definition catobj :: "servtab \<Rightarrow> string \<Rightarrow> objid \<Rightarrow> bool \<Rightarrow> string option" where
  "catobj t st ob full =
     (if full then map_option (\<lambda>s. st @ s) (obj_text t ob)
      else Some (st @ ''#'' @ num_text (sint (oid ob))))"

section \<open>Escapes\<close>

text \<open>
  \<open>string_backslash\<close>. A carriage return drops the character after it, whatever it is; as the
  last character it steps over the NUL (\<open>None\<close>).
\<close>

fun backslash :: "string \<Rightarrow> string option" where
  "backslash [] = Some []"
| "backslash (c # s) =
     (if c = CHR 0x0D then
        (case s of [] \<Rightarrow> None | _ # s' \<Rightarrow> map_option (\<lambda>r. CHR 0x5C # CHR ''n'' # r) (backslash s'))
      else if c = CHR 0x0A then map_option (\<lambda>r. CHR 0x5C # CHR ''n'' # r) (backslash s)
      else if c = CHR 0x09 then map_option (\<lambda>r. CHR 0x5C # CHR ''t'' # r) (backslash s)
      else if c = CHR 0x5C then map_option (\<lambda>r. CHR 0x5C # CHR 0x5C # r) (backslash s)
      else if c = CHR 0x22 then map_option (\<lambda>r. CHR 0x5C # CHR 0x22 # r) (backslash s)
      else map_option (\<lambda>r. c # r) (backslash s))"

text \<open>
  \<open>string_output\<close>, in place. A backslash at the end writes a backslash and the NUL after it, and
  then one more NUL behind that; the string read back ends at the first.
\<close>

fun string_output :: "string \<Rightarrow> string" where
  "string_output [] = []"
| "string_output (c # s) =
     (if c = CHR 0x5C then
        (case s of
           [] \<Rightarrow> [CHR 0x5C]
         | d # s' \<Rightarrow>
             if d = CHR ''n'' then CHR 0x0D # CHR 0x0A # string_output s'
             else if d = CHR 0x5C then CHR 0x5C # string_output s'
             else CHR 0x5C # d # string_output s')
      else c # string_output s)"

text \<open>\<open>string_fixquote\<close>; a backslash at the end makes the loop read past the NUL.\<close>

fun fixquote :: "bool \<Rightarrow> bool \<Rightarrow> string \<Rightarrow> string option" where
  "fixquote in_quote first_char [] = Some []"
| "fixquote in_quote first_char (c # s) =
     (if \<not> first_char \<and> c_isspace c then fixquote in_quote first_char s
      else if c = CHR 0x22 \<and> in_quote then Some []
      else if c = CHR 0x22 \<and> \<not> first_char then fixquote True first_char s
      else if c = CHR 0x5C then
        (case s of
           [] \<Rightarrow> None
         | d # s' \<Rightarrow>
             if d = CHR 0x22 then
               map_option (\<lambda>r. if in_quote then CHR 0x22 # r else CHR 0x5C # CHR 0x22 # r)
                 (fixquote in_quote first_char s')
             else if d = CHR ''n'' then
               map_option (\<lambda>r. CHR 0x0D # CHR 0x0A # r) (fixquote in_quote first_char s')
             else map_option (\<lambda>r. CHR 0x5C # d # r) (fixquote in_quote first_char s'))
      else map_option (\<lambda>r. c # r) (fixquote in_quote True s))"

definition string_fixquote :: "string \<Rightarrow> string option" where
  "string_fixquote s = fixquote False False s"

fun string_strip_cr :: "string \<Rightarrow> string" where
  "string_strip_cr [] = []"
| "string_strip_cr (c # s) = (if c = CHR 0x0D then string_strip_cr s else c # string_strip_cr s)"

definition string_pad :: "string \<Rightarrow> nat \<Rightarrow> char \<Rightarrow> string" where
  "string_pad s n tok = s @ replicate n tok"

definition string_prepad :: "string \<Rightarrow> nat \<Rightarrow> char \<Rightarrow> string" where
  "string_prepad s n tok = replicate n tok @ s"

text \<open>
  \<open>string_list\<close>: one string per character. It writes the character but not the length, so each
  string has length 0 and one character.
\<close>

definition string_list :: "cstr \<Rightarrow> var list" where
  "string_list s = map (\<lambda>i. VSTR \<lparr>slen = 0, sdata = (if i < length (sdata s) then [sdata s ! i] else [])\<rparr>)
     [0..<slen s]"

section \<open>var.c: values as text\<close>

definition commas :: "string list \<Rightarrow> string" where
  "commas ts = (case ts of [] \<Rightarrow> [] | t # ts \<Rightarrow> t @ concat (map (\<lambda>u. '', '' @ u) ts))"

fun var_tostring :: "servtab \<Rightarrow> bool \<Rightarrow> var \<Rightarrow> string option" where
  "var_tostring t quotes (VNUM n) = Some (num_text (sint n))"
| "var_tostring t quotes (VPC n) = Some (num_text (sint n))"
| "var_tostring t quotes (VOBJ ob) = catobj t [] ob (server ob \<noteq> 0)"
| "var_tostring t quotes (VSTR s) = do {
     b \<leftarrow> backslash (sdata s);
     Some (if quotes then [CHR 0x22] @ b @ [CHR 0x22] else b) }"
| "var_tostring t quotes (VLIST l) = do {
     ts \<leftarrow> mapM (var_tostring t True) l;
     Some (''{'' @ commas ts @ ''}'') }"
| "var_tostring t quotes (VMAP m) = do {
     ts \<leftarrow> mapM (\<lambda>(a, b). do {
       x \<leftarrow> var_tostring t True a;
       y \<leftarrow> var_tostring t True b;
       Some (x @ '' => '' @ y) }) (hentries m);
     Some (''['' @ commas ts @ '']'') }"
| "var_tostring t quotes (VERR e) = Some (err_id2desc e)"

end
