(* ===== verification/Wire.thy ===== *)
theory Wire
  imports Text
begin

text \<open>
  Messages between servers (\<open>message.c\<close>): composing a message as one line of text, and parsing
  it. A parser takes the text that is left; its result is \<open>None\<close> when the C code reads past the
  text or allocates a negative amount, \<open>Some None\<close> when it returns 0, and else the value with the
  text after it. Values nest, so the parser of values has fuel; the length of the text is enough,
  since every level eats a bracket.
\<close>

section \<open>Messages\<close>

record message =
  ms_msgid :: i32
  ms_age :: i32
  ms_ticks :: i32
  ms_player :: objid
  ms_from :: objid
  ms_to :: objid
  ms_text :: string
  ms_args :: "var list"
  ms_on :: objid

section \<open>Composing\<close>

fun compose_var :: "servtab \<Rightarrow> var \<Rightarrow> string option" where
  "compose_var t (VLIST l) = do {
     ts \<leftarrow> mapM (compose_var t) l;
     Some (''{ '' @ num_text (int (length l)) @ '' '' @ concat (map (\<lambda>u. u @ '' '') ts) @ ''}'') }"
| "compose_var t (VMAP m) = do {
     ts \<leftarrow> mapM (\<lambda>(a, b). do {
       x \<leftarrow> compose_var t a;
       y \<leftarrow> compose_var t b;
       Some (x @ '' '' @ y @ '' '') }) (hentries m);
     Some (''[ '' @ num_text (int (hnum m)) @ '' '' @ concat ts @ '']'') }"
| "compose_var t (VSTR s) = do {
     b \<leftarrow> backslash (sdata s);
     Some ([CHR 0x22] @ b @ [CHR 0x22]) }"
| "compose_var t (VNUM n) = Some (num_text (sint n))"
| "compose_var t (VOBJ ob) = obj_text t ob"
| "compose_var t (VERR e) = Some (err_id2name e)"
| "compose_var t (VPC p) = Some []"

definition compose_list :: "servtab \<Rightarrow> var list \<Rightarrow> string option" where
  "compose_list t l = compose_var t (VLIST l)"

text \<open>The text \<open>send_message\<close> builds for a remote object.\<close>

definition compose_message :: "servtab \<Rightarrow> message \<Rightarrow> string option" where
  "compose_message t m = do {
     player \<leftarrow> obj_text t (ms_player m);
     from \<leftarrow> obj_text t (ms_from m);
     to \<leftarrow> obj_text t (ms_to m);
     msg \<leftarrow> backslash (ms_text m);
     args \<leftarrow> compose_list t (ms_args m);
     Some (num_text (sint (ms_msgid m)) @ '' '' @ num_text (sint (ms_age m)) @ '' '' @
       num_text (sint (ms_ticks m)) @ '' '' @ player @ '' '' @ from @ '' '' @ to @ '' '' @
       [CHR 0x22] @ msg @ [CHR 0x22] @ '' '' @ args @ [CHR 0x0A]) }"

section \<open>Parsing\<close>

type_synonym 'a parsed = "('a \<times> string) option option"

definition pbind :: "'a parsed \<Rightarrow> ('a \<Rightarrow> string \<Rightarrow> 'b parsed) \<Rightarrow> 'b parsed" where
  "pbind r f = (case r of None \<Rightarrow> None | Some None \<Rightarrow> Some None | Some (Some (x, s)) \<Rightarrow> f x s)"

lemma pbind_simps [simp]:
  "pbind None f = None" "pbind (Some None) f = Some None" "pbind (Some (Some (x, s))) f = f x s"
  by (simp_all add: pbind_def)

lemma pbind_cong [fundef_cong]:
  "r = r' \<Longrightarrow> (\<And>x s. r' = Some (Some (x, s)) \<Longrightarrow> f x s = g x s) \<Longrightarrow> pbind r f = pbind r' g"
  by (auto simp: pbind_def split: option.split)

abbreviation skip_space :: "string \<Rightarrow> string" where
  "skip_space s \<equiv> dropWhile c_isspace s"

fun parse_digits :: "i32 \<Rightarrow> string \<Rightarrow> i32 \<times> string" where
  "parse_digits n [] = (n, [])"
| "parse_digits n (c # s) =
     (if c_isdigit c then parse_digits (n * 10 + of_nat (chn c) - 48) s else (n, c # s))"

definition parse_num :: "string \<Rightarrow> i32 parsed" where
  "parse_num msg =
     (let s0 = skip_space msg;
          (neg, s1) = (case s0 of c # s \<Rightarrow> if c = CHR ''-'' then (True, s) else (False, s0)
                                | [] \<Rightarrow> (False, s0))
      in if s1 = [] \<or> \<not> c_isdigit (hd s1) then Some None
         else let (n, s2) = parse_digits 0 s1 in Some (Some (if neg then - n else n, s2)))"

definition id_char :: "char \<Rightarrow> bool" where
  "id_char c \<longleftrightarrow> c_isalnum c \<or> c = CHR ''_''"

definition parse_id :: "string \<Rightarrow> string parsed" where
  "parse_id msg =
     (let s = skip_space msg
      in if s \<noteq> [] \<and> \<not> c_isalpha (hd s) \<and> hd s \<noteq> CHR ''_'' then Some None
         else Some (Some (takeWhile id_char s, dropWhile id_char s)))"

definition parse_obj :: "servtab \<Rightarrow> string \<Rightarrow> objid parsed" where
  "parse_obj t msg =
     (case skip_space msg of
        [] \<Rightarrow> Some None
      | c # s \<Rightarrow>
          if c \<noteq> CHR ''#'' then Some None
          else pbind (parse_num s) (\<lambda>n s1.
            let s2 = skip_space s1
            in case s2 of
                 [] \<Rightarrow> Some (Some (\<lparr>server = 0, oid = n\<rparr>, s2))
               | d # s3 \<Rightarrow>
                   if d \<noteq> CHR ''@'' then Some (Some (\<lparr>server = 0, oid = n\<rparr>, s2))
                   else pbind (parse_id s3) (\<lambda>name s4. do {
                     i \<leftarrow> serv_name2id t name;
                     let sv = (word_of_int i :: i16);
                     if sint sv < 0 then Some None
                     else Some (Some (\<lparr>server = sv, oid = n\<rparr>, s4)) })))"

text \<open>
  \<open>parse_string\<close>: a scan counts the characters up to the closing quote, then that many are
  decoded. A backslash as the last character of the text makes the scan step over the NUL.
\<close>

fun scan_string :: "string \<Rightarrow> nat option option" where
  "scan_string [] = Some None"
| "scan_string (c # s) =
     (if c = CHR 0x22 then Some (Some 0)
      else if c = CHR 0x5C then
        (case s of [] \<Rightarrow> None | _ # s' \<Rightarrow> map_option (map_option Suc) (scan_string s'))
      else map_option (map_option Suc) (scan_string s))"

fun decode_string :: "nat \<Rightarrow> string \<Rightarrow> (string \<times> string) option" where
  "decode_string 0 s = (case s of [] \<Rightarrow> None | _ # s' \<Rightarrow> Some ([], s'))"
| "decode_string (Suc n) [] = None"
| "decode_string (Suc n) (c # s) =
     (if c = CHR 0x5C then
        (case s of
           [] \<Rightarrow> None
         | d # s' \<Rightarrow>
             map_option (\<lambda>(r, rest).
               ((if d = CHR ''n'' then [CHR 0x0D, CHR 0x0A]
                 else if d = CHR ''t'' then [CHR 0x09] else [d]) @ r, rest)) (decode_string n s'))
      else map_option (\<lambda>(r, rest). (c # r, rest)) (decode_string n s))"

definition parse_string :: "string \<Rightarrow> string parsed" where
  "parse_string msg =
     (case skip_space msg of
        [] \<Rightarrow> Some None
      | c # s \<Rightarrow>
          if c \<noteq> CHR 0x22 then Some None
          else (case scan_string s of
                  None \<Rightarrow> None
                | Some None \<Rightarrow> Some None
                | Some (Some n) \<Rightarrow> map_option Some (decode_string n s)))"

definition parse_err :: "string \<Rightarrow> i32 parsed" where
  "parse_err msg =
     (case skip_space msg of
        [] \<Rightarrow> Some None
      | c # s \<Rightarrow>
          if c \<noteq> CHR ''E'' then Some None
          else Some (Some (err_name2id (takeWhile (\<lambda>d. d \<noteq> CHR '' '') (c # s)),
                           dropWhile (\<lambda>d. d \<noteq> CHR '' '') (c # s))))"

text \<open>The loops of \<open>parse_list\<close> and \<open>parse_map\<close>, which call \<open>parse_var\<close>.\<close>

fun parse_n :: "(string \<Rightarrow> var parsed) \<Rightarrow> nat \<Rightarrow> string \<Rightarrow> var list parsed" where
  "parse_n pv 0 s = Some (Some ([], s))"
| "parse_n pv (Suc n) s =
     pbind (pv s) (\<lambda>v s1. pbind (parse_n pv n s1) (\<lambda>vs s2. Some (Some (v # vs, s2))))"

fun parse_pairs ::
  "(vmap \<Rightarrow> vmap \<Rightarrow> bool) \<Rightarrow> (string \<Rightarrow> var parsed) \<Rightarrow> nat \<Rightarrow> vmap \<Rightarrow> string \<Rightarrow> vmap parsed" where
  "parse_pairs same pv 0 m s = Some (Some (m, s))"
| "parse_pairs same pv (Suc n) m s =
     pbind (pv s) (\<lambda>a s1. pbind (pv s1) (\<lambda>b s2. do {
       m' \<leftarrow> map_add True same m a b;
       parse_pairs same pv n m' s2 }))"

definition close_with :: "char \<Rightarrow> 'a \<Rightarrow> string \<Rightarrow> 'a parsed" where
  "close_with c x s =
     (case skip_space s of
        [] \<Rightarrow> Some None
      | d # s' \<Rightarrow> if d = c then Some (Some (x, s')) else Some None)"

definition parse_list_with :: "(string \<Rightarrow> var parsed) \<Rightarrow> string \<Rightarrow> var list parsed" where
  "parse_list_with pv msg =
     (case skip_space msg of
        [] \<Rightarrow> Some None
      | c # s \<Rightarrow>
          if c \<noteq> CHR ''{'' then Some None
          else pbind (parse_num s) (\<lambda>n s1.
            if sint n < 0 then None
            else pbind (parse_n pv (nat (sint n)) s1) (close_with (CHR ''}''))))"

definition parse_map_with ::
  "(vmap \<Rightarrow> vmap \<Rightarrow> bool) \<Rightarrow> (string \<Rightarrow> var parsed) \<Rightarrow> string \<Rightarrow> vmap parsed" where
  "parse_map_with same pv msg =
     (case skip_space msg of
        [] \<Rightarrow> Some None
      | c # s \<Rightarrow>
          if c \<noteq> CHR ''['' then Some None
          else pbind (parse_num s) (\<lambda>n s1.
            pbind (parse_pairs same pv (nat (sint n)) (map_new (sint n)) s1)
              (close_with (CHR '']''))))"

fun parse_var ::
  "(vmap \<Rightarrow> vmap \<Rightarrow> bool) \<Rightarrow> servtab \<Rightarrow> nat \<Rightarrow> string \<Rightarrow> var parsed" where
  "parse_var same t 0 msg = None"
| "parse_var same t (Suc f) msg =
     (case skip_space msg of
        [] \<Rightarrow> Some None
      | c # s \<Rightarrow>
          if c = CHR 0x22 then pbind (parse_string (c # s)) (\<lambda>x r. Some (Some (VSTR (mk_str x), r)))
          else if c_isdigit c \<or> c = CHR ''-'' then
            pbind (parse_num (c # s)) (\<lambda>x r. Some (Some (VNUM x, r)))
          else if c = CHR ''#'' then pbind (parse_obj t (c # s)) (\<lambda>x r. Some (Some (VOBJ x, r)))
          else if c = CHR ''{'' then
            pbind (parse_list_with (parse_var same t f) (c # s)) (\<lambda>x r. Some (Some (VLIST x, r)))
          else if c = CHR ''['' then
            pbind (parse_map_with same (parse_var same t f) (c # s)) (\<lambda>x r. Some (Some (VMAP x, r)))
          else if c = CHR ''E'' then pbind (parse_err (c # s)) (\<lambda>x r. Some (Some (VERR x, r)))
          else Some None)"

definition parse_list ::
  "(vmap \<Rightarrow> vmap \<Rightarrow> bool) \<Rightarrow> servtab \<Rightarrow> string \<Rightarrow> var list parsed" where
  "parse_list same t s = parse_list_with (parse_var same t (Suc (length s))) s"

definition parse_message ::
  "(vmap \<Rightarrow> vmap \<Rightarrow> bool) \<Rightarrow> servtab \<Rightarrow> string \<Rightarrow> message parsed" where
  "parse_message same t msg =
     pbind (parse_num msg) (\<lambda>msgid s1. pbind (parse_num s1) (\<lambda>age s2.
     pbind (parse_num s2) (\<lambda>ticks s3. pbind (parse_obj t s3) (\<lambda>player s4.
     pbind (parse_obj t s4) (\<lambda>from s5. pbind (parse_obj t s5) (\<lambda>to s6.
     pbind (parse_string s6) (\<lambda>text s7. pbind (parse_list same t s7) (\<lambda>args s8.
       Some (Some (\<lparr>ms_msgid = msgid, ms_age = age, ms_ticks = ticks, ms_player = player,
         ms_from = from, ms_to = to, ms_text = text, ms_args = args, ms_on = to\<rparr>, s8))))))))))"

section \<open>Round trips: numbers\<close>

lemma chn_digit: "n < 10 \<Longrightarrow> chn (char_of (48 + n)) = 48 + n"
  by simp

lemma parse_digits_dec:
  "parse_digits a (dec n @ s) = parse_digits (a * 10 ^ length (dec n) + of_nat n) s"
proof (induction n arbitrary: a s rule: dec.induct)
  case (1 n)
  show ?case
  proof (cases "n < 10")
    case True
    then show ?thesis by (simp add: dec.simps [of n] c_isdigit_def)
  next
    case False
    have "n mod 10 < 10" by simp
    then have d: "c_isdigit (char_of (48 + n mod 10))" "chn (char_of (48 + n mod 10)) = 48 + n mod 10"
      by (simp_all add: c_isdigit_def)
    have split: "of_nat n = (of_nat (n div 10) * 10 + of_nat (n mod 10) :: i32)"
      by (metis div_mult_mod_eq of_nat_add of_nat_mult of_nat_numeral)
    have "parse_digits a (dec n @ s) =
        parse_digits a (dec (n div 10) @ char_of (48 + n mod 10) # s)"
      using False by (simp add: dec.simps [of n])
    also have "\<dots> = parse_digits (a * 10 ^ length (dec (n div 10)) + of_nat (n div 10))
        (char_of (48 + n mod 10) # s)"
      using 1 False by blast
    also have "\<dots> = parse_digits ((a * 10 ^ length (dec (n div 10)) + of_nat (n div 10)) * 10 +
        of_nat (n mod 10)) s"
      using d by (simp add: algebra_simps)
    also have "\<dots> = parse_digits (a * 10 ^ length (dec n) + of_nat n) s"
      using False by (simp add: dec.simps [of n] split algebra_simps)
    finally show ?thesis .
  qed
qed

lemma dec_start: "\<exists>c s. dec n = c # s \<and> c_isdigit c"
proof (induction n rule: dec.induct)
  case (1 n)
  show ?case
  proof (cases "n < 10")
    case True
    then show ?thesis by (simp add: dec.simps [of n] c_isdigit_def)
  next
    case False
    with 1 obtain c s where "dec (n div 10) = c # s" "c_isdigit c" by blast
    with False show ?thesis by (simp add: dec.simps [of n])
  qed
qed

definition no_digit :: "string \<Rightarrow> bool" where
  "no_digit s \<longleftrightarrow> s = [] \<or> \<not> c_isdigit (hd s)"

lemma parse_digits_stop: "no_digit s \<Longrightarrow> parse_digits n s = (n, s)"
  by (cases s) (auto simp: no_digit_def)

lemma isdigit_props: "c_isdigit c \<Longrightarrow> \<not> c_isspace c \<and> c \<noteq> CHR ''-''"
  by (auto simp: c_isdigit_def c_isspace_def)

lemma of_nat_abs_sint:
  "0 \<le> sint n \<Longrightarrow> of_nat (nat \<bar>sint n\<bar>) = (n :: i32)"
  "sint n < 0 \<Longrightarrow> - of_nat (nat \<bar>sint n\<bar>) = (n :: i32)"
  by (simp_all add: of_nat_nat)

lemma parse_num_text:
  assumes "no_digit s"
  shows "parse_num (num_text (sint n) @ s) = Some (Some (n, s))"
    and "parse_num (CHR '' '' # num_text (sint n) @ s) = Some (Some (n, s))"
proof -
  obtain c r where d: "dec (nat \<bar>sint n\<bar>) = c # r" "c_isdigit c" using dec_start by blast
  note c = isdigit_props [OF d(2)]
  have p: "parse_digits 0 (c # r @ s) = (of_nat (nat \<bar>sint n\<bar>), s)"
    using parse_digits_dec [of 0 "nat \<bar>sint n\<bar>" s] parse_digits_stop [OF assms] d(1) by simp
  show 1: "parse_num (num_text (sint n) @ s) = Some (Some (n, s))"
  proof (cases "sint n < 0")
    case True
    then have "nat \<bar>sint n\<bar> = nat (- sint n)" by simp
    with d have "num_text (sint n) @ s = CHR ''-'' # c # r @ s" using True by (simp add: num_text_def)
    with p d(2) show ?thesis using of_nat_abs_sint(2) [OF True]
      by (simp add: parse_num_def c_isspace_def del: of_nat_nat)
  next
    case False
    then have "nat \<bar>sint n\<bar> = nat (sint n)" by simp
    with d have "num_text (sint n) @ s = c # r @ s" using False by (simp add: num_text_def)
    with p d(2) c show ?thesis using of_nat_abs_sint(1) [of n] False
      by (simp add: parse_num_def del: of_nat_nat)
  qed
  have "parse_num (CHR '' '' # x) = parse_num x" for x
    by (simp add: parse_num_def c_isspace_def)
  with 1 show "parse_num (CHR '' '' # num_text (sint n) @ s) = Some (Some (n, s))" by simp
qed

section \<open>Round trips: strings, objects, errors\<close>

text \<open>Text in which carriage returns and newlines come in pairs survives the trip.\<close>

fun crlf :: "string \<Rightarrow> bool" where
  "crlf [] \<longleftrightarrow> True"
| "crlf (c # s) \<longleftrightarrow>
     (if c = CHR 0x0D then (case s of [] \<Rightarrow> False | d # s' \<Rightarrow> d = CHR 0x0A \<and> crlf s')
      else c \<noteq> CHR 0x0A \<and> crlf s)"

lemma string_wire:
  "crlf x \<Longrightarrow> \<exists>b n. backslash x = Some b \<and> scan_string (b @ CHR 0x22 # r) = Some (Some n) \<and>
     decode_string n (b @ CHR 0x22 # r) = Some (x, r)"
proof (induction x rule: crlf.induct)
  case (2 c s)
  show ?case
  proof (cases "c = CHR 0x0D")
    case True
    with 2 obtain s' where s': "s = CHR 0x0A # s'" "crlf s'" by (cases s) auto
    with 2(1) [OF True s'(1)] True show ?thesis by auto
  next
    case False
    with 2 obtain b n where "backslash s = Some b" "scan_string (b @ CHR 0x22 # r) = Some (Some n)"
      "decode_string n (b @ CHR 0x22 # r) = Some (s, r)" by auto
    with False 2(3) show ?thesis by (auto intro!: exI [of _ "Suc n"])
  qed
qed (auto intro!: exI [of _ 0])

lemma parse_string_wire:
  assumes "crlf x"
  obtains b where "backslash x = Some b"
    "\<forall>r. parse_string (CHR 0x22 # b @ CHR 0x22 # r) = Some (Some (x, r))"
    "\<forall>r. parse_string (CHR '' '' # CHR 0x22 # b @ CHR 0x22 # r) = Some (Some (x, r))"
proof -
  obtain b where b: "backslash x = Some b" using string_wire [OF assms] by blast
  have 1: "parse_string (CHR 0x22 # b @ CHR 0x22 # r) = Some (Some (x, r))" for r
    using string_wire [OF assms, of r] b by (auto simp: parse_string_def c_isspace_def)
  moreover have "parse_string (CHR '' '' # u) = parse_string u" for u
    by (simp add: parse_string_def c_isspace_def)
  ultimately show ?thesis using b by (intro that [of b]) auto
qed

definition wire_server :: "servtab \<Rightarrow> i16 \<Rightarrow> bool" where
  "wire_server t sv \<longleftrightarrow> 0 \<le> sint sv \<and>
     (case serv_id2name t (sint sv) of
        None \<Rightarrow> False
      | Some name \<Rightarrow> name \<noteq> [] \<and> (c_isalpha (hd name) \<or> hd name = CHR ''_'') \<and>
          list_all id_char name \<and> serv_name2id t name = Some (sint sv))"

lemma id_char_props: "id_char c \<Longrightarrow> \<not> c_isspace c"
  by (auto simp: id_char_def ctype_defs)

lemma takeWhile_until: "list_all p xs \<Longrightarrow> \<not> p y \<Longrightarrow> takeWhile p (xs @ y # ys) = xs"
  by (induction xs) auto

lemma dropWhile_until: "list_all p xs \<Longrightarrow> \<not> p y \<Longrightarrow> dropWhile p (xs @ y # ys) = y # ys"
  by (induction xs) auto

lemma parse_id_wire:
  assumes "name \<noteq> []" "c_isalpha (hd name) \<or> hd name = CHR ''_''" "list_all id_char name"
  shows "parse_id (name @ CHR '' '' # s) = Some (Some (name, CHR '' '' # s))"
proof -
  have sp: "\<not> id_char (CHR '' '')" by (simp add: id_char_def ctype_defs)
  obtain c r where name: "name = c # r" using assms(1) by (cases name) auto
  then have "\<not> c_isspace c" using assms(3) id_char_props by simp
  then have "skip_space (name @ CHR '' '' # s) = name @ CHR '' '' # s" using name by simp
  then show ?thesis
    using assms name takeWhile_until [OF assms(3) sp] dropWhile_until [OF assms(3) sp]
    by (auto simp: parse_id_def Let_def)
qed

lemma parse_obj_wire:
  assumes "wire_server t (server ob)"
  obtains c where "obj_text t ob = Some c" "c \<noteq> []" "hd c = CHR ''#''"
    "\<forall>s. parse_obj t (c @ CHR '' '' # s) = Some (Some (ob, CHR '' '' # s))"
    "\<forall>s. parse_obj t (CHR '' '' # c @ CHR '' '' # s) = Some (Some (ob, CHR '' '' # s))"
proof -
  obtain name where name: "serv_id2name t (sint (server ob)) = Some name" "name \<noteq> []"
    "c_isalpha (hd name) \<or> hd name = CHR ''_''" "list_all id_char name"
    "serv_name2id t name = Some (sint (server ob))" "0 \<le> sint (server ob)"
    using assms by (auto simp: wire_server_def split: option.splits)
  let ?c = "''#'' @ num_text (sint (oid ob)) @ ''@'' @ name"
  have at: "no_digit (CHR ''@'' # x)" for x by (simp add: no_digit_def c_isdigit_def)
  have 1: "parse_obj t (?c @ CHR '' '' # s) = Some (Some (ob, CHR '' '' # s))" for s
    using parse_num_text(1) [OF at, of "oid ob" "name @ CHR '' '' # s"]
      parse_id_wire [OF name(2-4), of s] name(5,6)
    by (simp add: parse_obj_def c_isspace_def Let_def)
  have "parse_obj t (CHR '' '' # u) = parse_obj t u" for u
    by (simp add: parse_obj_def c_isspace_def)
  with 1 name(1) show ?thesis by (intro that [of ?c]) (simp_all add: obj_text_def)
qed

definition capital :: "string \<Rightarrow> bool" where
  "capital s \<longleftrightarrow> list_all (\<lambda>c. c_isupper c \<or> c = CHR ''_'') s"

lemma tolower_capital:
  assumes c: "c_isupper c \<or> c = CHR ''_''" and d: "c_isupper d \<or> d = CHR ''_''"
    and eq: "c_tolower c = c_tolower d"
  shows "c = d"
proof -
  have u: "chn (CHR ''_'') = 95" by simp
  have cn: "65 \<le> chn c \<and> chn c \<le> 90 \<or> chn c = 95" using c u unfolding c_isupper_def by metis
  have dn: "65 \<le> chn d \<and> chn d \<le> 90 \<or> chn d = 95" using d u unfolding c_isupper_def by metis
  have e: "(if c_isupper c then chn c + 32 else chn c) = (if c_isupper d then chn d + 32 else chn d)"
    using arg_cong [OF eq, of chn] by (simp only: chn_tolower)
  have "chn c = chn d"
    using cn dn e unfolding c_isupper_def by (auto split: if_splits simp del: chn_less of_char_eq_iff)
  then show ?thesis by (simp only: of_char_eq_iff)
qed

lemma strcasecmp_capital:
  "capital s \<Longrightarrow> capital t \<Longrightarrow> c_strcasecmp s t = 0 \<longleftrightarrow> s = t"
proof (induction c_tolower s t rule: strcmp_by.induct)
  case (2 y ys)
  then have "y \<noteq> CHR 0x00" by (auto simp: capital_def c_isupper_def)
  then show ?case using chn_tolower [of y] by (simp split: if_splits)
next
  case (3 x xs)
  then have "x \<noteq> CHR 0x00" by (auto simp: capital_def c_isupper_def)
  then show ?case using chn_tolower [of x] by (simp split: if_splits)
next
  case (4 x xs y ys)
  have "int (chn (c_tolower x)) \<noteq> int (chn (c_tolower y))" if "c_tolower x \<noteq> c_tolower y"
    using that by simp
  moreover have "c_tolower x = c_tolower y \<Longrightarrow> x = y"
    using 4 tolower_capital [of x y] by (simp add: capital_def)
  ultimately show ?case using 4 by (auto simp: capital_def)
qed simp

lemma err_find_capital:
  "capital name \<Longrightarrow> list_all (\<lambda>(x, n, d). capital n) es \<Longrightarrow>
     err_find_name name es = (case find (\<lambda>(x, n, d). n = name) es of
       None \<Rightarrow> -1 | Some (x, n, d) \<Rightarrow> err_code x)"
  by (induction es) (auto simp: strcasecmp_capital)

lemma errors_capital: "list_all (\<lambda>(x, n, d). capital n) errors"
  by (simp add: errors_def capital_def c_isupper_def)

lemma err_lookup_find:
  "err_lookup (err_code e) es = map_option snd (find (\<lambda>(x, nd). x = e) es)"
proof (induction es)
  case (Cons a es)
  have "err_code x = (err_code e :: i32) \<longleftrightarrow> x = e" for x
  proof
    assume "err_code x = (err_code e :: i32)"
    then have "unat (err_code x :: i32) = unat (err_code e :: i32)" by simp
    moreover have "unat (err_code y :: i32) = err_num y" for y
      using err_num_less [of y] by (simp add: NERRS_def unat_of_nat)
    ultimately show "x = e" by simp
  qed simp
  with Cons show ?case by (cases a) auto
qed simp

lemma errors_names: "distinct (map (\<lambda>(x, n, d). n) errors)"
  by (simp add: errors_def)

lemma errors_start: "list_all (\<lambda>(x, n, d). \<exists>r. n = CHR ''E'' # r \<and> list_all (\<lambda>d. d \<noteq> CHR '' '') r) errors"
  by (simp add: errors_def)

lemma errors_all: "e \<in> (\<lambda>(x, n, d). x) ` set errors"
  by (cases e) (simp_all add: errors_def)

lemma find_name:
  "distinct (map (\<lambda>(x, n, d). n) es) \<Longrightarrow> (e, n, d) \<in> set es \<Longrightarrow>
     find (\<lambda>(x, n', d). n' = n) es = Some (e, n, d)"
  by (induction es) (force split: prod.splits)+

lemma err_wire:
  "err_name2id (err_id2name (err_code e)) = err_code e"
  "\<exists>r. err_id2name (err_code e) = CHR ''E'' # r \<and> list_all (\<lambda>d. d \<noteq> CHR '' '') r"
proof -
  have "find (\<lambda>(x, nd). x = e) errors \<noteq> None"
    using errors_all [of e] by (auto simp: find_None_iff)
  then obtain p where p: "find (\<lambda>(x, nd). x = e) errors = Some p" by auto
  obtain x n d where xnd: "p = (x, n, d)" by (cases p)
  have "x = e" using p xnd by (auto simp: find_Some_iff)
  with p xnd have f: "find (\<lambda>(x, nd). x = e) errors = Some (e, n, d)" by simp
  then have mem: "(e, n, d) \<in> set errors" by (metis find_Some_iff nth_mem)
  have name: "err_id2name (err_code e) = n"
    using f by (simp add: err_id2name_def err_lookup_find)
  have "capital n" using errors_capital mem by (auto simp: list_all_iff)
  then show "err_name2id (err_id2name (err_code e)) = err_code e"
    using find_name [OF errors_names mem]
    by (simp add: name err_name2id_def err_find_capital errors_capital)
  show "\<exists>r. err_id2name (err_code e) = CHR ''E'' # r \<and> list_all (\<lambda>d. d \<noteq> CHR '' '') r"
    using errors_start mem by (auto simp: name list_all_iff)
qed

lemma parse_err_wire:
  "parse_err (err_id2name (err_code e) @ CHR '' '' # s) = Some (Some (err_code e, CHR '' '' # s))"
proof -
  let ?n = "err_id2name (err_code e)"
  obtain r where r: "?n = CHR ''E'' # r" "list_all (\<lambda>d. d \<noteq> CHR '' '') r"
    using err_wire(2) by blast
  then have n: "list_all (\<lambda>d. d \<noteq> CHR '' '') ?n" by simp
  have "skip_space (?n @ CHR '' '' # s) = CHR ''E'' # r @ CHR '' '' # s"
    using r by (simp add: c_isspace_def)
  then show ?thesis
    using takeWhile_until [OF n, of "CHR '' ''" s] dropWhile_until [OF n, of "CHR '' ''" s] err_wire(1) [of e] r
    by (simp add: parse_err_def)
qed

section \<open>Round trips: values and messages\<close>

text \<open>
  The values that survive the trip: numbers, paired line ends, objects of servers the table can
  name and find again, errors of the table, and lists of these. Mappings are left out: the
  receiver rebuilds them in a table of its own size.
\<close>

fun wire_ok :: "servtab \<Rightarrow> var \<Rightarrow> bool" where
  "wire_ok t (VNUM n) \<longleftrightarrow> True"
| "wire_ok t (VSTR s) \<longleftrightarrow> slen s = length (sdata s) \<and> crlf (sdata s)"
| "wire_ok t (VOBJ ob) \<longleftrightarrow> wire_server t (server ob)"
| "wire_ok t (VERR e) \<longleftrightarrow> unat e < NERRS"
| "wire_ok t (VLIST l) \<longleftrightarrow> int (length l) < 2 ^ 31 \<and> (\<forall>v\<in>set l. wire_ok t v)"
| "wire_ok t _ \<longleftrightarrow> False"

lemma err_code_unat: "unat e < NERRS \<Longrightarrow> \<exists>x. (e :: i32) = err_code x"
proof -
  assume "unat e < NERRS"
  then have lt: "unat e < length all_errs" by (simp add: NERRS_def all_errs_def)
  have dist: "distinct all_errs" by (simp add: all_errs_def)
  have idx: "distinct xs \<Longrightarrow> i < length xs \<Longrightarrow> index_of (xs ! i) xs = i" for xs :: "err list" and i
    by (induction xs arbitrary: i) (auto simp: nth_Cons split: nat.splits)
  have "err_num (all_errs ! unat e) = unat e" using idx [OF dist lt] by (simp add: err_num_def)
  then show ?thesis by (intro exI [of _ "all_errs ! unat e"]) simp
qed

text \<open>What a composed value looks like to \<open>parse_var\<close>, with a space behind it.\<close>

definition parses_back ::
  "(vmap \<Rightarrow> vmap \<Rightarrow> bool) \<Rightarrow> servtab \<Rightarrow> var \<Rightarrow> string \<Rightarrow> bool" where
  "parses_back same t v c \<longleftrightarrow> (\<forall>f s. length c \<le> f \<longrightarrow>
     parse_var same t f (c @ CHR '' '' # s) = Some (Some (v, CHR '' '' # s)) \<and>
     parse_var same t f (CHR '' '' # c @ CHR '' '' # s) = Some (Some (v, CHR '' '' # s)))"

lemma parses_backI:
  assumes "c \<noteq> []"
    "\<And>f s. parse_var same t (Suc f) (c @ CHR '' '' # s) = Some (Some (v, CHR '' '' # s))"
  shows "parses_back same t v c"
proof -
  have "parse_var same t (Suc f) (CHR '' '' # u) = parse_var same t (Suc f) u" for f u
    by (simp add: c_isspace_def)
  with assms show ?thesis
    unfolding parses_back_def by (metis Suc_le_D length_0_conv not_less_eq_eq le0 old.nat.exhaust)
qed

lemma num_text_start: "\<exists>c s. num_text n = c # s \<and> (c_isdigit c \<or> c = CHR ''-'') \<and> \<not> c_isspace c"
  using dec_start [of "nat (- n)"] dec_start [of "nat n"] isdigit_props
  by (auto simp: num_text_def c_isspace_def)

lemma num_back: "parses_back same t (VNUM n) (num_text (sint n))"
proof (rule parses_backI)
  obtain c s where c: "num_text (sint n) = c # s" "c_isdigit c \<or> c = CHR ''-''" "\<not> c_isspace c"
    using num_text_start by blast
  then show "num_text (sint n) \<noteq> []" by simp
  fix f u
  have "no_digit (CHR '' '' # u)" by (simp add: no_digit_def c_isdigit_def)
  from parse_num_text(1) [OF this, of n] c
  have "parse_num (c # s @ CHR '' '' # u) = Some (Some (n, CHR '' '' # u))" by simp
  moreover have "c \<noteq> CHR 0x22" using c(2) by (auto simp: c_isdigit_def)
  ultimately show "parse_var same t (Suc f) (num_text (sint n) @ CHR '' '' # u) =
      Some (Some (VNUM n, CHR '' '' # u))"
    using c by simp
qed

lemma parse_n_back:
  assumes "\<forall>i<length l. length (ts ! i) \<le> f \<and> parses_back same t (l ! i) (ts ! i)"
    "length ts = length l"
  shows "parse_n (parse_var same t f) (length l)
      (CHR '' '' # concat (map (\<lambda>u. u @ '' '') ts) @ r) = Some (Some (l, CHR '' '' # r))"
  using assms
proof (induction l arbitrary: ts)
  case (Cons v l)
  then obtain u us where ts: "ts = u # us" "length us = length l" by (cases ts) auto
  with Cons.prems have u: "length u \<le> f" "parses_back same t v u" by force+
  have "\<forall>i<length l. length (us ! i) \<le> f \<and> parses_back same t (l ! i) (us ! i)"
    using Cons.prems(1) ts by force
  from Cons.IH [OF this ts(2)] have
    "parse_n (parse_var same t f) (length l) (CHR '' '' # concat (map (\<lambda>u. u @ '' '') us) @ r) =
      Some (Some (l, CHR '' '' # r))" .
  moreover have "parse_var same t f (CHR '' '' # u @ CHR '' '' # concat (map (\<lambda>u. u @ '' '') us) @ r) =
      Some (Some (v, CHR '' '' # concat (map (\<lambda>u. u @ '' '') us) @ r))"
    using u unfolding parses_back_def by blast
  ultimately show ?case using ts(1) by simp
qed simp

lemma concat_bucket_length:
  "i < length ts \<Longrightarrow> length (ts ! i) \<le> length (concat (map (\<lambda>u. u @ '' '') ts))"
  by (induction ts arbitrary: i) (auto simp: nth_Cons split: nat.splits intro: le_SucI trans_le_add2)

lemma list_with_back:
  assumes len: "int (length l) < 2 ^ 31" and tl: "length ts = length l"
    and bk: "\<forall>i<length l. parses_back same t (l ! i) (ts ! i)"
    and g: "length (concat (map (\<lambda>u. u @ '' '') ts)) \<le> g"
  shows "parse_list_with (parse_var same t g)
    (''{ '' @ num_text (int (length l)) @ '' '' @ concat (map (\<lambda>u. u @ '' '') ts) @ ''}'' @ s) =
      Some (Some (l, s))"
proof -
  let ?n = "of_nat (length l) :: i32"
  have n: "sint ?n = int (length l)"
    using len by (simp add: signed_of_nat signed_take_bit_int_eq_self_iff)
  have "length (ts ! i) \<le> g" if "i < length l" for i
    using concat_bucket_length [of i ts] that tl g by simp
  with bk have bk': "\<forall>i<length l. length (ts ! i) \<le> g \<and> parses_back same t (l ! i) (ts ! i)"
    by blast
  let ?rest = "concat (map (\<lambda>u. u @ '' '') ts) @ CHR ''}'' # s"
  have "no_digit (CHR '' '' # ?rest)" by (simp add: no_digit_def c_isdigit_def)
  from parse_num_text(2) [OF this, of ?n]
  have "parse_num (CHR '' '' # num_text (int (length l)) @ CHR '' '' # ?rest) =
      Some (Some (?n, CHR '' '' # ?rest))" using n by simp
  moreover have "parse_n (parse_var same t g) (length l) (CHR '' '' # ?rest) =
      Some (Some (l, CHR '' '' # CHR ''}'' # s))"
    using parse_n_back [OF bk' tl] by simp
  ultimately show ?thesis
    using n by (simp add: parse_list_with_def close_with_def c_isspace_def)
qed

lemma list_back:
  assumes len: "int (length l) < 2 ^ 31" and ts: "mapM (compose_var t) l = Some ts"
    and bk: "\<forall>i<length l. parses_back same t (l ! i) (ts ! i)"
  shows "parses_back same t (VLIST l)
    (''{ '' @ num_text (int (length l)) @ '' '' @ concat (map (\<lambda>u. u @ '' '') ts) @ ''}'')"
    (is "parses_back same t _ ?c")
  unfolding parses_back_def
proof (intro allI impI)
  fix f s assume f: "length ?c \<le> f"
  then obtain g where g: "f = Suc g" by (cases f) auto
  with f have "length (concat (map (\<lambda>u. u @ '' '') ts)) \<le> g" by simp
  note w = list_with_back [OF len mapM_length [OF ts] bk this, of "CHR '' '' # s"]
  show "parse_var same t f (?c @ CHR '' '' # s) = Some (Some (VLIST l, CHR '' '' # s)) \<and>
      parse_var same t f (CHR '' '' # ?c @ CHR '' '' # s) = Some (Some (VLIST l, CHR '' '' # s))"
    using g w by (simp add: c_isspace_def c_isdigit_def)
qed

lemma wire_list:
  assumes "\<And>v. v \<in> set l \<Longrightarrow> \<exists>c. compose_var t v = Some c \<and> parses_back same t v c"
  shows "\<exists>ts. mapM (compose_var t) l = Some ts \<and> (\<forall>i<length l. parses_back same t (l ! i) (ts ! i))"
  using assms
proof (induction l)
  case (Cons v l)
  then obtain ts where ts: "mapM (compose_var t) l = Some ts"
    "\<forall>i<length l. parses_back same t (l ! i) (ts ! i)" by auto
  obtain c where c: "compose_var t v = Some c" "parses_back same t v c" using Cons.prems by auto
  have "\<forall>i<length (v # l). parses_back same t ((v # l) ! i) ((c # ts) ! i)"
    using ts(2) c(2) by (auto simp: nth_Cons split: nat.split)
  with ts(1) c(1) show ?case by (intro exI [of _ "c # ts"]) simp
qed simp

lemma wire_var_back:
  "wire_ok t v \<Longrightarrow> \<exists>c. compose_var t v = Some c \<and> parses_back same t v c"
proof (induction v rule: wire_ok.induct [of _ t])
  case (1 t n)
  then show ?case using num_back by simp
next
  case (2 t s)
  then have "crlf (sdata s)" by simp
  then obtain b where b: "backslash (sdata s) = Some b"
    "\<forall>r. parse_string (CHR 0x22 # b @ CHR 0x22 # r) = Some (Some (sdata s, r))"
    "\<forall>r. parse_string (CHR '' '' # CHR 0x22 # b @ CHR 0x22 # r) = Some (Some (sdata s, r))"
    by (rule parse_string_wire)
  moreover have "mk_str (sdata s) = s" using 2 by (simp add: mk_str_def)
  ultimately have "parses_back same t (VSTR s) ([CHR 0x22] @ b @ [CHR 0x22])"
    by (intro parses_backI) (simp_all add: c_isspace_def)
  with b show ?case by simp
next
  case (3 t ob)
  then have "wire_server t (server ob)" by simp
  then obtain c where c: "obj_text t ob = Some c" "c \<noteq> []" "hd c = CHR ''#''"
    "\<forall>s. parse_obj t (c @ CHR '' '' # s) = Some (Some (ob, CHR '' '' # s))"
    "\<forall>s. parse_obj t (CHR '' '' # c @ CHR '' '' # s) = Some (Some (ob, CHR '' '' # s))"
    by (rule parse_obj_wire)
  then obtain r where r: "c = CHR ''#'' # r" by (cases c) auto
  have "parses_back same t (VOBJ ob) c"
    using c(4) r by (intro parses_backI) (simp_all add: c_isspace_def c_isdigit_def)
  with c show ?case by simp
next
  case (4 t e)
  then obtain x where x: "e = err_code x" using err_code_unat by auto
  obtain r where r: "err_id2name e = CHR ''E'' # r" using err_wire(2) [of x] x by auto
  have "parses_back same t (VERR e) (err_id2name e)"
    using parse_err_wire [of x] x r
    by (intro parses_backI) (simp_all add: c_isspace_def c_isdigit_def)
  then show ?case by simp
next
  case (5 t l)
  then have "\<exists>ts. mapM (compose_var t) l = Some ts \<and>
      (\<forall>i<length l. parses_back same t (l ! i) (ts ! i))"
    by (intro wire_list) auto
  then obtain ts where ts: "mapM (compose_var t) l = Some ts"
    "\<forall>i<length l. parses_back same t (l ! i) (ts ! i)" by blast
  with list_back [OF _ ts] 5 show ?case by simp
qed auto


end
