(* ===== verification/DbSize.thy ===== *)
theory DbSize
  imports Objects
begin

text \<open>
  The size of an object in the database file (\<open>dbsize.c\<close>), which the chunk store asks before
  it looks for room. The sizes of C's types are those of the server's machines: 4 for \<open>int\<close> and
  for an enumeration, 2 for \<open>short\<close>, 1 for a character. A sum is a natural number here; an
  object in memory is too small for a C \<open>int\<close> to overflow.
\<close>

definition size_string :: "cstr \<Rightarrow> nat" where
  "size_string s = 4 + slen s"

fun size_var :: "var \<Rightarrow> nat" where
  "size_var (VSTR s) = size_string s + 1"
| "size_var (VNUM n) = 4 + 1"
| "size_var (VOBJ ob) = 4 + 2 + 1"
| "size_var (VLIST l) = 4 + sum_list (map size_var l) + 1"
| "size_var (VMAP m) = 4 + sum_list (map (\<lambda>(k, v). size_var k + size_var v) (hentries m)) + 1"
| "size_var (VERR e) = 4 + 1"
| "size_var (VPC p) = 0"

definition size_vals :: "var list \<Rightarrow> nat" where
  "size_vals l = 4 + sum_list (map size_var l)"

definition size_vars :: "vardef list \<Rightarrow> nat" where
  "size_vars vs = sum_list (map (\<lambda>v. 4 + size_var (vd_value v)) vs)"

definition size_methods :: "cmethod hasht option \<Rightarrow> nat" where
  "size_methods h = 4 + (case h of
     None \<Rightarrow> 0
   | Some h \<Rightarrow> sum_list (map (\<lambda>m. 4 + 1 + (4 + length (m_code m) * 4) + 4 +
       (NERRS * 4 + size_vars (m_vars m))) (hentries h)))"

definition size_verbs :: "verbdef list \<Rightarrow> nat" where
  "size_verbs vs = 4 + length vs * (3 * 4)"

definition size_gvars :: "vardef hasht option \<Rightarrow> nat" where
  "size_gvars h = 4 + (case h of None \<Rightarrow> 0 | Some h \<Rightarrow> sum_list (map size_vars (htable h)))"

definition size_symbols :: "symbol list \<Rightarrow> nat" where
  "size_symbols ss = 4 + 4 + sum_list (map (\<lambda>s. 4 +
     (if s_ref s \<noteq> 0 then (case s_str s of Some t \<Rightarrow> size_string t | None \<Rightarrow> 0) else 0)) ss)"

definition size_locks :: "lock list \<Rightarrow> nat" where
  "size_locks ls = 4 + sum_list (map (\<lambda>l. size_string (mk_str (lk_name l)) + 4) ls)"

definition size_object :: "object \<Rightarrow> nat" where
  "size_object ob = 4 + 2 + size_vals (o_parents ob) + size_symbols (o_symbols ob) +
     size_methods (o_methods ob) + size_gvars (o_vars ob) + size_verbs (o_verbs ob) +
     size_locks (o_locks ob)"

lemma size_var_list: "size_var (VLIST l) = size_vals l + 1"
  by (simp add: size_vals_def)

lemma size_gvars_entries:
  "size_gvars (Some h) = 4 + size_vars (hentries h)"
proof -
  have "sum_list (map size_vars t) = size_vars (concat t)" for t
    by (induction t) (simp_all add: size_vars_def)
  then show ?thesis by (simp add: size_gvars_def)
qed

lemma size_object_pos: "0 < size_object ob"
  by (simp add: size_object_def)

end
