(* ===== verification/Decode.thy ===== *)
theory Decode
  imports Text Variables
begin

text \<open>
  The decompiler (\<open>decode.c\<close>): the token listing of a method, and the unparser, which rebuilds
  the source text from the code. The unparser runs over the code once. An instruction that
  belongs to an expression pushes a reference on \<open>tstack\<close>: to the code itself for a leaf, or to
  a node laid out in the array \<open>tree\<close> for an operator, a call or a list. An instruction that
  ends a statement pops its expressions, prints them and starts the array afresh.

  The static variables are the fields of the record \<open>dstate\<close>. The code keeps addresses in its
  \<open>int\<close> cells; a cell here is a number or a reference into the code or into the array, and a
  reference read as a number (or a number other than 0 read as an address) is undefined. A null
  \<open>String\<close> pointer is the buffer \<open>None\<close>: the interpreter runs the unparser with one, to count
  lines only, and the text functions then do nothing.
\<close>

section \<open>string.c: appending to a buffer that may be null\<close>

type_synonym buf = "string option"

definition bcat :: "buf \<Rightarrow> string \<Rightarrow> buf" where
  "bcat b t = map_option (\<lambda>s. s @ t) b"

lemma bcat_simps [simp]:
  "bcat None t = None" "bcat (Some s) t = Some (s @ t)" "bcat b [] = b"
  "bcat (bcat b t) u = bcat b (t @ u)"
  by (cases b; simp add: bcat_def)+

lemma bcat_None_iff [simp]: "bcat b t = None \<longleftrightarrow> b = None"
  by (simp add: bcat_def)

definition bcat_some :: "buf \<Rightarrow> string option \<Rightarrow> buf option" where
  "bcat_some b t = (if b = None then Some None else map_option (bcat b) t)"

lemma bcat_some_Some [simp]: "bcat_some b (Some t) = Some (bcat b t)"
  by (simp add: bcat_some_def)

definition string_catobj :: "servtab \<Rightarrow> buf \<Rightarrow> objid \<Rightarrow> bool \<Rightarrow> buf option" where
  "string_catobj T b ob full = bcat_some b (catobj T [] ob full)"

definition string_backslash :: "buf \<Rightarrow> string \<Rightarrow> buf option" where
  "string_backslash b s = bcat_some b (backslash s)"

text \<open>The loop that writes the blanks counts down to 0 and never ends from a negative count.\<close>

definition string_indent_cat :: "buf \<Rightarrow> int \<Rightarrow> string \<Rightarrow> buf option" where
  "string_indent_cat b n s =
     bcat_some b (if n < 0 then None else Some (replicate (nat n) CHR '' '' @ s))"

abbreviation eol :: string where
  "eol \<equiv> [CHR 0x0D, CHR 0x0A]"

abbreviation quote_mark :: string where
  "quote_mark \<equiv> [CHR 0x22]"

section \<open>The token listing\<close>

definition local_name :: "object \<Rightarrow> cmethod \<Rightarrow> int \<Rightarrow> string option" where
  "local_name ob m n = do {
     v \<leftarrow> (if n < 0 then None else var_find_local m (nat n));
     sym_str ob (vd_name v) }"

fun decode_arg :: "object \<Rightarrow> cmethod \<Rightarrow> arg_type \<Rightarrow> i32 \<Rightarrow> string option" where
  "decode_arg ob m NUM_ARG n = Some (num_text (sint n))"
| "decode_arg ob m ID_ARG n = sym_str ob (sint n)"
| "decode_arg ob m STR_ARG n = do { s \<leftarrow> sym_str ob (sint n); Some (quote_mark @ s @ quote_mark) }"
| "decode_arg ob m VARNO_ARG n = local_name ob m (sint n)"

text \<open>
  The loop over the code, from the rest of it that is left. The level is 0 for numbers, 1 for
  names of opcodes, 2 for readable arguments. An opcode that is not in the table ends the
  listing.
\<close>

function decode_insts :: "int \<Rightarrow> object \<Rightarrow> cmethod \<Rightarrow> i32 list \<Rightarrow> string option" where
  "decode_insts level ob m [] = Some []"
| "decode_insts level ob m (c # cs) =
     (if level = 0 then map_option (\<lambda>r. num_text (sint c) @ '' '' @ r) (decode_insts level ob m cs)
      else case opcodes (sint c) of
          None \<Rightarrow> None
        | Some None \<Rightarrow> Some []
        | Some (Some p) \<Rightarrow>
            if length cs < length (op_args p) then None
            else do {
              as \<leftarrow> mapM (\<lambda>(a, x). if level = 2 then decode_arg ob m a x else Some (num_text (sint x)))
                (zip (op_args p) cs);
              r \<leftarrow> decode_insts level ob m (drop (length (op_args p)) cs);
              Some (op_name p @ '' '' @ concat (map (\<lambda>a. a @ '' '') as) @ r) })"
  by pat_completeness auto
termination
  by (relation "measure (\<lambda>(level, ob, m, cs). length cs)") auto

definition decode_method :: "object \<Rightarrow> cmethod \<Rightarrow> int \<Rightarrow> string option" where
  "decode_method ob m level = decode_insts level ob m (m_code m)"

section \<open>The state of the unparser\<close>

datatype inst = Num i32 | CodeP int | TreeP nat

definition MAX_TSTACK :: nat where
  "MAX_TSTACK = 100"

definition MAX_TREE :: nat where
  "MAX_TREE = 200"

record dstate =
  d_stack :: "inst list"
  d_sp :: int
  d_tree :: "inst list"
  d_ptr :: nat
  d_indent :: int
  d_by :: int
  d_brackets :: bool
  d_line :: int
  d_find :: int
  d_found :: int
  d_number :: bool
  d_buf :: buf

definition prec_table :: "(int \<times> int) list" where
  "prec_table =
     [(O_ASGNLVAR, 1), (O_ASGNGVAR, 1), (258, 2), (O_ENDOR, 3), (O_ENDAND, 4), (O_IN, 5),
      (O_EQ, 6), (O_NE, 6), (O_LT, 7), (O_LE, 7), (O_GT, 7), (O_GE, 7), (O_ADD, 8), (O_SUB, 8),
      (O_MUL, 9), (O_DIV, 9), (O_MOD, 9), (O_NOT, 10), (O_NEGATE, 10), (O_SPLICE, 10)]"

definition expr_prec :: "int \<Rightarrow> int" where
  "expr_prec n = (case map_of prec_table n of Some p \<Rightarrow> p | None \<Rightarrow> 0)"

definition tpush :: "inst \<Rightarrow> dstate \<Rightarrow> dstate option" where
  "tpush t st =
     (if int MAX_TSTACK \<le> d_sp st then Some (st\<lparr>d_sp := d_sp st + 1\<rparr>)
      else do {
        ts \<leftarrow> upd_opt (d_stack st) (d_sp st) t;
        Some (st\<lparr>d_stack := ts, d_sp := d_sp st + 1\<rparr>) })"

definition tpop :: "dstate \<Rightarrow> (inst \<times> dstate) option" where
  "tpop st =
     (if d_sp st = 0 then Some (Num 0, st)
      else if int MAX_TSTACK \<le> d_sp st then Some (Num 0, st\<lparr>d_sp := d_sp st - 1\<rparr>)
      else do {
        t \<leftarrow> nth_opt (d_stack st) (d_sp st - 1);
        Some (t, st\<lparr>d_sp := d_sp st - 1\<rparr>) })"

section \<open>Laying out nodes\<close>

definition set_cell :: "nat \<Rightarrow> inst \<Rightarrow> dstate \<Rightarrow> dstate option" where
  "set_cell k x st =
     (if k < MAX_TREE then Some (st\<lparr>d_tree := (d_tree st)[k := x]\<rparr>) else None)"

text \<open>\<open>tree[tptr++] = x\<close>, and the same for a reference that is popped.\<close>

definition put_cell :: "inst \<Rightarrow> dstate \<Rightarrow> dstate option" where
  "put_cell x st = do { st \<leftarrow> set_cell (d_ptr st) x st; Some (st\<lparr>d_ptr := d_ptr st + 1\<rparr>) }"

definition put_pop :: "dstate \<Rightarrow> dstate option" where
  "put_pop st = do { (t, st) \<leftarrow> tpop st; put_cell t st }"

fun put_pops :: "nat \<Rightarrow> dstate \<Rightarrow> dstate option" where
  "put_pops 0 st = Some st"
| "put_pops (Suc n) st = do { st \<leftarrow> put_pop st; put_pops n st }"

definition not_too_big :: "nat \<Rightarrow> (dstate \<Rightarrow> dstate option) \<Rightarrow> dstate \<Rightarrow> dstate option" where
  "not_too_big n f st = (if MAX_TREE \<le> d_ptr st + n then tpush (Num 0) st else f st)"

text \<open>
  \<open>tree_count_args\<close>: the references above the mark move down one place, over the mark. The loop
  reads \<open>tstack\<close> from its top, which is outside the array when pushes have been faked.
\<close>

fun count_cells :: "nat \<Rightarrow> inst \<Rightarrow> inst list \<Rightarrow> nat \<Rightarrow> nat \<times> inst list" where
  "count_cells 0 s ts count = (count, ts)"
| "count_cells (Suc k) s ts count =
     (let t = ts ! k; ts = ts[k := s]
      in if t = Num (i32_of O_ARGSTART) then (count, ts) else count_cells k t ts (count + 1))"

definition tree_count_args :: "dstate \<Rightarrow> (nat \<times> dstate) option" where
  "tree_count_args st =
     (if int MAX_TSTACK < d_sp st then None
      else let (count, ts) = count_cells (nat (d_sp st)) (Num 0) (d_stack st) 0
           in Some (count, st\<lparr>d_stack := ts, d_sp := d_sp st - 1\<rparr>))"

text \<open>The loop of \<open>tree_args\<close> fills the cells from the last one down.\<close>

fun arg_cells :: "nat \<Rightarrow> dstate \<Rightarrow> dstate option" where
  "arg_cells 0 st = Some st"
| "arg_cells (Suc k) st = do {
     (t, st) \<leftarrow> tpop st;
     st \<leftarrow> set_cell (d_ptr st + k) t st;
     arg_cells k st }"

definition tree_args :: "nat \<Rightarrow> dstate \<Rightarrow> dstate option" where
  "tree_args n st = do {
     st \<leftarrow> put_cell (Num (of_nat n)) st;
     st \<leftarrow> arg_cells n st;
     Some (st\<lparr>d_ptr := d_ptr st + n\<rparr>) }"

definition tree_func :: "cmethod \<Rightarrow> int \<Rightarrow> dstate \<Rightarrow> dstate option" where
  "tree_func m i st = do {
     let start = TreeP (d_ptr st);
     (n, st) \<leftarrow> tree_count_args st;
     not_too_big n (\<lambda>st. do {
       f \<leftarrow> nth_opt (m_code m) i;
       st \<leftarrow> put_cell (Num f) st;
       st \<leftarrow> tree_args n st;
       tpush start st }) st }"

definition tree_list :: "dstate \<Rightarrow> dstate option" where
  "tree_list st = do {
     let start = TreeP (d_ptr st);
     (n, st) \<leftarrow> tree_count_args st;
     not_too_big (n + 2) (\<lambda>st. do {
       st \<leftarrow> put_cell (Num (i32_of O_LISTPUSH)) st;
       st \<leftarrow> tree_args n st;
       tpush start st }) st }"

text \<open>A negative length passes the test when the array is not full, and the loop does nothing; one so
  large that the test overflows is undefined.\<close>

definition tree_map :: "cmethod \<Rightarrow> int \<Rightarrow> dstate \<Rightarrow> dstate option" where
  "tree_map m i st = do {
     let start = TreeP (d_ptr st);
     len \<leftarrow> nth_opt (m_code m) (i + 1);
     if sint len * 2 < - (2 ^ 31) \<or> 2 ^ 31 \<le> int (d_ptr st) + sint len * 2 + 2 then None
     else if int MAX_TREE \<le> int (d_ptr st) + sint len * 2 + 2 then tpush (Num 0) st
     else do {
       st \<leftarrow> put_cell (Num (i32_of O_MAPPUSH)) st;
       st \<leftarrow> put_cell (Num len) st;
       st \<leftarrow> put_pops (2 * nat (sint len)) st;
       tpush start st } }"

definition tree_pass :: "cmethod \<Rightarrow> int \<Rightarrow> dstate \<Rightarrow> dstate option" where
  "tree_pass m i st = do {
     let start = TreeP (d_ptr st);
     (n, st) \<leftarrow> tree_count_args st;
     not_too_big (3 + n) (\<lambda>st. do {
       p \<leftarrow> nth_opt (m_code m) (i + 1);
       st \<leftarrow> put_cell (Num (i32_of O_PASS)) st;
       st \<leftarrow> put_cell (Num p) st;
       st \<leftarrow> tree_args n st;
       tpush start st }) st }"

text \<open>\<open>&(tree[tptr++])\<close>: the cell is skipped and written later.\<close>

definition tree_message :: "cmethod \<Rightarrow> int \<Rightarrow> dstate \<Rightarrow> dstate option" where
  "tree_message m i st = do {
     let start = TreeP (d_ptr st);
     (n, st) \<leftarrow> tree_count_args st;
     not_too_big (4 + n) (\<lambda>st. do {
       msg \<leftarrow> nth_opt (m_code m) (i + 1);
       st \<leftarrow> put_cell (Num (i32_of O_MESSAGE)) st;
       st \<leftarrow> put_cell (Num msg) st;
       let toref = d_ptr st;
       st \<leftarrow> tree_args n (st\<lparr>d_ptr := d_ptr st + 1\<rparr>);
       (t, st) \<leftarrow> tpop st;
       st \<leftarrow> set_cell toref t st;
       tpush start st }) st }"

definition tree_message_expr :: "dstate \<Rightarrow> dstate option" where
  "tree_message_expr st = do {
     let start = TreeP (d_ptr st);
     (n, st) \<leftarrow> tree_count_args st;
     not_too_big (4 + n) (\<lambda>st. do {
       st \<leftarrow> put_cell (Num (i32_of O_MESSAGE_EXPR)) st;
       let toref = d_ptr st;
       let msgref = d_ptr st + 1;
       st \<leftarrow> tree_args n (st\<lparr>d_ptr := d_ptr st + 2\<rparr>);
       (t, st) \<leftarrow> tpop st;
       st \<leftarrow> set_cell msgref t st;
       (t, st) \<leftarrow> tpop st;
       st \<leftarrow> set_cell toref t st;
       tpush start st }) st }"

text \<open>\<open>tree_unop\<close>, \<open>tree_binop\<close> and \<open>tree_ternop\<close> differ in the number of operands.\<close>

definition tree_op :: "nat \<Rightarrow> i32 \<Rightarrow> dstate \<Rightarrow> dstate option" where
  "tree_op n opc st =
     not_too_big (n + 1) (\<lambda>st. do {
       let start = TreeP (d_ptr st);
       st \<leftarrow> put_cell (Num opc) st;
       st \<leftarrow> put_pops n st;
       tpush start st }) st"

section \<open>Unparsing an expression\<close>

text \<open>\<open>t[k]\<close>, where \<open>t\<close> is a reference; and \<open>t[k]\<close> where a number is meant.\<close>

fun cell_at :: "cmethod \<Rightarrow> dstate \<Rightarrow> inst \<Rightarrow> int \<Rightarrow> inst option" where
  "cell_at m st (CodeP i) k = map_option Num (nth_opt (m_code m) (i + k))"
| "cell_at m st (TreeP i) k = nth_opt (d_tree st) (int i + k)"
| "cell_at m st (Num n) k = None"

definition num_at :: "cmethod \<Rightarrow> dstate \<Rightarrow> inst \<Rightarrow> int \<Rightarrow> int option" where
  "num_at m st t k =
     (case cell_at m st t k of Some (Num n) \<Rightarrow> Some (sint n) | _ \<Rightarrow> None)"

type_synonym unparser = "inst \<Rightarrow> int \<Rightarrow> buf \<Rightarrow> buf option"

fun join_args :: "(inst \<Rightarrow> buf \<Rightarrow> buf option) \<Rightarrow> inst list \<Rightarrow> buf \<Rightarrow> buf option" where
  "join_args f [] b = Some b"
| "join_args f [t] b = f t b"
| "join_args f (t # u # ts) b = do { b \<leftarrow> f t b; join_args f (u # ts) (bcat b '', '') }"

text \<open>\<open>decompile_args\<close> and \<open>decompile_map\<close>: \<open>off\<close> is where in the node the length is.\<close>

definition decompile_args :: "unparser \<Rightarrow> cmethod \<Rightarrow> dstate \<Rightarrow> inst \<Rightarrow> int \<Rightarrow> buf \<Rightarrow> buf option" where
  "decompile_args D m st t off b = do {
     n \<leftarrow> num_at m st t off;
     ts \<leftarrow> mapM (\<lambda>i. cell_at m st t (off + int i + 1)) [0..<nat n];
     join_args (\<lambda>t. D t 0) ts b }"

fun join_pairs :: "(inst \<Rightarrow> buf \<Rightarrow> buf option) \<Rightarrow> (inst \<times> inst) list \<Rightarrow> buf \<Rightarrow> buf option" where
  "join_pairs f [] b = Some b"
| "join_pairs f [(v, k)] b = do { b \<leftarrow> f k b; f v (bcat b '' => '') }"
| "join_pairs f ((v, k) # p # ts) b = do {
     b \<leftarrow> f k b;
     b \<leftarrow> f v (bcat b '' => '');
     join_pairs f (p # ts) (bcat b '', '') }"

definition decompile_map :: "unparser \<Rightarrow> cmethod \<Rightarrow> dstate \<Rightarrow> inst \<Rightarrow> int \<Rightarrow> buf \<Rightarrow> buf option" where
  "decompile_map D m st t off b = do {
     n \<leftarrow> num_at m st t off;
     ts \<leftarrow> mapM (\<lambda>i. do {
       v \<leftarrow> cell_at m st t (off + 2 * int i + 1);
       k \<leftarrow> cell_at m st t (off + 2 * int i + 2);
       Some (v, k) }) [0..<nat n];
     join_pairs (\<lambda>t. D t 0) ts b }"

definition binop_text :: "int \<Rightarrow> string option" where
  "binop_text = map_of
     [(O_ADD, '' + ''), (O_SUB, '' - ''), (O_MUL, '' * ''), (O_DIV, '' / ''), (O_MOD, '' % ''),
      (O_EQ, '' == ''), (O_NE, '' != ''), (O_GT, '' > ''), (O_GE, '' >= ''), (O_LT, '' < ''),
      (O_LE, '' <= ''), (O_ENDAND, '' && ''), (O_ENDOR, '' || ''), (O_IN, '' in '')]"

definition unop_text :: "int \<Rightarrow> string option" where
  "unop_text = map_of [(O_NOT, ''!''), (O_NEGATE, ''-''), (O_SPLICE, ''@'')]"

definition leaf_text :: "int \<Rightarrow> string option" where
  "leaf_text = map_of
     [(O_PARENTS, ''parents''), (O_THIS, ''this''), (O_PLAYER, ''player''), (O_CALLER, ''caller''),
      (O_ARGS, ''args''), (O_AND, []), (O_OR, [])]"

text \<open>
  The body of \<open>decompile_expr\<close>: \<open>D\<close> is the function itself. \<open>t[k]\<close> as an operand is passed on as
  a reference.
\<close>

definition expr_case ::
  "unparser \<Rightarrow> servtab \<Rightarrow> object \<Rightarrow> cmethod \<Rightarrow> dstate \<Rightarrow> inst \<Rightarrow> int \<Rightarrow> int \<Rightarrow> buf \<Rightarrow> buf option" where
  "expr_case D T ob m st t opc tprec b =
     (let sub = (\<lambda>k p b. do { x \<leftarrow> cell_at m st t k; D x p b });
          name = (\<lambda>k. do { n \<leftarrow> num_at m st t k; sym_str ob n });
          args = (\<lambda>k b. do { b \<leftarrow> decompile_args D m st t k (bcat b ''(''); Some (bcat b '')'') });
          call = (\<lambda>b. do { n \<leftarrow> num_at m st t 3; if n \<noteq> 0 then args 3 b else Some b })
      in
      if opc = O_GETLVAR then do { n \<leftarrow> num_at m st t 1; s \<leftarrow> local_name ob m n; Some (bcat b s) }
      else if opc = O_GETGVAR then do { s \<leftarrow> name 1; Some (bcat b s) }
      else if opc = O_GETSYSVAR then do { s \<leftarrow> name 1; Some (bcat b (''$'' @ s)) }
      else if opc = O_MESSAGE then do {
        b \<leftarrow> sub 2 0 b;
        s \<leftarrow> name 1;
        call (bcat b (''.'' @ s)) }
      else if opc = O_MESSAGE_EXPR then do {
        b \<leftarrow> sub 1 0 b;
        b \<leftarrow> sub 2 0 (bcat b ''.('');
        call (bcat b '')'') }
      else if opc = O_PASS then do {
        b \<leftarrow> args 2 (bcat b ''pass'');
        to \<leftarrow> num_at m st t 1;
        q \<leftarrow> nth_opt (o_parents ob) 0;
        q \<leftarrow> as_obj q;
        Some (if to \<noteq> sint (oid q) then bcat b ('' to #'' @ num_text to) else b) }
      else if opc = O_INDEX then do {
        b \<leftarrow> sub 2 tprec b;
        b \<leftarrow> sub 1 tprec (bcat b ''['');
        Some (bcat b '']'') }
      else if opc = O_SUBSET then do {
        b \<leftarrow> sub 3 tprec b;
        b \<leftarrow> sub 2 0 (bcat b ''['');
        b \<leftarrow> sub 1 0 (bcat b ''..'');
        Some (bcat b '']'') }
      else if opc = O_LSUBSET then do {
        b \<leftarrow> sub 2 tprec b;
        b \<leftarrow> sub 1 0 (bcat b ''[..'');
        Some (bcat b '']'') }
      else if opc = O_RSUBSET then do {
        b \<leftarrow> sub 2 tprec b;
        b \<leftarrow> sub 1 0 (bcat b ''['');
        Some (bcat b ''..]'') }
      else if opc = O_NUMPUSH then do { n \<leftarrow> num_at m st t 1; Some (bcat b (num_text n)) }
      else if opc = O_STRPUSH then do {
        s \<leftarrow> name 1;
        b \<leftarrow> string_backslash (bcat b quote_mark) s;
        Some (bcat b quote_mark) }
      else if opc = O_OBJPUSH then do {
        n \<leftarrow> num_at m st t 1;
        sv \<leftarrow> num_at m st t 2;
        let sw = word_of_int sv;
        string_catobj T b \<lparr>server = sw, oid = word_of_int n\<rparr> (sw \<noteq> 0) }
      else if opc = O_LISTPUSH then do {
        b \<leftarrow> decompile_args D m st t 1 (bcat b ''{'');
        Some (bcat b ''}'') }
      else if opc = O_MAPPUSH then do {
        b \<leftarrow> decompile_map D m st t 1 (bcat b ''['');
        Some (bcat b '']'') }
      else if opc = O_ERRPUSH then do {
        n \<leftarrow> num_at m st t 1;
        Some (bcat b (err_id2name (word_of_int n))) }
      else case binop_text opc of
        Some s \<Rightarrow> do { b \<leftarrow> sub 2 tprec b; sub 1 (tprec + 1) (bcat b s) }
      | None \<Rightarrow>
        (case unop_text opc of
           Some s \<Rightarrow> sub 1 tprec (bcat b s)
         | None \<Rightarrow>
           (case leaf_text opc of
              Some s \<Rightarrow> Some (bcat b s)
            | None \<Rightarrow>
              (case bf_id2name opc of
                 None \<Rightarrow> Some b
               | Some f \<Rightarrow> args 1 (bcat b f)))))"

text \<open>
  A path of references that is longer than the array visits a node twice, and the C recursion
  never ends: \<open>EXPR_FUEL\<close> calls are enough whenever it does.
\<close>

definition EXPR_FUEL :: nat where
  "EXPR_FUEL = MAX_TREE + 1"

primrec decompile_expr ::
  "nat \<Rightarrow> servtab \<Rightarrow> object \<Rightarrow> cmethod \<Rightarrow> dstate \<Rightarrow> inst \<Rightarrow> int \<Rightarrow> buf \<Rightarrow> buf option" where
  "decompile_expr 0 T ob m st t prec b = None"
| "decompile_expr (Suc n) T ob m st t prec b =
     (if t = Num 0 then Some (bcat b '' /* Expression too complex */ '')
      else do {
        opc \<leftarrow> num_at m st t 0;
        let tprec = expr_prec opc;
        let brackets = tprec \<noteq> 0 \<and> (tprec < prec \<or> d_brackets st);
        b \<leftarrow> expr_case (decompile_expr n T ob m st) T ob m st t opc tprec
               (if brackets then bcat b ''('' else b);
        Some (if brackets then bcat b '')'' else b) })"

section \<open>Unparsing statements\<close>

definition put :: "string \<Rightarrow> dstate \<Rightarrow> dstate" where
  "put s st = st\<lparr>d_buf := bcat (d_buf st) s\<rparr>"

definition pad3 :: "string \<Rightarrow> string" where
  "pad3 s = replicate (3 - length s) CHR '' '' @ s"

text \<open>The buffer of \<open>line_start\<close> holds every line number below a thousand million.\<close>

definition line_start :: "int \<Rightarrow> string \<Rightarrow> dstate \<Rightarrow> dstate option" where
  "line_start ind s st = do {
     let st = (if d_number st then put (pad3 (num_text (d_line st)) @ '':  '') st else st);
     b \<leftarrow> string_indent_cat (d_buf st) ind s;
     Some (st\<lparr>d_buf := b\<rparr>) }"

definition put_expr :: "servtab \<Rightarrow> object \<Rightarrow> cmethod \<Rightarrow> inst \<Rightarrow> dstate \<Rightarrow> dstate option" where
  "put_expr T ob m t st = do {
     b \<leftarrow> decompile_expr EXPR_FUEL T ob m st t 0 (d_buf st);
     Some (st\<lparr>d_buf := b\<rparr>) }"

definition put_popped :: "servtab \<Rightarrow> object \<Rightarrow> cmethod \<Rightarrow> dstate \<Rightarrow> dstate option" where
  "put_popped T ob m st = do { (t, st) \<leftarrow> tpop st; put_expr T ob m t st }"

abbreviation next_line :: "dstate \<Rightarrow> dstate" where
  "next_line st \<equiv> st\<lparr>d_line := d_line st + 1\<rparr>"

abbreviation clear_tree :: "dstate \<Rightarrow> dstate" where
  "clear_tree st \<equiv> st\<lparr>d_ptr := 0\<rparr>"

abbreviation indent_more :: "dstate \<Rightarrow> dstate" where
  "indent_more st \<equiv> st\<lparr>d_indent := d_indent st + d_by st\<rparr>"

abbreviation indent_less :: "dstate \<Rightarrow> dstate" where
  "indent_less st \<equiv> st\<lparr>d_indent := d_indent st - d_by st\<rparr>"

text \<open>A line of one expression, the form most statements share; and one with two.\<close>

definition line_expr ::
  "servtab \<Rightarrow> object \<Rightarrow> cmethod \<Rightarrow> int \<Rightarrow> string \<Rightarrow> string \<Rightarrow> dstate \<Rightarrow> dstate option" where
  "line_expr T ob m ind h t st = do {
     st \<leftarrow> line_start ind h st;
     st \<leftarrow> put_popped T ob m st;
     Some (next_line (clear_tree (put (t @ eol) st))) }"

definition line_expr2 ::
  "servtab \<Rightarrow> object \<Rightarrow> cmethod \<Rightarrow> int \<Rightarrow> string \<Rightarrow> string \<Rightarrow> string \<Rightarrow> dstate \<Rightarrow> dstate option" where
  "line_expr2 T ob m ind h between t st = do {
     st \<leftarrow> line_start ind h st;
     (i1, st) \<leftarrow> tpop st;
     st \<leftarrow> put_popped T ob m st;
     st \<leftarrow> put_expr T ob m i1 (put between st);
     Some (next_line (clear_tree (put (t @ eol) st))) }"

definition line_plain :: "int \<Rightarrow> string \<Rightarrow> dstate \<Rightarrow> dstate option" where
  "line_plain ind s st = map_option next_line (line_start ind (s @ eol) st)"

text \<open>The instructions with no statements inside: those that end a line.\<close>

definition inst_at :: "cmethod \<Rightarrow> int \<Rightarrow> int option" where
  "inst_at m i = map_option sint (nth_opt (m_code m) i)"

definition loop_count :: "string \<Rightarrow> int \<Rightarrow> string" where
  "loop_count s n = (if 1 < n then s @ '' '' @ num_text n @ '';'' else s @ '';'')"

definition line_step ::
  "servtab \<Rightarrow> object \<Rightarrow> cmethod \<Rightarrow> int \<Rightarrow> int \<Rightarrow> dstate \<Rightarrow> (dstate \<times> int) option option" where
  "line_step T ob m opc i st =
     (let line = (\<lambda>h k. map_option (\<lambda>st. (st, i + k)) (line_expr T ob m (d_indent st) h '';'' st));
          global = (do { n \<leftarrow> inst_at m (i + 1); sym_str ob n });
          loc = (do { n \<leftarrow> inst_at m (i + 1); local_name ob m n });
          assign = (\<lambda>v. do { s \<leftarrow> v; line (s @ '' = '') 2 });
          index = (\<lambda>v. do {
            s \<leftarrow> v;
            st \<leftarrow> line_expr2 T ob m (d_indent st) (s @ ''['') ''] = '' '';'' st;
            Some (st, i + 2) });
          jump = (\<lambda>s. do {
            n \<leftarrow> inst_at m (i + 1);
            st \<leftarrow> line_plain (d_indent st) (loop_count s n) st;
            Some (st, i + 2) })
      in
      if opc = O_ELSE then
        Some (map_option (\<lambda>st. (st, i + 1)) (line_plain (d_indent st - d_by st) ''else'' st))
      else if opc = O_DO then
        Some (map_option (\<lambda>st. (indent_more st, i + 2)) (line_plain (d_indent st) ''do'' st))
      else if opc = O_DOWHILE then
        Some (let st = indent_less st
              in map_option (\<lambda>st. (st, i + 3)) (line_expr T ob m (d_indent st) ''while ('' '');'' st))
      else if opc = O_POP then Some (line [] 1)
      else if opc = O_ASGNGVAR then Some (assign global)
      else if opc = O_ASGNLVAR then Some (assign loc)
      else if opc = O_ASGNGVARINDEX then Some (index global)
      else if opc = O_ASGNLVARINDEX then Some (index loc)
      else if opc = O_SETPLAYER then Some (line ''player = '' 1)
      else if opc = O_T_RETURN then Some (line ''return '' 1)
      else if opc = O_T_RAISE then Some (line ''raise '' 1)
      else if opc = O_CONTINUE then Some (jump ''continue'')
      else if opc = O_BREAK then Some (jump ''break'')
      else None)"

text \<open>The instructions of expressions, which leave a reference on the stack.\<close>

definition tree_step :: "cmethod \<Rightarrow> int \<Rightarrow> int \<Rightarrow> dstate \<Rightarrow> (dstate \<times> int) option" where
  "tree_step m opc i st =
     (let go = (\<lambda>k. map_option (\<lambda>st. (st, i + k))) in
      if opc \<in> {O_PARENTS, O_ARGS, O_THIS, O_PLAYER, O_CALLER} then go 1 (tpush (CodeP i) st)
      else if opc \<in> {O_NUMPUSH, O_STRPUSH, O_ERRPUSH, O_GETLVAR, O_GETGVAR, O_GETSYSVAR}
        then go 2 (tpush (CodeP i) st)
      else if opc = O_OBJPUSH then go 3 (tpush (CodeP i) st)
      else if opc = O_LISTPUSH then go 1 (tree_list st)
      else if opc = O_MAPPUSH then go 2 (tree_map m i st)
      else if opc = O_MESSAGE then go 2 (tree_message m i st)
      else if opc = O_MESSAGE_EXPR then go 1 (tree_message_expr st)
      else if opc = O_PASS then go 2 (tree_pass m i st)
      else if opc \<in> {O_ADD, O_SUB, O_MUL, O_DIV, O_MOD, O_EQ, O_NE, O_GT, O_GE, O_LT, O_LE,
          O_INDEX, O_IN, O_LSUBSET, O_RSUBSET, O_ENDAND, O_ENDOR}
        then go 1 (tree_op 2 (i32_of opc) st)
      else if opc = O_SUBSET then go 1 (tree_op 3 (i32_of opc) st)
      else if opc \<in> {O_NEGATE, O_NOT, O_SPLICE} then go 1 (tree_op 1 (i32_of opc) st)
      else if opc \<in> {O_AND, O_OR} then Some (st, i + 2)
      else if opc = O_PUSHPC then Some (st, i + 1)
      else if opc = O_ARGSTART then go 1 (tpush (Num (i32_of O_ARGSTART)) st)
      else go 1 (tree_func m i st))"

text \<open>The test at the head of the loop, which finds the line of an instruction.\<close>

definition see :: "int \<Rightarrow> dstate \<Rightarrow> dstate" where
  "see i st =
     (if 0 \<le> d_find st \<and> d_find st \<le> i then st\<lparr>d_found := d_line st, d_find := -1\<rparr> else st)"

text \<open>
  \<open>decompile_stmts\<close>. The fuel counts the instructions the loop has seen and the calls around it;
  the code of a compiled method is read forwards only, so its length is enough.
\<close>

primrec decompile_stmts ::
  "nat \<Rightarrow> servtab \<Rightarrow> object \<Rightarrow> cmethod \<Rightarrow> int \<Rightarrow> dstate \<Rightarrow> dstate option" where
  "decompile_stmts 0 T ob m i st = None"
| "decompile_stmts (Suc n) T ob m i st =
     (let st = see i st;
          line = line_expr T ob m;
          ending = (\<lambda>s st. line_plain (d_indent (indent_less st)) s (indent_less st));
          loopvar = (do { k \<leftarrow> inst_at m (i + 1); local_name ob m k });
          body = (\<lambda>k st. decompile_stmts n T ob m k (indent_more st));
          jump = (\<lambda>k st. do { j \<leftarrow> inst_at m (i + k); decompile_stmts n T ob m j st })
      in do {
        opc \<leftarrow> inst_at m i;
        if opc = O_STOP then Some st
        else if opc = O_IF then do {
          st \<leftarrow> line (d_indent st) ''if ('' '')'' st;
          st \<leftarrow> body (i + 3) st;
          j \<leftarrow> inst_at m (i + 1);
          c \<leftarrow> inst_at m j;
          st \<leftarrow> (if c \<noteq> O_STOP then decompile_stmts n T ob m j st else Some st);
          st \<leftarrow> ending ''endif'' st;
          jump 2 st }
        else if opc = O_ELSEIF then do {
          st \<leftarrow> line (d_indent st - d_by st) ''elseif ('' '')'' st;
          st \<leftarrow> decompile_stmts n T ob m (i + 2) st;
          jump 1 st }
        else if opc = O_FOR then do {
          (x, st) \<leftarrow> tpop st;
          v \<leftarrow> loopvar;
          st \<leftarrow> line (d_indent st) (''for '' @ v @ '' in ('') '')'' st;
          st \<leftarrow> body (i + 3) st;
          st \<leftarrow> ending ''endfor'' st;
          jump 2 st }
        else if opc = O_FORRNG then do {
          v \<leftarrow> loopvar;
          st \<leftarrow> line_expr2 T ob m (d_indent st) (''for '' @ v @ '' in ['') ''..'' '']'' st;
          st \<leftarrow> body (i + 3) st;
          st \<leftarrow> ending ''endfor'' st;
          jump 2 st }
        else if opc = O_WHILE then do {
          st \<leftarrow> line (d_indent st) ''while ('' '')'' st;
          st \<leftarrow> body (i + 2) st;
          st \<leftarrow> ending ''endwhile'' st;
          jump 1 st }
        else if opc = O_AT then do {
          st \<leftarrow> line (d_indent st) ''at ('' '')'' st;
          st \<leftarrow> body (i + 2) st;
          st \<leftarrow> ending ''endat'' st;
          jump 1 st }
        else do {
          (st, j) \<leftarrow> (case line_step T ob m opc i st of
            Some r \<Rightarrow> r
          | None \<Rightarrow> tree_step m opc i st);
          decompile_stmts n T ob m j st } })"

section \<open>Methods and objects\<close>

definition decompile_local_vars :: "object \<Rightarrow> cmethod \<Rightarrow> dstate \<Rightarrow> dstate option" where
  "decompile_local_vars ob m st =
     (if m_vars m = [] then Some st
      else do {
        b \<leftarrow> string_indent_cat (d_buf st) (d_indent st + (if d_number st then 6 else 0)) ''var '';
        names \<leftarrow> mapM (\<lambda>v. sym_str ob (vd_name v)) (m_vars m);
        Some (st\<lparr>d_buf := bcat b (commas names @ '';'' @ eol)\<rparr>) })"

definition decompile_ehandler :: "cmethod \<Rightarrow> dstate \<Rightarrow> dstate option" where
  "decompile_ehandler m st =
     (if length (m_ehandler m) < NERRS then None
      else let es = filter (\<lambda>i. m_ehandler m ! i = EH_IGNORE) [0..<NERRS] in
        if es = [] then Some st
        else do {
          b \<leftarrow> string_indent_cat (d_buf st) (d_indent st + (if d_number st then 6 else 0)) ''ignore '';
          Some (st\<lparr>d_buf := bcat b (commas (map (\<lambda>i. err_id2name (of_nat i)) es) @ '';'' @ eol)\<rparr>) })"

text \<open>
  \<open>decompile_method\<close> takes the last two characters off again; a text shorter than that is
  undefined. The text comes with the line found and the static variables as they are left.
\<close>

definition decompile_method ::
  "nat \<Rightarrow> servtab \<Rightarrow> buf \<Rightarrow> object \<Rightarrow> cmethod \<Rightarrow> int \<Rightarrow> int \<Rightarrow> int \<Rightarrow> int \<Rightarrow> int \<Rightarrow> dstate \<Rightarrow>
     (buf \<times> int \<times> dstate) option" where
  "decompile_method fuel T b ob m opt_lineno opt_brackets opt_indent indent_from opt_find_pc st = do {
     let st = st\<lparr>d_ptr := 0, d_sp := 0, d_number := opt_lineno \<noteq> 0, d_by := opt_indent,
       d_brackets := opt_brackets \<noteq> 0, d_line := 1, d_found := 1, d_find := opt_find_pc,
       d_indent := indent_from, d_buf := b\<rparr>;
     st \<leftarrow> decompile_local_vars ob m st;
     st \<leftarrow> decompile_ehandler m st;
     st \<leftarrow> decompile_stmts fuel T ob m 0 st;
     case d_buf st of
       None \<Rightarrow> Some (None, d_found st, st)
     | Some s \<Rightarrow>
         if length s < 2 then None
         else Some (Some (take (length s - 2) s), d_found st, st) }"

definition decompile_parents :: "object \<Rightarrow> string option" where
  "decompile_parents ob =
     (if o_parents ob = [] then Some []
      else do {
        qs \<leftarrow> mapM as_obj (o_parents ob);
        Some (''  parents '' @ commas (map (\<lambda>q. ''#'' @ num_text (sint (oid q))) qs) @ '';'' @
          eol @ eol) })"

fun type_text :: "type_spec \<Rightarrow> string" where
  "type_text T_STR = ''  str  ''"
| "type_text T_NUM = ''  num  ''"
| "type_text T_OBJ = ''  obj  ''"
| "type_text T_LIST = ''  list ''"
| "type_text T_MAP = ''  map  ''"
| "type_text T_ERR = ''  err  ''"
| "type_text T_PC = []"

definition decompile_global_vars :: "servtab \<Rightarrow> object \<Rightarrow> string option" where
  "decompile_global_vars T ob =
     (case o_vars ob of
        None \<Rightarrow> Some []
      | Some h \<Rightarrow> do {
          ts \<leftarrow> mapM (\<lambda>v. do {
            s \<leftarrow> sym_str ob (vd_name v);
            t \<leftarrow> var_tostring T True (vd_value v);
            Some (type_text (vtype (vd_value v)) @ s @ '' = '' @ t @ '';'' @ eol) }) (hentries h);
          Some (concat ts @ eol) })"

definition decompile_verbs :: "object \<Rightarrow> string option" where
  "decompile_verbs ob = do {
     ts \<leftarrow> mapM (\<lambda>v. do {
       s \<leftarrow> sym_str ob (vb_verb v);
       p \<leftarrow> (if 0 \<le> vb_prep v
             then map_option (\<lambda>p. '' : '' @ quote_mark @ p @ quote_mark) (sym_str ob (vb_prep v))
             else Some []);
       t \<leftarrow> sym_str ob (vb_method v);
       Some (''  verb '' @ quote_mark @ s @ quote_mark @ p @ '' = '' @ t @ '';'' @ eol) }) (o_verbs ob);
     Some (concat ts @ eol) }"

fun decompile_method_list ::
  "nat \<Rightarrow> servtab \<Rightarrow> object \<Rightarrow> cmethod list \<Rightarrow> string \<Rightarrow> dstate \<Rightarrow> (string \<times> dstate) option" where
  "decompile_method_list fuel T ob [] s st = Some (s, st)"
| "decompile_method_list fuel T ob (m # ms) s st = do {
     name \<leftarrow> sym_str ob (m_name m);
     (b, _, st) \<leftarrow> decompile_method fuel T
       (Some (s @ (if m_blocked m then ''  blocked method '' else ''  method '') @ name @ eol))
       ob m 0 0 2 4 0 st;
     s \<leftarrow> b;
     decompile_method_list fuel T ob ms (s @ eol @ ''  endmethod'' @ eol @ eol) st }"

definition decompile_methods ::
  "nat \<Rightarrow> servtab \<Rightarrow> object \<Rightarrow> string \<Rightarrow> dstate \<Rightarrow> (string \<times> dstate) option" where
  "decompile_methods fuel T ob s st =
     (case o_methods ob of
        None \<Rightarrow> Some (s, st)
      | Some h \<Rightarrow> decompile_method_list fuel T ob (hentries h) s st)"

definition decompile_object ::
  "nat \<Rightarrow> servtab \<Rightarrow> object \<Rightarrow> dstate \<Rightarrow> (string \<times> dstate) option" where
  "decompile_object fuel T ob st = do {
     ps \<leftarrow> decompile_parents ob;
     vs \<leftarrow> decompile_global_vars T ob;
     bs \<leftarrow> decompile_verbs ob;
     (s, st) \<leftarrow> decompile_methods fuel T ob
       (''object #'' @ num_text (sint (oid (o_id ob))) @ eol @ ps @ vs @ bs) st;
     Some (s @ ''endobject'' @ eol @ eol, st) }"

end
