(* ===== verification/Machine.thy ===== *)
theory Machine
  imports MethodSearch Wire DbSize Decode
begin

text \<open>
  The state of the interpreter (\<open>execute.h\<close>, \<open>execute.c\<close>) and its primitive operations: the
  stack, raising errors, and sending messages (\<open>message.c\<close>). The stack is a list, its bottom
  first; the local variables are at the bottom. The static variables of the server are the
  fields of one record, \<open>world\<close>, that every operation takes and returns.

  What the code asks of its surroundings is in the record \<open>env\<close>: the configuration, the clock,
  the random numbers, whether the network took a packet, whether a reference count is one, what
  the arrays of the unparser still hold from its last call (\<open>e_statics\<close>). The
  answers may differ from call to call, so they are functions of a count that \<open>world\<close> keeps.
\<close>

section \<open>execute.h: events\<close>

record timeval =
  tv_sec :: int
  tv_usec :: int

definition timer_less :: "timeval \<Rightarrow> timeval \<Rightarrow> bool" where
  "timer_less a b \<longleftrightarrow>
     (if tv_sec a = tv_sec b then tv_usec a < tv_usec b else tv_sec a < tv_sec b)"

definition timer_sub :: "timeval \<Rightarrow> timeval \<Rightarrow> timeval" where
  "timer_sub t1 t2 =
     (let s = tv_sec t1 - tv_sec t2; u = tv_usec t1 - tv_usec t2
      in if u < 0 then \<lparr>tv_sec = s - 1, tv_usec = u + 1000000\<rparr> else \<lparr>tv_sec = s, tv_usec = u\<rparr>)"

definition timer_addmsec :: "timeval \<Rightarrow> int \<Rightarrow> timeval" where
  "timer_addmsec t msec =
     (let s = tv_sec t + c_div msec 1000; u = tv_usec t + c_mod msec 1000 * 1000
      in if 1000000 < u then \<lparr>tv_sec = s + 1, tv_usec = u - 1000000\<rparr> else \<lparr>tv_sec = s, tv_usec = u\<rparr>)"

datatype blocked = BL_MESSAGE | BL_LOCK | BL_TIMER | BL_SYS_MESSAGE | BL_DEAD

fun blocked_num :: "blocked \<Rightarrow> int" where
  "blocked_num BL_MESSAGE = 0" | "blocked_num BL_LOCK = 1" | "blocked_num BL_TIMER = 2"
| "blocked_num BL_SYS_MESSAGE = 3" | "blocked_num BL_DEAD = 4"

text \<open>\<open>on\<close> is the object as it was when the method was called; its symbols are what is read of it.\<close>

record event =
  ev_msgid :: i32
  ev_age :: i32
  ev_ticks :: i32
  ev_player :: objid
  ev_this :: objid
  ev_on :: object
  ev_caller :: objid
  ev_args :: "var list"
  ev_m :: cmethod
  ev_blocked :: blocked
  ev_timeout :: timeval
  ev_bmsgid :: i32
  ev_bobj :: objid
  ev_msg :: "string option"
  ev_retry_at :: timeval
  ev_retry_int :: i32
  ev_lock :: string
  ev_pc :: int
  ev_stack :: "var list"
  ev_nvars :: nat
  ev_last :: int

section \<open>The state of the server\<close>

datatype ex_state = RUNNING | STOPPED | HALTED | RAISED | BLOCKED

text \<open>What leaves the interpreter: text for players, packets, the log, and requests to the server.\<close>

datatype outp =
  Tell i32 string bool | TellFd int string bool | Yo int string | Log string
| Disconnect i32 | DisconnectFd i32 | SetParse i32 i32 | Sync | Shutdown

record world =
  w_db :: db
  w_frame :: event
  w_this :: "i32 option"
  w_state :: ex_state
  w_retval :: var
  w_nargs :: int
  w_msgs :: "message list"
  w_events :: "event list"
  w_next :: i32
  w_count :: nat
  w_out :: "outp list"

record env =
  e_fuel :: nat
  e_same :: "vmap \<Rightarrow> vmap \<Rightarrow> bool"
  e_servers :: servtab
  e_server_list :: "var list"
  e_max_age :: int
  e_max_ticks :: int
  e_statics :: "world \<Rightarrow> dstate"
  e_time :: "nat \<Rightarrow> timeval"
  e_down :: "nat \<Rightarrow> bool"
  e_ref1 :: "nat \<Rightarrow> bool"
  e_moved :: "nat \<Rightarrow> bool"
  e_random :: "nat \<Rightarrow> nat"
  e_qsort :: "(var \<Rightarrow> var \<Rightarrow> int) \<Rightarrow> var list \<Rightarrow> var list"
  e_crypt :: "string \<Rightarrow> string \<Rightarrow> string"
  e_ctime :: "int \<Rightarrow> string"
  e_files :: "string \<Rightarrow> string list option"
  e_connect :: "nat \<Rightarrow> int"
  e_status :: "int \<Rightarrow> string"
  e_sleep_refresh :: int
  e_external :: "int \<Rightarrow> world \<Rightarrow> world option"

definition STACK_SIZE :: nat where
  "STACK_SIZE = 128"

definition MSG_TIMEOUT :: int where
  "MSG_TIMEOUT = 30"

definition MSG_RETRY :: i32 where
  "MSG_RETRY = 1500"

abbreviation set_frame :: "(event \<Rightarrow> event) \<Rightarrow> world \<Rightarrow> world" where
  "set_frame f w \<equiv> w\<lparr>w_frame := f (w_frame w)\<rparr>"

abbreviation stack :: "world \<Rightarrow> var list" where
  "stack w \<equiv> ev_stack (w_frame w)"

abbreviation set_stack :: "var list \<Rightarrow> world \<Rightarrow> world" where
  "set_stack s w \<equiv> set_frame (\<lambda>f. f\<lparr>ev_stack := s\<rparr>) w"

abbreviation out :: "outp \<Rightarrow> world \<Rightarrow> world" where
  "out x w \<equiv> w\<lparr>w_out := w_out w @ [x]\<rparr>"

abbreviation ask :: "world \<Rightarrow> world" where
  "ask w \<equiv> w\<lparr>w_count := w_count w + 1\<rparr>"

definition this_obj :: "world \<Rightarrow> object option" where
  "this_obj w = Option.bind (w_this w) (w_db w)"

section \<open>message.c: sending\<close>

definition msg_add :: "message \<Rightarrow> world \<Rightarrow> world" where
  "msg_add m w = w\<lparr>w_msgs := w_msgs w @ [m]\<rparr>"

definition event_add :: "event \<Rightarrow> world \<Rightarrow> world" where
  "event_add e w = w\<lparr>w_events := w_events w @ [e]\<rparr>"

text \<open>
  \<open>send_message\<close> for the message \<open>m\<close>, whose \<open>ms_msgid\<close> is negative for an original message, and
  the event \<open>e\<close> that waits for the reply, if any.
\<close>

definition send_message :: "env \<Rightarrow> message \<Rightarrow> event option \<Rightarrow> world \<Rightarrow> (world \<times> err) option" where
  "send_message E m e w =
     (if sint (ms_msgid m) < 0 \<and> e_max_age E \<le> sint (ms_age m) \<and> 0 < e_max_age E
      then Some (w, E_MAXREC)
      else do {
        let (msgid, w1) = (if sint (ms_msgid m) < 0 then (w_next w, w\<lparr>w_next := w_next w + 1\<rparr>)
                           else (ms_msgid m, w));
        let m' = m\<lparr>ms_msgid := msgid\<rparr>;
        (w2, text, down) \<leftarrow>
          (if server (ms_to m) = 0 then Some (msg_add m' w1, None, False)
           else do {
             line \<leftarrow> compose_message (e_servers E) m';
             Some (ask (out (Yo (sint (server (ms_to m))) line) w1), Some line, e_down E (w_count w1)) });
        if down then Some (w2, E_SERVERDN)
        else Some (case e of
            None \<Rightarrow> w2
          | Some ev \<Rightarrow> event_add (ev\<lparr>ev_blocked := BL_MESSAGE, ev_bmsgid := msgid, ev_bobj := ms_to m,
                ev_msg := (case text of Some line \<Rightarrow> Some line | None \<Rightarrow> ev_msg ev)\<rparr>) w2, E_NONE) })"

section \<open>execute.c: raising\<close>

text \<open>The line of the instruction at \<open>pc\<close>, from a listing that is not kept.\<close>

definition find_lineno :: "env \<Rightarrow> object \<Rightarrow> cmethod \<Rightarrow> int \<Rightarrow> world \<Rightarrow> int option" where
  "find_lineno E ob m pc w =
     map_option (\<lambda>(_, line, _). line)
       (decompile_method (e_fuel E) (e_servers E) None ob m 0 0 0 0 pc (e_statics E w))"

definition add_traceback :: "env \<Rightarrow> string \<Rightarrow> world \<Rightarrow> string option" where
  "add_traceback E st w = do {
     let f = w_frame w;
     name \<leftarrow> sym_str (ev_on f) (m_name (ev_m f));
     ob \<leftarrow> obj_text (e_servers E) (o_id (ev_on f));
     line \<leftarrow> find_lineno E (ev_on f) (ev_m f) (ev_pc f) w;
     Some (st @ ''method '' @ [CHR 0x22] @ name @ [CHR 0x22] @ '' on '' @ ob @ '', line '' @
       num_text line) }"

definition add_traceback_header :: "env \<Rightarrow> string \<Rightarrow> i32 \<Rightarrow> world \<Rightarrow> string option" where
  "add_traceback_header E st e w =
     add_traceback E (st @ ''ERROR:  '' @ err_id2desc e @ [CHR 0x0D, CHR 0x0A] @ ''raised in '') w"

definition make_raise_args :: "err \<Rightarrow> var list" where
  "make_raise_args e = [VERR (err_code e), VSTRs []]"

text \<open>The message of a running method to its caller.\<close>

definition frame_message :: "sys_sym \<Rightarrow> var list \<Rightarrow> world \<Rightarrow> message" where
  "frame_message s args w = (let f = w_frame w in
     \<lparr>ms_msgid = ev_msgid f, ms_age = ev_age f, ms_ticks = ev_ticks f, ms_player = ev_player f,
      ms_from = ev_this f, ms_to = ev_caller f, ms_text = sym_sys s, ms_args = args,
      ms_on = ev_caller f\<rparr>)"

definition send_raise :: "env \<Rightarrow> var list \<Rightarrow> world \<Rightarrow> world option" where
  "send_raise E args w = map_option fst (send_message E (frame_message RAISE args w) None w)"

text \<open>\<open>raise\<close> after its push; the error is a number that indexes the table of handlers.\<close>

definition raise_core :: "env \<Rightarrow> i32 \<Rightarrow> world \<Rightarrow> world option" where
  "raise_core E e w =
     (if e = 0 then Some w
      else do {
        h \<leftarrow> nth_opt (m_ehandler (ev_m (w_frame w))) (sint e);
        case h of
          EH_DEFAULT \<Rightarrow> do {
            text \<leftarrow> add_traceback_header E [] e w;
            w' \<leftarrow> send_raise E [VERR e, VSTRs text] w;
            Some (w'\<lparr>w_state := RAISED\<rparr>) }
        | _ \<Rightarrow> Some w })"

section \<open>execute.c: the stack\<close>

definition push :: "env \<Rightarrow> var \<Rightarrow> world \<Rightarrow> world option" where
  "push E v w =
     (if STACK_SIZE \<le> length (stack w) then raise_core E (err_code E_STACKOVR) w
      else Some (set_stack (stack w @ [v]) w))"

definition raise_code :: "env \<Rightarrow> i32 \<Rightarrow> world \<Rightarrow> world option" where
  "raise_code E e w = do {
     w1 \<leftarrow> (if e \<noteq> err_code E_STACKOVR then push E (VERR e) w else Some w);
     raise_core E e w1 }"

abbreviation raise :: "env \<Rightarrow> err \<Rightarrow> world \<Rightarrow> world option" where
  "raise E e w \<equiv> raise_code E (err_code e) w"

definition pop :: "env \<Rightarrow> world \<Rightarrow> (var \<times> world) option" where
  "pop E w =
     (if stack w = [] then do { w' \<leftarrow> raise E E_STACKUND w; Some (VNUM 0, w') }
      else Some (last (stack w), set_stack (butlast (stack w)) w))"

definition pushpc :: "env \<Rightarrow> int \<Rightarrow> world \<Rightarrow> world option" where
  "pushpc E i w = push E (VPC (i32_of i)) w"

definition pushn :: "env \<Rightarrow> int \<Rightarrow> world \<Rightarrow> world option" where
  "pushn E i w = push E (VNUM (i32_of i)) w"

fun pop_args_from :: "env \<Rightarrow> nat \<Rightarrow> world \<Rightarrow> (var list \<times> world) option" where
  "pop_args_from E 0 w = Some ([], w)"
| "pop_args_from E (Suc n) w = do {
     (v, w1) \<leftarrow> pop E w;
     (vs, w2) \<leftarrow> pop_args_from E n w1;
     Some (vs @ [v], w2) }"

text \<open>\<open>pop_args\<close>; a negative count is a negative allocation.\<close>

definition pop_args :: "env \<Rightarrow> int \<Rightarrow> world \<Rightarrow> (var list \<times> world) option" where
  "pop_args E n w = (if n < 0 then None else pop_args_from E (nat n) w)"

text \<open>
  \<open>count_args\<close> walks down from the top, moving each value one place down, until it meets the
  marker. The list here has the top first.
\<close>

definition ARGSTART_MARK :: var where
  "ARGSTART_MARK = VPC (- 405)"

fun count_shift :: "nat \<Rightarrow> var \<Rightarrow> var list \<Rightarrow> var list \<times> nat option" where
  "count_shift i pval [] = ([], None)"
| "count_shift i pval (s # rest) =
     (if s = ARGSTART_MARK then (pval # rest, Some i)
      else (let (r, n) = count_shift (i + 1) s rest in (pval # r, n)))"

definition count_args :: "env \<Rightarrow> world \<Rightarrow> (int \<times> world) option" where
  "count_args E w =
     (case count_shift 0 (VNUM 0) (rev (stack w)) of
        (r, Some i) \<Rightarrow> Some (int i, set_stack (rev (tl r)) w)
      | (r, None) \<Rightarrow> do { w' \<leftarrow> raise E E_STACKUND (set_stack (rev r) w); Some (-1, w') })"

section \<open>execute.c: waiting for a reply\<close>

definition send_message_and_block ::
  "env \<Rightarrow> objid \<Rightarrow> objid \<Rightarrow> string \<Rightarrow> var list \<Rightarrow> objid \<Rightarrow> world \<Rightarrow> world option" where
  "send_message_and_block E from to msg args on w = do {
     let f = w_frame w;
     let now = e_time E (w_count w);
     let w0 = ask w;
     let e = f\<lparr>ev_msg := None, ev_timeout := now\<lparr>tv_sec := tv_sec now + MSG_TIMEOUT\<rparr>,
         ev_retry_int := MSG_RETRY, ev_retry_at := timer_addmsec now (sint MSG_RETRY)\<rparr>;
     (w1, r) \<leftarrow> send_message E \<lparr>ms_msgid = -1, ms_age = ev_age f + 1, ms_ticks = ev_ticks f,
        ms_player = ev_player f, ms_from = from, ms_to = to, ms_text = msg, ms_args = args,
        ms_on = on\<rparr> (Some e) w0;
     if r = E_NONE then Some (w1\<lparr>w_state := BLOCKED\<rparr>) else raise E r w1 }"

section \<open>execute.c: psub\<close>

text \<open>
  \<open>dosub\<close> keeps a pointer to where the text of the variable starts while \<open>var_tostring\<close> may
  move the string: capitalising through the stale pointer is \<open>None\<close>.
\<close>

definition dosub :: "env \<Rightarrow> string \<Rightarrow> string \<Rightarrow> world \<Rightarrow> (string \<times> world) option" where
  "dosub E r vnm w = do {
     let f = w_frame w;
     found \<leftarrow> var_find_local_by_name (ev_on f) (m_vars (ev_m f)) vnm 0;
     case found of
       None \<Rightarrow> Some (r, w)
     | Some varno \<Rightarrow> do {
         v \<leftarrow> nth_opt (ev_stack f) (int varno);
         t \<leftarrow> var_tostring (e_servers E) False v;
         if vnm \<noteq> [] \<and> c_isupper (hd vnm) then
           (if e_moved E (w_count w) then None
            else Some (case t of
                c # t' \<Rightarrow> (if c_islower c then r @ c_toupper c # t' else r @ t, ask w)
              | [] \<Rightarrow> (r, ask w)))
         else Some (r @ t, w) } }"

text \<open>The three states of \<open>psub\<close>; \<open>acc\<close> is the name of the variable read so far.\<close>

datatype psub_state = PS_text | PS_percent | PS_name string

fun psub_loop :: "env \<Rightarrow> psub_state \<Rightarrow> string \<Rightarrow> string \<Rightarrow> world \<Rightarrow> (string \<times> world) option" where
  "psub_loop E (PS_name acc) r [] w = dosub E r acc w"
| "psub_loop E PS_text r [] w = Some (r, w)"
| "psub_loop E PS_percent r [] w = Some (r, w)"
| "psub_loop E PS_text r (c # s) w =
     (if c = CHR ''%'' then psub_loop E PS_percent r s w else psub_loop E PS_text (r @ [c]) s w)"
| "psub_loop E PS_percent r (c # s) w =
     (if c = CHR ''%'' then psub_loop E PS_text (r @ [c]) s w else psub_loop E (PS_name [c]) r s w)"
| "psub_loop E (PS_name acc) r (c # s) w =
     (if c = CHR ''%'' then do { (r', w') \<leftarrow> dosub E r acc w; psub_loop E PS_text r' s w' }
      else if \<not> c_isalnum c then do {
        (r', w') \<leftarrow> dosub E r acc w; psub_loop E PS_text (r' @ [c]) s w' }
      else psub_loop E (PS_name (acc @ [c])) r s w)"

definition psub :: "env \<Rightarrow> string \<Rightarrow> world \<Rightarrow> (string \<times> world) option" where
  "psub E s w = psub_loop E PS_text [] s w"

section \<open>execute.c: locks\<close>

definition clear_locks :: "i32 \<Rightarrow> world \<Rightarrow> world" where
  "clear_locks msgid w =
     (case this_obj w of
        None \<Rightarrow> w
      | Some ob \<Rightarrow> w\<lparr>w_db := (w_db w)(the (w_this w) :=
            Some (ob\<lparr>o_locks := filter (\<lambda>l. added_by l \<noteq> msgid) (o_locks ob)\<rparr>))\<rparr>)"

text \<open>\<open>find_lock\<close> of \<open>message.c\<close>; the object must exist.\<close>

fun find_lock_in :: "lock list \<Rightarrow> string \<Rightarrow> i32 \<Rightarrow> bool" where
  "find_lock_in [] name msgid = False"
| "find_lock_in (l # ls) name msgid =
     (if c_strcasecmp (lk_name l) name = 0 then added_by l \<noteq> msgid
      else find_lock_in ls name msgid)"

definition find_lock :: "object option \<Rightarrow> string \<Rightarrow> i32 \<Rightarrow> bool option" where
  "find_lock ob name msgid = map_option (\<lambda>q. find_lock_in (o_locks q) name msgid) ob"

end
