(* ===== verification/Ops1.thy ===== *)
theory Ops1
  imports Machine
begin

text \<open>
  The opcodes of \<open>opcodes1.c\<close>: arithmetic, comparison, indexing, constants, messages, control
  flow, and access to variables. An opcode is a function from the state to the state; \<open>None\<close> is
  undefined behaviour, or a loop that never ends. Values are popped in the order of the C code;
  a pop from the empty stack raises an error, returns 0, and the opcode goes on.
\<close>

type_synonym opfun = "env \<Rightarrow> world \<Rightarrow> world option"

section \<open>Access to the code and the frame\<close>

definition code_at :: "world \<Rightarrow> int \<Rightarrow> int option" where
  "code_at w i = map_option sint (nth_opt (m_code (ev_m (w_frame w))) i)"

abbreviation pc :: "world \<Rightarrow> int" where
  "pc w \<equiv> ev_pc (w_frame w)"

abbreviation set_pc :: "int \<Rightarrow> world \<Rightarrow> world" where
  "set_pc n w \<equiv> set_frame (\<lambda>f. f\<lparr>ev_pc := n\<rparr>) w"

text \<open>\<open>frame.m->code[frame.pc++]\<close>\<close>

definition next_arg :: "world \<Rightarrow> (int \<times> world) option" where
  "next_arg w = do { n \<leftarrow> code_at w (pc w); Some (n, set_pc (pc w + 1) w) }"

abbreviation frame_sym :: "world \<Rightarrow> int \<Rightarrow> cstr option" where
  "frame_sym w n \<equiv> sym_get (ev_on (w_frame w)) n"

section \<open>Arithmetic\<close>

text \<open>
  The two ways \<open>op_add\<close> joins strings. \<open>string_cat\<close> in place finds the end of the left string by
  its NUL and cuts the result at the sum of the lengths; the copy writes the right string at
  the length of the left one.
\<close>

definition cat_own :: "cstr \<Rightarrow> cstr \<Rightarrow> cstr" where
  "cat_own l r = (let n = slen l + length (sdata r)
     in \<lparr>slen = n, sdata = take n (sdata l @ sdata r)\<rparr>)"

definition cat_copy :: "cstr \<Rightarrow> cstr \<Rightarrow> cstr option" where
  "cat_copy l r =
     (if length (sdata l) < slen l then None
      else Some \<lparr>slen = slen l + slen r, sdata = take (slen l) (sdata l) @ sdata r\<rparr>)"

definition op_add :: opfun where
  "op_add E w = do {
     (right, w) \<leftarrow> pop E w;
     (left, w) \<leftarrow> pop E w;
     case left of
       VLIST l \<Rightarrow> do { l' \<leftarrow> list_setadd (e_same E) l right; push E (VLIST l') w }
     | VNUM a \<Rightarrow> (case right of VNUM b \<Rightarrow> push E (VNUM (a + b)) w | _ \<Rightarrow> raise E E_TYPE w)
     | VSTR a \<Rightarrow>
         (case right of
            VSTR b \<Rightarrow>
              if e_ref1 E (w_count w) then push E (VSTR (cat_own a b)) (ask w)
              else do { c \<leftarrow> cat_copy a b; push E (VSTR c) (ask w) }
          | _ \<Rightarrow> raise E E_TYPE w)
     | _ \<Rightarrow> raise E E_TYPE w }"

definition op_sub :: opfun where
  "op_sub E w = do {
     (right, w) \<leftarrow> pop E w;
     (left, w) \<leftarrow> pop E w;
     case left of
       VLIST l \<Rightarrow> do { l' \<leftarrow> list_setremove (e_same E) l right; push E (VLIST l') w }
     | VNUM a \<Rightarrow> (case right of VNUM b \<Rightarrow> push E (VNUM (a - b)) w | _ \<Rightarrow> raise E E_TYPE w)
     | _ \<Rightarrow> if vtype left \<noteq> vtype right then raise E E_TYPE w else raise E E_ARGTYPE w }"

definition num_op :: "(i32 \<Rightarrow> i32 \<Rightarrow> env \<Rightarrow> world \<Rightarrow> world option) \<Rightarrow> opfun" where
  "num_op f E w = do {
     (right, w) \<leftarrow> pop E w;
     (left, w) \<leftarrow> pop E w;
     case (left, right) of
       (VNUM a, VNUM b) \<Rightarrow> f a b E w
     | _ \<Rightarrow> raise E E_TYPE w }"

definition op_mul :: opfun where
  "op_mul = num_op (\<lambda>a b E w. push E (VNUM (a * b)) w)"

text \<open>\<open>INT_MIN / -1\<close> and \<open>INT_MIN % -1\<close> have no value in \<open>int\<close> and trap.\<close>

definition div_traps :: "i32 \<Rightarrow> i32 \<Rightarrow> bool" where
  "div_traps a b \<longleftrightarrow> sint a = - (2 ^ 31) \<and> sint b = -1"

definition op_div :: opfun where
  "op_div = num_op (\<lambda>a b E w.
     if b = 0 then raise E E_DIV w
     else if div_traps a b then None
     else push E (VNUMi (c_div (sint a) (sint b))) w)"

definition op_mod :: opfun where
  "op_mod = num_op (\<lambda>a b E w.
     if b = 0 then raise E E_DIV w
     else if div_traps a b then None
     else push E (VNUMi (c_mod (sint a) (sint b))) w)"

definition op_negate :: opfun where
  "op_negate E w = do {
     (arg, w) \<leftarrow> pop E w;
     case arg of VNUM a \<Rightarrow> push E (VNUM (- a)) w | _ \<Rightarrow> raise E E_TYPE w }"

section \<open>Truth and comparison\<close>

abbreviation bool_num :: "bool \<Rightarrow> var" where
  "bool_num b \<equiv> VNUM (if b then 1 else 0)"

definition op_and :: opfun where
  "op_and E w = do {
     (left, w) \<leftarrow> pop E w;
     if is_true left then Some (set_pc (pc w + 1) w)
     else do {
       w \<leftarrow> push E (VNUM 0) w;
       n \<leftarrow> code_at w (pc w);
       Some (set_pc n w) } }"

definition op_or :: opfun where
  "op_or E w = do {
     (left, w) \<leftarrow> pop E w;
     if \<not> is_true left then Some (set_pc (pc w + 1) w)
     else do {
       w \<leftarrow> push E (VNUM 1) w;
       n \<leftarrow> code_at w (pc w);
       Some (set_pc n w) } }"

definition op_not :: opfun where
  "op_not E w = do { (arg, w) \<leftarrow> pop E w; push E (bool_num (\<not> is_true arg)) w }"

definition rel_op :: "(int \<Rightarrow> bool) \<Rightarrow> opfun" where
  "rel_op rel E w = do {
     (right, w) \<leftarrow> pop E w;
     (left, w) \<leftarrow> pop E w;
     if vtype left \<noteq> vtype right \<or> (vtype left \<noteq> T_STR \<and> vtype left \<noteq> T_NUM)
     then raise E E_TYPE w
     else do { c \<leftarrow> var_compare left right; push E (bool_num (rel c)) w } }"

definition op_lt :: opfun where "op_lt = rel_op (\<lambda>c. c < 0)"
definition op_gt :: opfun where "op_gt = rel_op (\<lambda>c. 0 < c)"
definition op_le :: opfun where "op_le = rel_op (\<lambda>c. c \<le> 0)"
definition op_ge :: opfun where "op_ge = rel_op (\<lambda>c. 0 \<le> c)"

definition eq_op :: "(bool \<Rightarrow> bool) \<Rightarrow> opfun" where
  "eq_op f E w = do {
     (right, w) \<leftarrow> pop E w;
     (left, w) \<leftarrow> pop E w;
     b \<leftarrow> var_eq (e_same E) left right;
     push E (bool_num (f b)) w }"

definition op_eq :: opfun where "op_eq = eq_op (\<lambda>b. b)"
definition op_ne :: opfun where "op_ne = eq_op (\<lambda>b. \<not> b)"

section \<open>Indexing\<close>

definition op_index :: opfun where
  "op_index E w = do {
     (i, w) \<leftarrow> pop E w;
     (base, w) \<leftarrow> pop E w;
     case base of
       VSTR s \<Rightarrow>
         (case i of
            VNUM n \<Rightarrow>
              if sint n < 1 \<or> int (slen s) < sint n then raise E E_RANGE w
              else do { c \<leftarrow> nth_opt (sdata s) (sint n - 1); push E (VSTRs [c]) w }
          | _ \<Rightarrow> raise E E_TYPE w)
     | VLIST l \<Rightarrow>
         (case i of
            VNUM n \<Rightarrow>
              if sint n < 1 \<or> int (length l) < sint n then raise E E_RANGE w
              else push E (l ! nat (sint n - 1)) w
          | _ \<Rightarrow> raise E E_TYPE w)
     | VMAP m \<Rightarrow> do {
         r \<leftarrow> map_find (e_same E) m i;
         case r of None \<Rightarrow> raise E E_MAPNF w | Some v \<Rightarrow> push E v w }
     | _ \<Rightarrow> raise E E_TYPE w }"

text \<open>\<open>strncpy\<close> of \<open>len\<close> characters from position \<open>i\<close>: it stops at the NUL.\<close>

definition substr :: "cstr \<Rightarrow> nat \<Rightarrow> nat \<Rightarrow> cstr" where
  "substr s i len = \<lparr>slen = len, sdata = take len (drop i (sdata s))\<rparr>"

definition op_subset :: opfun where
  "op_subset E w = do {
     (right, w) \<leftarrow> pop E w;
     (left, w) \<leftarrow> pop E w;
     (base, w) \<leftarrow> pop E w;
     let len = (case base of VSTR s \<Rightarrow> int (slen s) | VLIST l \<Rightarrow> int (length l) | _ \<Rightarrow> 0);
     case (left, right) of
       (VNUM a, VNUM b) \<Rightarrow> do {
         let lo = sint a;
         let hi = (if sint b < 1 then len else sint b);
         if hi < lo \<or> lo < 1 \<or> len < lo \<or> hi < 1 \<or> len < hi then raise E E_RANGE w
         else (case base of
             VSTR s \<Rightarrow> push E (VSTR (substr s (nat (lo - 1)) (nat (hi - lo + 1)))) w
           | VLIST l \<Rightarrow> do { l' \<leftarrow> list_subset l lo hi; push E (VLIST l') w }
           | _ \<Rightarrow> raise E E_TYPE w) }
     | _ \<Rightarrow> raise E E_TYPE w }"

definition op_lsubset :: opfun where
  "op_lsubset E w = do {
     (right, w) \<leftarrow> pop E w;
     w \<leftarrow> push E (VNUM 1) w;
     w \<leftarrow> push E right w;
     op_subset E w }"

definition op_rsubset :: opfun where
  "op_rsubset E w = do {
     (left, w) \<leftarrow> pop E w;
     w \<leftarrow> push E left w;
     w \<leftarrow> push E (VNUM (-1)) w;
     op_subset E w }"

fun push_all :: "env \<Rightarrow> var list \<Rightarrow> world \<Rightarrow> world option" where
  "push_all E [] w = Some w"
| "push_all E (v # vs) w = do { w \<leftarrow> push E v w; push_all E vs w }"

definition op_splice :: opfun where
  "op_splice E w = do {
     (l, w) \<leftarrow> pop E w;
     case l of VLIST vs \<Rightarrow> push_all E vs w | _ \<Rightarrow> raise E E_TYPE w }"

section \<open>Constants\<close>

definition op_return :: opfun where
  "op_return E w = do { (v, w) \<leftarrow> pop E w; Some (w\<lparr>w_retval := v, w_state := STOPPED\<rparr>) }"

definition op_pop :: opfun where
  "op_pop E w = do { (v, w) \<leftarrow> pop E w; Some w }"

definition op_numpush :: opfun where
  "op_numpush E w = do { (n, w) \<leftarrow> next_arg w; push E (VNUMi n) w }"

definition op_strpush :: opfun where
  "op_strpush E w = do { (n, w) \<leftarrow> next_arg w; s \<leftarrow> frame_sym w n; push E (VSTR s) w }"

definition op_objpush :: opfun where
  "op_objpush E w = do {
     (i, w) \<leftarrow> next_arg w;
     (s, w) \<leftarrow> next_arg w;
     push E (VOBJ \<lparr>server = word_of_int s, oid = i32_of i\<rparr>) w }"

definition op_listpush :: opfun where
  "op_listpush E w = do {
     (n, w) \<leftarrow> count_args E w;
     (vs, w) \<leftarrow> pop_args E n w;
     push E (VLIST vs) w }"

fun pop_pairs :: "env \<Rightarrow> nat \<Rightarrow> vmap \<Rightarrow> world \<Rightarrow> (vmap \<times> world) option" where
  "pop_pairs E 0 m w = Some (m, w)"
| "pop_pairs E (Suc n) m w = do {
     (to, w) \<leftarrow> pop E w;
     (from, w) \<leftarrow> pop E w;
     m' \<leftarrow> map_add True (e_same E) m from to;
     pop_pairs E n m' w }"

definition op_mappush :: opfun where
  "op_mappush E w = do {
     (n, w) \<leftarrow> next_arg w;
     (m, w) \<leftarrow> pop_pairs E (nat n) (map_new n) w;
     push E (VMAP m) w }"

definition op_errpush :: opfun where
  "op_errpush E w = do { (n, w) \<leftarrow> next_arg w; push E (VERR (i32_of n)) w }"

section \<open>Messages\<close>

definition op_message :: opfun where
  "op_message E w = do {
     (n, w) \<leftarrow> count_args E w;
     (args, w) \<leftarrow> pop_args E n w;
     (dest, w) \<leftarrow> pop E w;
     case dest of
       VOBJ to \<Rightarrow> do {
         (k, w') \<leftarrow> next_arg w;
         msg \<leftarrow> frame_sym w k;
         send_message_and_block E (ev_this (w_frame w')) to (sdata msg) args to w' }
     | _ \<Rightarrow> raise E E_INVIND (set_pc (pc w + 1) w) }"

definition op_message_expr :: opfun where
  "op_message_expr E w = do {
     (n, w) \<leftarrow> count_args E w;
     (args, w) \<leftarrow> pop_args E n w;
     (msg, w) \<leftarrow> pop E w;
     (dest, w) \<leftarrow> pop E w;
     case dest of
       VOBJ to \<Rightarrow>
         (case msg of
            VSTR s \<Rightarrow> send_message_and_block E (ev_this (w_frame w)) to (sdata s) args to w
          | _ \<Rightarrow> raise E E_TYPE w)
     | _ \<Rightarrow> raise E E_INVIND w }"

section \<open>Control flow\<close>

definition op_if :: opfun where
  "op_if E w = do {
     (cond, w) \<leftarrow> pop E w;
     if is_true cond then do {
       e \<leftarrow> code_at w (pc w + 1);
       w \<leftarrow> pushn E e w;
       Some (set_pc (pc w + 2) w) }
     else do {
       n \<leftarrow> code_at w (pc w);
       e \<leftarrow> code_at w (pc w + 1);
       if n \<noteq> 0 then do { w \<leftarrow> pushn E e w; Some (set_pc n w) }
       else Some (set_pc e w) } }"

definition op_null :: opfun where
  "op_null E w = Some w"

definition op_elseif :: opfun where
  "op_elseif E w = do {
     (cond, w) \<leftarrow> pop E w;
     if is_true cond then Some (set_pc (pc w + 1) w)
     else do { n \<leftarrow> code_at w (pc w); Some (set_pc n w) } }"

definition assign_local :: "int \<Rightarrow> var \<Rightarrow> world \<Rightarrow> world option" where
  "assign_local n v w = do { s \<leftarrow> var_assign_local (stack w) n v; Some (set_stack s w) }"

definition op_for :: opfun where
  "op_for E w = do {
     (idx, w) \<leftarrow> pop E w;
     (l, w) \<leftarrow> pop E w;
     let l' = (case l of VMAP m \<Rightarrow> VLIST (map_keys m) | VSTR s \<Rightarrow> VLIST (string_list s) | _ \<Rightarrow> l);
     case l' of
       VLIST vs \<Rightarrow> do {
         i \<leftarrow> var_num_word idx;
         if int (length vs) \<le> sint i then do {
           n \<leftarrow> code_at w (pc w + 1);
           Some (set_pc n w) }
         else do {
           v \<leftarrow> nth_opt vs (sint i);
           n \<leftarrow> code_at w (pc w);
           w \<leftarrow> assign_local n v w;
           w \<leftarrow> push E (VLIST vs) w;
           w \<leftarrow> push E (case idx of VERR e \<Rightarrow> VERR (e + 1) | VPC p \<Rightarrow> VPC (p + 1) | _ \<Rightarrow> VNUM (i + 1)) w;
           w \<leftarrow> pushpc E (pc w - 1) w;
           Some (set_pc (pc w + 2) w) } }
     | _ \<Rightarrow> raise E E_FOR w }"

definition op_forrng :: opfun where
  "op_forrng E w = do {
     (upper, w) \<leftarrow> pop E w;
     (v, w) \<leftarrow> pop E w;
     case (v, upper) of
       (VNUM a, VNUM b) \<Rightarrow>
         if sint b < sint a then do { n \<leftarrow> code_at w (pc w + 1); Some (set_pc n w) }
         else do {
           n \<leftarrow> code_at w (pc w);
           w \<leftarrow> assign_local n v w;
           w \<leftarrow> push E (VNUM (a + 1)) w;
           w \<leftarrow> push E upper w;
           w \<leftarrow> pushpc E (pc w - 1) w;
           Some (set_pc (pc w + 2) w) }
     | _ \<Rightarrow> raise E E_TYPE w }"

definition op_pushpc :: opfun where
  "op_pushpc E w = pushpc E (pc w - 1) w"

definition op_argstart :: opfun where
  "op_argstart E w = pushpc E (- O_ARGSTART) w"

definition op_while :: opfun where
  "op_while E w = do {
     (cond, w) \<leftarrow> pop E w;
     if \<not> is_true cond then do {
       (_, w) \<leftarrow> pop E w;
       n \<leftarrow> code_at w (pc w);
       Some (set_pc n w) }
     else Some (set_pc (pc w + 1) w) }"

definition op_do :: opfun where
  "op_do E w = do { (n, w) \<leftarrow> next_arg w; pushpc E n w }"

definition op_dowhile :: opfun where
  "op_dowhile E w = do {
     (cond, w) \<leftarrow> pop E w;
     if is_true cond then do { n \<leftarrow> code_at w (pc w); Some (set_pc n w) }
     else do { (_, w) \<leftarrow> pop E w; Some (set_pc (pc w + 2) w) } }"

text \<open>
  The loops of \<open>op_break\<close> and \<open>op_continue\<close> that pop until an address; the list has the top
  first. On a stack without one they pop, and raise, for ever.
\<close>

fun pop_to_pc :: "var list \<Rightarrow> (int \<times> var list) option" where
  "pop_to_pc [] = None"
| "pop_to_pc (v # r) =
     (case v of VPC p \<Rightarrow> if 0 \<le> sint p then Some (sint p, r) else pop_to_pc r | _ \<Rightarrow> pop_to_pc r)"

fun pop_levels :: "nat \<Rightarrow> var list \<Rightarrow> (int \<times> var list) option" where
  "pop_levels 0 r = None"
| "pop_levels (Suc n) r = do {
     (p, r') \<leftarrow> pop_to_pc r;
     if n = 0 then Some (p, r') else pop_levels n r' }"

definition break_to :: "int \<Rightarrow> world \<Rightarrow> (int \<times> world) option" where
  "break_to lvl w = do {
     (p, r) \<leftarrow> pop_levels (nat lvl) (rev (stack w));
     Some (p, set_stack (rev r) w) }"

text \<open>The search for \<open>WHILE\<close> looks at every word of the code, inline arguments too.\<close>

fun scan_while :: "nat \<Rightarrow> world \<Rightarrow> int \<Rightarrow> int option" where
  "scan_while 0 w i = None"
| "scan_while (Suc n) w i = do {
     c \<leftarrow> code_at w i;
     if c = O_WHILE then Some i else scan_while n w (i + 1) }"

text \<open>
  \<open>op_break\<close>. Leaving a \<open>FOR\<close> it pops the list into \<open>newpc\<close>, and then reads the address of the
  loop from that.
\<close>

definition op_break :: opfun where
  "op_break E w = do {
     (lvl, w) \<leftarrow> next_arg w;
     (p, w) \<leftarrow> break_to lvl w;
     c \<leftarrow> code_at w p;
     if c = O_FOR then do {
       (_, w) \<leftarrow> pop E w;
       (newpc, w) \<leftarrow> pop E w;
       q \<leftarrow> var_num_word newpc;
       n \<leftarrow> code_at w (sint q + 2);
       Some (set_pc n w) }
     else if c = O_FORRNG then do {
       (_, w) \<leftarrow> pop E w;
       (_, w) \<leftarrow> pop E w;
       n \<leftarrow> code_at w (p + 2);
       Some (set_pc n w) }
     else if c = O_DOWHILE then Some (set_pc (p + 3) w)
     else if c = O_PUSHPC then do {
       i \<leftarrow> scan_while (length (m_code (ev_m (w_frame w)))) w p;
       n \<leftarrow> code_at w (i + 1);
       Some (set_pc n w) }
     else Some w }"

definition op_continue :: opfun where
  "op_continue E w = do {
     (lvl, w) \<leftarrow> next_arg w;
     (p, w) \<leftarrow> break_to lvl w;
     c \<leftarrow> code_at w p;
     if c = O_DOWHILE then do {
       w \<leftarrow> pushpc E p w;
       n \<leftarrow> code_at w (p + 2);
       Some (set_pc n w) }
     else Some (set_pc p w) }"

definition op_stop :: opfun where
  "op_stop E w = do {
     (v, w) \<leftarrow> pop E w;
     case v of
       VPC n \<Rightarrow> if sint n < 0 \<and> sint n \<noteq> - O_ARGSTART then Some (w\<lparr>w_state := STOPPED\<rparr>)
                else Some (set_pc (sint n) w)
     | VNUM n \<Rightarrow> if sint n < 0 \<and> sint n \<noteq> - O_ARGSTART then Some (w\<lparr>w_state := STOPPED\<rparr>)
                else Some (set_pc (sint n) w)
     | _ \<Rightarrow> raise E E_INTERNAL (out (Log ''STOP encountered non-num PC'') w) }"

section \<open>Variables\<close>

definition op_asgnlvar :: opfun where
  "op_asgnlvar E w = do {
     (v, w) \<leftarrow> pop E w;
     (n, w) \<leftarrow> next_arg w;
     assign_local n v w }"

definition assign_this :: "env \<Rightarrow> cstr \<Rightarrow> var \<Rightarrow> world \<Rightarrow> (err \<times> world) option" where
  "assign_this E name v w = do {
     ob \<leftarrow> this_obj w;
     (d, e) \<leftarrow> var_assign_global (e_fuel E) (w_db w) ob name v;
     Some (e, w\<lparr>w_db := d\<rparr>) }"

definition op_asgngvar :: opfun where
  "op_asgngvar E w = do {
     (n, w) \<leftarrow> next_arg w;
     (v, w) \<leftarrow> pop E w;
     name \<leftarrow> frame_sym w n;
     (e, w) \<leftarrow> assign_this E name v w;
     w \<leftarrow> raise E e w;
     (_, w) \<leftarrow> pop E w;
     Some w }"

text \<open>\<open>do_asgnindex\<close>: the new value, or none when it raised. \<open>ref1\<close>: the old value is not shared.\<close>

definition do_asgnindex ::
  "env \<Rightarrow> bool \<Rightarrow> var \<Rightarrow> var \<Rightarrow> var \<Rightarrow> world \<Rightarrow> (var option \<times> world) option" where
  "do_asgnindex E ref1 v idx expr w =
     (case v of
        VLIST l \<Rightarrow>
          (case idx of
             VNUM n \<Rightarrow>
               if sint n \<le> 0 \<or> int (length l) < sint n then do { w \<leftarrow> raise E E_RANGE w; Some (None, w) }
               else do { l' \<leftarrow> list_assign ref1 l expr (sint n); Some (Some (VLIST l'), w) }
           | _ \<Rightarrow> do { w \<leftarrow> raise E E_TYPE w; Some (None, w) })
      | VMAP m \<Rightarrow> do { m' \<leftarrow> map_add ref1 (e_same E) m idx expr; Some (Some (VMAP m'), w) }
      | _ \<Rightarrow> do { w \<leftarrow> raise E E_TYPE w; Some (None, w) })"

definition op_asgnlvarindex :: opfun where
  "op_asgnlvarindex E w = do {
     (n, w) \<leftarrow> next_arg w;
     (expr, w) \<leftarrow> pop E w;
     (idx, w) \<leftarrow> pop E w;
     v \<leftarrow> var_get_local (stack w) n;
     (r, w) \<leftarrow> do_asgnindex E (e_ref1 E (w_count w)) v idx expr (ask w);
     case r of None \<Rightarrow> Some w | Some v' \<Rightarrow> assign_local n v' w }"

text \<open>
  The object whose variable \<open>var_get_global\<close> finds, and the update of that variable in place: a
  list or mapping with one reference is changed where it is, in the ancestor that has it.
\<close>

fun holder_parents :: "(object \<Rightarrow> object option option) \<Rightarrow> db \<Rightarrow> var list \<Rightarrow> object option option" where
  "holder_parents get d [] = Some None"
| "holder_parents get d (p # ps) = do {
     pid \<leftarrow> as_obj p;
     case retrieve d pid of
       None \<Rightarrow> holder_parents get d ps
     | Some q \<Rightarrow> do {
         r \<leftarrow> get q;
         if r \<noteq> None then Some r else holder_parents get d ps } }"

fun global_holder :: "nat \<Rightarrow> db \<Rightarrow> object \<Rightarrow> string \<Rightarrow> object option option" where
  "global_holder 0 d ob name = None"
| "global_holder (Suc n) d ob name = do {
     r \<leftarrow> own_global ob name;
     if r \<noteq> None then Some (Some ob)
     else holder_parents (\<lambda>q. global_holder n d q name) d (o_parents ob) }"

definition update_in_place :: "object option \<Rightarrow> cstr \<Rightarrow> var \<Rightarrow> db \<Rightarrow> db option" where
  "update_in_place h name v d =
     (case h of
        None \<Rightarrow> Some d
      | Some q \<Rightarrow> do { q' \<leftarrow> assign_own q name v; Some (d(oid (o_id q) := Some q')) })"

definition op_asgngvarindex :: opfun where
  "op_asgngvarindex E w = do {
     (n, w) \<leftarrow> next_arg w;
     (expr, w) \<leftarrow> pop E w;
     (idx, w) \<leftarrow> pop E w;
     name \<leftarrow> frame_sym w n;
     ob \<leftarrow> this_obj w;
     r \<leftarrow> var_get_global (e_fuel E) (w_db w) ob (sdata name);
     case r of
       None \<Rightarrow> raise E E_VARNF w
     | Some v \<Rightarrow> do {
         let ref1 = e_ref1 E (w_count w);
         h \<leftarrow> global_holder (e_fuel E) (w_db w) ob (sdata name);
         (r, w) \<leftarrow> do_asgnindex E ref1 v idx expr (ask w);
         case r of
           None \<Rightarrow> Some w
         | Some v' \<Rightarrow> do {
             d \<leftarrow> (if ref1 then update_in_place h name v' (w_db w) else Some (w_db w));
             (_, w) \<leftarrow> assign_this E name v' (w\<lparr>w_db := d\<rparr>);
             Some w } } }"

definition op_getlvar :: opfun where
  "op_getlvar E w = do {
     (n, w) \<leftarrow> next_arg w;
     v \<leftarrow> var_get_local (stack w) n;
     push E v w }"

definition op_getgvar :: opfun where
  "op_getgvar E w = do {
     (n, w) \<leftarrow> next_arg w;
     name \<leftarrow> frame_sym w n;
     ob \<leftarrow> this_obj w;
     r \<leftarrow> var_get_global (e_fuel E) (w_db w) ob (sdata name);
     case r of
       None \<Rightarrow> do { w \<leftarrow> raise E E_VARNF w; (_, w) \<leftarrow> pop E w; Some w }
     | Some v \<Rightarrow> push E v w }"

definition op_getgvarexpr :: opfun where
  "op_getgvarexpr E w = do {
     (arg, w) \<leftarrow> pop E w;
     case arg of
       VSTR s \<Rightarrow> do {
         ob \<leftarrow> this_obj w;
         r \<leftarrow> var_get_global (e_fuel E) (w_db w) ob (sdata s);
         case r of None \<Rightarrow> raise E E_VARNF w | Some v \<Rightarrow> push E v w }
     | _ \<Rightarrow> raise E E_ARGTYPE w }"

definition op_getsysvar :: opfun where
  "op_getsysvar E w = do {
     (n, w) \<leftarrow> next_arg w;
     name \<leftarrow> frame_sym w n;
     case retrieve (w_db w) sys_obj of
       None \<Rightarrow> raise E E_OBJNF w
     | Some sys \<Rightarrow> do {
         r \<leftarrow> var_get_global (e_fuel E) (w_db w) sys (sdata name);
         case r of None \<Rightarrow> raise E E_VARNF w | Some v \<Rightarrow> push E v w } }"

definition op_asgngvarexpr :: opfun where
  "op_asgngvarexpr E w = do {
     (arg2, w) \<leftarrow> pop E w;
     (arg1, w) \<leftarrow> pop E w;
     case arg1 of
       VSTR s \<Rightarrow>
         if \<not> valid_ident (sdata s) then raise E E_RANGE w
         else do {
           (e, w) \<leftarrow> assign_this E s arg2 w;
           if e \<noteq> E_NONE then raise E e w else push E arg2 w }
     | _ \<Rightarrow> raise E E_ARGTYPE w }"

definition op_in :: opfun where
  "op_in E w = do {
     (right, w) \<leftarrow> pop E w;
     (left, w) \<leftarrow> pop E w;
     case right of
       VLIST l \<Rightarrow> do { n \<leftarrow> list_ismember (e_same E) left l; pushn E (int n) w }
     | VSTR t \<Rightarrow>
         (case left of
            VSTR s \<Rightarrow> pushn E (int (str_in (sdata s) (sdata t))) w
          | _ \<Rightarrow> raise E E_TYPE w)
     | _ \<Rightarrow> raise E E_TYPE w }"

end
