(* ===== verification/Ops2.thy ===== *)
theory Ops2
  imports Ops1
begin

text \<open>
  The opcodes of \<open>opcodes2.c\<close>: output, objects, time, locks, suspended methods, information
  about objects, conversions and string functions. \<open>w_nargs\<close> is the number of arguments that
  \<open>execute\<close> counted for a built-in function.
\<close>

section \<open>Changing the object\<close>

definition put_this :: "object \<Rightarrow> world \<Rightarrow> world option" where
  "put_this ob w = do { i \<leftarrow> w_this w; Some (w\<lparr>w_db := (w_db w)(i := Some ob)\<rparr>) }"

section \<open>Output\<close>

definition base_echo :: "bool \<Rightarrow> opfun" where
  "base_echo newline E w = do {
     (fd, w) \<leftarrow>
       (if 1 < w_nargs w then do {
          (v, w) \<leftarrow> pop E w;
          case v of
            VNUM n \<Rightarrow> Some (Some (sint n), w)
          | _ \<Rightarrow> do { (_, w) \<leftarrow> pop E w; w \<leftarrow> raise E E_ARGTYPE w; Some (None, w) } }
        else Some (Some (-1), w));
     case fd of
       None \<Rightarrow> Some w
     | Some fd \<Rightarrow> do {
         (st, w) \<leftarrow> pop E w;
         case st of
           VSTR s \<Rightarrow>
             pushn E 0 (out (if 0 \<le> fd then TellFd fd (string_output (sdata s)) newline
               else Tell (oid (ev_this (w_frame w))) (string_output (sdata s)) newline) w)
         | _ \<Rightarrow> raise E E_ARGTYPE w } }"

definition op_echo :: opfun where "op_echo = base_echo True"
definition op_echon :: opfun where "op_echon = base_echo False"

definition cut_line :: "string \<Rightarrow> string" where
  "cut_line s = takeWhile (\<lambda>c. c \<noteq> CHR 0x0D) (takeWhile (\<lambda>c. c \<noteq> CHR 0x0A) s)"

definition op_echo_file :: opfun where
  "op_echo_file E w = do {
     (fd, w) \<leftarrow>
       (if 1 < w_nargs w then do {
          (v, w) \<leftarrow> pop E w;
          case v of
            VNUM n \<Rightarrow> Some (Some (sint n), w)
          | _ \<Rightarrow> do { (_, w) \<leftarrow> pop E w; w \<leftarrow> raise E E_ARGTYPE w; Some (None, w) } }
        else Some (Some (-1), w));
     case fd of
       None \<Rightarrow> Some w
     | Some fd \<Rightarrow> do {
         (st, w) \<leftarrow> pop E w;
         case st of
           VSTR s \<Rightarrow>
             if str_in ''..'' (sdata s) \<noteq> 0 \<or> (sdata s \<noteq> [] \<and> hd (sdata s) = CHR ''/'')
             then raise E E_FILE w
             else if 1024 \<le> length (''online/'' @ sdata s) then None
             else (case e_files E (''online/'' @ sdata s) of
                 None \<Rightarrow> raise E E_FILE w
               | Some ls \<Rightarrow> pushn E 0 (w\<lparr>w_out := w_out w @ map (\<lambda>l.
                     if 0 \<le> fd then TellFd fd (cut_line l) True
                     else Tell (oid (ev_this (w_frame w))) (cut_line l) True) ls\<rparr>))
         | _ \<Rightarrow> raise E E_ARGTYPE w } }"

text \<open>The cases of the switch in \<open>op_connect\<close> fall through up to the one that breaks.\<close>

definition op_connect :: opfun where
  "op_connect E w = do {
     (port, w) \<leftarrow> pop E w;
     (hostname, w) \<leftarrow> pop E w;
     if vtype hostname \<noteq> T_STR \<or> vtype port \<noteq> T_NUM then raise E E_ARGTYPE w
     else do {
       let r = e_connect E (w_count w);
       let w = ask w;
       if 0 \<le> r then pushn E r w
       else do {
         w \<leftarrow> (if r = -1 then raise E E_SERVERNF w else Some w);
         w \<leftarrow> (if r = -1 \<or> r = -2 then raise E E_TIMEOUT w else Some w);
         w \<leftarrow> (if r = -1 \<or> r = -2 \<or> r = -3 then raise E E_SERVERNF w else Some w);
         if -4 \<le> r then pushn E (-1) w else raise E E_SERVERNF w } } }"

section \<open>Objects\<close>

definition op_clone :: opfun where
  "op_clone E w = do {
     (d, r) \<leftarrow> clone (e_fuel E) (w_db w) (ev_this (w_frame w));
     push E (VOBJ (case r of Some ob \<Rightarrow> ob | None \<Rightarrow> \<lparr>server = 0, oid = -1\<rparr>)) (w\<lparr>w_db := d\<rparr>) }"

definition op_destroy :: opfun where
  "op_destroy E w = do {
     let ob = ev_this (w_frame w);
     let w = out (Disconnect (oid ob)) (w\<lparr>w_db := fst (destroy (w_db w) ob), w_this := None\<rparr>);
     w \<leftarrow> pushn E 0 w;
     Some (w\<lparr>w_state := STOPPED\<rparr>) }"

definition op_chparents :: opfun where
  "op_chparents E w = do {
     (v, w) \<leftarrow> pop E w;
     case v of
       VLIST ps \<Rightarrow> do {
         ob \<leftarrow> this_obj w;
         r \<leftarrow> check_parents (e_fuel E) (w_db w) (ev_caller (w_frame w)) ob ps;
         if r = E_NONE then do {
           w \<leftarrow> put_this (ob\<lparr>o_parents := ps\<rparr>) w;
           pushn E 0 w }
         else raise E r w }
     | _ \<Rightarrow> raise E E_ARGTYPE w }"

section \<open>Time, passwords, state of the server\<close>

definition op_time :: opfun where
  "op_time E w = pushn E (tv_sec (e_time E (w_count w))) (ask w)"

definition op_ctime :: opfun where
  "op_ctime E w =
     (if w_nargs w = 0 then
        push E (VSTRs (butlast (e_ctime E (tv_sec (e_time E (w_count w)))))) (ask w)
      else do {
        (arg, w) \<leftarrow> pop E w;
        case arg of
          VNUM n \<Rightarrow> push E (VSTRs (butlast (e_ctime E (sint n)))) w
        | _ \<Rightarrow> raise E E_ARGTYPE w })"

definition saltstuff :: string where
  "saltstuff = ''abcdefghijklmnopqrstuvwxyzABCDEFGHIJKLMNOPQRSTUVWXYZ0123456789./''"

definition op_crypt :: opfun where
  "op_crypt E w = do {
     (salt, w) \<leftarrow>
       (if 1 < w_nargs w then do {
          (a2, w) \<leftarrow> pop E w;
          case a2 of
            VSTR s \<Rightarrow>
              if slen s \<noteq> 2 then do {
                (_, w) \<leftarrow> pop E w; w \<leftarrow> raise E E_RANGE w; Some (None, w) }
              else do {
                c \<leftarrow> nth_opt (sdata s @ [CHR 0x00]) 0;
                d \<leftarrow> nth_opt (sdata s @ [CHR 0x00]) 1;
                Some (Some [c, d], w) }
          | _ \<Rightarrow> do { (_, w) \<leftarrow> pop E w; w \<leftarrow> raise E E_ARGTYPE w; Some (None, w) } }
        else Some (Some [saltstuff ! (e_random E (w_count w) mod length saltstuff),
                    saltstuff ! (e_random E (w_count w + 1) mod length saltstuff)], ask (ask w)));
     case salt of
       None \<Rightarrow> Some w
     | Some salt \<Rightarrow> do {
         (a1, w) \<leftarrow> pop E w;
         case a1 of
           VSTR s \<Rightarrow> push E (VSTRs (e_crypt E (sdata s) salt)) w
         | _ \<Rightarrow> raise E E_ARGTYPE w } }"

definition op_status :: "int \<Rightarrow> opfun" where
  "op_status n E w = push E (VSTRs (e_status E n)) w"

definition op_checkmem :: opfun where "op_checkmem = op_status O_CHECKMEM"
definition op_cache_stats :: opfun where "op_cache_stats = op_status O_CACHE_STATS"

section \<open>Lists and numbers\<close>

definition op_explode :: opfun where
  "op_explode E w = do {
     (sep, w) \<leftarrow>
       (if 1 < w_nargs w then do {
          (v, w) \<leftarrow> pop E w;
          case v of
            VSTR s \<Rightarrow>
              if sdata s = [] then do {
                (_, w) \<leftarrow> pop E w; w \<leftarrow> raise E E_RANGE w; Some (None, w) }
              else Some (Some (sdata s), w)
          | _ \<Rightarrow> do { (_, w) \<leftarrow> pop E w; w \<leftarrow> raise E E_ARGTYPE w; Some (None, w) } }
        else Some (Some '' '', w));
     case sep of
       None \<Rightarrow> Some w
     | Some sep \<Rightarrow> do {
         (v, w) \<leftarrow> pop E w;
         case v of
           VSTR s \<Rightarrow> push E (VLIST (map VSTRs
                        (explode (sdata s) sep (count_words (sdata s) sep)))) w
         | _ \<Rightarrow> raise E E_ARGTYPE w } }"

definition op_random :: opfun where
  "op_random E w = do {
     (arg, w) \<leftarrow> pop E w;
     case arg of
       VNUM n \<Rightarrow>
         if sint n \<le> 0 then raise E E_RANGE w
         else pushn E (int (e_random E (w_count w)) mod sint n + 1) (ask w)
     | _ \<Rightarrow> raise E E_ARGTYPE w }"

definition op_setadd :: opfun where
  "op_setadd E w = do {
     (new, w) \<leftarrow> pop E w;
     (l, w) \<leftarrow> pop E w;
     case l of
       VLIST vs \<Rightarrow> do { vs' \<leftarrow> list_setadd (e_same E) vs new; push E (VLIST vs') w }
     | _ \<Rightarrow> raise E E_ARGTYPE w }"

definition op_setremove :: opfun where
  "op_setremove E w = do {
     (what, w) \<leftarrow> pop E w;
     (l, w) \<leftarrow> pop E w;
     case l of
       VLIST vs \<Rightarrow> do { vs' \<leftarrow> list_setremove (e_same E) vs what; push E (VLIST vs') w }
     | _ \<Rightarrow> raise E E_ARGTYPE w }"

section \<open>Locks\<close>

definition LOCK_TIMEOUT :: int where
  "LOCK_TIMEOUT = 30"

definition lock_taken :: "string \<Rightarrow> lock list \<Rightarrow> bool" where
  "lock_taken name ls \<longleftrightarrow> (\<exists>l\<in>set ls. c_strcasecmp (lk_name l) name = 0)"

definition op_lock :: opfun where
  "op_lock E w = do {
     (name, w) \<leftarrow> pop E w;
     case name of
       VSTR s \<Rightarrow> do {
         w \<leftarrow> pushn E 0 w;
         ob \<leftarrow> this_obj w;
         let now = e_time E (w_count w);
         let w = (if lock_taken (sdata s) (o_locks ob) then
             (event_add ((w_frame w)\<lparr>ev_blocked := BL_LOCK, ev_lock := sdata s,
                ev_timeout := now\<lparr>tv_sec := tv_sec now + LOCK_TIMEOUT\<rparr>, ev_msg := None\<rparr>)
              (ask w))\<lparr>w_state := BLOCKED\<rparr>
           else w);
         put_this (ob\<lparr>o_locks := o_locks ob @
           [\<lparr>lk_name = sdata s, added_by = ev_msgid (w_frame w)\<rparr>]\<rparr>) w }
     | _ \<Rightarrow> raise E E_ARGTYPE w }"

fun unlock_first :: "string \<Rightarrow> i32 \<Rightarrow> lock list \<Rightarrow> lock list option" where
  "unlock_first name msgid [] = None"
| "unlock_first name msgid (l # ls) =
     (if c_strcasecmp (lk_name l) name = 0 \<and> added_by l = msgid then Some ls
      else map_option (\<lambda>r. l # r) (unlock_first name msgid ls))"

definition op_unlock :: opfun where
  "op_unlock E w = do {
     (name, w) \<leftarrow> pop E w;
     case name of
       VSTR s \<Rightarrow> do {
         ob \<leftarrow> this_obj w;
         case unlock_first (sdata s) (ev_msgid (w_frame w)) (o_locks ob) of
           Some ls \<Rightarrow> do { w \<leftarrow> put_this (ob\<lparr>o_locks := ls\<rparr>) w; pushn E 1 w }
         | None \<Rightarrow> pushn E 0 w }
     | _ \<Rightarrow> raise E E_ARGTYPE w }"

section \<open>Suspended methods\<close>

definition op_at :: opfun where
  "op_at E w = do {
     (endat, w) \<leftarrow> next_arg w;
     (v, w) \<leftarrow> pop E w;
     w \<leftarrow> (case v of
         VNUM n \<Rightarrow>
           (let f = w_frame w
            in Some (event_add (f\<lparr>ev_blocked := BL_TIMER,
                 ev_timeout := \<lparr>tv_sec = sint n, tv_usec = 0\<rparr>, ev_msg := None,
                 ev_stack := take (ev_nvars f) (ev_stack f) @ [VNUM (-1)]\<rparr>) w))
       | _ \<Rightarrow> do { w \<leftarrow> raise E E_ARGTYPE w; (_, w) \<leftarrow> pop E w; Some w });
     Some (set_pc endat w) }"

text \<open>\<open>op_sleep\<close> reads a word of code that the table of opcodes does not give it.\<close>

definition op_sleep :: opfun where
  "op_sleep E w = do {
     (flag, w) \<leftarrow> next_arg w;
     (delay, w) \<leftarrow> (if flag \<noteq> 0 then pop E w else Some (VNUM 0, w));
     case delay of
       VNUM n \<Rightarrow> do {
         w \<leftarrow> pushn E 0 w;
         let f = w_frame w;
         let now = e_time E (w_count w);
         let e = f\<lparr>ev_blocked := BL_TIMER,
             ev_timeout := \<lparr>tv_sec = tv_sec now + sint n, tv_usec = 0\<rparr>,
             ev_stack := butlast (ev_stack f)\<rparr>;
         let e' = (if e_sleep_refresh E \<le> sint n then e\<lparr>ev_ticks := 0, ev_age := 0\<rparr> else e);
         Some ((event_add e' (ask w))\<lparr>w_state := BLOCKED\<rparr>) }
     | _ \<Rightarrow> raise E E_ARGTYPE w }"

section \<open>Information\<close>

definition op_typeof :: opfun where
  "op_typeof E w = do { (arg, w) \<leftarrow> pop E w; pushn E (type_num (vtype arg)) w }"

definition op_lengthof :: opfun where
  "op_lengthof E w = do {
     (arg, w) \<leftarrow> pop E w;
     case arg of
       VSTR s \<Rightarrow> pushn E (int (slen s)) w
     | VLIST l \<Rightarrow> pushn E (int (length l)) w
     | VMAP m \<Rightarrow> pushn E (int (hnum m)) w
     | _ \<Rightarrow> raise E E_ARGTYPE w }"

definition op_serverof :: opfun where
  "op_serverof E w = do {
     (arg, w) \<leftarrow> pop E w;
     case arg of VOBJ ob \<Rightarrow> pushn E (sint (server ob)) w | _ \<Rightarrow> raise E E_ARGTYPE w }"

definition op_servername :: opfun where
  "op_servername E w = do {
     (arg, w) \<leftarrow> pop E w;
     case arg of
       VOBJ ob \<Rightarrow> do {
         s \<leftarrow> serv_id2name (e_servers E) (sint (server ob));
         push E (VSTRs s) w }
     | _ \<Rightarrow> raise E E_ARGTYPE w }"

definition verb_info :: "object \<Rightarrow> verbdef \<Rightarrow> var option" where
  "verb_info ob v = do {
     a \<leftarrow> sym_get ob (vb_verb v);
     b \<leftarrow> (if 0 \<le> vb_prep v then sym_get ob (vb_prep v) else Some (mk_str (sym_sys BLANK)));
     c \<leftarrow> sym_get ob (vb_method v);
     Some (VLIST [VSTR a, VSTR b, VSTR c]) }"

definition op_verbs :: opfun where
  "op_verbs E w = do {
     ob \<leftarrow> this_obj w;
     l \<leftarrow> mapM (verb_info ob) (o_verbs ob);
     push E (VLIST l) w }"

text \<open>The lists of \<open>op_vars\<close> and \<open>op_methods\<close> have as many places as the table counts.\<close>

definition names_list :: "object \<Rightarrow> nat \<Rightarrow> int list \<Rightarrow> var option" where
  "names_list ob n syms =
     (if n \<noteq> length syms then None else do {
        ss \<leftarrow> mapM (sym_get ob) syms;
        Some (VLIST (map VSTR ss)) })"

definition op_vars :: opfun where
  "op_vars E w = do {
     ob \<leftarrow> this_obj w;
     l \<leftarrow> (case o_vars ob of
         None \<Rightarrow> Some (VLIST [])
       | Some h \<Rightarrow> names_list ob (hnum h) (map vd_name (hentries h)));
     push E l w }"

definition op_methods :: opfun where
  "op_methods E w = do {
     ob \<leftarrow> this_obj w;
     l \<leftarrow> (case o_methods ob of
         None \<Rightarrow> Some (VLIST [])
       | Some h \<Rightarrow> names_list ob (hnum h) (map m_name (hentries h)));
     push E l w }"

definition op_parents :: opfun where
  "op_parents E w = do { ob \<leftarrow> this_obj w; push E (VLIST (o_parents ob)) w }"

section \<open>Strings and conversions\<close>

text \<open>
  \<open>op_pad\<close>. A string with one reference is padded in place; when that moves it, the code goes on
  to free the block that is gone.
\<close>

definition op_pad :: opfun where
  "op_pad E w = do {
     (tok, w) \<leftarrow>
       (if 2 < w_nargs w then do {
          (v, w) \<leftarrow> pop E w;
          case v of
            VSTR s \<Rightarrow>
              if slen s < 1 then do { w \<leftarrow> raise E E_RANGE w; Some (None, w) }
              else do { c \<leftarrow> nth_opt (sdata s) 0; Some (Some c, w) }
          | _ \<Rightarrow> do { w \<leftarrow> raise E E_ARGTYPE w; Some (None, w) } }
        else Some (Some (CHR '' ''), w));
     case tok of
       None \<Rightarrow> Some w
     | Some tok \<Rightarrow> do {
         (len, w) \<leftarrow> pop E w;
         (what, w) \<leftarrow> pop E w;
         case (len, what) of
           (VNUM n, VSTR s) \<Rightarrow> do {
             let own = e_ref1 E (w_count w);
             let moved = e_moved E (w_count w);
             let k = \<bar>sint n\<bar>;
             if k = 2 ^ 31 then None
             else if k < int (slen s) then
               push E (VSTR \<lparr>slen = nat k, sdata = take (nat k) (sdata s)\<rparr>) (ask w)
             else if own \<and> moved then None
             else (let d = nat k - slen s in
               push E (VSTR \<lparr>slen = nat k, sdata = (if sint n < 0 then string_prepad (sdata s) d tok
                 else string_pad (sdata s) d tok)\<rparr>) (ask w)) }
         | _ \<Rightarrow> raise E E_ARGTYPE w } }"

definition op_tostr :: opfun where
  "op_tostr E w = do {
     (v, w) \<leftarrow> pop E w;
     t \<leftarrow> var_tostring (e_servers E) True v;
     push E (VSTRs t) w }"

definition op_tonum :: opfun where
  "op_tonum E w = do {
     (arg, w) \<leftarrow> pop E w;
     case arg of
       VSTR s \<Rightarrow> push E (VNUM (c_atoi (sdata s))) w
     | VNUM n \<Rightarrow> push E (VNUM n) w
     | VOBJ ob \<Rightarrow> push E (VNUM (oid ob)) w
     | VERR e \<Rightarrow> push E (VNUM e) w
     | _ \<Rightarrow> raise E E_ARGTYPE w }"

definition op_toobj :: opfun where
  "op_toobj E w = do {
     (arg, w) \<leftarrow> pop E w;
     case arg of
       VSTR s \<Rightarrow> do {
         r \<leftarrow> parse_obj (e_servers E) (sdata s);
         push E (VOBJ (case r of Some (ob, _) \<Rightarrow> ob | None \<Rightarrow> \<lparr>server = 0, oid = -1\<rparr>)) w }
     | VNUM n \<Rightarrow> push E (VOBJ \<lparr>server = 0, oid = n\<rparr>) w
     | VOBJ ob \<Rightarrow> push E (VOBJ ob) w
     | VERR e \<Rightarrow> push E (VOBJ \<lparr>server = 0, oid = e\<rparr>) w
     | _ \<Rightarrow> raise E E_ARGTYPE w }"

definition op_toerr :: opfun where
  "op_toerr E w = do {
     (arg, w) \<leftarrow> pop E w;
     case arg of
       VSTR s \<Rightarrow> do {
         r \<leftarrow> parse_err (sdata s);
         push E (VERR (case r of Some (e, _) \<Rightarrow> e | None \<Rightarrow> -1)) w }
     | VNUM n \<Rightarrow> push E (VERR n) w
     | VOBJ ob \<Rightarrow> push E (VERR (oid ob)) w
     | VERR e \<Rightarrow> push E (VERR e) w
     | _ \<Rightarrow> raise E E_ARGTYPE w }"

definition do_match :: "bool \<Rightarrow> opfun" where
  "do_match full E w = do {
     (tok, w) \<leftarrow>
       (if w_nargs w = 3 then do {
          (v, w) \<leftarrow> pop E w;
          case v of
            VSTR s \<Rightarrow>
              if sdata s = [] then do {
                (_, w) \<leftarrow> pop E w; (_, w) \<leftarrow> pop E w; w \<leftarrow> raise E E_ARGTYPE w; Some (None, w) }
              else Some (Some (hd (sdata s)), w)
          | _ \<Rightarrow> do {
              (_, w) \<leftarrow> pop E w; (_, w) \<leftarrow> pop E w; w \<leftarrow> raise E E_ARGTYPE w; Some (None, w) } }
        else Some (Some (CHR '' ''), w));
     case tok of
       None \<Rightarrow> Some w
     | Some tok \<Rightarrow> do {
         (st, w) \<leftarrow> pop E w;
         (template, w) \<leftarrow> pop E w;
         case (template, st) of
           (VSTR a, VSTR b) \<Rightarrow>
             push E (bool_num (if full then match_full (sdata a) (sdata b) tok
                               else match_str (sdata a) (sdata b) tok)) w
         | _ \<Rightarrow> raise E E_ARGTYPE w } }"

definition op_match :: opfun where "op_match = do_match False"
definition op_match_full :: opfun where "op_match_full = do_match True"

definition op_strcmp :: opfun where
  "op_strcmp E w = do {
     (s2, w) \<leftarrow> pop E w;
     (s1, w) \<leftarrow> pop E w;
     case (s1, s2) of
       (VSTR a, VSTR b) \<Rightarrow> pushn E (c_strcmp (sdata a) (sdata b)) w
     | _ \<Rightarrow> raise E E_ARGTYPE w }"

text \<open>
  \<open>op_tolower\<close> and \<open>op_toupper\<close> map as many characters as the length says, in place or in a copy;
  the copy has the length of its text.
\<close>

definition case_op :: "(char \<Rightarrow> char) \<Rightarrow> opfun" where
  "case_op f E w = do {
     (arg, w) \<leftarrow> pop E w;
     case arg of
       VSTR s \<Rightarrow>
         if length (sdata s) < slen s then None
         else push E (VSTR \<lparr>slen = (if e_ref1 E (w_count w) then slen s else length (sdata s)),
             sdata = map f (take (slen s) (sdata s)) @ drop (slen s) (sdata s)\<rparr>) (ask w)
     | _ \<Rightarrow> raise E E_ARGTYPE w }"

definition op_tolower :: opfun where "op_tolower = case_op c_tolower"
definition op_toupper :: opfun where "op_toupper = case_op c_toupper"

definition find_op :: "(string \<Rightarrow> string \<Rightarrow> bool \<Rightarrow> nat) \<Rightarrow> opfun" where
  "find_op f E w = do {
     (cm, w) \<leftarrow> (if 2 < w_nargs w then pop E w else Some (VNUM 0, w));
     (s2, w) \<leftarrow> pop E w;
     (s1, w) \<leftarrow> pop E w;
     case (s1, s2, cm) of
       (VSTR a, VSTR b, VNUM n) \<Rightarrow> pushn E (int (f (sdata a) (sdata b) (n \<noteq> 0))) w
     | _ \<Rightarrow> raise E E_ARGTYPE w }"

definition op_f_index :: opfun where "op_f_index = find_op strindex"
definition op_rindex :: opfun where "op_rindex = find_op strrindex"

end
