(* ===== verification/Ops3.thy ===== *)
theory Ops3
  imports Ops2
begin

text \<open>
  The opcodes of \<open>opcodes3.c\<close>: privileged operations, raising and passing, information about
  methods, changes of the object's verbs, methods and variables, list functions with a
  position, and the table of suspended methods (\<open>ps\<close> and \<open>cmkill\<close> of \<open>message.c\<close>). Compiling
  source text is the field \<open>e_external\<close> of the environment: the compiler is generated from
  \<open>cool.y\<close>.
\<close>

section \<open>message.c: suspended methods\<close>

definition ps_entry :: "event \<Rightarrow> var option" where
  "ps_entry e = do {
     name \<leftarrow> sym_get (ev_on e) (m_name (ev_m e));
     Some (VLIST [VNUM (ev_msgid e), VNUM (ev_age e), VNUM (ev_ticks e), VOBJ (ev_player e),
       VOBJ (ev_this e), VOBJ (o_id (ev_on e)), VOBJ (ev_caller e), VLIST (ev_args e),
       VSTR name, VNUMi (blocked_num (ev_blocked e)), VNUMi (tv_sec (ev_timeout e))]) }"

definition ps :: "world \<Rightarrow> var list option" where
  "ps w = mapM ps_entry (filter (\<lambda>e. ev_blocked e \<noteq> BL_SYS_MESSAGE) (w_events w))"

definition kill_event :: "event \<Rightarrow> event" where
  "kill_event e = e\<lparr>ev_blocked := BL_DEAD, ev_timeout := (ev_timeout e)\<lparr>tv_sec := 0\<rparr>\<rparr>"

fun cmkill_in :: "env \<Rightarrow> db \<Rightarrow> i32 \<Rightarrow> objid \<Rightarrow> event list \<Rightarrow> (int \<times> event list) option" where
  "cmkill_in E d pid who [] = Some (-1, [])"
| "cmkill_in E d pid who (e # es) =
     (if ev_msgid e = pid \<and> ev_blocked e \<noteq> BL_SYS_MESSAGE then do {
        wiz \<leftarrow> (if ev_player e = who then Some True else is_wizard (e_same E) (e_fuel E) d who);
        Some (if wiz then (0, kill_event e # es) else (-2, e # es)) }
      else do {
        (r, es') \<leftarrow> cmkill_in E d pid who es;
        Some (r, e # es') })"

definition cmkill :: "env \<Rightarrow> i32 \<Rightarrow> objid \<Rightarrow> world \<Rightarrow> (int \<times> world) option" where
  "cmkill E pid who w = do {
     (r, es) \<leftarrow> cmkill_in E (w_db w) pid who (w_events w);
     Some (r, w\<lparr>w_events := es\<rparr>) }"

section \<open>Privileged operations\<close>

definition wizard_this :: "env \<Rightarrow> world \<Rightarrow> bool option" where
  "wizard_this E w = is_wizard (e_same E) (e_fuel E) (w_db w) (ev_this (w_frame w))"

definition wizard_op :: "outp \<Rightarrow> opfun" where
  "wizard_op x E w = do {
     wiz \<leftarrow> wizard_this E w;
     if \<not> wiz then raise E E_PERM w else pushn E 0 (out x w) }"

definition op_shutdown :: opfun where "op_shutdown = wizard_op Shutdown"
definition op_sync :: opfun where "op_sync = wizard_op Sync"

definition op_writelog :: opfun where
  "op_writelog E w = do {
     (arg, w) \<leftarrow> pop E w;
     wiz \<leftarrow> (if oid (ev_this (w_frame w)) = 0 then Some True else wizard_this E w);
     if \<not> wiz then raise E E_PERM w
     else (case arg of
         VSTR s \<Rightarrow> pushn E 0 (out (Log (sdata s)) w)
       | _ \<Rightarrow> raise E E_ARGTYPE w) }"

definition op_disconnect :: opfun where
  "op_disconnect E w =
     (if w_nargs w = 0 then pushn E 0 (out (Disconnect (oid (ev_this (w_frame w)))) w)
      else if w_nargs w = 1 then do {
        (arg, w) \<leftarrow> pop E w;
        case arg of
          VNUM n \<Rightarrow> do {
            wiz \<leftarrow> wizard_this E w;
            if \<not> wiz then raise E E_PERM w else pushn E 0 (out (DisconnectFd n) w) }
        | _ \<Rightarrow> raise E E_TYPE w }
      else Some w)"

definition op_set_parse :: opfun where
  "op_set_parse E w = do {
     (obv, w) \<leftarrow> pop E w;
     (fd, w) \<leftarrow> pop E w;
     case (obv, fd) of
       (VOBJ ob, VNUM n) \<Rightarrow> do {
         wiz \<leftarrow> wizard_this E w;
         if \<not> wiz then raise E E_PERM w else pushn E 0 (out (SetParse n (oid ob)) w) }
     | _ \<Rightarrow> raise E E_ARGTYPE w }"

section \<open>Raising and passing\<close>

definition op_raise :: opfun where
  "op_raise E w = do {
     (e, w) \<leftarrow> pop E w;
     case e of
       VERR n \<Rightarrow> do {
         text \<leftarrow> add_traceback_header E [] n w;
         send_raise E [VERR n, VSTRs text] (w\<lparr>w_state := RAISED\<rparr>) }
     | _ \<Rightarrow> do { w \<leftarrow> raise E E_ARGTYPE w; (_, w) \<leftarrow> pop E w; Some w } }"

definition op_pass :: opfun where
  "op_pass E w = do {
     (n, w) \<leftarrow> next_arg w;
     (k, w) \<leftarrow> count_args E w;
     (args, w) \<leftarrow> pop_args E k w;
     let f = w_frame w;
     name \<leftarrow> sym_str (ev_on f) (m_name (ev_m f));
     send_message_and_block E (ev_this f) (ev_this f) name args \<lparr>server = 0, oid = i32_of n\<rparr> w }"

section \<open>Information\<close>

definition op_hasparent :: opfun where
  "op_hasparent E w = do {
     (v, w) \<leftarrow> pop E w;
     case v of
       VOBJ p \<Rightarrow> do {
         ob \<leftarrow> this_obj w;
         r \<leftarrow> hasparent (e_fuel E) (w_db w) ob p;
         push E (bool_num r) w }
     | _ \<Rightarrow> raise E E_ARGTYPE w }"

definition op_objsize :: opfun where
  "op_objsize E w = do { ob \<leftarrow> this_obj w; pushn E (int (size_object ob)) w }"

definition method_text :: "string \<Rightarrow> (object \<Rightarrow> cmethod \<Rightarrow> string option) \<Rightarrow> opfun" where
  "method_text name text E w = do {
     ob \<leftarrow> this_obj w;
     m \<leftarrow> find_method ob name;
     case m of
       Some m \<Rightarrow> do { t \<leftarrow> text ob m; push E (VSTRs t) w }
     | None \<Rightarrow> raise E E_METHODNF w }"

definition op_spew_method :: opfun where
  "op_spew_method E w = do {
     (v, w) \<leftarrow> pop E w;
     case v of
       VSTR s \<Rightarrow> method_text (sdata s) (\<lambda>ob m. decode_method ob m 2) E w
     | _ \<Rightarrow> raise E E_ARGTYPE w }"

text \<open>A listing with lines numbered, brackets and an indentation.\<close>

definition list_method :: "env \<Rightarrow> int \<Rightarrow> int \<Rightarrow> int \<Rightarrow> world \<Rightarrow> object \<Rightarrow> cmethod \<Rightarrow> string option" where
  "list_method E lineno brackets indent w ob m = do {
     (b, _) \<leftarrow> decompile_method (e_fuel E) (e_servers E) (Some []) ob m lineno brackets indent 0 0
       (e_statics E w);
     b }"

definition op_list_method :: opfun where
  "op_list_method E w = do {
     let n = w_nargs w;
     if n < 1 \<or> 4 < n then None
     else do {
       (indent, w) \<leftarrow> (if 4 \<le> n then pop E w else Some (VNUM 2, w));
       (brackets, w) \<leftarrow> (if 3 \<le> n then pop E w else Some (VNUM 0, w));
       (lineno, w) \<leftarrow> (if 2 \<le> n then pop E w else Some (VNUM 1, w));
       (name, w) \<leftarrow> pop E w;
       case (name, indent, brackets, lineno) of
         (VSTR s, VNUM i, VNUM b, VNUM l) \<Rightarrow> method_text (sdata s) (list_method E (sint l) (sint b) (sint i) w) E w
       | _ \<Rightarrow> raise E E_ARGTYPE w } }"

definition op_decompile :: opfun where
  "op_decompile E w = do {
     ob \<leftarrow> this_obj w;
     s \<leftarrow> map_option fst (decompile_object (e_fuel E) (e_servers E) ob (e_statics E w));
     push E (VSTRs s) w }"

definition op_find_method :: opfun where
  "op_find_method E w = do {
     (v, w) \<leftarrow> pop E w;
     case v of
       VSTR s \<Rightarrow> do {
         r \<leftarrow> (case this_obj w of
             None \<Rightarrow> None
           | Some ob \<Rightarrow> find_method_recursive (e_fuel E) (w_db w) (o_id ob) (sdata s));
         push E (VOBJ (case r of Some (m, q) \<Rightarrow> o_id q | None \<Rightarrow> \<lparr>server = 0, oid = -1\<rparr>)) w }
     | _ \<Rightarrow> raise E E_ARGTYPE w }"

definition op_this :: opfun where "op_this E w = push E (VOBJ (ev_this (w_frame w))) w"
definition op_player :: opfun where "op_player E w = push E (VOBJ (ev_player (w_frame w))) w"
definition op_caller :: opfun where "op_caller E w = push E (VOBJ (ev_caller (w_frame w))) w"
definition op_args :: opfun where "op_args E w = push E (VLIST (ev_args (w_frame w))) w"

definition op_setplayer :: opfun where
  "op_setplayer E w = do {
     (v, w) \<leftarrow> pop E w;
     case v of
       VOBJ p \<Rightarrow> Some (set_frame (\<lambda>f. f\<lparr>ev_player := p\<rparr>) w)
     | _ \<Rightarrow> raise E E_ARGTYPE w }"

definition op_servers :: opfun where "op_servers E w = push E (VLIST (e_server_list E)) w"

definition op_ps :: opfun where
  "op_ps E w = do { l \<leftarrow> ps w; push E (VLIST l) w }"

definition op_kill :: opfun where
  "op_kill E w = do {
     (v, w) \<leftarrow> pop E w;
     case v of
       VNUM pid \<Rightarrow> do {
         (r, w) \<leftarrow> cmkill E pid (ev_caller (w_frame w)) w;
         if r = -2 then raise E E_PERM w else pushn E r w }
     | _ \<Rightarrow> raise E E_ARGTYPE w }"

section \<open>Compiling\<close>

fun pop_n :: "env \<Rightarrow> nat \<Rightarrow> world \<Rightarrow> world option" where
  "pop_n E 0 w = Some w"
| "pop_n E (Suc n) w = do { (_, w) \<leftarrow> pop E w; pop_n E n w }"

definition op_program :: opfun where
  "op_program E w =
     (if w_nargs w < 0 then None
      else do {
        w \<leftarrow> pop_n E (nat (w_nargs w)) w;
        pushn E 0 (w\<lparr>w_nargs := -1\<rparr>) })"

section \<open>Verbs, methods and variables of the object\<close>

definition op_verb :: opfun where
  "op_verb E w = do {
     (meth, w) \<leftarrow> pop E w;
     (prep, w) \<leftarrow> pop E w;
     (verb, w) \<leftarrow> pop E w;
     case (verb, prep, meth) of
       (VSTR v, VSTR p, VSTR m) \<Rightarrow> do {
         ob \<leftarrow> this_obj w;
         (ob1, vn) \<leftarrow> sym_add ob v;
         (ob2, pn) \<leftarrow> (if sdata p \<noteq> [] then sym_add ob1 p else Some (ob1, -1));
         (ob3, mn) \<leftarrow> sym_add ob2 m;
         w \<leftarrow> put_this (verb_add ob3 vn pn mn) w;
         pushn E 0 w }
     | _ \<Rightarrow> raise E E_ARGTYPE w }"

definition op_rmverb :: opfun where
  "op_rmverb E w = do {
     (v, w) \<leftarrow> pop E w;
     case v of
       VSTR s \<Rightarrow> do {
         ob \<leftarrow> this_obj w;
         (ob', found) \<leftarrow> verb_rm ob (sdata s);
         w \<leftarrow> put_this ob' w;
         if found then pushn E 0 w else raise E E_VERBNF w }
     | _ \<Rightarrow> raise E E_ARGTYPE w }"

text \<open>Removing a method frees its symbols unless a frame or an event still runs it.\<close>

definition op_rmmethod :: opfun where
  "op_rmmethod E w = do {
     (v, w) \<leftarrow> pop E w;
     case v of
       VSTR s \<Rightarrow> do {
         ob \<leftarrow> this_obj w;
         (ob', e) \<leftarrow> rm_method (e_ref1 E (w_count w)) ob (sdata s);
         w \<leftarrow> put_this ob' (ask w);
         raise E e w }
     | _ \<Rightarrow> raise E E_ARGTYPE w }"

definition op_rmvar :: opfun where
  "op_rmvar E w = do {
     (v, w) \<leftarrow> pop E w;
     case v of
       VSTR s \<Rightarrow> do {
         ob \<leftarrow> this_obj w;
         (ob', e) \<leftarrow> var_rm_global ob (sdata s);
         w \<leftarrow> put_this ob' w;
         raise E e w }
     | _ \<Rightarrow> raise E E_ARGTYPE w }"

section \<open>Lists\<close>

definition place_op :: "(var list \<Rightarrow> var \<Rightarrow> int \<Rightarrow> var list) \<Rightarrow> opfun" where
  "place_op f E w = do {
     (pos, w) \<leftarrow> (if 2 < w_nargs w then pop E w else Some (VNUM (-1), w));
     (value, w) \<leftarrow> pop E w;
     (l, w) \<leftarrow> pop E w;
     case (l, pos) of
       (VLIST vs, VNUM n) \<Rightarrow>
         if int (length vs) < sint n then raise E E_RANGE w
         else push E (VLIST (f vs value (sint n))) w
     | _ \<Rightarrow> raise E E_ARGTYPE w }"

definition op_listinsert :: opfun where "op_listinsert = place_op list_insert"
definition op_listappend :: opfun where "op_listappend = place_op list_append"

definition op_listdelete :: opfun where
  "op_listdelete E w = do {
     (pos, w) \<leftarrow> pop E w;
     (l, w) \<leftarrow> pop E w;
     case (l, pos) of
       (VLIST vs, VNUM n) \<Rightarrow>
         if sint n < 1 \<or> int (length vs) < sint n then raise E E_RANGE w
         else do { vs' \<leftarrow> list_delete vs (sint n); push E (VLIST vs') w }
     | _ \<Rightarrow> raise E E_ARGTYPE w }"

definition op_listassign :: opfun where
  "op_listassign E w = do {
     (pos, w) \<leftarrow> pop E w;
     (value, w) \<leftarrow> pop E w;
     (l, w) \<leftarrow> pop E w;
     case (l, pos) of
       (VLIST vs, VNUM n) \<Rightarrow>
         if sint n < 1 \<or> int (length vs) < sint n then raise E E_RANGE w
         else do {
           vs' \<leftarrow> list_assign (e_ref1 E (w_count w)) vs value (sint n);
           push E (VLIST vs') (ask w) }
     | _ \<Rightarrow> raise E E_ARGTYPE w }"

definition op_sort :: opfun where
  "op_sort E w = do {
     (rv, w) \<leftarrow> (if 1 < w_nargs w then pop E w else Some (VNUM 0, w));
     (l, w) \<leftarrow> pop E w;
     case l of
       VLIST vs \<Rightarrow> do {
         vs' \<leftarrow> list_sort (e_qsort E) vs (is_true rv);
         push E (VLIST vs') w }
     | _ \<Rightarrow> raise E E_ARGTYPE w }"

section \<open>Substitution\<close>

definition op_strsub :: opfun where
  "op_strsub E w = do {
     (caseflag, w) \<leftarrow> (if 3 < w_nargs w then pop E w else Some (VNUM 0, w));
     (wth, w) \<leftarrow> pop E w;
     (what, w) \<leftarrow> pop E w;
     (source, w) \<leftarrow> pop E w;
     case (source, what, wth) of
       (VSTR a, VSTR b, VSTR c) \<Rightarrow>
         push E (VSTRs (strsub (sdata a) (sdata b) (sdata c) (is_true caseflag))) w
     | _ \<Rightarrow> raise E E_ARGTYPE w }"

definition op_psub :: opfun where
  "op_psub E w = do {
     (v, w) \<leftarrow> pop E w;
     case v of
       VSTR s \<Rightarrow> do { (r, w) \<leftarrow> psub E (sdata s) w; push E (VSTRs r) w }
     | _ \<Rightarrow> raise E E_ARGTYPE w }"

end
