(* ===== verification/Exec.thy ===== *)
theory Exec
  imports Ops3
begin

text \<open>
  The executor (\<open>execute.c\<close>): the table of functions of the opcodes, the loop that runs a method
  until it returns, raises, blocks or is halted, the ways a method is started and resumed, and
  the search for verbs. The loop takes fuel, the number of opcodes allowed; the limit of ticks
  bounds it.
\<close>

section \<open>opcode.c: the functions of the opcodes\<close>

text \<open>\<open>op_compile\<close> runs the compiler that \<open>cool.y\<close> generates.\<close>

definition op_compile :: opfun where
  "op_compile E w = e_external E (w_nargs w) w"

definition op_functions :: "(int \<times> opfun) list" where
  "op_functions =
    [(O_IF, op_if), (O_ELSEIF, op_elseif), (O_ELSE, op_null), (O_FOR, op_for),
     (O_FORRNG, op_forrng), (O_WHILE, op_while), (O_DO, op_do), (O_DOWHILE, op_dowhile),
     (O_AT, op_at), (O_PUSHPC, op_pushpc), (O_SLEEP, op_sleep), (O_NUMPUSH, op_numpush),
     (O_STRPUSH, op_strpush), (O_OBJPUSH, op_objpush), (O_LISTPUSH, op_listpush),
     (O_MAPPUSH, op_mappush), (O_ERRPUSH, op_errpush), (O_GETLVAR, op_getlvar),
     (O_GETGVAR, op_getgvar), (O_GETGVAREXPR, op_getgvarexpr), (O_GETSYSVAR, op_getsysvar),
     (O_ASGNLVAR, op_asgnlvar), (O_ASGNGVAR, op_asgngvar), (O_ASGNGVAREXPR, op_asgngvarexpr),
     (O_ASGNLVARINDEX, op_asgnlvarindex), (O_ASGNGVARINDEX, op_asgngvarindex),
     (O_PARENTS, op_parents), (O_THIS, op_this), (O_PLAYER, op_player), (O_CALLER, op_caller),
     (O_ARGS, op_args), (O_SETPLAYER, op_setplayer), (O_ADD, op_add), (O_SUB, op_sub),
     (O_MUL, op_mul), (O_DIV, op_div), (O_MOD, op_mod), (O_NEGATE, op_negate), (O_AND, op_and),
     (O_OR, op_or), (O_ENDAND, op_null), (O_ENDOR, op_null), (O_NOT, op_not), (O_EQ, op_eq),
     (O_NE, op_ne), (O_GT, op_gt), (O_GE, op_ge), (O_LT, op_lt), (O_LE, op_le),
     (O_MESSAGE, op_message), (O_MESSAGE_EXPR, op_message_expr), (O_INDEX, op_index),
     (O_IN, op_in), (O_SUBSET, op_subset), (O_LSUBSET, op_lsubset), (O_RSUBSET, op_rsubset),
     (O_SPLICE, op_splice), (O_ARGSTART, op_argstart), (O_LENGTHOF, op_lengthof),
     (O_SETADD, op_setadd), (O_SETREMOVE, op_setremove), (O_LISTINSERT, op_listinsert),
     (O_LISTAPPEND, op_listappend), (O_LISTDELETE, op_listdelete), (O_LISTASSIGN, op_listassign),
     (O_EXPLODE, op_explode), (O_SORT, op_sort), (O_STRSUB, op_strsub), (O_PAD, op_pad),
     (O_PSUB, op_psub), (O_STRCMP, op_strcmp), (O_F_INDEX, op_f_index), (O_RINDEX, op_rindex),
     (O_TOLOWER, op_tolower), (O_TOUPPER, op_toupper), (O_RANDOM, op_random),
     (O_TOSTR, op_tostr), (O_TONUM, op_tonum), (O_TOOBJ, op_toobj), (O_TOERR, op_toerr),
     (O_TYPEOF, op_typeof), (O_SERVEROF, op_serverof), (O_SERVERNAME, op_servername),
     (O_SERVERS, op_servers), (O_STOP, op_stop), (O_T_RAISE, op_raise), (O_T_RETURN, op_return),
     (O_BREAK, op_break), (O_CONTINUE, op_continue), (O_ECHO, op_echo), (O_ECHON, op_echon),
     (O_ECHO_FILE, op_echo_file), (O_CONNECT, op_connect), (O_TIME, op_time),
     (O_CTIME, op_ctime), (O_CLONE, op_clone), (O_DESTROY, op_destroy),
     (O_CHPARENTS, op_chparents), (O_FIND_METHOD, op_find_method),
     (O_SPEW_METHOD, op_spew_method), (O_LIST_METHOD, op_list_method),
     (O_DECOMPILE, op_decompile), (O_POP, op_pop), (O_CRYPT, op_crypt),
     (O_CHECKMEM, op_checkmem), (O_CACHE_STATS, op_cache_stats), (O_SET_PARSE, op_set_parse),
     (O_LOCK, op_lock), (O_UNLOCK, op_unlock), (O_HASPARENT, op_hasparent),
     (O_OBJSIZE, op_objsize), (O_VARS, op_vars), (O_VERBS, op_verbs), (O_METHODS, op_methods),
     (O_VERB, op_verb), (O_RMVERB, op_rmverb), (O_RMMETHOD, op_rmmethod), (O_RMVAR, op_rmvar),
     (O_PROGRAM, op_program), (O_COMPILE, op_compile), (O_MATCH, op_match),
     (O_MATCH_FULL, op_match_full), (O_SHUTDOWN, op_shutdown), (O_SYNC, op_sync),
     (O_WRITELOG, op_writelog), (O_DISCONNECT, op_disconnect), (O_KILL, op_kill), (O_PS, op_ps),
     (O_PASS, op_pass)]"

text \<open>\<open>(op->func)()\<close>\<close>

definition op_call :: "int \<Rightarrow> opfun" where
  "op_call c E w = do { f \<leftarrow> map_of op_functions c; f E w }"

section \<open>The loop\<close>

text \<open>
  One turn of the loop of \<open>execute\<close>; the second result tells whether the loop goes on. The
  array \<open>opcodes\<close> has an entry for each opcode of the table, and its \<open>builtin\<close> is what
  \<open>bf_id2entry\<close> finds for the opcode.
\<close>

definition call_op :: "int \<Rightarrow> opfun" where
  "call_op c E w =
     (case bf_id2entry c of
        Some b \<Rightarrow> do {
          (n, w) \<leftarrow> count_args E w;
          let w = w\<lparr>w_nargs := n\<rparr>;
          if (0 \<le> maxargs b \<and> maxargs b < n) \<or> n < minargs b then raise E E_NARGS w
          else op_call c E w }
      | None \<Rightarrow> op_call c E w)"

definition tick :: opfun where
  "tick E w =
     (let w = set_frame (\<lambda>f. f\<lparr>ev_ticks := ev_ticks f + 1\<rparr>) w
      in if e_max_ticks E \<le> sint (ev_ticks (w_frame w)) then raise E E_TICKS w else Some w)"

definition exec_op :: "env \<Rightarrow> world \<Rightarrow> (world \<times> bool) option" where
  "exec_op E w = do {
     c \<leftarrow> code_at w (pc w);
     op \<leftarrow> opcodes c;
     case op of
       Some _ \<Rightarrow> do {
         w \<leftarrow> call_op c E (set_frame (\<lambda>f. f\<lparr>ev_last := c, ev_pc := ev_pc f + 1\<rparr>) w);
         w \<leftarrow> tick E w;
         Some (w, True) }
     | None \<Rightarrow> do {
         w \<leftarrow> raise E E_INTERNAL (out (Log (''execute(): unknown opcode '' @ num_text c)) w);
         Some (w, False) } }"

fun exec_loop :: "nat \<Rightarrow> env \<Rightarrow> world \<Rightarrow> world option" where
  "exec_loop 0 E w = (if w_state w \<noteq> RUNNING then Some w else None)"
| "exec_loop (Suc n) E w =
     (if w_state w \<noteq> RUNNING then Some w
      else do {
        (w, go) \<leftarrow> exec_op E w;
        if go then exec_loop n E w else Some w })"

section \<open>Starting and stopping\<close>

text \<open>
  \<open>free_frame\<close> empties the stack and drops the references to the method and the object. When
  the method has been removed from its object meanwhile, its symbols go with the last
  reference.
\<close>

definition free_frame :: "env \<Rightarrow> world \<Rightarrow> world option" where
  "free_frame E w = do {
     let f = w_frame w;
     let d = w_db w;
     let k = oid (o_id (ev_on f));
     d' \<leftarrow> (case d k of
         None \<Rightarrow> Some d
       | Some ob \<Rightarrow> do {
           ob' \<leftarrow> free_method (e_ref1 E (w_count w)) ob (ev_m f);
           Some (d(k := Some ob')) });
     Some (set_stack [] (ask (w\<lparr>w_db := d'\<rparr>))) }"

definition return_args :: "var \<Rightarrow> var list" where
  "return_args v = (if v = VNUM 0 then [VNUM 0] else [v])"

definition execute :: opfun where
  "execute E w = do {
     let ob = retrieve (w_db w) (ev_this (w_frame w));
     let w = w\<lparr>w_retval := VNUM 0, w_this := map_option (\<lambda>_. oid (ev_this (w_frame w))) ob,
               w_state := (if ob = None then STOPPED else w_state w)\<rparr>;
     w \<leftarrow> exec_loop (e_fuel E) E w;
     w \<leftarrow> (if w_state w \<noteq> BLOCKED then free_frame E (clear_locks (ev_msgid (w_frame w)) w)
          else Some w);
     if w_state w = STOPPED
     then map_option fst
       (send_message E (frame_message RETURN (return_args (w_retval w)) w) None w)
     else Some w }"

text \<open>\<open>do_method\<close>; the local variables are written to the stack without a look at its size.\<close>

definition do_method ::
  "object \<Rightarrow> cmethod \<Rightarrow> i32 \<Rightarrow> i32 \<Rightarrow> i32 \<Rightarrow> objid \<Rightarrow> objid \<Rightarrow> objid \<Rightarrow> var list \<Rightarrow> opfun" where
  "do_method ob m msgid age ticks player from to args E w =
     (if STACK_SIZE < var_count_local m then None
      else do {
        let f = (w_frame w)\<lparr>ev_pc := 0, ev_nvars := var_count_local m,
            ev_stack := var_init_local m, ev_msgid := msgid, ev_age := age, ev_ticks := ticks,
            ev_player := player, ev_caller := from, ev_this := to, ev_on := ob,
            ev_args := args, ev_m := m, ev_last := -1\<rparr>;
        w \<leftarrow> pushn E (-1) (w\<lparr>w_frame := f\<rparr>);
        execute E (w\<lparr>w_state := RUNNING\<rparr>) })"

definition call_method ::
  "i32 \<Rightarrow> i32 \<Rightarrow> i32 \<Rightarrow> objid \<Rightarrow> objid \<Rightarrow> objid \<Rightarrow> string \<Rightarrow> var list \<Rightarrow> objid \<Rightarrow>
   env \<Rightarrow> world \<Rightarrow> (err \<times> world) option" where
  "call_method msgid age ticks player from to msg args on E w =
     (case retrieve (w_db w) on of
        None \<Rightarrow> Some (E_OBJNF, w)
      | Some ob \<Rightarrow>
          (case find_method_recursive (e_fuel E) (w_db w) on msg of
             Some (Some (m, q)) \<Rightarrow> do {
               w \<leftarrow> do_method q m msgid age ticks player from to args E w;
               Some (E_NONE, w) }
           | Some None \<Rightarrow> Some (E_METHODNF, w)
           | None \<Rightarrow> None))"

section \<open>Resuming\<close>

definition resume_method :: "event \<Rightarrow> opfun" where
  "resume_method e E w = execute E (w\<lparr>w_frame := e, w_state := RUNNING\<rparr>)"

definition resume_method_return :: "event \<Rightarrow> var \<Rightarrow> opfun" where
  "resume_method_return e v E w = do {
     w \<leftarrow> push E v (w\<lparr>w_frame := e, w_state := RUNNING\<rparr>);
     execute E w }"

definition resume_method_halt :: "event \<Rightarrow> opfun" where
  "resume_method_halt e E w = execute E (w\<lparr>w_frame := e, w_state := HALTED\<rparr>)"

text \<open>The arguments of a \<open>raise\<close> message are an error and the text of the traceback.\<close>

fun as_err :: "var \<Rightarrow> i32 option" where
  "as_err (VERR e) = Some e"
| "as_err _ = None"

fun as_str :: "var \<Rightarrow> string option" where
  "as_str (VSTR s) = Some (sdata s)"
| "as_str _ = None"

definition resume_method_raise :: "event \<Rightarrow> var list \<Rightarrow> opfun" where
  "resume_method_raise e args E w = do {
     let w = w\<lparr>w_frame := e\<rparr>;
     a0 \<leftarrow> nth_opt args 0;
     code \<leftarrow> as_err a0;
     h \<leftarrow> nth_opt (m_ehandler (ev_m e)) (sint code);
     w \<leftarrow> (case h of
         EH_DEFAULT \<Rightarrow> do {
           a1 \<leftarrow> nth_opt args 1;
           text \<leftarrow> as_str a1;
           text \<leftarrow> (if text \<noteq> []
             then add_traceback E (text @ [CHR 0x0D, CHR 0x0A] @ ''called from '') w
             else add_traceback_header E text code w);
           w \<leftarrow> send_raise E (args[1 := VSTRs text]) w;
           Some (w\<lparr>w_state := RAISED\<rparr>) }
       | _ \<Rightarrow> do {
           w \<leftarrow> push E a0 w;
           Some (w\<lparr>w_state := RUNNING\<rparr>) });
     execute E w }"

section \<open>Verbs\<close>

text \<open>
  The four arguments of the method of a verb. A verb without a preposition gets the whole
  rest of the line as its direct object, with the quotes taken off.
\<close>

definition verb_args :: "string \<Rightarrow> string \<Rightarrow> prep_result option \<Rightarrow> var list option" where
  "verb_args verb argstr r =
     (case r of
        None \<Rightarrow> do {
          d \<leftarrow> string_fixquote argstr;
          Some [VSTRs verb, VSTRs d, VSTRs (sym_sys BLANK), VSTRs (sym_sys BLANK)] }
      | Some p \<Rightarrow> do {
          i \<leftarrow> string_fixquote (pr_iobj p);
          Some [VSTRs verb, VSTRs (pr_dobj p), VSTRs (pr_prep p), VSTRs i] })"

text \<open>The first verb of the object that matches: its method and the arguments.\<close>

fun verb_search ::
  "object \<Rightarrow> string \<Rightarrow> string \<Rightarrow> verbdef list \<Rightarrow> (string \<times> var list) option option" where
  "verb_search ob verb argstr [] = Some None"
| "verb_search ob verb argstr (v # vs) = do {
     names \<leftarrow> sym_str ob (vb_verb v);
     hit \<leftarrow> verb_match names verb;
     if \<not> hit then verb_search ob verb argstr vs
     else do {
       r \<leftarrow> (if vb_prep v = -1 then Some (Some None)
            else do {
              preps \<leftarrow> sym_str ob (vb_prep v);
              p \<leftarrow> prep_match preps argstr;
              Some (map_option Some p) });
       case r of
         None \<Rightarrow> verb_search ob verb argstr vs
       | Some p \<Rightarrow> do {
           m \<leftarrow> sym_str ob (vb_method v);
           args \<leftarrow> verb_args verb argstr p;
           Some (Some (m, args)) } } }"

text \<open>
  The search over the parents: the first object with a matching verb decides, unless the call
  of its method ends with the error \<open>E_VERBNF\<close> itself, which it never does.
\<close>

fun verb_parents ::
  "(object \<Rightarrow> (string \<times> var list) option option) \<Rightarrow> db \<Rightarrow> var list \<Rightarrow>
     (string \<times> var list) option option" where
  "verb_parents search d [] = Some None"
| "verb_parents search d (p # rest) = do {
     pid \<leftarrow> as_obj p;
     r \<leftarrow> (case retrieve d pid of None \<Rightarrow> Some None | Some q \<Rightarrow> search q);
     if r \<noteq> None then Some r else verb_parents search d rest }"

fun verb_search_rec ::
  "nat \<Rightarrow> db \<Rightarrow> string \<Rightarrow> string \<Rightarrow> object \<Rightarrow> (string \<times> var list) option option" where
  "verb_search_rec 0 d verb argstr ob = None"
| "verb_search_rec (Suc n) d verb argstr ob = do {
     r \<leftarrow> verb_search ob verb argstr (o_verbs ob);
     if r \<noteq> None then Some r
     else verb_parents (verb_search_rec n d verb argstr) d (o_parents ob) }"

definition call_verb_recursive ::
  "i32 \<Rightarrow> i32 \<Rightarrow> i32 \<Rightarrow> objid \<Rightarrow> objid \<Rightarrow> objid \<Rightarrow> string \<Rightarrow> string \<Rightarrow> env \<Rightarrow> world \<Rightarrow>
     (err \<times> world) option" where
  "call_verb_recursive msgid age ticks player from to verb argstr E w =
     (case retrieve (w_db w) to of
        None \<Rightarrow> Some (E_VERBNF, w)
      | Some ob \<Rightarrow> do {
          r \<leftarrow> verb_search_rec (e_fuel E) (w_db w) verb argstr ob;
          case r of
            None \<Rightarrow> Some (E_VERBNF, w)
          | Some (m, args) \<Rightarrow> call_method msgid age ticks player from to m args to E w })"

definition call_verb ::
  "i32 \<Rightarrow> i32 \<Rightarrow> i32 \<Rightarrow> objid \<Rightarrow> objid \<Rightarrow> objid \<Rightarrow> var list \<Rightarrow> env \<Rightarrow> world \<Rightarrow>
     (err \<times> world) option" where
  "call_verb msgid age ticks player from to args E w =
     (case args of
        [a] \<Rightarrow>
          (case a of
             VSTR s \<Rightarrow> do {
               let start = dropWhile c_isspace (sdata s);
               if start = [] then Some (E_VERBNF, w)
               else call_verb_recursive msgid age ticks player from to
                 (takeWhile (\<lambda>c. \<not> c_isspace c) start)
                 (tl (dropWhile (\<lambda>c. \<not> c_isspace c) start)) E w }
           | _ \<Rightarrow> Some (E_ARGTYPE, w))
      | _ \<Rightarrow> Some (E_NARGS, w))"

end
