(* ===== verification/Queue.thy ===== *)
theory Queue
  imports Exec
begin

text \<open>
  The queues of messages and events (\<open>message.c\<close>). The queues are lists, oldest first; a
  pointer into a queue is an index. While an element of a queue is processed, the methods it
  runs may append to the queues, and nothing else moves elements: an element is removed only
  by the loop that processes it, a reply by the event it resumes.
\<close>

section \<open>Helpers\<close>

definition is_reply :: "string \<Rightarrow> bool" where
  "is_reply s \<longleftrightarrow> c_strcasecmp s ''return'' = 0 \<or> c_strcasecmp s ''raise'' = 0 \<or>
     c_strcasecmp s ''halt'' = 0"

definition remove_nth :: "nat \<Rightarrow> 'a list \<Rightarrow> 'a list" where
  "remove_nth i xs = take i xs @ drop (Suc i) xs"

definition msg_rm :: "nat \<Rightarrow> world \<Rightarrow> world" where
  "msg_rm i w = w\<lparr>w_msgs := remove_nth i (w_msgs w)\<rparr>"

definition event_rm :: "nat \<Rightarrow> world \<Rightarrow> world" where
  "event_rm i w = w\<lparr>w_events := remove_nth i (w_events w)\<rparr>"

definition put_event :: "nat \<Rightarrow> event \<Rightarrow> world \<Rightarrow> world" where
  "put_event i e w = w\<lparr>w_events := (w_events w)[i := e]\<rparr>"

text \<open>\<open>find_reply\<close>: the place of the first reply the event waits for, and the reply.\<close>

fun find_reply_in :: "nat \<Rightarrow> i32 \<Rightarrow> message list \<Rightarrow> (nat \<times> message) option" where
  "find_reply_in i msgid [] = None"
| "find_reply_in i msgid (m # ms) =
     (if ms_msgid m = msgid \<and> is_reply (ms_text m) then Some (i, m)
      else find_reply_in (Suc i) msgid ms)"

definition find_reply :: "event \<Rightarrow> world \<Rightarrow> (nat \<times> message) option" where
  "find_reply e w = find_reply_in 0 (ev_bmsgid e) (w_msgs w)"

definition min_time :: "timeval \<Rightarrow> timeval \<Rightarrow> timeval" where
  "min_time a b = (if timer_less a b then a else b)"

section \<open>Events\<close>

text \<open>
  Each function processes the event \<open>e\<close> at place \<open>i\<close> of the queue; the first result tells
  whether the event is done.
\<close>

type_synonym ev_result = "(bool \<times> timeval \<times> world) option"

definition timed_out :: "event \<Rightarrow> env \<Rightarrow> timeval \<Rightarrow> world \<Rightarrow> ev_result" where
  "timed_out e E timeout w = do {
     w \<leftarrow> resume_method_raise e (make_raise_args E_TIMEOUT) E w;
     Some (True, timeout, w) }"

definition resume_with_reply :: "event \<Rightarrow> message \<Rightarrow> opfun" where
  "resume_with_reply e m E w =
     (if c_strcasecmp (ms_text m) ''return'' = 0
      then do { v \<leftarrow> nth_opt (ms_args m) 0; resume_method_return e v E w }
      else if c_strcasecmp (ms_text m) ''raise'' = 0 then resume_method_raise e (ms_args m) E w
      else resume_method_halt e E w)"

definition process_message_event ::
  "nat \<Rightarrow> event \<Rightarrow> env \<Rightarrow> timeval \<Rightarrow> timeval \<Rightarrow> world \<Rightarrow> ev_result" where
  "process_message_event i e E now timeout w =
     (case find_reply e w of
        Some (j, m) \<Rightarrow> do {
          let e' = e\<lparr>ev_ticks := ms_ticks m\<rparr>;
          w \<leftarrow> resume_with_reply e' m E (put_event i e' w);
          Some (True, timeout, msg_rm j w) }
      | None \<Rightarrow>
          if server (ev_bobj e) = 0 then Some (False, timeout, w)
          else if timer_less (ev_timeout e) now then timed_out e E timeout w
          else if timer_less (ev_retry_at e) now then do {
            let e1 = e\<lparr>ev_retry_int := ev_retry_int e * 2\<rparr>;
            let e2 = e1\<lparr>ev_retry_at := timer_addmsec now (sint (ev_retry_int e1))\<rparr>;
            line \<leftarrow> ev_msg e;
            let down = e_down E (w_count w);
            let w = ask (out (Yo (sint (server (ev_bobj e))) line) (put_event i e2 w));
            if down then timed_out e2 E timeout w
            else Some (False, min_time (timer_sub (ev_retry_at e2) now) timeout, w) }
          else Some (False, min_time (timer_sub (ev_retry_at e) now) timeout, w))"

text \<open>
  A system message event waits for the reply to a command of a player. \<open>do_parse\<close> leaves its
  player unset, so the notice of the timeout reads an uninitialised variable.
\<close>

definition SYM_PARSE :: i32 where
  "SYM_PARSE = 2"

definition process_sys_message_event ::
  "event \<Rightarrow> env \<Rightarrow> timeval \<Rightarrow> timeval \<Rightarrow> world \<Rightarrow> ev_result" where
  "process_sys_message_event e E now timeout w =
     (case find_reply e w of
        Some (j, m) \<Rightarrow> do {
          w \<leftarrow> (if ev_msgid e = SYM_PARSE \<and> c_strcasecmp (ms_text m) ''raise'' = 0
               then do {
                 a \<leftarrow> nth_opt (ms_args m) 1;
                 text \<leftarrow> as_str a;
                 Some (out (Tell (oid (ms_player m)) text True) w) }
               else Some w);
          Some (True, timeout, msg_rm j w) }
      | None \<Rightarrow> if timer_less (ev_timeout e) now then None else Some (False, timeout, w))"

definition process_lock_event :: "event \<Rightarrow> env \<Rightarrow> timeval \<Rightarrow> timeval \<Rightarrow> world \<Rightarrow> ev_result" where
  "process_lock_event e E now timeout w = do {
     taken \<leftarrow> find_lock (retrieve (w_db w) (ev_this e)) (ev_lock e) (ev_msgid e);
     if \<not> taken then do { w \<leftarrow> resume_method e E w; Some (True, timeout, w) }
     else if timer_less (ev_timeout e) now then timed_out e E timeout w
     else Some (False, timeout, w) }"

definition process_timer_event :: "event \<Rightarrow> env \<Rightarrow> timeval \<Rightarrow> timeval \<Rightarrow> world \<Rightarrow> ev_result" where
  "process_timer_event e E now timeout w =
     (if timer_less (ev_timeout e) now
      then do { w \<leftarrow> resume_method e E w; Some (True, timeout, w) }
      else Some (False, timeout, w))"

definition process_event ::
  "nat \<Rightarrow> event \<Rightarrow> env \<Rightarrow> timeval \<Rightarrow> timeval \<Rightarrow> world \<Rightarrow> ev_result" where
  "process_event i e E now timeout w =
     (case ev_blocked e of
        BL_MESSAGE \<Rightarrow> process_message_event i e E now timeout w
      | BL_LOCK \<Rightarrow> process_lock_event e E now timeout w
      | BL_TIMER \<Rightarrow> process_timer_event e E now timeout w
      | BL_SYS_MESSAGE \<Rightarrow> process_sys_message_event e E now timeout w
      | BL_DEAD \<Rightarrow> do {
          w \<leftarrow> resume_method_raise e (make_raise_args E_TERM) E w;
          Some (True, timeout, w) })"

section \<open>Messages\<close>

text \<open>The answer to a message that runs no method.\<close>

definition answer :: "message \<Rightarrow> sys_sym \<Rightarrow> var list \<Rightarrow> opfun" where
  "answer m s args E w = map_option fst (send_message E
     \<lparr>ms_msgid = ms_msgid m, ms_age = ms_age m, ms_ticks = ms_ticks m, ms_player = ms_player m,
      ms_from = ms_to m, ms_to = ms_from m, ms_text = sym_sys s, ms_args = args,
      ms_on = ms_from m\<rparr> None w)"

definition process_message :: "message \<Rightarrow> opfun" where
  "process_message m E w =
     (if \<not> valid (w_db w) (ms_to m) then answer m RAISE (make_raise_args E_OBJNF) E w
      else if c_strcasecmp (ms_text m) ''call_verb'' = 0 then do {
        (r, w) \<leftarrow> call_verb (ms_msgid m) (ms_age m) (ms_ticks m) (ms_player m) (ms_from m)
          (ms_to m) (ms_args m) E w;
        if r = E_VERBNF then answer m RETURN [VNUM 1] E w
        else if r \<noteq> E_NONE then answer m RAISE (make_raise_args r) E w
        else Some w }
      else do {
        (r, w) \<leftarrow> call_method (ms_msgid m) (ms_age m) (ms_ticks m) (ms_player m) (ms_from m)
          (ms_to m) (ms_text m) (ms_args m) (ms_on m) E w;
        if r \<noteq> E_NONE then answer m RAISE (make_raise_args E_METHODNF) E w else Some w })"

section \<open>process_queues\<close>

text \<open>
  One pass over the events and one over the messages. The next element is looked up before
  the present one is processed: what the last one appends waits for the next pass. The first
  argument is fuel.
\<close>

fun event_pass ::
  "nat \<Rightarrow> env \<Rightarrow> timeval \<Rightarrow> nat \<Rightarrow> bool \<Rightarrow> timeval \<Rightarrow> world \<Rightarrow> (bool \<times> timeval \<times> world) option" where
  "event_pass 0 E now i handled timeout w = None"
| "event_pass (Suc n) E now i handled timeout w =
     (if length (w_events w) \<le> i then Some (handled, timeout, w)
      else do {
        let e = w_events w ! i;
        let more = (Suc i < length (w_events w));
        (done, timeout, w) \<leftarrow> process_event i e E now timeout w;
        let timeout = (if done then timeout
          else min_time (timer_sub (ev_timeout (w_events w ! i)) now) timeout);
        let w = (if done then event_rm i w else w);
        let i' = (if done then i else Suc i);
        if more then event_pass n E now i' (handled \<or> done) timeout w
        else Some (handled \<or> done, timeout, w) })"

fun msg_pass :: "nat \<Rightarrow> env \<Rightarrow> nat \<Rightarrow> bool \<Rightarrow> world \<Rightarrow> (bool \<times> world) option" where
  "msg_pass 0 E i handled w = None"
| "msg_pass (Suc n) E i handled w =
     (if length (w_msgs w) \<le> i then Some (handled, w)
      else do {
        let m = w_msgs w ! i;
        let more = (Suc i < length (w_msgs w));
        let reply = is_reply (ms_text m);
        w \<leftarrow> (if reply then Some w
             else do { w \<leftarrow> process_message m E w; Some (msg_rm i w) });
        let i' = (if reply then Suc i else i);
        if more then msg_pass n E i' (handled \<or> \<not> reply) w
        else Some (handled \<or> \<not> reply, w) })"

fun queue_loop :: "nat \<Rightarrow> env \<Rightarrow> timeval \<Rightarrow> timeval \<Rightarrow> world \<Rightarrow> (timeval \<times> world) option" where
  "queue_loop 0 E now timeout w = None"
| "queue_loop (Suc n) E now timeout w = do {
     (evs, timeout, w) \<leftarrow> event_pass n E now 0 False timeout w;
     (msgs, w) \<leftarrow> msg_pass n E 0 False w;
     if msgs \<or> evs then queue_loop n E now timeout w else Some (timeout, w) }"

definition process_queues :: "nat \<Rightarrow> env \<Rightarrow> timeval \<Rightarrow> timeval \<Rightarrow> world \<Rightarrow> (timeval \<times> world) option" where
  "process_queues n E now timeout w = do {
     (timeout, w) \<leftarrow> queue_loop n E now timeout w;
     let w = w\<lparr>w_msgs := filter (\<lambda>m. \<not> is_reply (ms_text m)) (w_msgs w)\<rparr>;
     Some (if tv_sec timeout < 0 then timeout\<lparr>tv_sec := 0\<rparr> else timeout, w) }"

section \<open>What comes in\<close>

text \<open>
  \<open>receive_message\<close>: the number it returns, and the servers with the number of the last
  message.
\<close>

definition receive_message ::
  "env \<Rightarrow> int \<Rightarrow> string \<Rightarrow> world \<Rightarrow> (int \<times> servtab \<times> world) option" where
  "receive_message E serv line w = do {
     r \<leftarrow> parse_message (e_same E) (e_servers E) line;
     case r of
       None \<Rightarrow> Some (1, e_servers E, out (Log (''UNPARSEABLE msg from server #'' @
           num_text serv @ '': '' @ line)) w)
     | Some (m, _) \<Rightarrow>
         if is_reply (ms_text m) then Some (0, e_servers E, msg_add m w)
         else do {
           (t, d) \<leftarrow> serv_discardmsg (e_servers E) (sint (server (ms_from m))) (ms_msgid m);
           Some (0, t, if d \<noteq> 0 then w else msg_add m w) } }"

text \<open>
  \<open>do_parse\<close>: a message from the player to itself, and the event that waits for its reply.
  The fields of the event that the code does not set keep the values of \<open>w_frame\<close> here;
  nothing but the report of a timeout reads one.
\<close>

definition do_parse :: "i32 \<Rightarrow> sys_sym \<Rightarrow> var list \<Rightarrow> env \<Rightarrow> world \<Rightarrow> world" where
  "do_parse player s args E w =
     (let p = \<lparr>server = 0, oid = player\<rparr>; n = w_next w;
          now = e_time E (Suc (w_count w));
          m = \<lparr>ms_msgid = n, ms_age = 0, ms_ticks = 0, ms_player = p, ms_from = p, ms_to = p,
               ms_text = sym_sys s, ms_args = args, ms_on = p\<rparr>;
          e = (w_frame w)\<lparr>ev_bmsgid := n, ev_msg := None,
               ev_timeout := now\<lparr>tv_sec := tv_sec now + MSG_TIMEOUT * 2\<rparr>,
               ev_blocked := BL_SYS_MESSAGE, ev_msgid := SYM_PARSE\<rparr>
      in event_add e (msg_add m (ask (ask (w\<lparr>w_next := n + 1\<rparr>)))))"

definition parse :: "i32 \<Rightarrow> string \<Rightarrow> int \<Rightarrow> env \<Rightarrow> world \<Rightarrow> world" where
  "parse player command fd = do_parse player PARSE [VSTRs command, VNUMi fd]"

definition new_connect :: "i32 \<Rightarrow> int \<Rightarrow> env \<Rightarrow> world \<Rightarrow> world" where
  "new_connect player fd = do_parse player SYM_CONNECT [VNUMi fd]"

definition cmkill_all :: "nat \<Rightarrow> env \<Rightarrow> world \<Rightarrow> (timeval \<times> world) option" where
  "cmkill_all n E w = process_queues n E \<lparr>tv_sec = 0, tv_usec = 0\<rparr> \<lparr>tv_sec = 0, tv_usec = 0\<rparr>
     (w\<lparr>w_events := map (\<lambda>e. if ev_blocked e = BL_SYS_MESSAGE then e else kill_event e) (w_events w)\<rparr>)"

end
