(* ===== verification/MachineInv.thy ===== *)
theory MachineInv
  imports Queue
begin

text \<open>
  What the primitives of the interpreter keep: the identity of the running frame (its message,
  its method, its objects and its arguments) and the bound on the stack. \<open>keep1\<close> and \<open>keep2\<close>
  say it of a computation that returns a state, or a value and a state; the rules of
  \<open>keep_rules\<close> follow the shape of a definition.
\<close>

section \<open>Computations that keep the frame\<close>

record frame_id =
  fi_msgid :: i32
  fi_age :: i32
  fi_ticks :: i32
  fi_this :: objid
  fi_on :: object
  fi_caller :: objid
  fi_args :: "var list"
  fi_m :: cmethod
  fi_nvars :: nat

definition frame_id :: "world \<Rightarrow> frame_id" where
  "frame_id w = (let f = w_frame w in
     \<lparr>fi_msgid = ev_msgid f, fi_age = ev_age f, fi_ticks = ev_ticks f, fi_this = ev_this f,
      fi_on = ev_on f, fi_caller = ev_caller f, fi_args = ev_args f, fi_m = ev_m f,
      fi_nvars = ev_nvars f\<rparr>)"

definition stays :: "frame_id \<Rightarrow> world \<Rightarrow> bool" where
  "stays k w \<longleftrightarrow> frame_id w = k \<and> length (stack w) \<le> STACK_SIZE"

definition keep1 :: "frame_id \<Rightarrow> world option \<Rightarrow> bool" where
  "keep1 k r \<longleftrightarrow> (\<forall>w. r = Some w \<longrightarrow> stays k w)"

definition keep2 :: "frame_id \<Rightarrow> ('a \<times> world) option \<Rightarrow> bool" where
  "keep2 k r \<longleftrightarrow> (\<forall>x w. r = Some (x, w) \<longrightarrow> stays k w)"

named_theorems keep_rules \<open>rules for the computations that keep the frame\<close>
named_theorems stays_simps \<open>updates of the state that keep the frame\<close>

lemma keep1I: "(\<And>w. r = Some w \<Longrightarrow> stays k w) \<Longrightarrow> keep1 k r"
  by (simp add: keep1_def)

lemma keep1D: "keep1 k r \<Longrightarrow> r = Some w \<Longrightarrow> stays k w"
  by (simp add: keep1_def)

lemma keep2D: "keep2 k r \<Longrightarrow> r = Some (x, w) \<Longrightarrow> stays k w"
  by (simp add: keep2_def)

lemma keep_leaves [keep_rules]:
  "stays k w \<Longrightarrow> keep1 k (Some w)"
  "stays k w \<Longrightarrow> keep2 k (Some (x, w))"
  "keep1 k None" "keep2 k None"
  by (simp_all add: keep1_def keep2_def)

lemma keep_if [keep_rules]:
  "(b \<Longrightarrow> keep1 k r) \<Longrightarrow> (\<not> b \<Longrightarrow> keep1 k s) \<Longrightarrow> keep1 k (if b then r else s)"
  "(b \<Longrightarrow> keep2 k r2) \<Longrightarrow> (\<not> b \<Longrightarrow> keep2 k s2) \<Longrightarrow> keep2 k (if b then r2 else s2)"
  by simp_all

lemma keep_bind1 [keep_rules]:
  "keep1 k r \<Longrightarrow> (\<And>w. stays k w \<Longrightarrow> keep1 k (f w)) \<Longrightarrow> keep1 k (Option.bind r f)"
  "keep1 k r \<Longrightarrow> (\<And>w. stays k w \<Longrightarrow> keep2 k (g w)) \<Longrightarrow> keep2 k (Option.bind r g)"
  by (auto simp: keep1_def keep2_def split: bind_splits)

lemma keep_bind2 [keep_rules]:
  "keep2 k r \<Longrightarrow> (\<And>x w. stays k w \<Longrightarrow> keep1 k (f (x, w))) \<Longrightarrow> keep1 k (Option.bind r f)"
  "keep2 k r \<Longrightarrow> (\<And>x w. stays k w \<Longrightarrow> keep2 k (g (x, w))) \<Longrightarrow> keep2 k (Option.bind r g)"
  by (auto simp: keep1_def keep2_def split: bind_splits)

lemma keep_map_option [keep_rules]:
  "keep2 k r \<Longrightarrow> keep1 k (map_option snd r)"
  "(\<And>x w. r' = Some (w, x) \<Longrightarrow> stays k w) \<Longrightarrow> keep1 k (map_option fst r')"
  by (auto simp: keep1_def keep2_def)

text \<open>A bind of something that is no state; the rules are instances, so that none applies to a state.\<close>

lemma keep_pure:
  "(\<And>x. r = Some x \<Longrightarrow> keep1 k (f x)) \<Longrightarrow> keep1 k (Option.bind r f)"
  "(\<And>x. r = Some x \<Longrightarrow> keep2 k (g x)) \<Longrightarrow> keep2 k (Option.bind r g)"
  by (cases r; simp add: keep1_def keep2_def)+

lemmas keep_pure_int [keep_rules] = keep_pure [where 'a = int]
lemmas keep_pure_nat [keep_rules] = keep_pure [where 'a = nat]
lemmas keep_pure_bool [keep_rules] = keep_pure [where 'a = bool]
lemmas keep_pure_object [keep_rules] = keep_pure [where 'a = object]
lemmas keep_pure_cstr [keep_rules] = keep_pure [where 'a = cstr]
lemmas keep_pure_char [keep_rules] = keep_pure [where 'a = char]
lemmas keep_pure_var [keep_rules] = keep_pure [where 'a = var]
lemmas keep_pure_i32 [keep_rules] = keep_pure [where 'a = i32]
lemmas keep_pure_eh [keep_rules] = keep_pure [where 'a = eh]
lemmas keep_pure_err [keep_rules] = keep_pure [where 'a = err]
lemmas keep_pure_list [keep_rules] = keep_pure [where 'a = "'c list"]
lemmas keep_pure_option [keep_rules] = keep_pure [where 'a = "'c option"]
lemmas keep_pure_hasht [keep_rules] = keep_pure [where 'a = "'c hasht"]
lemmas keep_pure_db [keep_rules] = keep_pure [where 'a = "i32 \<Rightarrow> 'c"]
lemmas keep_pure_pairs [keep_rules] = keep_pure [where 'a = "'c \<times> err"]
  keep_pure [where 'a = "'c \<times> int"] keep_pure [where 'a = "'c \<times> bool"]
  keep_pure [where 'a = "'c \<times> 'd option"] keep_pure [where 'a = "'c \<times> 'd list"]

lemma keep_case_option [keep_rules]:
  "(v = None \<Longrightarrow> keep1 k a) \<Longrightarrow> (\<And>x. v = Some x \<Longrightarrow> keep1 k (f x)) \<Longrightarrow> keep1 k (case_option a f v)"
  "(v = None \<Longrightarrow> keep2 k b) \<Longrightarrow> (\<And>x. v = Some x \<Longrightarrow> keep2 k (g x)) \<Longrightarrow> keep2 k (case_option b g v)"
  by (cases v; simp)+

lemma keep_case_list [keep_rules]:
  "(v = [] \<Longrightarrow> keep1 k a) \<Longrightarrow> (\<And>x xs. v = x # xs \<Longrightarrow> keep1 k (f x xs)) \<Longrightarrow> keep1 k (case_list a f v)"
  "(v = [] \<Longrightarrow> keep2 k b) \<Longrightarrow> (\<And>x xs. v = x # xs \<Longrightarrow> keep2 k (g x xs)) \<Longrightarrow> keep2 k (case_list b g v)"
  by (cases v; simp)+

lemma keep_case_prod [keep_rules]:
  "(\<And>x y. p = (x, y) \<Longrightarrow> keep1 k (f x y)) \<Longrightarrow> keep1 k (case_prod f p)"
  "(\<And>x y. p = (x, y) \<Longrightarrow> keep2 k (g x y)) \<Longrightarrow> keep2 k (case_prod g p)"
  by (cases p; simp)+

lemma keep_case_eh [keep_rules]:
  "keep1 k a \<Longrightarrow> keep1 k b \<Longrightarrow> keep1 k c \<Longrightarrow> keep1 k (case_eh a b c h)"
  by (cases h) simp_all

lemma keep_case_var [keep_rules]:
  "(\<And>x. v = VNUM x \<Longrightarrow> keep1 k (f1 x)) \<Longrightarrow> (\<And>x. v = VSTR x \<Longrightarrow> keep1 k (f2 x)) \<Longrightarrow>
   (\<And>x. v = VOBJ x \<Longrightarrow> keep1 k (f3 x)) \<Longrightarrow> (\<And>x. v = VLIST x \<Longrightarrow> keep1 k (f4 x)) \<Longrightarrow>
   (\<And>x. v = VMAP x \<Longrightarrow> keep1 k (f5 x)) \<Longrightarrow> (\<And>x. v = VERR x \<Longrightarrow> keep1 k (f6 x)) \<Longrightarrow>
   (\<And>x. v = VPC x \<Longrightarrow> keep1 k (f7 x)) \<Longrightarrow>
   keep1 k (case v of VNUM x \<Rightarrow> f1 x | VSTR x \<Rightarrow> f2 x | VOBJ x \<Rightarrow> f3 x | VLIST x \<Rightarrow> f4 x
     | VMAP x \<Rightarrow> f5 x | VERR x \<Rightarrow> f6 x | VPC x \<Rightarrow> f7 x)"
  "(\<And>x. v = VNUM x \<Longrightarrow> keep2 k (g1 x)) \<Longrightarrow> (\<And>x. v = VSTR x \<Longrightarrow> keep2 k (g2 x)) \<Longrightarrow>
   (\<And>x. v = VOBJ x \<Longrightarrow> keep2 k (g3 x)) \<Longrightarrow> (\<And>x. v = VLIST x \<Longrightarrow> keep2 k (g4 x)) \<Longrightarrow>
   (\<And>x. v = VMAP x \<Longrightarrow> keep2 k (g5 x)) \<Longrightarrow> (\<And>x. v = VERR x \<Longrightarrow> keep2 k (g6 x)) \<Longrightarrow>
   (\<And>x. v = VPC x \<Longrightarrow> keep2 k (g7 x)) \<Longrightarrow>
   keep2 k (case v of VNUM x \<Rightarrow> g1 x | VSTR x \<Rightarrow> g2 x | VOBJ x \<Rightarrow> g3 x | VLIST x \<Rightarrow> g4 x
     | VMAP x \<Rightarrow> g5 x | VERR x \<Rightarrow> g6 x | VPC x \<Rightarrow> g7 x)"
  by (cases v; simp)+

section \<open>Updates of the state\<close>

lemma stays_update [stays_simps]:
  "stays k (w\<lparr>w_db := d\<rparr>) \<longleftrightarrow> stays k w"
  "stays k (w\<lparr>w_this := t\<rparr>) \<longleftrightarrow> stays k w"
  "stays k (w\<lparr>w_state := s\<rparr>) \<longleftrightarrow> stays k w"
  "stays k (w\<lparr>w_retval := v\<rparr>) \<longleftrightarrow> stays k w"
  "stays k (w\<lparr>w_nargs := n\<rparr>) \<longleftrightarrow> stays k w"
  "stays k (w\<lparr>w_msgs := ms\<rparr>) \<longleftrightarrow> stays k w"
  "stays k (w\<lparr>w_events := es\<rparr>) \<longleftrightarrow> stays k w"
  "stays k (w\<lparr>w_next := nx\<rparr>) \<longleftrightarrow> stays k w"
  "stays k (w\<lparr>w_count := c\<rparr>) \<longleftrightarrow> stays k w"
  "stays k (w\<lparr>w_out := x\<rparr>) \<longleftrightarrow> stays k w"
  by (simp_all add: stays_def frame_id_def Let_def)

lemma stays_frame [stays_simps]:
  "stays k (set_frame (\<lambda>f. f\<lparr>ev_pc := n\<rparr>) w) \<longleftrightarrow> stays k w"
  "stays k (w\<lparr>w_frame := w_frame w\<lparr>ev_player := p\<rparr>\<rparr>) \<longleftrightarrow> stays k w"
  "stays k (w\<lparr>w_frame := w_frame w\<lparr>ev_last := c, ev_pc := n\<rparr>\<rparr>) \<longleftrightarrow> stays k w"
  by (simp_all add: stays_def frame_id_def Let_def)

lemma stays_stack:
  "stays k w \<Longrightarrow> length s \<le> STACK_SIZE \<Longrightarrow> stays k (set_stack s w)"
  by (simp add: stays_def frame_id_def Let_def)

lemma stays_bound: "stays k w \<Longrightarrow> length (stack w) \<le> STACK_SIZE"
  by (simp add: stays_def)

lemma stays_event_add [stays_simps]: "stays k (event_add e w) \<longleftrightarrow> stays k w"
  by (simp add: event_add_def stays_simps)

lemma stays_msg_add [stays_simps]: "stays k (msg_add m w) \<longleftrightarrow> stays k w"
  by (simp add: msg_add_def stays_simps)

section \<open>The primitives\<close>

lemma send_message_stays:
  "send_message E m e w = Some (w', r) \<Longrightarrow> stays k w \<Longrightarrow> stays k w'"
  by (auto simp: send_message_def Let_def stays_simps split: if_splits bind_splits option.splits)

lemma send_raise_keeps [keep_rules]: "stays k w \<Longrightarrow> keep1 k (send_raise E args w)"
  by (auto simp: send_raise_def keep1_def dest: send_message_stays)

lemma raise_core_keeps [keep_rules]: "stays k w \<Longrightarrow> keep1 k (raise_core E e w)"
  unfolding raise_core_def by (intro keep_rules; simp add: stays_simps)

lemma push_keeps [keep_rules]: "stays k w \<Longrightarrow> keep1 k (push E v w)"
  unfolding push_def by (intro keep_rules; simp add: stays_stack)

lemma raise_code_keeps [keep_rules]: "stays k w \<Longrightarrow> keep1 k (raise_code E e w)"
  unfolding raise_code_def by (intro keep_rules; simp)

lemma pop_keeps [keep_rules]: "stays k w \<Longrightarrow> keep2 k (pop E w)"
  unfolding pop_def
  by (intro keep_rules stays_stack; simp) (use stays_bound [of k w] in simp)

lemma pushpc_keeps [keep_rules]: "stays k w \<Longrightarrow> keep1 k (pushpc E i w)"
  by (simp add: pushpc_def push_keeps)

lemma pushn_keeps [keep_rules]: "stays k w \<Longrightarrow> keep1 k (pushn E i w)"
  by (simp add: pushn_def push_keeps)

end
