(* ===== verification/OpsInv.thy ===== *)
theory OpsInv
  imports MachineInv
begin

text \<open>
  Every opcode keeps the identity of the running frame and the bound on the stack. The
  compiler, which is not modelled, has to keep them too.
\<close>

section \<open>Helpers of the opcodes\<close>

lemma next_arg_keeps [keep_rules]: "stays k w \<Longrightarrow> keep2 k (next_arg w)"
  unfolding next_arg_def by (intro keep_rules; simp add: stays_simps)

lemma count_shift_length: "count_shift i p xs = (r, n) \<Longrightarrow> length r = length xs"
  by (induction i p xs arbitrary: r n rule: count_shift.induct) (auto split: if_splits prod.splits)

lemma count_args_keeps [keep_rules]: "stays k w \<Longrightarrow> keep2 k (count_args E w)"
  unfolding count_args_def
  by (intro keep_rules stays_stack; simp)
     (auto dest!: count_shift_length stays_bound)

lemma pop_args_from_keeps [keep_rules]: "stays k w \<Longrightarrow> keep2 k (pop_args_from E n w)"
proof (induction n arbitrary: w)
  case 0
  then show ?case by (simp add: keep_leaves)
next
  case (Suc n)
  then show ?case unfolding pop_args_from.simps by (intro keep_rules; simp)
qed

lemma pop_args_keeps [keep_rules]: "stays k w \<Longrightarrow> keep2 k (pop_args E n w)"
  unfolding pop_args_def by (intro keep_rules; simp)

lemma pop_n_keeps [keep_rules]: "stays k w \<Longrightarrow> keep1 k (pop_n E n w)"
proof (induction n arbitrary: w)
  case 0
  then show ?case by (simp add: keep_leaves)
next
  case (Suc n)
  then show ?case unfolding pop_n.simps by (intro keep_rules; simp)
qed

lemma pop_pairs_keeps [keep_rules]: "stays k w \<Longrightarrow> keep2 k (pop_pairs E n m w)"
proof (induction n arbitrary: m w)
  case 0
  then show ?case by (simp add: keep_leaves)
next
  case (Suc n)
  then show ?case unfolding pop_pairs.simps by (intro keep_rules; simp)
qed

lemma push_all_keeps [keep_rules]: "stays k w \<Longrightarrow> keep1 k (push_all E vs w)"
proof (induction vs arbitrary: w)
  case Nil
  then show ?case by (simp add: keep_leaves)
next
  case (Cons v vs)
  then show ?case unfolding push_all.simps by (intro keep_rules; simp)
qed

lemma assign_local_keeps [keep_rules]: "stays k w \<Longrightarrow> keep1 k (assign_local n v w)"
  unfolding assign_local_def var_assign_local_def
  by (intro keep_rules stays_stack; simp) (auto dest: stays_bound)

lemma pop_to_pc_length: "pop_to_pc r = Some (p, s) \<Longrightarrow> length s \<le> length r"
  by (induction r rule: pop_to_pc.induct) (fastforce split: var.splits if_splits)+

lemma pop_levels_length: "pop_levels n r = Some (p, s) \<Longrightarrow> length s \<le> length r"
  by (induction n r rule: pop_levels.induct)
     (fastforce split: if_splits bind_splits dest: pop_to_pc_length)+

lemma break_to_keeps [keep_rules]: "stays k w \<Longrightarrow> keep2 k (break_to n w)"
  by (fastforce simp: break_to_def keep2_def split: bind_splits
      intro: stays_stack dest: pop_levels_length stays_bound)

lemma put_this_keeps [keep_rules]: "stays k w \<Longrightarrow> keep1 k (put_this ob w)"
  unfolding put_this_def by (intro keep_rules; simp add: stays_simps)

lemma assign_this_keeps [keep_rules]: "stays k w \<Longrightarrow> keep2 k (assign_this E name v w)"
  unfolding assign_this_def by (intro keep_rules; simp add: stays_simps)

lemma send_message_and_block_keeps [keep_rules]:
  "stays k w \<Longrightarrow> keep1 k (send_message_and_block E from to msg args on w)"
  by (auto simp: send_message_and_block_def Let_def keep1_def stays_simps split: bind_splits if_splits
      dest: send_message_stays keep1D [OF raise_code_keeps])

lemma do_asgnindex_keeps [keep_rules]: "stays k w \<Longrightarrow> keep2 k (do_asgnindex E ref1 v idx expr w)"
  unfolding do_asgnindex_def by (intro keep_rules; simp)

lemma dosub_keeps [keep_rules]: "stays k w \<Longrightarrow> keep2 k (dosub E r v w)"
  unfolding dosub_def Let_def
  by (intro keep_rules; simp add: stays_simps keep2_def split: list.splits)

lemma psub_loop_keeps [keep_rules]: "stays k w \<Longrightarrow> keep2 k (psub_loop E st r s w)"
proof (induction s arbitrary: st r w)
  case Nil
  then show ?case by (cases st) (simp_all add: keep_rules)
next
  case (Cons c s)
  note IH = Cons.IH
  show ?case
  proof (cases st)
    case (PS_name acc)
    show ?thesis unfolding PS_name psub_loop.simps
      by (intro keep_rules IH Cons.prems; simp add: IH)
  qed (simp_all add: IH Cons.prems)
qed

lemma psub_keeps [keep_rules]: "stays k w \<Longrightarrow> keep2 k (psub E s w)"
  by (simp add: psub_def psub_loop_keeps)

section \<open>The opcodes of \<open>opcodes1.c\<close>\<close>

lemma num_op_keeps [keep_rules]:
  "(\<And>a b w. stays k w \<Longrightarrow> keep1 k (f a b E w)) \<Longrightarrow> stays k w \<Longrightarrow> keep1 k (num_op f E w)"
  unfolding num_op_def Let_def by (intro keep_rules; simp add: stays_simps)

lemma rel_op_keeps [keep_rules]:
  "stays k w \<Longrightarrow> keep1 k (rel_op r E w)"
  unfolding rel_op_def Let_def by (intro keep_rules; simp add: stays_simps)

lemma eq_op_keeps [keep_rules]:
  "stays k w \<Longrightarrow> keep1 k (eq_op g E w)"
  unfolding eq_op_def Let_def by (intro keep_rules; simp add: stays_simps)

lemma op_add_keeps [keep_rules]: "stays k w \<Longrightarrow> keep1 k (op_add E w)"
  unfolding op_add_def Let_def by (intro keep_rules; simp add: stays_simps)

lemma op_sub_keeps [keep_rules]: "stays k w \<Longrightarrow> keep1 k (op_sub E w)"
  unfolding op_sub_def Let_def by (intro keep_rules; simp add: stays_simps)

lemma op_mul_keeps [keep_rules]: "stays k w \<Longrightarrow> keep1 k (op_mul E w)"
  unfolding op_mul_def Let_def by (intro keep_rules; simp add: stays_simps)

lemma op_div_keeps [keep_rules]: "stays k w \<Longrightarrow> keep1 k (op_div E w)"
  unfolding op_div_def Let_def by (intro keep_rules; simp add: stays_simps)

lemma op_mod_keeps [keep_rules]: "stays k w \<Longrightarrow> keep1 k (op_mod E w)"
  unfolding op_mod_def Let_def by (intro keep_rules; simp add: stays_simps)

lemma op_negate_keeps [keep_rules]: "stays k w \<Longrightarrow> keep1 k (op_negate E w)"
  unfolding op_negate_def Let_def by (intro keep_rules; simp add: stays_simps)

lemma op_and_keeps [keep_rules]: "stays k w \<Longrightarrow> keep1 k (op_and E w)"
  unfolding op_and_def Let_def by (intro keep_rules; simp add: stays_simps)

lemma op_or_keeps [keep_rules]: "stays k w \<Longrightarrow> keep1 k (op_or E w)"
  unfolding op_or_def Let_def by (intro keep_rules; simp add: stays_simps)

lemma op_not_keeps [keep_rules]: "stays k w \<Longrightarrow> keep1 k (op_not E w)"
  unfolding op_not_def Let_def by (intro keep_rules; simp add: stays_simps)

lemma op_lt_keeps [keep_rules]: "stays k w \<Longrightarrow> keep1 k (op_lt E w)"
  unfolding op_lt_def Let_def by (intro keep_rules; simp add: stays_simps)

lemma op_gt_keeps [keep_rules]: "stays k w \<Longrightarrow> keep1 k (op_gt E w)"
  unfolding op_gt_def Let_def by (intro keep_rules; simp add: stays_simps)

lemma op_le_keeps [keep_rules]: "stays k w \<Longrightarrow> keep1 k (op_le E w)"
  unfolding op_le_def Let_def by (intro keep_rules; simp add: stays_simps)

lemma op_ge_keeps [keep_rules]: "stays k w \<Longrightarrow> keep1 k (op_ge E w)"
  unfolding op_ge_def Let_def by (intro keep_rules; simp add: stays_simps)

lemma op_eq_keeps [keep_rules]: "stays k w \<Longrightarrow> keep1 k (op_eq E w)"
  unfolding op_eq_def Let_def by (intro keep_rules; simp add: stays_simps)

lemma op_ne_keeps [keep_rules]: "stays k w \<Longrightarrow> keep1 k (op_ne E w)"
  unfolding op_ne_def Let_def by (intro keep_rules; simp add: stays_simps)

lemma op_index_keeps [keep_rules]: "stays k w \<Longrightarrow> keep1 k (op_index E w)"
  unfolding op_index_def Let_def by (intro keep_rules; simp add: stays_simps)

lemma op_subset_keeps [keep_rules]: "stays k w \<Longrightarrow> keep1 k (op_subset E w)"
  unfolding op_subset_def Let_def by (intro keep_rules; simp add: stays_simps)

lemma op_lsubset_keeps [keep_rules]: "stays k w \<Longrightarrow> keep1 k (op_lsubset E w)"
  unfolding op_lsubset_def Let_def by (intro keep_rules; simp add: stays_simps)

lemma op_rsubset_keeps [keep_rules]: "stays k w \<Longrightarrow> keep1 k (op_rsubset E w)"
  unfolding op_rsubset_def Let_def by (intro keep_rules; simp add: stays_simps)

lemma op_splice_keeps [keep_rules]: "stays k w \<Longrightarrow> keep1 k (op_splice E w)"
  unfolding op_splice_def Let_def by (intro keep_rules; simp add: stays_simps)

lemma op_return_keeps [keep_rules]: "stays k w \<Longrightarrow> keep1 k (op_return E w)"
  unfolding op_return_def Let_def by (intro keep_rules; simp add: stays_simps)

lemma op_pop_keeps [keep_rules]: "stays k w \<Longrightarrow> keep1 k (op_pop E w)"
  unfolding op_pop_def Let_def by (intro keep_rules; simp add: stays_simps)

lemma op_numpush_keeps [keep_rules]: "stays k w \<Longrightarrow> keep1 k (op_numpush E w)"
  unfolding op_numpush_def Let_def by (intro keep_rules; simp add: stays_simps)

lemma op_strpush_keeps [keep_rules]: "stays k w \<Longrightarrow> keep1 k (op_strpush E w)"
  unfolding op_strpush_def Let_def by (intro keep_rules; simp add: stays_simps)

lemma op_objpush_keeps [keep_rules]: "stays k w \<Longrightarrow> keep1 k (op_objpush E w)"
  unfolding op_objpush_def Let_def by (intro keep_rules; simp add: stays_simps)

lemma op_listpush_keeps [keep_rules]: "stays k w \<Longrightarrow> keep1 k (op_listpush E w)"
  unfolding op_listpush_def Let_def by (intro keep_rules; simp add: stays_simps)

lemma op_mappush_keeps [keep_rules]: "stays k w \<Longrightarrow> keep1 k (op_mappush E w)"
  unfolding op_mappush_def Let_def by (intro keep_rules; simp add: stays_simps)

lemma op_errpush_keeps [keep_rules]: "stays k w \<Longrightarrow> keep1 k (op_errpush E w)"
  unfolding op_errpush_def Let_def by (intro keep_rules; simp add: stays_simps)

lemma op_message_keeps [keep_rules]: "stays k w \<Longrightarrow> keep1 k (op_message E w)"
  unfolding op_message_def Let_def by (intro keep_rules; simp add: stays_simps)

lemma op_message_expr_keeps [keep_rules]: "stays k w \<Longrightarrow> keep1 k (op_message_expr E w)"
  unfolding op_message_expr_def Let_def by (intro keep_rules; simp add: stays_simps)

lemma op_if_keeps [keep_rules]: "stays k w \<Longrightarrow> keep1 k (op_if E w)"
  unfolding op_if_def Let_def by (intro keep_rules; simp add: stays_simps)

lemma op_null_keeps [keep_rules]: "stays k w \<Longrightarrow> keep1 k (op_null E w)"
  unfolding op_null_def Let_def by (intro keep_rules; simp add: stays_simps)

lemma op_elseif_keeps [keep_rules]: "stays k w \<Longrightarrow> keep1 k (op_elseif E w)"
  unfolding op_elseif_def Let_def by (intro keep_rules; simp add: stays_simps)

lemma op_for_keeps [keep_rules]: "stays k w \<Longrightarrow> keep1 k (op_for E w)"
  unfolding op_for_def Let_def by (intro keep_rules; simp add: stays_simps)

lemma op_forrng_keeps [keep_rules]: "stays k w \<Longrightarrow> keep1 k (op_forrng E w)"
  unfolding op_forrng_def Let_def by (intro keep_rules; simp add: stays_simps)

lemma op_pushpc_keeps [keep_rules]: "stays k w \<Longrightarrow> keep1 k (op_pushpc E w)"
  unfolding op_pushpc_def Let_def by (intro keep_rules; simp add: stays_simps)

lemma op_argstart_keeps [keep_rules]: "stays k w \<Longrightarrow> keep1 k (op_argstart E w)"
  unfolding op_argstart_def Let_def by (intro keep_rules; simp add: stays_simps)

lemma op_while_keeps [keep_rules]: "stays k w \<Longrightarrow> keep1 k (op_while E w)"
  unfolding op_while_def Let_def by (intro keep_rules; simp add: stays_simps)

lemma op_do_keeps [keep_rules]: "stays k w \<Longrightarrow> keep1 k (op_do E w)"
  unfolding op_do_def Let_def by (intro keep_rules; simp add: stays_simps)

lemma op_dowhile_keeps [keep_rules]: "stays k w \<Longrightarrow> keep1 k (op_dowhile E w)"
  unfolding op_dowhile_def Let_def by (intro keep_rules; simp add: stays_simps)

lemma op_break_keeps [keep_rules]: "stays k w \<Longrightarrow> keep1 k (op_break E w)"
  unfolding op_break_def Let_def by (intro keep_rules; simp add: stays_simps)

lemma op_continue_keeps [keep_rules]: "stays k w \<Longrightarrow> keep1 k (op_continue E w)"
  unfolding op_continue_def Let_def by (intro keep_rules; simp add: stays_simps)

lemma op_stop_keeps [keep_rules]: "stays k w \<Longrightarrow> keep1 k (op_stop E w)"
  unfolding op_stop_def Let_def by (intro keep_rules; simp add: stays_simps)

lemma op_asgnlvar_keeps [keep_rules]: "stays k w \<Longrightarrow> keep1 k (op_asgnlvar E w)"
  unfolding op_asgnlvar_def Let_def by (intro keep_rules; simp add: stays_simps)

lemma op_asgngvar_keeps [keep_rules]: "stays k w \<Longrightarrow> keep1 k (op_asgngvar E w)"
  unfolding op_asgngvar_def Let_def by (intro keep_rules; simp add: stays_simps)

lemma op_asgnlvarindex_keeps [keep_rules]: "stays k w \<Longrightarrow> keep1 k (op_asgnlvarindex E w)"
  unfolding op_asgnlvarindex_def Let_def by (intro keep_rules; simp add: stays_simps)

lemma op_asgngvarindex_keeps [keep_rules]: "stays k w \<Longrightarrow> keep1 k (op_asgngvarindex E w)"
  unfolding op_asgngvarindex_def Let_def by (intro keep_rules; simp add: stays_simps)

lemma op_getlvar_keeps [keep_rules]: "stays k w \<Longrightarrow> keep1 k (op_getlvar E w)"
  unfolding op_getlvar_def Let_def by (intro keep_rules; simp add: stays_simps)

lemma op_getgvar_keeps [keep_rules]: "stays k w \<Longrightarrow> keep1 k (op_getgvar E w)"
  unfolding op_getgvar_def Let_def by (intro keep_rules; simp add: stays_simps)

lemma op_getgvarexpr_keeps [keep_rules]: "stays k w \<Longrightarrow> keep1 k (op_getgvarexpr E w)"
  unfolding op_getgvarexpr_def Let_def by (intro keep_rules; simp add: stays_simps)

lemma op_getsysvar_keeps [keep_rules]: "stays k w \<Longrightarrow> keep1 k (op_getsysvar E w)"
  unfolding op_getsysvar_def Let_def by (intro keep_rules; simp add: stays_simps)

lemma op_asgngvarexpr_keeps [keep_rules]: "stays k w \<Longrightarrow> keep1 k (op_asgngvarexpr E w)"
  unfolding op_asgngvarexpr_def Let_def by (intro keep_rules; simp add: stays_simps)

lemma op_in_keeps [keep_rules]: "stays k w \<Longrightarrow> keep1 k (op_in E w)"
  unfolding op_in_def Let_def by (intro keep_rules; simp add: stays_simps)

section \<open>The opcodes of \<open>opcodes2.c\<close>\<close>

lemma base_echo_keeps [keep_rules]:
  "stays k w \<Longrightarrow> keep1 k (base_echo nl E w)"
  unfolding base_echo_def Let_def by (intro keep_rules; simp add: stays_simps)

lemma op_status_keeps [keep_rules]:
  "stays k w \<Longrightarrow> keep1 k (op_status n E w)"
  unfolding op_status_def Let_def by (intro keep_rules; simp add: stays_simps)

lemma do_match_keeps [keep_rules]:
  "stays k w \<Longrightarrow> keep1 k (do_match fl E w)"
  unfolding do_match_def Let_def by (intro keep_rules; simp add: stays_simps)

lemma case_op_keeps [keep_rules]:
  "stays k w \<Longrightarrow> keep1 k (case_op g E w)"
  unfolding case_op_def Let_def by (intro keep_rules; simp add: stays_simps)

lemma find_op_keeps [keep_rules]:
  "stays k w \<Longrightarrow> keep1 k (find_op g E w)"
  unfolding find_op_def Let_def by (intro keep_rules; simp add: stays_simps)

lemma op_echo_keeps [keep_rules]: "stays k w \<Longrightarrow> keep1 k (op_echo E w)"
  unfolding op_echo_def Let_def by (intro keep_rules; simp add: stays_simps)

lemma op_echon_keeps [keep_rules]: "stays k w \<Longrightarrow> keep1 k (op_echon E w)"
  unfolding op_echon_def Let_def by (intro keep_rules; simp add: stays_simps)

lemma op_echo_file_keeps [keep_rules]: "stays k w \<Longrightarrow> keep1 k (op_echo_file E w)"
  unfolding op_echo_file_def Let_def by (intro keep_rules; simp add: stays_simps)

lemma op_connect_keeps [keep_rules]: "stays k w \<Longrightarrow> keep1 k (op_connect E w)"
  unfolding op_connect_def Let_def by (intro keep_rules; simp add: stays_simps)

lemma op_clone_keeps [keep_rules]: "stays k w \<Longrightarrow> keep1 k (op_clone E w)"
  unfolding op_clone_def Let_def by (intro keep_rules; simp add: stays_simps)

lemma op_destroy_keeps [keep_rules]: "stays k w \<Longrightarrow> keep1 k (op_destroy E w)"
  unfolding op_destroy_def Let_def by (intro keep_rules; simp add: stays_simps)

lemma op_chparents_keeps [keep_rules]: "stays k w \<Longrightarrow> keep1 k (op_chparents E w)"
  unfolding op_chparents_def Let_def by (intro keep_rules; simp add: stays_simps)

lemma op_time_keeps [keep_rules]: "stays k w \<Longrightarrow> keep1 k (op_time E w)"
  unfolding op_time_def Let_def by (intro keep_rules; simp add: stays_simps)

lemma op_ctime_keeps [keep_rules]: "stays k w \<Longrightarrow> keep1 k (op_ctime E w)"
  unfolding op_ctime_def Let_def by (intro keep_rules; simp add: stays_simps)

lemma op_crypt_keeps [keep_rules]: "stays k w \<Longrightarrow> keep1 k (op_crypt E w)"
  unfolding op_crypt_def Let_def by (intro keep_rules; simp add: stays_simps)

lemma op_checkmem_keeps [keep_rules]: "stays k w \<Longrightarrow> keep1 k (op_checkmem E w)"
  unfolding op_checkmem_def Let_def by (intro keep_rules; simp add: stays_simps)

lemma op_cache_stats_keeps [keep_rules]: "stays k w \<Longrightarrow> keep1 k (op_cache_stats E w)"
  unfolding op_cache_stats_def Let_def by (intro keep_rules; simp add: stays_simps)

lemma op_explode_keeps [keep_rules]: "stays k w \<Longrightarrow> keep1 k (op_explode E w)"
  unfolding op_explode_def Let_def by (intro keep_rules; simp add: stays_simps)

lemma op_random_keeps [keep_rules]: "stays k w \<Longrightarrow> keep1 k (op_random E w)"
  unfolding op_random_def Let_def by (intro keep_rules; simp add: stays_simps)

lemma op_setadd_keeps [keep_rules]: "stays k w \<Longrightarrow> keep1 k (op_setadd E w)"
  unfolding op_setadd_def Let_def by (intro keep_rules; simp add: stays_simps)

lemma op_setremove_keeps [keep_rules]: "stays k w \<Longrightarrow> keep1 k (op_setremove E w)"
  unfolding op_setremove_def Let_def by (intro keep_rules; simp add: stays_simps)

lemma op_lock_keeps [keep_rules]: "stays k w \<Longrightarrow> keep1 k (op_lock E w)"
  unfolding op_lock_def Let_def by (intro keep_rules; simp add: stays_simps)

lemma op_unlock_keeps [keep_rules]: "stays k w \<Longrightarrow> keep1 k (op_unlock E w)"
  unfolding op_unlock_def Let_def by (intro keep_rules; simp add: stays_simps)

lemma op_at_keeps [keep_rules]: "stays k w \<Longrightarrow> keep1 k (op_at E w)"
  unfolding op_at_def Let_def by (intro keep_rules; simp add: stays_simps)

lemma op_sleep_keeps [keep_rules]: "stays k w \<Longrightarrow> keep1 k (op_sleep E w)"
  unfolding op_sleep_def Let_def by (intro keep_rules; simp add: stays_simps)

lemma op_typeof_keeps [keep_rules]: "stays k w \<Longrightarrow> keep1 k (op_typeof E w)"
  unfolding op_typeof_def Let_def by (intro keep_rules; simp add: stays_simps)

lemma op_lengthof_keeps [keep_rules]: "stays k w \<Longrightarrow> keep1 k (op_lengthof E w)"
  unfolding op_lengthof_def Let_def by (intro keep_rules; simp add: stays_simps)

lemma op_serverof_keeps [keep_rules]: "stays k w \<Longrightarrow> keep1 k (op_serverof E w)"
  unfolding op_serverof_def Let_def by (intro keep_rules; simp add: stays_simps)

lemma op_servername_keeps [keep_rules]: "stays k w \<Longrightarrow> keep1 k (op_servername E w)"
  unfolding op_servername_def Let_def by (intro keep_rules; simp add: stays_simps)

lemma op_verbs_keeps [keep_rules]: "stays k w \<Longrightarrow> keep1 k (op_verbs E w)"
  unfolding op_verbs_def Let_def by (intro keep_rules; simp add: stays_simps)

lemma op_vars_keeps [keep_rules]: "stays k w \<Longrightarrow> keep1 k (op_vars E w)"
  unfolding op_vars_def Let_def by (intro keep_rules; simp add: stays_simps)

lemma op_methods_keeps [keep_rules]: "stays k w \<Longrightarrow> keep1 k (op_methods E w)"
  unfolding op_methods_def Let_def by (intro keep_rules; simp add: stays_simps)

lemma op_parents_keeps [keep_rules]: "stays k w \<Longrightarrow> keep1 k (op_parents E w)"
  unfolding op_parents_def Let_def by (intro keep_rules; simp add: stays_simps)

lemma op_pad_keeps [keep_rules]: "stays k w \<Longrightarrow> keep1 k (op_pad E w)"
  unfolding op_pad_def Let_def by (intro keep_rules; simp add: stays_simps)

lemma op_tostr_keeps [keep_rules]: "stays k w \<Longrightarrow> keep1 k (op_tostr E w)"
  unfolding op_tostr_def Let_def by (intro keep_rules; simp add: stays_simps)

lemma op_tonum_keeps [keep_rules]: "stays k w \<Longrightarrow> keep1 k (op_tonum E w)"
  unfolding op_tonum_def Let_def by (intro keep_rules; simp add: stays_simps)

lemma op_toobj_keeps [keep_rules]: "stays k w \<Longrightarrow> keep1 k (op_toobj E w)"
  unfolding op_toobj_def Let_def by (intro keep_rules; simp add: stays_simps)

lemma op_toerr_keeps [keep_rules]: "stays k w \<Longrightarrow> keep1 k (op_toerr E w)"
  unfolding op_toerr_def Let_def by (intro keep_rules; simp add: stays_simps)

lemma op_match_keeps [keep_rules]: "stays k w \<Longrightarrow> keep1 k (op_match E w)"
  unfolding op_match_def Let_def by (intro keep_rules; simp add: stays_simps)

lemma op_match_full_keeps [keep_rules]: "stays k w \<Longrightarrow> keep1 k (op_match_full E w)"
  unfolding op_match_full_def Let_def by (intro keep_rules; simp add: stays_simps)

lemma op_strcmp_keeps [keep_rules]: "stays k w \<Longrightarrow> keep1 k (op_strcmp E w)"
  unfolding op_strcmp_def Let_def by (intro keep_rules; simp add: stays_simps)

lemma op_tolower_keeps [keep_rules]: "stays k w \<Longrightarrow> keep1 k (op_tolower E w)"
  unfolding op_tolower_def Let_def by (intro keep_rules; simp add: stays_simps)

lemma op_toupper_keeps [keep_rules]: "stays k w \<Longrightarrow> keep1 k (op_toupper E w)"
  unfolding op_toupper_def Let_def by (intro keep_rules; simp add: stays_simps)

lemma op_f_index_keeps [keep_rules]: "stays k w \<Longrightarrow> keep1 k (op_f_index E w)"
  unfolding op_f_index_def Let_def by (intro keep_rules; simp add: stays_simps)

lemma op_rindex_keeps [keep_rules]: "stays k w \<Longrightarrow> keep1 k (op_rindex E w)"
  unfolding op_rindex_def Let_def by (intro keep_rules; simp add: stays_simps)

section \<open>The opcodes of \<open>opcodes3.c\<close>\<close>

lemma wizard_op_keeps [keep_rules]:
  "stays k w \<Longrightarrow> keep1 k (wizard_op x E w)"
  unfolding wizard_op_def Let_def by (intro keep_rules; simp add: stays_simps)

lemma method_text_keeps [keep_rules]:
  "stays k w \<Longrightarrow> keep1 k (method_text nm f E w)"
  unfolding method_text_def Let_def by (intro keep_rules; simp add: stays_simps)

lemma place_op_keeps [keep_rules]:
  "stays k w \<Longrightarrow> keep1 k (place_op g E w)"
  unfolding place_op_def Let_def by (intro keep_rules; simp add: stays_simps)

lemma cmkill_keeps [keep_rules]:
  "stays k w \<Longrightarrow> keep2 k (cmkill E pid who w)"
  unfolding cmkill_def Let_def by (intro keep_rules; simp add: stays_simps)

lemma op_shutdown_keeps [keep_rules]: "stays k w \<Longrightarrow> keep1 k (op_shutdown E w)"
  unfolding op_shutdown_def Let_def by (intro keep_rules; simp add: stays_simps)

lemma op_sync_keeps [keep_rules]: "stays k w \<Longrightarrow> keep1 k (op_sync E w)"
  unfolding op_sync_def Let_def by (intro keep_rules; simp add: stays_simps)

lemma op_writelog_keeps [keep_rules]: "stays k w \<Longrightarrow> keep1 k (op_writelog E w)"
  unfolding op_writelog_def Let_def by (intro keep_rules; simp add: stays_simps)

lemma op_disconnect_keeps [keep_rules]: "stays k w \<Longrightarrow> keep1 k (op_disconnect E w)"
  unfolding op_disconnect_def Let_def by (intro keep_rules; simp add: stays_simps)

lemma op_set_parse_keeps [keep_rules]: "stays k w \<Longrightarrow> keep1 k (op_set_parse E w)"
  unfolding op_set_parse_def Let_def by (intro keep_rules; simp add: stays_simps)

lemma op_raise_keeps [keep_rules]: "stays k w \<Longrightarrow> keep1 k (op_raise E w)"
  unfolding op_raise_def Let_def by (intro keep_rules; simp add: stays_simps)

lemma op_pass_keeps [keep_rules]: "stays k w \<Longrightarrow> keep1 k (op_pass E w)"
  unfolding op_pass_def Let_def by (intro keep_rules; simp add: stays_simps)

lemma op_hasparent_keeps [keep_rules]: "stays k w \<Longrightarrow> keep1 k (op_hasparent E w)"
  unfolding op_hasparent_def Let_def by (intro keep_rules; simp add: stays_simps)

lemma op_objsize_keeps [keep_rules]: "stays k w \<Longrightarrow> keep1 k (op_objsize E w)"
  unfolding op_objsize_def Let_def by (intro keep_rules; simp add: stays_simps)

lemma op_spew_method_keeps [keep_rules]: "stays k w \<Longrightarrow> keep1 k (op_spew_method E w)"
  unfolding op_spew_method_def Let_def by (intro keep_rules; simp add: stays_simps)

lemma op_list_method_keeps [keep_rules]: "stays k w \<Longrightarrow> keep1 k (op_list_method E w)"
  unfolding op_list_method_def Let_def by (intro keep_rules; simp add: stays_simps)

lemma op_decompile_keeps [keep_rules]: "stays k w \<Longrightarrow> keep1 k (op_decompile E w)"
  unfolding op_decompile_def Let_def by (intro keep_rules; simp add: stays_simps)

lemma op_find_method_keeps [keep_rules]: "stays k w \<Longrightarrow> keep1 k (op_find_method E w)"
  unfolding op_find_method_def Let_def by (intro keep_rules; simp add: stays_simps)

lemma op_this_keeps [keep_rules]: "stays k w \<Longrightarrow> keep1 k (op_this E w)"
  unfolding op_this_def Let_def by (intro keep_rules; simp add: stays_simps)

lemma op_player_keeps [keep_rules]: "stays k w \<Longrightarrow> keep1 k (op_player E w)"
  unfolding op_player_def Let_def by (intro keep_rules; simp add: stays_simps)

lemma op_caller_keeps [keep_rules]: "stays k w \<Longrightarrow> keep1 k (op_caller E w)"
  unfolding op_caller_def Let_def by (intro keep_rules; simp add: stays_simps)

lemma op_args_keeps [keep_rules]: "stays k w \<Longrightarrow> keep1 k (op_args E w)"
  unfolding op_args_def Let_def by (intro keep_rules; simp add: stays_simps)

lemma op_setplayer_keeps [keep_rules]: "stays k w \<Longrightarrow> keep1 k (op_setplayer E w)"
  unfolding op_setplayer_def Let_def by (intro keep_rules; simp add: stays_simps)

lemma op_servers_keeps [keep_rules]: "stays k w \<Longrightarrow> keep1 k (op_servers E w)"
  unfolding op_servers_def Let_def by (intro keep_rules; simp add: stays_simps)

lemma op_ps_keeps [keep_rules]: "stays k w \<Longrightarrow> keep1 k (op_ps E w)"
  unfolding op_ps_def Let_def by (intro keep_rules; simp add: stays_simps)

lemma op_kill_keeps [keep_rules]: "stays k w \<Longrightarrow> keep1 k (op_kill E w)"
  unfolding op_kill_def Let_def by (intro keep_rules; simp add: stays_simps)

lemma op_program_keeps [keep_rules]: "stays k w \<Longrightarrow> keep1 k (op_program E w)"
  unfolding op_program_def Let_def by (intro keep_rules; simp add: stays_simps)

lemma op_verb_keeps [keep_rules]: "stays k w \<Longrightarrow> keep1 k (op_verb E w)"
  unfolding op_verb_def Let_def by (intro keep_rules; simp add: stays_simps)

lemma op_rmverb_keeps [keep_rules]: "stays k w \<Longrightarrow> keep1 k (op_rmverb E w)"
  unfolding op_rmverb_def Let_def by (intro keep_rules; simp add: stays_simps)

lemma op_rmmethod_keeps [keep_rules]: "stays k w \<Longrightarrow> keep1 k (op_rmmethod E w)"
  unfolding op_rmmethod_def Let_def by (intro keep_rules; simp add: stays_simps)

lemma op_rmvar_keeps [keep_rules]: "stays k w \<Longrightarrow> keep1 k (op_rmvar E w)"
  unfolding op_rmvar_def Let_def by (intro keep_rules; simp add: stays_simps)

lemma op_listinsert_keeps [keep_rules]: "stays k w \<Longrightarrow> keep1 k (op_listinsert E w)"
  unfolding op_listinsert_def Let_def by (intro keep_rules; simp add: stays_simps)

lemma op_listappend_keeps [keep_rules]: "stays k w \<Longrightarrow> keep1 k (op_listappend E w)"
  unfolding op_listappend_def Let_def by (intro keep_rules; simp add: stays_simps)

lemma op_listdelete_keeps [keep_rules]: "stays k w \<Longrightarrow> keep1 k (op_listdelete E w)"
  unfolding op_listdelete_def Let_def by (intro keep_rules; simp add: stays_simps)

lemma op_listassign_keeps [keep_rules]: "stays k w \<Longrightarrow> keep1 k (op_listassign E w)"
  unfolding op_listassign_def Let_def by (intro keep_rules; simp add: stays_simps)

lemma op_sort_keeps [keep_rules]: "stays k w \<Longrightarrow> keep1 k (op_sort E w)"
  unfolding op_sort_def Let_def by (intro keep_rules; simp add: stays_simps)

lemma op_strsub_keeps [keep_rules]: "stays k w \<Longrightarrow> keep1 k (op_strsub E w)"
  unfolding op_strsub_def Let_def by (intro keep_rules; simp add: stays_simps)

lemma op_psub_keeps [keep_rules]: "stays k w \<Longrightarrow> keep1 k (op_psub E w)"
  unfolding op_psub_def Let_def by (intro keep_rules; simp add: stays_simps)

end
