(* ===== verification/Demo.thy ===== *)
theory Demo
  imports Queue
begin

text \<open>
  A small database, a table of servers, an environment and a running frame: the concrete inputs
  at which theorems with hypotheses are applied. Hash tables with one bucket make the lookups
  easy to evaluate. The examples of this theory apply the theorems on objects, messages and
  servers; those on the interpreter are beside their theorems.
\<close>

section \<open>Objects\<close>

lemma hash_index_one [simp]: "hash_index h (Suc 0) = Some 0"
  using c_mod_bound [of 1 "sint h"] by (simp add: hash_index_def)

definition local_id :: "i32 \<Rightarrow> objid" where
  "local_id n = \<lparr>server = 0, oid = n\<rparr>"

lemma local_id_sel [simp]: "server (local_id n) = 0" "oid (local_id n) = n"
  by (simp_all add: local_id_def)

definition demo_symbol :: "string \<Rightarrow> symbol" where
  "demo_symbol s = \<lparr>s_ref = 1, s_str = Some (mk_str s)\<rparr>"

definition demo_method :: "i32 list \<Rightarrow> cmethod" where
  "demo_method code = \<lparr>m_name = 0, m_code = code, m_ehandler = replicate 25 EH_DEFAULT,
     m_vars = [], m_blocked = False\<rparr>"

definition demo_vars :: "(int \<times> var) list \<Rightarrow> vardef hasht" where
  "demo_vars vs = HashT (length vs) [map (\<lambda>(n, v). \<lparr>vd_name = n, vd_value = v\<rparr>) vs]"

text \<open>The system object has \<open>dbtop\<close> and \<open>wizards\<close>; object 1 is the root; object 2 its child.\<close>

definition demo_sys :: object where
  "demo_sys = new_object\<lparr>o_id := sys_obj, o_parents := [VOBJ (local_id 1)],
     o_vars := Some (demo_vars [(0, VNUM 2), (1, VLIST [VOBJ (local_id 1)])]),
     o_symbols := [demo_symbol ''dbtop'', demo_symbol ''wizards''], o_stsize := 16\<rparr>"

definition demo_root :: "i32 list \<Rightarrow> object" where
  "demo_root code = new_object\<lparr>o_id := local_id 1,
     o_methods := Some (HashT 1 [[demo_method code]]), o_symbols := [demo_symbol ''run''],
     o_stsize := 16\<rparr>"

definition demo_kid :: object where
  "demo_kid = new_object\<lparr>o_id := local_id 2, o_parents := [VOBJ (local_id 1)],
     o_vars := Some (demo_vars [(0, VLIST [VOBJ (local_id 2)])]),
     o_symbols := [demo_symbol ''owners''], o_stsize := 16\<rparr>"

definition demo_db :: "i32 list \<Rightarrow> db" where
  "demo_db code = (\<lambda>_. None)(0 := Some demo_sys, 1 := Some (demo_root code), 2 := Some demo_kid)"

lemmas demo_objects = demo_sys_def demo_root_def demo_kid_def demo_vars_def demo_symbol_def
  demo_method_def new_object_def sys_obj_def

lemma demo_retrieve [simp]:
  "retrieve (demo_db code) (local_id 0) = Some demo_sys"
  "retrieve (demo_db code) (local_id 1) = Some (demo_root code)"
  "retrieve (demo_db code) (local_id 2) = Some demo_kid"
  "retrieve (demo_db code) sys_obj = Some demo_sys"
  by (simp_all add: retrieve_def demo_db_def sys_obj_def)

lemma demo_at [simp]:
  "demo_db code 0 = Some demo_sys" "demo_db code 1 = Some (demo_root code)"
  "demo_db code 2 = Some demo_kid" "demo_db code 3 = None"
  by (simp_all add: demo_db_def)

lemma demo_parents [simp]:
  "o_parents demo_sys = [VOBJ (local_id 1)]" "o_parents (demo_root code) = []"
  "o_parents demo_kid = [VOBJ (local_id 1)]"
  by (simp_all add: demo_objects)

lemma demo_ids [simp]:
  "o_id demo_sys = sys_obj" "o_id (demo_root code) = local_id 1" "o_id demo_kid = local_id 2"
  by (simp_all add: demo_objects)

lemma demo_lineage [simp]:
  "lineage (Suc n) (demo_db code) (demo_root code) = Some [demo_root code]"
  "lineage (Suc (Suc n)) (demo_db code) demo_kid = Some [demo_kid, demo_root code]"
  by simp_all

lemma demo_own [simp]:
  "own_global demo_sys ''dbtop'' = Some (Some (VNUM 2))"
  "own_global demo_sys ''wizards'' = Some (Some (VLIST [VOBJ (local_id 1)]))"
  "own_global demo_kid ''owners'' = Some (Some (VLIST [VOBJ (local_id 2)]))"
  by (simp_all add: own_global_def demo_objects sym_str_def sym_get_def nth_opt_def c_tolower_def c_isupper_def)

lemma demo_keyed: "keyed (demo_db code)"
  by (auto simp: keyed_def demo_db_def sys_obj_def split: if_splits)

definition demo_rank :: "i32 \<Rightarrow> nat" where
  "demo_rank i = (if i = 1 then 0 else 1)"

lemma demo_acyclic: "acyclic_db demo_rank (demo_db code)"
  unfolding acyclic_db_def ranked_def
proof (intro allI impI)
  fix i ob assume "demo_db code i = Some ob"
  then have "ob = demo_sys \<or> ob = demo_root code \<or> ob = demo_kid"
    by (auto simp: demo_db_def split: if_splits)
  then show "\<forall>p\<in>set (o_parents ob). \<exists>x. p = VOBJ x \<and>
      (\<forall>q. retrieve (demo_db code) x = Some q \<longrightarrow> demo_rank (oid (o_id q)) < demo_rank (oid (o_id ob)))"
    by (auto simp: demo_rank_def sys_obj_def)
qed

section \<open>Objects: the theorems at work\<close>

theorem hasparent_spec_witness: "hasparent 2 (demo_db []) demo_kid (local_id 1) = Some True"
  using hasparent_spec [of 2 "demo_db []" demo_kid "[demo_kid, demo_root []]" "local_id 1"]
  by (simp add: numeral_2_eq_2)

theorem inherited_lookup_witness:
  "\<exists>l. lineage 2 (demo_db []) demo_kid = Some l \<and> hd l = demo_kid \<and>
     var_get_global 2 (demo_db []) demo_kid ''owners'' = first_global ''owners'' l"
proof (rule inherited_lookup [OF demo_acyclic])
  show "ranked demo_rank (demo_db []) demo_kid"
    using demo_acyclic demo_at(3) unfolding acyclic_db_def by blast
qed (simp add: demo_rank_def)

theorem can_program_spec_witness:
  "can_program (\<lambda>_ _. False) 2 (demo_db []) (local_id 1) (local_id 2) = Some True \<and>
   can_program (\<lambda>_ _. False) 2 (demo_db []) sys_obj (local_id 2) = Some True"
proof -
  have *: "var_get_global 2 (demo_db []) demo_kid ''owners'' = Some (Some (VLIST [VOBJ (local_id 2)]))"
    "var_get_global 2 (demo_db []) demo_sys ''wizards'' = Some (Some (VLIST [VOBJ (local_id 1)]))"
    by (simp_all add: numeral_2_eq_2)
  show ?thesis
    using can_program_spec [OF demo_retrieve(3) _ demo_retrieve(4) *, of "local_id 1"]
      can_program_spec [OF demo_retrieve(3) _ demo_retrieve(4) *, of sys_obj]
    by (simp add: valid_retrieve)
qed


lemma demo_sys_inv: "object_inv demo_sys"
  by (auto simp: object_inv_def sym_ok_def sym_uses_def other_uses_def vars_wf_def
    bucket_ok_def named_def vname_def demo_objects sym_str_def sym_get_def nth_opt_def less_Suc_eq
    nth_Cons' c_tolower_def c_isupper_def)

theorem clone_spec_witness:
  "\<exists>d'. clone 1 (demo_db []) (local_id 1) = Some (d', Some (local_id 3)) \<and>
     d' 3 \<noteq> None \<and> d' 2 = Some demo_kid"
  using clone_spec [of "demo_db []" demo_sys 2 "local_id 1" 0] demo_sys_inv
  by (auto simp: local_id_def)

theorem assign_then_get_witness:
  "var_assign_global 2 (demo_db []) demo_sys (mk_str ''dbtop'') (VLIST []) = Some (demo_db [], E_TYPE) \<and>
   (\<exists>d'. var_assign_global 2 (demo_db []) demo_sys (mk_str ''dbtop'') (VNUM 7) = Some (d', E_NONE))"
proof -
  have "var_get_global 2 (demo_db []) demo_sys (sdata (mk_str ''dbtop'')) = Some (Some (VNUM 2))"
    by (simp add: numeral_2_eq_2)
  from assign_then_get [OF demo_sys_inv _ this, of "VLIST []"]
    assign_then_get [OF demo_sys_inv _ this, of "VNUM 7"]
  show ?thesis by auto
qed

theorem find_method_recursive_spec_witness:
  "\<exists>m p. find_method_recursive 3 (demo_db []) (local_id 2) ''run'' = Some (Some (m, p)) \<and> p = demo_root []"
proof -
  have root: "find_method (demo_root []) ''run'' = Some (Some (demo_method []))"
    by (simp add: find_method_def demo_objects sym_str_def sym_get_def nth_opt_def)
  have others: "find_method demo_kid ''run'' = Some None" "find_method demo_sys ''run'' = Some None"
    by (simp_all add: find_method_def demo_objects)
  have "methods_total (demo_db []) ''run''"
    using root others by (auto simp: methods_total_def demo_db_def split: if_splits)
  from find_method_recursive_spec [OF demo_keyed this demo_retrieve(3), of 2 "[demo_kid, demo_root []]"]
  obtain r where r: "find_method_recursive 3 (demo_db []) (local_id 2) ''run'' = Some r"
    "r \<noteq> None" "\<forall>m p. r = Some (m, p) \<longrightarrow> p \<in> {demo_kid, demo_root []} \<and>
      find_method p ''run'' = Some (Some m)"
    using root others by (auto simp: numeral_2_eq_2 numeral_3_eq_3)
  then show ?thesis using others by (cases r) auto
qed

section \<open>Servers and messages\<close>

definition demo_server :: server where
  "demo_server = \<lparr>sv_id = 1, sv_name = ''other'', sv_hostname = ''h'', sv_addr = 5, sv_port = 6,
     sv_last = -1, sv_connected = True\<rparr>"

definition demo_self :: server where
  "demo_self = \<lparr>sv_id = 0, sv_name = ''me'', sv_hostname = ''g'', sv_addr = 1, sv_port = 6,
     sv_last = -1, sv_connected = True\<rparr>"

definition demo_servers :: servtab where
  "demo_servers = \<lparr>sv_entries = [demo_self, demo_server], sv_ended = True\<rparr>"

theorem discardmsg_monotone_witness: "accepted demo_servers 1 [3, 4, 9] = Some [3, 4, 9]"
  using discardmsg_monotone [of 1 demo_servers demo_server "[3, 4, 9]"]
  by (simp add: demo_servers_def demo_server_def demo_self_def)

theorem serv_add_unterminated_witness:
  "\<exists>t'. serv_add (\<lambda>_. Some ''h'') demo_servers 9 9 ''third'' = Some (t', Some 2) \<and>
     serv_id2server t' 3 = None"
proof -
  obtain t' where t': "serv_add (\<lambda>_. Some ''h'') demo_servers 9 9 ''third'' = Some (t', Some 2)"
    and s: "sv_entries t' = [demo_self, demo_server, \<lparr>sv_id = 2, sv_name = ''third'', sv_hostname = ''h'',
      sv_addr = 9, sv_port = 9, sv_last = -1, sv_connected = False\<rparr>]"
    by (simp add: serv_add_def serv_addr2server_def serv_name2id_def serv_find_def demo_servers_def
      demo_server_def demo_self_def c_tolower_def c_isupper_def)
  from serv_add_unterminated [OF t', of 3] t' s show ?thesis by (auto simp: demo_server_def demo_self_def)
qed

definition demo_message :: message where
  "demo_message = \<lparr>ms_msgid = 7, ms_age = 1, ms_ticks = 3, ms_player = local_id 2,
     ms_from = local_id 2, ms_to = local_id 1, ms_text = ''run'',
     ms_args = [VNUM 5, VLIST [VSTRs ''hi'']], ms_on = local_id 1\<rparr>"


section \<open>A running method\<close>

definition demo_statics :: dstate where
  "demo_statics = \<lparr>d_stack = replicate MAX_TSTACK (Num 0), d_sp = 0,
     d_tree = replicate MAX_TREE (Num 0), d_ptr = 0, d_indent = 0, d_by = 0, d_brackets = False,
     d_line = 1, d_find = -1, d_found = 1, d_number = False, d_buf = None\<rparr>"

text \<open>An environment whose clock stands still, with ten ticks for a method.\<close>

definition demo_env :: env where
  "demo_env = \<lparr>e_fuel = 20, e_same = (\<lambda>_ _. False), e_servers = demo_servers, e_server_list = [],
     e_max_age = 20, e_max_ticks = 10, e_statics = (\<lambda>_. demo_statics),
     e_time = (\<lambda>_. \<lparr>tv_sec = 100, tv_usec = 0\<rparr>), e_down = (\<lambda>_. False), e_ref1 = (\<lambda>_. False),
     e_moved = (\<lambda>_. False), e_random = (\<lambda>_. 4), e_qsort = (\<lambda>_ l. l), e_crypt = (\<lambda>s _. s),
     e_ctime = (\<lambda>_. ''now''), e_files = (\<lambda>_. None), e_connect = (\<lambda>_. -1),
     e_status = (\<lambda>_. []), e_sleep_refresh = 0,
     e_external = (\<lambda>_ w. Some w)\<rparr>"

text \<open>Object 1 runs its method for a message that object 2 sent.\<close>

definition demo_frame :: "i32 list \<Rightarrow> var list \<Rightarrow> event" where
  "demo_frame code st = \<lparr>ev_msgid = 5, ev_age = 0, ev_ticks = 0, ev_player = local_id 2,
     ev_this = local_id 1, ev_on = demo_root code, ev_caller = local_id 2, ev_args = [],
     ev_m = demo_method code, ev_blocked = BL_MESSAGE, ev_timeout = \<lparr>tv_sec = 0, tv_usec = 0\<rparr>,
     ev_bmsgid = 0, ev_bobj = local_id 0, ev_msg = None,
     ev_retry_at = \<lparr>tv_sec = 0, tv_usec = 0\<rparr>, ev_retry_int = 0, ev_lock = [], ev_pc = 0,
     ev_stack = st, ev_nvars = 0, ev_last = -1\<rparr>"

definition demo_world :: "i32 list \<Rightarrow> var list \<Rightarrow> world" where
  "demo_world code st = \<lparr>w_db = demo_db code, w_frame = demo_frame code st, w_this = Some 1,
     w_state = RUNNING, w_retval = VNUM 0, w_nargs = 0, w_msgs = [], w_events = [], w_next = 6,
     w_count = 0, w_out = []\<rparr>"

lemmas demo_machine = demo_env_def demo_world_def demo_frame_def

text \<open>The line the unparser finds in an empty method.\<close>

lemma demo_line: "find_lineno demo_env (demo_root [305]) (demo_method [305]) 0 w = Some 1"
proof -
  have no: "filter (\<lambda>i. replicate 25 EH_DEFAULT ! i = EH_IGNORE) [0..<25] = []"
    by (simp add: filter_empty_conv)
  have "inst_at (demo_method [305]) 0 = Some O_STOP"
    by (simp add: inst_at_def demo_method_def nth_opt_def)
  then have "decompile_stmts (Suc n) T ob (demo_method [305]) 0 st = Some (see 0 st)" for n T ob st
    by simp
  from this [of 19] have "decompile_stmts 20 T ob (demo_method [305]) 0 st = Some (see 0 st)" for T ob st
    by simp
  then show ?thesis
    using no by (simp add: find_lineno_def decompile_method_def demo_env_def decompile_local_vars_def
      decompile_ehandler_def NERRS_def see_def demo_method_def del: decompile_stmts.simps)
qed

end
