(* ===== verification/ExecInv.thy ===== *)
theory ExecInv
  imports OpsInv Demo
begin

text \<open>
  What the executor keeps, and why it stops: the limit of ticks bounds the opcodes of a method,
  because no opcode changes the count and the compiler lets no method ignore its error.
\<close>

section \<open>Calling an opcode\<close>

text \<open>What the server asks of the compiler.\<close>

definition compiler_keeps :: "env \<Rightarrow> bool" where
  "compiler_keeps E \<longleftrightarrow> (\<forall>n k w. stays k w \<longrightarrow> keep1 k (e_external E n w))"

lemma op_compile_keeps: "compiler_keeps E \<Longrightarrow> stays k w \<Longrightarrow> keep1 k (op_compile E w)"
  by (simp add: op_compile_def compiler_keeps_def)

lemma op_functions_keep:
  assumes "compiler_keeps E"
  shows "(c, f) \<in> set op_functions \<Longrightarrow> stays k w \<Longrightarrow> keep1 k (f E w)"
  unfolding op_functions_def using assms
  by (auto intro: keep_rules op_compile_keeps)

lemma op_call_keeps: "compiler_keeps E \<Longrightarrow> stays k w \<Longrightarrow> keep1 k (op_call c E w)"
  unfolding op_call_def
  by (auto simp: keep1_def split: bind_splits dest!: map_of_SomeD op_functions_keep [THEN keep1D])

lemma call_op_keeps: "compiler_keeps E \<Longrightarrow> stays k w \<Longrightarrow> keep1 k (call_op c E w)"
  unfolding call_op_def Let_def
  by (intro keep_rules op_call_keeps; simp add: stays_simps op_call_keeps)

section \<open>Errors that end a method\<close>

text \<open>
  The handlers of a compiled method: the grammar refuses to ignore the errors of \<open>NOIGNORE\<close>
  (\<open>cool.h\<close>).
\<close>

definition compiled_handlers :: "cmethod \<Rightarrow> bool" where
  "compiled_handlers m \<longleftrightarrow> (\<forall>e\<in>{E_STACKUND, E_STACKOVR, E_INTERNAL, E_TICKS}.
     nth_opt (m_ehandler m) (sint (err_code e)) = Some EH_DEFAULT)"

lemma err_code_eq [simp]: "err_code a = err_code b \<longleftrightarrow> a = b"
proof -
  have "unat (err_code e) = err_num e" for e
    using err_num_less [of e] by (simp add: unat_of_nat take_bit_nat_eq_self NERRS_def)
  then show ?thesis by (metis err_num_inj)
qed

lemma err_code_zero [simp]: "err_code e = 0 \<longleftrightarrow> e = E_NONE"
proof -
  have "err_code E_NONE = 0" by (simp add: err_num_def all_errs_def)
  then show ?thesis using err_code_eq [of e E_NONE] by simp
qed

lemma raise_core_default:
  "raise_core E c w = Some w' \<Longrightarrow> nth_opt (m_ehandler (ev_m (w_frame w))) (sint c) = Some EH_DEFAULT \<Longrightarrow>
     c \<noteq> 0 \<Longrightarrow> w_state w' = RAISED"
  by (auto simp: raise_core_def split: bind_splits if_splits)

lemma raise_fatal:
  assumes r: "raise E e w = Some w'" and k: "stays k w" and c: "compiled_handlers (fi_m k)"
    and e: "e \<in> {E_STACKUND, E_INTERNAL, E_TICKS}"
  shows "w_state w' = RAISED"
proof -
  from r e obtain w1 where w1: "push E (VERR (err_code e)) w = Some w1"
      and w': "raise_core E (err_code e) w1 = Some w'"
    by (auto simp: raise_code_def split: bind_splits if_splits)
  have "stays k w1" using push_keeps [OF k, THEN keep1D, OF w1] .
  then have "ev_m (w_frame w1) = fi_m k" by (auto simp: stays_def frame_id_def Let_def)
  with c e have "nth_opt (m_ehandler (ev_m (w_frame w1))) (sint (err_code e)) = Some EH_DEFAULT"
    by (auto simp: compiled_handlers_def)
  moreover have "err_code e \<noteq> 0" using e by auto
  ultimately show ?thesis using raise_core_default [OF w'] by blast
qed

section \<open>One turn of the loop\<close>

lemma tick_step:
  assumes t: "tick E w = Some w'" and k: "stays k w" and c: "compiled_handlers (fi_m k)"
  shows "stays (k\<lparr>fi_ticks := fi_ticks k + 1\<rparr>) w' \<and>
    (e_max_ticks E \<le> sint (fi_ticks k + 1) \<longrightarrow> w_state w' = RAISED)"
proof -
  let ?k = "k\<lparr>fi_ticks := fi_ticks k + 1\<rparr>"
  let ?w = "set_frame (\<lambda>f. f\<lparr>ev_ticks := ev_ticks f + 1\<rparr>) w"
  have s: "stays ?k ?w" using k by (auto simp: stays_def frame_id_def Let_def)
  have n: "ev_ticks (w_frame ?w) = fi_ticks k + 1"
    using k by (auto simp: stays_def frame_id_def Let_def)
  have h: "compiled_handlers (fi_m ?k)" using c by simp
  show ?thesis
  proof (cases "e_max_ticks E \<le> sint (fi_ticks k + 1)")
    case True
    with t n have r: "raise E E_TICKS ?w = Some w'" by (simp add: tick_def Let_def)
    show ?thesis using raise_code_keeps [OF s, THEN keep1D, OF r] raise_fatal [OF r s h] by simp
  next
    case False
    with t n have "w' = ?w" by (simp add: tick_def Let_def)
    with s False show ?thesis by simp
  qed
qed

lemma exec_op_step:
  assumes x: "exec_op E w = Some (w', go)" and k: "stays k w" and c: "compiled_handlers (fi_m k)"
    and E: "compiler_keeps E"
  shows "if go then stays (k\<lparr>fi_ticks := fi_ticks k + 1\<rparr>) w' \<and>
      (e_max_ticks E \<le> sint (fi_ticks k + 1) \<longrightarrow> w_state w' = RAISED)
    else stays k w' \<and> w_state w' = RAISED"
proof -
  from x obtain n ent where n: "code_at w (pc w) = Some n" and ent: "opcodes n = Some ent"
    by (auto simp: exec_op_def split: bind_splits)
  show ?thesis
  proof (cases ent)
    case None
    let ?w = "out (Log (''execute(): unknown opcode '' @ num_text n)) w"
    have s: "stays k ?w" using k by (simp add: stays_simps)
    from x n ent None have r: "raise E E_INTERNAL ?w = Some w'" "\<not> go"
      by (auto simp: exec_op_def split: bind_splits)
    show ?thesis
      using r raise_code_keeps [OF s, THEN keep1D, OF r(1)] raise_fatal [OF r(1) s c] by simp
  next
    case (Some op)
    let ?w = "set_frame (\<lambda>f. f\<lparr>ev_last := n, ev_pc := ev_pc f + 1\<rparr>) w"
    from x n ent Some obtain w1 where w1: "call_op n E ?w = Some w1" "tick E w1 = Some w'" "go"
      by (auto simp: exec_op_def split: bind_splits)
    have "stays k ?w" using k by (simp add: stays_simps)
    from call_op_keeps [OF E this, THEN keep1D, OF w1(1)] have "stays k w1" .
    from tick_step [OF w1(2) this c] w1(3) show ?thesis by simp
  qed
qed

section \<open>The loop\<close>

definition steps_left :: "env \<Rightarrow> i32 \<Rightarrow> nat" where
  "steps_left E ticks = max 1 (nat (e_max_ticks E - sint ticks))"

lemma sint_inc: "sint (t :: i32) < 2 ^ 31 - 1 \<Longrightarrow> sint (t + 1) = sint t + 1"
  using sint_ge [of t] by (simp add: sint_word_ariths signed_take_bit_int_eq_self_iff)

lemma exec_loop_not_running: "w_state w \<noteq> RUNNING \<Longrightarrow> exec_loop n E w = Some w"
  by (cases n) simp_all

lemma steps_left_inc:
  "sint t < e_max_ticks E \<Longrightarrow> e_max_ticks E < 2 ^ 31 \<Longrightarrow> sint (t + 1) < e_max_ticks E \<Longrightarrow>
     steps_left E t = Suc (steps_left E (t + 1))"
  using sint_inc [of t] by (simp add: steps_left_def)

lemma exec_loop_bounded:
  assumes E: "compiler_keeps E" and mx: "e_max_ticks E < 2 ^ 31"
  shows "stays k w \<Longrightarrow> compiled_handlers (fi_m k) \<Longrightarrow> sint (fi_ticks k) < 2 ^ 31 - 1 \<Longrightarrow>
    steps_left E (fi_ticks k) \<le> n \<Longrightarrow>
    exec_loop n E w = exec_loop (steps_left E (fi_ticks k)) E w \<and>
    (\<forall>w'. exec_loop n E w = Some w' \<longrightarrow> w_state w' \<noteq> RUNNING \<and>
       (\<exists>t. stays (k\<lparr>fi_ticks := t\<rparr>) w' \<and> sint (fi_ticks k) \<le> sint t \<and>
         sint t \<le> max (sint (fi_ticks k) + 1) (e_max_ticks E)))"
proof (induction n arbitrary: k w)
  case 0
  then show ?case by (simp add: steps_left_def)
next
  case (Suc n)
  let ?k = "k\<lparr>fi_ticks := fi_ticks k + 1\<rparr>"
  obtain m where m: "steps_left E (fi_ticks k) = Suc m"
    by (cases "steps_left E (fi_ticks k)") (simp_all add: steps_left_def)
  show ?case
  proof (cases "w_state w = RUNNING \<and> exec_op E w \<noteq> None")
    case False
    then have "exec_loop (Suc j) E w = (if w_state w = RUNNING then None else Some w)" for j
      by (cases "exec_op E w") auto
    then show ?thesis
      using Suc.prems(1) m by (auto intro!: exI [of _ "fi_ticks k"] split: if_splits)
  next
    case True
    then obtain w1 go where w1: "exec_op E w = Some (w1, go)" and run: "w_state w = RUNNING" by auto
    note step = exec_op_step [OF w1 Suc.prems(1,2) E]
    have inc: "sint (fi_ticks k + 1) = sint (fi_ticks k) + 1" using sint_inc Suc.prems(3) by blast
    show ?thesis
    proof (cases "go \<and> w_state w1 = RUNNING")
      case False
      then have one: "exec_loop (Suc j) E w = Some w1" for j
        using run w1 by (cases j) auto
      have st: "w_state w1 \<noteq> RUNNING"
        using False step by (cases go) auto
      show ?thesis
      proof (cases go)
        case True
        with step have "stays (k\<lparr>fi_ticks := fi_ticks k + 1\<rparr>) w1" by simp
        with inc st one m show ?thesis by (auto intro!: exI [of _ "fi_ticks k + 1"])
      next
        case False
        with step have "stays (k\<lparr>fi_ticks := fi_ticks k\<rparr>) w1" by simp
        with st one m show ?thesis by (auto intro!: exI [of _ "fi_ticks k"])
      qed
    next
      case True
      with step have s1: "stays ?k w1" and lt: "sint (fi_ticks k + 1) < e_max_ticks E"
        by auto
      have sl: "steps_left E (fi_ticks k) = Suc (steps_left E (fi_ticks k + 1))"
        using steps_left_inc [of "fi_ticks k" E] lt inc mx by simp
      have le: "steps_left E (fi_ticks ?k) \<le> n" using Suc.prems(4) sl by simp
      have t1: "sint (fi_ticks ?k) < 2 ^ 31 - 1" using lt mx by simp
      have c1: "compiled_handlers (fi_m ?k)" using Suc.prems(2) by simp
      have eq: "exec_loop (Suc j) E w = exec_loop j E w1" for j using True run w1 by simp
      from Suc.IH [OF s1 c1 t1 le] show ?thesis
        using inc lt sl eq by (fastforce simp: max_def)
    qed
  qed
qed

section \<open>The properties\<close>

lemma demo_compiler_keeps: "compiler_keeps demo_env"
  by (simp add: compiler_keeps_def demo_env_def keep_rules)

lemma demo_handlers: "compiled_handlers (demo_method code)"
  by (simp add: compiled_handlers_def demo_method_def nth_opt_def err_num_def all_errs_def)

text \<open>
  C2: an opcode never changes whose method runs: the message, the object, the caller, the
  arguments, the method and its ticks stay what they were, and the stack stays within its
  bound.
\<close>

theorem opcode_keeps_frame:
  assumes "compiler_keeps E" "length (stack w) \<le> STACK_SIZE" "call_op c E w = Some w'"
  shows "frame_id w' = frame_id w \<and> length (stack w') \<le> STACK_SIZE"
proof -
  have "stays (frame_id w) w" using assms(2) by (simp add: stays_def)
  from call_op_keeps [OF assms(1) this, THEN keep1D, OF assms(3)] show ?thesis
    by (simp add: stays_def)
qed

theorem opcode_keeps_frame_witness:
  "\<exists>w'. call_op O_THIS demo_env (demo_world [] []) = Some w' \<and> stack w' = [VOBJ (local_id 1)] \<and>
     frame_id w' = frame_id (demo_world [] [])"
proof -
  have s: "length (stack (demo_world [] [])) \<le> STACK_SIZE"
    by (simp add: demo_machine STACK_SIZE_def)
  obtain w' where w': "call_op O_THIS demo_env (demo_world [] []) = Some w'"
    "stack w' = [VOBJ (local_id 1)]"
    by (simp add: call_op_def bf_id2entry_def bf_table_def op_call_def op_functions_def op_this_def
      push_def demo_machine STACK_SIZE_def)
  with opcode_keeps_frame [OF demo_compiler_keeps s w'(1)] show ?thesis by blast
qed



lemma op_functions_codes: "map fst op_functions = map op_code opcode_info"
  by (simp add: op_functions_def opcode_info_def)

lemma op_find_code: "op_find c t = Some e \<Longrightarrow> c \<in> set (map op_code t)"
  by (induction t) (auto split: if_splits)

lemma op_find_mem: "c \<in> set (map op_code t) \<Longrightarrow> \<exists>e. op_find c t = Some e"
  by (induction t) auto

lemma bf_nums: "set (map bf_num bf_table) \<subseteq> set (map op_code opcode_info)"
  by (simp add: bf_table_def opcode_info_def)

lemma bf_num_range: "\<forall>n\<in>set (map bf_num bf_table). 0 \<le> n \<and> n < LAST_TOKEN"
  by (simp add: bf_table_def LAST_TOKEN_def)



end
