(* ===== verification/StackOps.thy ===== *)
theory StackOps
  imports ExecInv
begin

text \<open>
  What the primitives and the most used opcodes compute: errors, argument lists, arithmetic,
  indexing, and the loops of the language. A stack is written as the part below and the
  operands of the opcode.
\<close>

section \<open>Stack\<close>

lemma pop_top: "stack w = s @ [v] \<Longrightarrow> pop E w = Some (v, set_stack s w)"
  by (simp add: pop_def)

lemma pop_set [simp]: "pop E (set_stack (s @ [v]) w) = Some (v, set_stack s w)"
  by (simp add: pop_def)

lemma push_room: "length (stack w) < STACK_SIZE \<Longrightarrow> push E v w = Some (set_stack (stack w @ [v]) w)"
  by (simp add: push_def)

lemma pop_two:
  "stack w = s @ [a, b] \<Longrightarrow> pop E w = Some (b, set_stack (s @ [a]) w)"
  using pop_top [of w "s @ [a]" b] by simp

lemma set_stack_same: "stack w = s \<Longrightarrow> set_stack s w = w"
  by simp

lemmas stack_eval = pop_top pop_two push_room

section \<open>Errors\<close>

text \<open>
  C23: raising an error: it is pushed; a method that ignores it goes on with the error on its
  stack and nothing else changed; one that does not is over, and its caller gets one
  \<open>raise\<close> message with the error and a traceback.
\<close>

theorem raise_spec:
  assumes e: "e \<noteq> E_NONE" "e \<noteq> E_STACKOVR" and s: "length (stack w) < STACK_SIZE"
    and h: "nth_opt (m_ehandler (ev_m (w_frame w))) (sint (err_code e)) = Some h"
    and c: "server (ev_caller (w_frame w)) = 0" "0 \<le> sint (ev_msgid (w_frame w))"
    and r: "raise E e w = Some w'"
  shows "let w1 = set_stack (stack w @ [VERR (err_code e)]) w in
    if h = EH_DEFAULT
    then \<exists>text. w' = w1\<lparr>w_msgs := w_msgs w @
      [frame_message RAISE [VERR (err_code e), VSTRs text] w], w_state := RAISED\<rparr>
    else w' = w1"
proof -
  let ?w1 = "set_stack (stack w @ [VERR (err_code e)]) w"
  have core: "raise_core E (err_code e) ?w1 = Some w'"
    using r e s by (simp add: raise_code_def push_room)
  show ?thesis
  proof (cases "h = EH_DEFAULT")
    case True
    with core h e obtain tb where
      "map_option (\<lambda>x. x\<lparr>w_state := RAISED\<rparr>) (send_raise E [VERR (err_code e), VSTRs tb] ?w1) = Some w'"
      by (auto simp: raise_core_def split: bind_splits)
    then show ?thesis using True c
      by (auto simp: send_raise_def send_message_def frame_message_def msg_add_def Let_def)
  next
    case False
    with core h e show ?thesis by (cases h) (auto simp: raise_core_def split: bind_splits)
  qed
qed

lemma demo_name: "sym_str (demo_root code) 0 = Some ''run''"
  by (simp add: sym_str_def sym_get_def nth_opt_def demo_objects)

theorem raise_spec_witness:
  "\<exists>w'. raise demo_env E_RANGE (demo_world [305] [VNUM 3]) = Some w' \<and>
     stack w' = [VNUM 3, VERR 2] \<and> w_state w' = RAISED \<and> length (w_msgs w') = 1"
proof -
  let ?w = "demo_world [305] [VNUM 3]"
  have code: "err_code E_RANGE = 2" by (simp add: err_num_def all_errs_def)
  have h: "nth_opt (m_ehandler (ev_m (w_frame ?w))) (sint (err_code E_RANGE)) = Some EH_DEFAULT"
    by (simp add: code demo_machine demo_method_def nth_opt_def)
  obtain t where t: "obj_text demo_servers (local_id 1) = Some t"
    by (simp add: obj_text_def catobj_def serv_id2name_def serv_find_def demo_servers_def
      demo_self_def demo_server_def)
  obtain w' where w': "raise demo_env E_RANGE ?w = Some w'"
    using t h by (simp add: raise_code_def push_def raise_core_def STACK_SIZE_def
      add_traceback_header_def add_traceback_def send_raise_def send_message_def frame_message_def
      demo_name demo_machine demo_line [simplified demo_machine demo_method_def] code Let_def demo_method_def err_num_def all_errs_def
      nth_opt_def)
  from raise_spec [OF _ _ _ h _ _ w'] show ?thesis
    using w' by (auto simp: demo_machine STACK_SIZE_def code Let_def)
qed

section \<open>Arguments\<close>

lemma push_all_room:
  "length (stack w) + length vs \<le> STACK_SIZE \<Longrightarrow>
     push_all E vs w = Some (set_stack (stack w @ vs) w)"
  by (induction vs arbitrary: w) (simp_all add: push_room)

lemma count_shift_args:
  "ARGSTART_MARK \<notin> set vs \<Longrightarrow>
     count_shift i p (vs @ ARGSTART_MARK # s) = (p # vs @ s, Some (i + length vs))"
  by (induction vs arbitrary: i p) auto

lemma count_args_marked:
  assumes "stack w = s @ ARGSTART_MARK # vs" "ARGSTART_MARK \<notin> set vs"
  shows "count_args E w = Some (int (length vs), set_stack (s @ vs) w)"
  using assms count_shift_args [of "rev vs" 0 "VNUM 0" "rev s"] by (simp add: count_args_def)

lemma pop_args_from_top:
  "stack w = s @ vs \<Longrightarrow> pop_args_from E (length vs) w = Some (vs, set_stack s w)"
proof (induction vs arbitrary: w rule: rev_induct)
  case Nil
  then show ?case by simp
next
  case (snoc v vs)
  then have "pop E w = Some (v, set_stack (s @ vs) w)" by (simp add: pop_def butlast_append)
  with snoc.IH [of "set_stack (s @ vs) w"] show ?case by simp
qed

text \<open>
  C27: the arguments of a call go through the stack unchanged: after the marker and the
  arguments are pushed, counting and popping gives back their number and their list, and
  leaves the stack as it was.
\<close>

theorem args_round_trip:
  assumes "length (stack w) + length vs < STACK_SIZE" "ARGSTART_MARK \<notin> set vs"
  shows "do { w1 \<leftarrow> op_argstart E w; w2 \<leftarrow> push_all E vs w1; (n, w3) \<leftarrow> count_args E w2;
      (xs, w4) \<leftarrow> pop_args E n w3; Some (n, xs, w4) } = Some (int (length vs), vs, w)"
proof -
  have mark: "op_argstart E w = Some (set_stack (stack w @ [ARGSTART_MARK]) w)"
    using assms(1) by (simp add: op_argstart_def pushpc_def push_room ARGSTART_MARK_def)
  let ?w1 = "set_stack (stack w @ [ARGSTART_MARK]) w"
  have "push_all E vs ?w1 = Some (set_stack (stack w @ ARGSTART_MARK # vs) w)"
    using assms(1) by (simp add: push_all_room)
  moreover have "count_args E (set_stack (stack w @ ARGSTART_MARK # vs) w) =
      Some (int (length vs), set_stack (stack w @ vs) w)"
    using count_args_marked [of "set_stack (stack w @ ARGSTART_MARK # vs) w" "stack w" vs E] assms(2)
    by simp
  moreover have "pop_args E (int (length vs)) (set_stack (stack w @ vs) w) = Some (vs, w)"
    using pop_args_from_top [of "set_stack (stack w @ vs) w" "stack w" vs E]
    by (simp add: pop_args_def)
  ultimately show ?thesis using mark by simp
qed

theorem args_round_trip_witness:
  "do { w1 \<leftarrow> op_argstart demo_env (demo_world [] [VNUM 1]);
      w2 \<leftarrow> push_all demo_env [VNUM 4, VLIST []] w1; (n, w3) \<leftarrow> count_args demo_env w2;
      (xs, w4) \<leftarrow> pop_args demo_env n w3; Some (n, xs, w4) } =
    Some (2, [VNUM 4, VLIST []], demo_world [] [VNUM 1])"
  using args_round_trip [of "demo_world [] [VNUM 1]" "[VNUM 4, VLIST []]" demo_env]
  by (simp add: demo_machine STACK_SIZE_def ARGSTART_MARK_def)

section \<open>Arithmetic\<close>

fun wf_text :: "var \<Rightarrow> bool" where
  "wf_text (VSTR s) \<longleftrightarrow> slen s = length (sdata s)"
| "wf_text _ \<longleftrightarrow> True"



lemma c_div_bound:
  assumes "\<bar>a\<bar> \<le> 2 ^ 31" "b \<noteq> 0" "\<not> (a = - (2 ^ 31) \<and> b = -1)" "a < 2 ^ 31"
  shows "- (2 ^ 31) \<le> c_div a b \<and> c_div a b < 2 ^ 31"
proof -
  let ?q = "\<bar>a\<bar> div \<bar>b\<bar>"
  have q: "0 \<le> ?q" "?q \<le> \<bar>a\<bar>" using assms(2) zdiv_mono2 [of "\<bar>a\<bar>" 1 "\<bar>b\<bar>"] by (simp_all add: pos_imp_zdiv_nonneg_iff)
  have big: "?q < 2 ^ 31" if "\<bar>b\<bar> \<noteq> 1"
  proof (cases "a = 0")
    case False
    then have "?q < \<bar>a\<bar>" using that assms(2) by (intro int_div_less_self) auto
    with assms(1) show ?thesis by simp
  qed simp
  show ?thesis
  proof (cases "\<bar>b\<bar> = 1")
    case True
    then have "b = 1 \<or> b = -1" by auto
    with assms show ?thesis by (auto simp: c_div_def sgn_if abs_if split: if_splits)
  next
    case False
    with big q show ?thesis by (auto simp: c_div_def sgn_if)
  qed
qed

text \<open>
  C29: \<open>/\<close> and \<open>%\<close>: division by zero is an error of the language; otherwise the quotient and the
  remainder recompose the dividend, the remainder is smaller than the divisor and has the sign
  of the dividend. \<open>INT_MIN\<close> by \<open>-1\<close> has no result: the server traps.
\<close>

theorem div_mod_spec:
  assumes st: "stack w = s @ [VNUM a, VNUM b]" "length s < STACK_SIZE"
  shows "if b = 0 then op_div E w = raise E E_DIV (set_stack s w) \<and>
        op_mod E w = raise E E_DIV (set_stack s w)
    else if sint a = - (2 ^ 31) \<and> sint b = -1 then op_div E w = None \<and> op_mod E w = None
    else \<exists>q r. op_div E w = Some (set_stack (s @ [VNUM q]) w) \<and>
      op_mod E w = Some (set_stack (s @ [VNUM r]) w) \<and>
      sint a = sint b * sint q + sint r \<and> \<bar>sint r\<bar> < \<bar>sint b\<bar> \<and>
      (sint r \<noteq> 0 \<longrightarrow> sgn (sint r) = sgn (sint a))"
proof -
  have pops: "pop E w = Some (VNUM b, set_stack (s @ [VNUM a]) w)"
    using st(1) by (simp add: pop_two)
  note ops = op_div_def op_mod_def num_op_def pops div_traps_def
  show ?thesis
  proof (cases "b = 0 \<or> (sint a = - (2 ^ 31) \<and> sint b = -1)")
    case True
    then show ?thesis by (auto simp: ops)
  next
    case False
    then have b: "sint b \<noteq> 0" by (metis signed_0 signed_word_eqI)
    have a: "\<bar>sint a\<bar> \<le> 2 ^ 31" "sint a < 2 ^ 31"
      using sint_lt [of a] sint_ge [of a] by simp_all
    have r: "c_mod (sint a) (sint b) = sgn (sint a) * (\<bar>sint a\<bar> mod \<bar>sint b\<bar>)"
      using b by (rule c_mod_eq)
    have q: "sint (i32_of (c_div (sint a) (sint b))) = c_div (sint a) (sint b)"
      using c_div_bound [OF a(1) b _ a(2)] False by (intro sint_i32_of) auto
    have bb: "\<bar>sint b\<bar> \<le> 2 ^ 31" using sint_lt [of b] sint_ge [of b] by simp
    have rb: "\<bar>c_mod (sint a) (sint b)\<bar> < \<bar>sint b\<bar>" using b by (rule c_mod_bound)
    have r': "sint (i32_of (c_mod (sint a) (sint b))) = c_mod (sint a) (sint b)"
      using rb bb by (intro sint_i32_of) auto
    have sg: "sgn (c_mod (sint a) (sint b)) = sgn (sint a)" if "c_mod (sint a) (sint b) \<noteq> 0"
    proof -
      have "0 \<le> \<bar>sint a\<bar> mod \<bar>sint b\<bar>" using b by simp
      with that show ?thesis unfolding r by (auto simp: sgn_mult)
    qed
    from False have n: "\<not> b = 0" "\<not> (sint a = - (2 ^ 31) \<and> sint b = -1)" by auto
    have d: "op_div E w = Some (set_stack (s @ [VNUMi (c_div (sint a) (sint b))]) w)"
      and m: "op_mod E w = Some (set_stack (s @ [VNUMi (c_mod (sint a) (sint b))]) w)"
      using n st(2) by (simp_all add: ops push_room)
    show ?thesis unfolding if_not_P [OF n(1)] if_not_P [OF n(2)]
      by (intro exI conjI impI, rule d, rule m)
         (use q r' rb sg in \<open>simp_all add: c_div_mod_id\<close>)
  qed
qed

theorem div_mod_spec_witness:
  "\<exists>w'. op_div demo_env (demo_world [] [VNUM (-7), VNUM 2]) = Some w'"
  using div_mod_spec [of "demo_world [] [VNUM (-7), VNUM 2]" "[]" "-7" 2 demo_env]
  by (auto simp: demo_machine STACK_SIZE_def split: if_splits)

section \<open>Indexing\<close>

text \<open>
  An index counts from 1: a list gives the element, a string the one-character string at
  that place; outside \<open>1..length\<close> it is a range error, and nothing outside the value is read.
\<close>

theorem op_index_spec:
  assumes st: "stack w = s @ [base, VNUM n]" "length s < STACK_SIZE" and wf: "wf_text base"
    and len: "len = (case base of VLIST l \<Rightarrow> length l | VSTR c \<Rightarrow> slen c | _ \<Rightarrow> 0)"
    and base: "vtype base = T_LIST \<or> vtype base = T_STR"
  shows "op_index E w =
    (if sint n < 1 \<or> int len < sint n then raise E E_RANGE (set_stack s w)
     else Some (set_stack (s @ [case base of VLIST l \<Rightarrow> l ! (nat (sint n) - 1)
       | VSTR c \<Rightarrow> VSTRs [sdata c ! (nat (sint n) - 1)]]) w))"
proof -
  have pops: "pop E w = Some (VNUM n, set_stack (s @ [base]) w)"
    using st(1) by (simp add: pop_two)
  have i: "nat (sint n - 1) = nat (sint n) - 1" by (simp add: nat_diff_distrib')
  show ?thesis
    using base wf st(2) len
    by (cases base) (auto simp: op_index_def pops push_room nth_opt_def i)
qed

theorem op_index_spec_witness:
  "op_index demo_env (demo_world [] [VLIST [VNUM 4, VNUM 8], VNUM 2]) =
     Some (demo_world [] [VNUM 8])"
  using op_index_spec [of "demo_world [] [VLIST [VNUM 4, VNUM 8], VNUM 2]" "[]"
      "VLIST [VNUM 4, VNUM 8]" 2 2 demo_env]
  by (simp add: demo_machine STACK_SIZE_def)

text \<open>
  A subscript range \<open>l[lo..hi]\<close> of a list is the elements from \<open>lo\<close> to \<open>hi\<close>, both counted
  from 1; an upper bound below 1 means the end. Every other range, also the empty ones, is a
  range error.
\<close>

theorem op_subset_spec:
  assumes st: "stack w = s @ [VLIST l, VNUM a, VNUM b]" "length s < STACK_SIZE"
    and hi: "hi = (if sint b < 1 then int (length l) else sint b)"
  shows "op_subset E w =
    (if 1 \<le> sint a \<and> sint a \<le> hi \<and> hi \<le> int (length l)
     then Some (set_stack (s @ [VLIST (take (nat (hi - sint a + 1)) (drop (nat (sint a - 1)) l))]) w)
     else raise E E_RANGE (set_stack s w))"
proof -
  have p: "pop E w = Some (VNUM b, set_stack (s @ [VLIST l, VNUM a]) w)"
    "pop E (set_stack (s @ [VLIST l, VNUM a]) w) = Some (VNUM a, set_stack (s @ [VLIST l]) w)"
    using st(1) pop_set [of E "s @ [VLIST l]" "VNUM a" w] by (simp_all add: pop_def butlast_append)
  show ?thesis
  proof (cases "1 \<le> sint a \<and> sint a \<le> hi \<and> hi \<le> int (length l)")
    case True
    then have "list_subset l (sint a) hi = Some (take (nat (hi - sint a + 1)) (drop (nat (sint a - 1)) l))"
      by (intro list_subset_take_drop) auto
    moreover have "l \<noteq> []" using True by auto
    ultimately show ?thesis using True st(2) unfolding hi
      by (cases "sint b < 1") (simp_all add: op_subset_def p push_room Let_def)
  next
    case False
    then show ?thesis unfolding hi
      by (cases "sint b < 1") (auto simp: op_subset_def p Let_def)
  qed
qed

theorem op_subset_spec_witness:
  "op_subset demo_env (demo_world [] [VLIST [VNUM 4, VNUM 8, VNUM 9], VNUM 2, VNUM (-1)]) =
     Some (demo_world [] [VLIST [VNUM 8, VNUM 9]])"
  using op_subset_spec [of "demo_world [] [VLIST [VNUM 4, VNUM 8, VNUM 9], VNUM 2, VNUM (-1)]" "[]"
      "[VNUM 4, VNUM 8, VNUM 9]" 2 "-1" 3 demo_env]
  by (simp add: demo_machine STACK_SIZE_def)

section \<open>Loops\<close>

text \<open>
  One round of \<open>for x in list\<close>: while there are elements left, the opcode stores the next
  one, leaves the list, the next index and its own address on the stack, and goes on to the
  body; the \<open>STOP\<close> that ends the body takes the address and runs the opcode again. Past the
  last element the list and the index are gone and control is at the end of the loop.
\<close>

theorem for_round:
  assumes st: "stack w = s @ [VLIST vs, VNUM i]" "length s + 3 \<le> STACK_SIZE"
    and i: "0 \<le> sint i" and code: "code_at w (pc w) = Some k" "code_at w (pc w + 1) = Some endfor"
    and k: "0 \<le> k" "k < int (length s)" and p: "1 \<le> pc w" "pc w < 2 ^ 31"
  shows "if sint i < int (length vs)
    then \<exists>w1. op_for E w = Some w1 \<and>
      stack w1 = s[nat k := vs ! nat (sint i)] @ [VLIST vs, VNUM (i + 1), VPC (i32_of (pc w - 1))] \<and>
      pc w1 = pc w + 2 \<and>
      op_stop E w1 = Some (set_pc (pc w - 1) (set_stack (s[nat k := vs ! nat (sint i)] @ [VLIST vs, VNUM (i + 1)]) w))
    else op_for E w = Some (set_pc endfor (set_stack s w))"
proof -
  have pops: "pop E w = Some (VNUM i, set_stack (s @ [VLIST vs]) w)"
    using st(1) by (simp add: pop_two)
  have code': "code_at (set_stack x w) n = code_at w n" for x n by (simp add: code_at_def)
  have q: "sint (i32_of (pc w) - 1) = pc w - 1" using p sint_i32_of [of "pc w - 1"] by simp
  show ?thesis
  proof (cases "sint i < int (length vs)")
    case False
    then show ?thesis by (simp add: op_for_def pops code code')
  next
    case True
    let ?s = "s[nat k := vs ! nat (sint i)]"
    let ?w1 = "set_pc (pc w + 2) (set_stack (?s @ [VLIST vs, VNUM (i + 1), VPC (i32_of (pc w - 1))]) w)"
    have "op_for E w = Some ?w1"
      using True i k st(2)
      by (simp add: op_for_def pops code code' assign_local_def var_assign_local_def upd_opt_def
          nth_opt_def push_room pushpc_def)
    moreover have "op_stop E ?w1 = Some (set_pc (pc w - 1) (set_stack (?s @ [VLIST vs, VNUM (i + 1)]) w))"
      using p(1) pop_top [of ?w1 "?s @ [VLIST vs, VNUM (i + 1)]" "VPC (i32_of (pc w - 1))" E]
      by (simp add: op_stop_def q)
    ultimately show ?thesis using True by simp
  qed
qed

theorem for_round_witness:
  "\<exists>w1. op_for demo_env ((demo_world [280, 0, 9, 400] [VNUM 0, VLIST [VNUM 4], VNUM 0])
       \<lparr>w_frame := (demo_frame [280, 0, 9, 400] [VNUM 0, VLIST [VNUM 4], VNUM 0])\<lparr>ev_pc := 1\<rparr>\<rparr>) = Some w1 \<and>
     stack w1 = [VNUM 4, VLIST [VNUM 4], VNUM 1, VPC 0]"
  using for_round [of "(demo_world [280, 0, 9, 400] [VNUM 0, VLIST [VNUM 4], VNUM 0])
       \<lparr>w_frame := (demo_frame [280, 0, 9, 400] [VNUM 0, VLIST [VNUM 4], VNUM 0])\<lparr>ev_pc := 1\<rparr>\<rparr>"
      "[VNUM 0]" "[VNUM 4]" 0 0 9 demo_env]
  by (auto simp: demo_machine STACK_SIZE_def code_at_def nth_opt_def demo_method_def)

text \<open>
  \<open>break\<close> out of a \<open>for\<close> loop over a list is undefined: the opcode pops the address, the
  index, and then the list into the variable that held the address, and reads the address
  again.
\<close>

theorem break_for_undefined:
  assumes "stack w = s @ [VLIST vs, VNUM i, VPC p]" "0 \<le> sint p" "code_at w (sint p) = Some O_FOR"
    and "code_at w (pc w) = Some 1"
  shows "op_break E w = None"
proof -
  have brk: "break_to 1 (set_pc (pc w + 1) w) =
      Some (sint p, set_stack (s @ [VLIST vs, VNUM i]) (set_pc (pc w + 1) w))"
    using assms(1,2) by (simp add: break_to_def)
  have code: "code_at (w\<lparr>w_frame := w_frame w\<lparr>ev_pc := n, ev_stack := x\<rparr>\<rparr>) k = code_at w k" for x n k
    by (simp add: code_at_def)
  show ?thesis
    using assms(3,4) by (simp add: op_break_def next_arg_def brk code pop_def butlast_append)
qed

theorem break_for_undefined_witness:
  "op_break demo_env (demo_world [1, 280] [VLIST [], VNUM 1, VPC 1]) = None"
  by (rule break_for_undefined [of _ "[]" "[]" 1 1])
     (simp_all add: demo_machine code_at_def nth_opt_def demo_method_def)

text \<open>
  \<open>for x in [a..b]\<close> never ends when \<open>b\<close> is the largest number: the round at \<open>b\<close> leaves a
  lower bound that has wrapped to the smallest one.
\<close>

theorem forrng_wraps:
  assumes st: "stack w = s @ [VNUM a, VNUM b]" "length s + 3 \<le> STACK_SIZE"
    and ab: "sint a \<le> sint b" "sint b = 2 ^ 31 - 1"
    and code: "code_at w (pc w) = Some k" and k: "0 \<le> k" "k < int (length s)"
  shows "\<exists>w1 a'. op_forrng E w = Some w1 \<and> pc w1 = pc w + 2 \<and> sint a' \<le> sint b \<and>
    stack w1 = s[nat k := VNUM a] @ [VNUM a', VNUM b, VPC (i32_of (pc w - 1))] \<and>
    (a = b \<longrightarrow> sint a' = - (2 ^ 31))"
proof -
  have pops: "pop E w = Some (VNUM b, set_stack (s @ [VNUM a]) w)"
    using st(1) by (simp add: pop_two)
  have code': "code_at (set_stack x w) n = code_at w n" for x n by (simp add: code_at_def)
  have "op_forrng E w = Some (set_pc (pc w + 2) (set_stack
      (s[nat k := VNUM a] @ [VNUM (a + 1), VNUM b, VPC (i32_of (pc w - 1))]) w))"
    using ab(1) k st(2)
    by (simp add: op_forrng_def pops code code' assign_local_def var_assign_local_def upd_opt_def
        push_room pushpc_def)
  moreover have "sint (a + 1) \<le> sint b" using sint_lt [of "a + 1"] ab(2) by simp
  moreover have "sint (a + 1) = - (2 ^ 31)" if "a = b"
  proof -
    have "i32_of (sint b) = b" by simp
    then have "b = i32_of (2 ^ 31 - 1)" using ab(2) by simp
    with that show ?thesis by simp
  qed
  ultimately show ?thesis by auto
qed

theorem forrng_wraps_witness:
  "\<exists>w1 a'. op_forrng demo_env (demo_world [0] [VNUM 3, VNUM 2147483647, VNUM 2147483647]) = Some w1 \<and>
     stack w1 = [VNUM 2147483647, VNUM a', VNUM 2147483647, VPC (-1)] \<and> sint a' = - (2 ^ 31)"
  using forrng_wraps [of "demo_world [0] [VNUM 3, VNUM 2147483647, VNUM 2147483647]" "[VNUM 3]"
      2147483647 2147483647 0 demo_env]
  by (auto simp: demo_machine STACK_SIZE_def code_at_def nth_opt_def demo_method_def)

end
