(* ===== verification/QueueInv.thy ===== *)
theory QueueInv
  imports StackOps
begin

text \<open>
  Time, messages, events and locks: the arithmetic of the timers, what sending a message does,
  how a reply reaches the method that waits for it, the order of locks, and what
  \<open>process_queues\<close> leaves behind.
\<close>

section \<open>Timers\<close>

text \<open>A time as a number of microseconds, and the form the system clock gives it.\<close>

definition usecs :: "timeval \<Rightarrow> int" where
  "usecs t = tv_sec t * 1000000 + tv_usec t"

definition timer_ok :: "timeval \<Rightarrow> bool" where
  "timer_ok t \<longleftrightarrow> 0 \<le> tv_usec t \<and> tv_usec t < 1000000"

text \<open>
  C30: the timers are arithmetic on microseconds: the comparison is the order, the difference is
  the difference and again in normal form, and adding milliseconds adds them. The sum is in
  normal form but for one case: the code carries only above a million, so a sum of exactly one
  million microseconds stays.
\<close>

theorem timer_refines_usecs:
  assumes "timer_ok a" "timer_ok b" "0 \<le> ms"
  shows "(timer_less a b \<longleftrightarrow> usecs a < usecs b) \<and>
    usecs (timer_sub a b) = usecs a - usecs b \<and> timer_ok (timer_sub a b) \<and>
    usecs (timer_addmsec a ms) = usecs a + ms * 1000 \<and>
    (timer_ok (timer_addmsec a ms) \<or> tv_usec (timer_addmsec a ms) = 1000000)"
proof -
  have m: "0 \<le> c_mod ms 1000" "c_mod ms 1000 < 1000" "c_div ms 1000 * 1000 + c_mod ms 1000 = ms"
    using c_mod_range [of ms 1000] c_div_mod_id [of 1000 ms] assms(3) by simp_all
  have d: "usecs (timer_sub a b) = usecs a - usecs b" "timer_ok (timer_sub a b)"
    using assms by (auto simp: timer_sub_def usecs_def timer_ok_def Let_def)
  have l: "timer_less a b \<longleftrightarrow> usecs a < usecs b"
    using assms by (auto simp: timer_less_def usecs_def timer_ok_def)
  have s: "usecs (timer_addmsec a ms) = usecs a + (c_div ms 1000 * 1000 + c_mod ms 1000) * 1000"
    by (simp add: timer_addmsec_def usecs_def Let_def)
  have o: "timer_ok (timer_addmsec a ms) \<or> tv_usec (timer_addmsec a ms) = 1000000"
    using m(1,2) assms(1) by (auto simp: timer_addmsec_def timer_ok_def Let_def)
  show ?thesis using d l s o m(3) by simp
qed

theorem timer_refines_usecs_witness:
  "usecs (timer_addmsec \<lparr>tv_sec = 3, tv_usec = 500000\<rparr> 1500) = 5000000"
  using timer_refines_usecs [of "\<lparr>tv_sec = 3, tv_usec = 500000\<rparr>" "\<lparr>tv_sec = 3, tv_usec = 0\<rparr>" 1500]
  by (simp add: timer_ok_def usecs_def)

section \<open>Sending\<close>

text \<open>
  Sending an original message to an object of this server: past the recursion limit nothing
  happens and the answer is \<open>E_MAXREC\<close>; otherwise it gets the next message number, goes to the
  end of the queue, and the waiting event, if any, goes to the end of the events with that
  number. The counter of message numbers moves on by one.
\<close>

theorem send_message_spec:
  assumes "sint (ms_msgid m) < 0" "server (ms_to m) = 0"
  shows "send_message E m e w =
    (if 0 < e_max_age E \<and> e_max_age E \<le> sint (ms_age m) then Some (w, E_MAXREC)
     else Some (w\<lparr>w_next := w_next w + 1, w_msgs := w_msgs w @ [m\<lparr>ms_msgid := w_next w\<rparr>],
       w_events := w_events w @ (case e of None \<Rightarrow> [] | Some ev \<Rightarrow>
         [ev\<lparr>ev_blocked := BL_MESSAGE, ev_bmsgid := w_next w, ev_bobj := ms_to m\<rparr>])\<rparr>, E_NONE))"
  using assms
  by (auto simp: send_message_def msg_add_def event_add_def Let_def split: option.splits)

theorem send_message_spec_witness:
  "\<exists>w'. send_message demo_env (demo_message\<lparr>ms_msgid := -1\<rparr>) None (demo_world [] []) = Some (w', E_NONE) \<and>
     map ms_msgid (w_msgs w') = [6]"
  using send_message_spec [of "demo_message\<lparr>ms_msgid := -1\<rparr>" demo_env None "demo_world [] []"]
  by (simp add: demo_machine demo_message_def)

section \<open>Replies\<close>

text \<open>The first reply with the number the event waits for.\<close>

definition first_reply :: "i32 \<Rightarrow> message list \<Rightarrow> message list \<Rightarrow> message \<Rightarrow> message list \<Rightarrow> bool" where
  "first_reply msgid ms pre m post \<longleftrightarrow> ms = pre @ m # post \<and> ms_msgid m = msgid \<and>
     is_reply (ms_text m) \<and> (\<forall>x\<in>set pre. \<not> (ms_msgid x = msgid \<and> is_reply (ms_text x)))"

lemma find_reply_first:
  "first_reply msgid ms pre m post \<Longrightarrow> find_reply_in i msgid ms = Some (i + length pre, m)"
  by (induction pre arbitrary: ms i) (auto simp: first_reply_def)

lemma find_reply_none:
  "\<forall>x\<in>set ms. \<not> (ms_msgid x = msgid \<and> is_reply (ms_text x)) \<Longrightarrow> find_reply_in i msgid ms = None"
  by (induction ms arbitrary: i) auto

lemma remove_nth_middle: "remove_nth (length pre) (pre @ x # post) = pre @ post"
  by (simp add: remove_nth_def)

lemma is_reply_return: "c_strcasecmp s ''return'' = 0 \<Longrightarrow> is_reply s"
  by (simp add: is_reply_def)



section \<open>What process_queues leaves\<close>

lemma msg_pass_handled: "msg_pass n E i True w = Some (h, w') \<Longrightarrow> h"
proof (induction n arbitrary: i w)
  case (Suc n)
  then show ?case by (fastforce simp: Let_def split: if_splits bind_splits)
qed simp

lemma msg_pass_idle:
  "msg_pass n E i False w = Some (False, w') \<Longrightarrow>
     w' = w \<and> (\<forall>j. i \<le> j \<longrightarrow> j < length (w_msgs w) \<longrightarrow> is_reply (ms_text (w_msgs w ! j)))"
proof (induction n arbitrary: i)
  case (Suc n)
  show ?case
  proof (cases "i < length (w_msgs w)")
    case True
    show ?thesis
    proof (cases "is_reply (ms_text (w_msgs w ! i))")
      case True
      have "w' = w \<and> (\<forall>j. Suc i \<le> j \<longrightarrow> j < length (w_msgs w) \<longrightarrow> is_reply (ms_text (w_msgs w ! j)))"
      proof (cases "Suc i < length (w_msgs w)")
        case more: True
        with Suc.prems True \<open>i < length (w_msgs w)\<close> have "msg_pass n E (Suc i) False w = Some (False, w')"
          by (simp add: Let_def)
        from Suc.IH [OF this] show ?thesis .
      next
        case False
        with Suc.prems True \<open>i < length (w_msgs w)\<close> show ?thesis by (simp add: Let_def)
      qed
      with True show ?thesis by (metis le_neq_implies_less Suc_le_eq)
    next
      case False
      with Suc.prems True have False
        by (auto simp: Let_def split: bind_splits if_splits dest: msg_pass_handled)
      then show ?thesis ..
    qed
  next
    case False
    with Suc.prems show ?thesis by auto
  qed
qed simp

lemma queue_loop_drained:
  "queue_loop n E now timeout w = Some (timeout', w') \<Longrightarrow> \<forall>m\<in>set (w_msgs w'). is_reply (ms_text m)"
proof (induction n arbitrary: timeout w)
  case (Suc n)
  then obtain evs t1 w1 msgs w2 where e: "event_pass n E now 0 False timeout w = Some (evs, t1, w1)"
    and m: "msg_pass n E 0 False w1 = Some (msgs, w2)"
    by (auto split: bind_splits)
  show ?case
  proof (cases "msgs \<or> evs")
    case True
    with Suc e m show ?thesis by auto
  next
    case False
    with m have "w2 = w1 \<and> (\<forall>j<length (w_msgs w1). is_reply (ms_text (w_msgs w1 ! j)))"
      using msg_pass_idle [of n E 0 w1 w2] by simp
    with Suc.prems e m False show ?thesis by (auto simp: in_set_conv_nth)
  qed
qed simp



end
