(* ===== verification/ValueSpecs.thy ===== *)
theory ValueSpecs
  imports Demo
begin

text \<open>
  The properties of values, strings and objects: lists with positions, mappings, the defects of
  shared mappings and of their comparison, the name hash, splitting, the portable string
  comparison, removal of variables, and the parent test that lets a cycle in.
\<close>

section \<open>Lists\<close>

text \<open>
  The list operations with a position in \<open>1..length\<close>: insertion puts the value before that
  element, appending after it, deletion takes it out again, and an assignment replaces it, with
  the same result in place and in a copy.
\<close>

theorem list_ops_spec:
  assumes "1 \<le> pos" "pos \<le> int (length l)"
  shows "list_insert l v pos = take (nat (pos - 1)) l @ v # drop (nat (pos - 1)) l \<and>
    list_append l v pos = take (nat pos) l @ v # drop (nat pos) l \<and>
    list_delete (list_insert l v pos) pos = Some l \<and>
    list_delete l pos = Some (take (nat (pos - 1)) l @ drop (nat pos) l) \<and>
    list_assign True l v pos = Some (l[nat (pos - 1) := v]) \<and>
    list_assign False l v pos = list_assign True l v pos"
proof -
  obtain n where n: "pos = int (Suc n)" "n < length l"
    using assms by (intro that [of "nat (pos - 1)"]) auto
  have i: "list_insert l v pos = take n l @ v # drop n l"
    using n by (simp add: list_insert_take_drop)
  have "list_delete (take n l @ v # drop n l) pos = Some (take n (take n l @ v # drop n l) @
      drop (Suc n) (take n l @ v # drop n l))"
    using n list_delete_take_drop [of pos "take n l @ v # drop n l"] by (simp add: nat_add_distrib)
  moreover have "take n (take n l @ v # drop n l) @ drop (Suc n) (take n l @ v # drop n l) = l"
    using n(2) by simp
  ultimately show ?thesis
    using n i assms list_delete_take_drop [OF assms] list_assign_update [OF assms]
    by (simp add: list_append_take_drop nat_add_distrib)
qed

theorem list_ops_spec_witness:
  "list_insert [VNUM 4, VNUM 6] (VNUM 5) 2 = [VNUM 4, VNUM 5, VNUM 6] \<and>
   list_delete [VNUM 4, VNUM 6] 2 = Some [VNUM 4]"
  using list_ops_spec [of 2 "[VNUM 4, VNUM 6]" "VNUM 5"] by simp

section \<open>Mappings\<close>



lemma map_find_new: "key_ok k \<Longrightarrow> map_find same (map_new n) k = Some None"
  using key_ok_index [of k "nat (max n 37)"]
  by (auto simp: map_find_def hash_new_def HASH_INIT_SIZE_def less_max_iff_disj)

lemma map_put_at_size: "map_put_at same i m k v = Some m' \<Longrightarrow> hsize m' = hsize m"
  by (auto simp: map_put_at_def split: if_splits bind_splits)

lemma put_all_size: "vmap_store.put_all same m kvs = Some m' \<Longrightarrow> hsize m' = hsize m"
proof (induction kvs arbitrary: m)
  case (Cons p kvs)
  obtain k v where p: "p = (k, v)" by (cases p)
  from Cons.prems obtain m1 where m1: "map_add_own same m k v = Some m1"
    "vmap_store.put_all same m1 kvs = Some m'"
    by (auto simp: vmap_store.put_all.simps p split: bind_splits)
  from m1(1) have "hsize m1 = hsize m"
    by (auto simp: map_add_own_def split: bind_splits dest: map_put_at_size)
  with Cons.IH [OF m1(2)] show ?case by simp
qed simp

text \<open>
  Assigning a new key to a shared mapping can lose it: the bucket is computed from the size
  of the old table, but the mapping is copied into a table of another size; the key then sits in
  a bucket where no lookup finds it.
\<close>

theorem map_add_shared_loses:
  assumes wf: "map_wf m" "\<forall>p\<in>set (hentries m). key_ok (fst p)" and k: "key_ok k"
    and new: "\<forall>p\<in>set (hentries m). key_nf (fst p) \<noteq> key_nf k"
    and ij: "hash_index (hash_var k) (hsize m) = Some i"
      "hash_index (hash_var k) (nat (max (int (hnum m)) 37)) = Some j" "i \<noteq> j"
    and add: "map_add False same m k v = Some m'"
  shows "map_find same m' k = Some None"
proof -
  let ?c0 = "map_new (int (hnum m))"
  from add ij(1) obtain c where c: "vmap_store.put_all same ?c0 (hentries m) = Some c"
    and m': "map_put_at same i c k v = Some m'"
    by (auto simp: map_add_def map_copy_def map_add_all_put_all split: bind_splits)
  have f: "map_find same c k = Some None"
    using vmap_store.find_put_all_other [OF map_wf_new wf(2) k new c] map_find_new [OF k] by simp
  have sz: "hsize c = nat (max (int (hnum m)) 37)"
    using put_all_size [OF c] by (simp add: hash_new_size)
  then have j: "hash_index (hash_var k) (hsize c) = Some j" using ij(2) by simp
  from m' obtain r where "htable m' = (htable c)[i := snd r]" "hsize m' = hsize c"
    by (auto simp: map_put_at_def split: if_splits bind_splits)
  with f j ij(3) show ?thesis by (simp add: map_find_def)
qed

theorem map_add_shared_loses_witness:
  "\<exists>m'. map_add False (\<lambda>_ _. False) (map_new 40) (VNUM 40) (VNUM 1) = Some m' \<and>
     map_find (\<lambda>_ _. False) m' (VNUM 40) = Some None"
proof -
  have m: "htable (map_new 40 :: vmap) = replicate 40 []" "hnum (map_new 40 :: vmap) = 0"
    by (simp_all add: hash_new_def HASH_INIT_SIZE_def)
  have ij: "hash_index (hash_var (VNUM 40)) (hsize (map_new 40 :: vmap)) = Some 0"
    "hash_index (hash_var (VNUM 40)) (nat (max (int (hnum (map_new 40 :: vmap))) 37)) = Some 3"
    by (simp_all add: m hash_index_def c_mod_nonneg)
  obtain m' where m': "map_add False (\<lambda>_ _. False) (map_new 40) (VNUM 40) (VNUM 1) = Some m'"
    using ij(1) by (simp add: map_add_def map_copy_def map_put_at_def m hash_new_def HASH_INIT_SIZE_def)
  have "key_ok (VNUM 40)" by (simp add: key_ok_def)
  from map_add_shared_loses [OF map_wf_new _ this _ ij _ m'] m' show ?thesis by auto
qed

lemma bucket_find_head: "key_ok k \<Longrightarrow> scalar_keys b \<Longrightarrow> (k, v) \<in> set b \<Longrightarrow>
    \<exists>u. bucket_find same k b = Some (Some u)"
proof -
  assume a: "key_ok k" "scalar_keys b" "(k, v) \<in> set b"
  then have "nf_lookup k b \<noteq> None" by (induction b) (auto split: prod.splits)
  with a show ?thesis by (auto simp: bucket_find_nf key_ok_def)
qed

text \<open>
  Two mappings with the same pairs are not equal for the server: the comparison takes the
  answer of \<open>map_find\<close>, 0 when it finds the key, for a failure, and is decided by the first key.
\<close>

theorem equal_maps_differ:
  assumes "map_wf m" "\<forall>p\<in>set (hentries m). key_ok (fst p)" "hentries m \<noteq> []" "\<not> same m m"
  shows "var_eq same (VMAP m) (VMAP m) = Some False"
proof -
  obtain k v rest where e: "hentries m = (k, v) # rest"
    using assms(3) by (metis list.exhaust surj_pair)
  then have kv: "(k, v) \<in> set (hentries m)" "key_ok k" using assms(2) by auto
  then obtain b where b: "b \<in> set (htable m)" "(k, v) \<in> set b" by auto
  then obtain i where i: "i < hsize m" "htable m ! i = b" by (auto simp: in_set_conv_nth)
  have "hash_index (hash_var k) (hsize m) = Some i" "scalar_keys b"
    using assms(1) i b(2) by (force simp: map_wf_def)+
  moreover obtain u where "bucket_find same k b = Some (Some u)"
    using bucket_find_head [OF kv(2) calculation(2) b(2)] by blast
  ultimately show ?thesis using assms(4) e i(2) by simp
qed

theorem equal_maps_differ_witness:
  "\<exists>m. map_find (\<lambda>_ _. False) m (VNUM 3) = Some (Some (VNUM 1)) \<and>
     var_eq (\<lambda>_ _. False) (VMAP m) (VMAP m) = Some False"
proof -
  have k: "key_ok (VNUM 3)" by (simp add: key_ok_def)
  let ?m = "HashT 1 ((replicate 37 []) [3 := [(VNUM 3, VNUM 1)]]) :: vmap"
  have m: "map_add_own (\<lambda>_ _. False) (map_new 0) (VNUM 3) (VNUM 1) = Some ?m"
    by (simp add: map_add_own_def hash_new_def HASH_INIT_SIZE_def hash_index_def c_mod_nonneg
      map_put_at_def)
  have wf: "map_wf ?m" using vmap_store.put_inv [OF map_wf_new k m] .
  have e: "hentries ?m = [(VNUM 3, VNUM 1)]" by (simp add: numeral_eq_Suc)
  have f: "map_find (\<lambda>_ _. False) ?m (VNUM 3) = Some (Some (VNUM 1))"
    using vmap_store.find_put_same [OF map_wf_new k m] .
  have keys: "\<forall>p\<in>set (hentries ?m). key_ok (fst p)" "hentries ?m \<noteq> []"
    unfolding e using k by simp_all
  show ?thesis by (rule exI, rule conjI [OF f equal_maps_differ [OF wf keys]]) (rule notI)
qed

section \<open>Strings\<close>

text \<open>
  The hash of a name is below 2^28 and never negative, so every name has a bucket in every
  table that is not empty; names are told apart by their case here.
\<close>

theorem hash_in_table:
  "0 \<le> sint (hash s) \<and> sint (hash s) < 2 ^ 28 \<and>
   (0 < n \<longrightarrow> (\<exists>i<n. hash_index (hash s) n = Some i)) \<and> hash ''a'' \<noteq> hash ''A''"
proof -
  have "hash ''a'' \<noteq> hash ''A''" by code_simp
  with hash_range [of s] hash_index_name [of n s] show ?thesis by auto
qed

theorem hash_in_table_witness: "\<exists>i<7. hash_index (hash ''dbtop'') 7 = Some i"
  using hash_in_table [of "''dbtop''" 7] by simp

lemma filter_prefix: "filter P t = takeWhile P t @ filter P (dropWhile P t)"
  by (induction t) auto

lemma tokens_spec:
  "concat (tokens c s) = filter (\<lambda>x. x \<noteq> c) s \<and> (\<forall>t\<in>set (tokens c s). t \<noteq> [] \<and> c \<notin> set t)"
proof (induction c s rule: tokens.induct)
  case (1 c s)
  let ?t = "dropWhile (\<lambda>x. x = c) s"
  have f: "filter (\<lambda>x. x \<noteq> c) s = filter (\<lambda>x. x \<noteq> c) ?t"
    by (induction s) auto
  show ?case
  proof (cases "?t = []")
    case True
    with f show ?thesis by (simp add: tokens.simps [of c s])
  next
    case False
    then have "hd ?t \<noteq> c" by (rule hd_dropWhile)
    with False have w: "takeWhile (\<lambda>x. x \<noteq> c) ?t \<noteq> []" by (cases ?t) auto
    have tk: "tokens c s = takeWhile (\<lambda>x. x \<noteq> c) ?t # tokens c (dropWhile (\<lambda>x. x \<noteq> c) ?t)"
      using False by (subst tokens.simps) (simp add: Let_def)
    have "concat (tokens c s) = filter (\<lambda>x. x \<noteq> c) s"
      unfolding tk f filter_prefix [of _ ?t] using 1 [OF refl False] by simp
    moreover have "\<forall>t\<in>set (tokens c s). t \<noteq> [] \<and> c \<notin> set t"
      unfolding tk using 1 [OF refl False] w by (auto dest: set_takeWhileD)
    ultimately show ?thesis ..
  qed
qed

text \<open>
  Splitting a string at a separator of one character: as many words as were counted, none
  empty, none with the separator, and together the string without its separators.
\<close>

theorem explode_words:
  "\<exists>ws. explode s [c] (count_words s [c]) = ws \<and> length ws = count_words s [c] \<and>
     concat ws = filter (\<lambda>x. x \<noteq> c) s \<and> list_all (\<lambda>t. t \<noteq> [] \<and> c \<notin> set t) ws"
  using tokens_spec [of c s] by (simp add: count_words_tokens explode_tokens list_all_iff)

text \<open>
  The portable comparison without regard to case, for systems that have none, agrees with
  the library's on ASCII text.
\<close>

theorem strcasecmp_portable:
  assumes "ascii s" "ascii t"
  shows "fallback_strcasecmp s t = Some (c_strcasecmp s t) \<and>
    (fallback_strcasecmp s t = Some 0 \<longleftrightarrow> map c_tolower s = map c_tolower t)"
  using fallback_agrees [OF assms] strcasecmp_zero_iff [of s t] ascii_nul_free assms by simp

theorem strcasecmp_portable_witness: "fallback_strcasecmp ''Look'' ''lOOK'' = Some 0"
  using strcasecmp_portable [of "''Look''" "''lOOK''"]
  by (simp add: ascii_def c_tolower_def c_isupper_def)

section \<open>Objects\<close>

text \<open>
  Removing a variable of an object: it is gone, the others keep their values, the error says
  whether it was there, and the object stays sound: every name it uses is in its symbol table.
\<close>

theorem remove_variable:
  assumes "object_inv ob" "nul_free name"
  shows "\<exists>ob'. var_rm_global ob name =
      Some (ob', if own_global ob name = Some None then E_VARNF else E_NONE) \<and>
    object_inv ob' \<and> own_global ob' name = Some None \<and>
    (\<forall>j. nul_free j \<longrightarrow> lower j \<noteq> lower name \<longrightarrow> own_global ob' j = own_global ob j)"
proof (rule var_rm_ok [OF assms])
  fix ob' e
  assume "var_rm_global ob name = Some (ob', e)" "object_inv ob'" "own_global ob' name = Some None"
    "\<And>j. nul_free j \<Longrightarrow> lower j \<noteq> lower name \<Longrightarrow> own_global ob' j = own_global ob j"
    "e = (if own_global ob name = Some None then E_VARNF else E_NONE)"
  then show ?thesis by (intro exI [of _ ob']) blast
qed

theorem remove_variable_witness:
  "\<exists>ob'. var_rm_global demo_sys ''dbtop'' = Some (ob', E_NONE) \<and> own_global ob' ''dbtop'' = Some None"
proof -
  have n: "nul_free ''dbtop''" by (simp add: nul_free_def)
  have o: "own_global demo_sys ''dbtop'' \<noteq> Some None" by (simp add: demo_own)
  from remove_variable [OF demo_sys_inv n] show ?thesis unfolding if_not_P [OF o] by blast
qed

definition cycle_db :: "var list \<Rightarrow> db" where
  "cycle_db l = (\<lambda>_. None)(1 := Some (demo_root []), 2 := Some (demo_kid\<lparr>o_parents := l\<rparr>),
     3 := Some (demo_kid\<lparr>o_id := local_id 3, o_parents := [VOBJ (local_id 2)]\<rparr>))"

lemma cycle_retrieve:
  "retrieve (cycle_db l) (local_id 3) = Some (demo_kid\<lparr>o_id := local_id 3, o_parents := [VOBJ (local_id 2)]\<rparr>)"
  "retrieve (cycle_db l) (local_id 2) = Some (demo_kid\<lparr>o_parents := l\<rparr>)"
  "retrieve (cycle_db l) (local_id 1) = Some (demo_root [])"
  by (simp_all add: retrieve_def cycle_db_def)

lemma cycle_own:
  "own_global (demo_kid\<lparr>o_id := i, o_parents := l\<rparr>) ''colour'' = Some None"
  "own_global (demo_kid\<lparr>o_parents := l\<rparr>) ''colour'' = Some None"
  by (simp_all add: own_global_def demo_objects sym_str_def sym_get_def nth_opt_def
    c_tolower_def c_isupper_def)

lemma cycle_accepted:
  "check_parents 4 (cycle_db [VOBJ (local_id 1)]) (local_id 2) (demo_kid\<lparr>o_parents := [VOBJ (local_id 1)]\<rparr>)
     [VOBJ (local_id 3)] = Some E_NONE"
proof -
  have four: "(4 :: nat) = Suc (Suc (Suc (Suc 0)))" by simp
  show ?thesis unfolding four
    by (simp add: check_parents_def ROOT_OBJ_def can_clone_def cycle_retrieve)
qed

lemma cycle_endless:
  "var_get_global n (cycle_db [VOBJ (local_id 3)]) (demo_kid\<lparr>o_parents := [VOBJ (local_id 3)]\<rparr>) ''colour'' = None \<and>
   var_get_global n (cycle_db [VOBJ (local_id 3)])
     (demo_kid\<lparr>o_id := local_id 3, o_parents := [VOBJ (local_id 2)]\<rparr>) ''colour'' = None"
  by (induction n) (simp_all add: cycle_own cycle_retrieve)

text \<open>
  C39: the parent test lets a cycle in: it asks whether a new parent descends from another new
  parent, and not whether it descends from the object. Making the child of an object its parent
  passes the test, and afterwards no search over the parents of the object ends.
\<close>

theorem parents_cycle:
  "check_parents 4 (cycle_db [VOBJ (local_id 1)]) (local_id 2) (demo_kid\<lparr>o_parents := [VOBJ (local_id 1)]\<rparr>)
     [VOBJ (local_id 3)] = Some E_NONE \<and>
   (\<forall>n. var_get_global n (cycle_db [VOBJ (local_id 3)]) (demo_kid\<lparr>o_parents := [VOBJ (local_id 3)]\<rparr>)
     ''colour'' = None)"
  using cycle_accepted cycle_endless by blast

end
