(* ===== verification/DbFile.thy ===== *)
theory DbFile
  imports DbSize Storage "HOL-Library.Multiset"
begin

text \<open>
  Objects in the database file: \<open>dbpack.c\<close> writes one, \<open>dbunpack.c\<close> reads it back. A file is
  the list of its bytes as characters; a function that reads returns what it read and the
  bytes that are left. Reading at the end of the file leaves C's variable uninitialised, and so
  is \<open>None\<close>; so is a count below zero or a type that is not one, which no packed object has.
  Numbers are in the file as in memory, the low byte first.
\<close>

section \<open>dbpack.c\<close>

definition pack_int :: "i32 \<Rightarrow> string" where
  "pack_int w = (let n = unat w in
     [char_of n, char_of (n div 256), char_of (n div 65536), char_of (n div 16777216)])"

definition pack_short :: "i16 \<Rightarrow> string" where
  "pack_short w = (let n = unat w in [char_of n, char_of (n div 256)])"

definition pack_string :: "cstr \<Rightarrow> string option" where
  "pack_string s =
     (if length (sdata s) + 1 < slen s then None
      else Some (pack_int (of_nat (slen s)) @ take (slen s) (sdata s @ [CHR 0x00])))"

definition pack_obj :: "objid \<Rightarrow> string" where
  "pack_obj ob = pack_int (oid ob) @ pack_short (server ob)"

abbreviation pack_type :: "type_spec \<Rightarrow> string" where
  "pack_type t \<equiv> [char_of (nat (type_num t))]"

fun pack_var :: "var \<Rightarrow> string option" where
  "pack_var (VSTR s) = map_option ((@) (pack_type T_STR)) (pack_string s)"
| "pack_var (VNUM n) = Some (pack_type T_NUM @ pack_int n)"
| "pack_var (VOBJ ob) = Some (pack_type T_OBJ @ pack_obj ob)"
| "pack_var (VLIST l) = do {
     xs \<leftarrow> mapM pack_var l;
     Some (pack_type T_LIST @ pack_int (of_nat (length l)) @ concat xs) }"
| "pack_var (VMAP m) = do {
     xs \<leftarrow> mapM (\<lambda>(k, v). do { x \<leftarrow> pack_var k; y \<leftarrow> pack_var v; Some (x @ y) }) (hentries m);
     Some (pack_type T_MAP @ pack_int (of_nat (hnum m)) @ concat xs) }"
| "pack_var (VERR e) = Some (pack_type T_ERR @ pack_int e)"
| "pack_var (VPC p) = Some (pack_type T_PC)"

definition pack_list :: "var list \<Rightarrow> string option" where
  "pack_list l = do {
     xs \<leftarrow> mapM pack_var l;
     Some (pack_int (of_nat (length l)) @ concat xs) }"

definition pack_vardef :: "vardef \<Rightarrow> string option" where
  "pack_vardef v = map_option ((@) (pack_int (i32_of (vd_name v)))) (pack_var (vd_value v))"

definition pack_vars :: "vardef list \<Rightarrow> string option" where
  "pack_vars vs = do {
     xs \<leftarrow> mapM pack_vardef vs;
     Some (pack_int (of_nat (length vs)) @ concat xs) }"

definition pack_gvars :: "vardef hasht option \<Rightarrow> string option" where
  "pack_gvars h =
     (case h of
        None \<Rightarrow> Some (pack_int 0)
      | Some h \<Rightarrow> do {
          xs \<leftarrow> mapM pack_vardef (hentries h);
          Some (pack_int (of_nat (hnum h)) @ concat xs) })"

fun eh_num :: "eh \<Rightarrow> nat" where
  "eh_num EH_DEFAULT = 0" | "eh_num EH_IGNORE = 1" | "eh_num EH_CATCH = 2"

definition pack_eh :: "eh \<Rightarrow> string" where
  "pack_eh e = pack_int (of_nat (eh_num e))"

text \<open>The flag of a blocked method is a signed field of one bit: it is stored as 255.\<close>

definition pack_method :: "cmethod \<Rightarrow> string option" where
  "pack_method m =
     (if length (m_ehandler m) < NERRS then None
      else do {
        vs \<leftarrow> pack_vars (m_vars m);
        Some (pack_int (i32_of (m_name m)) @ [if m_blocked m then CHR 0xFF else CHR 0x00] @
          pack_int (of_nat (length (m_code m))) @ concat (map pack_eh (take NERRS (m_ehandler m))) @
          vs @ concat (map pack_int (m_code m))) })"

definition pack_methods :: "cmethod hasht option \<Rightarrow> string option" where
  "pack_methods h =
     (case h of
        None \<Rightarrow> Some (pack_int 0)
      | Some h \<Rightarrow> do {
          xs \<leftarrow> mapM pack_method (hentries h);
          Some (pack_int (of_nat (hnum h)) @ concat xs) })"

definition pack_verb :: "verbdef \<Rightarrow> string" where
  "pack_verb v = pack_int (i32_of (vb_verb v)) @ pack_int (i32_of (vb_prep v)) @
     pack_int (i32_of (vb_method v))"

definition pack_verbs :: "verbdef list \<Rightarrow> string" where
  "pack_verbs vs = pack_int (of_nat (length vs)) @ concat (map pack_verb vs)"

definition pack_symbol :: "symbol \<Rightarrow> string option" where
  "pack_symbol s =
     (if s_ref s = 0 then Some (pack_int 0)
      else do {
        t \<leftarrow> s_str s;
        p \<leftarrow> pack_string t;
        Some (pack_int (i32_of (s_ref s)) @ p) })"

definition pack_symbols :: "object \<Rightarrow> string option" where
  "pack_symbols ob = do {
     xs \<leftarrow> mapM pack_symbol (o_symbols ob);
     Some (pack_int (of_nat (length (o_symbols ob))) @ pack_int (i32_of (o_stsize ob)) @ concat xs) }"

definition pack_lock :: "lock \<Rightarrow> string option" where
  "pack_lock l = map_option (\<lambda>p. p @ pack_int (added_by l)) (pack_string (mk_str (lk_name l)))"

definition pack_locks :: "lock list \<Rightarrow> string option" where
  "pack_locks ls = do {
     xs \<leftarrow> mapM pack_lock ls;
     Some (pack_int (of_nat (length ls)) @ concat xs) }"

definition pack_object :: "object \<Rightarrow> string option" where
  "pack_object ob = do {
     parents \<leftarrow> pack_list (o_parents ob);
     symbols \<leftarrow> pack_symbols ob;
     methods \<leftarrow> pack_methods (o_methods ob);
     vars \<leftarrow> pack_gvars (o_vars ob);
     locks \<leftarrow> pack_locks (o_locks ob);
     Some (pack_obj (o_id ob) @ parents @ symbols @ methods @ pack_verbs (o_verbs ob) @ vars @ locks) }"

section \<open>dbunpack.c\<close>

type_synonym 'a reader = "string \<Rightarrow> ('a \<times> string) option"

fun unpack_int :: "i32 reader" where
  "unpack_int (a # b # c # d # rest) =
     Some (of_nat (chn a + 256 * chn b + 65536 * chn c + 16777216 * chn d), rest)"
| "unpack_int _ = None"

fun unpack_short :: "i16 reader" where
  "unpack_short (a # b # rest) = Some (of_nat (chn a + 256 * chn b), rest)"
| "unpack_short _ = None"

fun unpack_char :: "char reader" where
  "unpack_char (c # rest) = Some (c, rest)"
| "unpack_char [] = None"

definition unpack_count :: "nat reader" where
  "unpack_count bs = do {
     (n, bs) \<leftarrow> unpack_int bs;
     if sint n < 0 then None else Some (nat (sint n), bs) }"

text \<open>A loop that reads \<open>n\<close> things of a kind.\<close>

primrec times :: "nat \<Rightarrow> 'a reader \<Rightarrow> 'a list reader" where
  "times 0 r bs = Some ([], bs)"
| "times (Suc n) r bs = do {
     (x, bs) \<leftarrow> r bs;
     (xs, bs) \<leftarrow> times n r bs;
     Some (x # xs, bs) }"

definition unpack_string :: "cstr reader" where
  "unpack_string bs = do {
     (n, bs) \<leftarrow> unpack_count bs;
     if length bs < n then None
     else Some (\<lparr>slen = n, sdata = takeWhile (\<lambda>c. c \<noteq> CHR 0x00) (take n bs)\<rparr>, drop n bs) }"

definition unpack_obj :: "objid reader" where
  "unpack_obj bs = do {
     (i, bs) \<leftarrow> unpack_int bs;
     (s, bs) \<leftarrow> unpack_short bs;
     Some (\<lparr>server = s, oid = i\<rparr>, bs) }"

text \<open>
  Mappings are built again by \<open>map_add\<close>, in a table for the number of pairs. The fuel bounds
  the depth of a value: every level has a byte of its own, so the length of the file is enough.
\<close>

fun unpack_var :: "(vmap \<Rightarrow> vmap \<Rightarrow> bool) \<Rightarrow> nat \<Rightarrow> var reader" where
  "unpack_var same 0 bs = None"
| "unpack_var same (Suc n) bs = do {
     (t, bs) \<leftarrow> unpack_char bs;
     if chn t = 0 then do { (s, bs) \<leftarrow> unpack_string bs; Some (VSTR s, bs) }
     else if chn t = 1 then do { (i, bs) \<leftarrow> unpack_int bs; Some (VNUM i, bs) }
     else if chn t = 2 then do { (ob, bs) \<leftarrow> unpack_obj bs; Some (VOBJ ob, bs) }
     else if chn t = 3 then do {
       (len, bs) \<leftarrow> unpack_count bs;
       (l, bs) \<leftarrow> times len (unpack_var same n) bs;
       Some (VLIST l, bs) }
     else if chn t = 4 then do {
       (nels, bs) \<leftarrow> unpack_count bs;
       (ps, bs) \<leftarrow> times nels (\<lambda>bs. do {
          (k, bs) \<leftarrow> unpack_var same n bs;
          (v, bs) \<leftarrow> unpack_var same n bs;
          Some ((k, v), bs) }) bs;
       m \<leftarrow> map_add_all same (map_new (int nels)) ps;
       Some (VMAP m, bs) }
     else if chn t = 5 then do { (e, bs) \<leftarrow> unpack_int bs; Some (VERR e, bs) }
     else None }"

definition unpack_list :: "(vmap \<Rightarrow> vmap \<Rightarrow> bool) \<Rightarrow> var list reader" where
  "unpack_list same bs = do {
     (len, bs) \<leftarrow> unpack_count bs;
     times len (unpack_var same (length bs)) bs }"

definition unpack_vardef :: "(vmap \<Rightarrow> vmap \<Rightarrow> bool) \<Rightarrow> vardef reader" where
  "unpack_vardef same bs = do {
     (name, bs) \<leftarrow> unpack_int bs;
     (v, bs) \<leftarrow> unpack_var same (length bs) bs;
     Some (\<lparr>vd_name = sint name, vd_value = v\<rparr>, bs) }"

definition unpack_vars :: "(vmap \<Rightarrow> vmap \<Rightarrow> bool) \<Rightarrow> vardef list reader" where
  "unpack_vars same bs = do {
     (n, bs) \<leftarrow> unpack_count bs;
     times n (unpack_vardef same) bs }"

fun add_globals :: "object \<Rightarrow> vardef list \<Rightarrow> object option" where
  "add_globals ob [] = Some ob"
| "add_globals ob (v # vs) = do {
     (ob, _) \<leftarrow> var_add_global ob (vd_name v) (vd_value v);
     add_globals ob vs }"

definition HASH_INIT_LOAD :: nat where
  "HASH_INIT_LOAD = 2"

definition unpack_gvars :: "(vmap \<Rightarrow> vmap \<Rightarrow> bool) \<Rightarrow> object \<Rightarrow> object reader" where
  "unpack_gvars same ob bs = do {
     (n, bs) \<leftarrow> unpack_count bs;
     (vs, bs) \<leftarrow> times n (unpack_vardef same) bs;
     ob \<leftarrow> add_globals (ob\<lparr>o_vars := Some (hash_new (int (n div HASH_INIT_LOAD)))\<rparr>) vs;
     Some (ob, bs) }"

definition unpack_eh :: "eh reader" where
  "unpack_eh bs = do {
     (n, bs) \<leftarrow> unpack_int bs;
     if n = 0 then Some (EH_DEFAULT, bs) else if n = 1 then Some (EH_IGNORE, bs)
     else if n = 2 then Some (EH_CATCH, bs) else None }"

definition unpack_method :: "(vmap \<Rightarrow> vmap \<Rightarrow> bool) \<Rightarrow> cmethod reader" where
  "unpack_method same bs = do {
     (name, bs) \<leftarrow> unpack_int bs;
     (flag, bs) \<leftarrow> unpack_char bs;
     (ninst, bs) \<leftarrow> unpack_count bs;
     (hs, bs) \<leftarrow> times NERRS unpack_eh bs;
     (vs, bs) \<leftarrow> unpack_vars same bs;
     (code, bs) \<leftarrow> times ninst unpack_int bs;
     Some (\<lparr>m_name = sint name, m_code = code, m_ehandler = hs, m_vars = vs,
            m_blocked = odd (chn flag)\<rparr>, bs) }"

fun add_methods :: "object \<Rightarrow> cmethod list \<Rightarrow> object option" where
  "add_methods ob [] = Some ob"
| "add_methods ob (m # ms) = do { ob \<leftarrow> add_method ob m; add_methods ob ms }"

definition unpack_methods :: "(vmap \<Rightarrow> vmap \<Rightarrow> bool) \<Rightarrow> object \<Rightarrow> object reader" where
  "unpack_methods same ob bs = do {
     (n, bs) \<leftarrow> unpack_count bs;
     (ms, bs) \<leftarrow> times n (unpack_method same) bs;
     ob \<leftarrow> add_methods (ob\<lparr>o_methods := Some (hash_new (int (n div HASH_INIT_LOAD)))\<rparr>) ms;
     Some (ob, bs) }"

definition unpack_verb :: "verbdef reader" where
  "unpack_verb bs = do {
     (v, bs) \<leftarrow> unpack_int bs;
     (p, bs) \<leftarrow> unpack_int bs;
     (m, bs) \<leftarrow> unpack_int bs;
     Some (\<lparr>vb_verb = sint v, vb_prep = sint p, vb_method = sint m\<rparr>, bs) }"

definition unpack_verbs :: "verbdef list reader" where
  "unpack_verbs bs = do { (n, bs) \<leftarrow> unpack_count bs; times n unpack_verb bs }"

definition unpack_symbol :: "symbol reader" where
  "unpack_symbol bs = do {
     (r, bs) \<leftarrow> unpack_int bs;
     if r = 0 then Some (\<lparr>s_ref = 0, s_str = None\<rparr>, bs)
     else do { (s, bs) \<leftarrow> unpack_string bs; Some (\<lparr>s_ref = sint r, s_str = Some s\<rparr>, bs) } }"

definition unpack_symbols :: "object \<Rightarrow> object reader" where
  "unpack_symbols ob bs = do {
     (n, bs) \<leftarrow> unpack_count bs;
     (size, bs) \<leftarrow> unpack_int bs;
     if sint size < int n then None
     else do {
       (ss, bs) \<leftarrow> times n unpack_symbol bs;
       Some (ob\<lparr>o_stsize := sint size, o_symbols := ss\<rparr>, bs) } }"

definition unpack_lock :: "lock reader" where
  "unpack_lock bs = do {
     (s, bs) \<leftarrow> unpack_string bs;
     (who, bs) \<leftarrow> unpack_int bs;
     Some (\<lparr>lk_name = sdata s, added_by = who\<rparr>, bs) }"

definition unpack_locks :: "lock list reader" where
  "unpack_locks bs = do { (n, bs) \<leftarrow> unpack_count bs; times n unpack_lock bs }"

definition unpack_object :: "(vmap \<Rightarrow> vmap \<Rightarrow> bool) \<Rightarrow> object reader" where
  "unpack_object same bs = do {
     (i, bs) \<leftarrow> unpack_obj bs;
     (parents, bs) \<leftarrow> unpack_list same bs;
     let ob = new_object\<lparr>o_id := i, o_parents := parents\<rparr>;
     (ob, bs) \<leftarrow> unpack_symbols ob bs;
     (ob, bs) \<leftarrow> unpack_methods same ob bs;
     (verbs, bs) \<leftarrow> unpack_verbs bs;
     (ob, bs) \<leftarrow> unpack_gvars same (ob\<lparr>o_verbs := verbs\<rparr>) bs;
     (locks, bs) \<leftarrow> unpack_locks bs;
     Some (ob\<lparr>o_locks := locks\<rparr>, bs) }"

section \<open>What is read back is what was written\<close>

text \<open>
  The contract of a pair of routines: on what may be stored, the writer succeeds with the bytes
  \<open>dbsize.c\<close> counted, and the reader takes exactly these bytes and returns something related.
\<close>

locale codec =
  fixes wr :: "'a \<Rightarrow> string option" and rd :: "'a reader"
    and ok :: "'a \<Rightarrow> bool" and sz :: "'a \<Rightarrow> nat" and rel :: "'a \<Rightarrow> 'a \<Rightarrow> bool"
  assumes round: "ok x \<Longrightarrow>
    \<exists>p y. wr x = Some p \<and> length p = sz x \<and> rel x y \<and> (\<forall>rest. rd (p @ rest) = Some (y, rest))"
begin

lemma times_round:
  "list_all ok xs \<Longrightarrow>
     \<exists>ps ys. mapM wr xs = Some ps \<and> length (concat ps) = sum_list (map sz xs) \<and> list_all2 rel xs ys \<and>
       (\<forall>rest. times (length xs) rd (concat ps @ rest) = Some (ys, rest))"
proof (induction xs)
  case (Cons x xs)
  then obtain ps ys where "mapM wr xs = Some ps" "length (concat ps) = sum_list (map sz xs)"
    "list_all2 rel xs ys" "\<forall>rest. times (length xs) rd (concat ps @ rest) = Some (ys, rest)"
    by auto
  moreover from Cons.prems obtain p y where "wr x = Some p" "length p = sz x" "rel x y"
    "\<forall>rest. rd (p @ rest) = Some (y, rest)"
    using round [of x] by auto
  ultimately show ?case by (intro exI [of _ "p # ps"] exI [of _ "y # ys"]) simp
qed simp

lemma times_eq:
  assumes "list_all ok xs" "rel = (=)"
  shows "\<exists>ps. mapM wr xs = Some ps \<and> length (concat ps) = sum_list (map sz xs) \<and>
       (\<forall>rest. times (length xs) rd (concat ps @ rest) = Some (xs, rest))"
  using times_round [OF assms(1)] assms(2) by (auto simp: list.rel_eq)

end

lemma bytes_join:
  "n mod 256 + 256 * (n div 256 mod 256) + 65536 * (n div 65536 mod 256) +
     16777216 * (n div 16777216) = (n :: nat)"
proof -
  have a: "n div 65536 = n div 256 div 256" "n div 16777216 = n div 256 div 256 div 256"
    by (simp_all add: div_mult2_eq)
  have "n mod 256 + 256 * (n div 256) = n"
    "n div 256 mod 256 + 256 * (n div 256 div 256) = n div 256"
    "n div 256 div 256 mod 256 + 256 * (n div 256 div 256 div 256) = n div 256 div 256"
    by (simp_all add: mod_mult_div_eq)
  then show ?thesis unfolding a by linarith
qed

lemma unpack_pack_int [simp]: "unpack_int (pack_int w @ rest) = Some (w, rest)"
proof -
  have w: "unat w < 2 ^ 32" using unsigned_less [of w, where 'a = nat] by simp
  have "unat w div 16777216 mod 256 = unat w div 16777216" using w by simp
  then show ?thesis
    by (simp add: pack_int_def Let_def bytes_join del: of_nat_add of_nat_mult)
qed

lemma unpack_pack_short [simp]: "unpack_short (pack_short w @ rest) = Some (w, rest)"
proof -
  have w: "unat w < 2 ^ 16" using unsigned_less [of w, where 'a = nat] by simp
  then have "unat w div 256 mod 256 = unat w div 256" by simp
  then show ?thesis
    by (simp add: pack_short_def Let_def mod_mult_div_eq del: of_nat_add of_nat_mult)
qed

lemma length_pack [simp]: "length (pack_int w) = 4" "length (pack_short h) = 2"
  "length (pack_obj ob) = 6"
  by (simp_all add: pack_int_def pack_short_def pack_obj_def Let_def)

lemma unpack_pack_obj [simp]: "unpack_obj (pack_obj ob @ rest) = Some (ob, rest)"
  by (simp add: unpack_obj_def pack_obj_def)

lemma sint_of_nat: "n < 2 ^ 31 \<Longrightarrow> sint (of_nat n :: i32) = int n"
  by (simp add: signed_of_nat signed_take_bit_int_eq_self)

lemma unpack_count_pack [simp]:
  "n < 2 ^ 31 \<Longrightarrow> unpack_count (pack_int (of_nat n) @ rest) = Some (n, rest)"
  by (simp add: unpack_count_def sint_of_nat)

subsection \<open>Values\<close>

definition text_ok :: "cstr \<Rightarrow> bool" where
  "text_ok s \<longleftrightarrow> slen s = length (sdata s) \<and> nul_free (sdata s) \<and> slen s < 2 ^ 31"

lemma text_ok_mk [simp]: "text_ok (mk_str s) \<longleftrightarrow> nul_free s \<and> length s < 2 ^ 31"
  by (simp add: text_ok_def)

lemma pack_string_ok:
  "text_ok s \<Longrightarrow> pack_string s = Some (pack_int (of_nat (slen s)) @ sdata s)"
  by (simp add: pack_string_def text_ok_def)

lemma unpack_pack_string:
  assumes "text_ok s"
  shows "unpack_string (pack_int (of_nat (slen s)) @ sdata s @ rest) = Some (s, rest)"
proof -
  have "takeWhile (\<lambda>c. c \<noteq> CHR 0x00) (sdata s) = sdata s"
    using assms by (auto simp: takeWhile_eq_all_conv text_ok_def nul_free_def)
  then show ?thesis using assms
    by (cases s) (simp add: unpack_string_def text_ok_def)
qed

text \<open>What may be stored: no program counters, sound strings and mappings, no length above \<open>int\<close>.\<close>

fun storable :: "var \<Rightarrow> bool" where
  "storable (VSTR s) \<longleftrightarrow> text_ok s"
| "storable (VLIST l) \<longleftrightarrow> length l < 2 ^ 31 \<and> (\<forall>x\<in>set l. storable x)"
| "storable (VMAP m) \<longleftrightarrow> hnum m < 2 ^ 31 \<and> map_wf m \<and> distinct (map (key_nf \<circ> fst) (hentries m)) \<and>
     (\<forall>p\<in>set (hentries m). key_ok (fst p)) \<and>
     (\<forall>(k, v)\<in>set (hentries m). storable k \<and> storable v)"
| "storable (VPC p) \<longleftrightarrow> False"
| "storable _ \<longleftrightarrow> True"

text \<open>The same value but for the arrangement of the mappings in it.\<close>

fun same_value :: "var \<Rightarrow> var \<Rightarrow> bool" where
  "same_value (VLIST a) (VLIST b) \<longleftrightarrow> list_all2 same_value a b"
| "same_value (VMAP m) (VMAP m') \<longleftrightarrow> map_wf m' \<and> hnum m' = hnum m \<and>
     (\<forall>(k, v)\<in>set (hentries m). case map_find (\<lambda>_ _. False) m' k of
        Some (Some v') \<Rightarrow> same_value v v' | _ \<Rightarrow> False)"
| "same_value a b \<longleftrightarrow> a = b"

lemma same_value_scalar: "scalar v \<Longrightarrow> same_value v w \<longleftrightarrow> w = v"
  by (cases v; cases w) auto

definition round_trips :: "(vmap \<Rightarrow> vmap \<Rightarrow> bool) \<Rightarrow> var \<Rightarrow> bool" where
  "round_trips same v \<longleftrightarrow> (\<exists>p v'. pack_var v = Some p \<and> length p = size_var v \<and> same_value v v' \<and>
     (\<forall>n rest. size_var v \<le> n \<longrightarrow> unpack_var same n (p @ rest) = Some (v', rest)))"

lemma round_tripsI:
  assumes "pack_var v = Some p" "length p = size_var v" "same_value v v'" "0 < size_var v"
    "\<And>n rest. size_var v \<le> Suc n \<Longrightarrow> unpack_var same (Suc n) (p @ rest) = Some (v', rest)"
  shows "round_trips same v"
proof -
  have "unpack_var same n (p @ rest) = Some (v', rest)" if "size_var v \<le> n" for n rest
    using assms(4,5) that by (cases n) auto
  with assms(1-3) show ?thesis unfolding round_trips_def by blast
qed

text \<open>Elements that fit into the fuel are read one after the other.\<close>

lemma round_trips_elements:
  assumes "\<forall>x\<in>set l. round_trips same x"
  shows "\<exists>ps l'. mapM pack_var l = Some ps \<and> length (concat ps) = sum_list (map size_var l) \<and>
    list_all2 same_value l l' \<and> (\<forall>n rest. sum_list (map size_var l) \<le> n \<longrightarrow>
      times (length l) (unpack_var same n) (concat ps @ rest) = Some (l', rest))"
  using assms
proof (induction l)
  case (Cons x l)
  then obtain ps l' where ps: "mapM pack_var l = Some ps"
    "length (concat ps) = sum_list (map size_var l)" "list_all2 same_value l l'"
    "\<forall>n rest. sum_list (map size_var l) \<le> n \<longrightarrow>
      times (length l) (unpack_var same n) (concat ps @ rest) = Some (l', rest)" by auto
  from Cons.prems obtain p x' where p: "pack_var x = Some p" "length p = size_var x"
    "same_value x x'" "\<forall>n rest. size_var x \<le> n \<longrightarrow> unpack_var same n (p @ rest) = Some (x', rest)"
    by (auto simp: round_trips_def)
  show ?case
    using ps p by (intro exI [of _ "p # ps"] exI [of _ "x' # l'"]) simp
qed simp

lemma round_trips_pairs:
  assumes "\<forall>(k, v)\<in>set l. round_trips same k \<and> round_trips same v \<and> scalar k"
  shows "\<exists>ps l'. mapM (\<lambda>(k, v). do { x \<leftarrow> pack_var k; y \<leftarrow> pack_var v; Some (x @ y) }) l = Some ps \<and>
    length (concat ps) = sum_list (map (\<lambda>(k, v). size_var k + size_var v) l) \<and>
    list_all2 (\<lambda>p q. fst q = fst p \<and> same_value (snd p) (snd q)) l l' \<and>
    (\<forall>n rest. sum_list (map (\<lambda>(k, v). size_var k + size_var v) l) \<le> n \<longrightarrow>
      times (length l) (\<lambda>bs. do {
          (k, bs) \<leftarrow> unpack_var same n bs;
          (v, bs) \<leftarrow> unpack_var same n bs;
          Some ((k, v), bs) }) (concat ps @ rest) = Some (l', rest))"
  using assms
proof (induction l)
  case (Cons kv l)
  obtain k v where kv: "kv = (k, v)" by (cases kv)
  from Cons obtain ps l' where ps:
    "mapM (\<lambda>(k, v). do { x \<leftarrow> pack_var k; y \<leftarrow> pack_var v; Some (x @ y) }) l = Some ps"
    "length (concat ps) = sum_list (map (\<lambda>(k, v). size_var k + size_var v) l)"
    "list_all2 (\<lambda>p q. fst q = fst p \<and> same_value (snd p) (snd q)) l l'"
    "\<And>n rest. sum_list (map (\<lambda>(k, v). size_var k + size_var v) l) \<le> n \<Longrightarrow>
      times (length l) (\<lambda>bs. do {
          (k, bs) \<leftarrow> unpack_var same n bs;
          (v, bs) \<leftarrow> unpack_var same n bs;
          Some ((k, v), bs) }) (concat ps @ rest) = Some (l', rest)" by auto
  from Cons.prems kv have s: "scalar k" and rt: "round_trips same k" "round_trips same v" by auto
  from rt(1) s obtain p where p: "pack_var k = Some p" "length p = size_var k"
    "\<And>n rest. size_var k \<le> n \<Longrightarrow> unpack_var same n (p @ rest) = Some (k, rest)"
    by (auto simp: round_trips_def same_value_scalar)
  from rt(2) obtain q v' where q: "pack_var v = Some q" "length q = size_var v" "same_value v v'"
    "\<And>n rest. size_var v \<le> n \<Longrightarrow> unpack_var same n (q @ rest) = Some (v', rest)"
    by (auto simp: round_trips_def)
  show ?case
    using ps p q kv by (intro exI [of _ "(p @ q) # ps"] exI [of _ "(k, v') # l'"]) simp
qed simp

text \<open>A mapping built from pairs with different keys holds these pairs and no more.\<close>

lemma map_add_own_fresh:
  assumes "map_wf m" "key_ok k" "map_find same m k = Some None" "map_add_own same m k v = Some m'"
  shows "hnum m' = hnum m + 1"
proof -
  obtain i where i: "hash_index (hash_var k) (hsize m) = Some i" "i < hsize m"
    and eq: "map_add_own same m k v = Some (HashT
       (if nf_lookup k (htable m ! i) = None then hnum m + 1 else hnum m)
       ((htable m)[i := nf_put k v (htable m ! i)]))"
    by (rule map_add_own_wf [OF assms(1,2)])
  have "scalar_keys (htable m ! i)" "scalar k" using assms(1,2) i by (simp_all add: map_wf_def key_ok_def)
  with assms(3) i have "nf_lookup k (htable m ! i) = None" by (simp add: map_find_def bucket_find_nf)
  with eq assms(4) show ?thesis by auto
qed

lemma map_add_all_num:
  assumes "map_wf m" "\<forall>p\<in>set ps. key_ok (fst p)" "distinct (map (key_nf \<circ> fst) ps)"
    "\<forall>p\<in>set ps. map_find same m (fst p) = Some None" "map_add_all same m ps = Some m'"
  shows "hnum m' = hnum m + length ps"
  using assms
proof (induction ps arbitrary: m)
  case (Cons p ps)
  obtain k v where p: "p = (k, v)" by (cases p)
  with Cons.prems obtain m1 where m1: "map_add_own same m k v = Some m1" "map_add_all same m1 ps = Some m'"
    by (auto split: bind_splits)
  with Cons.prems p have wf1: "map_wf m1" by (auto intro: vmap_store.put_inv)
  have "map_find same m1 (fst q) = Some None" if q: "q \<in> set ps" for q
  proof -
    have "key_nf (fst q) \<noteq> key_nf k" using Cons.prems(3) p q by (force simp: image_iff)
    with vmap_store.find_put_other [OF _ _ _ this m1(1)] Cons.prems p q show ?thesis by auto
  qed
  with Cons.IH [OF wf1] Cons.prems m1 p have "hnum m' = hnum m1 + length ps" by simp
  moreover have "hnum m1 = hnum m + 1"
    using Cons.prems p m1(1) by (intro map_add_own_fresh [of m k]) auto
  ultimately show ?case by simp
qed simp

lemma find_new [simp]: "key_ok k \<Longrightarrow> map_find same (map_new n) k = Some None"
proof -
  assume k: "key_ok k"
  then obtain i where i: "hash_index (hash_var k) (hsize (map_new n)) = Some i" "i < hsize (map_new n)"
    using key_ok_index hash_new_size_pos by blast
  then have "htable (map_new n) ! i = []" by (simp add: hash_new_def)
  with i show ?thesis by (simp add: map_find_def)
qed

lemma find_any_same: "map_wf m \<Longrightarrow> key_ok k \<Longrightarrow> map_find s1 m k = map_find s2 m k"
proof -
  assume m: "map_wf m" and k: "key_ok k"
  then obtain i where i: "hash_index (hash_var k) (hsize m) = Some i" "i < hsize m"
    using key_ok_index [of k "hsize m"] by (auto simp: map_wf_def)
  with m k show ?thesis by (simp add: map_find_def map_wf_def bucket_find_nf key_ok_def)
qed

lemma map_rebuilt:
  assumes "map_wf m" "distinct (map (key_nf \<circ> fst) (hentries m))" "\<forall>p\<in>set (hentries m). key_ok (fst p)"
    and l: "list_all2 (\<lambda>p q. fst q = fst p \<and> same_value (snd p) (snd q)) (hentries m) l"
  shows "\<exists>m'. map_add_all same (map_new (int (hnum m))) l = Some m' \<and> same_value (VMAP m) (VMAP m')"
proof -
  have f: "map fst l = map fst (hentries m)" using l by induction auto
  then have keys: "distinct (map (key_nf \<circ> fst) l)" using assms(2) by (metis map_map)
  have ok: "\<forall>p\<in>set l. key_ok (fst p)"
    using assms(3) f by (metis list.set_map image_iff)
  from vmap_store.put_all_total [OF map_wf_new ok] obtain m' where
    m': "map_add_all same (map_new (int (hnum m))) l = Some m'" "map_wf m'"
    by (auto simp: map_add_all_put_all)
  have "hnum m' = length l"
    using map_add_all_num [OF map_wf_new ok keys _ m'(1)] ok by simp
  also have "\<dots> = hnum m" using l assms(1) by (simp add: map_wf_def list_all2_lengthD)
  finally have num: "hnum m' = hnum m" .
  have "case map_find (\<lambda>_ _. False) m' k of Some (Some v') \<Rightarrow> same_value v v' | _ \<Rightarrow> False"
    if kv: "(k, v) \<in> set (hentries m)" for k v
  proof -
    from kv obtain i where i: "i < length (hentries m)" "hentries m ! i = (k, v)"
      unfolding in_set_conv_nth by blast
    from list_all2_nthD [OF l i(1)] i(2) have q: "fst (l ! i) = k" "same_value v (snd (l ! i))"
      by simp_all
    moreover have "l ! i \<in> set l" using i(1) list_all2_lengthD [OF l] by simp
    ultimately obtain w where w: "(k, w) \<in> set l" "same_value v w" by (cases "l ! i") auto
    then have "map_find same m' k = Some (Some w)"
      using vmap_store.find_put_all [OF map_wf_new ok keys] m'(1) by (simp add: map_add_all_put_all)
    moreover have "map_find (\<lambda>_ _. False) m' k = map_find same m' k"
      using ok w(1) by (intro find_any_same [OF m'(2)]) auto
    ultimately show ?thesis using w(2) by simp
  qed
  with m' num have "same_value (VMAP m) (VMAP m')" unfolding same_value.simps by blast
  with m'(1) show ?thesis by blast
qed

lemma char_of_zero [simp]: "char_of (0 :: nat) = CHR 0x00"
  "char_of n = CHR 0x00 \<longleftrightarrow> (n :: nat) mod 256 = 0"
  by (simp add: char_of_def) (metis chn_zero_iff of_char_of)

lemma storable_round_trips: "storable v \<Longrightarrow> round_trips same v"
proof (induction v rule: storable.induct)
  case (1 s)
  then have s: "text_ok s" by simp
  show ?case
  proof (rule round_tripsI [of _ "pack_type T_STR @ pack_int (of_nat (slen s)) @ sdata s" "VSTR s"])
    show "unpack_var same (Suc n) ((pack_type T_STR @ pack_int (of_nat (slen s)) @ sdata s) @ rest) =
        Some (VSTR s, rest)" for n rest
      by (simp add: unpack_pack_string [OF s])
  qed (use s in \<open>simp_all add: pack_string_ok size_string_def text_ok_def\<close>)
next
  case (2 l)
  then have "\<forall>x\<in>set l. round_trips same x" by auto
  from round_trips_elements [OF this] obtain ps l' where ps: "mapM pack_var l = Some ps"
    "length (concat ps) = sum_list (map size_var l)" "list_all2 same_value l l'"
    "\<And>n rest. sum_list (map size_var l) \<le> n \<Longrightarrow>
      times (length l) (unpack_var same n) (concat ps @ rest) = Some (l', rest)" by blast
  with 2 show ?case
    by (intro round_tripsI [of _ "pack_type T_LIST @ pack_int (of_nat (length l)) @ concat ps" "VLIST l'"])
      simp_all
next
  case (3 m)
  have "round_trips same k \<and> round_trips same v \<and> scalar k" if kv: "(k, v) \<in> set (hentries m)" for k v
  proof -
    from kv 3(3) have "storable k" "storable v" "key_ok k" by force+
    moreover from kv obtain b where "b \<in> set (htable m)" "(k, v) \<in> set b" by auto
    ultimately show ?thesis using 3(1,2) kv by (auto simp: key_ok_def)
  qed
  then have "\<forall>(k, v)\<in>set (hentries m). round_trips same k \<and> round_trips same v \<and> scalar k" by blast
  from round_trips_pairs [OF this] obtain ps l where ps:
    "mapM (\<lambda>(k, v). do { x \<leftarrow> pack_var k; y \<leftarrow> pack_var v; Some (x @ y) }) (hentries m) = Some ps"
    "length (concat ps) = sum_list (map (\<lambda>(k, v). size_var k + size_var v) (hentries m))"
    "list_all2 (\<lambda>p q. fst q = fst p \<and> same_value (snd p) (snd q)) (hentries m) l"
    "\<And>n rest. sum_list (map (\<lambda>(k, v). size_var k + size_var v) (hentries m)) \<le> n \<Longrightarrow>
      times (length (hentries m)) (\<lambda>bs. do {
          (k, bs) \<leftarrow> unpack_var same n bs;
          (v, bs) \<leftarrow> unpack_var same n bs;
          Some ((k, v), bs) }) (concat ps @ rest) = Some (l, rest)" by blast
  from 3(3) have m: "hnum m < 2 ^ 31" "length (hentries m) = hnum m" "map_wf m"
    "distinct (map (key_nf \<circ> fst) (hentries m))" "\<forall>p\<in>set (hentries m). key_ok (fst p)"
    by (auto simp: map_wf_def)
  from map_rebuilt [OF m(3-5) ps(3)] obtain m' where
    m': "map_add_all same (map_new (int (hnum m))) l = Some m'" "same_value (VMAP m) (VMAP m')" by blast
  show ?case
  proof (rule round_tripsI [of _ "pack_type T_MAP @ pack_int (of_nat (hnum m)) @ concat ps" "VMAP m'"])
    show "unpack_var same (Suc n) ((pack_type T_MAP @ pack_int (of_nat (hnum m)) @ concat ps) @ rest) =
        Some (VMAP m', rest)" if "size_var (VMAP m) \<le> Suc n" for n rest
      using that ps(4) [of n rest] m(1,2) m'(1) by simp
  qed (use ps(1,2) m' in \<open>simp_all del: same_value.simps\<close>)
qed (auto intro!: round_tripsI)

interpretation val_codec: codec pack_var "\<lambda>bs. unpack_var same (length bs) bs" storable size_var same_value
proof unfold_locales
  fix v assume "storable v"
  then obtain p w where p: "pack_var v = Some p" "length p = size_var v" "same_value v w"
    "\<forall>n rest. size_var v \<le> n \<longrightarrow> unpack_var same n (p @ rest) = Some (w, rest)"
    using storable_round_trips [of v same] unfolding round_trips_def by blast
  then have "unpack_var same (length (p @ rest)) (p @ rest) = Some (w, rest)" for rest by simp
  with p(1-3) show "\<exists>p y. pack_var v = Some p \<and> length p = size_var v \<and> same_value v y \<and>
      (\<forall>rest. unpack_var same (length (p @ rest)) (p @ rest) = Some (y, rest))" by blast
qed

interpretation inst_codec: codec "\<lambda>w. Some (pack_int w)" unpack_int "\<lambda>_. True" "\<lambda>_. 4" "(=)"
  by unfold_locales simp

interpretation eh_codec: codec "\<lambda>e. Some (pack_eh e)" unpack_eh "\<lambda>_. True" "\<lambda>_. 4" "(=)"
proof unfold_locales
  fix e
  show "\<exists>p y. Some (pack_eh e) = Some p \<and> length p = 4 \<and> e = y \<and>
      (\<forall>rest. unpack_eh (p @ rest) = Some (y, rest))"
    by (cases e) (simp_all add: pack_eh_def unpack_eh_def)
qed

definition int_ok :: "int \<Rightarrow> bool" where
  "int_ok n \<longleftrightarrow> - (2 ^ 31) \<le> n \<and> n < 2 ^ 31"

lemma sint_int_ok [simp]: "int_ok n \<Longrightarrow> sint (i32_of n) = n"
  by (simp add: int_ok_def signed_of_int signed_take_bit_int_eq_self)

definition verb_storable :: "verbdef \<Rightarrow> bool" where
  "verb_storable v \<longleftrightarrow> int_ok (vb_verb v) \<and> int_ok (vb_prep v) \<and> int_ok (vb_method v)"

interpretation verb_codec: codec "\<lambda>v. Some (pack_verb v)" unpack_verb verb_storable "\<lambda>_. 3 * 4" "(=)"
  by unfold_locales (simp add: pack_verb_def unpack_verb_def verb_storable_def)

definition lock_storable :: "lock \<Rightarrow> bool" where
  "lock_storable l \<longleftrightarrow> nul_free (lk_name l) \<and> length (lk_name l) < 2 ^ 31"

interpretation lock_codec: codec pack_lock unpack_lock lock_storable
    "\<lambda>l. size_string (mk_str (lk_name l)) + 4" "(=)"
proof unfold_locales
  fix l assume "lock_storable l"
  then have t: "text_ok (mk_str (lk_name l))" by (simp add: lock_storable_def)
  show "\<exists>p y. pack_lock l = Some p \<and> length p = size_string (mk_str (lk_name l)) + 4 \<and> l = y \<and>
      (\<forall>rest. unpack_lock (p @ rest) = Some (y, rest))"
    using unpack_pack_string [OF t]
    by (simp add: pack_lock_def pack_string_ok [OF t] unpack_lock_def size_string_def)
qed

definition symbol_storable :: "symbol \<Rightarrow> bool" where
  "symbol_storable s \<longleftrightarrow> int_ok (s_ref s) \<and>
     (if s_ref s = 0 then s_str s = None else \<exists>t. s_str s = Some t \<and> text_ok t)"

definition size_symbol :: "symbol \<Rightarrow> nat" where
  "size_symbol s = 4 + (if s_ref s \<noteq> 0
     then (case s_str s of Some t \<Rightarrow> size_string t | None \<Rightarrow> 0) else 0)"

interpretation symbol_codec: codec pack_symbol unpack_symbol symbol_storable size_symbol "(=)"
proof unfold_locales
  fix s assume s: "symbol_storable s"
  show "\<exists>p y. pack_symbol s = Some p \<and> length p = size_symbol s \<and> s = y \<and>
      (\<forall>rest. unpack_symbol (p @ rest) = Some (y, rest))"
  proof (cases "s_ref s = 0")
    case True
    with s show ?thesis
      by (cases s) (simp add: symbol_storable_def pack_symbol_def size_symbol_def unpack_symbol_def)
  next
    case False
    with s obtain t where t: "s_str s = Some t" "text_ok t" "int_ok (s_ref s)"
      by (auto simp: symbol_storable_def)
    with False have "i32_of (s_ref s) \<noteq> 0" using sint_int_ok [of "s_ref s"] by (metis signed_0)
    with False t unpack_pack_string [OF t(2)] show ?thesis
      by (cases s) (simp add: pack_symbol_def pack_string_ok size_symbol_def unpack_symbol_def
        size_string_def text_ok_def)
  qed
qed

definition vardef_storable :: "vardef \<Rightarrow> bool" where
  "vardef_storable v \<longleftrightarrow> int_ok (vd_name v) \<and> storable (vd_value v)"

definition same_vardef :: "vardef \<Rightarrow> vardef \<Rightarrow> bool" where
  "same_vardef v w \<longleftrightarrow> vd_name w = vd_name v \<and> same_value (vd_value v) (vd_value w)"

interpretation var_codec: codec pack_vardef "unpack_vardef same" vardef_storable
    "\<lambda>v. 4 + size_var (vd_value v)" same_vardef
proof unfold_locales
  fix v assume v: "vardef_storable v"
  then obtain p w where p: "pack_var (vd_value v) = Some p" "length p = size_var (vd_value v)"
    "same_value (vd_value v) w"
    "\<And>rest. unpack_var same (length (p @ rest)) (p @ rest) = Some (w, rest)"
    using val_codec.round [of "vd_value v" same] by (auto simp: vardef_storable_def)
  have "unpack_vardef same ((pack_int (i32_of (vd_name v)) @ p) @ rest) =
      Some (\<lparr>vd_name = vd_name v, vd_value = w\<rparr>, rest)" for rest
    using v p(4) [of rest] by (simp add: unpack_vardef_def vardef_storable_def)
  with p show "\<exists>p y. pack_vardef v = Some p \<and> length p = 4 + size_var (vd_value v) \<and>
      same_vardef v y \<and> (\<forall>rest. unpack_vardef same (p @ rest) = Some (y, rest))"
    by (intro exI [of _ "pack_int (i32_of (vd_name v)) @ p"] exI [of _ "\<lparr>vd_name = vd_name v, vd_value = w\<rparr>"])
      (simp add: pack_vardef_def same_vardef_def)
qed

subsection \<open>Methods\<close>

definition method_storable :: "cmethod \<Rightarrow> bool" where
  "method_storable m \<longleftrightarrow> int_ok (m_name m) \<and> length (m_code m) < 2 ^ 31 \<and>
     length (m_ehandler m) = NERRS \<and> length (m_vars m) < 2 ^ 31 \<and>
     list_all (\<lambda>v. vardef_storable v \<and> scalar (vd_value v)) (m_vars m)"

definition size_method :: "cmethod \<Rightarrow> nat" where
  "size_method m = 4 + 1 + (4 + length (m_code m) * 4) + 4 + (NERRS * 4 + size_vars (m_vars m))"

lemma same_vardefs_eq:
  "list_all2 same_vardef vs ws \<Longrightarrow> list_all (\<lambda>v. vardef_storable v \<and> scalar (vd_value v)) vs \<Longrightarrow> ws = vs"
  by (induction rule: list_all2_induct) (auto simp: same_vardef_def same_value_scalar)

lemma sum_list_4 [simp]: "sum_list (map (\<lambda>_. 4 :: nat) l) = length l * 4"
  by (induction l) simp_all

lemma mapM_Some [simp]: "mapM (\<lambda>x. Some (f x)) l = Some (map f l)"
  by (induction l) simp_all

interpretation method_codec: codec pack_method "unpack_method same" method_storable size_method "(=)"
proof unfold_locales
  fix m assume m: "method_storable m"
  let ?v = "\<lambda>v. vardef_storable v \<and> scalar (vd_value v)"
  have vs: "list_all ?v (m_vars m)" and eh: "length (m_ehandler m) = NERRS"
    and len: "length (m_vars m) < 2 ^ 31" "length (m_code m) < 2 ^ 31" "int_ok (m_name m)"
    using m by (simp_all add: method_storable_def)
  from vs have "list_all vardef_storable (m_vars m)" by (simp add: list_all_iff)
  from var_codec.times_round [OF this, of same] vs obtain ps where
    ps: "mapM pack_vardef (m_vars m) = Some ps"
    "length (concat ps) = sum_list (map (\<lambda>v. 4 + size_var (vd_value v)) (m_vars m))"
    "\<And>rest. times (length (m_vars m)) (unpack_vardef same) (concat ps @ rest) = Some (m_vars m, rest)"
    using same_vardefs_eq by blast
  have h: "times NERRS unpack_eh (concat (map pack_eh (m_ehandler m)) @ rest) = Some (m_ehandler m, rest)"
    "length (concat (map pack_eh (m_ehandler m))) = NERRS * 4" for rest
    using eh_codec.times_eq [of "m_ehandler m"] eh by (simp_all add: list_all_iff)
  have c: "times (length (m_code m)) unpack_int (concat (map pack_int (m_code m)) @ rest) = Some (m_code m, rest)"
    "length (concat (map pack_int (m_code m))) = length (m_code m) * 4" for rest
    using inst_codec.times_eq [of "m_code m"] by (simp_all add: list_all_iff)
  let ?p = "pack_int (i32_of (m_name m)) @ [if m_blocked m then CHR 0xFF else CHR 0x00] @
    pack_int (of_nat (length (m_code m))) @ concat (map pack_eh (take NERRS (m_ehandler m))) @
    (pack_int (of_nat (length (m_vars m))) @ concat ps) @ concat (map pack_int (m_code m))"
  have "pack_method m = Some ?p" using eh ps(1) by (simp add: pack_method_def pack_vars_def)
  moreover have "length ?p = size_method m"
    using ps(2) h(2) c(2) eh by (simp add: size_method_def size_vars_def)
  moreover have "unpack_method same (?p @ rest) = Some (m, rest)" for rest
    using ps(3) h(1) c(1) eh len by (cases m) (simp add: unpack_method_def unpack_vars_def)
  ultimately show "\<exists>p y. pack_method m = Some p \<and> length p = size_method m \<and> m = y \<and>
      (\<forall>rest. unpack_method same (p @ rest) = Some (y, rest))" by blast
qed

lemma size_methods_entries: "size_methods (Some h) = 4 + sum_list (map size_method (hentries h))"
  by (simp add: size_methods_def size_method_def [abs_def] ac_simps)

subsection \<open>Tables\<close>

lemma sym_str_tables [simp]:
  "sym_str (ob\<lparr>o_methods := h\<rparr>) n = sym_str ob n" "sym_str (ob\<lparr>o_vars := t\<rparr>) n = sym_str ob n"
  "sym_str (ob\<lparr>o_verbs := vs\<rparr>) n = sym_str ob n" "sym_str (ob\<lparr>o_locks := ls\<rparr>) n = sym_str ob n"
  by (simp_all add: sym_str_def sym_get_def)

lemma vname_tables [simp]: "vname (ob\<lparr>o_vars := t\<rparr>) = vname ob"
  by (rule ext) (simp add: vname_def)

lemma names_tables [simp]:
  "named (ob\<lparr>o_vars := t\<rparr>) b = named ob b" "bucket_ok (ob\<lparr>o_vars := t\<rparr>) w i b = bucket_ok ob w i b"
  by (simp_all add: named_def bucket_ok_def)

abbreviation entries :: "'a hasht option \<Rightarrow> 'a list" where
  "entries t \<equiv> (case t of None \<Rightarrow> [] | Some h \<Rightarrow> hentries h)"

text \<open>Every method is in the bucket of its name.\<close>

definition methods_wf :: "object \<Rightarrow> cmethod hasht \<Rightarrow> bool" where
  "methods_wf ob h \<longleftrightarrow> 0 < hsize h \<and> hnum h = length (hentries h) \<and>
     (\<forall>i<hsize h. \<forall>m\<in>set (htable h ! i). \<exists>s. sym_str ob (m_name m) = Some s \<and> nul_free s \<and>
        hash_index (hash s) (hsize h) = Some i)"

lemma mset_concat_update:
  "i < length t \<Longrightarrow> mset (concat (t[i := b])) + mset (t ! i) = mset (concat t) + mset b"
  by (induction t arbitrary: i) (auto simp: nth_Cons split: nat.splits)

lemma add_methods_ok:
  assumes "methods_wf ob h" "o_methods ob = Some h"
    "\<forall>m\<in>set ms. \<exists>s. sym_str ob (m_name m) = Some s \<and> nul_free s"
  shows "\<exists>h'. add_methods ob ms = Some (ob\<lparr>o_methods := Some h'\<rparr>) \<and> methods_wf ob h' \<and>
    hnum h' = hnum h + length ms \<and> mset (hentries h') = mset (hentries h) + mset ms"
  using assms
proof (induction ms arbitrary: ob h)
  case (Cons m ms)
  from Cons.prems obtain s where s: "sym_str ob (m_name m) = Some s" "nul_free s" by auto
  from Cons.prems obtain i where i: "hash_index (hash s) (hsize h) = Some i" "i < hsize h"
    using hash_index_name [of "hsize h" s] by (auto simp: methods_wf_def)
  let ?h = "HashT (hnum h + 1) ((htable h)[i := htable h ! i @ [m]])"
  let ?ob = "ob\<lparr>o_methods := Some ?h\<rparr>"
  have ms: "mset (hentries ?h) = add_mset m (mset (hentries h))"
    using mset_concat_update [OF i(2), of "htable h ! i @ [m]"] by simp
  then have "length (hentries ?h) = Suc (length (hentries h))" by (metis size_mset size_add_mset)
  moreover have "\<exists>s. sym_str ob (m_name x) = Some s \<and> nul_free s \<and>
      hash_index (hash s) (hsize ?h) = Some j" if "j < hsize ?h" "x \<in> set (htable ?h ! j)" for j x
    using that Cons.prems(1) s i by (cases "j = i") (auto simp: methods_wf_def)
  ultimately have wf: "methods_wf ob ?h" using Cons.prems(1) by (simp add: methods_wf_def)
  then have "methods_wf ?ob ?h" by (simp add: methods_wf_def)
  with Cons.IH [of ?ob ?h] Cons.prems(3) obtain h' where h':
    "add_methods ?ob ms = Some (?ob\<lparr>o_methods := Some h'\<rparr>)" "methods_wf ?ob h'"
    "hnum h' = hnum ?h + length ms" "mset (hentries h') = mset (hentries ?h) + mset ms" by auto
  have "add_method ob m = Some ?ob" using s i Cons.prems(2) by (simp add: add_method_def)
  with h' ms show ?case by (intro exI [of _ h']) (auto simp: methods_wf_def)
next
  case Nil
  then have "ob = ob\<lparr>o_methods := Some h\<rparr>" by (cases ob) simp
  with Nil show ?case by (intro exI [of _ h]) simp
qed

lemma add_globals_ok:
  assumes "vars_wf ob" "o_vars ob = Some h" "named ob vs"
    "distinct (map (vname ob) (vs @ hentries h))"
  shows "\<exists>h'. add_globals ob vs = Some (ob\<lparr>o_vars := Some h'\<rparr>) \<and> vars_wf (ob\<lparr>o_vars := Some h'\<rparr>) \<and>
    mset (hentries h') = mset (hentries h) + mset vs"
  using assms
proof (induction vs arbitrary: ob h)
  case (Cons v vs)
  from Cons.prems obtain s where s: "sym_str ob (vd_name v) = Some s" "nul_free s" by auto
  from Cons.prems obtain i where i: "hash_index (hash s) (hsize h) = Some i" "i < hsize h"
    using hash_index_name [of "hsize h" s] by (auto simp: vars_wf_def)
  let ?h = "HashT (hnum h + 1) ((htable h)[i := v # htable h ! i])"
  let ?ob = "ob\<lparr>o_vars := Some ?h\<rparr>"
  have fresh: "vname ob x \<noteq> vname ob v" if "x \<in> set (htable h ! i)" for x
    using Cons.prems(4) that in_bucket [OF i(2) that] by (force simp: image_iff)
  have none: "var_find (htable h ! i) (vd_name v) 0 = None"
  proof -
    have "vd_name x \<noteq> vd_name v" if "x \<in> set (htable h ! i)" for x
      using fresh [OF that] by (auto simp: vname_def)
    then have "var_find b (vd_name v) n = None" if "set b \<subseteq> set (htable h ! i)" for b n
      using that by (induction b arbitrary: n) auto
    then show ?thesis by simp
  qed
  have add: "var_add_global ob (vd_name v) (vd_value v) = Some (?ob, False)"
    using s i none Cons.prems(2) by (cases v) (simp add: var_add_global_def)
  have ms: "mset (hentries ?h) = add_mset v (mset (hentries h))"
    using mset_concat_update [OF i(2), of "v # htable h ! i"] by simp
  then have len: "length (hentries ?h) = Suc (length (hentries h))" by (metis size_mset size_add_mset)
  have "bucket_ok ?ob (hsize h) j (htable ?h ! j)" if j: "j < hsize h" for j
  proof -
    have "bucket_ok ob (hsize h) j (htable h ! j)" using Cons.prems(1,2) j by (simp add: vars_wf_def)
    moreover have "vname ob v \<notin> vname ob ` set (htable h ! i)" using fresh by force
    ultimately show ?thesis using s i j by (cases "j = i") (simp_all add: bucket_ok_def)
  qed
  with len Cons.prems(1,2) have wf: "vars_wf ?ob" by (simp add: vars_wf_def)
  have names: "mset (map (vname ob) (vs @ hentries ?h)) = mset (map (vname ob) ((v # vs) @ hentries h))"
    using ms by (simp del: mset_concat)
  have "distinct (map (vname ?ob) (vs @ hentries ?h))"
    using Cons.prems(4) mset_eq_imp_distinct_iff [OF names] by simp
  with Cons.IH [of ?ob ?h] Cons.prems(3) wf obtain h' where h':
    "add_globals ?ob vs = Some (?ob\<lparr>o_vars := Some h'\<rparr>)" "vars_wf (?ob\<lparr>o_vars := Some h'\<rparr>)"
    "mset (hentries h') = mset (hentries ?h) + mset vs" by auto
  with add ms show ?case by (intro exI [of _ h']) auto
next
  case Nil
  then have eq: "ob\<lparr>o_vars := Some h\<rparr> = ob" by (cases ob) simp
  from Nil(1) have "vars_wf (ob\<lparr>o_vars := Some h\<rparr>)" unfolding eq .
  with Nil show ?case by (intro exI [of _ h]) simp
qed

subsection \<open>Objects\<close>

definition parents_ok :: "var list \<Rightarrow> bool" where
  "parents_ok l \<longleftrightarrow> length l < 2 ^ 31 \<and> list_all (\<lambda>v. vtype v = T_OBJ) l"

lemma pack_list_parents:
  assumes "parents_ok l"
  shows "\<exists>p. pack_list l = Some p \<and> length p = size_vals l \<and>
    (\<forall>rest. unpack_list same (p @ rest) = Some (l, rest))"
proof -
  have sc: "\<forall>v\<in>set l. storable v \<and> scalar v"
  proof
    fix v assume "v \<in> set l"
    with assms have "vtype v = T_OBJ" by (auto simp: parents_ok_def list_all_iff)
    then show "storable v \<and> scalar v" by (cases v) auto
  qed
  then have "\<forall>v\<in>set l. round_trips same v" using storable_round_trips by blast
  from round_trips_elements [OF this] obtain ps l' where ps: "mapM pack_var l = Some ps"
    "length (concat ps) = sum_list (map size_var l)" "list_all2 same_value l l'"
    "\<And>n rest. sum_list (map size_var l) \<le> n \<Longrightarrow>
      times (length l) (unpack_var same n) (concat ps @ rest) = Some (l', rest)" by blast
  from ps(3) sc have "l' = l"
    by (induction rule: list_all2_induct) (auto simp: same_value_scalar)
  then have "unpack_list same ((pack_int (of_nat (length l)) @ concat ps) @ rest) = Some (l, rest)" for rest
    using ps(4) [of "length (concat ps @ rest)" rest] ps(2) assms
    by (simp add: unpack_list_def parents_ok_def)
  with ps(1,2) show ?thesis
    by (intro exI [of _ "pack_int (of_nat (length l)) @ concat ps"]) (simp add: pack_list_def size_vals_def)
qed

text \<open>What an object must be to be stored and found again.\<close>

definition object_storable :: "object \<Rightarrow> bool" where
  "object_storable ob \<longleftrightarrow> parents_ok (o_parents ob) \<and>
     list_all symbol_storable (o_symbols ob) \<and> int_ok (o_stsize ob) \<and>
     int (length (o_symbols ob)) \<le> o_stsize ob \<and>
     list_all verb_storable (o_verbs ob) \<and> length (o_verbs ob) < 2 ^ 31 \<and>
     list_all lock_storable (o_locks ob) \<and> length (o_locks ob) < 2 ^ 31 \<and>
     (\<forall>h. o_methods ob = Some h \<longrightarrow> methods_wf ob h) \<and>
     list_all method_storable (entries (o_methods ob)) \<and> length (entries (o_methods ob)) < 2 ^ 31 \<and>
     list_all vardef_storable (entries (o_vars ob)) \<and> length (entries (o_vars ob)) < 2 ^ 31 \<and>
     distinct (map (vname ob) (entries (o_vars ob)))"

lemma pack_symbols_round:
  assumes "list_all symbol_storable (o_symbols ob)" "int_ok (o_stsize ob)"
    "int (length (o_symbols ob)) \<le> o_stsize ob"
  shows "\<exists>p. pack_symbols ob = Some p \<and> length p = size_symbols (o_symbols ob) \<and>
    (\<forall>ob0 rest. unpack_symbols ob0 (p @ rest) =
       Some (ob0\<lparr>o_stsize := o_stsize ob, o_symbols := o_symbols ob\<rparr>, rest))"
proof -
  from symbol_codec.times_eq [OF assms(1)] obtain ps where ps: "mapM pack_symbol (o_symbols ob) = Some ps"
    "length (concat ps) = sum_list (map size_symbol (o_symbols ob))"
    "\<And>rest. times (length (o_symbols ob)) unpack_symbol (concat ps @ rest) = Some (o_symbols ob, rest)"
    by blast
  have "length (o_symbols ob) < 2 ^ 31" using assms(2,3) by (simp add: int_ok_def)
  with ps assms(2,3) show ?thesis
    by (intro exI [of _ "pack_int (of_nat (length (o_symbols ob))) @ pack_int (i32_of (o_stsize ob)) @ concat ps"])
      (simp add: pack_symbols_def unpack_symbols_def size_symbols_def size_symbol_def [abs_def])
qed

lemma pack_methods_round:
  assumes wf: "\<And>h. o_methods ob = Some h \<Longrightarrow> methods_wf ob h"
    and ms: "list_all method_storable (entries (o_methods ob))" "length (entries (o_methods ob)) < 2 ^ 31"
  shows "\<exists>p. pack_methods (o_methods ob) = Some p \<and> length p = size_methods (o_methods ob) \<and>
    (\<forall>ob0. o_symbols ob0 = o_symbols ob \<longrightarrow> (\<exists>h. methods_wf ob0 h \<and>
       mset (hentries h) = mset (entries (o_methods ob)) \<and>
       (\<forall>rest. unpack_methods same ob0 (p @ rest) = Some (ob0\<lparr>o_methods := Some h\<rparr>, rest))))"
proof -
  let ?ms = "entries (o_methods ob)"
  from method_codec.times_eq [OF ms(1)] obtain ps where ps: "mapM pack_method ?ms = Some ps"
    "length (concat ps) = sum_list (map size_method ?ms)"
    "\<And>rest. times (length ?ms) (unpack_method same) (concat ps @ rest) = Some (?ms, rest)"
    by blast
  have num: "hnum h = length (hentries h)" if "o_methods ob = Some h" for h
    using wf [OF that] by (simp add: methods_wf_def)
  let ?p = "pack_int (of_nat (length ?ms)) @ concat ps"
  have p: "pack_methods (o_methods ob) = Some ?p \<and> length ?p = size_methods (o_methods ob)"
  proof (cases "o_methods ob")
    case None
    with ps(1) show ?thesis by (simp add: pack_methods_def size_methods_def)
  next
    case (Some h)
    with ps(1,2) num [OF Some] show ?thesis by (simp add: pack_methods_def size_methods_entries)
  qed
  have "\<exists>h. methods_wf ob0 h \<and> mset (hentries h) = mset ?ms \<and>
      (\<forall>rest. unpack_methods same ob0 (?p @ rest) = Some (ob0\<lparr>o_methods := Some h\<rparr>, rest))"
    if ob0: "o_symbols ob0 = o_symbols ob" for ob0
  proof -
    let ?n = "hash_new (int (length ?ms div HASH_INIT_LOAD)) :: cmethod hasht"
    let ?ob = "ob0\<lparr>o_methods := Some ?n\<rparr>"
    have str: "sym_str ob0 = sym_str ob" using ob0 by (simp add: sym_str_def sym_get_def fun_eq_iff)
    have "methods_wf ?ob ?n" by (simp add: methods_wf_def hash_new_def HASH_INIT_SIZE_def)
    moreover have "\<forall>m\<in>set ?ms. \<exists>s. sym_str ?ob (m_name m) = Some s \<and> nul_free s"
    proof
      fix m assume m: "m \<in> set ?ms"
      then obtain h where h: "o_methods ob = Some h" "m \<in> set (hentries h)"
        by (cases "o_methods ob") auto
      from concat_bucket [OF h(2)] wf [OF h(1)] str
      show "\<exists>s. sym_str ?ob (m_name m) = Some s \<and> nul_free s" unfolding methods_wf_def by auto
    qed
    ultimately obtain h where h: "add_methods ?ob ?ms = Some (?ob\<lparr>o_methods := Some h\<rparr>)"
      "methods_wf ?ob h" "mset (hentries h) = mset (hentries ?n) + mset ?ms"
      using add_methods_ok [of ?ob ?n ?ms] by auto
    then have "unpack_methods same ob0 (?p @ rest) = Some (ob0\<lparr>o_methods := Some h\<rparr>, rest)" for rest
      using ps(3) ms(2) by (simp add: unpack_methods_def)
    with h show ?thesis by (intro exI [of _ h]) (simp add: methods_wf_def)
  qed
  with p show ?thesis by blast
qed

lemma same_vardefs_names:
  "list_all2 same_vardef vs ws \<Longrightarrow> map (vname ob) ws = map (vname ob) vs \<and> map vd_name ws = map vd_name vs"
  by (induction rule: list_all2_induct) (auto simp: same_vardef_def vname_def)

lemma same_vardefs_named: "list_all2 same_vardef vs ws \<Longrightarrow> named ob ws = named ob vs"
  by (induction rule: list_all2_induct) (auto simp: same_vardef_def)

lemma pack_gvars_round:
  assumes wf: "vars_wf ob" and d: "distinct (map (vname ob) (entries (o_vars ob)))"
    and vs: "list_all vardef_storable (entries (o_vars ob))" "length (entries (o_vars ob)) < 2 ^ 31"
  shows "\<exists>p. pack_gvars (o_vars ob) = Some p \<and> length p = size_gvars (o_vars ob) \<and>
    (\<forall>ob0. o_symbols ob0 = o_symbols ob \<longrightarrow> (\<exists>h ws. vars_wf (ob0\<lparr>o_vars := Some h\<rparr>) \<and>
       mset (hentries h) = mset ws \<and> list_all2 same_vardef (entries (o_vars ob)) ws \<and>
       (\<forall>rest. unpack_gvars same ob0 (p @ rest) = Some (ob0\<lparr>o_vars := Some h\<rparr>, rest))))"
proof -
  let ?vs = "entries (o_vars ob)"
  from var_codec.times_round [OF vs(1), of same] obtain ps ws where ps: "mapM pack_vardef ?vs = Some ps"
    "length (concat ps) = size_vars ?vs" "list_all2 same_vardef ?vs ws"
    "\<And>rest. times (length ?vs) (unpack_vardef same) (concat ps @ rest) = Some (ws, rest)"
    unfolding size_vars_def by blast
  let ?p = "pack_int (of_nat (length ?vs)) @ concat ps"
  have p: "pack_gvars (o_vars ob) = Some ?p \<and> length ?p = size_gvars (o_vars ob)"
  proof (cases "o_vars ob")
    case None
    with ps(1) show ?thesis by (simp add: pack_gvars_def size_gvars_def)
  next
    case (Some h)
    with wf have "hnum h = length (hentries h)" by (simp add: vars_wf_def)
    with Some ps(1,2) show ?thesis by (simp add: pack_gvars_def size_gvars_entries)
  qed
  have nm: "named ob ?vs"
  proof (cases "o_vars ob")
    case (Some h)
    have "\<exists>s. sym_str ob (vd_name v) = Some s \<and> nul_free s" if v: "v \<in> set (hentries h)" for v
      using concat_bucket [OF v] vars_bucket [OF wf Some] by (auto simp: bucket_ok_def named_def)
    with Some show ?thesis by (simp add: named_def)
  qed simp
  have "\<exists>h. vars_wf (ob0\<lparr>o_vars := Some h\<rparr>) \<and> mset (hentries h) = mset ws \<and>
      (\<forall>rest. unpack_gvars same ob0 (?p @ rest) = Some (ob0\<lparr>o_vars := Some h\<rparr>, rest))"
    if ob0: "o_symbols ob0 = o_symbols ob" for ob0
  proof -
    let ?n = "hash_new (int (length ?vs div HASH_INIT_LOAD)) :: vardef hasht"
    let ?ob = "ob0\<lparr>o_vars := Some ?n\<rparr>"
    have str: "sym_str ob0 = sym_str ob" using ob0 by (simp add: sym_str_def sym_get_def fun_eq_iff)
    then have vn: "vname ob0 = vname ob" "named ob0 = named ob"
      by (simp_all add: vname_def named_def fun_eq_iff)
    have "vars_wf ?ob" by (simp add: vars_wf_def bucket_ok_def hash_new_def HASH_INIT_SIZE_def)
    moreover have "named ?ob ws" using same_vardefs_named [OF ps(3)] nm vn(2) by simp
    moreover have "distinct (map (vname ?ob) (ws @ hentries ?n))"
      using same_vardefs_names [OF ps(3), of ob] d vn(1) by simp
    ultimately obtain h where h: "add_globals ?ob ws = Some (?ob\<lparr>o_vars := Some h\<rparr>)"
      "vars_wf (?ob\<lparr>o_vars := Some h\<rparr>)" "mset (hentries h) = mset (hentries ?n) + mset ws"
      using add_globals_ok [of ?ob ?n ws] by auto
    then have "unpack_gvars same ob0 (?p @ rest) = Some (ob0\<lparr>o_vars := Some h\<rparr>, rest)" for rest
      using ps(4) vs(2) by (simp add: unpack_gvars_def)
    with h show ?thesis by (intro exI [of _ h]) simp
  qed
  with p ps(3) show ?thesis by blast
qed

lemma pack_verbs_round:
  assumes "list_all verb_storable vs" "length vs < 2 ^ 31"
  shows "length (pack_verbs vs) = size_verbs vs \<and> unpack_verbs (pack_verbs vs @ rest) = Some (vs, rest)"
proof -
  have "sum_list (map (\<lambda>_. 12 :: nat) l) = length l * 12" for l :: "verbdef list"
    by (induction l) simp_all
  with verb_codec.times_eq [OF assms(1)] assms(2) show ?thesis
    by (auto simp: pack_verbs_def unpack_verbs_def size_verbs_def)
qed

lemma pack_locks_round:
  assumes "list_all lock_storable ls" "length ls < 2 ^ 31"
  shows "\<exists>p. pack_locks ls = Some p \<and> length p = size_locks ls \<and>
    (\<forall>rest. unpack_locks (p @ rest) = Some (ls, rest))"
  using lock_codec.times_eq [OF assms(1)] assms(2)
  by (auto simp: pack_locks_def unpack_locks_def size_locks_def)

lemma mset_concat_map: "mset (concat (map f xs)) = (\<Sum>x\<in>#mset xs. mset (f x))"
  by (induction xs) simp_all

lemma sym_ok_mset: "mset us = mset vs \<Longrightarrow> sym_ok ss us \<longleftrightarrow> sym_ok ss vs"
proof -
  assume eq: "mset us = mset vs"
  then have "count_list us = count_list vs" by (intro ext) (metis count_mset)
  with mset_eq_setD [OF eq] show ?thesis unfolding sym_ok_def by simp
qed

lemma sym_uses_mset:
  assumes "mset (entries (o_methods b)) = mset (entries (o_methods a))" "o_verbs b = o_verbs a"
    "mset (map vd_name (entries (o_vars b))) = mset (map vd_name (entries (o_vars a)))"
  shows "mset (sym_uses b) = mset (sym_uses a)"
proof -
  have v: "var_uses c = map vd_name (entries (o_vars c))" for c by (cases "o_vars c") simp_all
  have o: "other_uses c = concat (map method_uses (entries (o_methods c))) @ concat (map verb_uses (o_verbs c))"
    for c by (cases "o_methods c") (simp_all add: other_uses_def)
  show ?thesis using assms(3) unfolding sym_uses_def v o mset_append mset_concat_map assms(1,2) by simp
qed

text \<open>Everything of an object is read back, its tables in another arrangement.\<close>

definition same_object :: "object \<Rightarrow> object \<Rightarrow> bool" where
  "same_object a b \<longleftrightarrow> o_id b = o_id a \<and> o_parents b = o_parents a \<and> o_symbols b = o_symbols a \<and>
     o_verbs b = o_verbs a \<and> o_locks b = o_locks a \<and>
     mset (entries (o_methods b)) = mset (entries (o_methods a)) \<and>
     (\<forall>h. o_methods b = Some h \<longrightarrow> methods_wf b h) \<and>
     (\<exists>vs. mset (entries (o_vars b)) = mset vs \<and> list_all2 same_vardef (entries (o_vars a)) vs)"

lemma object_round:
  assumes inv: "object_inv ob" and st: "object_storable ob"
  shows "\<exists>p ob'. pack_object ob = Some p \<and> length p = size_object ob \<and>
    (\<forall>rest. unpack_object same (p @ rest) = Some (ob', rest)) \<and> same_object ob ob' \<and> object_inv ob'"
proof -
  note st = st [unfolded object_storable_def]
  have vwf: "vars_wf ob" using inv by (simp add: object_inv_def)
  obtain pp where pp: "pack_list (o_parents ob) = Some pp" "length pp = size_vals (o_parents ob)"
    "\<And>rest. unpack_list same (pp @ rest) = Some (o_parents ob, rest)"
    using pack_list_parents st by blast
  obtain ps where ps: "pack_symbols ob = Some ps" "length ps = size_symbols (o_symbols ob)"
    "\<And>ob0 rest. unpack_symbols ob0 (ps @ rest) =
       Some (ob0\<lparr>o_stsize := o_stsize ob, o_symbols := o_symbols ob\<rparr>, rest)"
    using pack_symbols_round st by blast
  let ?o1 = "new_object\<lparr>o_id := o_id ob, o_parents := o_parents ob, o_stsize := o_stsize ob,
    o_symbols := o_symbols ob\<rparr>"
  have o1: "o_symbols ?o1 = o_symbols ob" by simp
  obtain pm h where pm: "pack_methods (o_methods ob) = Some pm" "length pm = size_methods (o_methods ob)"
    "methods_wf ?o1 h" "mset (hentries h) = mset (entries (o_methods ob))"
    "\<And>rest. unpack_methods same ?o1 (pm @ rest) = Some (?o1\<lparr>o_methods := Some h\<rparr>, rest)"
    using pack_methods_round [of ob same] st o1 by blast
  let ?o2 = "?o1\<lparr>o_methods := Some h, o_verbs := o_verbs ob\<rparr>"
  have o2: "o_symbols ?o2 = o_symbols ob" by simp
  obtain pg t vs where pg: "pack_gvars (o_vars ob) = Some pg" "length pg = size_gvars (o_vars ob)"
    "vars_wf (?o2\<lparr>o_vars := Some t\<rparr>)" "mset (hentries t) = mset vs"
    "list_all2 same_vardef (entries (o_vars ob)) vs"
    "\<And>rest. unpack_gvars same ?o2 (pg @ rest) = Some (?o2\<lparr>o_vars := Some t\<rparr>, rest)"
    using pack_gvars_round [OF vwf, of same] st o2 by blast
  have pv: "length (pack_verbs (o_verbs ob)) = size_verbs (o_verbs ob)"
    "\<And>rest. unpack_verbs (pack_verbs (o_verbs ob) @ rest) = Some (o_verbs ob, rest)"
    using pack_verbs_round st by blast+
  obtain pl where pl: "pack_locks (o_locks ob) = Some pl" "length pl = size_locks (o_locks ob)"
    "\<And>rest. unpack_locks (pl @ rest) = Some (o_locks ob, rest)"
    using pack_locks_round st by blast
  let ?p = "pack_obj (o_id ob) @ pp @ ps @ pm @ pack_verbs (o_verbs ob) @ pg @ pl"
  let ?ob = "?o2\<lparr>o_vars := Some t, o_locks := o_locks ob\<rparr>"
  have 1: "pack_object ob = Some ?p" using pp ps pm pg pl by (simp add: pack_object_def)
  have 2: "length ?p = size_object ob"
    using pp(2) ps(2) pm(2) pg(2) pv(1) pl(2) by (simp add: size_object_def)
  have 3: "unpack_object same (?p @ rest) = Some (?ob, rest)" for rest
    using pp(3) ps(3) pm(5) pv(2) pg(6) pl(3) by (simp add: unpack_object_def)
  have names: "mset (map vd_name (entries (o_vars ?ob))) = mset (map vd_name (entries (o_vars ob)))"
    using pg(4) same_vardefs_names [OF pg(5)] by (simp flip: mset_map) (metis mset_map)
  have "sym_str ?ob = sym_str ?o1" by (simp add: sym_str_def sym_get_def fun_eq_iff)
  then have "methods_wf ?ob h" using pm(3) by (simp add: methods_wf_def)
  then have 4: "same_object ob ?ob"
    using pm(4) pg(4,5) by (auto simp: same_object_def)
  have "vars_wf ?ob"
    using pg(3) by (simp add: vars_wf_def bucket_ok_def named_def vname_def [abs_def])
  moreover have "sym_ok (o_symbols ?ob) (sym_uses ?ob)"
    using sym_ok_mset [OF sym_uses_mset [of ?ob ob]] names pm(4) inv by (simp add: object_inv_def)
  ultimately have "object_inv ?ob" by (simp add: object_inv_def)
  with 1 2 3 4 show ?thesis by blast
qed

end
