(* ===== verification/Chunk.thy ===== *)
theory Chunk
  imports DbFile "HOL-Library.AList"
begin

text \<open>
  The store of objects on disk (\<open>dbmchunk.c\<close>): a file of blocks, a bitmap of the blocks in use,
  and an index (a dbm file) from object numbers to offsets and sizes. The static variables of the
  C file are the fields of a record. The bitmap is the list of its bits; \<open>ck_junk\<close> is what the
  bits hold that \<open>growbit\<close> neither copies nor clears. The index is an association list in the
  order in which the dbm library goes through it. Whether the library and the file system
  accept an operation is an argument.

  A number of bytes or blocks is a natural number; the offsets of C fit \<open>off_t\<close>.
\<close>

record hrec =
  hr_off :: nat
  hr_siz :: nat

record chunkdb =
  ck_file :: string
  ck_index :: "(i32 \<times> hrec) list"
  ck_bsiz :: nat
  ck_initted :: bool
  ck_last_free :: nat
  ck_bitm :: "bool list"
  ck_junk :: "nat \<Rightarrow> bool"

definition DDDB_BLOCK :: nat where
  "DDDB_BLOCK = 256"

definition DDDB_BITBLOCK :: nat where
  "DDDB_BITBLOCK = 512"

definition blocks_needed :: "nat \<Rightarrow> nat \<Rightarrow> nat" where
  "blocks_needed bsiz siz = (if siz mod bsiz \<noteq> 0 then siz div bsiz + 1 else siz div bsiz)"

section \<open>The bitmap\<close>

text \<open>
  \<open>bitblox\<close> is the number of bits. The bits of the last byte before the growth are not copied,
  and they are not in the range that is cleared.
\<close>

abbreviation bitblox :: "chunkdb \<Rightarrow> nat" where
  "bitblox s \<equiv> length (ck_bitm s)"

definition growbit :: "nat \<Rightarrow> chunkdb \<Rightarrow> chunkdb" where
  "growbit maxblok s =
     (let nsiz = (maxblok + 8) + (8 - maxblok mod 8)
      in if nsiz \<le> bitblox s then s
         else s\<lparr>ck_bitm := take (bitblox s - 8) (ck_bitm s) @
             map (ck_junk s) [bitblox s - 8..<bitblox s] @ replicate (nsiz - 8 - bitblox s) False\<rparr>)"

definition room :: "nat \<Rightarrow> chunkdb \<Rightarrow> chunkdb" where
  "room lbn s = (if bitblox s \<le> lbn + 32 then growbit (lbn + DDDB_BITBLOCK) s else s)"

fun mark_loop :: "nat \<Rightarrow> nat \<Rightarrow> bool \<Rightarrow> chunkdb \<Rightarrow> chunkdb" where
  "mark_loop 0 lbn taken s = s"
| "mark_loop (Suc bcnt) lbn taken s =
     (let s = room lbn s in mark_loop bcnt (lbn + 1) taken (s\<lparr>ck_bitm := (ck_bitm s)[lbn := taken]\<rparr>))"

definition dddb_mark :: "nat \<Rightarrow> nat \<Rightarrow> bool \<Rightarrow> chunkdb \<Rightarrow> chunkdb" where
  "dddb_mark lbn siz taken s =
     mark_loop (blocks_needed (ck_bsiz s) siz) lbn taken (if taken then s else s\<lparr>ck_last_free := lbn\<rparr>)"

text \<open>
  The inner loop of \<open>dddb_alloc\<close>: how far the blocks from \<open>lbn\<close> on are free, and whether there
  are enough of them.
\<close>

fun scan :: "nat \<Rightarrow> nat \<Rightarrow> chunkdb \<Rightarrow> chunkdb \<times> nat \<times> bool" where
  "scan tbcnt lbn s =
     (if ck_bitm s ! lbn then (s, lbn, False)
      else if tbcnt \<le> 1 then (s, lbn, True)
      else scan (tbcnt - 1) (lbn + 1) (room (lbn + 1) s))"

declare scan.simps [simp del]

fun set_bits :: "nat \<Rightarrow> nat \<Rightarrow> bool list \<Rightarrow> bool list" where
  "set_bits lbn 0 b = b"
| "set_bits lbn (Suc n) b = set_bits (lbn + 1) n (b[lbn := True])"

fun alloc_from :: "nat \<Rightarrow> nat \<Rightarrow> nat \<Rightarrow> bool \<Rightarrow> chunkdb \<Rightarrow> (nat \<times> chunkdb) option" where
  "alloc_from 0 bcnt lbn overthetop s = None"
| "alloc_from (Suc n) bcnt lbn overthetop s =
     (let (lbn, overthetop, s) =
        (if bitblox s \<le> lbn + 32
         then (if \<not> overthetop then (0, True, s) else (lbn, True, growbit (lbn + DDDB_BITBLOCK) s))
         else (lbn, overthetop, s))
      in (case scan bcnt lbn s of
            (s, l, True) \<Rightarrow>
              Some (lbn, s\<lparr>ck_bitm := set_bits lbn bcnt (ck_bitm s), ck_last_free := l\<rparr>)
          | (s, l, False) \<Rightarrow> alloc_from n bcnt (l + 1) overthetop s))"

text \<open>
  The outer loop goes over the bitmap from \<open>last_free\<close> and then once from its start, so twice
  its length bounds the rounds when the bits it grows by are clear. No object has size 0.
\<close>

definition dddb_alloc :: "nat \<Rightarrow> chunkdb \<Rightarrow> (nat \<times> chunkdb) option" where
  "dddb_alloc siz s =
     (if siz = 0 then None
      else alloc_from (2 * bitblox s + 4) (blocks_needed (ck_bsiz s) siz) (ck_last_free s) False s)"

section \<open>Opening and closing\<close>

definition dddb_init :: "nat \<Rightarrow> chunkdb \<Rightarrow> chunkdb" where
  "dddb_init st_size s =
     (let s = growbit (st_size div ck_bsiz s + DDDB_BITBLOCK) s;
          s = foldl (\<lambda>s (k, h). dddb_mark (hr_off h div ck_bsiz s) (hr_siz h) True s) s (ck_index s)
      in s\<lparr>ck_initted := True\<rparr>)"

definition dddb_setbsiz :: "nat \<Rightarrow> chunkdb \<Rightarrow> chunkdb" where
  "dddb_setbsiz nbsiz s = s\<lparr>ck_bsiz := nbsiz\<rparr>"

definition dddb_close :: "chunkdb \<Rightarrow> chunkdb" where
  "dddb_close s = s\<lparr>ck_bitm := [], ck_initted := False\<rparr>"

section \<open>Objects\<close>

text \<open>Writing at an offset; a gap after the end of the file reads as zeros.\<close>

definition write_at :: "nat \<Rightarrow> string \<Rightarrow> string \<Rightarrow> string" where
  "write_at off bytes f =
     take off (f @ replicate (off - length f) (CHR 0x00)) @ bytes @ drop (off + length bytes) f"

definition dddb_get :: "(vmap \<Rightarrow> vmap \<Rightarrow> bool) \<Rightarrow> i32 \<Rightarrow> chunkdb \<Rightarrow> object option option" where
  "dddb_get same k s =
     (if \<not> ck_initted s then Some None
      else (case map_of (ck_index s) k of
              None \<Rightarrow> Some None
            | Some h \<Rightarrow> map_option (\<lambda>(ob, _). Some ob) (unpack_object same (drop (hr_off h) (ck_file s)))))"

text \<open>
  \<open>dddb_put\<close> with the bytes of the object and their number: first the place for them, then the
  record of the index, then the bytes. The result is whether it failed; \<open>io\<close> tells whether the
  index took the record and the file the bytes.
\<close>

definition put_place :: "i32 \<Rightarrow> nat \<Rightarrow> chunkdb \<Rightarrow> (hrec \<times> chunkdb) option" where
  "put_place k nsiz s =
     (case map_of (ck_index s) k of
        Some h \<Rightarrow>
          if blocks_needed (ck_bsiz s) (hr_siz h) < blocks_needed (ck_bsiz s) nsiz
          then do {
            (lbn, s) \<leftarrow> dddb_alloc nsiz (dddb_mark (hr_off h div ck_bsiz s) (hr_siz h) False s);
            Some (\<lparr>hr_off = lbn * ck_bsiz s, hr_siz = nsiz\<rparr>, s) }
          else Some (h\<lparr>hr_siz := nsiz\<rparr>, s)
      | None \<Rightarrow> do {
          (lbn, s) \<leftarrow> dddb_alloc nsiz s;
          Some (\<lparr>hr_off = lbn * ck_bsiz s, hr_siz = nsiz\<rparr>, s) })"

definition put_bytes :: "bool \<times> bool \<Rightarrow> i32 \<Rightarrow> nat \<Rightarrow> string \<Rightarrow> chunkdb \<Rightarrow> (bool \<times> chunkdb) option" where
  "put_bytes io k nsiz bytes s =
     (if \<not> ck_initted s then Some (True, s)
      else do {
        (h, s) \<leftarrow> put_place k nsiz s;
        if \<not> fst io then Some (True, s)
        else let s = s\<lparr>ck_index := AList.update k h (ck_index s)\<rparr>
          in if \<not> snd io then Some (True, s)
             else Some (False, s\<lparr>ck_file := write_at (hr_off h) bytes (ck_file s)\<rparr>) })"

definition dddb_put :: "bool \<times> bool \<Rightarrow> object \<Rightarrow> i32 \<Rightarrow> chunkdb \<Rightarrow> (bool \<times> chunkdb) option" where
  "dddb_put io ob k s = do {
     bytes \<leftarrow> pack_object ob;
     put_bytes io k (size_object ob) bytes s }"

definition dddb_check :: "i32 \<Rightarrow> chunkdb \<Rightarrow> bool" where
  "dddb_check k s \<longleftrightarrow> ck_initted s \<and> map_of (ck_index s) k \<noteq> None"

text \<open>The result is that of C: -1, 0 or 1.\<close>

definition dddb_del :: "bool \<Rightarrow> i32 \<Rightarrow> chunkdb \<Rightarrow> int \<times> chunkdb" where
  "dddb_del io k s =
     (if \<not> ck_initted s then (-1, s)
      else (case map_of (ck_index s) k of
              None \<Rightarrow> (0, s)
            | Some h \<Rightarrow>
                if \<not> io then (1, s)
                else (0, let s = s\<lparr>ck_index := AList.delete k (ck_index s)\<rparr>;
                         s = dddb_mark (hr_off h div ck_bsiz s) (hr_siz h) False s
                     in s\<lparr>ck_file := write_at (hr_off h) ''delobj'' (ck_file s)\<rparr>)))"

text \<open>\<open>dddb_backup\<close> copies the bytes of every object to a file of its own.\<close>

definition dddb_backup :: "chunkdb \<Rightarrow> string option" where
  "dddb_backup s =
     (if \<not> ck_initted s then None
      else map_option concat (mapM (\<lambda>(k, h).
        if length (ck_file s) < hr_off h + hr_siz h then None
        else Some (take (hr_siz h) (drop (hr_off h) (ck_file s)))) (ck_index s)))"

section \<open>The bitmap keeps the marks\<close>

text \<open>
  A growth keeps every bit but those of the last byte, and no block is ever marked within 32 bits
  of the end, so no mark is lost whatever the junk is.
\<close>

definition same_store :: "chunkdb \<Rightarrow> chunkdb \<Rightarrow> bool" where
  "same_store s t \<longleftrightarrow> ck_file t = ck_file s \<and> ck_index t = ck_index s \<and> ck_bsiz t = ck_bsiz s \<and>
     ck_initted t = ck_initted s \<and> ck_junk t = ck_junk s"

definition grows :: "chunkdb \<Rightarrow> chunkdb \<Rightarrow> bool" where
  "grows s t \<longleftrightarrow> same_store s t \<and> bitblox s \<le> bitblox t \<and>
     (\<forall>b. b + 8 < bitblox s \<longrightarrow> ck_bitm t ! b = ck_bitm s ! b)"

lemma same_store_refl [simp]: "same_store s s"
  by (simp add: same_store_def)

lemma same_store_trans: "same_store s t \<Longrightarrow> same_store t u \<Longrightarrow> same_store s u"
  by (simp add: same_store_def)

lemma grows_refl [simp]: "grows s s"
  by (simp add: grows_def)

lemma grows_trans: "grows s t \<Longrightarrow> grows t u \<Longrightarrow> grows s u"
  unfolding grows_def by (metis order_trans same_store_trans order_less_le_trans)

lemma length_growbit: "bitblox (growbit n s) = max (bitblox s) (n + 16 - n mod 8 - 8)"
  by (auto simp: growbit_def Let_def)

lemma growbit_grows: "grows s (growbit n s)"
proof -
  have "ck_bitm (growbit n s) ! b = ck_bitm s ! b" if "b + 8 < bitblox s" for b
    using that by (auto simp: growbit_def Let_def nth_append)
  then show ?thesis unfolding grows_def length_growbit
    by (simp add: same_store_def growbit_def Let_def)
qed

lemma growbit_room: "bitblox s \<le> n + 32 \<Longrightarrow> n + 32 < bitblox (growbit (n + DDDB_BITBLOCK) s)"
  unfolding length_growbit DDDB_BITBLOCK_def using mod_less_divisor [of 8 "n + 512"] by linarith

lemma room_grows: "grows s (room n s)"
  by (simp add: room_def growbit_grows)

lemma room_room: "n + 32 < bitblox (room n s)"
  by (simp add: room_def growbit_room)

lemma mark_loop_spec:
  "mark_loop n lbn t s = s' \<Longrightarrow> same_store s s' \<and> bitblox s \<le> bitblox s' \<and>
     (\<forall>b. b + 8 < bitblox s \<longrightarrow> b < lbn \<or> lbn + n \<le> b \<longrightarrow> ck_bitm s' ! b = ck_bitm s ! b) \<and>
     (\<forall>b. lbn \<le> b \<longrightarrow> b < lbn + n \<longrightarrow> b + 32 < bitblox s' \<and> ck_bitm s' ! b = t)"
proof (induction n arbitrary: lbn s)
  case (Suc n)
  let ?s1 = "room lbn s"
  let ?s2 = "?s1\<lparr>ck_bitm := (ck_bitm ?s1)[lbn := t]\<rparr>"
  have g: "grows s ?s1" and r: "lbn + 32 < bitblox ?s1" by (simp_all add: room_grows room_room)
  from Suc.prems have "mark_loop n (lbn + 1) t ?s2 = s'" by (simp add: Let_def)
  from Suc.IH [OF this] have s': "same_store ?s2 s'" "bitblox ?s1 \<le> bitblox s'"
    "\<And>b. b + 8 < bitblox ?s1 \<Longrightarrow> b \<le> lbn \<or> lbn + 1 + n \<le> b \<Longrightarrow> ck_bitm s' ! b = ck_bitm ?s2 ! b"
    "\<And>b. lbn + 1 \<le> b \<Longrightarrow> b < lbn + 1 + n \<Longrightarrow> b + 32 < bitblox s' \<and> ck_bitm s' ! b = t"
    by auto
  have st: "same_store s s'" using g s'(1) by (simp add: grows_def same_store_def)
  have keep: "ck_bitm s' ! b = ck_bitm s ! b" if "b + 8 < bitblox s" "b < lbn \<or> lbn + Suc n \<le> b" for b
  proof -
    have "b + 8 < bitblox ?s1" "b \<noteq> lbn" using that g by (auto simp: grows_def)
    then have "ck_bitm s' ! b = ck_bitm ?s1 ! b" using s'(3) [of b] that(2) by auto
    also have "\<dots> = ck_bitm s ! b" using g that(1) by (simp add: grows_def)
    finally show ?thesis .
  qed
  have "b + 32 < bitblox s' \<and> ck_bitm s' ! b = t" if "lbn \<le> b" "b < lbn + Suc n" for b
  proof (cases "b = lbn")
    case True
    with s'(2) s'(3) [of b] r show ?thesis by simp
  next
    case False
    with that s'(4) [of b] show ?thesis by simp
  qed
  with st keep g s'(2) show ?case unfolding grows_def by auto
qed auto

lemma scan_spec:
  assumes "scan n lbn s = (s', l, fit)" "1 \<le> n" "lbn + 32 < bitblox s"
  shows "grows s s' \<and> lbn \<le> l \<and> l + 32 < bitblox s' \<and>
    (fit \<longrightarrow> l + 1 = lbn + n \<and> (\<forall>b. lbn \<le> b \<longrightarrow> b < lbn + n \<longrightarrow> \<not> ck_bitm s' ! b)) \<and>
    (\<not> fit \<longrightarrow> ck_bitm s' ! l)"
  using assms
proof (induction n lbn s rule: scan.induct)
  case (1 n lbn s)
  show ?case
  proof (cases "ck_bitm s ! lbn \<or> n \<le> 1")
    case True
    with "1.prems" show ?thesis
      by (auto simp: scan.simps [of n lbn s] less_Suc_eq_le dest: le_antisym split: if_splits)
  next
    case False
    let ?s = "room (lbn + 1) s"
    from False "1.prems"(1) have "scan (n - 1) (lbn + 1) ?s = (s', l, fit)"
      by (simp add: scan.simps [of n lbn s])
    from "1.IH" [OF _ _ this] False room_room [of "lbn + 1" s] have
      IH: "grows ?s s'" "lbn + 1 \<le> l" "l + 32 < bitblox s'"
        "fit \<Longrightarrow> l + 1 = lbn + 1 + (n - 1)"
        "fit \<Longrightarrow> \<forall>b. lbn + 1 \<le> b \<longrightarrow> b < lbn + 1 + (n - 1) \<longrightarrow> \<not> ck_bitm s' ! b"
        "\<not> fit \<Longrightarrow> ck_bitm s' ! l" by auto
    have g: "grows s s'" using grows_trans [OF room_grows IH(1)] .
    then have "\<not> ck_bitm s' ! lbn" using False "1.prems"(3) by (simp add: grows_def)
    with IH(4,5) False have "\<not> ck_bitm s' ! b" if fit "lbn \<le> b" "b < lbn + n" for b
      using that by (cases "b = lbn") auto
    with g IH False show ?thesis by auto
  qed
qed

lemma set_bits_spec:
  "lbn + n \<le> length b \<Longrightarrow> length (set_bits lbn n b) = length b \<and>
     (\<forall>i<length b. set_bits lbn n b ! i = (if lbn \<le> i \<and> i < lbn + n then True else b ! i))"
proof (induction n arbitrary: lbn b)
  case (Suc n)
  from Suc.prems Suc.IH [of "lbn + 1" "b[lbn := True]"] show ?case
    by (auto simp: nth_list_update)
next
  case 0
  then show ?case by simp (meson leD)
qed

section \<open>The allocator\<close>

text \<open>What an allocation of \<open>n\<close> blocks at \<open>r\<close> does: blocks that were free are marked, no other.\<close>

definition allocated :: "nat \<Rightarrow> nat \<Rightarrow> chunkdb \<Rightarrow> chunkdb \<Rightarrow> bool" where
  "allocated r n s t \<longleftrightarrow> same_store s t \<and> bitblox s \<le> bitblox t \<and>
     (\<forall>b. b + 8 < bitblox s \<longrightarrow> ck_bitm t ! b = (ck_bitm s ! b \<or> r \<le> b \<and> b < r + n)) \<and>
     (\<forall>b. r \<le> b \<longrightarrow> b < r + n \<longrightarrow> b + 32 < bitblox t \<and> ck_bitm t ! b \<and>
        (b + 8 < bitblox s \<longrightarrow> \<not> ck_bitm s ! b))"

lemma grows_allocated:
  assumes "grows s t" "allocated r n t u"
  shows "allocated r n s u"
proof -
  have t: "b + 8 < bitblox t" "ck_bitm t ! b = ck_bitm s ! b" if "b + 8 < bitblox s" for b
    using assms(1) that by (auto simp: grows_def)
  moreover have "same_store s u" "bitblox s \<le> bitblox u"
    using assms by (auto simp: grows_def allocated_def same_store_def)
  ultimately show ?thesis using assms(2) unfolding allocated_def by (auto simp: t)
qed

text \<open>The start of a round of the outer loop.\<close>

definition round_start :: "nat \<Rightarrow> bool \<Rightarrow> chunkdb \<Rightarrow> nat \<times> bool \<times> chunkdb" where
  "round_start lbn over s =
     (if bitblox s \<le> lbn + 32
      then (if \<not> over then (0, True, s) else (lbn, True, growbit (lbn + DDDB_BITBLOCK) s))
      else (lbn, over, s))"

lemma alloc_from_Suc:
  "alloc_from (Suc n) bcnt lbn over s =
     (case round_start lbn over s of (lbn, over, s) \<Rightarrow>
        (case scan bcnt lbn s of
            (s, l, True) \<Rightarrow>
              Some (lbn, s\<lparr>ck_bitm := set_bits lbn bcnt (ck_bitm s), ck_last_free := l\<rparr>)
          | (s, l, False) \<Rightarrow> alloc_from n bcnt (l + 1) over s))"
  by (simp add: round_start_def Let_def)

declare alloc_from.simps(2) [simp del]

lemma round_start_grows:
  assumes "round_start lbn over s = (lbn', over', s')" "32 < bitblox s"
  shows "grows s s' \<and> lbn' + 32 < bitblox s'"
  using assms growbit_grows growbit_room [of s lbn]
  by (auto simp: round_start_def split: if_splits)

lemma alloc_from_spec:
  assumes "alloc_from n bcnt lbn over s = Some (r, s')" "1 \<le> bcnt" "32 < bitblox s"
  shows "allocated r bcnt s s'"
  using assms
proof (induction n arbitrary: lbn over s)
  case (Suc n)
  obtain lbn1 over1 s1 where rs: "round_start lbn over s = (lbn1, over1, s1)"
    by (cases "round_start lbn over s") auto
  obtain s2 l fit where sc: "scan bcnt lbn1 s1 = (s2, l, fit)" by (cases "scan bcnt lbn1 s1") auto
  from round_start_grows [OF rs Suc.prems(3)] have g1: "grows s s1" "lbn1 + 32 < bitblox s1" by auto
  from scan_spec [OF sc Suc.prems(2) g1(2)] have g2: "grows s1 s2" "l + 32 < bitblox s2"
    "fit \<Longrightarrow> l + 1 = lbn1 + bcnt"
    "fit \<Longrightarrow> \<forall>b. lbn1 \<le> b \<longrightarrow> b < lbn1 + bcnt \<longrightarrow> \<not> ck_bitm s2 ! b" by auto
  have g: "grows s s2" using grows_trans [OF g1(1) g2(1)] .
  have "allocated r bcnt s2 s'"
  proof (cases fit)
    case True
    with Suc.prems(1) rs sc have r: "r = lbn1"
      "s' = s2\<lparr>ck_bitm := set_bits lbn1 bcnt (ck_bitm s2), ck_last_free := l\<rparr>"
      by (auto simp: alloc_from_Suc)
    have "lbn1 + bcnt \<le> bitblox s2" using g2(2,3) True by simp
    with set_bits_spec [of lbn1 bcnt "ck_bitm s2"] g2 True show ?thesis
      unfolding allocated_def r by (auto simp: same_store_def)
  next
    case False
    with Suc.prems(1) rs sc have "alloc_from n bcnt (l + 1) over1 s2 = Some (r, s')"
      by (simp add: alloc_from_Suc)
    with Suc.IH [OF this] Suc.prems(2,3) g show ?thesis by (simp add: grows_def)
  qed
  with grows_allocated [OF g] show ?case by blast
qed simp

subsection \<open>The allocator returns\<close>

text \<open>
  With clear memory from \<open>malloc\<close> the bits from some \<open>lim\<close> on stay clear however the bitmap
  grows, so the first round that starts there succeeds.
\<close>

definition clear_from :: "nat \<Rightarrow> chunkdb \<Rightarrow> bool" where
  "clear_from lim s \<longleftrightarrow> ck_junk s = (\<lambda>_. False) \<and> (\<forall>b. lim \<le> b \<longrightarrow> b < bitblox s \<longrightarrow> \<not> ck_bitm s ! b)"

lemma nth_growbit:
  "b < bitblox (growbit n s) \<Longrightarrow> ck_bitm (growbit n s) ! b \<Longrightarrow>
     b < bitblox s \<and> (ck_bitm s ! b \<or> ck_junk s b)"
proof (cases "(n + 8) + (8 - n mod 8) \<le> bitblox s")
  case False
  let ?k = "(n + 8) + (8 - n mod 8) - 8 - bitblox s"
  have eq: "ck_bitm (growbit n s) = take (bitblox s - 8) (ck_bitm s) @
      map (ck_junk s) [bitblox s - 8..<bitblox s] @ replicate ?k False"
    unfolding growbit_def Let_def if_not_P [OF False] by simp
  assume set: "ck_bitm (growbit n s) ! b" and "b < bitblox (growbit n s)"
  then have b: "b < bitblox s + ?k" unfolding eq by simp
  show ?thesis
  proof (cases "b < bitblox s")
    case True
    with set show ?thesis unfolding eq by (auto simp: nth_append split: if_splits)
  next
    case ge: False
    with b have "replicate ?k False ! (b - bitblox s) = False" by (intro nth_replicate) linarith
    moreover have "ck_bitm (growbit n s) ! b = replicate ?k False ! (b - bitblox s)"
    proof -
      let ?old = "take (bitblox s - 8) (ck_bitm s) @ map (ck_junk s) [bitblox s - 8..<bitblox s]"
      have len: "length ?old = bitblox s" by simp
      have "(?old @ r) ! b = r ! (b - bitblox s)" for r
        using ge nth_append_right [of ?old b r] unfolding len by simp
      then show ?thesis unfolding eq by simp
    qed
    ultimately show ?thesis using set by simp
  qed
qed (simp add: growbit_def Let_def)

lemma clear_grow:
  assumes "clear_from lim s"
  shows "clear_from lim (growbit n s)"
proof -
  have "\<not> ck_bitm (growbit n s) ! b" if "lim \<le> b" "b < bitblox (growbit n s)" for b
    using nth_growbit [OF that(2)] assms that(1) by (auto simp: clear_from_def)
  moreover have "ck_junk (growbit n s) = ck_junk s" by (simp add: growbit_def Let_def)
  ultimately show ?thesis using assms by (simp add: clear_from_def)
qed

lemma clear_room: "clear_from lim s \<Longrightarrow> clear_from lim (room n s)"
  by (simp add: room_def clear_grow)

lemma scan_clear: "clear_from lim s \<Longrightarrow> scan n lbn s = (s', l, fit) \<Longrightarrow> clear_from lim s'"
proof (induction n lbn s rule: scan.induct)
  case (1 n lbn s)
  show ?case
  proof (cases "ck_bitm s ! lbn \<or> n \<le> 1")
    case True
    with "1.prems" show ?thesis by (auto simp: scan.simps [of n lbn s] split: if_splits)
  next
    case False
    with "1.prems"(2) have "scan (n - 1) (lbn + 1) (room (lbn + 1) s) = (s', l, fit)"
      by (simp add: scan.simps [of n lbn s])
    with "1.IH" [OF _ _ clear_room [OF "1.prems"(1)] this] False show ?thesis by simp
  qed
qed

lemma alloc_from_returns:
  assumes "clear_from lim s" "1 \<le> bcnt" "32 < bitblox s"
    "lim + 1 - lbn + (if over then 0 else lim + 2) < n"
  shows "\<exists>r s'. alloc_from n bcnt lbn over s = Some (r, s')"
  using assms
proof (induction n arbitrary: lbn over s)
  case (Suc n)
  obtain lbn1 over1 s1 where rs: "round_start lbn over s = (lbn1, over1, s1)"
    by (cases "round_start lbn over s") auto
  obtain s2 l fit where sc: "scan bcnt lbn1 s1 = (s2, l, fit)" by (cases "scan bcnt lbn1 s1") auto
  have g1: "grows s s1" "lbn1 + 32 < bitblox s1" using round_start_grows [OF rs Suc.prems(3)] by auto
  have c1: "clear_from lim s1"
    using rs Suc.prems(1) clear_grow by (auto simp: round_start_def split: if_splits)
  from scan_spec [OF sc Suc.prems(2) g1(2)] have g2: "grows s1 s2" "lbn1 \<le> l" "l + 32 < bitblox s2"
    "\<not> fit \<Longrightarrow> ck_bitm s2 ! l" by auto
  have c2: "clear_from lim s2" using scan_clear [OF c1 sc] .
  show ?case
  proof (cases fit)
    case False
    have l: "l < lim"
      using c2 g2(3) g2(4) [OF False] unfolding clear_from_def by (meson add_lessD1 not_le)
    have "lim + 1 - (l + 1) + (if over1 then 0 else lim + 2) < n"
      using Suc.prems(4) rs g2(2) l by (auto simp: round_start_def split: if_splits)
    moreover have "32 < bitblox s2" using g1 g2 Suc.prems(3) by (simp add: grows_def)
    ultimately obtain r s' where "alloc_from n bcnt (l + 1) over1 s2 = Some (r, s')"
      using Suc.IH [OF c2 Suc.prems(2), of "l + 1" over1] l by auto
    with rs sc False show ?thesis by (simp add: alloc_from_Suc)
  qed (use rs sc in \<open>simp add: alloc_from_Suc\<close>)
qed simp

section \<open>The store keeps its objects apart\<close>

definition blocks_of :: "chunkdb \<Rightarrow> hrec \<Rightarrow> nat set" where
  "blocks_of s h = (let b = hr_off h div ck_bsiz s
     in {b..<b + blocks_needed (ck_bsiz s) (hr_siz h)})"

definition place_ok :: "chunkdb \<Rightarrow> hrec \<Rightarrow> bool" where
  "place_ok s h \<longleftrightarrow> 0 < hr_siz h \<and> ck_bsiz s dvd hr_off h \<and>
     (\<forall>b\<in>blocks_of s h. b + 32 < bitblox s \<and> ck_bitm s ! b)"

text \<open>
  A block must have room for the mark \<open>delobj\<close>. Every object has its blocks, marked in the
  bitmap, and its bytes in the file; no two objects share a block.
\<close>

definition chunk_inv :: "chunkdb \<Rightarrow> bool" where
  "chunk_inv s \<longleftrightarrow> ck_initted s \<and> 6 \<le> ck_bsiz s \<and> 32 < bitblox s \<and>
     (\<forall>k h. map_of (ck_index s) k = Some h \<longrightarrow>
        place_ok s h \<and> hr_off h + hr_siz h \<le> length (ck_file s)) \<and>
     (\<forall>j k h h'. map_of (ck_index s) j = Some h \<longrightarrow> map_of (ck_index s) k = Some h' \<longrightarrow> j \<noteq> k \<longrightarrow>
        blocks_of s h \<inter> blocks_of s h' = {})"

definition contents :: "chunkdb \<Rightarrow> i32 \<Rightarrow> string option" where
  "contents s k = map_option (\<lambda>h. take (hr_siz h) (drop (hr_off h) (ck_file s))) (map_of (ck_index s) k)"

subsection \<open>Bytes and blocks\<close>

lemma blocks_needed_bound:
  assumes "0 < bsiz"
  shows "siz \<le> blocks_needed bsiz siz * bsiz"
proof -
  obtain q r where qr: "q = siz div bsiz" "r = siz mod bsiz" by simp
  have "siz = q * bsiz + r" "r < bsiz" using assms by (simp_all add: qr)
  moreover have "(q + 1) * bsiz = q * bsiz + bsiz" by simp
  ultimately show ?thesis unfolding blocks_needed_def qr [symmetric] by (cases "r = 0") auto
qed

lemma blocks_needed_pos: "0 < siz \<Longrightarrow> 0 < bsiz \<Longrightarrow> 1 \<le> blocks_needed bsiz siz"
  by (auto simp: blocks_needed_def div_greater_zero_iff intro: Suc_leI)

lemma blocks_needed_mono: "blocks_needed bsiz n \<le> blocks_needed bsiz siz \<Longrightarrow>
    blocks_of s h = {a..<a + blocks_needed bsiz siz} \<Longrightarrow> {a..<a + blocks_needed bsiz n} \<subseteq> blocks_of s h"
  by auto

text \<open>Disjoint blocks are disjoint bytes.\<close>

lemma disjoint_bytes:
  assumes "blocks_of s h \<inter> blocks_of s h' = {}" "0 < ck_bsiz s"
    "ck_bsiz s dvd hr_off h" "ck_bsiz s dvd hr_off h'" "0 < hr_siz h" "0 < hr_siz h'"
  shows "hr_off h + hr_siz h \<le> hr_off h' \<and> hr_off h + blocks_needed (ck_bsiz s) (hr_siz h) * ck_bsiz s \<le> hr_off h' \<or>
    hr_off h' + hr_siz h' \<le> hr_off h \<and> hr_off h' + blocks_needed (ck_bsiz s) (hr_siz h') * ck_bsiz s \<le> hr_off h"
proof -
  let ?z = "ck_bsiz s"
  obtain a a' where a: "hr_off h = ?z * a" "hr_off h' = ?z * a'" using assms(3,4) by (auto elim!: dvdE)
  let ?n = "blocks_needed ?z (hr_siz h)" and ?n' = "blocks_needed ?z (hr_siz h')"
  have d: "hr_off h div ?z = a" "hr_off h' div ?z = a'" using a assms(2) by simp_all
  have n: "1 \<le> ?n" "1 \<le> ?n'" using assms(2,5,6) blocks_needed_pos by blast+
  have "a + ?n \<le> a' \<or> a' + ?n' \<le> a"
  proof (rule ccontr)
    assume c: "\<not> ?thesis"
    with n have "max a a' \<in> blocks_of s h \<inter> blocks_of s h'" by (auto simp: blocks_of_def d Let_def)
    with assms(1) show False by blast
  qed
  then have "(a + ?n) * ?z \<le> a' * ?z \<or> (a' + ?n') * ?z \<le> a * ?z" by (auto intro: mult_le_mono1)
  then have "hr_off h + ?n * ?z \<le> hr_off h' \<or> hr_off h' + ?n' * ?z \<le> hr_off h"
    unfolding a by (simp add: algebra_simps)
  moreover have "hr_siz h \<le> ?n * ?z" "hr_siz h' \<le> ?n' * ?z"
    using assms(2) by (simp_all add: blocks_needed_bound)
  ultimately show ?thesis by linarith
qed

lemma length_write_at [simp]:
  "length (write_at off bytes f) = off + length bytes + (length f - (off + length bytes))"
  by (simp add: write_at_def)

lemma drop_write_at: "drop off (write_at off bytes f) = bytes @ drop (off + length bytes) f"
  by (simp add: write_at_def)

lemma write_at_before:
  assumes "p + n \<le> off" "p + n \<le> length f"
  shows "take n (drop p (write_at off bytes f)) = take n (drop p f)"
proof -
  have "take (p + n) (write_at off bytes f) = take (p + n) f" using assms by (simp add: write_at_def min_absorb1)
  then show ?thesis by (simp add: take_drop add.commute)
qed

lemma write_at_after:
  assumes "off + length bytes \<le> p" "p \<le> length f"
  shows "drop p (write_at off bytes f) = drop p f"
proof -
  have "drop p (write_at off bytes f) = drop (p - off) (drop off (write_at off bytes f))"
    using assms(1) by simp
  also have "\<dots> = drop p f" unfolding drop_write_at using assms(1) by simp
  finally show ?thesis .
qed

subsection \<open>Finding a place\<close>

text \<open>A place for the object \<open>k\<close>: its blocks are marked, and they are nobody else's.\<close>

definition place_for :: "i32 \<Rightarrow> chunkdb \<Rightarrow> hrec \<Rightarrow> chunkdb \<Rightarrow> bool" where
  "place_for k s h t \<longleftrightarrow> same_store s t \<and> bitblox s \<le> bitblox t \<and> place_ok t h \<and>
     (\<forall>j h'. map_of (ck_index s) j = Some h' \<longrightarrow> j \<noteq> k \<longrightarrow>
        place_ok t h' \<and> blocks_of t h' \<inter> blocks_of t h = {})"

lemma same_store_blocks: "same_store s t \<Longrightarrow> blocks_of t = blocks_of s"
  by (simp add: same_store_def blocks_of_def fun_eq_iff)

lemma alloc_place:
  assumes al: "dddb_alloc n t = Some (r, u)" and t: "32 < bitblox t" "0 < ck_bsiz t"
    and st: "same_store s t" "bitblox s \<le> bitblox t"
    and others: "\<And>j h'. map_of (ck_index s) j = Some h' \<Longrightarrow> j \<noteq> k \<Longrightarrow> place_ok t h'"
  shows "place_for k s \<lparr>hr_off = r * ck_bsiz u, hr_siz = n\<rparr> u"
proof -
  let ?n = "blocks_needed (ck_bsiz t) n"
  from al have n: "0 < n" "alloc_from (2 * bitblox t + 4) ?n (ck_last_free t) False t = Some (r, u)"
    by (auto simp: dddb_alloc_def split: if_splits)
  from alloc_from_spec [OF n(2) blocks_needed_pos [OF n(1) t(2)] t(1)] have
    a: "same_store t u" "bitblox t \<le> bitblox u"
      "\<And>b. b + 8 < bitblox t \<Longrightarrow> ck_bitm u ! b = (ck_bitm t ! b \<or> r \<le> b \<and> b < r + ?n)"
      "\<And>b. r \<le> b \<Longrightarrow> b < r + ?n \<Longrightarrow> b + 32 < bitblox u \<and> ck_bitm u ! b \<and>
        (b + 8 < bitblox t \<longrightarrow> \<not> ck_bitm t ! b)"
    unfolding allocated_def by blast+
  have z: "ck_bsiz u = ck_bsiz t" using a(1) by (simp add: same_store_def)
  have own: "blocks_of u \<lparr>hr_off = r * ck_bsiz u, hr_siz = n\<rparr> = {r..<r + ?n}"
    using t(2) by (simp add: blocks_of_def z)
  have "place_ok u h' \<and> blocks_of u h' \<inter> {r..<r + ?n} = {}"
    if h': "map_of (ck_index s) j = Some h'" "j \<noteq> k" for j h'
  proof -
    from others [OF h'] have p: "0 < hr_siz h'" "ck_bsiz t dvd hr_off h'"
      "\<And>b. b \<in> blocks_of t h' \<Longrightarrow> b + 32 < bitblox t \<and> ck_bitm t ! b" by (auto simp: place_ok_def)
    have "b \<notin> {r..<r + ?n}" if "b \<in> blocks_of t h'" for b
      using p(3) [OF that] a(4) [of b] by auto
    moreover have "b + 32 < bitblox u \<and> ck_bitm u ! b" if "b \<in> blocks_of t h'" for b
      using p(3) [OF that] a(2) a(3) [of b] by auto
    ultimately show ?thesis
      using p(1,2) same_store_blocks [OF a(1)] z by (auto simp: place_ok_def)
  qed
  moreover have "place_ok u \<lparr>hr_off = r * ck_bsiz u, hr_siz = n\<rparr>"
    unfolding place_ok_def own using n(1) a(4) by auto
  ultimately show ?thesis
    unfolding place_for_def own using same_store_trans [OF st(1) a(1)] st(2) a(2) by auto
qed

lemma unmark_others:
  assumes others: "\<forall>j h'. map_of (ck_index s) j = Some h' \<longrightarrow> j \<noteq> k \<longrightarrow>
      place_ok s h' \<and> blocks_of s h' \<inter> blocks_of s h = {}"
    and t: "t = dddb_mark (hr_off h div ck_bsiz s) (hr_siz h) False s"
  shows "same_store s t \<and> bitblox s \<le> bitblox t \<and>
    (\<forall>j h'. map_of (ck_index s) j = Some h' \<longrightarrow> j \<noteq> k \<longrightarrow> place_ok t h')"
proof -
  let ?b = "hr_off h div ck_bsiz s" and ?n = "blocks_needed (ck_bsiz s) (hr_siz h)"
  let ?s = "s\<lparr>ck_last_free := ?b\<rparr>"
  have "mark_loop ?n ?b False ?s = t" unfolding t by (simp add: dddb_mark_def)
  from mark_loop_spec [OF this] have m: "same_store ?s t" "bitblox s \<le> bitblox t"
    "\<And>b. b + 8 < bitblox s \<Longrightarrow> b < ?b \<or> ?b + ?n \<le> b \<Longrightarrow> ck_bitm t ! b = ck_bitm s ! b"
    by auto
  have st: "same_store s t" using m(1) by (simp add: same_store_def)
  have "place_ok t h'" if h': "map_of (ck_index s) j = Some h'" "j \<noteq> k" for j h'
  proof -
    have p: "place_ok s h'" "blocks_of s h \<inter> blocks_of s h' = {}"
      using others h' by blast+
    have "b + 32 < bitblox t \<and> ck_bitm t ! b" if b: "b \<in> blocks_of s h'" for b
    proof -
      from b p have "b + 32 < bitblox s" "ck_bitm s ! b" "b \<notin> blocks_of s h" by (auto simp: place_ok_def)
      with m(2) m(3) [of b] show ?thesis by (auto simp: blocks_of_def Let_def not_le)
    qed
    with p(1) st show ?thesis
      unfolding place_ok_def same_store_blocks [OF st] by (simp add: same_store_def)
  qed
  with st m(2) show ?thesis by blast
qed

lemma put_place_spec:
  assumes inv: "chunk_inv s" and n: "0 < n" and p: "put_place k n s = Some (h, t)"
  shows "place_for k s h t \<and> hr_siz h = n"
proof (cases "map_of (ck_index s) k")
  case None
  with p obtain r where r: "dddb_alloc n s = Some (r, t)" "h = \<lparr>hr_off = r * ck_bsiz t, hr_siz = n\<rparr>"
    by (auto simp: put_place_def split: bind_splits)
  with alloc_place [OF r(1), of s k] inv show ?thesis by (auto simp: chunk_inv_def)
next
  case (Some h0)
  show ?thesis
  proof (cases "blocks_needed (ck_bsiz s) (hr_siz h0) < blocks_needed (ck_bsiz s) n")
    case True
    let ?t = "dddb_mark (hr_off h0 div ck_bsiz s) (hr_siz h0) False s"
    from p Some True obtain r where r: "dddb_alloc n ?t = Some (r, t)"
      "h = \<lparr>hr_off = r * ck_bsiz t, hr_siz = n\<rparr>"
      by (auto simp: put_place_def split: bind_splits)
    have "\<forall>j h'. map_of (ck_index s) j = Some h' \<longrightarrow> j \<noteq> k \<longrightarrow>
        place_ok s h' \<and> blocks_of s h' \<inter> blocks_of s h0 = {}"
      using inv Some unfolding chunk_inv_def by blast
    from unmark_others [OF this refl] have u: "same_store s ?t" "bitblox s \<le> bitblox ?t"
      "\<And>j h'. map_of (ck_index s) j = Some h' \<Longrightarrow> j \<noteq> k \<Longrightarrow> place_ok ?t h'" by blast+
    have "32 < bitblox ?t" "0 < ck_bsiz ?t" using u inv by (simp_all add: chunk_inv_def same_store_def)
    with alloc_place [OF r(1) _ _ u] r(2) show ?thesis by simp
  next
    case False
    with p Some have h: "h = h0\<lparr>hr_siz := n\<rparr>" and t: "t = s" by (simp_all add: put_place_def)
    have old: "place_ok s h0" using inv Some by (simp add: chunk_inv_def)
    have sub: "blocks_of s h \<subseteq> blocks_of s h0" using False by (auto simp: blocks_of_def Let_def h)
    then have "place_ok s h" using old n by (auto simp: place_ok_def h)
    moreover have "place_ok s h' \<and> blocks_of s h' \<inter> blocks_of s h = {}"
      if "map_of (ck_index s) j = Some h'" "j \<noteq> k" for j h'
    proof -
      have "place_ok s h'" "blocks_of s h' \<inter> blocks_of s h0 = {}"
        using inv Some that unfolding chunk_inv_def by blast+
      with sub show ?thesis by blast
    qed
    ultimately show ?thesis by (simp add: place_for_def t h)
  qed
qed

subsection \<open>Storing\<close>

lemma place_bytes_apart:
  assumes "ck_bsiz t dvd hr_off h" "0 < hr_siz h" "ck_bsiz t dvd hr_off h'" "0 < hr_siz h'"
    "blocks_of t h' \<inter> blocks_of t h = {}" "0 < ck_bsiz t"
    "length bytes \<le> blocks_needed (ck_bsiz t) (hr_siz h) * ck_bsiz t"
    "hr_off h' + hr_siz h' \<le> length f"
  shows "take (hr_siz h') (drop (hr_off h') (write_at (hr_off h) bytes f)) =
    take (hr_siz h') (drop (hr_off h') f)"
proof -
  have "hr_off h + length bytes \<le> hr_off h' \<or> hr_off h' + hr_siz h' \<le> hr_off h"
    using disjoint_bytes [of t h' h] assms by auto
  then show ?thesis
  proof
    assume "hr_off h + length bytes \<le> hr_off h'"
    with assms(8) show ?thesis by (simp add: write_at_after)
  next
    assume "hr_off h' + hr_siz h' \<le> hr_off h"
    with assms(8) show ?thesis by (intro write_at_before)
  qed
qed

lemma same_store_cong: "ck_bsiz t = ck_bsiz s \<Longrightarrow> blocks_of t = blocks_of s"
  by (simp add: blocks_of_def fun_eq_iff)

lemma place_ok_cong: "ck_bsiz t = ck_bsiz s \<Longrightarrow> ck_bitm t = ck_bitm s \<Longrightarrow> place_ok t = place_ok s"
  by (simp add: place_ok_def blocks_of_def fun_eq_iff)

lemma put_bytes_spec:
  assumes inv: "chunk_inv s" and n: "0 < length bytes"
    and p: "put_bytes (True, True) k (length bytes) bytes s = Some (failed, t)"
  shows "\<not> failed \<and> chunk_inv t \<and> contents t = (contents s)(k \<mapsto> bytes) \<and>
    (\<exists>h. map_of (ck_index t) k = Some h \<and> drop (hr_off h) (ck_file t) =
       bytes @ drop (hr_off h + length bytes) (ck_file s))"
proof -
  from inv p obtain h u where u: "put_place k (length bytes) s = Some (h, u)" "\<not> failed"
    "t = u\<lparr>ck_index := AList.update k h (ck_index u), ck_file := write_at (hr_off h) bytes (ck_file u)\<rparr>"
    by (auto simp: put_bytes_def chunk_inv_def split: bind_splits)
  from put_place_spec [OF inv n u(1)] have pl: "same_store s u" "bitblox s \<le> bitblox u" "place_ok u h"
    "hr_siz h = length bytes"
    "\<And>j h'. map_of (ck_index s) j = Some h' \<Longrightarrow> j \<noteq> k \<Longrightarrow> place_ok u h' \<and> blocks_of u h' \<inter> blocks_of u h = {}"
    unfolding place_for_def by blast+
  have st: "ck_file u = ck_file s" "ck_index u = ck_index s" "ck_bsiz u = ck_bsiz s" "ck_initted u"
    using pl(1) inv by (auto simp: same_store_def chunk_inv_def)
  have z: "0 < ck_bsiz u" using st inv by (simp add: chunk_inv_def)
  have idx: "map_of (ck_index t) = (map_of (ck_index s))(k \<mapsto> h)"
    by (simp add: u(3) st update_conv')
  have fl: "ck_file t = write_at (hr_off h) bytes (ck_file s)" by (simp add: u(3) st)
  have "ck_bsiz t = ck_bsiz u" "ck_bitm t = ck_bitm u" by (simp_all add: u(3))
  then have bl: "blocks_of t = blocks_of u" "place_ok t = place_ok u" "bitblox t = bitblox u"
    using same_store_cong [of t u] place_ok_cong [of t u] by simp_all
  have old: "hr_off h' + hr_siz h' \<le> length (ck_file s)" if "map_of (ck_index s) j = Some h'" for j h'
    using inv that by (simp add: chunk_inv_def)
  have keep: "take (hr_siz h') (drop (hr_off h') (ck_file t)) = take (hr_siz h') (drop (hr_off h') (ck_file s))"
    if h': "map_of (ck_index s) j = Some h'" "j \<noteq> k" for j h'
    unfolding fl using pl(5) [OF h'] old [OF h'(1)] pl(3,4) z blocks_needed_bound [OF z, of "length bytes"]
    by (intro place_bytes_apart [of u]) (auto simp: place_ok_def)
  have "contents t j = ((contents s)(k \<mapsto> bytes)) j" for j
  proof (cases "j = k")
    case True
    then show ?thesis by (simp add: contents_def idx fl drop_write_at pl(4))
  next
    case False
    with keep show ?thesis by (cases "map_of (ck_index s) j") (auto simp: contents_def idx)
  qed
  moreover have "chunk_inv t"
  proof -
    have "place_ok t h' \<and> hr_off h' + hr_siz h' \<le> length (ck_file t)"
      if h': "map_of (ck_index t) j = Some h'" for j h'
    proof (cases "j = k")
      case True
      with h' pl(3,4) show ?thesis by (simp add: idx bl fl)
    next
      case False
      with h' have "map_of (ck_index s) j = Some h'" by (simp add: idx)
      with False pl(5) old show ?thesis by (force simp: bl fl)
    qed
    moreover have "blocks_of t h1 \<inter> blocks_of t h2 = {}"
      if h: "map_of (ck_index t) i = Some h1" "map_of (ck_index t) j = Some h2" "i \<noteq> j" for i j h1 h2
    proof -
      consider "i = k" | "j = k" | "i \<noteq> k" "j \<noteq> k" by blast
      then show ?thesis
      proof cases
        case 1
        with h have "map_of (ck_index s) j = Some h2" "j \<noteq> k" "h1 = h" by (auto simp: idx)
        with pl(5) show ?thesis unfolding bl by blast
      next
        case 2
        with h have "map_of (ck_index s) i = Some h1" "i \<noteq> k" "h2 = h" by (auto simp: idx)
        with pl(5) show ?thesis unfolding bl by blast
      next
        case 3
        with h have "map_of (ck_index s) i = Some h1" "map_of (ck_index s) j = Some h2" by (auto simp: idx)
        with inv h(3) show ?thesis
          unfolding bl same_store_cong [OF st(3)] chunk_inv_def by blast
      qed
    qed
    ultimately show ?thesis
      using inv pl(2) st unfolding chunk_inv_def bl by (simp add: u(3))
  qed
  moreover have "map_of (ck_index t) k = Some h" by (simp add: idx)
  moreover have "drop (hr_off h) (ck_file t) = bytes @ drop (hr_off h + length bytes) (ck_file s)"
    by (simp add: fl drop_write_at)
  ultimately show ?thesis using u(2) by blast
qed

subsection \<open>Deleting\<close>

lemma dddb_del_spec:
  assumes inv: "chunk_inv s" and d: "dddb_del True k s = (r, t)"
  shows "r = 0 \<and> chunk_inv t \<and> contents t = (contents s)(k := None)"
proof (cases "map_of (ck_index s) k")
  case None
  with d inv have "r = 0" "t = s" by (auto simp: dddb_del_def chunk_inv_def)
  with inv None show ?thesis by (auto simp: contents_def)
next
  case (Some h)
  let ?s = "s\<lparr>ck_index := AList.delete k (ck_index s)\<rparr>"
  obtain v where v: "v = dddb_mark (hr_off h div ck_bsiz ?s) (hr_siz h) False ?s" by simp
  from d inv Some have r: "r = 0" and t: "t = v\<lparr>ck_file := write_at (hr_off h) ''delobj'' (ck_file v)\<rparr>"
    by (auto simp: dddb_del_def chunk_inv_def Let_def v)
  have idx: "map_of (ck_index ?s) = (map_of (ck_index s))(k := None)"
    by (simp add: delete_conv')
  have cong: "blocks_of ?s = blocks_of s" "place_ok ?s = place_ok s"
    using same_store_cong [of ?s s] place_ok_cong [of ?s s] by simp_all
  have h: "place_ok s h" using inv Some by (simp add: chunk_inv_def)
  have others: "\<forall>j h'. map_of (ck_index ?s) j = Some h' \<longrightarrow> j \<noteq> k \<longrightarrow>
      place_ok ?s h' \<and> blocks_of ?s h' \<inter> blocks_of ?s h = {}"
    using inv Some unfolding cong idx chunk_inv_def by auto
  have sz: "bitblox ?s = bitblox s" by simp
  from unmark_others [OF others v] have u: "same_store ?s v" "bitblox s \<le> bitblox v"
    "\<And>j h'. map_of (ck_index ?s) j = Some h' \<Longrightarrow> j \<noteq> k \<Longrightarrow> place_ok v h'"
    unfolding sz by blast+
  have st: "ck_file v = ck_file s" "ck_index v = ck_index ?s" "ck_bsiz v = ck_bsiz s" "ck_initted v"
    using u(1) inv by (auto simp: same_store_def chunk_inv_def)
  have bl: "blocks_of t = blocks_of s" "place_ok t = place_ok v" "bitblox t = bitblox v"
    using same_store_cong [of t s] place_ok_cong [of t v] st by (simp_all add: t)
  have idt: "map_of (ck_index t) = (map_of (ck_index s))(k := None)" by (simp add: t st delete_conv')
  have fl: "ck_file t = write_at (hr_off h) ''delobj'' (ck_file s)" by (simp add: t st)
  have z: "6 \<le> ck_bsiz s" using inv by (simp add: chunk_inv_def)
  then have room: "length ''delobj'' \<le> blocks_needed (ck_bsiz s) (hr_siz h) * ck_bsiz s"
    using blocks_needed_pos [of "hr_siz h" "ck_bsiz s"] h
      mult_le_mono [of 1 "blocks_needed (ck_bsiz s) (hr_siz h)" 6 "ck_bsiz s"]
    by (simp add: place_ok_def)
  have keep: "take (hr_siz h') (drop (hr_off h') (ck_file t)) = take (hr_siz h') (drop (hr_off h') (ck_file s))"
    if h': "map_of (ck_index s) j = Some h'" "j \<noteq> k" for j h'
  proof -
    have "place_ok s h'" "blocks_of s h' \<inter> blocks_of s h = {}" "hr_off h' + hr_siz h' \<le> length (ck_file s)"
      using inv Some h' unfolding chunk_inv_def by blast+
    with h room z show ?thesis unfolding fl by (intro place_bytes_apart [of s]) (auto simp: place_ok_def)
  qed
  have "contents t j = ((contents s)(k := None)) j" for j
    using keep by (cases "map_of (ck_index s) j") (auto simp: contents_def idt)
  moreover have "chunk_inv t"
  proof -
    have "place_ok t h' \<and> hr_off h' + hr_siz h' \<le> length (ck_file t)"
      if "map_of (ck_index t) j = Some h'" for j h'
    proof -
      from that have j: "map_of (ck_index s) j = Some h'" "j \<noteq> k" by (auto simp: idt split: if_splits)
      then have "hr_off h' + hr_siz h' \<le> length (ck_file s)" using inv by (simp add: chunk_inv_def)
      with u(3) [of j h'] j show ?thesis unfolding bl by (simp add: fl idx)
    qed
    moreover have "blocks_of t h1 \<inter> blocks_of t h2 = {}"
      if "map_of (ck_index t) i = Some h1" "map_of (ck_index t) j = Some h2" "i \<noteq> j" for i j h1 h2
      using that inv unfolding bl idt chunk_inv_def by (auto split: if_splits)
    moreover have "32 < bitblox t" "ck_initted t" "ck_bsiz t = ck_bsiz s"
      using inv u(2) st by (simp_all add: chunk_inv_def bl) (simp_all add: t st)
    ultimately show ?thesis using z by (simp add: chunk_inv_def)
  qed
  ultimately show ?thesis using r by blast
qed

subsection \<open>The store as a dictionary\<close>

lemma dddb_alloc_returns:
  assumes "ck_junk s = (\<lambda>_. False)" "32 < bitblox s" "0 < ck_bsiz s" "0 < n"
  shows "\<exists>r t. dddb_alloc n s = Some (r, t)"
proof -
  have "clear_from (bitblox s) s" using assms(1) by (simp add: clear_from_def)
  from alloc_from_returns [OF this blocks_needed_pos [OF assms(4,3)] assms(2)] show ?thesis
    using assms(4) by (simp add: dddb_alloc_def)
qed

lemma put_place_returns:
  assumes inv: "chunk_inv s" and junk: "ck_junk s = (\<lambda>_. False)" and n: "0 < n"
  shows "\<exists>h t. put_place k n s = Some (h, t) \<and> ck_junk t = (\<lambda>_. False)"
proof -
  have "\<exists>h t. put_place k n s = Some (h, t)"
  proof (cases "map_of (ck_index s) k")
    case None
    with dddb_alloc_returns [OF junk _ _ n] inv show ?thesis
      by (fastforce simp: put_place_def chunk_inv_def)
  next
    case (Some h)
    let ?t = "dddb_mark (hr_off h div ck_bsiz s) (hr_siz h) False s"
    have "\<forall>j h'. map_of (ck_index s) j = Some h' \<longrightarrow> j \<noteq> k \<longrightarrow>
        place_ok s h' \<and> blocks_of s h' \<inter> blocks_of s h = {}"
      using inv Some unfolding chunk_inv_def by blast
    from unmark_others [OF this refl] have "ck_junk ?t = (\<lambda>_. False)" "32 < bitblox ?t" "0 < ck_bsiz ?t"
      using inv junk by (auto simp: same_store_def chunk_inv_def)
    from dddb_alloc_returns [OF this n] Some show ?thesis by (auto simp: put_place_def)
  qed
  then obtain h t where "put_place k n s = Some (h, t)" by blast
  moreover from put_place_spec [OF inv n this] junk have "ck_junk t = (\<lambda>_. False)"
    by (simp add: place_for_def same_store_def)
  ultimately show ?thesis by blast
qed

lemma put_bytes_returns:
  assumes "chunk_inv s" "ck_junk s = (\<lambda>_. False)" "0 < n"
  shows "\<exists>r t. put_bytes io k n bytes s = Some (r, t) \<and> ck_junk t = (\<lambda>_. False)"
  using put_place_returns [OF assms, of k] assms(1)
  by (cases io) (auto simp: put_bytes_def chunk_inv_def Let_def)

lemma mark_loop_store: "same_store s (mark_loop n lbn t s)"
  using mark_loop_spec by blast

lemma dddb_del_junk: "ck_junk (snd (dddb_del io k s)) = ck_junk s"
  using mark_loop_store
  by (auto simp: dddb_del_def dddb_mark_def Let_def same_store_def split: option.splits)

text \<open>An object in the file has at least one byte, so its bytes are a first one and the others.\<close>

definition chunk_find :: "chunkdb \<Rightarrow> i32 \<Rightarrow> (char \<times> string) option option" where
  "chunk_find s k = Some (map_option (\<lambda>b. (hd b, tl b)) (contents s k))"

definition chunk_put :: "chunkdb \<Rightarrow> i32 \<Rightarrow> char \<times> string \<Rightarrow> chunkdb option" where
  "chunk_put s k v = map_option snd
     (put_bytes (True, True) k (length (fst v # snd v)) (fst v # snd v) s)"

definition chunk_ok :: "chunkdb \<Rightarrow> bool" where
  "chunk_ok s \<longleftrightarrow> chunk_inv s \<and> ck_junk s = (\<lambda>_. False)"

lemma chunk_put_ok:
  assumes s: "chunk_ok s"
  shows "\<exists>t. chunk_put s k v = Some t \<and> chunk_ok t \<and> contents t = (contents s)(k \<mapsto> fst v # snd v)"
proof -
  let ?b = "fst v # snd v"
  have n: "0 < length ?b" by simp
  obtain r t where t: "put_bytes (True, True) k (length ?b) ?b s = Some (r, t)" "ck_junk t = (\<lambda>_. False)"
    using put_bytes_returns [of s "length ?b"] s unfolding chunk_ok_def by (metis n)
  moreover have "chunk_inv s" using s by (simp add: chunk_ok_def)
  ultimately show ?thesis
    using put_bytes_spec [OF _ n t(1)] by (simp add: chunk_put_def chunk_ok_def)
qed

lemma chunk_del_ok:
  assumes "chunk_ok s"
  shows "chunk_ok (snd (dddb_del True k s)) \<and> contents (snd (dddb_del True k s)) = (contents s)(k := None)"
  using dddb_del_spec [of s k "fst (dddb_del True k s)" "snd (dddb_del True k s)"] dddb_del_junk [of True k s] assms
  by (simp add: chunk_ok_def)

interpretation chunk_store: kv_store_del chunk_find chunk_put "\<lambda>k. k" chunk_ok "\<lambda>_. True"
    "\<lambda>s k. Some (snd (dddb_del True k s))"
proof unfold_locales
  fix s k v t assume s: "chunk_ok s" and p: "chunk_put s k v = Some t"
  with chunk_put_ok [OF s, of k v] have c: "contents t = (contents s)(k \<mapsto> fst v # snd v)" by auto
  show "chunk_find t k = Some (Some v)" by (simp add: chunk_find_def c)
  show "chunk_find t j = chunk_find s j" if "j \<noteq> k" for j using that by (simp add: chunk_find_def c)
next
  fix s k v assume "chunk_ok s"
  from chunk_put_ok [OF this, of k v] show "\<exists>t. chunk_put s k v = Some t \<and> chunk_ok t" by blast
qed (use chunk_del_ok in \<open>auto simp: chunk_find_def\<close>)

end
