(* ===== verification/Cache.thy ===== *)
theory Cache
  imports Chunk
begin

text \<open>
  The cache of objects over the store on disk (\<open>cache.c\<close>). Every bucket has two chains of
  slots, the active one and the old one, which are lists here, the head first; the tail pointer
  is the last slot. A slot holds an object or nothing, and two flags.

  Objects are values: C hands out pointers into the cache, and an object that was changed in
  place is handed to \<open>cache_put\<close> afterwards, which is \<open>cache_put\<close> of the changed value here.
  Whether the disk takes a write is the argument \<open>io\<close>, for every object.
\<close>

record slot =
  sl_oid :: i32
  sl_op :: "object option"
  sl_dirty :: bool
  sl_dead :: bool

record chain =
  active :: "slot list"
  olds :: "slot list"

record stats =
  cs_writes :: nat
  cs_reads :: nat
  cs_dbreads :: nat
  cs_dbwrites :: nat
  cs_dels :: nat
  cs_checks :: nat
  cs_rhits :: nat
  cs_ahits :: nat
  cs_whits :: nat
  cs_fails :: nat
  cs_resets :: nat
  cs_syncs :: nat
  cs_objects :: nat

record cache =
  ca_initted :: bool
  ca_chains :: "chain list"
  ca_cwidth :: int
  ca_cdepth :: int
  ca_db :: chunkdb
  ca_stats :: stats

type_synonym disk = "i32 \<Rightarrow> bool \<times> bool"

abbreviation bump :: "(stats \<Rightarrow> stats) \<Rightarrow> cache \<Rightarrow> cache" where
  "bump f c \<equiv> c\<lparr>ca_stats := f (ca_stats c)\<rparr>"

abbreviation inc :: "((nat \<Rightarrow> nat) \<Rightarrow> stats \<Rightarrow> stats) \<Rightarrow> stats \<Rightarrow> stats" where
  "inc upd \<equiv> upd Suc"

section \<open>Slots and chains\<close>

definition empty_slot :: slot where
  "empty_slot = \<lparr>sl_oid = -1, sl_op = None, sl_dirty = False, sl_dead = False\<rparr>"

definition live :: "i32 \<Rightarrow> slot \<Rightarrow> bool" where
  "live k s \<longleftrightarrow> \<not> sl_dead s \<and> sl_oid s = k"

text \<open>The number of the bucket; an object number below zero has none.\<close>

definition hv :: "cache \<Rightarrow> i32 \<Rightarrow> nat" where
  "hv c k = nat (sint k mod int (length (ca_chains c)))"

abbreviation chain_at :: "cache \<Rightarrow> i32 \<Rightarrow> chain" where
  "chain_at c k \<equiv> ca_chains c ! hv c k"

definition set_chain :: "i32 \<Rightarrow> chain \<Rightarrow> cache \<Rightarrow> cache" where
  "set_chain k ch c = c\<lparr>ca_chains := (ca_chains c)[hv c k := ch]\<rparr>"

text \<open>Taking out the first slot that satisfies a condition.\<close>

fun remove_first :: "('a \<Rightarrow> bool) \<Rightarrow> 'a list \<Rightarrow> 'a list" where
  "remove_first P [] = []"
| "remove_first P (x # xs) = (if P x then xs else x # remove_first P xs)"

section \<open>Operations\<close>

definition cache_init :: "cache \<Rightarrow> cache" where
  "cache_init c =
     (if ca_initted c then c
      else c\<lparr>ca_initted := True,
             ca_chains := replicate (nat (ca_cwidth c))
               \<lparr>active = [], olds = replicate (nat (ca_cdepth c)) empty_slot\<rparr>,
             ca_stats := cs_objects_update (\<lambda>n. n + nat (ca_cwidth c) * nat (ca_cdepth c)) (ca_stats c)\<rparr>)"

definition reset_chain :: "chain \<Rightarrow> chain" where
  "reset_chain ch = \<lparr>active = [], olds = active ch @ olds ch\<rparr>"

definition cache_reset :: "cache \<Rightarrow> cache" where
  "cache_reset c =
     (if \<not> ca_initted c then c
      else bump (inc cs_resets_update) (c\<lparr>ca_chains := map reset_chain (ca_chains c)\<rparr>))"

text \<open>Writing a slot back before it is used again: only a dirty object with a number is written.\<close>

definition write_back :: "disk \<Rightarrow> slot \<Rightarrow> cache \<Rightarrow> (bool \<times> cache) option" where
  "write_back io s c =
     (case sl_op s of
        Some ob \<Rightarrow>
          if sl_dirty s \<and> 0 \<le> sint (sl_oid s)
          then do {
            (failed, d) \<leftarrow> dddb_put (io (sl_oid s)) ob (sl_oid s) (ca_db c);
            let c = c\<lparr>ca_db := d\<rparr>;
            Some (failed, if failed then c else bump (inc cs_dbwrites_update) c) }
          else Some (False, c)
      | None \<Rightarrow> Some (False, c))"

text \<open>
  \<open>cache_get\<close>. On a miss the last old slot is taken out of its chain before its object is
  written: when the write fails the slot is gone.
\<close>

definition cache_miss ::
  "(vmap \<Rightarrow> vmap \<Rightarrow> bool) \<Rightarrow> disk \<Rightarrow> i32 \<Rightarrow> cache \<Rightarrow> (object option \<times> cache) option" where
  "cache_miss same io k c = do {
     r \<leftarrow> dddb_get same k (ca_db c);
     case r of
       None \<Rightarrow> Some (None, bump (inc cs_fails_update) c)
     | Some ob \<Rightarrow> do {
         let c = bump (inc cs_dbreads_update) c;
         let ch = chain_at c k;
         let fresh = \<lparr>sl_oid = k, sl_op = Some ob, sl_dirty = False, sl_dead = False\<rparr>;
         if olds ch = []
         then Some (Some ob, bump (inc cs_objects_update) (set_chain k (ch\<lparr>active := fresh # active ch\<rparr>) c))
         else do {
           let c = set_chain k (ch\<lparr>olds := butlast (olds ch)\<rparr>) c;
           (failed, c) \<leftarrow> write_back io (last (olds ch)) c;
           if failed then Some (None, c)
           else Some (Some ob, set_chain k
             \<lparr>active = fresh # active ch, olds = butlast (olds ch)\<rparr> c) } } }"

definition cache_get ::
  "(vmap \<Rightarrow> vmap \<Rightarrow> bool) \<Rightarrow> disk \<Rightarrow> i32 \<Rightarrow> cache \<Rightarrow> (object option \<times> cache) option" where
  "cache_get same io k c =
     (if \<not> ca_initted c \<or> sint k < 0 then Some (None, c)
      else do {
        let c = bump (inc cs_reads_update) c;
        let ch = chain_at c k;
        case find (live k) (active ch) of
          Some s \<Rightarrow> Some (sl_op s, bump (inc cs_rhits_update \<circ> inc cs_ahits_update) c)
        | None \<Rightarrow>
            (case find (live k) (olds ch) of
               Some s \<Rightarrow> Some (sl_op s, bump (inc cs_rhits_update) (set_chain k
                 \<lparr>active = s # active ch, olds = remove_first (live k) (olds ch)\<rparr> c))
             | None \<Rightarrow> cache_miss same io k c) })"

text \<open>
  \<open>cache_put\<close> looks for a slot of the object, dead or not. It clears neither flag.
\<close>

definition put_slot :: "object \<Rightarrow> slot \<Rightarrow> slot" where
  "put_slot ob s = s\<lparr>sl_op := Some ob, sl_dirty := True\<rparr>"

definition cache_put :: "disk \<Rightarrow> object \<Rightarrow> i32 \<Rightarrow> cache \<Rightarrow> (bool \<times> cache) option" where
  "cache_put io ob k c =
     (if sint k < 0 \<or> \<not> ca_initted c then Some (True, c)
      else do {
        let c = bump (inc cs_writes_update) c;
        let ch = chain_at c k;
        let here = (\<lambda>s. sl_oid s = k);
        let fresh = \<lparr>sl_oid = k, sl_op = Some ob, sl_dirty = True, sl_dead = False\<rparr>;
        case find here (active ch) of
          Some s \<Rightarrow> Some (False, (if sl_dirty s then bump (inc cs_whits_update) else id)
            (set_chain k (ch\<lparr>active := update_first here (put_slot ob) (active ch)\<rparr>) c))
        | None \<Rightarrow>
            (case find here (olds ch) of
               Some s \<Rightarrow> Some (False, (if sl_dirty s then bump (inc cs_whits_update) else id)
                 (set_chain k (ch\<lparr>olds := update_first here (put_slot ob) (olds ch)\<rparr>) c))
             | None \<Rightarrow>
                 if olds ch = []
                 then Some (False, bump (inc cs_objects_update)
                   (set_chain k (ch\<lparr>active := fresh # active ch\<rparr>) c))
                 else do {
                   (failed, c) \<leftarrow> write_back io (last (olds ch)) c;
                   if failed then Some (True, c)
                   else Some (False, set_chain k
                     \<lparr>active = fresh # active ch, olds = butlast (olds ch)\<rparr> c) }) })"

text \<open>\<open>cache_sync\<close> over the slots of a chain, and over the chains: it stops at the first failure.\<close>

fun sync_slots :: "disk \<Rightarrow> slot list \<Rightarrow> cache \<Rightarrow> (bool \<times> slot list \<times> cache) option" where
  "sync_slots io [] c = Some (False, [], c)"
| "sync_slots io (s # ss) c =
     (if \<not> sl_dirty s
      then map_option (\<lambda>(r, ss, c). (r, s # ss, c)) (sync_slots io ss c)
      else do {
        ob \<leftarrow> sl_op s;
        (failed, d) \<leftarrow> dddb_put (io (sl_oid s)) ob (sl_oid s) (ca_db c);
        let c = c\<lparr>ca_db := d\<rparr>;
        if failed then Some (True, s # ss, c)
        else map_option (\<lambda>(r, ss, c). (r, s\<lparr>sl_dirty := False\<rparr> # ss, c))
          (sync_slots io ss (bump (inc cs_dbwrites_update) c)) })"

fun sync_chains :: "disk \<Rightarrow> chain list \<Rightarrow> cache \<Rightarrow> (bool \<times> chain list \<times> cache) option" where
  "sync_chains io [] c = Some (False, [], c)"
| "sync_chains io (ch # chs) c = do {
     (failed, a, c) \<leftarrow> sync_slots io (active ch) c;
     if failed then Some (True, ch\<lparr>active := a\<rparr> # chs, c)
     else do {
       (failed, os, c) \<leftarrow> sync_slots io (olds ch) c;
       if failed then Some (True, \<lparr>active = a, olds = os\<rparr> # chs, c)
       else map_option (\<lambda>(r, chs, c). (r, \<lparr>active = a, olds = os\<rparr> # chs, c)) (sync_chains io chs c) } }"

definition cache_sync :: "disk \<Rightarrow> cache \<Rightarrow> (bool \<times> cache) option" where
  "cache_sync io c =
     (let c = bump (inc cs_syncs_update) c
      in if \<not> ca_initted c then Some (True, c)
         else map_option (\<lambda>(r, chs, c). (r, c\<lparr>ca_chains := chs\<rparr>)) (sync_chains io (ca_chains c) c))"

definition cache_check :: "i32 \<Rightarrow> cache \<Rightarrow> bool \<times> cache" where
  "cache_check k c =
     (if sint k < 0 \<or> \<not> ca_initted c then (False, c)
      else let c = bump (inc cs_checks_update) c; ch = chain_at c k
        in ((\<exists>s\<in>set (active ch @ olds ch). 0 \<le> sint (sl_oid s) \<and> live k s) \<or> dddb_check k (ca_db c), c))"

definition kill_slot :: "slot \<Rightarrow> slot" where
  "kill_slot s = s\<lparr>sl_dirty := False, sl_dead := True\<rparr>"

definition cache_del :: "(i32 \<Rightarrow> bool) \<Rightarrow> i32 \<Rightarrow> cache \<Rightarrow> int \<times> cache" where
  "cache_del io k c =
     (if sint k < 0 \<or> \<not> ca_initted c then (0, c)
      else let c = bump (inc cs_dels_update) c; ch = chain_at c k;
          here = (\<lambda>s. sl_oid s = k);
          c = set_chain k \<lparr>active = update_first here kill_slot (active ch),
                           olds = update_first here kill_slot (olds ch)\<rparr> c;
          (r, d) = dddb_del (io k) k (ca_db c)
        in (r, c\<lparr>ca_db := d\<rparr>))"

text \<open>
  A line of the configuration: \<open>depth\<close> and \<open>width\<close> can be set before the cache is there. A bad
  value is reported, and kept.
\<close>

definition cacheconfig :: "string \<Rightarrow> cache \<Rightarrow> bool \<times> cache" where
  "cacheconfig line c =
     (let n = sint (c_atoi (drop 6 line))
      in if strn_eq id 6 line ''depth ''
         then (if ca_initted c then (True, c) else (n \<le> 0, c\<lparr>ca_cdepth := n\<rparr>))
         else if strn_eq id 6 line ''width ''
         then (if ca_initted c then (True, c) else (n \<le> 0, c\<lparr>ca_cwidth := n\<rparr>))
         else (False, c))"

section \<open>What is on the disk\<close>

text \<open>Everything in the file can be read back, whatever follows it.\<close>

definition readable :: "(vmap \<Rightarrow> vmap \<Rightarrow> bool) \<Rightarrow> string \<Rightarrow> object \<Rightarrow> bool" where
  "readable same p ob \<longleftrightarrow> (\<forall>rest. unpack_object same (p @ rest) = Some (ob, rest))"

definition disk_ok :: "(vmap \<Rightarrow> vmap \<Rightarrow> bool) \<Rightarrow> chunkdb \<Rightarrow> bool" where
  "disk_ok same d \<longleftrightarrow> chunk_ok d \<and> (\<forall>k p. contents d k = Some p \<longrightarrow> (\<exists>ob. readable same p ob))"

definition disk_view :: "(vmap \<Rightarrow> vmap \<Rightarrow> bool) \<Rightarrow> chunkdb \<Rightarrow> i32 \<Rightarrow> object option" where
  "disk_view same d k = map_option (\<lambda>p. fst (the (unpack_object same p))) (contents d k)"

lemma readable_some: "readable same p ob \<Longrightarrow> fst (the (unpack_object same p)) = ob"
proof -
  assume "readable same p ob"
  then have "unpack_object same (p @ []) = Some (ob, [])" unfolding readable_def by blast
  then show ?thesis by simp
qed

lemma disk_get: "disk_ok same d \<Longrightarrow> dddb_get same k d = Some (disk_view same d k)"
proof (cases "map_of (ck_index d) k")
  case None
  then show ?thesis by (simp add: dddb_get_def disk_view_def contents_def)
next
  case (Some h)
  assume ok: "disk_ok same d"
  let ?p = "take (hr_siz h) (drop (hr_off h) (ck_file d))"
  have c: "contents d k = Some ?p" using Some by (simp add: contents_def)
  with ok obtain ob where r: "readable same ?p ob" by (auto simp: disk_ok_def)
  have "drop (hr_off h) (ck_file d) = ?p @ drop (hr_siz h) (drop (hr_off h) (ck_file d))"
    by (rule append_take_drop_id [symmetric])
  with r have "\<exists>rest. unpack_object same (drop (hr_off h) (ck_file d)) = Some (ob, rest)"
    unfolding readable_def by metis
  moreover have "ck_initted d" using ok by (simp add: disk_ok_def chunk_ok_def chunk_inv_def)
  ultimately show ?thesis using Some readable_some [OF r]
    by (auto simp: dddb_get_def disk_view_def c)
qed

lemma disk_check: "disk_ok same d \<Longrightarrow> dddb_check k d \<longleftrightarrow> disk_view same d k \<noteq> None"
  by (simp add: dddb_check_def disk_view_def contents_def disk_ok_def chunk_ok_def chunk_inv_def)

lemma disk_put:
  assumes d: "disk_ok same d" and ob: "object_inv ob" "object_storable ob"
  shows "\<exists>d' ob'. dddb_put (True, True) ob k d = Some (False, d') \<and> disk_ok same d' \<and>
    disk_view same d' = (disk_view same d)(k \<mapsto> ob') \<and> same_object ob ob' \<and> object_inv ob'"
proof -
  obtain p ob' where p: "pack_object ob = Some p" "length p = size_object ob" "readable same p ob'"
    "same_object ob ob'" "object_inv ob'"
    using object_round [OF ob, of same] unfolding readable_def by blast
  have n: "0 < length p" using p(2) size_object_pos by simp
  have c: "chunk_inv d" "ck_junk d = (\<lambda>_. False)" using d by (simp_all add: disk_ok_def chunk_ok_def)
  obtain r t where t: "put_bytes (True, True) k (length p) p d = Some (r, t)" "ck_junk t = (\<lambda>_. False)"
    using put_bytes_returns [OF c n] by blast
  from put_bytes_spec [OF c(1) n t(1)] have t': "\<not> r" "chunk_inv t" "contents t = (contents d)(k \<mapsto> p)"
    by blast+
  have "disk_ok same t" using d t' t(2) p(3) by (auto simp: disk_ok_def chunk_ok_def)
  moreover have "disk_view same t = (disk_view same d)(k \<mapsto> ob')"
    using readable_some [OF p(3)] by (auto simp: disk_view_def t'(3))
  ultimately show ?thesis using p t t'(1) by (auto simp: dddb_put_def)
qed

lemma disk_del:
  assumes d: "disk_ok same d"
  shows "\<exists>d'. dddb_del True k d = (0, d') \<and> disk_ok same d' \<and> disk_view same d' = (disk_view same d)(k := None)"
proof -
  obtain r t where t: "dddb_del True k d = (r, t)" by fastforce
  have "chunk_inv d" using d by (simp add: disk_ok_def chunk_ok_def)
  from dddb_del_spec [OF this t] have "r = 0" "contents t = (contents d)(k := None)" by blast+
  moreover have "chunk_ok t" using chunk_del_ok [of d k] d t by (simp add: disk_ok_def)
  ultimately show ?thesis using d t by (auto simp: disk_ok_def disk_view_def)
qed

section \<open>What the cache shows\<close>

text \<open>
  An object that goes to the disk and comes back is the same but for the arrangement of its
  tables; it may do so more than once.
\<close>

abbreviation sim :: "object \<Rightarrow> object \<Rightarrow> bool" where
  "sim \<equiv> same_object\<^sup>*\<^sup>*"

abbreviation slots :: "chain \<Rightarrow> slot list" where
  "slots ch \<equiv> active ch @ olds ch"

definition used :: "slot \<Rightarrow> bool" where
  "used s \<longleftrightarrow> 0 \<le> sint (sl_oid s)"

text \<open>
  The state of a slot against the disk: an unused slot is empty; a dead one is clean and its object
  is not on the disk; a dirty object can be stored; a clean one is what is on the disk.
\<close>

definition slot_inv :: "(i32 \<Rightarrow> object option) \<Rightarrow> slot \<Rightarrow> bool" where
  "slot_inv dv s \<longleftrightarrow>
     (if used s
      then (\<exists>ob. sl_op s = Some ob \<and>
        (if sl_dead s then \<not> sl_dirty s \<and> dv (sl_oid s) = None
         else if sl_dirty s then object_inv ob \<and> object_storable ob
         else (\<exists>ob'. dv (sl_oid s) = Some ob' \<and> sim ob ob')))
      else sl_op s = None \<and> \<not> sl_dirty s)"

definition chain_inv :: "nat \<Rightarrow> (i32 \<Rightarrow> object option) \<Rightarrow> nat \<Rightarrow> chain \<Rightarrow> bool" where
  "chain_inv n dv i ch \<longleftrightarrow> distinct (map sl_oid (filter used (slots ch))) \<and>
     (\<forall>s\<in>set (slots ch). slot_inv dv s \<and> (used s \<longrightarrow> nat (sint (sl_oid s) mod int n) = i))"

definition look :: "(i32 \<Rightarrow> object option) \<Rightarrow> chain \<Rightarrow> i32 \<Rightarrow> object option" where
  "look dv ch k = (case find (live k) (slots ch) of Some s \<Rightarrow> sl_op s | None \<Rightarrow> dv k)"

definition cache_inv :: "(vmap \<Rightarrow> vmap \<Rightarrow> bool) \<Rightarrow> cache \<Rightarrow> bool" where
  "cache_inv same c \<longleftrightarrow> ca_initted c \<and> ca_chains c \<noteq> [] \<and> disk_ok same (ca_db c) \<and>
     (\<forall>i<length (ca_chains c).
        chain_inv (length (ca_chains c)) (disk_view same (ca_db c)) i (ca_chains c ! i))"

text \<open>The object with a number, wherever it is.\<close>

definition view :: "(vmap \<Rightarrow> vmap \<Rightarrow> bool) \<Rightarrow> cache \<Rightarrow> i32 \<Rightarrow> object option" where
  "view same c k = look (disk_view same (ca_db c)) (chain_at c k) k"

subsection \<open>Chains\<close>

lemma find_live_iff:
  "find (live k) l = None \<longleftrightarrow> (\<forall>s\<in>set l. \<not> live k s)"
  by (induction l) auto

lemma find_SomeD: "find P l = Some x \<Longrightarrow> x \<in> set l \<and> P x"
  by (induction l) (auto split: if_splits)

lemma find_append: "find P (a @ b) = (case find P a of Some x \<Rightarrow> Some x | None \<Rightarrow> find P b)"
  by (induction a) auto

lemma distinct_used:
  assumes "distinct (map sl_oid (filter used l))" "s \<in> set l" "t \<in> set l" "used s" "sl_oid s = sl_oid t"
  shows "s = t"
proof -
  have "s \<in> set (filter used l)" "t \<in> set (filter used l)" using assms by (simp_all add: used_def)
  with assms(1,5) show ?thesis by (metis distinct_map inj_on_eq_iff)
qed

lemma look_slot:
  assumes ch: "chain_inv n dv i ch" and s: "s \<in> set (slots ch)" "sl_oid s = k" "0 \<le> sint k"
  shows "look dv ch k = (if sl_dead s then dv k else sl_op s)"
proof -
  have u: "used s" using s by (simp add: used_def)
  have uniq: "t = s" if "t \<in> set (slots ch)" "sl_oid t = k" for t
    using ch s u that distinct_used [of "slots ch" s t] by (simp add: chain_inv_def)
  show ?thesis
  proof (cases "find (live k) (slots ch)")
    case None
    then have "\<not> live k s" using s(1) by (auto simp: find_live_iff)
    with s(2) None show ?thesis by (simp add: look_def live_def)
  next
    case (Some t)
    then have "t = s" "\<not> sl_dead s" using uniq find_SomeD [OF Some] by (auto simp: live_def)
    with Some show ?thesis by (simp add: look_def)
  qed
qed

lemma look_none: "(\<forall>s\<in>set (slots ch). sl_oid s \<noteq> k) \<Longrightarrow> look dv ch k = dv k"
proof -
  assume "\<forall>s\<in>set (slots ch). sl_oid s \<noteq> k"
  then have "find (live k) (slots ch) = None" unfolding find_live_iff by (auto simp: live_def)
  then show ?thesis by (simp add: look_def)
qed

lemma slot_inv_cong: "used s \<longrightarrow> dv' (sl_oid s) = dv (sl_oid s) \<Longrightarrow> slot_inv dv' s = slot_inv dv s"
  by (auto simp: slot_inv_def)

lemma chain_inv_other:
  assumes "chain_inv n dv i ch" "\<And>k. nat (sint k mod int n) = i \<Longrightarrow> dv' k = dv k"
  shows "chain_inv n dv' i ch"
proof -
  have "slot_inv dv' s = slot_inv dv s" if "s \<in> set (slots ch)" for s
    using assms that by (intro slot_inv_cong) (auto simp: chain_inv_def)
  with assms(1) show ?thesis by (simp add: chain_inv_def)
qed

text \<open>
  A step at the bucket of \<open>k\<close>: a new chain for it, and a disk that changed at objects of this
  bucket only. The other buckets show what they showed.
\<close>

lemma cache_step:
  assumes inv: "cache_inv same c" and k: "0 \<le> sint k"
    and c': "ca_initted c'" "ca_chains c' = (ca_chains c)[hv c k := ch]"
    and d: "disk_ok same (ca_db c')"
    and dv: "\<And>j. hv c j \<noteq> hv c k \<Longrightarrow> disk_view same (ca_db c') j = disk_view same (ca_db c) j"
    and ch: "chain_inv (length (ca_chains c)) (disk_view same (ca_db c')) (hv c k) ch"
  shows "cache_inv same c' \<and>
    view same c' j = (if hv c j = hv c k then look (disk_view same (ca_db c')) ch j else view same c j)"
proof -
  let ?n = "length (ca_chains c)"
  have n: "0 < ?n" using inv by (simp add: cache_inv_def)
  have h: "hv c i < ?n" for i using n by (simp add: hv_def nat_less_iff)
  have hv: "hv c' i = hv c i" for i by (simp add: hv_def c'(2))
  have "chain_inv ?n (disk_view same (ca_db c')) i (ca_chains c' ! i)" if i: "i < ?n" for i
  proof (cases "i = hv c k")
    case False
    with inv i have "chain_inv ?n (disk_view same (ca_db c)) i (ca_chains c' ! i)"
      by (simp add: cache_inv_def c'(2))
    then show ?thesis
      by (rule chain_inv_other) (use False dv in \<open>auto simp: hv_def\<close>)
  qed (use ch h c'(2) in simp)
  then have "cache_inv same c'" using inv c' d by (simp add: cache_inv_def)
  moreover have "view same c' j = (if hv c j = hv c k then look (disk_view same (ca_db c')) ch j else view same c j)"
  proof (cases "hv c j = hv c k")
    case False
    then have "chain_at c' j = chain_at c j" by (simp add: hv c'(2))
    with False dv [OF False] show ?thesis by (simp add: view_def look_def split: option.split)
  qed (use h in \<open>simp add: view_def hv c'(2)\<close>)
  ultimately show ?thesis by blast
qed

lemma chain_at_inv:
  assumes "cache_inv same c"
  shows "chain_inv (length (ca_chains c)) (disk_view same (ca_db c)) (hv c k) (chain_at c k)"
proof -
  have "hv c k < length (ca_chains c)" using assms by (simp add: cache_inv_def hv_def nat_less_iff)
  with assms show ?thesis by (simp add: cache_inv_def)
qed

lemma same_cache:
  assumes "ca_initted c' = ca_initted c" "ca_chains c' = ca_chains c" "ca_db c' = ca_db c"
  shows "cache_inv same c' = cache_inv same c" "view same c' = view same c" "hv c' = hv c"
  using assms by (auto simp: cache_inv_def view_def hv_def fun_eq_iff)

lemma bump_cache [simp]:
  "cache_inv same (c\<lparr>ca_stats := st\<rparr>) = cache_inv same c" "view same (c\<lparr>ca_stats := st\<rparr>) = view same c"
  "hv (c\<lparr>ca_stats := st\<rparr>) = hv c"
  by (rule same_cache; simp)+

lemma chain_inv_mset:
  assumes "mset (slots ch') = mset (slots ch)"
  shows "chain_inv n dv i ch' \<longleftrightarrow> chain_inv n dv i ch"
proof -
  have "mset (map sl_oid (filter used (slots ch'))) = mset (map sl_oid (filter used (slots ch)))"
    using assms by (simp only: mset_map mset_filter)
  from mset_eq_imp_distinct_iff [OF this] mset_eq_setD [OF assms] show ?thesis
    unfolding chain_inv_def by simp
qed

lemma look_mset:
  assumes "chain_inv n dv i ch" "mset (slots ch') = mset (slots ch)" "0 \<le> sint k"
  shows "look dv ch' k = look dv ch k"
proof (cases "\<exists>s\<in>set (slots ch). sl_oid s = k")
  case True
  then obtain s where s: "s \<in> set (slots ch)" "sl_oid s = k" by blast
  then have "s \<in> set (slots ch')" using mset_eq_setD [OF assms(2)] by simp
  moreover have "chain_inv n dv i ch'" using assms chain_inv_mset by blast
  ultimately show ?thesis using look_slot [of n dv i ch' s k] look_slot [OF assms(1) s assms(3)] s(2) assms(3)
    by simp
next
  case False
  then show ?thesis using mset_eq_setD [OF assms(2)] by (simp add: look_none)
qed

lemma mset_remove_first: "find P l = Some s \<Longrightarrow> add_mset s (mset (remove_first P l)) = mset l"
  by (induction l) (auto split: if_splits)

subsection \<open>Making room\<close>

abbreviation works :: disk where
  "works \<equiv> \<lambda>_. (True, True)"

lemma write_back_spec:
  assumes d: "disk_ok same (ca_db c)" and s: "slot_inv (disk_view same (ca_db c)) s"
  shows "\<exists>c'. write_back works s c = Some (False, c') \<and> ca_initted c' = ca_initted c \<and>
    ca_chains c' = ca_chains c \<and> disk_ok same (ca_db c') \<and>
    (\<forall>j. used s \<and> j = sl_oid s \<or> disk_view same (ca_db c') j = disk_view same (ca_db c) j) \<and>
    (used s \<longrightarrow> rel_option sim (if sl_dead s then disk_view same (ca_db c) (sl_oid s) else sl_op s)
       (disk_view same (ca_db c') (sl_oid s)))"
proof (cases "used s \<and> sl_dirty s")
  case True
  then have u: "used s" and dirty: "sl_dirty s" by auto
  with s obtain ob where ob: "sl_op s = Some ob" "\<not> sl_dead s" "object_inv ob" "object_storable ob"
    by (auto simp: slot_inv_def split: if_splits)
  from disk_put [OF d ob(3,4), of "sl_oid s"] obtain d' ob' where
    d': "dddb_put (True, True) ob (sl_oid s) (ca_db c) = Some (False, d')" "disk_ok same d'"
      "disk_view same d' = (disk_view same (ca_db c))(sl_oid s \<mapsto> ob')" "same_object ob ob'" by blast
  let ?c = "bump (inc cs_dbwrites_update) (c\<lparr>ca_db := d'\<rparr>)"
  have "write_back works s c = Some (False, ?c)"
    using u dirty ob(1) d'(1) by (simp add: write_back_def used_def)
  moreover have "rel_option sim (sl_op s) (disk_view same (ca_db ?c) (sl_oid s))"
    using ob(1) d'(3,4) by auto
  ultimately show ?thesis using u ob(2) d'(2,3) by (intro exI [of _ ?c]) simp
next
  case False
  have "write_back works s c = Some (False, c)"
    using False by (cases "sl_op s") (auto simp: write_back_def used_def)
  moreover have "rel_option sim (if sl_dead s then disk_view same (ca_db c) (sl_oid s) else sl_op s)
      (disk_view same (ca_db c) (sl_oid s))" if "used s"
    using that False s by (auto simp: slot_inv_def split: if_splits)
  ultimately show ?thesis using d by (intro exI [of _ c]) simp
qed

text \<open>A chain whose last old slot is given to the object \<open>k\<close>.\<close>

lemma reuse_slot:
  assumes ch: "chain_inv n dv i ch" and os: "olds ch \<noteq> []"
    and k: "\<forall>s\<in>set (slots ch). sl_oid s \<noteq> k" "0 \<le> sint k" "nat (sint k mod int n) = i"
    and fresh: "sl_oid f = k" "slot_inv dv' f"
    and dv: "\<And>j. used (last (olds ch)) \<and> j = sl_oid (last (olds ch)) \<or> dv' j = dv j"
    and gone: "used (last (olds ch)) \<Longrightarrow> rel_option sim
      (if sl_dead (last (olds ch)) then dv (sl_oid (last (olds ch))) else sl_op (last (olds ch)))
      (dv' (sl_oid (last (olds ch))))"
    and ch': "ch' = \<lparr>active = f # active ch, olds = butlast (olds ch)\<rparr>"
    and j: "0 \<le> sint j" "j \<noteq> k"
  shows "chain_inv n dv' i ch' \<and> rel_option sim (look dv ch j) (look dv' ch' j)"
proof -
  let ?l = "last (olds ch)" and ?r = "active ch @ butlast (olds ch)"
  have split: "slots ch = ?r @ [?l]" using os by simp
  have new: "slots ch' = f # ?r" by (simp add: ch')
  have old: "slot_inv dv s" "used s \<longrightarrow> nat (sint (sl_oid s) mod int n) = i" if "s \<in> set (slots ch)" for s
    using ch that by (simp_all add: chain_inv_def)
  have dist: "distinct (map sl_oid (filter used (?r @ [?l])))"
    using ch unfolding chain_inv_def split by blast
  have notlast: "sl_oid s \<noteq> sl_oid ?l" if s: "s \<in> set ?r" "used s" for s
  proof
    assume eq: "sl_oid s = sl_oid ?l"
    then have "used ?l" using s(2) by (simp add: used_def)
    with dist have "sl_oid ?l \<notin> set (map sl_oid (filter used ?r))" by simp
    moreover have "sl_oid s \<in> set (map sl_oid (filter used ?r))" using s by auto
    ultimately show False using eq by metis
  qed
  have keep: "slot_inv dv' s" if s: "s \<in> set ?r" for s
  proof -
    have "slot_inv dv' s = slot_inv dv s"
      using dv [of "sl_oid s"] notlast [OF s] by (intro slot_inv_cong) auto
    with old(1) [of s] s split show ?thesis by simp
  qed
  have uf: "used f" using fresh(1) k(2) by (simp add: used_def)
  have "distinct (map sl_oid (filter used (slots ch')))"
    using dist k(1) fresh(1) uf unfolding new split by auto
  moreover have "\<forall>s\<in>set (slots ch'). slot_inv dv' s \<and> (used s \<longrightarrow> nat (sint (sl_oid s) mod int n) = i)"
    using keep fresh k(3) old(2) unfolding new split by auto
  ultimately have inv: "chain_inv n dv' i ch'" by (simp add: chain_inv_def)
  have "rel_option sim (look dv ch j) (look dv' ch' j)"
  proof (cases "\<exists>s\<in>set ?r. sl_oid s = j")
    case True
    then obtain s where s: "s \<in> set ?r" "sl_oid s = j" by blast
    have "dv' j = dv j" using dv [of j] notlast [OF s(1)] s(2) j(1) by (auto simp: used_def)
    moreover have "s \<in> set (slots ch)" "s \<in> set (slots ch')" using s(1) unfolding split new by auto
    ultimately show ?thesis
      using look_slot [OF ch _ s(2) j(1)] look_slot [OF inv _ s(2) j(1)] by (simp add: option.rel_refl)
  next
    case False
    then have n': "look dv' ch' j = dv' j"
      using fresh(1) j(2) unfolding new by (intro look_none) (auto simp: new)
    show ?thesis
    proof (cases "sl_oid ?l = j")
      case True
      then have "used ?l" using j(1) by (simp add: used_def)
      moreover have "?l \<in> set (slots ch)" using os by simp
      ultimately show ?thesis using gone n' look_slot [OF ch _ True j(1)] unfolding True by simp
    next
      case neq: False
      with False have "look dv ch j = dv j" unfolding split by (intro look_none) (auto simp: split)
      moreover have "dv' j = dv j" using dv [of j] neq by auto
      ultimately show ?thesis using n' by (simp add: option.rel_refl)
    qed
  qed
  with inv show ?thesis by blast
qed

section \<open>The operations show and keep the objects\<close>

text \<open>What every operation leaves of the other objects.\<close>

definition same_view :: "(vmap \<Rightarrow> vmap \<Rightarrow> bool) \<Rightarrow> cache \<Rightarrow> cache \<Rightarrow> i32 \<Rightarrow> bool" where
  "same_view same c c' j \<longleftrightarrow> rel_option sim (view same c j) (view same c' j)"

lemma same_view_eq: "view same c' j = view same c j \<Longrightarrow> same_view same c c' j"
  by (simp add: same_view_def option.rel_refl)

lemma set_chain_simps [simp]:
  "ca_initted (set_chain k ch c) = ca_initted c" "ca_db (set_chain k ch c) = ca_db c"
  "ca_chains (set_chain k ch c) = (ca_chains c)[hv c k := ch]"
  by (simp_all add: set_chain_def)

lemma hv_mod: "hv c j = nat (sint j mod int (length (ca_chains c)))"
  by (simp add: hv_def)

lemma cache_miss_spec:
  assumes inv: "cache_inv same c" and k: "0 \<le> sint k"
    and miss: "\<forall>s\<in>set (slots (chain_at c k)). \<not> live k s"
  shows "\<exists>c'. cache_miss same works k c = Some (view same c k, c') \<and> cache_inv same c' \<and>
    (\<forall>j. 0 \<le> sint j \<longrightarrow> same_view same c c' j)"
proof -
  let ?ch = "chain_at c k" and ?dv = "disk_view same (ca_db c)" and ?n = "length (ca_chains c)"
  have d: "disk_ok same (ca_db c)" using inv by (simp add: cache_inv_def)
  note ch = chain_at_inv [OF inv, of k]
  have "find (live k) (slots ?ch) = None" using miss by (simp add: find_live_iff)
  then have v: "view same c k = ?dv k" by (simp add: view_def look_def)
  show ?thesis
  proof (cases "?dv k")
    case None
    with disk_get [OF d, of k] v inv show ?thesis
      by (intro exI [of _ "bump (inc cs_fails_update) c"]) (simp add: cache_miss_def same_view_eq)
  next
    case (Some ob)
    let ?c = "bump (inc cs_dbreads_update) c"
    let ?f = "\<lparr>sl_oid = k, sl_op = Some ob, sl_dirty = False, sl_dead = False\<rparr>"
    have none: "\<forall>s\<in>set (slots ?ch). sl_oid s \<noteq> k"
    proof
      fix s assume s: "s \<in> set (slots ?ch)"
      show "sl_oid s \<noteq> k"
      proof
        assume eq: "sl_oid s = k"
        with miss s have "sl_dead s" by (auto simp: live_def)
        moreover from ch s have "slot_inv ?dv s" by (simp add: chain_inv_def)
        ultimately show False using eq k Some by (auto simp: slot_inv_def used_def)
      qed
    qed
    have uf: "used ?f" using k by (simp add: used_def)
    have g: "dddb_get same k (ca_db c) = Some (Some ob)" using disk_get [OF d, of k] Some by simp
    show ?thesis
    proof (cases "olds ?ch = []")
      case True
      let ?ch' = "?ch\<lparr>active := ?f # active ?ch\<rparr>"
      let ?c' = "bump (inc cs_objects_update) (set_chain k ?ch' ?c)"
      have "chain_inv ?n ?dv (hv c k) ?ch'"
        using ch none uf Some by (auto simp: chain_inv_def slot_inv_def hv_def image_iff)
      from cache_step [OF inv k, of ?c' ?ch'] this d inv have
        step: "cache_inv same ?c'" "\<And>j. view same ?c' j =
          (if hv c j = hv c k then look ?dv ?ch' j else view same c j)"
        by (simp_all add: cache_inv_def hv_def)
      have "view same ?c' j = view same c j" if j: "0 \<le> sint j" for j
      proof (cases "hv c j = hv c k")
        case True
        have "look ?dv ?ch' j = look ?dv ?ch j"
        proof (cases "j = k")
          case True
          with v Some show ?thesis by (simp add: look_def live_def view_def)
        next
          case False
          then show ?thesis by (simp add: look_def live_def)
        qed
        with True step(2) show ?thesis by (simp add: view_def)
      qed (use step(2) in simp)
      moreover have "cache_miss same works k c = Some (Some ob, ?c')"
        using g True by (simp add: cache_miss_def Let_def)
      ultimately show ?thesis using step(1) v Some by (intro exI [of _ ?c']) (simp add: same_view_eq)
    next
      case False
      let ?l = "last (olds ?ch)" and ?cut = "?ch\<lparr>olds := butlast (olds ?ch)\<rparr>"
      let ?cc = "set_chain k ?cut ?c"
      have "?l \<in> set (slots ?ch)" using False by simp
      with ch have "slot_inv (disk_view same (ca_db ?cc)) ?l" by (simp add: chain_inv_def)
      moreover have db: "ca_db ?cc = ca_db c" "ca_initted ?cc = ca_initted c"
        "ca_chains ?cc = (ca_chains c)[hv c k := ?cut]" by simp_all
      ultimately obtain c1 where
        w: "write_back works ?l ?cc = Some (False, c1)" "ca_initted c1 = ca_initted c"
          "ca_chains c1 = (ca_chains c)[hv c k := ?cut]" "disk_ok same (ca_db c1)"
          "\<And>j. used ?l \<and> j = sl_oid ?l \<or> disk_view same (ca_db c1) j = ?dv j"
          "used ?l \<Longrightarrow> rel_option sim (if sl_dead ?l then ?dv (sl_oid ?l) else sl_op ?l)
             (disk_view same (ca_db c1) (sl_oid ?l))"
        using write_back_spec [of same ?cc ?l] d unfolding db by blast
      let ?dv' = "disk_view same (ca_db c1)"
      let ?ch' = "\<lparr>active = ?f # active ?ch, olds = butlast (olds ?ch)\<rparr>"
      let ?c' = "set_chain k ?ch' c1"
      have lk: "sl_oid ?l \<noteq> k" using none False by simp
      have dk: "?dv' k = Some ob" using w(5) [of k] lk Some by auto
      have fi: "slot_inv ?dv' ?f" using uf dk by (simp add: slot_inv_def)
      have re: "chain_inv ?n ?dv' (hv c k) ?ch' \<and> rel_option sim (look ?dv ?ch j) (look ?dv' ?ch' j)"
        if "0 \<le> sint j" "j \<noteq> k" for j
        by (rule reuse_slot [OF ch False none k _ _ fi w(5,6) refl that]) (simp_all add: hv_def)
      obtain x :: i32 where x: "0 \<le> sint x" "x \<noteq> k"
      proof (cases "k = 0")
        case True
        then show ?thesis by (intro that [of 1]) simp_all
      next
        case False
        then show ?thesis by (intro that [of 0]) simp_all
      qed
      have lhv: "used ?l \<Longrightarrow> hv c (sl_oid ?l) = hv c k"
        using ch False by (auto simp: chain_inv_def hv_def)
      have hv1: "hv c1 k = hv c k" by (simp add: hv_def w(3))
      have "disk_view same (ca_db ?c') j = ?dv j" if "hv c j \<noteq> hv c k" for j
        using w(5) [of j] lhv that by auto
      from cache_step [OF inv k _ _ _ this, of ?ch'] re [OF x] w(2-4) inv hv1 have
        step: "cache_inv same ?c'" "\<And>j. view same ?c' j =
          (if hv c j = hv c k then look ?dv' ?ch' j else view same c j)"
        by (simp_all add: cache_inv_def)
      have "same_view same c ?c' j" if j: "0 \<le> sint j" for j
      proof (cases "hv c j = hv c k")
        case True
        show ?thesis
        proof (cases "j = k")
          case True
          have "look ?dv' ?ch' k = Some ob" by (simp add: look_def live_def)
          with True v Some step(2) show ?thesis by (simp add: same_view_eq)
        next
          case neq: False
          from re [OF j this] True step(2) show ?thesis by (simp add: same_view_def view_def)
        qed
      qed (simp add: step(2) same_view_eq)
      moreover have "cache_miss same works k c = Some (Some ob, ?c')"
        using g False w(1) by (simp add: cache_miss_def Let_def)
      ultimately show ?thesis using step(1) v Some by (intro exI [of _ ?c']) simp
    qed
  qed
qed

lemma cache_get_spec:
  assumes inv: "cache_inv same c" and k: "0 \<le> sint k"
  shows "\<exists>c'. cache_get same works k c = Some (view same c k, c') \<and> cache_inv same c' \<and>
    (\<forall>j. 0 \<le> sint j \<longrightarrow> same_view same c c' j)"
proof -
  let ?c = "bump (inc cs_reads_update) c" and ?ch = "chain_at c k"
  have i: "ca_initted c" "\<not> sint k < 0" using inv k by (simp_all add: cache_inv_def)
  have get: "cache_get same works k c =
      (case find (live k) (active ?ch) of
          Some s \<Rightarrow> Some (sl_op s, bump (inc cs_rhits_update \<circ> inc cs_ahits_update) ?c)
        | None \<Rightarrow>
            (case find (live k) (olds ?ch) of
               Some s \<Rightarrow> Some (sl_op s, bump (inc cs_rhits_update) (set_chain k
                 \<lparr>active = s # active ?ch, olds = remove_first (live k) (olds ?ch)\<rparr> ?c))
             | None \<Rightarrow> cache_miss same works k ?c))"
    using i unfolding cache_get_def Let_def by (simp cong: option.case_cong)
  have app: "find (live k) (slots ?ch) = (case find (live k) (active ?ch) of
      Some s \<Rightarrow> Some s | None \<Rightarrow> find (live k) (olds ?ch))"
    by (cases "find (live k) (active ?ch)") (simp_all add: find_append)
  show ?thesis
  proof (cases "find (live k) (active ?ch)")
    case (Some s)
    then have "view same c k = sl_op s" using app by (simp add: view_def look_def)
    with get Some inv show ?thesis by (simp add: same_view_eq)
  next
    case None
    show ?thesis
    proof (cases "find (live k) (olds ?ch)")
      case (Some s)
      let ?ch' = "\<lparr>active = s # active ?ch, olds = remove_first (live k) (olds ?ch)\<rparr>"
      let ?c' = "bump (inc cs_rhits_update) (set_chain k ?ch' ?c)"
      have m: "mset (slots ?ch') = mset (slots ?ch)"
        using mset_remove_first [OF Some] by simp
      have d: "disk_ok same (ca_db c)" using inv by (simp add: cache_inv_def)
      note ch = chain_at_inv [OF inv, of k]
      from cache_step [OF inv k, of ?c' ?ch'] chain_inv_mset [OF m] ch d i(1) have
        step: "cache_inv same ?c'" "\<And>j. view same ?c' j =
          (if hv c j = hv c k then look (disk_view same (ca_db c)) ?ch' j else view same c j)"
        by (simp_all add: hv_def)
      have "view same ?c' j = view same c j" if "0 \<le> sint j" for j
      proof (cases "hv c j = hv c k")
        case True
        with look_mset [OF ch m that] step(2) show ?thesis by (simp add: view_def)
      qed (use step(2) in simp)
      moreover have "view same c k = sl_op s" using app None Some by (simp add: view_def look_def)
      ultimately show ?thesis
        using get None Some step(1) by (intro exI [of _ ?c']) (simp add: same_view_eq)
    next
      case none: None
      have "\<forall>s\<in>set (slots (chain_at ?c k)). \<not> live k s"
        using None none unfolding find_live_iff by auto
      from cache_miss_spec [OF _ k this] inv show ?thesis
        using get None none by (simp add: same_view_def)
    qed
  qed
qed

text \<open>Storing: no slot of the object may be dead.\<close>

definition not_dead :: "cache \<Rightarrow> i32 \<Rightarrow> bool" where
  "not_dead c k \<longleftrightarrow> (\<forall>s\<in>set (slots (chain_at c k)). sl_oid s = k \<longrightarrow> \<not> sl_dead s)"

lemma replaced_slot:
  assumes ch: "chain_inv n dv i ch" and sl: "slots ch = xs @ s # ys" "slots ch' = xs @ s' # ys"
    and s: "sl_oid s = k" "0 \<le> sint k" "sl_oid s' = k" "slot_inv dv' s'"
    and dv: "\<And>j. j \<noteq> k \<Longrightarrow> dv' j = dv j"
  shows "chain_inv n dv' i ch' \<and> (\<forall>j. 0 \<le> sint j \<longrightarrow> look dv' ch' j =
    (if j = k then if sl_dead s' then dv' k else sl_op s' else look dv ch j))"
proof -
  have u: "used s" "used s'" using s by (simp_all add: used_def)
  have "distinct (map sl_oid (filter used (xs @ s # ys)))" using ch sl(1) by (simp add: chain_inv_def)
  then have d: "distinct (map sl_oid (filter used (xs @ s' # ys)))"
    and "k \<notin> set (map sl_oid (filter used (xs @ ys)))" using u s by auto
  then have other: "\<forall>t\<in>set (xs @ ys). used t \<longrightarrow> sl_oid t \<noteq> k" by auto
  have keep: "slot_inv dv' t" if t: "t \<in> set (xs @ ys)" for t
  proof -
    have "slot_inv dv' t = slot_inv dv t" using other t dv by (intro slot_inv_cong) auto
    moreover have "t \<in> set (slots ch)" using t sl(1) by auto
    ultimately show ?thesis using ch by (simp add: chain_inv_def)
  qed
  have oids: "\<forall>t\<in>set (slots ch). used t \<longrightarrow> nat (sint (sl_oid t) mod int n) = i"
    using ch by (simp add: chain_inv_def)
  have inv: "chain_inv n dv' i ch'"
    using d keep s oids u unfolding chain_inv_def sl by auto
  have "look dv' ch' j = (if j = k then if sl_dead s' then dv' k else sl_op s' else look dv ch j)"
    if j: "0 \<le> sint j" for j
  proof (cases "j = k")
    case True
    have "s' \<in> set (slots ch')" by (simp add: sl(2))
    with look_slot [OF inv this s(3,2)] True show ?thesis by simp
  next
    case False
    show ?thesis
    proof (cases "\<exists>t\<in>set (xs @ ys). sl_oid t = j")
      case True
      then obtain t where t: "t \<in> set (slots ch)" "t \<in> set (slots ch')" "sl_oid t = j"
        using sl by auto
      with look_slot [OF ch t(1,3) j] look_slot [OF inv t(2,3) j] False dv show ?thesis by simp
    next
      case none: False
      with False s sl have "look dv ch j = dv j" "look dv' ch' j = dv' j"
        by (auto intro!: look_none)
      with False dv show ?thesis by simp
    qed
  qed
  with inv show ?thesis by blast
qed

text \<open>A step that leaves the disk alone and changes one slot of the object, or adds one.\<close>

lemma step_same_disk:
  assumes inv: "cache_inv same c" and k: "0 \<le> sint k"
    and c': "ca_initted c' = ca_initted c" "ca_chains c' = (ca_chains c)[hv c k := ch]" "ca_db c' = ca_db c"
    and ch: "chain_inv (length (ca_chains c)) (disk_view same (ca_db c)) (hv c k) ch"
    and look: "\<And>j. 0 \<le> sint j \<Longrightarrow> j \<noteq> k \<Longrightarrow> look (disk_view same (ca_db c)) ch j =
      look (disk_view same (ca_db c)) (chain_at c k) j"
  shows "cache_inv same c' \<and> view same c' k = look (disk_view same (ca_db c)) ch k \<and>
    (\<forall>j. 0 \<le> sint j \<longrightarrow> j \<noteq> k \<longrightarrow> view same c' j = view same c j)"
proof -
  have d: "disk_ok same (ca_db c')" "ca_initted c'" using inv c' by (simp_all add: cache_inv_def)
  have step: "cache_inv same c'" "\<And>j. view same c' j =
      (if hv c j = hv c k then look (disk_view same (ca_db c)) ch j else view same c j)"
    using cache_step [OF inv k d(2) c'(2) d(1)] ch c'(3) by simp_all
  have "view same c' j = view same c j" if "0 \<le> sint j" "j \<noteq> k" for j
    using step(2) look [OF that] by (simp add: view_def)
  with step show ?thesis by simp
qed

lemma put_slot_inv: "object_inv ob \<Longrightarrow> object_storable ob \<Longrightarrow> used s \<Longrightarrow> \<not> sl_dead s \<Longrightarrow>
    slot_inv dv (put_slot ob s)"
  by (simp add: slot_inv_def put_slot_def used_def)

lemma put_slot_simps [simp]:
  "sl_oid (put_slot ob s) = sl_oid s" "sl_dead (put_slot ob s) = sl_dead s"
  "sl_op (put_slot ob s) = Some ob"
  by (simp_all add: put_slot_def)

lemma cache_put_spec:
  assumes inv: "cache_inv same c" and k: "0 \<le> sint k" and nd: "not_dead c k"
    and ob: "object_inv ob" "object_storable ob"
  shows "\<exists>c'. cache_put works ob k c = Some (False, c') \<and> cache_inv same c' \<and>
    view same c' k = Some ob \<and> (\<forall>j. 0 \<le> sint j \<longrightarrow> j \<noteq> k \<longrightarrow> same_view same c c' j)"
proof -
  let ?ch = "chain_at c k" and ?dv = "disk_view same (ca_db c)" and ?n = "length (ca_chains c)"
  let ?c = "bump (inc cs_writes_update) c" and ?here = "\<lambda>s. sl_oid s = k"
  let ?f = "\<lparr>sl_oid = k, sl_op = Some ob, sl_dirty = True, sl_dead = False\<rparr>"
  let ?hit = "\<lambda>s. if sl_dirty s then bump (inc cs_whits_update) else id"
  have d: "disk_ok same (ca_db c)" and i: "ca_initted c" "\<not> sint k < 0"
    using inv k by (simp_all add: cache_inv_def)
  note ch = chain_at_inv [OF inv, of k]
  have put: "cache_put works ob k c =
      (case find ?here (active ?ch) of
          Some s \<Rightarrow> Some (False, ?hit s
            (set_chain k (?ch\<lparr>active := update_first ?here (put_slot ob) (active ?ch)\<rparr>) ?c))
        | None \<Rightarrow>
            (case find ?here (olds ?ch) of
               Some s \<Rightarrow> Some (False, ?hit s
                 (set_chain k (?ch\<lparr>olds := update_first ?here (put_slot ob) (olds ?ch)\<rparr>) ?c))
             | None \<Rightarrow>
                 if olds ?ch = []
                 then Some (False, bump (inc cs_objects_update)
                   (set_chain k (?ch\<lparr>active := ?f # active ?ch\<rparr>) ?c))
                 else do {
                   (failed, c) \<leftarrow> write_back works (last (olds ?ch)) ?c;
                   if failed then Some (True, c)
                   else Some (False, set_chain k
                     \<lparr>active = ?f # active ?ch, olds = butlast (olds ?ch)\<rparr> c) }))"
    using i unfolding cache_put_def Let_def by (simp cong: option.case_cong if_cong)
  have hit: "\<exists>c'. Some (False, ?hit s (set_chain k ch' ?c)) = Some (False, c') \<and> cache_inv same c' \<and>
      view same c' k = Some ob \<and> (\<forall>j. 0 \<le> sint j \<longrightarrow> j \<noteq> k \<longrightarrow> same_view same c c' j)"
    if sl: "slots ?ch = xs @ s # ys" "slots ch' = xs @ put_slot ob s # ys" and s: "sl_oid s = k"
    for s xs ys ch'
  proof -
    have "\<not> sl_dead s" using nd s sl(1) by (auto simp: not_dead_def)
    moreover have "used s" using s k by (simp add: used_def)
    ultimately have r: "chain_inv ?n ?dv (hv c k) ch' \<and> (\<forall>j. 0 \<le> sint j \<longrightarrow> look ?dv ch' j =
        (if j = k then Some ob else look ?dv ?ch j))"
      using replaced_slot [OF ch sl s k, of ?dv] s put_slot_inv [OF ob] by simp
    let ?c' = "?hit s (set_chain k ch' ?c)"
    have "ca_initted ?c' = ca_initted c" "ca_chains ?c' = (ca_chains c)[hv c k := ch']" "ca_db ?c' = ca_db c"
      by simp_all
    from step_same_disk [OF inv k this] r k show ?thesis by (simp add: same_view_eq)
  qed
  show ?thesis
  proof (cases "find ?here (active ?ch)")
    case (Some s)
    from update_first_split [OF Some, of "put_slot ob"] obtain xs ys where
      "active ?ch = xs @ s # ys" "update_first ?here (put_slot ob) (active ?ch) = xs @ put_slot ob s # ys" .
    with hit [of xs s "ys @ olds ?ch" "?ch\<lparr>active := update_first ?here (put_slot ob) (active ?ch)\<rparr>"]
      find_SomeD [OF Some] show ?thesis unfolding put Some by simp
  next
    case None
    show ?thesis
    proof (cases "find ?here (olds ?ch)")
      case (Some s)
      from update_first_split [OF Some, of "put_slot ob"] obtain xs ys where
        "olds ?ch = xs @ s # ys" "update_first ?here (put_slot ob) (olds ?ch) = xs @ put_slot ob s # ys" .
      with hit [of "active ?ch @ xs" s ys "?ch\<lparr>olds := update_first ?here (put_slot ob) (olds ?ch)\<rparr>"]
        find_SomeD [OF Some] show ?thesis unfolding put None Some by simp
    next
      case none: None
      have fresh: "\<forall>s\<in>set (slots ?ch). sl_oid s \<noteq> k"
        using None none by (auto simp: find_None_iff)
      have uf: "used ?f" using k by (simp add: used_def)
      have fi: "slot_inv dv ?f" for dv using uf ob by (simp add: slot_inv_def)
      show ?thesis
      proof (cases "olds ?ch = []")
        case True
        let ?ch' = "?ch\<lparr>active := ?f # active ?ch\<rparr>"
        let ?c' = "bump (inc cs_objects_update) (set_chain k ?ch' ?c)"
        have a: "ca_initted ?c' = ca_initted c" "ca_chains ?c' = (ca_chains c)[hv c k := ?ch']"
          "ca_db ?c' = ca_db c" by simp_all
        have b: "chain_inv ?n ?dv (hv c k) ?ch'"
          using ch fresh uf fi by (auto simp: chain_inv_def hv_def image_iff)
        have l: "look ?dv ?ch' j = look ?dv ?ch j" if "j \<noteq> k" for j
          using that by (simp add: look_def live_def)
        have "look ?dv ?ch' k = Some ob" by (simp add: look_def live_def)
        with step_same_disk [OF inv k a b] l have "cache_inv same ?c' \<and> view same ?c' k = Some ob \<and>
          (\<forall>j. 0 \<le> sint j \<longrightarrow> j \<noteq> k \<longrightarrow> view same ?c' j = view same c j)" by simp
        then show ?thesis unfolding put None none using True
          by (intro exI [of _ ?c']) (simp add: same_view_eq)
      next
        case False
        let ?l = "last (olds ?ch)"
        have "?l \<in> set (slots ?ch)" using False by simp
        with ch have "slot_inv (disk_view same (ca_db ?c)) ?l" by (simp add: chain_inv_def)
        moreover have db: "ca_db ?c = ca_db c" "ca_initted ?c = ca_initted c" "ca_chains ?c = ca_chains c"
          by simp_all
        ultimately obtain cc where
          w: "write_back works ?l ?c = Some (False, cc)" "ca_initted cc = ca_initted c"
            "ca_chains cc = ca_chains c" "disk_ok same (ca_db cc)"
            "\<And>j. used ?l \<and> j = sl_oid ?l \<or> disk_view same (ca_db cc) j = ?dv j"
            "used ?l \<Longrightarrow> rel_option sim (if sl_dead ?l then ?dv (sl_oid ?l) else sl_op ?l)
               (disk_view same (ca_db cc) (sl_oid ?l))"
          using write_back_spec [of same ?c ?l] d unfolding db by blast
        let ?dv' = "disk_view same (ca_db cc)"
        let ?ch' = "\<lparr>active = ?f # active ?ch, olds = butlast (olds ?ch)\<rparr>"
        let ?c' = "set_chain k ?ch' cc"
        have re: "chain_inv ?n ?dv' (hv c k) ?ch' \<and> rel_option sim (look ?dv ?ch j) (look ?dv' ?ch' j)"
          if "0 \<le> sint j" "j \<noteq> k" for j
          by (rule reuse_slot [OF ch False fresh k _ _ fi w(5,6) refl that]) (simp_all add: hv_def)
        obtain x :: i32 where x: "0 \<le> sint x" "x \<noteq> k"
          by (cases "k = 0") (auto intro: that [of 1] that [of 0])
        have lhv: "used ?l \<Longrightarrow> hv c (sl_oid ?l) = hv c k"
          using ch False by (auto simp: chain_inv_def hv_def)
        have hv1: "hv cc k = hv c k" by (simp add: hv_def w(3))
        have dv: "disk_view same (ca_db ?c') j = ?dv j" if "hv c j \<noteq> hv c k" for j
          using w(5) [of j] lhv that by auto
        from cache_step [OF inv k _ _ _ dv, of ?ch'] re [OF x] w(2-4) inv hv1 have
          step: "cache_inv same ?c'" "\<And>j. view same ?c' j =
            (if hv c j = hv c k then look ?dv' ?ch' j else view same c j)"
          by (simp_all add: cache_inv_def)
        have "same_view same c ?c' j" if j: "0 \<le> sint j" "j \<noteq> k" for j
        proof (cases "hv c j = hv c k")
          case True
          from re [OF j] True step(2) show ?thesis by (simp add: same_view_def view_def)
        qed (simp add: step(2) same_view_eq)
        moreover have "view same ?c' k = Some ob" using step(2) by (simp add: look_def live_def)
        ultimately show ?thesis unfolding put None none
          using False w(1) step(1) by (intro exI [of _ ?c']) simp
      qed
    qed
  qed
qed

subsection \<open>Deleting, checking, resetting\<close>

lemma cache_del_spec:
  assumes inv: "cache_inv same c" and k: "0 \<le> sint k"
  shows "\<exists>c'. cache_del (\<lambda>_. True) k c = (0, c') \<and> cache_inv same c' \<and> view same c' k = None \<and>
    (\<forall>j. 0 \<le> sint j \<longrightarrow> j \<noteq> k \<longrightarrow> view same c' j = view same c j)"
proof -
  let ?ch = "chain_at c k" and ?dv = "disk_view same (ca_db c)" and ?n = "length (ca_chains c)"
  let ?here = "\<lambda>s. sl_oid s = k"
  let ?ch' = "\<lparr>active = update_first ?here kill_slot (active ?ch),
    olds = update_first ?here kill_slot (olds ?ch)\<rparr>"
  note ch = chain_at_inv [OF inv, of k]
  have "disk_ok same (ca_db c)" using inv by (simp add: cache_inv_def)
  from disk_del [OF this, of k] obtain d' where d': "dddb_del True k (ca_db c) = (0, d')"
    "disk_ok same d'" "disk_view same d' = ?dv(k := None)" by blast
  let ?c' = "(set_chain k ?ch' (bump (inc cs_dels_update) c))\<lparr>ca_db := d'\<rparr>"
  have del: "cache_del (\<lambda>_. True) k c = (0, ?c')"
    using inv k d'(1) by (simp add: cache_del_def cache_inv_def Let_def)
  have kill: "chain_inv ?n (?dv(k := None)) (hv c k) ch' \<and> (\<forall>j. 0 \<le> sint j \<longrightarrow>
      look (?dv(k := None)) ch' j = (if j = k then None else look ?dv ?ch j))"
    if sl: "slots ?ch = xs @ s # ys" "slots ch' = xs @ kill_slot s # ys" and s: "sl_oid s = k" for xs s ys ch'
  proof -
    have "slot_inv ?dv s" using ch sl(1) by (simp add: chain_inv_def)
    then have "slot_inv (?dv(k := None)) (kill_slot s)"
      using s k by (auto simp: slot_inv_def kill_slot_def used_def)
    with replaced_slot [OF ch sl s k, of "?dv(k := None)"] s show ?thesis by (simp add: kill_slot_def)
  qed
  have "chain_inv ?n (?dv(k := None)) (hv c k) ?ch' \<and> (\<forall>j. 0 \<le> sint j \<longrightarrow>
      look (?dv(k := None)) ?ch' j = (if j = k then None else look ?dv ?ch j))"
  proof (cases "find ?here (active ?ch)")
    case (Some s)
    from update_first_split [OF Some, of kill_slot] obtain xs ys where
      xs: "active ?ch = xs @ s # ys" "update_first ?here kill_slot (active ?ch) = xs @ kill_slot s # ys" .
    have s: "sl_oid s = k" using find_SomeD [OF Some] by simp
    have "k \<notin> set (map sl_oid (filter used (olds ?ch)))"
      using ch s k xs(1) by (auto simp: chain_inv_def used_def)
    then have "\<forall>t\<in>set (olds ?ch). sl_oid t \<noteq> k" using k by (auto simp: used_def)
    then have "find ?here (olds ?ch) = None" by (auto simp: find_None_iff)
    with kill [of xs s "ys @ olds ?ch" ?ch'] xs s show ?thesis by (simp add: update_first_none)
  next
    case None
    show ?thesis
    proof (cases "find ?here (olds ?ch)")
      case (Some s)
      from update_first_split [OF Some, of kill_slot] obtain xs ys where
        "olds ?ch = xs @ s # ys" "update_first ?here kill_slot (olds ?ch) = xs @ kill_slot s # ys" .
      with kill [of "active ?ch @ xs" s ys ?ch'] find_SomeD [OF Some] None show ?thesis
        by (simp add: update_first_none)
    next
      case none: None
      have no: "\<forall>s\<in>set (slots ?ch). sl_oid s \<noteq> k" using None none by (auto simp: find_None_iff)
      have eq: "?ch' = ?ch" using None none by (simp add: update_first_none)
      have "slot_inv (?dv(k := None)) s = slot_inv ?dv s" if "s \<in> set (slots ?ch)" for s
        using no that by (intro slot_inv_cong) auto
      then have "chain_inv ?n (?dv(k := None)) (hv c k) ?ch" using ch by (simp add: chain_inv_def)
      moreover have "look (?dv(k := None)) ?ch j = (if j = k then None else look ?dv ?ch j)" for j
        by (cases "j = k") (simp_all add: look_none [OF no], simp add: look_def split: option.split)
      ultimately show ?thesis unfolding eq by blast
    qed
  qed
  then have r: "chain_inv ?n (?dv(k := None)) (hv c k) ?ch'"
    "\<And>j. 0 \<le> sint j \<Longrightarrow> look (?dv(k := None)) ?ch' j = (if j = k then None else look ?dv ?ch j)"
    by blast+
  have i: "ca_initted ?c'" "ca_chains ?c' = (ca_chains c)[hv c k := ?ch']" "disk_ok same (ca_db ?c')"
    using inv d'(2) by (simp_all add: cache_inv_def)
  have dv: "disk_view same (ca_db ?c') j = ?dv j" if "hv c j \<noteq> hv c k" for j
    using that by (auto simp: d'(3))
  have "chain_inv ?n (disk_view same (ca_db ?c')) (hv c k) ?ch'" using r(1) by (simp add: d'(3))
  from cache_step [OF inv k i dv this] have step: "cache_inv same ?c'" "\<And>j. view same ?c' j =
      (if hv c j = hv c k then look (disk_view same (ca_db ?c')) ?ch' j else view same c j)" by blast+
  have "view same ?c' j = (if j = k then None else view same c j)" if "0 \<le> sint j" for j
    using step(2) [of j] r(2) [OF that] by (auto simp: d'(3) view_def)
  with del step(1) k show ?thesis by (intro exI [of _ ?c']) simp
qed

lemma cache_check_spec:
  assumes inv: "cache_inv same c" and k: "0 \<le> sint k"
  shows "fst (cache_check k c) \<longleftrightarrow> view same c k \<noteq> None"
    and "view same (snd (cache_check k c)) = view same c" "cache_inv same (snd (cache_check k c))"
proof -
  let ?ch = "chain_at c k"
  note ch = chain_at_inv [OF inv, of k]
  have d: "disk_ok same (ca_db c)" and i: "ca_initted c" using inv by (simp_all add: cache_inv_def)
  have "fst (cache_check k c) \<longleftrightarrow> (\<exists>s\<in>set (slots ?ch). live k s) \<or> disk_view same (ca_db c) k \<noteq> None"
    using i k disk_check [OF d, of k] by (auto simp: cache_check_def live_def Let_def)
  also have "\<dots> \<longleftrightarrow> view same c k \<noteq> None"
  proof (cases "find (live k) (slots ?ch)")
    case None
    then have "\<forall>s\<in>set (slots ?ch). \<not> live k s" unfolding find_live_iff .
    with None show ?thesis by (auto simp: view_def look_def)
  next
    case (Some s)
    from find_SomeD [OF Some] have s: "s \<in> set (slots ?ch)" "live k s" by blast+
    then have "slot_inv (disk_view same (ca_db c)) s" "used s"
      using ch k by (simp_all add: chain_inv_def live_def used_def)
    with s Some show ?thesis by (auto simp: view_def look_def slot_inv_def)
  qed
  finally show "fst (cache_check k c) \<longleftrightarrow> view same c k \<noteq> None" .
  show "view same (snd (cache_check k c)) = view same c" "cache_inv same (snd (cache_check k c))"
    using inv by (simp_all add: cache_check_def Let_def)
qed

lemma cache_reset_spec:
  assumes inv: "cache_inv same c"
  shows "cache_inv same (cache_reset c) \<and> (\<forall>j. 0 \<le> sint j \<longrightarrow> view same (cache_reset c) j = view same c j)"
proof -
  let ?chs = "map reset_chain (ca_chains c)" and ?dv = "disk_view same (ca_db c)" and ?n = "length (ca_chains c)"
  have m: "mset (slots (reset_chain ch)) = mset (slots ch)" for ch by (simp add: reset_chain_def)
  have i: "ca_initted c" using inv by (simp add: cache_inv_def)
  have "chain_inv ?n ?dv i (?chs ! i)" if "i < ?n" for i
    using inv that chain_inv_mset [OF m] by (simp add: cache_inv_def)
  then have "cache_inv same (c\<lparr>ca_chains := ?chs\<rparr>)" using inv by (simp add: cache_inv_def)
  moreover have "view same (c\<lparr>ca_chains := ?chs\<rparr>) j = view same c j" if j: "0 \<le> sint j" for j
  proof -
    have "hv c j < ?n" using inv by (simp add: cache_inv_def hv_def nat_less_iff)
    with look_mset [OF chain_at_inv [OF inv, of j] m j] show ?thesis by (simp add: view_def hv_def)
  qed
  ultimately show ?thesis using i by (simp add: cache_reset_def)
qed

subsection \<open>Writing everything back\<close>

definition clean :: "slot \<Rightarrow> slot" where
  "clean s = s\<lparr>sl_dirty := False\<rparr>"

lemma clean_simps [simp]:
  "sl_oid (clean s) = sl_oid s" "sl_op (clean s) = sl_op s" "sl_dead (clean s) = sl_dead s"
  "used (clean s) = used s" "live k (clean s) = live k s" "\<not> sl_dirty (clean s)"
  by (simp_all add: clean_def used_def live_def)

lemma clean_id: "\<not> sl_dirty s \<Longrightarrow> clean s = s"
  by (simp add: clean_def)

text \<open>What writing the dirty ones of these slots does to the disk.\<close>

definition synced :: "slot list \<Rightarrow> (i32 \<Rightarrow> object option) \<Rightarrow> (i32 \<Rightarrow> object option) \<Rightarrow> bool" where
  "synced ss dv dv' \<longleftrightarrow>
     (\<forall>j. (\<forall>s\<in>set ss. sl_dirty s \<longrightarrow> sl_oid s \<noteq> j) \<longrightarrow> dv' j = dv j) \<and>
     (\<forall>s\<in>set ss. sl_dirty s \<longrightarrow> (\<exists>ob ob'. sl_op s = Some ob \<and> dv' (sl_oid s) = Some ob' \<and> sim ob ob'))"

definition writable :: "slot list \<Rightarrow> bool" where
  "writable ss \<longleftrightarrow> (\<forall>s\<in>set ss. sl_dirty s \<longrightarrow>
     (\<exists>ob. sl_op s = Some ob \<and> object_inv ob \<and> object_storable ob))"

text \<open>No number has two dirty slots with different objects.\<close>

definition agree :: "slot list \<Rightarrow> bool" where
  "agree ss \<longleftrightarrow> (\<forall>s\<in>set ss. \<forall>t\<in>set ss. sl_dirty s \<longrightarrow> sl_dirty t \<longrightarrow> sl_oid s = sl_oid t \<longrightarrow>
     sl_op s = sl_op t)"

lemma synced_append:
  assumes "synced a dv dv1" "synced b dv1 dv2" "agree (a @ b)"
  shows "synced (a @ b) dv dv2"
proof -
  have "dv2 j = dv j" if "\<forall>s\<in>set (a @ b). sl_dirty s \<longrightarrow> sl_oid s \<noteq> j" for j
    using assms(1,2) that unfolding synced_def by simp
  moreover have "\<exists>ob ob'. sl_op s = Some ob \<and> dv2 (sl_oid s) = Some ob' \<and> sim ob ob'"
    if s: "s \<in> set (a @ b)" "sl_dirty s" for s
  proof (cases "\<exists>t\<in>set b. sl_dirty t \<and> sl_oid t = sl_oid s")
    case True
    then obtain t where t: "t \<in> set b" "sl_dirty t" "sl_oid t = sl_oid s" by blast
    have "t \<in> set (a @ b)" using t(1) by simp
    with assms(3) s t(2,3) have "sl_op t = sl_op s" unfolding agree_def by blast
    moreover have "\<exists>ob ob'. sl_op t = Some ob \<and> dv2 (sl_oid t) = Some ob' \<and> sim ob ob'"
      using assms(2) t unfolding synced_def by blast
    ultimately show ?thesis using t(3) by simp
  next
    case False
    then have "dv2 (sl_oid s) = dv1 (sl_oid s)" using assms(2) unfolding synced_def by blast
    moreover have "s \<in> set a" using False s by auto
    ultimately show ?thesis using assms(1) s(2) unfolding synced_def by simp
  qed
  ultimately show ?thesis unfolding synced_def by blast
qed

lemma agree_append: "agree (a @ b) \<Longrightarrow> agree a \<and> agree b"
  by (auto simp: agree_def)

lemma writable_append [simp]: "writable (a @ b) \<longleftrightarrow> writable a \<and> writable b"
  by (auto simp: writable_def)

definition same_but_db :: "cache \<Rightarrow> cache \<Rightarrow> bool" where
  "same_but_db c c' \<longleftrightarrow> ca_initted c' = ca_initted c \<and> ca_chains c' = ca_chains c"

lemma sync_slots_spec:
  assumes "disk_ok same (ca_db c)" "writable ss" "agree ss"
  shows "\<exists>c'. sync_slots works ss c = Some (False, map clean ss, c') \<and> same_but_db c c' \<and>
    disk_ok same (ca_db c') \<and> synced ss (disk_view same (ca_db c)) (disk_view same (ca_db c'))"
  using assms
proof (induction ss arbitrary: c)
  case (Cons s ss)
  have sub: "writable ss" "agree ss" using Cons.prems(2,3) agree_append [of "[s]" ss]
    by (auto simp: writable_def)
  show ?case
  proof (cases "sl_dirty s")
    case False
    from Cons.IH [OF Cons.prems(1) sub] obtain c' where
      "sync_slots works ss c = Some (False, map clean ss, c')" "same_but_db c c'" "disk_ok same (ca_db c')"
      "synced ss (disk_view same (ca_db c)) (disk_view same (ca_db c'))" by blast
    with False show ?thesis by (intro exI [of _ c']) (simp add: clean_id synced_def)
  next
    case True
    with Cons.prems(2) obtain ob where ob: "sl_op s = Some ob" "object_inv ob" "object_storable ob"
      by (auto simp: writable_def)
    from disk_put [OF Cons.prems(1) ob(2,3), of "sl_oid s"] obtain d' ob' where
      d': "dddb_put (True, True) ob (sl_oid s) (ca_db c) = Some (False, d')" "disk_ok same d'"
        "disk_view same d' = (disk_view same (ca_db c))(sl_oid s \<mapsto> ob')" "same_object ob ob'" by blast
    let ?c = "bump (inc cs_dbwrites_update) (c\<lparr>ca_db := d'\<rparr>)"
    have "disk_ok same (ca_db ?c)" using d'(2) by simp
    from Cons.IH [OF this sub] obtain c' where
      c': "sync_slots works ss ?c = Some (False, map clean ss, c')" "same_but_db ?c c'" "disk_ok same (ca_db c')"
      "synced ss (disk_view same d') (disk_view same (ca_db c'))" by auto
    have "sim ob ob'" using d'(4) by blast
    then have "synced [s] (disk_view same (ca_db c)) (disk_view same d')"
      using ob(1) True by (auto simp: synced_def d'(3))
    from synced_append [OF this c'(4)] Cons.prems(3) have
      "synced (s # ss) (disk_view same (ca_db c)) (disk_view same (ca_db c'))" by simp
    with True ob(1) d'(1) c' show ?thesis
      by (intro exI [of _ c']) (simp add: clean_def same_but_db_def)
  qed
qed (simp_all add: same_but_db_def synced_def)

definition clean_chain :: "chain \<Rightarrow> chain" where
  "clean_chain ch = \<lparr>active = map clean (active ch), olds = map clean (olds ch)\<rparr>"

lemma slots_clean [simp]: "slots (clean_chain ch) = map clean (slots ch)"
  by (simp add: clean_chain_def)

lemma sync_chains_spec:
  assumes "disk_ok same (ca_db c)" "writable (concat (map slots chs))" "agree (concat (map slots chs))"
  shows "\<exists>c'. sync_chains works chs c = Some (False, map clean_chain chs, c') \<and> same_but_db c c' \<and>
    disk_ok same (ca_db c') \<and>
    synced (concat (map slots chs)) (disk_view same (ca_db c)) (disk_view same (ca_db c'))"
  using assms
proof (induction chs arbitrary: c)
  case (Cons ch chs)
  let ?r = "concat (map slots chs)"
  have w: "writable (active ch)" "writable (olds ch)" "writable ?r" using Cons.prems(2) by simp_all
  have all: "agree (slots ch @ ?r)" using Cons.prems(3) by simp
  have ag: "agree (slots ch)" "agree ?r" using agree_append [OF all] by blast+
  then have ag2: "agree (active ch)" "agree (olds ch)" using agree_append by blast+
  from sync_slots_spec [OF Cons.prems(1) w(1) ag2(1)] obtain c1 where
    c1: "sync_slots works (active ch) c = Some (False, map clean (active ch), c1)" "same_but_db c c1"
      "disk_ok same (ca_db c1)" "synced (active ch) (disk_view same (ca_db c)) (disk_view same (ca_db c1))"
    by blast
  from sync_slots_spec [OF c1(3) w(2) ag2(2)] obtain c2 where
    c2: "sync_slots works (olds ch) c1 = Some (False, map clean (olds ch), c2)" "same_but_db c1 c2"
      "disk_ok same (ca_db c2)" "synced (olds ch) (disk_view same (ca_db c1)) (disk_view same (ca_db c2))"
    by blast
  from Cons.IH [OF c2(3) w(3) ag(2)] obtain c3 where
    c3: "sync_chains works chs c2 = Some (False, map clean_chain chs, c3)" "same_but_db c2 c3"
      "disk_ok same (ca_db c3)" "synced ?r (disk_view same (ca_db c2)) (disk_view same (ca_db c3))"
    by blast
  from synced_append [OF synced_append [OF c1(4) c2(4) ag(1)] c3(4) all]
  show ?case using c1 c2 c3 by (intro exI [of _ c3]) (simp add: clean_chain_def same_but_db_def)
qed (simp_all add: same_but_db_def synced_def)

lemma cache_sync_spec:
  assumes inv: "cache_inv same c"
  shows "\<exists>c'. cache_sync works c = Some (False, c') \<and> cache_inv same c' \<and>
    (\<forall>j. 0 \<le> sint j \<longrightarrow> view same c' j = view same c j \<and>
       rel_option sim (view same c j) (disk_view same (ca_db c') j))"
proof -
  let ?L = "concat (map slots (ca_chains c))" and ?n = "length (ca_chains c)"
    and ?dv = "disk_view same (ca_db c)"
  let ?c = "bump (inc cs_syncs_update) c"
  have d: "disk_ok same (ca_db c)" and i: "ca_initted c" using inv by (simp_all add: cache_inv_def)
  have chain: "\<exists>i<?n. s \<in> set (slots (ca_chains c ! i)) \<and> chain_inv ?n ?dv i (ca_chains c ! i)"
    if "s \<in> set ?L" for s
  proof -
    from that obtain ch where "ch \<in> set (ca_chains c)" "s \<in> set (slots ch)" by auto
    then obtain i where "i < ?n" "s \<in> set (slots (ca_chains c ! i))" by (metis in_set_conv_nth)
    with inv show ?thesis unfolding cache_inv_def by blast
  qed
  have si: "slot_inv ?dv s" if "s \<in> set ?L" for s using chain [OF that] by (auto simp: chain_inv_def)
  have used: "used s" if "s \<in> set ?L" "sl_dirty s" for s
    using si [OF that(1)] that(2) by (auto simp: slot_inv_def split: if_splits)
  have live: "\<not> sl_dead s" if "s \<in> set ?L" "sl_dirty s" for s
    using si [OF that(1)] that(2) by (auto simp: slot_inv_def split: if_splits)
  have "\<exists>ob. sl_op s = Some ob \<and> object_inv ob \<and> object_storable ob" if "s \<in> set ?L" "sl_dirty s" for s
    using si [OF that(1)] used [OF that] live [OF that] that(2) by (auto simp: slot_inv_def)
  then have "writable ?L" unfolding writable_def by blast
  moreover have uniq: "s = t" if st: "s \<in> set ?L" "t \<in> set ?L" "used s" "sl_oid s = sl_oid t" for s t
  proof -
    from chain [OF st(1)] chain [OF st(2)] obtain i j where
      ij: "s \<in> set (slots (ca_chains c ! i))" "chain_inv ?n ?dv i (ca_chains c ! i)"
        "t \<in> set (slots (ca_chains c ! j))" "chain_inv ?n ?dv j (ca_chains c ! j)" by blast
    moreover have "used t" using st(3,4) by (simp add: used_def)
    ultimately have "i = j" using st(3,4) by (auto simp: chain_inv_def)
    with ij distinct_used [OF _ ij(1) _ st(3,4)] show ?thesis by (simp add: chain_inv_def)
  qed
  then have "agree ?L" unfolding agree_def using used by blast
  ultimately obtain c1 where c1: "sync_chains works (ca_chains c) ?c = Some (False, map clean_chain (ca_chains c), c1)"
    "same_but_db ?c c1" "disk_ok same (ca_db c1)" "synced ?L ?dv (disk_view same (ca_db c1))"
    using sync_chains_spec [of same ?c "ca_chains c"] d by auto
  let ?dv' = "disk_view same (ca_db c1)" and ?c' = "c1\<lparr>ca_chains := map clean_chain (ca_chains c)\<rparr>"
  have keep: "?dv' j = ?dv j" if "\<forall>s\<in>set ?L. sl_dirty s \<longrightarrow> sl_oid s \<noteq> j" for j
    using c1(4) that unfolding synced_def by blast
  have slot': "slot_inv ?dv' (clean s)" if s: "s \<in> set ?L" for s
  proof (cases "sl_dirty s")
    case True
    with c1(4) s obtain ob ob' where "sl_op s = Some ob" "?dv' (sl_oid s) = Some ob'" "sim ob ob'"
      unfolding synced_def by blast
    with used [OF s True] live [OF s True] show ?thesis by (simp add: slot_inv_def)
  next
    case False
    have "slot_inv ?dv' s = slot_inv ?dv s"
    proof (rule slot_inv_cong, rule impI, rule keep, intro ballI impI)
      fix t assume "used s" "t \<in> set ?L" "sl_dirty t"
      with uniq [OF s, of t] False show "sl_oid t \<noteq> sl_oid s" by auto
    qed
    with si [OF s] False show ?thesis by (simp add: clean_id)
  qed
  have "chain_inv ?n ?dv' i (clean_chain (ca_chains c ! i))" if i: "i < ?n" for i
  proof -
    have ch: "chain_inv ?n ?dv i (ca_chains c ! i)" using inv i by (simp add: cache_inv_def)
    have "map sl_oid (filter used (map clean l)) = map sl_oid (filter used l)" for l
      by (induction l) auto
    moreover have "s \<in> set ?L" if "s \<in> set (slots (ca_chains c ! i))" for s using that i by force
    ultimately show ?thesis using ch slot' unfolding chain_inv_def by auto
  qed
  with c1(3) inv c1(2) have inv': "cache_inv same ?c'" by (simp add: cache_inv_def same_but_db_def)
  have sync: "cache_sync works c = Some (False, ?c')" using c1(1) i by (simp add: cache_sync_def)
  have "view same ?c' j = view same c j \<and> rel_option sim (view same c j) (?dv' j)" if j: "0 \<le> sint j" for j
  proof -
    have h: "hv c j < ?n" using inv by (simp add: cache_inv_def hv_def nat_less_iff)
    have fc: "find (live j) (map clean l) = map_option clean (find (live j) l)" for l
      by (induction l) auto
    have v': "view same ?c' j = look ?dv' (clean_chain (chain_at c j)) j"
      using h by (simp add: view_def hv_def)
    show ?thesis
    proof (cases "find (live j) (slots (chain_at c j))")
      case None
      have "sl_oid s \<noteq> j" if s: "s \<in> set ?L" "sl_dirty s" for s
      proof
        assume eq: "sl_oid s = j"
        from chain [OF s(1)] obtain i where "s \<in> set (slots (ca_chains c ! i))" "i = hv c j"
          using used [OF s] eq by (auto simp: chain_inv_def hv_def)
        with None live [OF s] eq show False unfolding find_live_iff by (auto simp: live_def)
      qed
      then have "?dv' j = ?dv j" by (intro keep) blast
      with None v' show ?thesis
        unfolding look_def view_def slots_clean fc by (simp add: option.rel_refl)
    next
      case (Some s)
      from find_SomeD [OF Some] have s: "s \<in> set (slots (chain_at c j))" "live j s" by blast+
      have L: "s \<in> set ?L" using s(1) h by force
      have u: "used s" using s(2) j by (simp add: used_def live_def)
      from Some have vs: "view same c j = sl_op s" "view same ?c' j = sl_op s"
        using v' unfolding look_def view_def slots_clean fc by simp_all
      from slot' [OF L] u s(2) have "rel_option sim (sl_op s) (?dv' j)"
        by (auto simp: slot_inv_def live_def)
      with vs show ?thesis by simp
    qed
  qed
  with sync inv' show ?thesis by (intro exI [of _ ?c']) simp
qed

end
