(* ===== verification/DiskSpecs.thy ===== *)
theory DiskSpecs
  imports Cache Demo
begin

text \<open>
  The properties of the storage layers: an object survives the file, the chunk store keeps
  objects apart, the cache shows one map of objects, and a restart after \<open>cache_sync\<close> finds
  them again; and where the layers fail.
\<close>

section \<open>Objects in the file\<close>

definition mname :: "object \<Rightarrow> cmethod \<Rightarrow> string" where
  "mname ob m = lower (the (sym_str ob (m_name m)))"

lemma method_in_find:
  "\<forall>m\<in>set l. \<exists>s. sym_str ob (m_name m) = Some s \<and> nul_free s \<Longrightarrow> nul_free name \<Longrightarrow>
     method_in ob name l = Some (find (\<lambda>m. mname ob m = lower name) l)"
  by (induction l) (auto simp: mname_def strcasecmp_zero_iff)

lemma find_distinct: "distinct (map f l) \<Longrightarrow> x \<in> set l \<Longrightarrow> find (\<lambda>y. f y = f x) l = Some x"
  by (induction l) (auto simp: image_iff)

lemma distinct_bucket: "distinct (map f (concat t)) \<Longrightarrow> i < length t \<Longrightarrow> distinct (map f (t ! i))"
  by (induction t arbitrary: i) (auto simp: nth_Cons split: nat.splits)

lemma find_own_method:
  assumes wf: "methods_wf ob h" "o_methods ob = Some h"
    and d: "distinct (map (mname ob) (hentries h))" and m: "m \<in> set (hentries h)"
  shows "\<exists>s. sym_str ob (m_name m) = Some s \<and> find_method ob s = Some (Some m)"
proof -
  obtain i where i: "i < hsize h" "m \<in> set (htable h ! i)" using concat_bucket [OF m] by blast
  with wf obtain s where s: "sym_str ob (m_name m) = Some s" "nul_free s"
    "hash_index (hash s) (hsize h) = Some i" by (auto simp: methods_wf_def)
  have "method_in ob s (htable h ! i) = Some (find (\<lambda>m. mname ob m = lower s) (htable h ! i))"
    using wf(1) i s(2) by (intro method_in_find) (auto simp: methods_wf_def)
  also have "find (\<lambda>m. mname ob m = lower s) (htable h ! i) = Some m"
    using find_distinct [OF distinct_bucket [OF d i(1)] i(2)] s(1) by (simp add: mname_def)
  finally show ?thesis using wf(2) s by (simp add: find_method_def)
qed

lemma gfind_member:
  assumes "distinct (map (vname ob) b)" "v \<in> set b" "vname ob v = lower s"
  shows "gfind ob s b = Some (vd_value v)"
  using find_distinct [OF assms(1,2)] assms(3) by (simp add: gfind_def)

lemma own_variable:
  assumes inv: "object_inv ob" and h: "o_vars ob = Some h" and v: "v \<in> set (hentries h)"
  shows "\<exists>s. sym_str ob (vd_name v) = Some s \<and> own_global ob s = Some (Some (vd_value v))"
proof -
  have wf: "vars_wf ob" using inv by (simp add: object_inv_def)
  obtain i where i: "i < hsize h" "v \<in> set (htable h ! i)" using concat_bucket [OF v] by blast
  from vars_bucket [OF wf h i(1)] i(2) obtain s where
    s: "sym_str ob (vd_name v) = Some s" "nul_free s" "hash_index (hash s) (hsize h) = Some i"
    "distinct (map (vname ob) (htable h ! i))" by (fastforce simp: bucket_ok_def named_def)
  from own_global_gfind [OF wf h s(2)] s(3) have "own_global ob s = Some (gfind ob s (htable h ! i))" by auto
  with gfind_member [OF s(4) i(2)] s(1) show ?thesis by (simp add: vname_def)
qed

text \<open>
  C6: an object is what it was after the file: it is written with as many bytes as were counted
  for it and read back whatever follows, with its number, parents, symbols, verbs and locks, the
  same methods, and variables of the same values; it is sound again, and every variable is found
  under its name, and every method when no two names differ only in case.
\<close>

theorem object_round_trip:
  assumes "object_inv ob" "object_storable ob"
  shows "\<exists>p ob'. pack_object ob = Some p \<and> length p = size_object ob \<and>
    (\<forall>rest. unpack_object same (p @ rest) = Some (ob', rest)) \<and> same_object ob ob' \<and> object_inv ob' \<and>
    (\<forall>v\<in>set (entries (o_vars ob)). \<exists>s x. sym_str ob' (vd_name v) = Some s \<and>
       own_global ob' s = Some (Some x) \<and> same_value (vd_value v) x) \<and>
    (distinct (map (mname ob) (entries (o_methods ob))) \<longrightarrow> (\<forall>m\<in>set (entries (o_methods ob)).
       \<exists>s. sym_str ob' (m_name m) = Some s \<and> find_method ob' s = Some (Some m)))"
proof -
  obtain p ob' where p: "pack_object ob = Some p" "length p = size_object ob"
    "\<forall>rest. unpack_object same (p @ rest) = Some (ob', rest)" "same_object ob ob'" "object_inv ob'"
    using object_round [OF assms, of same] by blast
  have vars: "\<exists>s x. sym_str ob' (vd_name v) = Some s \<and> own_global ob' s = Some (Some x) \<and>
      same_value (vd_value v) x" if v: "v \<in> set (entries (o_vars ob))" for v
  proof -
    from p(4) obtain vs where vs: "mset (entries (o_vars ob')) = mset vs"
      "list_all2 same_vardef (entries (o_vars ob)) vs" by (auto simp: same_object_def)
    from v obtain i where i: "i < length (entries (o_vars ob))" "entries (o_vars ob) ! i = v"
      by (metis in_set_conv_nth)
    with vs(2) have w: "same_vardef v (vs ! i)" "vs ! i \<in> set vs"
      by (auto simp: list_all2_conv_all_nth)
    then have "vs ! i \<in> set (entries (o_vars ob'))" using mset_eq_setD [OF vs(1)] by simp
    then obtain h where "o_vars ob' = Some h" "vs ! i \<in> set (hentries h)" by (cases "o_vars ob'") auto
    from own_variable [OF p(5) this] w(1) show ?thesis by (auto simp: same_vardef_def)
  qed
  have meths: "\<exists>s. sym_str ob' (m_name m) = Some s \<and> find_method ob' s = Some (Some m)"
    if d: "distinct (map (mname ob) (entries (o_methods ob)))" and m: "m \<in> set (entries (o_methods ob))" for m
  proof -
    from p(4) have s: "mset (entries (o_methods ob')) = mset (entries (o_methods ob))"
      "o_symbols ob' = o_symbols ob" "\<forall>h. o_methods ob' = Some h \<longrightarrow> methods_wf ob' h"
      by (simp_all add: same_object_def)
    have "m \<in> set (entries (o_methods ob'))" using m mset_eq_setD [OF s(1)] by simp
    then obtain h where h: "o_methods ob' = Some h" "m \<in> set (hentries h)" by (cases "o_methods ob'") auto
    have "mname ob' = mname ob" using s(2) by (simp add: mname_def sym_str_def sym_get_def fun_eq_iff)
    moreover have "mset (map (mname ob) (entries (o_methods ob'))) = mset (map (mname ob) (entries (o_methods ob)))"
      using s(1) by simp
    ultimately have "distinct (map (mname ob') (hentries h))"
      using d h(1) mset_eq_imp_distinct_iff by fastforce
    with find_own_method [of ob' h m] s(3) h show ?thesis by simp
  qed
  from p vars meths show ?thesis by blast
qed

section \<open>The store on disk\<close>

text \<open>
  C7: the store keeps objects apart. In a sound store, writing an object leaves a sound store, the
  object can be read back as it was, and the bytes of every other object are untouched; so it is
  for deleting. That holds whatever the bitmap grows by, and when the memory it grows by is
  clear, writing always finds a place.
\<close>

theorem chunk_store_safe:
  assumes inv: "chunk_inv s" and ob: "object_inv ob" "object_storable ob"
  shows "(\<forall>failed t. dddb_put (True, True) ob k s = Some (failed, t) \<longrightarrow> \<not> failed \<and> chunk_inv t \<and>
      (\<exists>ob'. dddb_get same k t = Some (Some ob') \<and> same_object ob ob') \<and>
      (\<forall>j. j \<noteq> k \<longrightarrow> contents t j = contents s j)) \<and>
    (ck_junk s = (\<lambda>_. False) \<longrightarrow> dddb_put (True, True) ob k s \<noteq> None) \<and>
    (\<forall>r t. dddb_del True k s = (r, t) \<longrightarrow> r = 0 \<and> chunk_inv t \<and> dddb_get same k t = Some None \<and>
      (\<forall>j. j \<noteq> k \<longrightarrow> contents t j = contents s j))"
proof -
  obtain p ob' where p: "pack_object ob = Some p" "length p = size_object ob"
    "\<forall>rest. unpack_object same (p @ rest) = Some (ob', rest)" "same_object ob ob'"
    using object_round [OF ob, of same] by blast
  have n: "0 < length p" using p(2) size_object_pos by simp
  have put: "dddb_put (True, True) ob k s = put_bytes (True, True) k (length p) p s"
    using p(1,2) by (simp add: dddb_put_def)
  have "\<not> failed \<and> chunk_inv t \<and> (\<exists>ob'. dddb_get same k t = Some (Some ob') \<and> same_object ob ob') \<and>
      (\<forall>j. j \<noteq> k \<longrightarrow> contents t j = contents s j)"
    if t: "put_bytes (True, True) k (length p) p s = Some (failed, t)" for failed t
  proof -
    from put_bytes_spec [OF inv n t] obtain h where h: "\<not> failed" "chunk_inv t"
      "contents t = (contents s)(k \<mapsto> p)" "map_of (ck_index t) k = Some h"
      "drop (hr_off h) (ck_file t) = p @ drop (hr_off h + length p) (ck_file s)" by blast
    then have "dddb_get same k t = Some (Some ob')"
      using p(3) by (simp add: dddb_get_def chunk_inv_def)
    with h p(4) show ?thesis by auto
  qed
  moreover have "put_bytes (True, True) k (length p) p s \<noteq> None" if "ck_junk s = (\<lambda>_. False)"
    using put_bytes_returns [OF inv that n, of "(True, True)" k p] by auto
  moreover have "r = 0 \<and> chunk_inv t \<and> dddb_get same k t = Some None \<and> (\<forall>j. j \<noteq> k \<longrightarrow> contents t j = contents s j)"
    if "dddb_del True k s = (r, t)" for r t
  proof -
    from dddb_del_spec [OF inv that] have t: "r = 0" "chunk_inv t" "contents t = (contents s)(k := None)"
      by blast+
    then have "contents t k = None" by simp
    then have "map_of (ck_index t) k = None" by (simp add: contents_def)
    with t show ?thesis by (simp add: dddb_get_def chunk_inv_def)
  qed
  ultimately show ?thesis unfolding put by blast
qed

text \<open>
  An object that shrinks leaks its last blocks: they stay marked in the bitmap and belong to
  no object, until the server is started again.
\<close>

theorem shrinking_leaks:
  assumes inv: "chunk_inv s" and h: "map_of (ck_index s) k = Some h"
    and n: "blocks_needed (ck_bsiz s) n < blocks_needed (ck_bsiz s) (hr_siz h)" "0 < n" "length bytes = n"
  shows "\<exists>t b. put_bytes (True, True) k n bytes s = Some (False, t) \<and> b < bitblox t \<and> ck_bitm t ! b \<and>
    (\<forall>j h'. map_of (ck_index t) j = Some h' \<longrightarrow> b \<notin> blocks_of t h')"
proof -
  let ?h = "h\<lparr>hr_siz := n\<rparr>"
  let ?t = "s\<lparr>ck_index := AList.update k ?h (ck_index s), ck_file := write_at (hr_off h) bytes (ck_file s)\<rparr>"
  let ?b = "hr_off h div ck_bsiz s + blocks_needed (ck_bsiz s) n"
  have put: "put_bytes (True, True) k n bytes s = Some (False, ?t)"
    using inv h n(1) by (simp add: put_bytes_def put_place_def chunk_inv_def)
  have idx: "map_of (ck_index ?t) = (map_of (ck_index s))(k \<mapsto> ?h)" by (simp add: update_conv')
  have bl: "blocks_of ?t = blocks_of s" by (rule same_store_cong) simp
  have own: "?b \<in> blocks_of s h" using n(1) by (simp add: blocks_of_def Let_def)
  have "?b \<notin> blocks_of ?t h'" if h': "map_of (ck_index ?t) j = Some h'" for j h'
  proof (cases "j = k")
    case True
    have "Some h' = Some ?h" unfolding h' [symmetric] idx True by simp
    then show ?thesis unfolding bl by (simp add: blocks_of_def Let_def)
  next
    case False
    have "map_of (ck_index s) j = Some h'" unfolding h' [symmetric] idx using False by simp
    with inv h False own show ?thesis unfolding bl chunk_inv_def by blast
  qed
  moreover have "?b + 32 < bitblox ?t" "ck_bitm ?t ! ?b"
    using inv h own unfolding chunk_inv_def place_ok_def by auto
  ultimately show ?thesis using put by (intro exI [of _ ?t] exI [of _ ?b]) simp
qed

subsection \<open>Starting again\<close>

lemma mark_true:
  assumes "dddb_mark lbn siz True s = t"
  shows "same_store s t \<and> bitblox s \<le> bitblox t \<and>
    (\<forall>b. b + 32 < bitblox s \<longrightarrow> ck_bitm s ! b \<longrightarrow> b + 32 < bitblox t \<and> ck_bitm t ! b) \<and>
    (\<forall>b. lbn \<le> b \<longrightarrow> b < lbn + blocks_needed (ck_bsiz s) siz \<longrightarrow> b + 32 < bitblox t \<and> ck_bitm t ! b)"
proof -
  from assms have "mark_loop (blocks_needed (ck_bsiz s) siz) lbn True s = t" by (simp add: dddb_mark_def)
  from mark_loop_spec [OF this]
  have m: "same_store s t" "bitblox s \<le> bitblox t"
    "\<forall>b. lbn \<le> b \<longrightarrow> b < lbn + blocks_needed (ck_bsiz s) siz \<longrightarrow> b + 32 < bitblox t \<and> ck_bitm t ! b"
    "\<forall>b. (b < lbn \<or> lbn + blocks_needed (ck_bsiz s) siz \<le> b) \<longrightarrow> b + 32 < bitblox s \<longrightarrow>
       ck_bitm t ! b = ck_bitm s ! b" by simp_all
  have "b + 32 < bitblox t \<and> ck_bitm t ! b" if "b + 32 < bitblox s" "ck_bitm s ! b" for b
    using m(2) m(3) [rule_format, of b] m(4) [rule_format, of b] that
    by (cases "b < lbn \<or> lbn + blocks_needed (ck_bsiz s) siz \<le> b") auto
  with m show ?thesis by blast
qed

lemma mark_all:
  "foldl (\<lambda>s (k, h). dddb_mark (hr_off h div ck_bsiz s) (hr_siz h) True s) s l = t \<Longrightarrow>
     same_store s t \<and> bitblox s \<le> bitblox t \<and>
     (\<forall>b. b + 32 < bitblox s \<longrightarrow> ck_bitm s ! b \<longrightarrow> b + 32 < bitblox t \<and> ck_bitm t ! b) \<and>
     (\<forall>(k, h)\<in>set l. \<forall>b\<in>blocks_of s h. b + 32 < bitblox t \<and> ck_bitm t ! b)"
proof (induction l arbitrary: s)
  case (Cons p l)
  obtain k h where p: "p = (k, h)" by (cases p)
  obtain u where u: "dddb_mark (hr_off h div ck_bsiz s) (hr_siz h) True s = u" by simp
  with Cons.prems p have "foldl (\<lambda>s (k, h). dddb_mark (hr_off h div ck_bsiz s) (hr_siz h) True s) u l = t"
    by simp
  from Cons.IH [OF this] mark_true [OF u] show ?case
    unfolding p by (auto simp: blocks_of_def Let_def same_store_def)
qed auto

lemma reopened:
  assumes inv: "chunk_inv s"
  shows "chunk_inv (dddb_init n (dddb_close s)) \<and> contents (dddb_init n (dddb_close s)) = contents s \<and>
    ck_junk (dddb_init n (dddb_close s)) = ck_junk s"
proof -
  let ?g = "growbit (n div ck_bsiz s + DDDB_BITBLOCK) (dddb_close s)"
  let ?f = "\<lambda>s (k, h). dddb_mark (hr_off h div ck_bsiz s) (hr_siz h) True s"
  obtain t where t: "foldl ?f ?g (ck_index s) = t" by simp
  have g: "same_store (dddb_close s) ?g" using growbit_grows by (simp add: grows_def)
  have gi: "ck_index ?g = ck_index s" "ck_bsiz ?g = ck_bsiz s" "ck_file ?g = ck_file s" "ck_junk ?g = ck_junk s"
    using g by (simp_all add: same_store_def dddb_close_def)
  have big: "32 < bitblox ?g"
    unfolding length_growbit DDDB_BITBLOCK_def dddb_close_def
    using mod_less_divisor [of 8 "n div ck_bsiz s + 512"] by simp
  have eq: "dddb_init n (dddb_close s) = t\<lparr>ck_initted := True\<rparr>"
    using t gi by (simp add: dddb_init_def Let_def dddb_close_def)
  from mark_all [OF t] have m: "same_store ?g t" "bitblox ?g \<le> bitblox t"
    "\<And>k h b. (k, h) \<in> set (ck_index s) \<Longrightarrow> b \<in> blocks_of ?g h \<Longrightarrow> b + 32 < bitblox t \<and> ck_bitm t ! b"
    by blast+
  have ti: "ck_index t = ck_index s" "ck_bsiz t = ck_bsiz s" "ck_file t = ck_file s" "ck_junk t = ck_junk s"
    using m(1) gi by (simp_all add: same_store_def)
  let ?t = "t\<lparr>ck_initted := True\<rparr>"
  have bl: "blocks_of ?t = blocks_of s" "blocks_of ?g = blocks_of s"
    using same_store_cong [of ?t s] same_store_cong [of ?g s] ti gi by simp_all
  have "place_ok ?t h" if h: "map_of (ck_index s) k = Some h" for k h
  proof -
    have "place_ok s h" using inv h by (simp add: chunk_inv_def)
    moreover have "\<forall>b\<in>blocks_of s h. b + 32 < bitblox t \<and> ck_bitm t ! b"
      using m(3) [OF map_of_SomeD [OF h]] unfolding bl by blast
    ultimately show ?thesis unfolding place_ok_def bl by (simp add: ti)
  qed
  then have "chunk_inv ?t" using inv m(2) big unfolding chunk_inv_def bl by (simp add: ti)
  then show ?thesis unfolding eq by (simp add: ti contents_def fun_eq_iff)
qed

section \<open>The cache\<close>

lemma cache_init_spec:
  assumes "\<not> ca_initted c" "0 < ca_cwidth c" "disk_ok same (ca_db c)"
  shows "cache_inv same (cache_init c) \<and>
    (\<forall>k. 0 \<le> sint k \<longrightarrow> view same (cache_init c) k = disk_view same (ca_db c) k)"
proof -
  let ?ch = "\<lparr>active = [], olds = replicate (nat (ca_cdepth c)) empty_slot\<rparr>"
  have e: "\<not> used empty_slot" "sl_op empty_slot = None" "\<not> sl_dirty empty_slot"
    by (simp_all add: empty_slot_def used_def)
  then have "chain_inv n dv i ?ch" for n dv i by (auto simp: chain_inv_def slot_inv_def filter_empty_conv)
  moreover have w: "0 < nat (ca_cwidth c)" using assms(2) by simp
  ultimately have "cache_inv same (cache_init c)" using assms by (simp add: cache_inv_def cache_init_def)
  moreover have "view same (cache_init c) k = disk_view same (ca_db c) k" if "0 \<le> sint k" for k
  proof -
    have "hv (cache_init c) k < nat (ca_cwidth c)" using assms by (simp add: hv_def cache_init_def nat_less_iff)
    then have ch: "chain_at (cache_init c) k = ?ch" using assms(1) by (simp add: cache_init_def)
    have "\<forall>s\<in>set (slots ?ch). sl_oid s \<noteq> k" using that by (auto simp: empty_slot_def)
    from look_none [OF this] show ?thesis using assms(1) by (simp add: view_def ch) (simp add: cache_init_def)
  qed
  ultimately show ?thesis by blast
qed

text \<open>
  C8: the cache is one map of the objects. Whatever chain a slot is in and whatever was written
  back or thrown out to make room, \<open>cache_get\<close> answers the object the map has at the number and
  \<open>cache_check\<close> whether it has one, \<open>cache_put\<close> and \<open>cache_del\<close> change the map at their own number
  only, and \<open>cache_reset\<close> changes nothing. An object may come back from the disk with its tables
  arranged differently.
\<close>

theorem cache_refines:
  assumes inv: "cache_inv same c" and k: "0 \<le> sint k" and ob: "object_inv ob" "object_storable ob"
  shows "(\<exists>c'. cache_get same works k c = Some (view same c k, c') \<and> cache_inv same c' \<and>
      (\<forall>j. 0 \<le> sint j \<longrightarrow> same_view same c c' j)) \<and>
    (not_dead c k \<longrightarrow> (\<exists>c'. cache_put works ob k c = Some (False, c') \<and> cache_inv same c' \<and>
      view same c' k = Some ob \<and> (\<forall>j. 0 \<le> sint j \<longrightarrow> j \<noteq> k \<longrightarrow> same_view same c c' j))) \<and>
    (\<exists>c'. cache_del (\<lambda>_. True) k c = (0, c') \<and> cache_inv same c' \<and> view same c' k = None \<and>
      (\<forall>j. 0 \<le> sint j \<longrightarrow> j \<noteq> k \<longrightarrow> view same c' j = view same c j)) \<and>
    (fst (cache_check k c) \<longleftrightarrow> view same c k \<noteq> None) \<and>
    view same (snd (cache_check k c)) = view same c \<and> cache_inv same (cache_reset c) \<and>
    (\<forall>j. 0 \<le> sint j \<longrightarrow> view same (cache_reset c) j = view same c j)"
  using cache_get_spec [OF inv k] cache_put_spec [OF inv k _ ob] cache_del_spec [OF inv k]
    cache_check_spec [OF inv k] cache_reset_spec [OF inv] by blast

text \<open>
  C9: nothing is lost by a restart after \<open>cache_sync\<close>: the cache that is made over the file opened
  again shows the same objects under the same numbers, and is sound.
\<close>

theorem restart_finds:
  assumes inv: "cache_inv same c" and new: "\<not> ca_initted new" "0 < ca_cwidth new"
  shows "\<exists>c'. cache_sync works c = Some (False, c') \<and>
    (let c1 = cache_init (new\<lparr>ca_db := dddb_init n (dddb_close (ca_db c'))\<rparr>)
     in cache_inv same c1 \<and> (\<forall>j. 0 \<le> sint j \<longrightarrow> rel_option sim (view same c j) (view same c1 j)))"
proof -
  obtain c' where c': "cache_sync works c = Some (False, c')" "cache_inv same c'"
    "\<forall>j. 0 \<le> sint j \<longrightarrow> rel_option sim (view same c j) (disk_view same (ca_db c') j)"
    using cache_sync_spec [OF inv] by blast
  let ?d = "dddb_init n (dddb_close (ca_db c'))"
  have d: "disk_ok same (ca_db c')" using c'(2) by (simp add: cache_inv_def)
  then have "disk_ok same ?d" "disk_view same ?d = disk_view same (ca_db c')"
    using reopened [of "ca_db c'" n] by (simp_all add: disk_ok_def chunk_ok_def disk_view_def fun_eq_iff)
  with cache_init_spec [of "new\<lparr>ca_db := ?d\<rparr>" same] new c'
  show ?thesis by (intro exI [of _ c']) (simp add: Let_def)
qed

subsection \<open>Where the cache loses objects\<close>

lemma find_in: "x \<in> set l \<Longrightarrow> P x \<Longrightarrow> \<exists>y. find P l = Some y"
  by (induction l) auto

text \<open>
  C40: an object made again under the number of one that was deleted is lost while the slot of the
  old one is in the cache: \<open>cache_put\<close> answers that it is stored, but leaves the slot dead, so the
  number shows what it showed before.
\<close>

theorem put_after_del:
  assumes inv: "cache_inv same c" and k: "0 \<le> sint k"
    and s: "s \<in> set (active (chain_at c k))" "sl_oid s = k" "sl_dead s"
  shows "\<exists>c'. cache_put io ob k c = Some (False, c') \<and> view same c' k = None"
proof -
  let ?here = "\<lambda>s. sl_oid s = k" and ?ch = "chain_at c k" and ?dv = "disk_view same (ca_db c)"
  have i: "ca_initted c" "\<not> sint k < 0" using inv k by (simp_all add: cache_inv_def)
  note ch = chain_at_inv [OF inv, of k]
  obtain t where t: "find ?here (active ?ch) = Some t" using find_in [of s _ ?here] s by blast
  obtain xs ys where "active ?ch = xs @ t # ys"
    "update_first ?here (put_slot ob) (active ?ch) = xs @ put_slot ob t # ys"
    by (rule update_first_split [OF t])
  then have sp: "active ?ch = xs @ t # ys" "sl_oid t = k"
    "update_first ?here (put_slot ob) (active ?ch) = xs @ put_slot ob t # ys"
    using find_SomeD [OF t] by simp_all
  have u: "used t" using sp(2) k by (simp add: used_def)
  have tin: "t \<in> set (slots ?ch)" using find_SomeD [OF t] by simp
  have dst: "distinct (map sl_oid (filter used (slots ?ch)))" using ch unfolding chain_inv_def by blast
  have uniq: "r = t" if "r \<in> set (slots ?ch)" "sl_oid r = k" for r
    using distinct_used [OF dst tin that(1) u] sp(2) that(2) by simp
  have ts: "t = s" using uniq [of s] s by simp
  have dv: "?dv k = None" using ch s u ts by (auto simp: chain_inv_def slot_inv_def)
  let ?ch' = "?ch\<lparr>active := xs @ put_slot ob t # ys\<rparr>"
  have dead: "\<not> live k r" if "r \<in> set (slots ?ch')" for r
  proof
    assume l: "live k r"
    with that sp(1) have "r \<in> set (slots ?ch) \<or> r = put_slot ob t" by auto
    with l s(3) ts uniq show False by (auto simp: live_def)
  qed
  let ?c' = "set_chain k ?ch' (bump (inc cs_writes_update) c)"
  have "\<exists>f. cache_put io ob k c = Some (False, f ?c') \<and> view same (f ?c') = view same ?c'"
    using i t sp(3) by (intro exI [of _ "if sl_dirty t then bump (inc cs_whits_update) else id"])
      (simp add: cache_put_def Let_def)
  moreover have "view same ?c' k = None"
  proof -
    have h: "hv c k < length (ca_chains c)" using inv by (simp add: cache_inv_def hv_def nat_less_iff)
    have "find (live k) (slots ?ch') = None" using dead unfolding find_live_iff by blast
    with dv h show ?thesis by (simp add: view_def look_def set_chain_def hv_def)
  qed
  ultimately show ?thesis by auto
qed

text \<open>
  An object is lost when the write that should make room for another one fails: \<open>cache_get\<close>
  answers nothing for the object it was to fetch, and has taken the slot with the changes of the
  other object out of the cache already; the file has what it had.
\<close>

theorem evict_lost:
  assumes inv: "cache_inv same c" and k: "0 \<le> sint k"
    and miss: "\<forall>s\<in>set (slots (chain_at c k)). sl_oid s \<noteq> k" and disk: "disk_view same (ca_db c) k = Some ob0"
    and s: "olds (chain_at c k) = l @ [s]" "sl_dirty s" "\<not> fst (io (sl_oid s))"
  shows "view same c (sl_oid s) = sl_op s \<and>
    (\<exists>c'. cache_get same io k c = Some (None, c') \<and> contents (ca_db c') = contents (ca_db c) \<and>
       (\<forall>t\<in>set (slots (chain_at c' (sl_oid s))). sl_oid t \<noteq> sl_oid s))"
proof -
  let ?c = "bump (inc cs_reads_update) c" and ?ch = "chain_at c k" and ?o = "sl_oid s"
  let ?c1 = "set_chain k (?ch\<lparr>olds := l\<rparr>) (bump (inc cs_dbreads_update) ?c)"
  have d: "disk_ok same (ca_db c)" and i: "ca_initted c" "\<not> sint k < 0"
    using inv k by (simp_all add: cache_inv_def)
  note ch = chain_at_inv [OF inv, of k]
  have sin: "s \<in> set (slots ?ch)" using s(1) by simp
  have si: "slot_inv (disk_view same (ca_db c)) s" "used s \<Longrightarrow> hv c ?o = hv c k"
    using ch sin by (auto simp: chain_inv_def hv_def)
  then obtain ob where ob: "used s" "sl_op s = Some ob" "\<not> sl_dead s" "object_inv ob" "object_storable ob"
    using s(2) by (auto simp: slot_inv_def split: if_splits)
  have "view same c ?o = sl_op s"
    using look_slot [OF chain_at_inv [OF inv, of ?o]] si(2) [OF ob(1)] sin ob by (simp add: view_def used_def)
  moreover obtain p where p: "pack_object ob = Some p" "length p = size_object ob"
    using object_round [OF ob(4,5)] by blast
  moreover obtain h t where t: "put_place ?o (size_object ob) (ca_db c) = Some (h, t)"
    using put_place_returns [of "ca_db c" "size_object ob" ?o] d size_object_pos [of ob]
    by (auto simp: disk_ok_def chunk_ok_def)
  ultimately have put: "dddb_put (io ?o) ob ?o (ca_db c) = Some (True, t)"
    using s(3) d by (simp add: dddb_put_def put_bytes_def disk_ok_def chunk_ok_def chunk_inv_def)
  have same: "contents t = contents (ca_db c)"
  proof -
    have "same_store (ca_db c) t" using put_place_spec [OF _ _ t] d size_object_pos [of ob]
      by (simp add: disk_ok_def chunk_ok_def place_for_def)
    then show ?thesis by (simp add: contents_def same_store_def fun_eq_iff)
  qed
  let ?c2 = "?c1\<lparr>ca_db := t\<rparr>"
  have "find (live k) (slots ?ch) = None" using miss unfolding find_live_iff by (auto simp: live_def)
  then have f: "find (live k) (active ?ch) = None" "find (live k) (olds ?ch) = None"
    unfolding find_append by (auto split: option.splits)
  have g: "dddb_get same k (ca_db c) = Some (Some ob0)" using disk_get [OF d] disk by simp
  have "write_back io s ?c1 = Some (True, ?c2)"
    using put ob s(2) by (simp add: write_back_def set_chain_def used_def)
  then have "cache_miss same io k ?c = Some (None, ?c2)"
    using g s(1) by (simp add: cache_miss_def set_chain_def Let_def hv_def)
  then have "cache_get same io k c = Some (None, ?c2)"
    using i f by (simp add: cache_get_def Let_def)
  moreover have "\<forall>r\<in>set (slots (chain_at ?c2 ?o)). sl_oid r \<noteq> ?o"
  proof -
    have n: "hv c k < length (ca_chains c)" using inv by (simp add: cache_inv_def hv_def nat_less_iff)
    have "chain_at ?c2 ?o = ?ch\<lparr>olds := l\<rparr>"
      using si(2) [OF ob(1)] n by (simp add: set_chain_def hv_def)
    moreover have "distinct (map sl_oid (filter used (active ?ch @ l @ [s])))"
      using ch s(1) by (simp add: chain_inv_def)
    then have out: "?o \<notin> sl_oid ` set (filter used (active ?ch @ l))" using ob(1) by auto
    have "sl_oid r \<noteq> ?o" if r: "r \<in> set (active ?ch @ l)" for r
    proof
      assume eq: "sl_oid r = ?o"
      with r ob(1) have "r \<in> set (filter used (active ?ch @ l))" by (simp add: used_def)
      with out eq show False by (metis imageI)
    qed
    ultimately show ?thesis by simp
  qed
  ultimately show ?thesis using same \<open>view same c ?o = sl_op s\<close> by auto
qed

section \<open>The properties on concrete stores\<close>

text \<open>A store that was opened empty, and caches over it.\<close>

definition empty_disk :: chunkdb where
  "empty_disk = dddb_init 0 \<lparr>ck_file = [], ck_index = [], ck_bsiz = DDDB_BLOCK, ck_initted = False,
     ck_last_free = 0, ck_bitm = [], ck_junk = (\<lambda>_. False)\<rparr>"

definition new_cache :: "int \<Rightarrow> chunkdb \<Rightarrow> cache" where
  "new_cache depth d = \<lparr>ca_initted = False, ca_chains = [], ca_cwidth = 1, ca_cdepth = depth, ca_db = d,
     ca_stats = \<lparr>cs_writes = 0, cs_reads = 0, cs_dbreads = 0, cs_dbwrites = 0, cs_dels = 0, cs_checks = 0,
       cs_rhits = 0, cs_ahits = 0, cs_whits = 0, cs_fails = 0, cs_resets = 0, cs_syncs = 0, cs_objects = 0\<rparr>\<rparr>"

lemma empty_disk_ok: "chunk_ok empty_disk" "contents empty_disk k = None"
  by (simp_all add: chunk_ok_def chunk_inv_def empty_disk_def dddb_init_def DDDB_BLOCK_def
    DDDB_BITBLOCK_def growbit_def contents_def Let_def)

lemma empty_disk_view: "disk_ok same empty_disk" "disk_view same empty_disk k = None"
  using empty_disk_ok by (simp_all add: disk_ok_def disk_view_def)

lemma new_cache_ok:
  assumes "disk_ok same d"
  shows "cache_inv same (cache_init (new_cache n d)) \<and>
    (\<forall>k. 0 \<le> sint k \<longrightarrow> view same (cache_init (new_cache n d)) k = disk_view same d k)"
  using cache_init_spec [of "new_cache n d" same] assms by (simp add: new_cache_def)

lemma demo_kid_inv: "object_inv demo_kid"
  by (auto simp: object_inv_def sym_ok_def sym_uses_def other_uses_def vars_wf_def
    bucket_ok_def named_def vname_def demo_objects sym_str_def sym_get_def nth_opt_def less_Suc_eq
    nth_Cons' c_tolower_def c_isupper_def)

lemma demo_storable: "object_storable demo_sys" "object_storable demo_kid"
  by (simp_all add: object_storable_def demo_objects parents_ok_def symbol_storable_def text_ok_def
    vardef_storable_def int_ok_def vname_def sym_str_def sym_get_def nth_opt_def c_tolower_def c_isupper_def)

theorem object_round_trip_witness:
  "\<exists>p ob'. pack_object demo_sys = Some p \<and> unpack_object (=) (p @ ''x'') = Some (ob', ''x'') \<and>
     same_object demo_sys ob'"
  using object_round_trip [OF demo_sys_inv demo_storable(1), of "(=)"] by blast

theorem chunk_store_safe_witness:
  "\<exists>t ob'. dddb_put (True, True) demo_sys 0 empty_disk = Some (False, t) \<and>
     dddb_get (=) 0 t = Some (Some ob') \<and> same_object demo_sys ob' \<and> contents t 1 = None"
  using chunk_store_safe [OF _ demo_sys_inv demo_storable(1), of empty_disk 0 "(=)"] empty_disk_ok
  unfolding chunk_ok_def by fastforce

theorem shrinking_leaks_witness:
  "\<exists>s u b. put_bytes (True, True) 5 300 (replicate 300 CHR ''x'') empty_disk = Some (False, s) \<and>
     put_bytes (True, True) 5 1 ''x'' s = Some (False, u) \<and> ck_bitm u ! b \<and>
     (\<forall>j h. map_of (ck_index u) j = Some h \<longrightarrow> b \<notin> blocks_of u h)"
proof -
  let ?x = "replicate 300 CHR ''x''"
  obtain r s where s: "put_bytes (True, True) 5 (length ?x) ?x empty_disk = Some (r, s)"
    using put_bytes_returns [of empty_disk 300 "(True, True)" 5 ?x] empty_disk_ok
    unfolding chunk_ok_def by auto
  from put_bytes_spec [OF _ _ s] empty_disk_ok have
    t: "\<not> r" "chunk_inv s" "contents s 5 = Some ?x" unfolding chunk_ok_def by auto
  then obtain h where h: "map_of (ck_index s) 5 = Some h" by (auto simp: contents_def)
  with t(3) have "take (hr_siz h) (drop (hr_off h) (ck_file s)) = ?x" by (simp add: contents_def)
  then have "length (take (hr_siz h) (drop (hr_off h) (ck_file s))) = 300" by simp
  moreover have "hr_off h + hr_siz h \<le> length (ck_file s)" using t(2) h unfolding chunk_inv_def by blast
  ultimately have siz: "hr_siz h = 300" by simp
  have "ck_bsiz empty_disk = 256" "ck_initted empty_disk"
    by (simp_all add: empty_disk_def dddb_init_def growbit_def DDDB_BLOCK_def Let_def)
  with s t(1) obtain g u where u: "put_place 5 (length ?x) empty_disk = Some (g, u)" "ck_bsiz s = ck_bsiz u"
    by (auto simp: put_bytes_def split: bind_splits)
  have "ck_bsiz s = 256"
    using put_place_spec [OF _ _ u(1)] empty_disk_ok \<open>ck_bsiz empty_disk = 256\<close> u(2)
    by (simp add: chunk_ok_def place_for_def same_store_def)
  with siz show ?thesis
    using shrinking_leaks [OF t(2) h, of 1 "''x''"] s t(1) by (auto simp: blocks_needed_def)
qed

theorem cache_refines_witness:
  "\<exists>c'. cache_put works demo_sys 3 (cache_init (new_cache 1 empty_disk)) = Some (False, c') \<and>
     view (=) c' 3 = Some demo_sys"
proof -
  let ?c = "cache_init (new_cache 1 empty_disk)"
  have "cache_inv (=) ?c" using new_cache_ok [OF empty_disk_view(1)] by blast
  moreover have "not_dead ?c 3" by (simp add: not_dead_def cache_init_def new_cache_def hv_def empty_slot_def)
  ultimately show ?thesis
    using cache_refines [OF _ _ demo_sys_inv demo_storable(1), of "(=)" ?c 3] by auto
qed

theorem restart_finds_witness:
  "\<exists>c d. cache_sync works c = Some (False, d) \<and> view (=) c 3 = Some demo_sys \<and>
     (\<exists>ob. view (=) (cache_init (new_cache 4 (dddb_init 300 (dddb_close (ca_db d))))) 3 = Some ob \<and>
        sim demo_sys ob)"
proof -
  let ?c = "cache_init (new_cache 1 empty_disk)"
  have c: "cache_inv (=) ?c" using new_cache_ok [OF empty_disk_view(1)] by blast
  have nd: "not_dead ?c 3" by (simp add: not_dead_def cache_init_def new_cache_def hv_def empty_slot_def)
  obtain c1 where c1: "cache_inv (=) c1" "view (=) c1 3 = Some demo_sys"
    using cache_put_spec [OF c _ nd demo_sys_inv demo_storable(1)] by auto
  have new: "(new_cache 4 x)\<lparr>ca_db := y\<rparr> = new_cache 4 y" "\<not> ca_initted (new_cache 4 x)"
    "0 < ca_cwidth (new_cache 4 x)" for x y by (simp_all add: new_cache_def)
  obtain d where d: "cache_sync works c1 = Some (False, d)" "\<forall>j. 0 \<le> sint j \<longrightarrow> rel_option sim (view (=) c1 j)
      (view (=) (cache_init (new_cache 4 (dddb_init 300 (dddb_close (ca_db d))))) j)"
    using restart_finds [OF c1(1) new(2,3) [of empty_disk], of 300] unfolding new Let_def by blast
  from d(2) [rule_format, of 3] c1(2) d(1) show ?thesis by (auto simp: option_rel_Some1)
qed

theorem put_after_del_witness:
  "\<exists>c c'. cache_put works demo_kid 2 c = Some (False, c') \<and> view (=) c' 2 = None"
proof -
  let ?c = "cache_init (new_cache 1 empty_disk)"
  have c: "cache_inv (=) ?c" using new_cache_ok [OF empty_disk_view(1)] by blast
  have nd: "not_dead ?c 2" by (simp add: not_dead_def cache_init_def new_cache_def hv_def empty_slot_def)
  obtain c1 where c1: "cache_put works demo_kid 2 ?c = Some (False, c1)" "cache_inv (=) c1"
    using cache_put_spec [OF c _ nd demo_kid_inv demo_storable(2)] by auto
  obtain c2 where c2: "cache_del (\<lambda>_. True) 2 c1 = (0, c2)" "cache_inv (=) c2"
    using cache_del_spec [OF c1(2), of 2] by auto
  have one: "hv ?c 2 = 0" "ca_chains ?c = [\<lparr>active = [], olds = [empty_slot]\<rparr>]"
    by (simp_all add: hv_def cache_init_def new_cache_def)
  then have "ca_chains c1 = [\<lparr>active = [\<lparr>sl_oid = 2, sl_op = Some demo_kid, sl_dirty = True, sl_dead = False\<rparr>],
      olds = []\<rparr>]"
    using c1(1) by (auto simp: cache_put_def cache_init_def new_cache_def hv_def empty_slot_def
      write_back_def set_chain_def)
  moreover have "ca_initted c1" using c1(2) by (simp add: cache_inv_def)
  ultimately have "ca_chains c2 = [\<lparr>active = [\<lparr>sl_oid = 2, sl_op = Some demo_kid, sl_dirty = False, sl_dead = True\<rparr>],
      olds = []\<rparr>]"
    using c2(1) by (auto simp: cache_del_def hv_def kill_slot_def set_chain_def Let_def split: prod.splits)
  then show ?thesis
    using put_after_del [OF c2(2), of 2 _ works demo_kid] by (fastforce simp: hv_def)
qed

theorem evict_lost_witness:
  "\<exists>c c'. view (=) c 2 = Some demo_kid \<and> cache_get (=) (\<lambda>_. (False, True)) 0 c = Some (None, c') \<and>
     contents (ca_db c') 2 = None \<and> (\<forall>t\<in>set (slots (chain_at c' 2)). sl_oid t \<noteq> 2)"
proof -
  obtain d ob where d: "dddb_put (True, True) demo_sys 0 empty_disk = Some (False, d)" "disk_ok (=) d"
    "disk_view (=) d = (disk_view (=) empty_disk)(0 \<mapsto> ob)"
    using disk_put [OF empty_disk_view(1) demo_sys_inv demo_storable(1)] by blast
  let ?c = "cache_init (new_cache 1 d)"
  have c: "cache_inv (=) ?c" using new_cache_ok [OF d(2)] by blast
  have nd: "not_dead ?c 2" by (simp add: not_dead_def cache_init_def new_cache_def hv_def empty_slot_def)
  obtain c1 where c1: "cache_put works demo_kid 2 ?c = Some (False, c1)" "cache_inv (=) c1"
    using cache_put_spec [OF c _ nd demo_kid_inv demo_storable(2)] by auto
  let ?s = "\<lparr>sl_oid = 2, sl_op = Some demo_kid, sl_dirty = True, sl_dead = False\<rparr>"
  have "ca_chains c1 = [\<lparr>active = [?s], olds = []\<rparr>]" and db: "ca_db c1 = d"
    using c1(1) by (auto simp: cache_put_def cache_init_def new_cache_def hv_def empty_slot_def
      write_back_def set_chain_def)
  then have chs: "ca_chains (cache_reset c1) = [\<lparr>active = [], olds = [] @ [?s]\<rparr>]" "ca_db (cache_reset c1) = d"
    using c1(2) by (simp_all add: cache_reset_def reset_chain_def cache_inv_def)
  have "cache_inv (=) (cache_reset c1)" using cache_reset_spec [OF c1(2)] by blast
  moreover have "contents d 2 = None"
    using arg_cong [OF d(3), of "\<lambda>f. f 2"] empty_disk_view(2) by (simp add: disk_view_def)
  ultimately show ?thesis
    using evict_lost [of "(=)" "cache_reset c1" 0 ob "[]" ?s "\<lambda>_. (False, True)"] chs d(3)
    by (fastforce simp: hv_def)
qed

end
