(* ===== verification/Players.thy ===== *)
theory Players
  imports Queue
begin

text \<open>
  The players' connections (\<open>buf.c\<close>, \<open>playerio.c\<close> and the player half of \<open>netio.c\<close>): lines that
  wait to be sent and commands that wait to be run, cutting the input of a socket into commands,
  the quota of commands, and the list of players.

  A buffer is its list of lines, the head first. The list of players is a list; a loop that takes
  out the player it is at reads the link of the record it has freed, which still holds what it
  held. Sockets are numbers. What the calls of the operating system answer are arguments: the
  chunks that the \<open>read\<close>s of a socket return, the results of its \<open>write\<close>s. The bytes that a
  \<open>write\<close> took are kept in \<open>n_sent\<close>.
\<close>

section \<open>buf.c\<close>

record bline =
  bl_str :: string
  bl_ptr :: nat

type_synonym buf = "bline list"

definition buf_init :: buf where
  "buf_init = []"

definition buf_add :: "string \<Rightarrow> buf \<Rightarrow> buf" where
  "buf_add s b = b @ [\<lparr>bl_str = s, bl_ptr = 0\<rparr>]"

definition buf_delhead :: "buf \<Rightarrow> buf" where
  "buf_delhead b = tl b"

section \<open>Players\<close>

record player =
  pl_id :: i32
  pl_connected :: bool
  pl_fd :: int
  pl_addr :: int
  pl_port :: int
  pl_input :: buf
  pl_output :: buf
  pl_dangling :: "string option"
  pl_quota :: i32
  pl_outbound :: bool

record net =
  n_players :: "player list"
  n_nfds :: int
  n_last :: int
  n_sent :: "(int \<times> string) list"
  n_servers :: servtab
  n_world :: world

definition MAX_CMDS :: int where
  "MAX_CMDS = 100"

definition MSEC_PER_CMD :: int where
  "MSEC_PER_CMD = 1000"

abbreviation crlf :: string where
  "crlf \<equiv> [CHR 0x0D, CHR 0x0A]"

abbreviation on_world :: "(world \<Rightarrow> world) \<Rightarrow> net \<Rightarrow> net" where
  "on_world f n \<equiv> n\<lparr>n_world := f (n_world n)\<rparr>"

text \<open>\<open>disconnect_player\<close> (\<open>dispatch.c\<close>): the message that tells the object.\<close>

definition disconnect_player :: "i32 \<Rightarrow> env \<Rightarrow> world \<Rightarrow> world option" where
  "disconnect_player who E w =
     (let p = \<lparr>server = 0, oid = who\<rparr>
      in map_option fst (send_message E
        \<lparr>ms_msgid = -1, ms_age = 0, ms_ticks = 0, ms_player = p, ms_from = p, ms_to = p,
         ms_text = sym_sys SYM_DISCONNECT, ms_args = [], ms_on = p\<rparr> None w))"

section \<open>Output\<close>

text \<open>
  \<open>send_output\<close>: what the socket took, and what is left. The first argument is what the calls of
  \<open>write\<close> return; a call the list does not cover fails.
\<close>

fun send_output :: "int list \<Rightarrow> buf \<Rightarrow> string \<times> buf" where
  "send_output ws [] = ([], [])"
| "send_output [] b = ([], b)"
| "send_output (w # ws) (l # b) =
     (let text = drop (bl_ptr l) (bl_str l)
      in if w < 0 then ([], l # b)
         else if w < int (length text)
         then (take (nat w) text, l\<lparr>bl_ptr := bl_ptr l + nat w\<rparr> # b)
         else let (sent, b) = send_output ws (buf_delhead (l # b)) in (text @ sent, b))"

definition flush_output :: "int list \<Rightarrow> player \<Rightarrow> net \<Rightarrow> player \<times> net" where
  "flush_output ws p n =
     (let (sent, b) = send_output ws (pl_output p)
      in (p\<lparr>pl_output := b\<rparr>, n\<lparr>n_sent := n_sent n @ [(pl_fd p, sent)]\<rparr>))"

definition player_output :: "string \<Rightarrow> bool \<Rightarrow> player \<Rightarrow> player" where
  "player_output msg newline p =
     p\<lparr>pl_output := buf_add (if newline then msg @ crlf else msg) (pl_output p)\<rparr>"

definition tell :: "i32 \<Rightarrow> string \<Rightarrow> bool \<Rightarrow> net \<Rightarrow> net" where
  "tell who msg newline n =
     n\<lparr>n_players := update_first (\<lambda>p. pl_id p = who) (player_output msg newline) (n_players n)\<rparr>"

definition tell_fd :: "int \<Rightarrow> string \<Rightarrow> bool \<Rightarrow> net \<Rightarrow> net" where
  "tell_fd fd msg newline n =
     n\<lparr>n_players := update_first (\<lambda>p. pl_fd p = fd) (player_output msg newline) (n_players n)\<rparr>"

section \<open>Coming and going\<close>

text \<open>\<open>init_player\<close> puts the new player in front.\<close>

definition init_player :: "int \<Rightarrow> player" where
  "init_player psock = \<lparr>pl_id = 0, pl_connected = False, pl_fd = psock, pl_addr = 0, pl_port = 0,
     pl_input = buf_init, pl_output = buf_init, pl_dangling = None,
     pl_quota = i32_of (MAX_CMDS * MSEC_PER_CMD), pl_outbound = False\<rparr>"

text \<open>\<open>new_player\<close>: \<open>None\<close> is that \<open>accept\<close> failed.\<close>

definition new_player :: "(int \<times> int \<times> int) option \<Rightarrow> env \<Rightarrow> net \<Rightarrow> net" where
  "new_player conn E n =
     (case conn of
        None \<Rightarrow> n
      | Some (psock, addr, port) \<Rightarrow>
          let p = (init_player psock)\<lparr>pl_addr := addr, pl_port := port\<rparr>;
              n = on_world (new_connect (pl_id p) psock E) (n\<lparr>n_players := p # n_players n\<rparr>)
          in if n_nfds n \<le> psock then n\<lparr>n_nfds := psock + 1\<rparr> else n)"

text \<open>
  The loops over the players that take some out: the body is run for the chosen ones, which are
  then removed.
\<close>

fun drop_players ::
  "(player \<Rightarrow> bool) \<Rightarrow> (player \<Rightarrow> net \<Rightarrow> net option) \<Rightarrow> player list \<Rightarrow> net \<Rightarrow> (player list \<times> net) option" where
  "drop_players gone body [] n = Some ([], n)"
| "drop_players gone body (p # others) n =
     (if gone p then do { n \<leftarrow> body p n; drop_players gone body others n }
      else map_option (\<lambda>(others, n). (p # others, n)) (drop_players gone body others n))"

definition remove_players :: "(player \<Rightarrow> bool) \<Rightarrow> (player \<Rightarrow> net \<Rightarrow> net option) \<Rightarrow> net \<Rightarrow> net option" where
  "remove_players gone body n =
     map_option (\<lambda>(others, n). n\<lparr>n_players := others\<rparr>) (drop_players gone body (n_players n) n)"

definition tell_gone :: "env \<Rightarrow> player \<Rightarrow> net \<Rightarrow> net option" where
  "tell_gone E p n = map_option (\<lambda>w. n\<lparr>n_world := w\<rparr>) (disconnect_player (pl_id p) E (n_world n))"

definition player_disconnect :: "(int \<Rightarrow> int list) \<Rightarrow> env \<Rightarrow> player \<Rightarrow> net \<Rightarrow> net option" where
  "player_disconnect writes E p n =
     (let (p, n) = flush_output (writes (pl_fd p)) p n in tell_gone E p n)"

definition disconnect :: "(int \<Rightarrow> int list) \<Rightarrow> i32 \<Rightarrow> env \<Rightarrow> net \<Rightarrow> net option" where
  "disconnect writes who E = remove_players (\<lambda>p. pl_id p = who) (player_disconnect writes E)"

definition disconnect_fd :: "(int \<Rightarrow> int list) \<Rightarrow> int \<Rightarrow> env \<Rightarrow> net \<Rightarrow> net option" where
  "disconnect_fd writes fd E = remove_players (\<lambda>p. pl_fd p = fd) (player_disconnect writes E)"

text \<open>
  \<open>set_parse\<close>: the other connections of the player are closed, and the one on \<open>fd\<close> is connected
  as the player.
\<close>

definition set_parse :: "int \<Rightarrow> i32 \<Rightarrow> env \<Rightarrow> net \<Rightarrow> net option" where
  "set_parse fd who E n = do {
     n \<leftarrow> remove_players (\<lambda>p. pl_id p = who \<and> pl_fd p \<noteq> fd) (tell_gone E) n;
     Some (n\<lparr>n_players := map (\<lambda>p. if pl_fd p = fd then p\<lparr>pl_connected := True, pl_id := who\<rparr> else p)
       (n_players n)\<rparr>) }"

text \<open>
  \<open>net_open_connect\<close>: the address of the host, the new socket, and whether \<open>connect\<close> failed, is in
  progress, or is done.
\<close>

datatype conn_result = Conn_failed | Conn_pending | Conn_done

definition net_open_connect ::
  "i32 \<Rightarrow> int \<Rightarrow> int \<Rightarrow> int \<Rightarrow> conn_result \<Rightarrow> env \<Rightarrow> net \<Rightarrow> (int \<times> net) option" where
  "net_open_connect who addr port newsock res E n =
     (if addr = 0 then Some (-1, n)
      else do {
        n \<leftarrow> remove_players (\<lambda>p. pl_id p = who) (tell_gone E) n;
        if newsock < 0 then Some (-2, n)
        else do {
          let n = (if n_nfds n \<le> newsock then n\<lparr>n_nfds := newsock + 1\<rparr> else n);
          let p = (init_player newsock)\<lparr>pl_addr := addr, pl_port := port, pl_id := who, pl_outbound := True\<rparr>;
          Some (case res of
              Conn_failed \<Rightarrow> (-3, n\<lparr>n_players := p # n_players n\<rparr>)
            | Conn_pending \<Rightarrow> (-4, n\<lparr>n_players := p\<lparr>pl_connected := False\<rparr> # n_players n\<rparr>)
            | Conn_done \<Rightarrow> (newsock, on_world (new_connect who newsock E)
                (n\<lparr>n_players := p\<lparr>pl_connected := True\<rparr> # n_players n\<rparr>))) } })"

section \<open>Input\<close>

text \<open>
  \<open>grab_input\<close>: the half command from last time and the chunks, each up to its first NUL; nothing
  when the first \<open>read\<close> returns nothing.
\<close>

definition c_text :: "string \<Rightarrow> string" where
  "c_text s = takeWhile (\<lambda>c. c \<noteq> CHR 0x00) s"

definition grab_input :: "string list \<Rightarrow> string option \<Rightarrow> string option" where
  "grab_input chunks dangling =
     (if chunks = [] then None
      else Some ((case dangling of None \<Rightarrow> [] | Some d \<Rightarrow> d) @ concat (map c_text chunks)))"

definition printable :: "char \<Rightarrow> bool" where
  "printable c \<longleftrightarrow> 32 \<le> chn c \<and> chn c \<le> 126"

text \<open>
  The loop of \<open>player_input\<close> writes in the buffer that it reads, from its start: \<open>kept\<close> is what is
  before \<open>q\<close>. A backspace takes \<open>q\<close> one back, before the start of the buffer too: \<open>below\<close> is how
  far, and writing there is undefined.
\<close>

fun scan_input :: "string \<Rightarrow> string \<Rightarrow> nat \<Rightarrow> (string list \<times> string \<times> nat) option" where
  "scan_input [] kept below = Some ([], kept, below)"
| "scan_input (c # s) kept below =
     (if c = CHR 0x0A
      then (if 0 < below then None
            else map_option (\<lambda>(cmds, r). (kept # cmds, r)) (scan_input s [] 0))
      else if c = CHR 0x09
      then (if 0 < below then None else scan_input s (kept @ '' '') 0)
      else if c = CHR 0x08
      then (if kept = [] then scan_input s [] (below + 1) else scan_input s (butlast kept) below)
      else if printable c
      then (if 0 < below then None else scan_input s (kept @ [c]) 0)
      else scan_input s kept below)"

text \<open>\<open>player_input\<close>: whether the connection is dead, and the player.\<close>

definition player_input :: "string list \<Rightarrow> player \<Rightarrow> (bool \<times> player) option" where
  "player_input chunks p =
     (case grab_input chunks (pl_dangling p) of
        None \<Rightarrow> Some (True, p)
      | Some s \<Rightarrow> do {
          (cmds, kept, _) \<leftarrow> scan_input s [] 0;
          Some (False, p\<lparr>pl_input := fold buf_add cmds (pl_input p),
            pl_dangling := (if kept = [] then None else Some kept)\<rparr>) })"

definition player_command :: "player \<Rightarrow> string \<Rightarrow> env \<Rightarrow> world \<Rightarrow> world" where
  "player_command p command = parse (pl_id p) (dropWhile c_isspace command) (pl_fd p)"

section \<open>The quota of commands\<close>

definition msec :: "timeval \<Rightarrow> int" where
  "msec t = tv_sec t * 1000 + c_div (tv_usec t) 1000"

definition msec2timeval :: "int \<Rightarrow> timeval" where
  "msec2timeval n = \<lparr>tv_sec = c_div n 1000, tv_usec = c_mod n 1000 * 1000\<rparr>"

text \<open>One player of \<open>queue_player_commands\<close>, with the milliseconds since the last time.\<close>

definition run_command ::
  "env \<Rightarrow> i32 \<Rightarrow> player \<Rightarrow> timeval \<Rightarrow> world \<Rightarrow> player \<times> timeval \<times> world" where
  "run_command E since p timeout w =
     (let q = pl_quota p + since;
          q = (if MAX_CMDS * MSEC_PER_CMD < sint q then i32_of (MAX_CMDS * MSEC_PER_CMD) else q);
          (p, w) =
            (if pl_input p \<noteq> [] \<and> 0 \<le> sint q
             then (p\<lparr>pl_input := buf_delhead (pl_input p), pl_quota := q - i32_of MSEC_PER_CMD\<rparr>,
                   player_command p (bl_str (hd (pl_input p))) E w)
             else (p\<lparr>pl_quota := q\<rparr>, w));
          timeout =
            (if pl_input p \<noteq> [] \<and> sint (pl_quota p) < 0
             then min_time (msec2timeval (- sint (pl_quota p))) timeout else timeout)
      in (p, timeout, w))"

fun run_commands ::
  "env \<Rightarrow> i32 \<Rightarrow> player list \<Rightarrow> timeval \<Rightarrow> world \<Rightarrow> player list \<times> timeval \<times> world" where
  "run_commands E since [] timeout w = ([], timeout, w)"
| "run_commands E since (p # others) timeout w =
     (let (p, timeout, w) = run_command E since p timeout w;
          (others, timeout, w) = run_commands E since others timeout w
      in (p # others, timeout, w))"

definition queue_player_commands :: "timeval \<Rightarrow> timeval \<Rightarrow> env \<Rightarrow> net \<Rightarrow> timeval \<times> net" where
  "queue_player_commands now timeout E n =
     (let since = i32_of (msec now - n_last n);
          (others, timeout, w) = run_commands E since (n_players n) timeout (n_world n)
      in (timeout, n\<lparr>n_last := msec now, n_players := others, n_world := w\<rparr>))"

text \<open>\<open>parse_connect\<close>: the first three words of a line.\<close>

definition blank :: "char \<Rightarrow> bool" where
  "blank c \<longleftrightarrow> chn c < 128 \<and> c_isspace c"

definition inked :: "char \<Rightarrow> bool" where
  "inked c \<longleftrightarrow> chn c < 128 \<and> \<not> c_isspace c"

text \<open>The character that ends a word is overwritten with a NUL and left behind.\<close>

definition next_word :: "string \<Rightarrow> string \<times> string" where
  "next_word s = (let s = dropWhile blank s
     in (takeWhile inked s, tl (dropWhile inked s)))"

definition parse_connect :: "string \<Rightarrow> string \<times> string \<times> string" where
  "parse_connect msg =
     (let (command, s) = next_word msg; (user, s) = next_word s; (pass, _) = next_word s
      in (command, user, pass))"

end
