(* ===== verification/ServerIO.thy ===== *)
theory ServerIO
  imports Players
begin

text \<open>
  The remote servers (\<open>serverio.c\<close>): the packets that open and close a connection, sending a
  line, and what comes in from another server. The settings of the configuration and the answers
  of the name service and of \<open>sendto\<close> are a record. What is written to the log is not modelled.
  A null pointer that is followed is \<open>None\<close>.
\<close>

record netcfg =
  promiscuous :: bool
  verify_servers :: bool
  hostof :: "int \<Rightarrow> string option"
  sendto :: "int \<Rightarrow> int \<Rightarrow> bool"

type_synonym packet = "int \<times> int \<times> string"

text \<open>The names in these packets end with a newline.\<close>

definition meta_line :: "string \<Rightarrow> string \<Rightarrow> string" where
  "meta_line cmd name = CHR ''*'' # cmd @ '' '' @ name @ [CHR 0x0A]"

definition send_to_server :: "netcfg \<Rightarrow> server \<Rightarrow> bool" where
  "send_to_server S s = sendto S (sv_addr s) (sv_port s)"

text \<open>The local server, which must be there.\<close>

definition local_server :: "servtab \<Rightarrow> server option" where
  "local_server t = do { r \<leftarrow> serv_id2server t 0; r }"

text \<open>The packets that were taken; one that fails is only reported.\<close>

definition packets_to :: "netcfg \<Rightarrow> string \<Rightarrow> server list \<Rightarrow> packet list" where
  "packets_to S line ss =
     map (\<lambda>s. (sv_addr s, sv_port s, line)) (filter (send_to_server S) ss)"

definition connect_to_servers :: "netcfg \<Rightarrow> servtab \<Rightarrow> packet list option" where
  "connect_to_servers S t = do {
     me \<leftarrow> local_server t;
     if sv_ended t
     then Some (packets_to S (meta_line ''connect'' (sv_name me)) (filter (\<lambda>s. sv_id s \<noteq> 0) (sv_entries t)))
     else None }"

definition disconnect_from_servers :: "netcfg \<Rightarrow> servtab \<Rightarrow> packet list option" where
  "disconnect_from_servers S t = do {
     me \<leftarrow> local_server t;
     if sv_ended t
     then Some (packets_to S (meta_line ''disconnect'' (sv_name me))
       (filter (\<lambda>s. sv_id s \<noteq> 0 \<and> sv_connected s) (sv_entries t)))
     else None }"

definition yo :: "netcfg \<Rightarrow> servtab \<Rightarrow> int \<Rightarrow> string \<Rightarrow> (int \<times> packet list) option" where
  "yo S t n msg = do {
     r \<leftarrow> serv_id2server t n;
     Some (case r of
         None \<Rightarrow> (-1, [])
       | Some s \<Rightarrow>
           if \<not> sv_connected s then (-2, [])
           else if send_to_server S s then (0, [(sv_addr s, sv_port s, msg)]) else (-3, [])) }"

section \<open>Connections\<close>

text \<open>\<open>connect_server\<close> and \<open>disconnect_server\<close> (\<open>dispatch.c\<close>): the messages to the system object.\<close>

definition server_event :: "sys_sym \<Rightarrow> int \<Rightarrow> env \<Rightarrow> world \<Rightarrow> world option" where
  "server_event s n E w = map_option fst (send_message E
     \<lparr>ms_msgid = -1, ms_age = 0, ms_ticks = 0, ms_player = sys_obj, ms_from = sys_obj, ms_to = sys_obj,
      ms_text = sym_sys s, ms_args = [VOBJ \<lparr>server = word_of_int n, oid = 0\<rparr>], ms_on = sys_obj\<rparr> None w)"

definition connect_server :: "int \<Rightarrow> env \<Rightarrow> world \<Rightarrow> world option" where
  "connect_server = server_event CONNECT_SERVER"

definition disconnect_server :: "int \<Rightarrow> env \<Rightarrow> world \<Rightarrow> world option" where
  "disconnect_server = server_event DISCONNECT_SERVER"

definition promiscuous_connect ::
  "netcfg \<Rightarrow> servtab \<Rightarrow> int \<Rightarrow> int \<Rightarrow> string \<Rightarrow> (servtab \<times> int option) option" where
  "promiscuous_connect S t addr port name =
     (if promiscuous S then serv_add (hostof S) t addr port name else Some (t, None))"

text \<open>
  The server that says it is \<open>name\<close> at this address: one of the table, which is verified when the
  configuration asks for it, or a new one. Its number, or nothing when it is refused.
\<close>

definition accept_server ::
  "netcfg \<Rightarrow> servtab \<Rightarrow> int \<Rightarrow> int \<Rightarrow> string \<Rightarrow> (servtab \<times> int option) option" where
  "accept_server S t addr port name = do {
     r \<leftarrow> serv_name2server t name;
     case r of
       None \<Rightarrow> promiscuous_connect S t addr port name
     | Some s \<Rightarrow>
         Some (t, if verify_servers S \<and> \<not> verify_server (hostof S) s addr port then None else Some (sv_id s)) }"

definition set_connected :: "string \<Rightarrow> bool \<Rightarrow> servtab \<Rightarrow> servtab" where
  "set_connected name up t =
     t\<lparr>sv_entries := update_first (\<lambda>s. c_strcasecmp (sv_name s) name = 0)
       (\<lambda>s. if up then s\<lparr>sv_connected := True, sv_last := -1\<rparr> else s\<lparr>sv_connected := False\<rparr>)
       (sv_entries t)\<rparr>"

text \<open>
  \<open>meta_command\<close>. The first character of a command is a star. A packet to the address the
  command came from is sent whatever comes of it.
\<close>

definition meta_command ::
  "netcfg \<Rightarrow> int \<Rightarrow> int \<Rightarrow> string \<Rightarrow> env \<Rightarrow> net \<Rightarrow> (packet list \<times> net) option" where
  "meta_command S addr port command E n =
     (let (cmd, name, _) = parse_connect command; t = n_servers n; cmd = tl cmd
      in if cmd = ''connect'' \<or> cmd = ''connectok''
         then do {
           (t, r) \<leftarrow> accept_server S t addr port name;
           case r of
             None \<Rightarrow> Some ([], n\<lparr>n_servers := t\<rparr>)
           | Some i \<Rightarrow> do {
               let t = set_connected name True t;
               reply \<leftarrow> (if cmd = ''connect''
                 then map_option (\<lambda>me. [(addr, port, meta_line ''connectok'' (sv_name me))]) (local_server t)
                 else Some []);
               w \<leftarrow> connect_server i E (n_world n);
               Some (reply, n\<lparr>n_servers := t, n_world := w\<rparr>) } }
         else do {
           r \<leftarrow> serv_name2server t name;
           case r of
             Some s \<Rightarrow>
               if cmd = ''disconnect''
               then do {
                 w \<leftarrow> disconnect_server (sv_id s) E (n_world n);
                 Some ([], n\<lparr>n_servers := set_connected name False t, n_world := w\<rparr>) }
               else Some ([], n)
           | None \<Rightarrow> Some ([], n) })"

text \<open>\<open>server_command\<close>: a line from a server that is not connected is ignored.\<close>

definition server_command ::
  "netcfg \<Rightarrow> int \<Rightarrow> int \<Rightarrow> string \<Rightarrow> env \<Rightarrow> net \<Rightarrow> (packet list \<times> net) option" where
  "server_command S addr port cmd E n =
     (if cmd \<noteq> [] \<and> hd cmd = CHR ''*'' then meta_command S addr port cmd E n
      else do {
        r \<leftarrow> serv_addr2server (n_servers n) addr port;
        case r of
          Some s \<Rightarrow>
            if sv_connected s
            then do {
              (_, t, w) \<leftarrow> receive_message (E\<lparr>e_servers := n_servers n\<rparr>) (sv_id s) cmd (n_world n);
              Some ([], n\<lparr>n_servers := t, n_world := w\<rparr>) }
            else Some ([], n)
        | None \<Rightarrow> Some ([], n) })"

end
