(* ===== verification/NetLoop.thy ===== *)
theory NetLoop
  imports ServerIO
begin

text \<open>
  The server's loop (\<open>netio.c\<close>): the options of the command line, what \<open>select\<close> waits for, what
  is done for every socket that is ready, and one round of \<open>run_server\<close>. The creation of sockets,
  signals and the messages of the log are not modelled.
\<close>

section \<open>do\_options\<close>

record options =
  op_promiscuous :: bool
  op_corefile :: bool
  op_init :: bool
  op_prog :: "string option"
  op_dump :: "string option"

text \<open>
  The letters of one option. \<open>f\<close> and \<open>d\<close> end it and take the next argument; without one, or
  at an unknown letter, \<open>do_options\<close> returns 0. The result is what is left of the arguments.
\<close>

fun option_letters :: "string \<Rightarrow> string list \<Rightarrow> options \<Rightarrow> (string list \<times> options) option" where
  "option_letters [] rest opt = Some (rest, opt)"
| "option_letters (c # cs) rest opt =
     (if c = CHR ''p'' then option_letters cs rest (opt\<lparr>op_promiscuous := True\<rparr>)
      else if c = CHR ''c'' then option_letters cs rest (opt\<lparr>op_corefile := True\<rparr>)
      else if c = CHR ''i'' then option_letters cs rest (opt\<lparr>op_init := True\<rparr>)
      else if c = CHR ''f'' then (case rest of [] \<Rightarrow> None | a # xs \<Rightarrow> Some (xs, opt\<lparr>op_prog := Some a\<rparr>))
      else if c = CHR ''d'' then (case rest of [] \<Rightarrow> None | a # xs \<Rightarrow> Some (xs, opt\<lparr>op_dump := Some a\<rparr>))
      else None)"

lemma option_letters_length: "option_letters cs rest opt = Some (xs, opt') \<Longrightarrow> length xs \<le> length rest"
  by (induction cs rest opt rule: option_letters.induct) (auto split: if_splits list.splits)

function do_options :: "string list \<Rightarrow> options \<Rightarrow> (string list \<times> options) option" where
  "do_options [] opt = Some ([], opt)"
| "do_options (a # xs) opt =
     (if a \<noteq> [] \<and> hd a = CHR ''-''
      then do { (xs, opt) \<leftarrow> option_letters (tl a) xs opt; do_options xs opt }
      else map_option (\<lambda>(r, opt). (a # r, opt)) (do_options xs opt))"
  by pat_completeness auto
termination
  by (relation "measure (\<lambda>(l, _). length l)") (auto dest: option_letters_length)

section \<open>select\<close>

text \<open>What is known of the sockets: which are ready, and what the calls on them answer.\<close>

record io =
  io_in :: "int \<Rightarrow> bool"
  io_out :: "int \<Rightarrow> bool"
  io_reads :: "int \<Rightarrow> string list"
  io_writes :: "int \<Rightarrow> int list"
  io_accept :: "(int \<times> int \<times> int) option"
  io_recv :: "(int \<times> int \<times> string) option"

record sockets =
  so_player :: int
  so_yo :: int
  so_totfds :: int

definition init_fdsets ::
  "sockets \<Rightarrow> timeval \<Rightarrow> net \<Rightarrow> (int \<Rightarrow> bool) \<times> (int \<Rightarrow> bool) \<times> timeval" where
  "init_fdsets so timeout n =
     ((\<lambda>fd. n_nfds n < so_totfds so \<and> fd = so_player so \<or> fd = so_yo so \<or>
        fd \<in> pl_fd ` set (n_players n)),
      (\<lambda>fd. \<exists>p\<in>set (n_players n). fd = pl_fd p \<and>
        (pl_output p \<noteq> [] \<or> pl_outbound p \<and> \<not> pl_connected p)),
      if \<exists>p\<in>set (n_players n). pl_input p \<noteq> [] \<and> 0 \<le> sint (pl_quota p)
      then \<lparr>tv_sec = 0, tv_usec = 0\<rparr> else timeout)"

definition UDP_BLOCK_SIZE :: nat where
  "UDP_BLOCK_SIZE = 2048"

definition server_input :: "netcfg \<Rightarrow> io \<Rightarrow> env \<Rightarrow> net \<Rightarrow> (packet list \<times> net) option" where
  "server_input S io E n =
     (case io_recv io of
        None \<Rightarrow> Some ([], n)
      | Some (addr, port, bytes) \<Rightarrow>
          server_command S addr port (c_text (take UDP_BLOCK_SIZE bytes)) E n)"

text \<open>One player of \<open>process_fdsets\<close>: what is left of it.\<close>

definition player_ready :: "io \<Rightarrow> env \<Rightarrow> player \<Rightarrow> net \<Rightarrow> (player option \<times> net) option" where
  "player_ready io E p n = do {
     let (p, n) =
       (if \<not> io_out io (pl_fd p) then (p, n)
        else if pl_outbound p \<and> \<not> pl_connected p
        then (p\<lparr>pl_connected := True\<rparr>, on_world (new_connect (pl_id p) (pl_fd p) E) n)
        else flush_output (io_writes io (pl_fd p)) p n);
     if \<not> io_in io (pl_fd p) then Some (Some p, n)
     else do {
       (dead, p) \<leftarrow> player_input (io_reads io (pl_fd p)) p;
       if dead \<and> pl_input p = []
       then map_option (\<lambda>n. (None, n)) (if pl_connected p then tell_gone E p n else Some n)
       else Some (Some p, n) } }"

fun players_ready :: "io \<Rightarrow> env \<Rightarrow> player list \<Rightarrow> net \<Rightarrow> (player list \<times> net) option" where
  "players_ready io E [] n = Some ([], n)"
| "players_ready io E (p # ps') n = do {
     (r, n) \<leftarrow> player_ready io E p n;
     (qs, n) \<leftarrow> players_ready io E ps' n;
     Some (case r of None \<Rightarrow> qs | Some p \<Rightarrow> p # qs, n) }"

definition process_fdsets ::
  "netcfg \<Rightarrow> sockets \<Rightarrow> io \<Rightarrow> env \<Rightarrow> net \<Rightarrow> (packet list \<times> net) option" where
  "process_fdsets S so io E n = do {
     (sent, n) \<leftarrow> (if io_in io (so_yo so) then server_input S io E n else Some ([], n));
     let n = (if io_in io (so_player so) then new_player (io_accept io) E n else n);
     (qs, n) \<leftarrow> players_ready io E (n_players n) n;
     Some (sent, n\<lparr>n_players := qs\<rparr>) }"

section \<open>run\_server\<close>

text \<open>
  The requests that the interpreter has listed in \<open>w_out\<close> are carried out in their order. In C
  each is a call from the middle of \<open>process_queues\<close>, which reads nothing of the players, so
  only the place in the queue of the messages about closed connections differs. The result says
  whether the server goes on.
\<close>

definition deliver ::
  "netcfg \<Rightarrow> (int \<Rightarrow> int list) \<Rightarrow> env \<Rightarrow> outp \<Rightarrow> bool \<times> packet list \<times> net \<Rightarrow> (bool \<times> packet list \<times> net) option" where
  "deliver S writes E x st =
     (let (running, sent, n) = st
      in case x of
          Tell who msg nl \<Rightarrow> Some (running, sent, tell who msg nl n)
        | TellFd fd msg nl \<Rightarrow> Some (running, sent, tell_fd fd msg nl n)
        | Yo serv line \<Rightarrow> map_option (\<lambda>(_, out). (running, sent @ out, n)) (yo S (n_servers n) serv line)
        | Disconnect who \<Rightarrow> map_option (\<lambda>n. (running, sent, n)) (disconnect writes who E n)
        | DisconnectFd fd \<Rightarrow> map_option (\<lambda>n. (running, sent, n)) (disconnect_fd writes (sint fd) E n)
        | SetParse fd who \<Rightarrow> map_option (\<lambda>n. (running, sent, n)) (set_parse (sint fd) who E n)
        | Shutdown \<Rightarrow> Some (False, sent, n)
        | _ \<Rightarrow> Some (running, sent, n))"

fun deliver_all ::
  "netcfg \<Rightarrow> (int \<Rightarrow> int list) \<Rightarrow> env \<Rightarrow> outp list \<Rightarrow> bool \<times> packet list \<times> net \<Rightarrow> (bool \<times> packet list \<times> net) option" where
  "deliver_all S writes E [] st = Some st"
| "deliver_all S writes E (x # xs) st = do { st \<leftarrow> deliver S writes E x st; deliver_all S writes E xs st }"

datatype sel_result = Sel_error | Sel_interrupted | Sel_ready io

text \<open>
  One round. \<open>sel\<close> is \<open>select\<close>, which is asked with the sets and the time; \<open>fuel\<close> is that of
  \<open>process_queues\<close>.
\<close>

definition run_round ::
  "netcfg \<Rightarrow> sockets \<Rightarrow> nat \<Rightarrow> timeval \<Rightarrow> (int \<Rightarrow> int list) \<Rightarrow>
    ((int \<Rightarrow> bool) \<times> (int \<Rightarrow> bool) \<times> timeval \<Rightarrow> sel_result) \<Rightarrow> env \<Rightarrow> net \<Rightarrow> (bool \<times> packet list \<times> net) option" where
  "run_round S so fuel now writes sel E n = do {
     let (timeout, n) = queue_player_commands now \<lparr>tv_sec = 60, tv_usec = 0\<rparr> E n;
     (timeout, w) \<leftarrow> process_queues fuel (E\<lparr>e_servers := n_servers n\<rparr>) now timeout (n_world n);
     (running, sent, n) \<leftarrow> deliver_all S writes E (w_out w) (True, [], n\<lparr>n_world := w\<lparr>w_out := []\<rparr>\<rparr>);
     if \<not> running then Some (False, sent, n)
     else (case sel (init_fdsets so timeout n) of
         Sel_error \<Rightarrow> Some (False, sent, n)
       | Sel_interrupted \<Rightarrow> Some (True, sent, n)
       | Sel_ready io \<Rightarrow> do {
           (packets, n) \<leftarrow> process_fdsets S so io E n;
           Some (True, sent @ packets, n) }) }"

end
