(* ===== verification/NetSpecs.thy ===== *)
theory NetSpecs
  imports NetLoop Demo "HOL-Library.Sublist"
begin

text \<open>
  The properties of the connections: how many commands a player can run in a time, that a command
  is cut out of the input the same however it arrives, that the output is one stream, that one
  object has one connection, and who is heard among the servers.
\<close>

section \<open>The quota\<close>

definition quota_ok :: "player \<Rightarrow> bool" where
  "quota_ok p \<longleftrightarrow> - MSEC_PER_CMD \<le> sint (pl_quota p) \<and> sint (pl_quota p) \<le> MAX_CMDS * MSEC_PER_CMD"

definition tick_ok :: "i32 \<Rightarrow> bool" where
  "tick_ok since \<longleftrightarrow> 0 \<le> sint since \<and> sint since < 2 ^ 30"

text \<open>The command that a message carries to the object of the player.\<close>

definition command_of :: "player \<Rightarrow> message \<Rightarrow> string option" where
  "command_of p m = (if oid (ms_to m) = pl_id p then
     (case ms_args m of [VSTR s, _] \<Rightarrow> Some (sdata s) | _ \<Rightarrow> None) else None)"

lemma run_command_step:
  assumes p: "quota_ok p" and t: "tick_ok since" and run: "run_command E since p timeout w = (p', timeout', w')"
  shows "quota_ok p' \<and> pl_id p' = pl_id p \<and> pl_fd p' = pl_fd p \<and>
    (\<exists>ms. w_msgs w' = w_msgs w @ ms \<and> length ms \<le> 1 \<and> length ms \<le> length (pl_input p) \<and>
       map (command_of p) ms = map (\<lambda>l. Some (dropWhile c_isspace (bl_str l))) (take (length ms) (pl_input p)) \<and>
       pl_input p' = drop (length ms) (pl_input p) \<and>
       MSEC_PER_CMD * int (length ms) \<le> sint (pl_quota p) + sint since - sint (pl_quota p'))"
proof -
  let ?q = "pl_quota p + since"
  have q: "sint ?q = sint (pl_quota p) + sint since"
    by (rule sint_i32_add) (use p t in \<open>simp_all add: quota_ok_def tick_ok_def MAX_CMDS_def MSEC_PER_CMD_def\<close>)
  let ?r = "if MAX_CMDS * MSEC_PER_CMD < sint ?q then i32_of (MAX_CMDS * MSEC_PER_CMD) else ?q"
  have r: "sint ?r \<le> sint (pl_quota p) + sint since" "sint ?r \<le> MAX_CMDS * MSEC_PER_CMD" "- MSEC_PER_CMD \<le> sint ?r"
    using q p t by (auto simp: sint_i32_of quota_ok_def tick_ok_def MAX_CMDS_def MSEC_PER_CMD_def)
  show ?thesis
  proof (cases "pl_input p \<noteq> [] \<and> 0 \<le> sint ?r")
    case True
    have s: "sint (?r - i32_of MSEC_PER_CMD) = sint ?r - MSEC_PER_CMD"
      using r True sint_i32_sub [of ?r "i32_of MSEC_PER_CMD"]
      by (simp add: MSEC_PER_CMD_def MAX_CMDS_def)
    from True run have e: "p' = p\<lparr>pl_input := buf_delhead (pl_input p), pl_quota := ?r - i32_of MSEC_PER_CMD\<rparr>"
      "w' = player_command p (bl_str (hd (pl_input p))) E w"
      by (auto simp: run_command_def Let_def)
    have "pl_quota p' = ?r - i32_of MSEC_PER_CMD" unfolding e by simp
    then have s': "sint (pl_quota p') = sint ?r - MSEC_PER_CMD" using s by simp
    obtain l ls where l: "pl_input p = l # ls" using True by (cases "pl_input p") auto
    show ?thesis
      using r s' True e(2) l unfolding e(1)
      by (intro conjI exI [of _ "drop (length (w_msgs w)) (w_msgs w')"])
        (simp_all add: quota_ok_def MSEC_PER_CMD_def MAX_CMDS_def buf_delhead_def player_command_def parse_def
          do_parse_def Let_def event_add_def msg_add_def command_of_def)
  next
    case False
    with run have "p' = p\<lparr>pl_quota := ?r\<rparr>" "w' = w" by (auto simp: run_command_def Let_def)
    then show ?thesis using r by (auto simp: quota_ok_def)
  qed
qed

text \<open>
  What comes of a player over time: lines arrive, then \<open>queue_player_commands\<close> comes by, with the
  milliseconds since the last time and the world as it is then. The messages it queues are
  collected.
\<close>

fun session ::
  "env \<Rightarrow> (string list \<times> i32 \<times> timeval \<times> world) list \<Rightarrow> player \<Rightarrow> player \<times> message list" where
  "session E [] p = (p, [])"
| "session E ((arrived, since, timeout, w) # xs) p =
     (let (p, _, w') = run_command E since (p\<lparr>pl_input := fold buf_add arrived (pl_input p)\<rparr>) timeout w;
          (p, ms) = session E xs p
      in (p, drop (length (w_msgs w)) (w_msgs w') @ ms))"

abbreviation trimmed :: "string \<Rightarrow> string" where
  "trimmed \<equiv> dropWhile c_isspace"

lemma buf_strings: "map bl_str (fold buf_add ls b) = map bl_str b @ ls"
  by (induction ls arbitrary: b) (simp_all add: buf_add_def)

text \<open>
  C11: a player runs no more commands than the time allows: a burst of \<open>MAX_CMDS\<close>, then one in
  \<open>MSEC_PER_CMD\<close> milliseconds. None is lost and they run in their order, each as one message to
  the object of the player: what was run and what still waits is what has arrived.
\<close>

theorem rate_limit:
  assumes "quota_ok p" "\<forall>(_, since, _)\<in>set xs. tick_ok since" "session E xs p = (p', ms)"
  shows "MSEC_PER_CMD * int (length ms) \<le>
      sint (pl_quota p) + (\<Sum>(_, since, _)\<leftarrow>xs. sint since) + MSEC_PER_CMD \<and>
    map (command_of p) ms @ map (Some \<circ> trimmed \<circ> bl_str) (pl_input p') =
      map (Some \<circ> trimmed) (map bl_str (pl_input p) @ concat (map fst xs)) \<and>
    quota_ok p'"
proof -
  have "quota_ok p' \<and> pl_id p' = pl_id p \<and>
    MSEC_PER_CMD * int (length ms) \<le> sint (pl_quota p) + (\<Sum>(_, since, _)\<leftarrow>xs. sint since) - sint (pl_quota p') \<and>
    map (command_of p) ms @ map (Some \<circ> trimmed \<circ> bl_str) (pl_input p') =
      map (Some \<circ> trimmed) (map bl_str (pl_input p) @ concat (map fst xs))"
    using assms
  proof (induction xs arbitrary: p ms)
    case (Cons x xs)
    obtain arrived since timeout w where x: "x = (arrived, since, timeout, w)" by (cases x)
    let ?q = "p\<lparr>pl_input := fold buf_add arrived (pl_input p)\<rparr>"
    obtain p1 t1 w1 where r: "run_command E since ?q timeout w = (p1, t1, w1)" by (cases "run_command E since ?q timeout w")
    obtain ms2 where s: "session E xs p1 = (p', ms2)" "ms = drop (length (w_msgs w)) (w_msgs w1) @ ms2"
      using Cons.prems(3) r by (auto simp: x split: prod.splits)
    have "quota_ok ?q" "tick_ok since" using Cons.prems by (simp_all add: quota_ok_def x)
    from run_command_step [OF this r] obtain ms1 where ms1: "quota_ok p1" "pl_id p1 = pl_id p"
      "w_msgs w1 = w_msgs w @ ms1" "length ms1 \<le> length (pl_input ?q)"
      "map (command_of ?q) ms1 = map (\<lambda>l. Some (trimmed (bl_str l))) (take (length ms1) (pl_input ?q))"
      "pl_input p1 = drop (length ms1) (pl_input ?q)"
      "MSEC_PER_CMD * int (length ms1) \<le> sint (pl_quota p) + sint since - sint (pl_quota p1)" by auto
    have "\<forall>(_, since, _)\<in>set xs. tick_ok since" using Cons.prems(2) by simp
    note IH = Cons.IH [OF ms1(1) this s(1)]
    then have ih: "quota_ok p'" "pl_id p' = pl_id p1"
      "MSEC_PER_CMD * int (length ms2) \<le> sint (pl_quota p1) + (\<Sum>(_, since, _)\<leftarrow>xs. sint since) - sint (pl_quota p')"
      "map (command_of p1) ms2 @ map (Some \<circ> trimmed \<circ> bl_str) (pl_input p') =
        map (Some \<circ> trimmed) (map bl_str (pl_input p1) @ concat (map fst xs))" by blast+
    have ms: "ms = ms1 @ ms2" using s(2) ms1(3) by simp
    have c: "command_of p1 = command_of p" "command_of ?q = command_of p"
      using ms1(2) by (simp_all add: command_of_def fun_eq_iff)
    have "map (command_of p) ms @ map (Some \<circ> trimmed \<circ> bl_str) (pl_input p') =
        map (Some \<circ> trimmed \<circ> bl_str) (take (length ms1) (pl_input ?q)) @
        map (Some \<circ> trimmed) (map bl_str (drop (length ms1) (pl_input ?q)) @ concat (map fst xs))"
      using ih(4) ms1(5,6) unfolding c by (simp add: ms comp_def)
    also have "\<dots> = map (Some \<circ> trimmed) (map bl_str (pl_input ?q) @ concat (map fst xs))"
      by (simp flip: map_append append_assoc map_map)
    also have "\<dots> = map (Some \<circ> trimmed) (map bl_str (pl_input p) @ concat (map fst (x # xs)))"
      by (simp add: buf_strings x)
    finally have "map (command_of p) ms @ map (Some \<circ> trimmed \<circ> bl_str) (pl_input p') =
      map (Some \<circ> trimmed) (map bl_str (pl_input p) @ concat (map fst (x # xs)))" .
    moreover have "MSEC_PER_CMD * int (length ms) \<le>
        sint (pl_quota p) + (\<Sum>(_, since, _)\<leftarrow>x # xs. sint since) - sint (pl_quota p')"
      using ih(3) ms1(7) by (simp add: ms x algebra_simps)
    moreover have "pl_id p' = pl_id p" using ih(2) ms1(2) by simp
    ultimately show ?case using ih(1) by blast
  qed simp
  then show ?thesis by (auto simp: quota_ok_def)
qed

section \<open>Cutting the input\<close>

definition dangling :: "player \<Rightarrow> string" where
  "dangling p = (case pl_dangling p of None \<Rightarrow> [] | Some d \<Rightarrow> d)"

text \<open>What is kept of a line is printable, so it is kept again.\<close>

lemma scan_kept:
  "list_all printable k \<Longrightarrow> scan_input (k @ s) kept 0 = scan_input s (kept @ k) 0"
  by (induction k arbitrary: kept) (auto simp: printable_def)

lemma scan_input_kept:
  "scan_input s kept below = Some (cmds, k, b) \<Longrightarrow> list_all printable kept \<Longrightarrow> list_all printable k"
proof (induction s kept below arbitrary: cmds rule: scan_input.induct)
  case (2 c s kept below)
  have "list_all printable (butlast kept)" using 2(8) by (auto simp: list_all_iff dest: in_set_butlastD)
  moreover have "printable CHR '' ''" by (simp add: printable_def)
  ultimately show ?case using 2 by (auto split: if_splits)
qed simp

text \<open>A buffer that is below its start is empty, and stays so until the end of the chunk.\<close>

lemma scan_below:
  "scan_input s [] b = Some r \<Longrightarrow> 0 < b \<Longrightarrow> fst r = [] \<and> fst (snd r) = [] \<and>
     (\<forall>b'. \<exists>b2. scan_input s [] b' = Some ([], [], b2))"
proof (induction s arbitrary: b)
  case (Cons c s)
  then have c: "c = CHR 0x08 \<or> c \<noteq> CHR 0x0A \<and> c \<noteq> CHR 0x09 \<and> c \<noteq> CHR 0x08 \<and> \<not> printable c"
    by (auto split: if_splits)
  show ?case
  proof (cases "c = CHR 0x08")
    case True
    with Cons show ?thesis by (fastforce split: if_splits)
  next
    case False
    with c Cons show ?thesis by auto
  qed
qed auto

lemma scan_append:
  "scan_input (s @ t) kept below = (case scan_input s kept below of None \<Rightarrow> None
     | Some (cmds, k, b) \<Rightarrow> map_option (\<lambda>(cs, r). (cmds @ cs, r)) (scan_input t k b))"
proof (induction s arbitrary: kept below)
  case Nil
  show ?case by (cases "scan_input t kept below") auto
next
  case (Cons c s)
  show ?case
    by (cases "c = CHR 0x0A"; cases "c = CHR 0x09"; cases "c = CHR 0x08"; cases "printable c")
      (auto simp: Cons.IH option.map_comp comp_def case_prod_unfold split: option.splits)
qed

lemma scan_low:
  "scan_input s kept below = Some (cmds, k, b) \<Longrightarrow> (0 < below \<longrightarrow> kept = []) \<Longrightarrow> 0 < b \<Longrightarrow> k = []"
  by (induction s kept below arbitrary: cmds rule: scan_input.induct) (auto split: if_splits)

lemma c_text_nul_free: "nul_free s \<Longrightarrow> c_text s = s"
  by (auto simp: c_text_def nul_free_def takeWhile_eq_all_conv)

lemma fold_buf_add: "fold buf_add ls b = b @ map (\<lambda>s. \<lparr>bl_str = s, bl_ptr = 0\<rparr>) ls"
  by (induction ls arbitrary: b) (simp_all add: buf_add_def)

fun arrive :: "string list list \<Rightarrow> player \<Rightarrow> player option" where
  "arrive [] p = Some p"
| "arrive (chunks # css) p = do { (_, p) \<leftarrow> player_input chunks p; arrive css p }"

definition with_input :: "string list \<Rightarrow> string \<Rightarrow> player \<Rightarrow> player" where
  "with_input cmds kept p = p\<lparr>pl_input := fold buf_add cmds (pl_input p),
     pl_dangling := (if kept = [] then None else Some kept)\<rparr>"

lemma with_input_simps [simp]:
  "dangling (with_input cmds kept p) = kept" "pl_dangling (with_input cmds kept p) \<noteq> Some []"
  "with_input c2 k2 (with_input c1 k1 p) = with_input (c1 @ c2) k2 p"
  by (simp_all add: with_input_def dangling_def fold_buf_add)

text \<open>
  C10: the commands of a player do not depend on how the network cuts up what was typed. However
  the bytes arrive, over any number of wake-ups of the server and in any number of reads, the
  commands queued and the half command that is left are those of the bytes in one piece.
\<close>

theorem input_reassembly:
  assumes "list_all printable (dangling p)" "pl_dangling p \<noteq> Some []"
    and "\<forall>chunks\<in>set css. chunks \<noteq> [] \<and> list_all nul_free chunks"
    and "scan_input (dangling p @ concat (concat css)) [] 0 = Some (cmds, kept, b)"
  shows "arrive css p = Some (with_input cmds kept p)"
  using assms
proof (induction css arbitrary: p cmds b)
  case Nil
  then have "cmds = []" "kept = dangling p" using scan_kept [of "dangling p" "[]" "[]"] by simp_all
  with Nil(2) show ?case
    by (cases "pl_dangling p") (simp_all add: with_input_def dangling_def)
next
  case (Cons chunks css)
  let ?s = "dangling p @ concat chunks" and ?t = "concat (concat css)"
  have plain: "concat (map c_text chunks) = concat chunks"
    using Cons.prems(3) by (auto simp: c_text_nul_free list_all_iff intro!: arg_cong [of _ _ concat] map_idI)
  have "scan_input (?s @ ?t) [] 0 = Some (cmds, kept, b)" using Cons.prems(4) by simp
  then obtain c1 k1 b1 where s1: "scan_input ?s [] 0 = Some (c1, k1, b1)"
    and "map_option (\<lambda>(cs, r). (c1 @ cs, r)) (scan_input ?t k1 b1) = Some (cmds, kept, b)"
    unfolding scan_append [of ?s ?t] by (cases "scan_input ?s [] 0") auto
  then obtain c2 b2 where s: "scan_input ?s [] 0 = Some (c1, k1, b1)"
    "scan_input ?t k1 b1 = Some (c2, kept, b2)" "cmds = c1 @ c2"
    by (auto simp: map_option_eq_Some)
  have k1: "list_all printable k1" using scan_input_kept [OF s(1)] by simp
  have "\<exists>b3. scan_input (k1 @ ?t) [] 0 = Some (c2, kept, b3)"
  proof (cases "0 < b1")
    case True
    then have "k1 = []" using scan_low [OF s(1)] by simp
    with s(2) True scan_below [of ?t b1] show ?thesis by fastforce
  next
    case False
    with s(2) show ?thesis unfolding scan_kept [OF k1] by auto
  qed
  then obtain b3 where t: "scan_input (k1 @ ?t) [] 0 = Some (c2, kept, b3)" ..
  have "player_input chunks p = Some (False, with_input c1 k1 p)"
    using s(1) plain Cons.prems(3) by (simp add: player_input_def grab_input_def with_input_def dangling_def)
  moreover have "arrive css (with_input c1 k1 p) = Some (with_input c2 kept (with_input c1 k1 p))"
    by (rule Cons.IH) (use k1 t Cons.prems(3) in auto)
  ultimately show ?case using s(3) by simp
qed

text \<open>Without a backspace the input is always taken, and a command is a line in what can be printed.\<close>

definition clean_char :: "char \<Rightarrow> string" where
  "clean_char c = (if c = CHR 0x09 then '' '' else if printable c then [c] else [])"

fun typed_lines :: "string \<Rightarrow> string \<Rightarrow> string list \<times> string" where
  "typed_lines [] kept = ([], kept)"
| "typed_lines (c # s) kept =
     (if c = CHR 0x0A then (let (cmds, r) = typed_lines s [] in (kept # cmds, r))
      else typed_lines s (kept @ clean_char c))"

lemma scan_lines:
  "CHR 0x08 \<notin> set s \<Longrightarrow> scan_input s kept 0 = Some (let (cmds, r) = typed_lines s kept in (cmds, r, 0))"
  by (induction s kept rule: typed_lines.induct) (auto simp: clean_char_def split: prod.splits)

text \<open>
  Backspaces at the start of a line go back before the buffer: what is typed after them is
  written outside it.
\<close>

theorem backspace_underflow:
  assumes "pl_dangling p = None" "printable c" "nul_free s"
  shows "player_input [CHR 0x08 # c # s] p = None"
proof -
  have "nul_free (CHR 0x08 # c # s)" using assms by (auto simp: printable_def)
  then show ?thesis
    using assms by (auto simp: player_input_def grab_input_def c_text_nul_free printable_def)
qed

section \<open>The output\<close>

definition unsent :: "bline \<Rightarrow> string" where
  "unsent l = drop (bl_ptr l) (bl_str l)"

definition pending :: "buf \<Rightarrow> string" where
  "pending b = concat (map unsent b)"

lemma pending_simps [simp]:
  "pending [] = []" "pending (l # b) = unsent l @ pending b" "pending (buf_add s b) = pending b @ s"
  by (simp_all add: pending_def buf_add_def unsent_def)

lemma send_output_pending: "send_output ws b = (sent, b') \<Longrightarrow> sent @ pending b' = pending b"
proof (induction ws b arbitrary: sent rule: send_output.induct)
  case (3 w ws l b)
  have "drop (nat w) (unsent l) = unsent (l\<lparr>bl_ptr := bl_ptr l + nat w\<rparr>)"
    by (simp add: unsent_def add.commute)
  then have part: "take (nat w) (unsent l) @ unsent (l\<lparr>bl_ptr := bl_ptr l + nat w\<rparr>) = unsent l"
    by (metis append_take_drop_id)
  then show ?case using 3
    by (auto simp: Let_def buf_delhead_def split: if_splits prod.splits simp flip: unsent_def)
qed simp_all

lemma send_output_all: "send_output (map (\<lambda>l. int (length (unsent l))) b) b = (pending b, [])"
  by (induction b) (simp_all add: Let_def buf_delhead_def unsent_def)

datatype out_op = Say string bool | Flush "int list"

fun out_run :: "out_op list \<Rightarrow> player \<times> net \<Rightarrow> player \<times> net" where
  "out_run [] st = st"
| "out_run (Say msg newline # xs) (p, n) = out_run xs (player_output msg newline p, n)"
| "out_run (Flush ws # xs) (p, n) = out_run xs (flush_output ws p n)"

fun said :: "out_op \<Rightarrow> string" where
  "said (Say msg newline) = (if newline then msg @ crlf else msg)"
| "said (Flush ws) = []"

text \<open>
  C12: what a player is told is one stream of bytes. Whatever part of it every \<open>write\<close> takes, and
  whenever the buffer is flushed, what the socket got and what still waits are all that was told,
  in order, nothing twice; and a socket that takes every line empties the buffer.
\<close>

theorem output_stream:
  assumes "out_run ops (p, n) = (p', n')"
  shows "\<exists>log. n_sent n' = n_sent n @ map (Pair (pl_fd p)) log \<and>
      concat log @ pending (pl_output p') = pending (pl_output p) @ concat (map said ops) \<and>
    send_output (map (\<lambda>l. int (length (unsent l))) (pl_output p')) (pl_output p') = (pending (pl_output p'), [])"
  using assms
proof (induction ops arbitrary: p n)
  case (Cons x ops)
  show ?case
  proof (cases x)
    case (Say msg newline)
    with Cons.prems Cons.IH [of "player_output msg newline p" n] show ?thesis
      by (auto simp: player_output_def)
  next
    case (Flush ws)
    obtain sent b where s: "send_output ws (pl_output p) = (sent, b)" by (cases "send_output ws (pl_output p)")
    let ?n = "n\<lparr>n_sent := n_sent n @ [(pl_fd p, sent)]\<rparr>"
    have "out_run ops (p\<lparr>pl_output := b\<rparr>, ?n) = (p', n')"
      using Cons.prems s by (simp add: Flush flush_output_def)
    from Cons.IH [OF this] obtain log where l: "n_sent n' = (n_sent n @ [(pl_fd p, sent)]) @ map (Pair (pl_fd p)) log"
      "concat log @ pending (pl_output p') = pending b @ concat (map said ops)" by auto
    then have "concat (sent # log) @ pending (pl_output p') = pending (pl_output p) @ concat (map said (x # ops))"
      using send_output_pending [OF s, symmetric] by (simp add: Flush)
    with l(1) send_output_all show ?thesis by (intro exI [of _ "sent # log"]) simp
  qed
qed (simp add: send_output_all)

section \<open>One connection for an object\<close>

text \<open>A connection stands for its object once it is connected, or was opened for it.\<close>

definition stands :: "player \<Rightarrow> bool" where
  "stands p \<longleftrightarrow> pl_connected p \<or> pl_outbound p"

definition conn_key :: "player \<Rightarrow> int \<times> i32 \<times> bool" where
  "conn_key p = (pl_fd p, pl_id p, stands p)"

definition keys_ok :: "(int \<times> i32 \<times> bool) list \<Rightarrow> bool" where
  "keys_ok ks \<longleftrightarrow> distinct (map fst ks) \<and> distinct (map (fst \<circ> snd) (filter (snd \<circ> snd) ks))"

abbreviation conn_keys :: "net \<Rightarrow> (int \<times> i32 \<times> bool) list" where
  "conn_keys n \<equiv> map conn_key (n_players n)"

definition conns_ok :: "net \<Rightarrow> bool" where
  "conns_ok n \<longleftrightarrow> keys_ok (conn_keys n)"

lemma subseq_distinct: "subseq xs ys \<Longrightarrow> distinct ys \<Longrightarrow> distinct xs"
  by (auto simp: subseq_conv_nths)

lemma keys_ok_sub: "subseq ks' ks \<Longrightarrow> keys_ok ks \<Longrightarrow> keys_ok ks'"
  unfolding keys_ok_def by (meson subseq_distinct subseq_filter subseq_map)

lemma keys_ok_Cons:
  "keys_ok ((fd, who, s) # ks) \<longleftrightarrow> fd \<notin> fst ` set ks \<and> (s \<longrightarrow> (\<forall>(_, i, t)\<in>set ks. t \<longrightarrow> i \<noteq> who)) \<and> keys_ok ks"
  by (force simp: keys_ok_def)

lemma drop_players_spec:
  assumes "\<And>p n n'. body p n = Some n' \<Longrightarrow> n_players n' = n_players n"
    and "drop_players gone body l n = Some (l', n')"
  shows "l' = filter (\<lambda>p. \<not> gone p) l \<and> n_players n' = n_players n"
  using assms(2)
proof (induction l arbitrary: n l')
  case (Cons p l)
  then show ?case using assms(1) by (auto split: if_splits bind_splits)
qed simp

lemma remove_players_spec:
  assumes "remove_players gone body n = Some n'"
    and "\<And>p n n'. body p n = Some n' \<Longrightarrow> n_players n' = n_players n"
  shows "n_players n' = filter (\<lambda>p. \<not> gone p) (n_players n)"
  using assms(1) drop_players_spec [OF assms(2)] by (auto simp: remove_players_def)

lemma tell_gone_players: "tell_gone E p n = Some n' \<Longrightarrow> n_players n' = n_players n"
  by (auto simp: tell_gone_def)

lemma player_disconnect_players: "player_disconnect writes E p n = Some n' \<Longrightarrow> n_players n' = n_players n"
  by (auto simp: player_disconnect_def flush_output_def split: prod.splits dest!: tell_gone_players)

lemma subseq_conn_filter: "subseq (map conn_key (filter P l)) (map conn_key l)"
  by (rule subseq_map) simp

lemma update_first_key: "(\<And>p. conn_key (f p) = conn_key p) \<Longrightarrow> map conn_key (update_first P f l) = map conn_key l"
  by (induction l) auto

lemma run_commands_keys:
  "run_commands E since l timeout w = (l', timeout', w') \<Longrightarrow> map conn_key l' = map conn_key l"
proof (induction E since l timeout w arbitrary: l' timeout' w' rule: run_commands.induct)
  case (2 E since p l timeout w)
  have "conn_key (fst (run_command E since p timeout w)) = conn_key p"
    by (simp add: run_command_def Let_def conn_key_def stands_def)
  with 2 show ?case by (auto split: prod.splits)
qed simp

lemma player_input_key: "player_input chunks p = Some (dead, p') \<Longrightarrow> conn_key p' = conn_key p"
  by (auto simp: player_input_def conn_key_def stands_def split: option.splits bind_splits)

lemma player_ready_key:
  assumes "player_ready io E p n = Some (r, n')"
  shows "n_players n' = n_players n \<and> (\<forall>p'. r = Some p' \<longrightarrow> conn_key p' = conn_key p)"
proof -
  let ?st = "if \<not> io_out io (pl_fd p) then (p, n)
     else if pl_outbound p \<and> \<not> pl_connected p
     then (p\<lparr>pl_connected := True\<rparr>, on_world (new_connect (pl_id p) (pl_fd p) E) n)
     else flush_output (io_writes io (pl_fd p)) p n"
  obtain q m where st: "?st = (q, m)" by (cases ?st)
  then have q: "conn_key q = conn_key p" "n_players m = n_players n"
    by (auto simp: conn_key_def stands_def flush_output_def split: if_splits prod.splits)
  from assms st q show ?thesis
    unfolding player_ready_def Let_def st
    by (auto dest!: player_input_key tell_gone_players split: if_splits bind_splits)
qed

lemma players_ready_keys:
  "players_ready io E l n = Some (l', n') \<Longrightarrow> subseq (map conn_key l') (map conn_key l) \<and> n_players n' = n_players n"
proof (induction l arbitrary: n l')
  case (Cons p l)
  then obtain r n1 l1 where r: "player_ready io E p n = Some (r, n1)" "players_ready io E l n1 = Some (l1, n')"
    "l' = (case r of None \<Rightarrow> l1 | Some p \<Rightarrow> p # l1)" by (auto split: bind_splits)
  with Cons.IH [OF r(2)] player_ready_key [OF r(1)] show ?case by (cases r) auto
qed simp

text \<open>
  What happens to the connections. A new socket has a number that no open one has; the world
  may change in any way.
\<close>

inductive net_step :: "env \<Rightarrow> net \<Rightarrow> net \<Rightarrow> bool" for E where
  Told: "net_step E n (tell who msg newline n)"
| Told_fd: "net_step E n (tell_fd fd msg newline n)"
| Left: "disconnect writes who E n = Some n' \<Longrightarrow> net_step E n n'"
| Left_fd: "disconnect_fd writes fd E n = Some n' \<Longrightarrow> net_step E n n'"
| Parsed: "set_parse fd who E n = Some n' \<Longrightarrow> net_step E n n'"
| Accepted: "psock \<notin> pl_fd ` set (n_players n) \<Longrightarrow> net_step E n (new_player (Some (psock, addr, port)) E n)"
| Opened: "newsock \<notin> pl_fd ` set (n_players n) \<Longrightarrow>
    net_open_connect who addr port newsock res E n = Some (r, n') \<Longrightarrow> net_step E n n'"
| Commanded: "queue_player_commands now timeout E n = (timeout', n') \<Longrightarrow> net_step E n n'"
| Ready: "players_ready io E (n_players n) n = Some (l, n') \<Longrightarrow> net_step E n (n'\<lparr>n_players := l\<rparr>)"
| Worked: "net_step E n (n\<lparr>n_world := w\<rparr>)"

lemma conns_ok_sub: "subseq (conn_keys n') (conn_keys n) \<Longrightarrow> conns_ok n \<Longrightarrow> conns_ok n'"
  unfolding conns_ok_def by (rule keys_ok_sub)

lemma keys_ok_conn:
  "keys_ok (map conn_key (p # l)) \<longleftrightarrow> (\<forall>q\<in>set l. pl_fd q \<noteq> pl_fd p) \<and>
     (stands p \<longrightarrow> (\<forall>q\<in>set l. stands q \<longrightarrow> pl_id q \<noteq> pl_id p)) \<and> keys_ok (map conn_key l)"
proof -
  have "pl_fd p \<notin> fst ` set (map conn_key l) \<longleftrightarrow> (\<forall>q\<in>set l. pl_fd q \<noteq> pl_fd p)"
    unfolding conn_key_def by (simp add: image_image) (metis imageE imageI)
  moreover have "(\<forall>(_, i, t)\<in>set (map conn_key l). t \<longrightarrow> i \<noteq> pl_id p) \<longleftrightarrow>
      (\<forall>q\<in>set l. stands q \<longrightarrow> pl_id q \<noteq> pl_id p)" by (auto simp: conn_key_def)
  moreover have "map conn_key (p # l) = (pl_fd p, pl_id p, stands p) # map conn_key l" by (simp add: conn_key_def)
  ultimately show ?thesis by (simp only: keys_ok_Cons)
qed

lemma become_keys:
  assumes "keys_ok (map conn_key l)" "\<forall>p\<in>set l. pl_id p = who \<longrightarrow> pl_fd p = fd"
  shows "keys_ok (map conn_key (map (\<lambda>p. if pl_fd p = fd then p\<lparr>pl_connected := True, pl_id := who\<rparr> else p) l))"
    (is "keys_ok (map conn_key (map ?f l))")
  using assms
proof (induction l)
  case (Cons p l)
  from Cons.prems(1) have p: "\<forall>q\<in>set l. pl_fd q \<noteq> pl_fd p"
    "stands p \<longrightarrow> (\<forall>q\<in>set l. stands q \<longrightarrow> pl_id q \<noteq> pl_id p)" "keys_ok (map conn_key l)"
    unfolding keys_ok_conn by blast+
  with Cons have ih: "keys_ok (map conn_key (map ?f l))" by simp
  have fd: "\<forall>q\<in>set (map ?f l). pl_fd q \<noteq> pl_fd (?f p)" using p(1) by auto
  have "stands (?f p) \<longrightarrow> (\<forall>q\<in>set (map ?f l). stands q \<longrightarrow> pl_id q \<noteq> pl_id (?f p))"
  proof (cases "pl_fd p = fd")
    case True
    with p(1) have "map ?f l = l" by (intro map_idI) auto
    moreover have "\<forall>q\<in>set l. pl_id q \<noteq> who" using p(1) True Cons.prems(2) by auto
    ultimately show ?thesis using True by simp
  next
    case False
    with Cons.prems(2) have "pl_id p \<noteq> who" by auto
    with p(2) False show ?thesis by auto
  qed
  with ih fd show ?case unfolding list.map(2) [of ?f] keys_ok_conn by blast
qed (simp add: keys_ok_def)

lemma set_parse_ok:
  assumes "set_parse fd who E n = Some n'" "conns_ok n"
  shows "conns_ok n'"
proof -
  let ?l = "filter (\<lambda>p. \<not> (pl_id p = who \<and> pl_fd p \<noteq> fd)) (n_players n)"
  from assms(1) have n': "n_players n' =
      map (\<lambda>p. if pl_fd p = fd then p\<lparr>pl_connected := True, pl_id := who\<rparr> else p) ?l"
    by (auto simp: set_parse_def dest!: remove_players_spec [OF _ tell_gone_players] split: bind_splits)
  have "keys_ok (map conn_key ?l)"
    using keys_ok_sub [OF subseq_conn_filter] assms(2) unfolding conns_ok_def by blast
  then show ?thesis unfolding conns_ok_def n' by (rule become_keys) auto
qed

lemma open_ok:
  assumes "net_open_connect who addr port newsock res E n = Some (r, n')" "conns_ok n"
    and new: "newsock \<notin> pl_fd ` set (n_players n)"
  shows "conns_ok n'"
proof (cases "addr = 0")
  case False
  then obtain m where m: "remove_players (\<lambda>p. pl_id p = who) (tell_gone E) n = Some m"
    using assms(1) by (auto simp: net_open_connect_def split: bind_splits)
  let ?l = "filter (\<lambda>p. \<not> pl_id p = who) (n_players n)"
  have l: "n_players m = ?l" using remove_players_spec [OF m tell_gone_players] .
  have ok: "keys_ok (map conn_key ?l)"
    using keys_ok_sub [OF subseq_conn_filter] assms(2) unfolding conns_ok_def by blast
  have "n_players n' = ?l \<or> (\<exists>p. n_players n' = p # ?l \<and> pl_fd p = newsock \<and> pl_id p = who)"
    using assms(1) False m l by (auto simp: net_open_connect_def Let_def init_player_def split: if_splits conn_result.splits)
  moreover have "keys_ok (map conn_key (p # ?l))" if "pl_fd p = newsock" "pl_id p = who" for p
    using ok new that by (auto simp: conn_key_def keys_ok_Cons)
  ultimately show ?thesis using ok by (auto simp: conns_ok_def)
qed (use assms in \<open>simp add: net_open_connect_def\<close>)

lemma new_player_ok:
  assumes "psock \<notin> pl_fd ` set (n_players n)" "conns_ok n"
  shows "conns_ok (new_player (Some (psock, addr, port)) E n)"
  using assms by (auto simp: conns_ok_def new_player_def Let_def init_player_def conn_key_def
    stands_def keys_ok_Cons)

lemma net_step_ok: "net_step E n n' \<Longrightarrow> conns_ok n \<Longrightarrow> conns_ok n'"
proof (induction rule: net_step.induct)
  case (Told n who msg newline)
  have "conn_keys (tell who msg newline n) = conn_keys n"
    unfolding tell_def by (simp, rule update_first_key) (simp add: player_output_def conn_key_def stands_def)
  with Told show ?case by (simp add: conns_ok_def)
next
  case (Told_fd n fd msg newline)
  have "conn_keys (tell_fd fd msg newline n) = conn_keys n"
    unfolding tell_fd_def by (simp, rule update_first_key) (simp add: player_output_def conn_key_def stands_def)
  with Told_fd show ?case by (simp add: conns_ok_def)
next
  case (Left writes who n n')
  then have "n_players n' = filter (\<lambda>p. \<not> pl_id p = who) (n_players n)"
    using remove_players_spec player_disconnect_players by (fastforce simp: disconnect_def)
  with subseq_conn_filter Left show ?case by (metis conns_ok_sub)
next
  case (Left_fd writes fd n n')
  then have "n_players n' = filter (\<lambda>p. \<not> pl_fd p = fd) (n_players n)"
    using remove_players_spec player_disconnect_players by (fastforce simp: disconnect_fd_def)
  with subseq_conn_filter Left_fd show ?case by (metis conns_ok_sub)
next
  case (Commanded now timeout n timeout' n')
  then have "conn_keys n' = conn_keys n"
    by (auto simp: queue_player_commands_def Let_def dest: run_commands_keys split: prod.splits)
  with Commanded show ?case by (simp add: conns_ok_def)
next
  case (Ready io n l n')
  then show ?case using players_ready_keys conns_ok_sub [of "n'\<lparr>n_players := l\<rparr>" n] by simp
next
  case (Parsed fd who n n')
  then show ?case by (rule set_parse_ok)
next
  case (Accepted psock n addr port)
  then show ?case by (rule new_player_ok)
next
  case (Opened newsock n who addr port res r n')
  then show ?case using open_ok by blast
qed (simp add: conns_ok_def)

text \<open>
  C13: an object has one connection. Starting with no players, whatever happens, no two open
  sockets have one number and no two connections stand for one object, so what is told to an
  object that is connected has one place to go.
\<close>

theorem one_connection:
  assumes "(net_step E)\<^sup>*\<^sup>* n n'" "n_players n = []" "p \<in> set (n_players n')" "q \<in> set (n_players n')"
  shows "(pl_fd p = pl_fd q \<longrightarrow> p = q) \<and> (stands p \<and> stands q \<and> pl_id p = pl_id q \<longrightarrow> p = q)"
proof -
  have "conns_ok n" using assms(2) by (simp add: conns_ok_def keys_ok_def)
  with assms(1) have ok: "conns_ok n'" by (induction rule: rtranclp_induct) (auto intro: net_step_ok)
  then have d: "distinct (map pl_fd (n_players n'))" "distinct (map pl_id (filter stands (n_players n')))"
    by (simp_all add: conns_ok_def keys_ok_def conn_key_def comp_def filter_map)
  from d(1) assms(3,4) have "pl_fd p = pl_fd q \<longrightarrow> p = q" by (auto simp: distinct_map dest: inj_onD)
  moreover from d(2) assms(3,4) have "stands p \<and> stands q \<and> pl_id p = pl_id q \<longrightarrow> p = q"
    by (auto simp: distinct_map dest: inj_onD)
  ultimately show ?thesis by blast
qed

section \<open>Who is heard\<close>

lemma serv_find_mem: "serv_find P t = Some (Some s) \<Longrightarrow> s \<in> set (sv_entries t) \<and> P s"
  by (auto simp: serv_find_def find_Some_iff split: option.splits if_splits)

lemma set_last_mem:
  "s' \<in> set (set_last i m l) \<Longrightarrow> \<exists>s\<in>set l. sv_id s' = sv_id s \<and> sv_connected s' = sv_connected s"
  by (induction l) (auto split: if_splits)

lemma receive_servers:
  assumes "receive_message E i line w = Some (r, t, w')" "s' \<in> set (sv_entries t)"
  shows "\<exists>s\<in>set (sv_entries (e_servers E)). sv_id s' = sv_id s \<and> sv_connected s' = sv_connected s"
  using assms set_last_mem
  by (auto simp: receive_message_def serv_discardmsg_def split: bind_splits option.splits if_splits prod.splits)

lemma set_connected_mem:
  assumes "s' \<in> set (sv_entries (set_connected name up t))" "serv_name2server t name = Some (Some s0)"
  shows "\<exists>s\<in>set (sv_entries t). sv_id s' = sv_id s \<and> (sv_connected s' \<longrightarrow> sv_connected s \<or> up \<and> s = s0)"
proof -
  let ?P = "\<lambda>s. c_strcasecmp (sv_name s) name = 0"
  let ?f = "\<lambda>s. if up then s\<lparr>sv_connected := True, sv_last := -1\<rparr> else s\<lparr>sv_connected := False\<rparr>"
  have "find ?P (sv_entries t) = Some s0"
    using assms(2) by (auto simp: serv_name2server_def serv_find_def split: option.splits if_splits)
  then obtain xs ys where "sv_entries t = xs @ s0 # ys" "update_first ?P ?f (sv_entries t) = xs @ ?f s0 # ys"
    by (rule update_first_split)
  with assms(1) show ?thesis by (auto simp: set_connected_def)
qed


text \<open>Anyone can disconnect a server: the command is not verified.\<close>

theorem disconnect_unverified:
  assumes "serv_name2server (n_servers n) name = Some (Some s)"
    and "parse_connect cmd = (''*disconnect'', name, x)" "hd cmd = CHR ''*''" "cmd \<noteq> []"
  shows "\<exists>w. server_command S addr port cmd E n =
    Some ([], n\<lparr>n_servers := set_connected name False (n_servers n), n_world := w\<rparr>)"
proof -
  have "\<exists>w. disconnect_server (sv_id s) E (n_world n) = Some w"
    by (simp add: disconnect_server_def server_event_def send_message_def sys_obj_def Let_def)
  with assms show ?thesis by (auto simp: server_command_def meta_command_def)
qed

section \<open>The properties on concrete connections\<close>

definition demo_net :: net where
  "demo_net = \<lparr>n_players = [], n_nfds = 4, n_last = 0, n_sent = [], n_servers = demo_servers,
     n_world = demo_world [] []\<rparr>"

definition demo_time :: timeval where
  "demo_time = \<lparr>tv_sec = 60, tv_usec = 0\<rparr>"

theorem rate_limit_witness:
  "\<exists>p' ms. session demo_env [([''look'', '' say hi''], 10, demo_time, demo_world [] []),
       ([], 20, demo_time, demo_world [] [])] (init_player 7) = (p', ms) \<and>
     1000 * int (length ms) \<le> 101030"
proof -
  let ?xs = "[([''look'', '' say hi''], 10, demo_time, demo_world [] []), ([], 20, demo_time, demo_world [] [])]"
  obtain p' ms where s: "session demo_env ?xs (init_player 7) = (p', ms)"
    by (cases "session demo_env ?xs (init_player 7)")
  have "quota_ok (init_player 7)" "\<forall>(_, since, _)\<in>set ?xs. tick_ok since"
    by (simp_all add: quota_ok_def init_player_def MAX_CMDS_def MSEC_PER_CMD_def tick_ok_def)
  from rate_limit [OF this s] s show ?thesis
    by (simp add: init_player_def MAX_CMDS_def MSEC_PER_CMD_def)
qed

theorem input_reassembly_witness:
  "arrive [[''lo''], [''ok'' @ [CHR 0x0D, CHR 0x0A], ''no'']] (init_player 7) =
     Some (with_input [''look''] ''no'' (init_player 7))"
  by (rule input_reassembly [where b = 0])
    (simp_all add: dangling_def init_player_def printable_def)

theorem output_stream_witness:
  "\<exists>p' n' log. out_run [Say ''hello'' True, Flush [3], Say ''x'' False, Flush [-1]] (init_player 7, demo_net) = (p', n') \<and>
     n_sent n' = map (Pair 7) log \<and> concat log @ pending (pl_output p') = ''hello'' @ crlf @ ''x''"
proof -
  let ?ops = "[Say ''hello'' True, Flush [3], Say ''x'' False, Flush [-1]]"
  obtain p' n' where r: "out_run ?ops (init_player 7, demo_net) = (p', n')"
    by (cases "out_run ?ops (init_player 7, demo_net)")
  from output_stream [OF this] obtain log where "n_sent n' = n_sent demo_net @ map (Pair (pl_fd (init_player 7))) log"
    "concat log @ pending (pl_output p') = pending (pl_output (init_player 7)) @ concat (map said ?ops)" by blast
  then have "n_sent n' = map (Pair 7) log \<and> concat log @ pending (pl_output p') = ''hello'' @ crlf @ ''x''"
    by (simp add: demo_net_def init_player_def buf_init_def)
  with r show ?thesis by blast
qed

theorem backspace_underflow_witness:
  "player_input [CHR 0x08 # CHR ''x'' # [CHR 0x0A]] (init_player 7) = None"
  by (rule backspace_underflow) (simp_all add: init_player_def printable_def)

theorem one_connection_witness:
  "\<exists>n p. (net_step demo_env)\<^sup>*\<^sup>* demo_net n \<and> p \<in> set (n_players n) \<and> pl_id p = 2 \<and> stands p \<and>
     (\<forall>q\<in>set (n_players n). stands q \<and> pl_id q = 2 \<longrightarrow> q = p)"
proof -
  let ?n1 = "new_player (Some (7, 9, 9)) demo_env demo_net"
  have n1: "n_players ?n1 = [(init_player 7)\<lparr>pl_addr := 9, pl_port := 9\<rparr>]"
    by (simp add: new_player_def Let_def demo_net_def)
  obtain n where n: "set_parse 7 2 demo_env ?n1 = Some n"
    "n_players n = [(init_player 7)\<lparr>pl_addr := 9, pl_port := 9, pl_connected := True, pl_id := 2\<rparr>]"
    using n1 by (simp add: set_parse_def remove_players_def init_player_def)
  have "net_step demo_env demo_net ?n1" by (rule Accepted) (simp add: demo_net_def)
  moreover have "net_step demo_env ?n1 n" using n(1) by (rule Parsed)
  ultimately have s: "(net_step demo_env)\<^sup>*\<^sup>* demo_net n" by (meson r_into_rtranclp rtranclp_trans)
  let ?p = "(init_player 7)\<lparr>pl_addr := 9, pl_port := 9, pl_connected := True, pl_id := 2\<rparr>"
  have p: "?p \<in> set (n_players n)" "stands ?p" "pl_id ?p = 2" using n(2) by (simp_all add: stands_def)
  have e: "n_players demo_net = []" by (simp add: demo_net_def)
  have "q = ?p" if q: "q \<in> set (n_players n)" "stands q \<and> pl_id q = 2" for q
  proof -
    have "pl_id q = pl_id ?p" using q(2) unfolding p(3) by blast
    then show ?thesis using one_connection [OF s e q(1) p(1)] q(2) p(2) by blast
  qed
  with s p show ?thesis by blast
qed

definition demo_cfg :: netcfg where
  "demo_cfg = \<lparr>promiscuous = False, verify_servers = True, hostof = (\<lambda>a. if a = 5 then Some ''h'' else None),
     sendto = (\<lambda>_ _. True)\<rparr>"


end
