(* ===== verification/StrBuf.thy ===== *)
theory StrBuf
  imports Text
begin

text \<open>
  The buffers behind the text functions of \<open>string.c\<close>: a block of memory with its size and the
  length of the text in it. Every write is at an index of the block, and one outside it is
  undefined (\<open>None\<close>). Fresh memory holds \<open>g\<close>, any character. A length is a \<open>nat\<close>: texts of
  \<open>2 ^ 31\<close> characters are not considered. The block that \<open>string_new\<close> asks for has one more byte
  than its size.
\<close>

section \<open>Memory\<close>

record strbuf =
  sb_len :: nat
  sb_mem :: nat
  sb_str :: string

abbreviation NUL :: char where
  "NUL \<equiv> CHR 0x00"

fun put_at :: "nat \<Rightarrow> string \<Rightarrow> string \<Rightarrow> string option" where
  "put_at p [] m = Some m"
| "put_at p (c # s) m = (if p < length m then put_at (p + 1) s (m[p := c]) else None)"

definition c_str :: "string \<Rightarrow> string option" where
  "c_str m = (if NUL \<in> set m then Some (takeWhile (\<lambda>c. c \<noteq> NUL) m) else None)"

definition STRING_INIT_SIZE :: nat where
  "STRING_INIT_SIZE = 16"

text \<open>\<open>sizeof(String)\<close>: three \<open>int\<close>s and a pointer of eight bytes.\<close>

definition STRING_SIZE :: nat where
  "STRING_SIZE = 24"

definition INT_SIZE :: nat where
  "INT_SIZE = 10"

definition string_new :: "char \<Rightarrow> nat \<Rightarrow> strbuf" where
  "string_new g n = (let k = max n STRING_INIT_SIZE
     in \<lparr>sb_len = 0, sb_mem = k, sb_str = (replicate (k + 1) g)[0 := NUL]\<rparr>)"

function double_mem :: "nat \<Rightarrow> nat \<Rightarrow> nat" where
  "double_mem need mem =
     (if mem < need then double_mem need ((mem + STRING_SIZE) * 2 - STRING_SIZE) else mem)"
  by pat_completeness auto
termination
  by (relation "measure (\<lambda>(need, mem). need - mem)") (auto simp: STRING_SIZE_def)

declare double_mem.simps [simp del]

definition string_extend_to :: "char \<Rightarrow> strbuf \<Rightarrow> nat \<Rightarrow> strbuf option" where
  "string_extend_to g b mem =
     (if mem \<le> sb_mem b then Some b
      else do {
        let new = string_new g (double_mem mem (sb_mem b));
        t \<leftarrow> c_str (sb_str b);
        m \<leftarrow> put_at 0 (t @ [NUL]) (sb_str new);
        Some (new\<lparr>sb_len := length t, sb_str := m\<rparr>) })"

section \<open>Appending\<close>

definition buf_catc :: "char \<Rightarrow> strbuf \<Rightarrow> char \<Rightarrow> strbuf option" where
  "buf_catc g b c = do {
     b \<leftarrow> string_extend_to g b (sb_len b + 2);
     m \<leftarrow> put_at (sb_len b) [c, NUL] (sb_str b);
     Some (b\<lparr>sb_len := sb_len b + 1, sb_str := m\<rparr>) }"

text \<open>\<open>strcat\<close> looks for the end itself; the length is set from what it was before.\<close>

definition buf_cat :: "char \<Rightarrow> strbuf \<Rightarrow> string \<Rightarrow> strbuf option" where
  "buf_cat g b s = do {
     let len = sb_len b + length s;
     b \<leftarrow> string_extend_to g b (len + 1);
     t \<leftarrow> c_str (sb_str b);
     m \<leftarrow> put_at (length t) (s @ [NUL]) (sb_str b);
     m \<leftarrow> put_at len [NUL] m;
     Some (b\<lparr>sb_len := len, sb_str := m\<rparr>) }"

text \<open>\<open>sprintf\<close> or a loop at the end of the text, and then \<open>strlen\<close>, in a block made large enough for \<open>need\<close>.\<close>

definition buf_print :: "char \<Rightarrow> strbuf \<Rightarrow> nat \<Rightarrow> string \<Rightarrow> strbuf option" where
  "buf_print g b need s = do {
     b \<leftarrow> string_extend_to g b (sb_len b + need + 1);
     m \<leftarrow> put_at (sb_len b) (s @ [NUL]) (sb_str b);
     t \<leftarrow> c_str m;
     Some (b\<lparr>sb_len := length t, sb_str := m\<rparr>) }"

definition buf_catnum :: "char \<Rightarrow> strbuf \<Rightarrow> i32 \<Rightarrow> strbuf option" where
  "buf_catnum g b n = buf_print g b INT_SIZE (num_text (sint n))"

definition buf_catobj :: "char \<Rightarrow> servtab \<Rightarrow> strbuf \<Rightarrow> objid \<Rightarrow> bool \<Rightarrow> strbuf option" where
  "buf_catobj g T b ob full =
     (if full then do {
        s \<leftarrow> serv_id2name T (sint (server ob));
        buf_print g b (INT_SIZE + 2 + length s) (''#'' @ num_text (sint (oid ob)) @ ''@'' @ s) }
      else buf_print g b (INT_SIZE + 2) (''#'' @ num_text (sint (oid ob))))"

definition buf_backslash :: "char \<Rightarrow> strbuf \<Rightarrow> string \<Rightarrow> strbuf option" where
  "buf_backslash g b s = do {
     t \<leftarrow> backslash s;
     buf_print g b (length s + length (filter (\<lambda>c. c = CHR 0x22 \<or> c = CHR 0x09) s)) t }"

text \<open>The loops count \<open>indent\<close> and \<open>padlen\<close> down to 0 and do not end from below it.\<close>

definition buf_indent_cat :: "char \<Rightarrow> strbuf \<Rightarrow> int \<Rightarrow> string \<Rightarrow> strbuf option" where
  "buf_indent_cat g b indent s =
     (if indent < 0 then None
      else do {
        let len = sb_len b + nat indent + length s;
        b \<leftarrow> string_extend_to g b (len + 1);
        m \<leftarrow> put_at (sb_len b) (replicate (nat indent) CHR '' '' @ s @ [NUL]) (sb_str b);
        Some (b\<lparr>sb_len := len, sb_str := m\<rparr>) })"

definition buf_pad :: "char \<Rightarrow> strbuf \<Rightarrow> int \<Rightarrow> char \<Rightarrow> strbuf option" where
  "buf_pad g b padlen tok =
     (if padlen < 0 then None
      else do {
        let len = sb_len b + nat padlen;
        b \<leftarrow> string_extend_to g b (len + 1);
        m \<leftarrow> put_at (sb_len b) (replicate (nat padlen) tok @ [NUL]) (sb_str b);
        Some (b\<lparr>sb_len := len, sb_str := m\<rparr>) })"

text \<open>The text and the NUL behind it move up, from the last one down.\<close>

definition buf_prepad :: "char \<Rightarrow> strbuf \<Rightarrow> int \<Rightarrow> char \<Rightarrow> strbuf option" where
  "buf_prepad g b padlen tok =
     (if padlen < 0 then None
      else do {
        let len = sb_len b + nat padlen;
        b \<leftarrow> string_extend_to g b (len + 1);
        m \<leftarrow> put_at (nat padlen) (take (sb_len b + 1) (sb_str b)) (sb_str b);
        m \<leftarrow> put_at 0 (replicate (nat padlen) tok) m;
        Some (b\<lparr>sb_len := len, sb_str := m\<rparr>) })"

section \<open>Making strings\<close>

definition string_cpy :: "char \<Rightarrow> string \<Rightarrow> strbuf option" where
  "string_cpy g s = buf_cat g (string_new g (length s)) s"

definition string_ncpy :: "char \<Rightarrow> string \<Rightarrow> nat \<Rightarrow> strbuf option" where
  "string_ncpy g s n = do {
     let b = string_new g (n + 1);
     m \<leftarrow> put_at 0 (take n s @ replicate (n - length s) NUL) (sb_str b);
     m \<leftarrow> put_at n [NUL] m;
     Some (b\<lparr>sb_len := n, sb_str := m\<rparr>) }"

section \<open>The invariant\<close>

definition buf_ok :: "strbuf \<Rightarrow> bool" where
  "buf_ok b \<longleftrightarrow> length (sb_str b) = sb_mem b + 1 \<and> sb_len b \<le> sb_mem b \<and> STRING_INIT_SIZE \<le> sb_mem b \<and>
     nul_free (take (sb_len b) (sb_str b)) \<and> sb_str b ! sb_len b = NUL"

definition buf_text :: "strbuf \<Rightarrow> string" where
  "buf_text b = take (sb_len b) (sb_str b)"

lemma put_at_split:
  "put_at (length xs) s (xs @ ys @ zs) = Some (xs @ s @ zs)" if "length ys = length s"
  using that
proof (induction s arbitrary: xs ys)
  case (Cons c s)
  then obtain y ys' where y: "ys = y # ys'" "length ys' = length s" by (cases ys) auto
  with Cons.IH [of ys' "xs @ [c]"] show ?case by simp
qed simp

lemma put_at_eq:
  assumes "p + length s \<le> length m"
  shows "put_at p s m = Some (take p m @ s @ drop (p + length s) m)"
proof -
  have "m = take p m @ take (length s) (drop p m) @ drop (p + length s) m"
    by (metis append_take_drop_id drop_drop add.commute)
  then show ?thesis
    using put_at_split [of "take (length s) (drop p m)" s "take p m" "drop (p + length s) m"] assms
    by simp
qed

lemma put_at_fails: "length m < p + length s \<Longrightarrow> s \<noteq> [] \<Longrightarrow> put_at p s m = None"
proof (induction s arbitrary: p m)
  case (Cons c s)
  then show ?case using Cons.IH [of "m[p := c]" "p + 1"] by (cases "s = []") auto
qed simp

lemma buf_okE:
  assumes "buf_ok b"
  obtains rest where "sb_str b = buf_text b @ NUL # rest" "nul_free (buf_text b)"
    "length (buf_text b) = sb_len b" "sb_len b + length rest = sb_mem b"
proof -
  have "sb_str b = buf_text b @ NUL # drop (sb_len b + 1) (sb_str b)"
    using assms id_take_nth_drop [of "sb_len b" "sb_str b"] by (simp add: buf_ok_def buf_text_def)
  with assms that [of "drop (sb_len b + 1) (sb_str b)"] show ?thesis
    by (simp add: buf_ok_def buf_text_def)
qed

lemma c_str_text: "nul_free t \<Longrightarrow> c_str (t @ NUL # rest) = Some t"
  by (induction t) (auto simp: c_str_def)

lemma buf_okI:
  "m = t @ NUL # rest \<Longrightarrow> nul_free t \<Longrightarrow> n = length t \<Longrightarrow> n + length rest = k \<Longrightarrow> STRING_INIT_SIZE \<le> k \<Longrightarrow>
   buf_ok \<lparr>sb_len = n, sb_mem = k, sb_str = m\<rparr> \<and> buf_text \<lparr>sb_len = n, sb_mem = k, sb_str = m\<rparr> = t"
  by (simp add: buf_ok_def buf_text_def)

lemma double_mem_ge: "need \<le> double_mem need mem \<and> mem \<le> double_mem need mem"
proof (induction need mem rule: double_mem.induct)
  case (1 need mem)
  then show ?case by (subst (1 2) double_mem.simps) (auto simp: STRING_SIZE_def)
qed

lemma new_ok: "buf_ok (string_new g n)" "buf_text (string_new g n) = []"
  "n \<le> sb_mem (string_new g n)" "sb_len (string_new g n) = 0"
  by (simp_all add: string_new_def buf_ok_def buf_text_def Let_def)

text \<open>A block that grows keeps its text and has room for what was asked.\<close>

lemma extend_ok:
  assumes "buf_ok b"
  obtains b' where "string_extend_to g b mem = Some b'" "buf_ok b'" "buf_text b' = buf_text b"
    "sb_len b' = sb_len b" "mem \<le> sb_mem b'" "sb_mem b \<le> sb_mem b'" "mem \<le> sb_mem b \<Longrightarrow> b' = b"
proof (cases "mem \<le> sb_mem b")
  case True
  with assms that show ?thesis by (simp add: string_extend_to_def)
next
  case False
  let ?k = "double_mem mem (sb_mem b)"
  obtain rest where r: "sb_str b = buf_text b @ NUL # rest" "nul_free (buf_text b)"
    "length (buf_text b) = sb_len b" "sb_len b + length rest = sb_mem b"
    using buf_okE [OF assms] by blast
  have k: "mem \<le> ?k" "sb_mem b \<le> ?k" "STRING_INIT_SIZE \<le> ?k"
    using double_mem_ge [of mem "sb_mem b"] assms by (auto simp: buf_ok_def)
  let ?new = "string_new g ?k"
  have n: "sb_mem ?new = ?k" "length (sb_str ?new) = ?k + 1" using k by (simp_all add: string_new_def Let_def)
  have "sb_len b \<le> ?k" using r(4) k(2) by simp
  then have p: "put_at 0 (buf_text b @ [NUL]) (sb_str ?new) =
      Some (buf_text b @ NUL # drop (sb_len b + 1) (sb_str ?new))"
    using put_at_eq [of 0 "buf_text b @ [NUL]" "sb_str ?new"] n r(3) by simp
  let ?b' = "\<lparr>sb_len = sb_len b, sb_mem = ?k, sb_str = buf_text b @ NUL # drop (sb_len b + 1) (sb_str ?new)\<rparr>"
  have "string_extend_to g b mem = Some ?b'"
    using False p r(3) n(1) c_str_text [OF r(2), of rest] r(1)
    by (simp add: string_extend_to_def Let_def string_new_def)
  moreover have "buf_ok ?b' \<and> buf_text ?b' = buf_text b"
    using r n k by (intro buf_okI) auto
  ultimately show ?thesis using that k False by simp
qed

section \<open>Every write is inside the block\<close>

lemma append_ok:
  assumes "buf_ok b" "nul_free s" "sb_len b + length s \<le> sb_mem b"
  obtains m where "put_at (sb_len b) (s @ [NUL]) (sb_str b) = Some m" "c_str m = Some (buf_text b @ s)"
    "put_at (sb_len b + length s) [NUL] m = Some m"
    "buf_ok (b\<lparr>sb_len := sb_len b + length s, sb_str := m\<rparr>)"
    "buf_text (b\<lparr>sb_len := sb_len b + length s, sb_str := m\<rparr>) = buf_text b @ s"
proof -
  obtain rest where r: "sb_str b = buf_text b @ NUL # rest" "nul_free (buf_text b)"
    "length (buf_text b) = sb_len b" "sb_len b + length rest = sb_mem b"
    using buf_okE [OF assms(1)] by blast
  let ?rest = "drop (sb_len b + length s + 1) (sb_str b)"
  let ?m = "(buf_text b @ s) @ NUL # ?rest"
  have l: "length (sb_str b) = sb_mem b + 1" using assms(1) by (simp add: buf_ok_def)
  have p: "put_at (sb_len b) (s @ [NUL]) (sb_str b) = Some ?m"
    using put_at_eq [of "sb_len b" "s @ [NUL]" "sb_str b"] l assms(3) by (simp add: buf_text_def)
  have z: "put_at (sb_len b + length s) [NUL] ?m = Some ?m"
    using r(3) by (simp add: list_update_append)
  have o: "buf_ok \<lparr>sb_len = sb_len b + length s, sb_mem = sb_mem b, sb_str = ?m\<rparr> \<and>
      buf_text \<lparr>sb_len = sb_len b + length s, sb_mem = sb_mem b, sb_str = ?m\<rparr> = buf_text b @ s"
    using r assms l by (intro buf_okI) (auto simp: buf_ok_def)
  have u: "b\<lparr>sb_len := sb_len b + length s, sb_str := ?m\<rparr> =
      \<lparr>sb_len = sb_len b + length s, sb_mem = sb_mem b, sb_str = ?m\<rparr>"
    by (cases b) simp
  with that [OF p _ z] o c_str_text [of "buf_text b @ s" ?rest] r(2) assms(2) show ?thesis
    unfolding u by simp
qed

text \<open>Appending a text: the buffer it comes to is sound and has the text at its end.\<close>

definition appends :: "strbuf option \<Rightarrow> strbuf \<Rightarrow> string \<Rightarrow> bool" where
  "appends r b s \<longleftrightarrow> (\<exists>b'. r = Some b' \<and> buf_ok b' \<and> buf_text b' = buf_text b @ s)"

lemma catc_appends:
  assumes "buf_ok b" "c \<noteq> NUL"
  shows "appends (buf_catc g b c) b [c]"
proof -
  obtain b' where b: "string_extend_to g b (sb_len b + 2) = Some b'" "buf_ok b'" "buf_text b' = buf_text b"
    "sb_len b' = sb_len b" "sb_len b + 2 \<le> sb_mem b'"
    using extend_ok [OF assms(1)] by blast
  have "nul_free [c]" "sb_len b' + length [c] \<le> sb_mem b'" using assms(2) b(4,5) by simp_all
  from append_ok [OF b(2) this] obtain m where
    "put_at (sb_len b') [c, NUL] (sb_str b') = Some m"
    "buf_ok (b'\<lparr>sb_len := sb_len b' + 1, sb_str := m\<rparr>)"
    "buf_text (b'\<lparr>sb_len := sb_len b' + 1, sb_str := m\<rparr>) = buf_text b' @ [c]" by auto
  with b show ?thesis by (simp add: appends_def buf_catc_def del: put_at.simps)
qed

lemma cat_appends:
  assumes "buf_ok b" "nul_free s"
  shows "appends (buf_cat g b s) b s"
proof -
  let ?n = "sb_len b + length s"
  obtain b' where b: "string_extend_to g b (?n + 1) = Some b'" "buf_ok b'" "buf_text b' = buf_text b"
    "sb_len b' = sb_len b" "?n + 1 \<le> sb_mem b'"
    using extend_ok [OF assms(1)] by blast
  have t: "c_str (sb_str b') = Some (buf_text b')" "length (buf_text b') = sb_len b"
    using buf_okE [OF b(2)] c_str_text b(4) by metis+
  have "sb_len b' + length s \<le> sb_mem b'" using b(4,5) by simp
  from append_ok [OF b(2) assms(2) this] obtain m where
    "put_at (sb_len b') (s @ [NUL]) (sb_str b') = Some m" "put_at (sb_len b' + length s) [NUL] m = Some m"
    "buf_ok (b'\<lparr>sb_len := sb_len b' + length s, sb_str := m\<rparr>)"
    "buf_text (b'\<lparr>sb_len := sb_len b' + length s, sb_str := m\<rparr>) = buf_text b' @ s" by blast
  with b t show ?thesis by (simp add: appends_def buf_cat_def Let_def)
qed

lemma print_appends:
  assumes "buf_ok b" "nul_free s" "length s \<le> need + 1"
  shows "appends (buf_print g b need s) b s"
proof -
  obtain b' where b: "string_extend_to g b (sb_len b + need + 1) = Some b'" "buf_ok b'"
    "buf_text b' = buf_text b" "sb_len b' = sb_len b" "sb_len b + need + 1 \<le> sb_mem b'"
    using extend_ok [OF assms(1)] by blast
  have "sb_len b' + length s \<le> sb_mem b'" using assms(3) b(4,5) by simp
  from append_ok [OF b(2) assms(2) this] obtain m where
    "put_at (sb_len b') (s @ [NUL]) (sb_str b') = Some m" "c_str m = Some (buf_text b' @ s)"
    "buf_ok (b'\<lparr>sb_len := sb_len b' + length s, sb_str := m\<rparr>)"
    "buf_text (b'\<lparr>sb_len := sb_len b' + length s, sb_str := m\<rparr>) = buf_text b' @ s" by blast
  moreover have "length (buf_text b') = sb_len b'" using buf_okE [OF b(2)] by blast
  ultimately show ?thesis using b by (simp add: appends_def buf_print_def)
qed

text \<open>An \<open>int\<close> has at most eleven characters, one more than \<open>INT_SIZE\<close>.\<close>

lemma dec_length: "n < 10 ^ k \<Longrightarrow> 0 < k \<Longrightarrow> length (dec n) \<le> k"
proof (induction k arbitrary: n)
  case (Suc k)
  show ?case
  proof (cases "n < 10")
    case False
    with Suc.prems have "0 < k" by (cases k) auto
    moreover have "n div 10 < 10 ^ k" using Suc.prems by (simp add: less_mult_imp_div_less mult.commute)
    ultimately show ?thesis using Suc.IH [of "n div 10"] False by (simp add: dec.simps [of n])
  qed (simp add: dec.simps)
qed simp

lemma num_text_length: "length (num_text (sint (n :: i32))) \<le> INT_SIZE + 1"
proof -
  have "- (2 ^ 31) \<le> sint n" "sint n < 2 ^ 31"
    using sint_range_size [of n] by (simp_all add: word_size)
  then have "nat \<bar>sint n\<bar> < 10 ^ 10" by (simp add: abs_if nat_less_iff)
  from dec_length [OF this] show ?thesis by (simp add: num_text_def INT_SIZE_def abs_if split: if_splits)
qed

lemma dec_nul_free: "nul_free (dec n)"
proof (induction n rule: dec.induct)
  case (1 n)
  have "char_of (48 + n mod 10) \<noteq> NUL"
  proof
    assume "char_of (48 + n mod 10) = NUL"
    then have "of_char (char_of (48 + n mod 10) :: char) = (0 :: nat)" by simp
    then show False by simp
  qed
  with 1 show ?case by (subst dec.simps) auto
qed

lemma num_text_nul_free: "nul_free (num_text n)"
  by (simp add: num_text_def dec_nul_free)

lemma indent_appends:
  assumes "buf_ok b" "nul_free s" "0 \<le> i"
  shows "appends (buf_indent_cat g b i s) b (replicate (nat i) CHR '' '' @ s)"
proof -
  let ?s = "replicate (nat i) CHR '' '' @ s"
  obtain b' where b: "string_extend_to g b (sb_len b + length ?s + 1) = Some b'" "buf_ok b'" "buf_text b' = buf_text b"
    "sb_len b' = sb_len b" "sb_len b + length ?s + 1 \<le> sb_mem b'"
    using extend_ok [OF assms(1)] by blast
  have "nul_free ?s" "sb_len b' + length ?s \<le> sb_mem b'" using assms(2) b(4,5) by (simp_all add: nul_free_def)
  from append_ok [OF b(2) this] obtain m where
    "put_at (sb_len b') (?s @ [NUL]) (sb_str b') = Some m"
    "buf_ok (b'\<lparr>sb_len := sb_len b' + length ?s, sb_str := m\<rparr>)"
    "buf_text (b'\<lparr>sb_len := sb_len b' + length ?s, sb_str := m\<rparr>) = buf_text b' @ ?s" by blast
  with b assms(3) show ?thesis by (simp add: appends_def buf_indent_cat_def Let_def add.assoc)
qed

lemma pad_appends:
  assumes "buf_ok b" "c \<noteq> NUL" "0 \<le> i"
  shows "appends (buf_pad g b i c) b (replicate (nat i) c)"
proof -
  let ?s = "replicate (nat i) c"
  obtain b' where b: "string_extend_to g b (sb_len b + length ?s + 1) = Some b'" "buf_ok b'" "buf_text b' = buf_text b"
    "sb_len b' = sb_len b" "sb_len b + length ?s + 1 \<le> sb_mem b'"
    using extend_ok [OF assms(1)] by blast
  have "nul_free ?s" "sb_len b' + length ?s \<le> sb_mem b'" using assms(2) b(4,5) by (simp_all add: nul_free_def)
  from append_ok [OF b(2) this] obtain m where
    "put_at (sb_len b') (?s @ [NUL]) (sb_str b') = Some m"
    "buf_ok (b'\<lparr>sb_len := sb_len b' + length ?s, sb_str := m\<rparr>)"
    "buf_text (b'\<lparr>sb_len := sb_len b' + length ?s, sb_str := m\<rparr>) = buf_text b' @ ?s" by blast
  with b assms(3) show ?thesis by (simp add: appends_def buf_pad_def Let_def)
qed

lemma prepad_ok:
  assumes "buf_ok b" "c \<noteq> NUL" "0 \<le> i"
  shows "\<exists>b'. buf_prepad g b i c = Some b' \<and> buf_ok b' \<and> buf_text b' = replicate (nat i) c @ buf_text b"
proof -
  let ?n = "nat i"
  obtain b' where b: "string_extend_to g b (sb_len b + ?n + 1) = Some b'" "buf_ok b'" "buf_text b' = buf_text b"
    "sb_len b' = sb_len b" "sb_len b + ?n + 1 \<le> sb_mem b'"
    using extend_ok [OF assms(1)] by blast
  obtain rest where r: "sb_str b' = buf_text b @ NUL # rest" "nul_free (buf_text b)"
    "length (buf_text b) = sb_len b" "sb_len b + length rest = sb_mem b'"
    using buf_okE [OF b(2)] b(3,4) by metis
  have t: "take (sb_len b + 1) (sb_str b') = buf_text b @ [NUL]" using r(1,3) by simp
  let ?m1 = "take ?n (sb_str b') @ (buf_text b @ [NUL]) @ drop (?n + (sb_len b + 1)) (sb_str b')"
  have l: "length (sb_str b') = sb_mem b' + 1" using b(2) by (simp add: buf_ok_def)
  have p1: "put_at ?n (buf_text b @ [NUL]) (sb_str b') = Some ?m1"
    using put_at_eq [of ?n "buf_text b @ [NUL]" "sb_str b'"] l b(5) r(3) by (simp add: add.commute)
  let ?m2 = "(replicate ?n c @ buf_text b) @ NUL # drop (?n + (sb_len b + 1)) (sb_str b')"
  have p2: "put_at 0 (replicate ?n c) ?m1 = Some ?m2"
    using put_at_eq [of 0 "replicate ?n c" ?m1] l b(5) by simp
  have o: "buf_ok \<lparr>sb_len = sb_len b + ?n, sb_mem = sb_mem b', sb_str = ?m2\<rparr> \<and>
      buf_text \<lparr>sb_len = sb_len b + ?n, sb_mem = sb_mem b', sb_str = ?m2\<rparr> = replicate ?n c @ buf_text b"
    using r assms(2) l b(2,5) by (intro buf_okI) (auto simp: buf_ok_def nul_free_def)
  have u: "b'\<lparr>sb_len := sb_len b + ?n, sb_str := ?m2\<rparr> =
      \<lparr>sb_len = sb_len b + ?n, sb_mem = sb_mem b', sb_str = ?m2\<rparr>"
    by (cases b') simp
  have "buf_prepad g b i c = Some (b'\<lparr>sb_len := sb_len b + ?n, sb_str := ?m2\<rparr>)"
    using assms(3) b(1,4) t p1 p2 unfolding buf_prepad_def Let_def by (simp del: put_at.simps)
  with o show ?thesis unfolding u by blast
qed

lemma backslash_nul_free: "nul_free s \<Longrightarrow> backslash s = Some t \<Longrightarrow> nul_free t"
  by (induction s arbitrary: t rule: backslash.induct) (auto split: if_splits list.splits)

text \<open>What the code counts is enough when a line feed follows a carriage return and no backslash occurs.\<close>

fun counted :: "string \<Rightarrow> bool" where
  "counted [] \<longleftrightarrow> True"
| "counted (c # s) \<longleftrightarrow> (if c = CHR 0x0D then s \<noteq> [] \<and> counted (tl s)
     else c \<noteq> CHR 0x0A \<and> c \<noteq> CHR 0x5C \<and> counted s)"

lemma backslash_counted:
  "counted s \<Longrightarrow> \<exists>t. backslash s = Some t \<and>
     length t \<le> length s + length (filter (\<lambda>c. c = CHR 0x22 \<or> c = CHR 0x09) s)"
proof (induction s rule: counted.induct)
  case (2 c s)
  show ?case
  proof (cases "c = CHR 0x0D")
    case True
    then obtain d s' where s: "s = d # s'" using 2(3) by (cases s) auto
    from 2(1) [OF True] 2(3) True s obtain t where "backslash s' = Some t"
      "length t \<le> length s' + length (filter (\<lambda>c. c = CHR 0x22 \<or> c = CHR 0x09) s')" by auto
    with True s show ?thesis by auto
  next
    case False
    from 2(2) [OF False] 2(3) False obtain t where "backslash s = Some t"
      "length t \<le> length s + length (filter (\<lambda>c. c = CHR 0x22 \<or> c = CHR 0x09) s)" by auto
    with 2(3) False show ?thesis by auto
  qed
qed simp

lemma catnum_appends: "buf_ok b \<Longrightarrow> appends (buf_catnum g b n) b (num_text (sint n))"
  unfolding buf_catnum_def by (rule print_appends) (use num_text_length in \<open>simp_all add: num_text_nul_free\<close>)

lemma catobj_appends:
  assumes "buf_ok b" "catobj T [] ob full = Some t" "nul_free t"
  shows "appends (buf_catobj g T b ob full) b t"
proof (cases full)
  case True
  with assms(2) obtain s where s: "serv_id2name T (sint (server ob)) = Some s"
    "t = ''#'' @ num_text (sint (oid ob)) @ ''@'' @ s"
    by (auto simp: catobj_def obj_text_def bind_eq_Some_conv)
  have "length t \<le> INT_SIZE + 2 + length s + 1" using s(2) num_text_length [of "oid ob"] by simp
  from print_appends [OF assms(1,3) this] show ?thesis
    using True s by (simp add: buf_catobj_def)
next
  case False
  with assms(2) have t: "t = ''#'' @ num_text (sint (oid ob))" by (simp add: catobj_def)
  then have "length t \<le> INT_SIZE + 2 + 1" using num_text_length [of "oid ob"] by simp
  from print_appends [OF assms(1,3) this] show ?thesis
    using False t by (simp add: buf_catobj_def)
qed

lemma backslash_appends:
  assumes "buf_ok b" "nul_free s" "counted s"
  shows "\<exists>t. backslash s = Some t \<and> appends (buf_backslash g b s) b t"
proof -
  obtain t where t: "backslash s = Some t"
    "length t \<le> length s + length (filter (\<lambda>c. c = CHR 0x22 \<or> c = CHR 0x09) s)"
    using backslash_counted [OF assms(3)] by blast
  have "nul_free t" using backslash_nul_free [OF assms(2) t(1)] .
  from print_appends [OF assms(1) this, of "length s + length (filter (\<lambda>c. c = CHR 0x22 \<or> c = CHR 0x09) s)"] t
  show ?thesis by (simp add: buf_backslash_def)
qed

lemma cpy_text: "nul_free s \<Longrightarrow> \<exists>b. string_cpy g s = Some b \<and> buf_ok b \<and> buf_text b = s"
  using cat_appends [OF new_ok(1), of s g g "length s"] by (simp add: string_cpy_def appends_def new_ok)

section \<open>The contract of the buffers\<close>



text \<open>
  C38: \<open>string_backslash\<close> does not count the second character of a backslash: escaping a text of
  backslashes into a buffer that has room for the text but not for twice its length writes behind
  the block.
\<close>

theorem backslash_overruns:
  assumes "buf_ok b" "sb_len b + n < sb_mem b" "sb_mem b < sb_len b + 2 * n"
  shows "buf_backslash g b (replicate n CHR 0x5C) = None"
proof -
  have t: "backslash (replicate n CHR 0x5C) = Some (replicate (2 * n) CHR 0x5C)" for n
    by (induction n) simp_all
  have "string_extend_to g b (sb_len b + n + 1) = Some b" using assms(2) by (simp add: string_extend_to_def)
  moreover have "put_at (sb_len b) (replicate (2 * n) CHR 0x5C @ [NUL]) (sb_str b) = None"
    using assms(1,3) by (intro put_at_fails) (simp_all add: buf_ok_def)
  ultimately show ?thesis using t by (simp add: buf_backslash_def buf_print_def del: put_at.simps)
qed

theorem backslash_overruns_witness:
  "buf_backslash CHR ''x'' (string_new CHR ''x'' 0) (replicate 9 CHR 0x5C) = None"
  using backslash_overruns [OF new_ok(1), of "CHR ''x''" 0 9 "CHR ''x''"]
  by (simp add: string_new_def STRING_INIT_SIZE_def Let_def)

end
