(* ===== verification/Locks.thy ===== *)
theory Locks
  imports QueueInv
begin

text \<open>
  Locks, and the ends of a method. The locks of an object are one list; for each name they form
  a line in which the first in line has the lock. The locale states what a lock promises; the
  list of \<open>op_lock\<close>, \<open>clear_locks\<close> and \<open>find_lock\<close> provides it.
\<close>

section \<open>The contract of a lock\<close>

locale fifo_lock =
  fixes waits :: "'q \<Rightarrow> 'p \<Rightarrow> bool"
    and join :: "'q \<Rightarrow> 'p \<Rightarrow> 'q"
    and leave :: "'q \<Rightarrow> 'p \<Rightarrow> 'q"
    and line :: "'q \<Rightarrow> 'p list"
  assumes waits_line: "p \<in> set (line q) \<Longrightarrow> waits q p \<longleftrightarrow> hd (line q) \<noteq> p"
    and line_join: "line (join q p) = line q @ [p]"
    and line_leave: "line (leave q p) = filter (\<lambda>x. x \<noteq> p) (line q)"
begin

lemma exclusive:
  "a \<in> set (line q) \<Longrightarrow> b \<in> set (line q) \<Longrightarrow> \<not> waits q a \<Longrightarrow> \<not> waits q b \<Longrightarrow> a = b"
  by (simp add: waits_line)

lemma progress: "line q \<noteq> [] \<Longrightarrow> \<exists>a\<in>set (line q). \<not> waits q a"
  by (intro bexI [of _ "hd (line q)"]) (simp_all add: waits_line)

lemma join_waits: "line q \<noteq> [] \<Longrightarrow> hd (line q) \<noteq> a \<Longrightarrow> waits (join q a) a"
  by (simp add: waits_line line_join)

lemma join_free: "line q = [] \<Longrightarrow> \<not> waits (join q a) a"
  by (simp add: waits_line line_join)

lemma handover:
  assumes "line q = a # rest" "filter (\<lambda>x. x \<noteq> a) rest = b # others"
  shows "\<not> waits (leave q a) b"
  using assms by (simp add: waits_line line_leave)

lemma left: "a \<notin> set (line (leave q a))"
  by (simp add: line_leave)

end

section \<open>The locks of an object\<close>

definition line_of :: "string \<Rightarrow> lock list \<Rightarrow> i32 list" where
  "line_of name ls = map added_by (filter (\<lambda>l. c_strcasecmp (lk_name l) name = 0) ls)"

definition lock_join :: "string \<Rightarrow> lock list \<Rightarrow> i32 \<Rightarrow> lock list" where
  "lock_join name ls msgid = ls @ [\<lparr>lk_name = name, added_by = msgid\<rparr>]"

definition lock_leave :: "lock list \<Rightarrow> i32 \<Rightarrow> lock list" where
  "lock_leave ls msgid = filter (\<lambda>l. added_by l \<noteq> msgid) ls"

lemma line_of_simps [simp]:
  "line_of name [] = []"
  "line_of name (l # ls) = (if c_strcasecmp (lk_name l) name = 0 then added_by l # line_of name ls
     else line_of name ls)"
  by (simp_all add: line_of_def)

lemma line_of_leave: "line_of name (lock_leave ls p) = filter (\<lambda>x. x \<noteq> p) (line_of name ls)"
  by (induction ls) (auto simp: lock_leave_def)

lemma line_of_join: "line_of name (lock_join name ls p) = line_of name ls @ [p]"
  by (simp add: line_of_def lock_join_def)

lemma find_lock_line:
  "find_lock_in ls name p \<longleftrightarrow> line_of name ls \<noteq> [] \<and> hd (line_of name ls) \<noteq> p"
  by (induction ls) auto

lemma lock_taken_line: "lock_taken name ls \<longleftrightarrow> line_of name ls \<noteq> []"
  by (induction ls) (auto simp: lock_taken_def)

interpretation lock: fifo_lock "\<lambda>ls. find_lock_in ls name" "lock_join name" lock_leave "line_of name"
  for name
  by unfold_locales (auto simp: find_lock_line line_of_leave line_of_join)

text \<open>
  C3: of the messages that have a lock of one name on an object, exactly one does not wait: a
  lock excludes, and it never leaves everyone waiting. When the methods of the one that has it
  end, the next in line has it.
\<close>

theorem lock_excludes:
  assumes "line_of name ls \<noteq> []"
  shows "(\<exists>!a. a \<in> set (line_of name ls) \<and> \<not> find_lock_in ls name a) \<and>
    (\<forall>a rest b others. line_of name ls = a # rest \<and> filter (\<lambda>x. x \<noteq> a) rest = b # others \<longrightarrow>
       \<not> find_lock_in (filter (\<lambda>l. added_by l \<noteq> a) ls) name b)"
proof (intro conjI allI impI)
  show "\<exists>!a. a \<in> set (line_of name ls) \<and> \<not> find_lock_in ls name a"
    using lock.progress [OF assms] lock.exclusive [of _ name ls] by blast
next
  fix a rest b others
  assume "line_of name ls = a # rest \<and> filter (\<lambda>x. x \<noteq> a) rest = b # others"
  then show "\<not> find_lock_in (filter (\<lambda>l. added_by l \<noteq> a) ls) name b"
    using lock.handover [of name ls a rest b others] by (simp add: lock_leave_def)
qed

theorem lock_excludes_witness:
  "\<exists>!a. a \<in> {3, 7 :: i32} \<and>
     \<not> find_lock_in [\<lparr>lk_name = ''door'', added_by = 3\<rparr>, \<lparr>lk_name = ''door'', added_by = 7\<rparr>] ''door'' a"
  using lock_excludes [of "''door''"
      "[\<lparr>lk_name = ''door'', added_by = 3\<rparr>, \<lparr>lk_name = ''door'', added_by = 7\<rparr>]"]
  by (simp add: insert_commute)

text \<open>
  C26: \<open>lock\<close> puts the message at the end of the line. If nobody was in line the method goes on;
  otherwise it blocks, with an event that keeps its frame, and the event resumes it when its
  message comes first.
\<close>

theorem op_lock_spec:
  assumes st: "stack w = s @ [VSTR nm]" "length s < STACK_SIZE"
    and ob: "w_this w = Some i" "w_db w i = Some ob"
    and own: "ev_this (w_frame w) = \<lparr>server = 0, oid = i\<rparr>"
  shows "\<exists>w'. op_lock E w = Some w' \<and> stack w' = s @ [VNUM 0] \<and>
    w_db w' = (w_db w)(i := Some
      (ob\<lparr>o_locks := lock_join (sdata nm) (o_locks ob) (ev_msgid (w_frame w))\<rparr>)) \<and>
    (if line_of (sdata nm) (o_locks ob) = []
     then w_state w' = w_state w \<and> w_events w' = w_events w
     else w_state w' = BLOCKED \<and> (\<exists>e. w_events w' = w_events w @ [e] \<and> ev_blocked e = BL_LOCK \<and>
       ev_lock e = sdata nm \<and> ev_stack e = s @ [VNUM 0] \<and>
       process_event k e E now timeout w' =
         (if hd (line_of (sdata nm) (o_locks ob)) = ev_msgid (w_frame w)
          then map_option (\<lambda>x. (True, timeout, x)) (resume_method e E w')
          else if timer_less (ev_timeout e) now then timed_out e E timeout w'
          else Some (False, timeout, w'))))"
proof -
  have t: "this_obj w = Some ob" "this_obj (set_stack (s @ [VNUM 0]) w) = Some ob"
    using ob by (simp_all add: this_obj_def)
  have p: "pop E w = Some (VSTR nm, set_stack s w)" using st(1) by (rule pop_top)
  have q: "pushn E 0 (set_stack s w) = Some (set_stack (s @ [VNUM 0]) w)"
    using st(2) by (simp add: pushn_def push_room)
  show ?thesis
  proof (cases "line_of (sdata nm) (o_locks ob) = []")
    case True
    then show ?thesis
      by (simp add: op_lock_def p q t(2) lock_taken_line put_this_def ob Let_def lock_join_def)
  next
    case False
    then show ?thesis
      by (simp add: op_lock_def p q t(2) lock_taken_line put_this_def ob Let_def event_add_def
          process_event_def process_lock_event_def find_lock_def retrieve_def find_lock_line
          line_of_join [unfolded lock_join_def] lock_join_def map_conv_bind_option comp_def own)
  qed
qed

theorem op_lock_spec_witness:
  "\<exists>w'. op_lock demo_env (demo_world [] [VSTRs ''door'']) = Some w' \<and> w_state w' = RUNNING \<and>
     stack w' = [VNUM 0]"
proof -
  have l: "o_locks (demo_root []) = []" by (simp add: demo_objects)
  have a: "stack (demo_world [] [VSTRs ''door'']) = [] @ [VSTR (mk_str ''door'')]"
    "w_this (demo_world [] [VSTRs ''door'']) = Some 1"
    "w_db (demo_world [] [VSTRs ''door'']) 1 = Some (demo_root [])"
    "ev_this (w_frame (demo_world [] [VSTRs ''door''])) = \<lparr>server = 0, oid = 1\<rparr>"
    by (simp_all add: demo_world_def demo_frame_def local_id_def)
  show ?thesis
    using op_lock_spec [OF a(1) _ a(2-4), of demo_env] l
    by (auto simp: STACK_SIZE_def demo_world_def)
qed

section \<open>Waiting on an object that is destroyed\<close>

text \<open>
  A method that waits for a lock of an object does not survive the destruction of the object
  by another method: the server looks for the locks of an object that is gone, through a null
  pointer.
\<close>

theorem lock_wait_crash:
  assumes "op_destroy E w = Some w'" "ev_blocked e = BL_LOCK" "ev_this e = ev_this (w_frame w)"
    and "valid (w_db w) (ev_this (w_frame w))"
  shows "process_event k e E now timeout w' = None"
proof -
  have "w_db w' = fst (destroy (w_db w) (ev_this (w_frame w)))"
    using assms(1) by (auto simp: op_destroy_def pushn_def push_def raise_core_def Let_def
      send_raise_def send_message_def msg_add_def split: bind_splits if_splits eh.splits)
  then have "retrieve (w_db w') (ev_this e) = None"
    using assms(3,4) by (auto simp: destroy_def retrieve_def valid_def split: if_splits)
  with assms(2) show ?thesis
    by (simp add: process_event_def process_lock_event_def find_lock_def)
qed

theorem lock_wait_crash_witness:
  "\<exists>w'. op_destroy demo_env (demo_world [] []) = Some w' \<and>
     process_event 0 ((demo_frame [] [])\<lparr>ev_blocked := BL_LOCK, ev_lock := ''door''\<rparr>) demo_env
       \<lparr>tv_sec = 0, tv_usec = 0\<rparr> \<lparr>tv_sec = 9, tv_usec = 0\<rparr> w' = None"
proof -
  obtain w' where w': "op_destroy demo_env (demo_world [] []) = Some w'"
    by (simp add: op_destroy_def pushn_def push_def demo_machine STACK_SIZE_def Let_def)
  show ?thesis
    using lock_wait_crash [OF w', of "(demo_frame [] [])\<lparr>ev_blocked := BL_LOCK, ev_lock := ''door''\<rparr>"] w'
    by (simp add: demo_machine valid_retrieve)
qed

section \<open>The end of a method\<close>

lemma free_frame_msgs: "free_frame E w = Some w' \<Longrightarrow>
    w_msgs w' = w_msgs w \<and> w_state w' = w_state w \<and> w_retval w' = w_retval w \<and> stack w' = [] \<and>
    frame_id w' = frame_id w \<and> ev_player (w_frame w') = ev_player (w_frame w)"
  by (auto simp: free_frame_def frame_id_def Let_def split: bind_splits option.splits)

text \<open>
  A method whose object has been destroyed while it waited answers twice when the reply it
  waits for is an error: its caller gets a \<open>raise\<close> message and then a \<open>return\<close> message with 0
  for the same message number, and the second one may be taken as the answer.
\<close>

theorem raise_then_return:
  assumes "retrieve (w_db w) (ev_this e) = None" "resume_method_raise e [VERR c, VSTRs text] E w = Some w'"
    and "nth_opt (m_ehandler (ev_m e)) (sint c) = Some EH_DEFAULT"
    and "server (ev_caller e) = 0" "0 \<le> sint (ev_msgid e)"
  shows "\<exists>tb. map (\<lambda>m. (ms_msgid m, ms_to m, ms_text m, ms_args m)) (w_msgs w') =
    map (\<lambda>m. (ms_msgid m, ms_to m, ms_text m, ms_args m)) (w_msgs w) @
    [(ev_msgid e, ev_caller e, ''raise'', [VERR c, tb]),
     (ev_msgid e, ev_caller e, ''return'', [VNUM 0])]"
proof -
  let ?v = "\<lambda>ms. map (\<lambda>m. (ms_msgid m, ms_to m, ms_text m, ms_args m)) ms"
  from assms(2,3) obtain tb w1 where w1: "send_raise E [VERR c, VSTRs tb] (w\<lparr>w_frame := e\<rparr>) = Some w1"
    and ex: "execute E (w1\<lparr>w_state := RAISED\<rparr>) = Some w'"
    by (auto simp: resume_method_raise_def Let_def nth_opt_def split: bind_splits if_splits)
  from w1 assms(4,5) obtain ms where w1': "w1 = w\<lparr>w_frame := e, w_msgs := ms\<rparr>"
    and ms: "?v ms = ?v (w_msgs w) @ [(ev_msgid e, ev_caller e, ''raise'', [VERR c, VSTRs tb])]"
    by (auto simp: send_raise_def send_message_def frame_message_def msg_add_def Let_def)
  let ?w2 = "w\<lparr>w_frame := e, w_msgs := ms, w_retval := VNUM 0, w_this := None, w_state := STOPPED\<rparr>"
  from ex assms(1) obtain w3 where w3: "free_frame E ?w2 = Some w3"
    and w': "map_option fst (send_message E (frame_message RETURN (return_args (w_retval w3)) w3) None w3) = Some w'"
    by (auto simp: execute_def w1' Let_def exec_loop_not_running clear_locks_def this_obj_def
      dest: free_frame_msgs split: bind_splits if_splits)
  from free_frame_msgs [OF w3] have "frame_id w3 = frame_id ?w2" "w_msgs w3 = ms" "w_retval w3 = VNUM 0"
    by simp_all
  then have "ev_msgid (w_frame w3) = ev_msgid e" "ev_caller (w_frame w3) = ev_caller e"
    by (simp_all add: frame_id_def Let_def)
  with w' assms(4,5) \<open>w_msgs w3 = ms\<close> \<open>w_retval w3 = VNUM 0\<close> ms show ?thesis
    by (auto simp: send_message_def frame_message_def msg_add_def return_args_def Let_def)
qed

theorem raise_then_return_witness:
  "\<exists>w'. resume_method_raise (demo_frame [305] []) [VERR 2, VSTRs ''oops''] demo_env
       ((demo_world [305] [])\<lparr>w_db := \<lambda>_. None\<rparr>) = Some w' \<and>
     map ms_text (w_msgs w') = [''raise'', ''return'']"
proof -
  let ?w = "(demo_world [305] [])\<lparr>w_db := \<lambda>_. None\<rparr>"
  let ?e = "demo_frame [305] []"
  have h: "nth_opt (m_ehandler (ev_m ?e)) (sint (2 :: i32)) = Some EH_DEFAULT"
    by (simp add: demo_frame_def demo_method_def nth_opt_def)
  have t: "\<exists>t. obj_text demo_servers (local_id 1) = Some t"
    by (simp add: obj_text_def catobj_def serv_id2name_def serv_find_def demo_servers_def
      demo_self_def demo_server_def)
  obtain w' where w': "resume_method_raise ?e [VERR 2, VSTRs ''oops''] demo_env ?w = Some w'"
    using t h by (auto simp: resume_method_raise_def nth_opt_def add_traceback_def send_raise_def
      send_message_def frame_message_def demo_name demo_machine demo_line [simplified demo_machine demo_method_def] Let_def demo_method_def msg_add_def
      execute_def retrieve_def exec_loop_not_running clear_locks_def this_obj_def free_frame_def)
  have "map ms_text (w_msgs w') = [''raise'', ''return'']"
    if "map (\<lambda>m. (ms_msgid m, ms_to m, ms_text m, ms_args m)) (w_msgs w') =
      [(a, b, ''raise'', c), (d, f, ''return'', g)]" for a b c d f g
  proof -
    have "map (fst \<circ> snd \<circ> snd) (map (\<lambda>m. (ms_msgid m, ms_to m, ms_text m, ms_args m)) (w_msgs w')) =
      [''raise'', ''return'']" using that by simp
    then show ?thesis by (simp add: comp_def)
  qed
  with raise_then_return [OF _ w' h] show ?thesis
    using w' by (auto simp: demo_machine retrieve_def)
qed

text \<open>
  C35: a method that blocks at its last tick is over and waits at the same time: the tick after
  the opcode raises \<open>E_TICKS\<close>, which ends the method and answers its caller, but the event that
  keeps its frame stays in the queue.
\<close>

theorem blocked_at_limit:
  assumes op: "opcodes c = Some (Some ent)" "code_at w (pc w) = Some c"
    and call: "call_op c E (set_frame (\<lambda>f. f\<lparr>ev_last := c, ev_pc := ev_pc f + 1\<rparr>) w) = Some w1"
      "w_state w1 = BLOCKED" "w_events w1 = w_events w @ [e]"
    and k: "compiler_keeps E" "compiled_handlers (ev_m (w_frame w))" "length (stack w) \<le> STACK_SIZE"
    and t: "e_max_ticks E \<le> sint (ev_ticks (w_frame w) + 1)"
    and x: "exec_op E w = Some (w', go)"
  shows "w_state w' = RAISED \<and> e \<in> set (w_events w')"
proof -
  let ?k = "frame_id w"
  have s: "stays ?k w" "compiled_handlers (fi_m ?k)" "fi_ticks ?k = ev_ticks (w_frame w)"
    using k by (simp_all add: stays_def frame_id_def Let_def)
  from x op call(1) have tk: "tick E w1 = Some w'" "go"
    by (auto simp: exec_op_def split: bind_splits)
  have r: "w_state w' = RAISED" using exec_op_step [OF x s(1,2) k(1)] t s(3) tk(2) by simp
  have ev: "w_events b = w_events a" if "send_message E m None a = Some (b, z)" for m a b z
    using that by (auto simp: send_message_def msg_add_def Let_def split: if_splits bind_splits)
  have core: "w_events b = w_events a" if "raise_core E n a = Some b" for n a b
    using that by (auto simp: raise_core_def send_raise_def split: if_splits bind_splits eh.splits dest: ev)
  have "w_events w' = w_events w1"
    using tk(1) by (auto simp: tick_def raise_code_def push_def Let_def split: if_splits bind_splits dest!: core)
  with call(3) r show ?thesis by simp
qed

end
