(* ===== verification/Codegen.thy ===== *)
theory Codegen
  imports Objects
begin

text \<open>
  The code a method is compiled to: the machine array (\<open>code.c\<close>) and the actions of the grammar
  that fill it (\<open>cool.y\<close>). A parse tree has one constructor for each production of \<open>expr\<close> and
  \<open>statement\<close>, with the names already looked up, as the actions do it; the generated parser that
  builds it is not modelled. A generator takes the machine array and returns it, with the jumps
  patched in once their targets are known, in the order of the actions. \<open>emit\<close> is the code it
  comes to, written down at once.
\<close>

section \<open>code.c: the machine array\<close>

text \<open>\<open>mc_mem\<close> is the allocated array; what it holds from \<open>mc_progi\<close> on is never read.\<close>

record mach =
  mc_mem :: "i32 list"
  mc_progi :: nat

definition CODE_INIT_SIZE :: nat where
  "CODE_INIT_SIZE = 32"

definition code_init :: "mach \<Rightarrow> mach" where
  "code_init mc = \<lparr>mc_mem = replicate CODE_INIT_SIZE 0, mc_progi = 0\<rparr>"

definition code :: "i32 \<Rightarrow> mach \<Rightarrow> nat \<times> mach" where
  "code inst mc =
     (let mc = (if mc_mem mc = [] then code_init mc else mc);
          p = mc_progi mc; size = length (mc_mem mc);
          mem = (if size \<le> p then take p (mc_mem mc) @ replicate (size * 2 - p) 0 else mc_mem mc)
      in (p, \<lparr>mc_mem = mem[p := inst], mc_progi = p + 1\<rparr>))"

fun code_list :: "i32 list \<Rightarrow> mach \<Rightarrow> nat \<times> mach" where
  "code_list [] mc = (mc_progi mc, mc)"
| "code_list (x # xs) mc = (let (a, mc) = code x mc in (a, snd (code_list xs mc)))"

definition patch :: "nat \<Rightarrow> nat \<Rightarrow> mach \<Rightarrow> mach" where
  "patch k v mc = mc\<lparr>mc_mem := (mc_mem mc)[k := of_nat v]\<rparr>"

definition code_copy :: "cmethod \<Rightarrow> mach \<Rightarrow> cmethod \<times> mach" where
  "code_copy m mc = (m\<lparr>m_code := take (mc_progi mc) (mc_mem mc)\<rparr>, \<lparr>mc_mem = [], mc_progi = 0\<rparr>)"

section \<open>cool.y: parse trees\<close>

datatype expr =
  ENum i32
| EStr i32
| EErr i32
| EObj i32 i32
| ESys i32
| ELocal i32
| EGlobal i32
| ELeaf int
| EBin int expr expr
| ETern expr expr expr
| EUn int expr
| EAnd expr expr
| EOr expr expr
| EList "expr list"
| EMap epairs
| EFun int "expr list"
| EPass "expr list" i32
| EMsg expr i32 "expr list"
| EMsgExpr expr expr "expr list"
and epairs = PNil | PCons expr expr epairs

datatype stmt =
  SIf expr "stmt list" elifs
| SFor i32 expr "stmt list"
| SForRng i32 expr expr "stmt list"
| SWhile expr "stmt list"
| SDo "stmt list" expr
| SAt expr "stmt list"
| SExpr expr
| SAsgnL i32 expr
| SAsgnG i32 expr
| SIndexL i32 expr expr
| SIndexG i32 expr expr
| SPlayer expr
| SReturn expr
| SReturn0
| SRaise expr
| SContinue i32
| SBreak i32
and elifs = EndIf | Else "stmt list" | ElseIf expr "stmt list" elifs

fun pairs_len :: "epairs \<Rightarrow> nat" where
  "pairs_len PNil = 0"
| "pairs_len (PCons a b r) = Suc (pairs_len r)"

section \<open>cool.y: the actions\<close>

abbreviation codes :: "int list \<Rightarrow> mach \<Rightarrow> nat \<times> mach" where
  "codes xs \<equiv> code_list (map i32_of xs)"

text \<open>
  \<open>machine[a + 1] = code(...)\<close> writes through \<open>machine\<close> and may also move it; C leaves open which
  comes first. Here the right side is first, as the compilers in use have it.
\<close>

fun gen_expr :: "expr \<Rightarrow> mach \<Rightarrow> mach"
  and gen_args :: "expr list \<Rightarrow> mach \<Rightarrow> mach"
  and gen_pairs :: "epairs \<Rightarrow> mach \<Rightarrow> mach" where
  "gen_expr (ENum n) mc = snd (code_list [i32_of O_NUMPUSH, n] mc)"
| "gen_expr (EStr n) mc = snd (code_list [i32_of O_STRPUSH, n] mc)"
| "gen_expr (EErr n) mc = snd (code_list [i32_of O_ERRPUSH, n] mc)"
| "gen_expr (EObj n sv) mc = snd (code_list [i32_of O_OBJPUSH, n, sv] mc)"
| "gen_expr (ESys n) mc = snd (code_list [i32_of O_GETSYSVAR, n] mc)"
| "gen_expr (ELocal n) mc = snd (code_list [i32_of O_GETLVAR, n] mc)"
| "gen_expr (EGlobal n) mc = snd (code_list [i32_of O_GETGVAR, n] mc)"
| "gen_expr (ELeaf p) mc = snd (codes [p] mc)"
| "gen_expr (EBin p a b) mc = snd (codes [p] (gen_expr b (gen_expr a mc)))"
| "gen_expr (ETern a b c) mc = snd (codes [O_SUBSET] (gen_expr c (gen_expr b (gen_expr a mc))))"
| "gen_expr (EUn p a) mc = snd (codes [p] (gen_expr a mc))"
| "gen_expr (EAnd a b) mc =
     (let (k, mc) = codes [O_AND, 0] (gen_expr a mc);
          (e, mc) = codes [O_ENDAND] (gen_expr b mc)
      in patch (k + 1) e mc)"
| "gen_expr (EOr a b) mc =
     (let (k, mc) = codes [O_OR, 0] (gen_expr a mc);
          (e, mc) = codes [O_ENDOR] (gen_expr b mc)
      in patch (k + 1) e mc)"
| "gen_expr (EList es) mc = snd (codes [O_LISTPUSH] (gen_args es (snd (codes [O_ARGSTART] mc))))"
| "gen_expr (EMap ps) mc = snd (codes [O_MAPPUSH, int (pairs_len ps)] (gen_pairs ps mc))"
| "gen_expr (EFun f es) mc = snd (codes [f] (gen_args es (snd (codes [O_ARGSTART] mc))))"
| "gen_expr (EPass es q) mc =
     snd (code_list [i32_of O_PASS, q] (gen_args es (snd (codes [O_ARGSTART] mc))))"
| "gen_expr (EMsg a msg es) mc =
     snd (code_list [i32_of O_MESSAGE, msg] (gen_args es (snd (codes [O_ARGSTART] (gen_expr a mc)))))"
| "gen_expr (EMsgExpr a b es) mc =
     snd (codes [O_MESSAGE_EXPR] (gen_args es (snd (codes [O_ARGSTART] (gen_expr b (gen_expr a mc))))))"
| "gen_args [] mc = mc"
| "gen_args (e # es) mc = gen_args es (gen_expr e mc)"
| "gen_pairs PNil mc = mc"
| "gen_pairs (PCons a b r) mc = gen_pairs r (gen_expr b (gen_expr a mc))"

text \<open>\<open>end\<close>, \<open>endif\<close>, \<open>endfor\<close>, \<open>endwhile\<close> and \<open>endat\<close>: the address after the \<open>STOP\<close>.\<close>

definition gen_end :: "mach \<Rightarrow> nat \<times> mach" where
  "gen_end mc = (let (a, mc) = codes [O_STOP] mc in (a + 1, mc))"

fun gen_stmt :: "stmt \<Rightarrow> mach \<Rightarrow> mach"
  and gen_stmts :: "stmt list \<Rightarrow> mach \<Rightarrow> mach"
  and gen_elifs :: "elifs \<Rightarrow> mach \<Rightarrow> mach" where
  "gen_stmt (SIf e ss r) mc =
     (let (a, mc) = codes [O_IF, 0, 0] (gen_expr e mc);
          (b, mc) = gen_end (gen_stmts ss mc);
          (c, mc) = gen_end (gen_elifs r mc)
      in patch (a + 2) c (patch (a + 1) b mc))"
| "gen_stmt (SFor v e ss) mc =
     (let (a, mc) = codes [O_NUMPUSH, 0] (gen_expr e mc);
          (_, mc) = code_list [i32_of O_FOR, v, 0] mc;
          (c, mc) = gen_end (gen_stmts ss mc)
      in patch (a + 4) c mc)"
| "gen_stmt (SForRng v e f ss) mc =
     (let (a, mc) = code_list [i32_of O_FORRNG, v, 0] (gen_expr f (gen_expr e mc));
          (c, mc) = gen_end (gen_stmts ss mc)
      in patch (a + 2) c mc)"
| "gen_stmt (SWhile e ss) mc =
     (let (_, mc) = codes [O_PUSHPC] mc;
          (a, mc) = codes [O_WHILE, 0] (gen_expr e mc);
          (c, mc) = gen_end (gen_stmts ss mc)
      in patch (a + 1) c mc)"
| "gen_stmt (SDo ss e) mc =
     (let (a, mc) = codes [O_DO, 0] mc;
          mc = gen_stmts ss mc;
          (d, mc) = codes [O_DOWHILE, int (a + 2), int (mc_progi mc)] (gen_expr e mc)
      in patch (a + 1) d mc)"
| "gen_stmt (SAt e ss) mc =
     (let (a, mc) = codes [O_AT, 0] (gen_expr e mc);
          (c, mc) = gen_end (gen_stmts ss mc)
      in patch (a + 1) c mc)"
| "gen_stmt (SExpr e) mc = snd (codes [O_POP] (gen_expr e mc))"
| "gen_stmt (SAsgnL v e) mc = snd (code_list [i32_of O_ASGNLVAR, v] (gen_expr e mc))"
| "gen_stmt (SAsgnG v e) mc = snd (code_list [i32_of O_ASGNGVAR, v] (gen_expr e mc))"
| "gen_stmt (SIndexL v e f) mc =
     snd (code_list [i32_of O_ASGNLVARINDEX, v] (gen_expr f (gen_expr e mc)))"
| "gen_stmt (SIndexG v e f) mc =
     snd (code_list [i32_of O_ASGNGVARINDEX, v] (gen_expr f (gen_expr e mc)))"
| "gen_stmt (SPlayer e) mc = snd (codes [O_SETPLAYER] (gen_expr e mc))"
| "gen_stmt (SReturn e) mc = snd (codes [O_T_RETURN] (gen_expr e mc))"
| "gen_stmt SReturn0 mc = snd (codes [O_NUMPUSH, 0, O_T_RETURN] mc)"
| "gen_stmt (SRaise e) mc = snd (codes [O_T_RAISE] (gen_expr e mc))"
| "gen_stmt (SContinue n) mc = snd (code_list [i32_of O_CONTINUE, n] mc)"
| "gen_stmt (SBreak n) mc = snd (code_list [i32_of O_BREAK, n] mc)"
| "gen_stmts [] mc = mc"
| "gen_stmts (s # ss) mc = gen_stmts ss (gen_stmt s mc)"
| "gen_elifs EndIf mc = mc"
| "gen_elifs (Else ss) mc = snd (gen_end (gen_stmts ss (snd (codes [O_ELSE] mc))))"
| "gen_elifs (ElseIf e ss r) mc =
     (let (a, mc) = codes [O_ELSEIF, 0] (gen_expr e mc);
          (c, mc) = gen_end (gen_stmts ss mc)
      in gen_elifs r (patch (a + 1) c mc))"

text \<open>\<open>end_method\<close> closes the code with a \<open>STOP\<close> and copies it to the method.\<close>

definition compile_body :: "cmethod \<Rightarrow> stmt list \<Rightarrow> mach \<Rightarrow> cmethod \<times> mach" where
  "compile_body m ss mc = code_copy m (snd (codes [O_STOP] (gen_stmts ss mc)))"

section \<open>The code at once\<close>

fun emit :: "nat \<Rightarrow> expr \<Rightarrow> i32 list"
  and emit_args :: "nat \<Rightarrow> expr list \<Rightarrow> i32 list"
  and emit_pairs :: "nat \<Rightarrow> epairs \<Rightarrow> i32 list" where
  "emit a (ENum n) = [i32_of O_NUMPUSH, n]"
| "emit a (EStr n) = [i32_of O_STRPUSH, n]"
| "emit a (EErr n) = [i32_of O_ERRPUSH, n]"
| "emit a (EObj n sv) = [i32_of O_OBJPUSH, n, sv]"
| "emit a (ESys n) = [i32_of O_GETSYSVAR, n]"
| "emit a (ELocal n) = [i32_of O_GETLVAR, n]"
| "emit a (EGlobal n) = [i32_of O_GETGVAR, n]"
| "emit a (ELeaf p) = [i32_of p]"
| "emit a (EBin p x y) = (let cx = emit a x in cx @ emit (a + length cx) y @ [i32_of p])"
| "emit a (ETern x y z) =
     (let cx = emit a x; cy = emit (a + length cx) y
      in cx @ cy @ emit (a + length cx + length cy) z @ [i32_of O_SUBSET])"
| "emit a (EUn p x) = emit a x @ [i32_of p]"
| "emit a (EAnd x y) =
     (let cx = emit a x; cy = emit (a + length cx + 2) y
      in cx @ [i32_of O_AND, of_nat (a + length cx + 2 + length cy)] @ cy @ [i32_of O_ENDAND])"
| "emit a (EOr x y) =
     (let cx = emit a x; cy = emit (a + length cx + 2) y
      in cx @ [i32_of O_OR, of_nat (a + length cx + 2 + length cy)] @ cy @ [i32_of O_ENDOR])"
| "emit a (EList es) = i32_of O_ARGSTART # emit_args (a + 1) es @ [i32_of O_LISTPUSH]"
| "emit a (EMap ps) = emit_pairs a ps @ [i32_of O_MAPPUSH, of_nat (pairs_len ps)]"
| "emit a (EFun f es) = i32_of O_ARGSTART # emit_args (a + 1) es @ [i32_of f]"
| "emit a (EPass es q) = i32_of O_ARGSTART # emit_args (a + 1) es @ [i32_of O_PASS, q]"
| "emit a (EMsg x msg es) =
     (let cx = emit a x
      in cx @ i32_of O_ARGSTART # emit_args (a + length cx + 1) es @ [i32_of O_MESSAGE, msg])"
| "emit a (EMsgExpr x y es) =
     (let cx = emit a x; cy = emit (a + length cx) y
      in cx @ cy @ i32_of O_ARGSTART # emit_args (a + length cx + length cy + 1) es @
         [i32_of O_MESSAGE_EXPR])"
| "emit_args a [] = []"
| "emit_args a (e # es) = (let c = emit a e in c @ emit_args (a + length c) es)"
| "emit_pairs a PNil = []"
| "emit_pairs a (PCons x y r) =
     (let cx = emit a x; cy = emit (a + length cx) y
      in cx @ cy @ emit_pairs (a + length cx + length cy) r)"

fun emit_stmt :: "nat \<Rightarrow> stmt \<Rightarrow> i32 list"
  and emit_stmts :: "nat \<Rightarrow> stmt list \<Rightarrow> i32 list"
  and emit_elifs :: "nat \<Rightarrow> elifs \<Rightarrow> i32 list" where
  "emit_stmt a (SIf e ss r) =
     (let c = emit a e; b = a + length c + 3;
          cs = emit_stmts b ss @ [i32_of O_STOP];
          cr = emit_elifs (b + length cs) r @ [i32_of O_STOP]
      in c @ [i32_of O_IF, of_nat (b + length cs), of_nat (b + length cs + length cr)] @ cs @ cr)"
| "emit_stmt a (SFor v e ss) =
     (let c = emit a e; b = a + length c + 5; cs = emit_stmts b ss @ [i32_of O_STOP]
      in c @ [i32_of O_NUMPUSH, 0, i32_of O_FOR, v, of_nat (b + length cs)] @ cs)"
| "emit_stmt a (SForRng v e f ss) =
     (let c = emit a e; d = emit (a + length c) f; b = a + length c + length d + 3;
          cs = emit_stmts b ss @ [i32_of O_STOP]
      in c @ d @ [i32_of O_FORRNG, v, of_nat (b + length cs)] @ cs)"
| "emit_stmt a (SWhile e ss) =
     (let c = emit (a + 1) e; b = a + length c + 3; cs = emit_stmts b ss @ [i32_of O_STOP]
      in i32_of O_PUSHPC # c @ [i32_of O_WHILE, of_nat (b + length cs)] @ cs)"
| "emit_stmt a (SDo ss e) =
     (let cs = emit_stmts (a + 2) ss; b = a + 2 + length cs; c = emit b e
      in [i32_of O_DO, of_nat (b + length c)] @ cs @ c @ [i32_of O_DOWHILE, of_nat (a + 2), of_nat b])"
| "emit_stmt a (SAt e ss) =
     (let c = emit a e; b = a + length c + 2; cs = emit_stmts b ss @ [i32_of O_STOP]
      in c @ [i32_of O_AT, of_nat (b + length cs)] @ cs)"
| "emit_stmt a (SExpr e) = emit a e @ [i32_of O_POP]"
| "emit_stmt a (SAsgnL v e) = emit a e @ [i32_of O_ASGNLVAR, v]"
| "emit_stmt a (SAsgnG v e) = emit a e @ [i32_of O_ASGNGVAR, v]"
| "emit_stmt a (SIndexL v e f) =
     (let c = emit a e in c @ emit (a + length c) f @ [i32_of O_ASGNLVARINDEX, v])"
| "emit_stmt a (SIndexG v e f) =
     (let c = emit a e in c @ emit (a + length c) f @ [i32_of O_ASGNGVARINDEX, v])"
| "emit_stmt a (SPlayer e) = emit a e @ [i32_of O_SETPLAYER]"
| "emit_stmt a (SReturn e) = emit a e @ [i32_of O_T_RETURN]"
| "emit_stmt a SReturn0 = [i32_of O_NUMPUSH, 0, i32_of O_T_RETURN]"
| "emit_stmt a (SRaise e) = emit a e @ [i32_of O_T_RAISE]"
| "emit_stmt a (SContinue n) = [i32_of O_CONTINUE, n]"
| "emit_stmt a (SBreak n) = [i32_of O_BREAK, n]"
| "emit_stmts a [] = []"
| "emit_stmts a (s # ss) = (let c = emit_stmt a s in c @ emit_stmts (a + length c) ss)"
| "emit_elifs a EndIf = []"
| "emit_elifs a (Else ss) = i32_of O_ELSE # emit_stmts (a + 1) ss @ [i32_of O_STOP]"
| "emit_elifs a (ElseIf e ss r) =
     (let c = emit a e; b = a + length c + 2; cs = emit_stmts b ss @ [i32_of O_STOP]
      in c @ [i32_of O_ELSEIF, of_nat (b + length cs)] @ cs @ emit_elifs (b + length cs) r)"

section \<open>The generator writes that code\<close>

definition code_of :: "mach \<Rightarrow> i32 list" where
  "code_of mc = take (mc_progi mc) (mc_mem mc)"

text \<open>A fresh array, or one that \<open>code_init\<close> has made; its counter stays inside.\<close>

definition mach_ok :: "mach \<Rightarrow> bool" where
  "mach_ok mc \<longleftrightarrow> mc_progi mc \<le> length (mc_mem mc)"

text \<open>\<open>grows mc xs mc'\<close>: the code of \<open>mc'\<close> is that of \<open>mc\<close> and then \<open>xs\<close>.\<close>

definition grows :: "mach \<Rightarrow> i32 list \<Rightarrow> mach \<Rightarrow> bool" where
  "grows mc xs mc' \<longleftrightarrow>
     mach_ok mc' \<and> mc_progi mc' = mc_progi mc + length xs \<and> code_of mc' = code_of mc @ xs"

lemma length_code_of [simp]: "mach_ok mc \<Longrightarrow> length (code_of mc) = mc_progi mc"
  by (simp add: code_of_def mach_ok_def)

lemma take_Suc_update: "p < length l \<Longrightarrow> take (Suc p) (l[p := x]) = take p l @ [x]"
  by (simp add: take_Suc_conv_app_nth)

lemma grows_code: "mach_ok mc \<Longrightarrow> grows mc [x] (snd (code x mc))"
proof (cases "mc_mem mc = []")
  case False
  assume "mach_ok mc"
  then show ?thesis using False
    by (cases "length (mc_mem mc) = mc_progi mc")
      (auto simp: grows_def mach_ok_def code_def code_of_def Let_def take_Suc_update Suc_le_eq
        simp flip: length_greater_0_conv)
qed (simp add: grows_def mach_ok_def code_def code_of_def code_init_def CODE_INIT_SIZE_def
    take_Suc_update)

lemma code_address: "mach_ok mc \<Longrightarrow> fst (code x mc) = mc_progi mc"
  by (auto simp: code_def mach_ok_def code_init_def Let_def)

lemma grows_code_list: "mach_ok mc \<Longrightarrow> grows mc xs (snd (code_list xs mc))"
proof (induction xs arbitrary: mc)
  case (Cons x xs)
  with grows_code [OF Cons.prems, of x] show ?case
    by (auto simp: grows_def split_beta Let_def)
qed (simp add: grows_def)

lemma code_list_address [simp]: "mach_ok mc \<Longrightarrow> fst (code_list xs mc) = mc_progi mc"
  by (cases xs) (simp_all add: code_address split_beta)

lemma code_list_simps [simp]:
  assumes "mach_ok mc"
  shows "mach_ok (snd (code_list xs mc))"
    "mc_progi (snd (code_list xs mc)) = mc_progi mc + length xs"
    "code_of (snd (code_list xs mc)) = code_of mc @ xs"
  using grows_code_list [OF assms] by (simp_all add: grows_def)

lemma gen_end_simps [simp]:
  assumes "mach_ok mc"
  shows "mach_ok (snd (gen_end mc))" "mc_progi (snd (gen_end mc)) = mc_progi mc + 1"
    "code_of (snd (gen_end mc)) = code_of mc @ [i32_of O_STOP]"
    "fst (gen_end mc) = mc_progi mc + 1"
  using assms by (simp_all add: gen_end_def split_beta del: code_list.simps)

lemma patch_simps [simp]:
  "mach_ok (patch k v mc) = mach_ok mc" "mc_progi (patch k v mc) = mc_progi mc"
  "code_of (patch k v mc) = (code_of mc)[k := of_nat v]"
  by (simp_all add: patch_def mach_ok_def code_of_def take_update_swap)

text \<open>Each generator appends its code, whatever came before.\<close>

lemma grows_expr:
  "mach_ok mc \<Longrightarrow> mc_progi mc = a \<Longrightarrow> grows mc (emit a e) (gen_expr e mc)"
  "mach_ok mc \<Longrightarrow> mc_progi mc = a \<Longrightarrow> grows mc (emit_args a es) (gen_args es mc)"
  "mach_ok mc \<Longrightarrow> mc_progi mc = a \<Longrightarrow> grows mc (emit_pairs a ps) (gen_pairs ps mc)"
  by (induction a e and a es and a ps arbitrary: mc and mc and mc
      rule: emit_emit_args_emit_pairs.induct)
    (simp_all add: grows_def split_beta Let_def list_update_append del: code_list.simps)

lemma grows_stmt:
  "mach_ok mc \<Longrightarrow> mc_progi mc = a \<Longrightarrow> grows mc (emit_stmt a s) (gen_stmt s mc)"
  "mach_ok mc \<Longrightarrow> mc_progi mc = a \<Longrightarrow> grows mc (emit_stmts a ss) (gen_stmts ss mc)"
  "mach_ok mc \<Longrightarrow> mc_progi mc = a \<Longrightarrow> grows mc (emit_elifs a r) (gen_elifs r mc)"
proof (induction a s and a ss and a r arbitrary: mc and mc and mc
      rule: emit_stmt_emit_stmts_emit_elifs.induct)
qed (simp_all add: grows_def split_beta Let_def list_update_append grows_expr [unfolded grows_def]
     del: code_list.simps)

text \<open>A method compiled on a fresh array gets exactly that code, and the array is given back.\<close>

lemma compile_body_code:
  assumes "mach_ok mc" "mc_progi mc = 0"
  shows "compile_body m ss mc =
    (m\<lparr>m_code := emit_stmts 0 ss @ [i32_of O_STOP]\<rparr>, \<lparr>mc_mem = [], mc_progi = 0\<rparr>)"
proof -
  have "grows mc (emit_stmts 0 ss) (gen_stmts ss mc)" using grows_stmt(2) assms by simp
  moreover have "code_of mc = []" using assms by (simp add: code_of_def)
  ultimately have "code_of (snd (codes [O_STOP] (gen_stmts ss mc))) = emit_stmts 0 ss @ [i32_of O_STOP]"
    by (simp add: grows_def del: code_list.simps)
  then show ?thesis by (simp add: compile_body_def code_copy_def code_of_def del: code_list.simps)
qed

end
