(* ===== verification/Listing.thy ===== *)
theory Listing
  imports Decode Codegen
begin

text \<open>
  What the unparser prints for the code of the compiler. The listing of a parse tree is defined
  directly, without a stack or an array of nodes; the unparser is then shown to print it, for
  every tree that fits in its two arrays, and to leave both as it found them.
\<close>

section \<open>The text of an expression\<close>

definition paren :: "bool \<Rightarrow> int \<Rightarrow> int \<Rightarrow> string \<Rightarrow> string" where
  "paren br tprec prec s = (if tprec \<noteq> 0 \<and> (tprec < prec \<or> br) then ''('' @ s @ '')'' else s)"

definition call_text :: "string list \<Rightarrow> string" where
  "call_text ts = (if ts = [] then [] else ''('' @ commas ts @ '')'')"

fun expr_text :: "servtab \<Rightarrow> object \<Rightarrow> cmethod \<Rightarrow> bool \<Rightarrow> int \<Rightarrow> expr \<Rightarrow> string"
  and args_text :: "servtab \<Rightarrow> object \<Rightarrow> cmethod \<Rightarrow> bool \<Rightarrow> expr list \<Rightarrow> string list"
  and pairs_text :: "servtab \<Rightarrow> object \<Rightarrow> cmethod \<Rightarrow> bool \<Rightarrow> epairs \<Rightarrow> string list" where
  "expr_text T ob m br prec (ENum n) = num_text (sint n)"
| "expr_text T ob m br prec (EStr n) =
     quote_mark @ the (backslash (the (sym_str ob (sint n)))) @ quote_mark"
| "expr_text T ob m br prec (EErr n) = err_id2name n"
| "expr_text T ob m br prec (EObj n sv) =
     the (catobj T [] \<lparr>server = scast sv, oid = n\<rparr> ((scast sv :: i16) \<noteq> 0))"
| "expr_text T ob m br prec (ESys n) = ''$'' @ the (sym_str ob (sint n))"
| "expr_text T ob m br prec (ELocal n) = the (local_name ob m (sint n))"
| "expr_text T ob m br prec (EGlobal n) = the (sym_str ob (sint n))"
| "expr_text T ob m br prec (ELeaf p) = the (leaf_text p)"
| "expr_text T ob m br prec (EBin p a b) =
     paren br (expr_prec p) prec
       (if p = O_INDEX then expr_text T ob m br 0 a @ ''['' @ expr_text T ob m br 0 b @ '']''
        else if p = O_LSUBSET then expr_text T ob m br 0 a @ ''[..'' @ expr_text T ob m br 0 b @ '']''
        else if p = O_RSUBSET then expr_text T ob m br 0 a @ ''['' @ expr_text T ob m br 0 b @ ''..]''
        else expr_text T ob m br (expr_prec p) a @ the (binop_text p) @ expr_text T ob m br (expr_prec p + 1) b)"
| "expr_text T ob m br prec (ETern a b c) =
     expr_text T ob m br 0 a @ ''['' @ expr_text T ob m br 0 b @ ''..'' @
     expr_text T ob m br 0 c @ '']''"
| "expr_text T ob m br prec (EUn p a) =
     paren br (expr_prec p) prec (the (unop_text p) @ expr_text T ob m br (expr_prec p) a)"
| "expr_text T ob m br prec (EAnd a b) =
     paren br 4 prec (expr_text T ob m br 4 a @ '' && '' @ expr_text T ob m br 5 b)"
| "expr_text T ob m br prec (EOr a b) =
     paren br 3 prec (expr_text T ob m br 3 a @ '' || '' @ expr_text T ob m br 4 b)"
| "expr_text T ob m br prec (EList es) = ''{'' @ commas (args_text T ob m br es) @ ''}''"
| "expr_text T ob m br prec (EMap ps) = ''['' @ commas (rev (pairs_text T ob m br ps)) @ '']''"
| "expr_text T ob m br prec (EFun f es) =
     the (bf_id2name f) @ ''('' @ commas (args_text T ob m br es) @ '')''"
| "expr_text T ob m br prec (EPass es q) =
     ''pass('' @ commas (args_text T ob m br es) @ '')'' @
     (if sint q \<noteq> sint (oid (the (as_obj (o_parents ob ! 0)))) then '' to #'' @ num_text (sint q)
      else [])"
| "expr_text T ob m br prec (EMsg a n es) =
     expr_text T ob m br 0 a @ ''.'' @ the (sym_str ob (sint n)) @ call_text (args_text T ob m br es)"
| "expr_text T ob m br prec (EMsgExpr a b es) =
     expr_text T ob m br 0 a @ ''.('' @ expr_text T ob m br 0 b @ '')'' @
     call_text (args_text T ob m br es)"
| "args_text T ob m br [] = []"
| "args_text T ob m br (e # es) = expr_text T ob m br 0 e # args_text T ob m br es"
| "pairs_text T ob m br PNil = []"
| "pairs_text T ob m br (PCons a b r) =
     (expr_text T ob m br 0 a @ '' => '' @ expr_text T ob m br 0 b) # pairs_text T ob m br r"

text \<open>The names an expression uses exist, and its operators are those of the grammar.\<close>

definition bin_ops :: "int set" where
  "bin_ops = {O_ADD, O_SUB, O_MUL, O_DIV, O_MOD, O_EQ, O_NE, O_GT, O_GE, O_LT, O_LE, O_INDEX, O_IN,
     O_LSUBSET, O_RSUBSET}"

definition un_ops :: "int set" where
  "un_ops = {O_NEGATE, O_NOT, O_SPLICE}"

definition leaf_ops :: "int set" where
  "leaf_ops = {O_PARENTS, O_ARGS, O_THIS, O_PLAYER, O_CALLER}"

fun wf_expr :: "servtab \<Rightarrow> object \<Rightarrow> cmethod \<Rightarrow> expr \<Rightarrow> bool"
  and wf_args :: "servtab \<Rightarrow> object \<Rightarrow> cmethod \<Rightarrow> expr list \<Rightarrow> bool"
  and wf_pairs :: "servtab \<Rightarrow> object \<Rightarrow> cmethod \<Rightarrow> epairs \<Rightarrow> bool" where
  "wf_expr T ob m (ENum n) = True"
| "wf_expr T ob m (EStr n) = (Option.bind (sym_str ob (sint n)) backslash \<noteq> None)"
| "wf_expr T ob m (EErr n) = True"
| "wf_expr T ob m (EObj n sv) =
     (catobj T [] \<lparr>server = scast sv, oid = n\<rparr> ((scast sv :: i16) \<noteq> 0) \<noteq> None)"
| "wf_expr T ob m (ESys n) = (sym_str ob (sint n) \<noteq> None)"
| "wf_expr T ob m (ELocal n) = (local_name ob m (sint n) \<noteq> None)"
| "wf_expr T ob m (EGlobal n) = (sym_str ob (sint n) \<noteq> None)"
| "wf_expr T ob m (ELeaf p) = (p \<in> leaf_ops)"
| "wf_expr T ob m (EBin p a b) = (p \<in> bin_ops \<and> wf_expr T ob m a \<and> wf_expr T ob m b)"
| "wf_expr T ob m (ETern a b c) = (wf_expr T ob m a \<and> wf_expr T ob m b \<and> wf_expr T ob m c)"
| "wf_expr T ob m (EUn p a) = (p \<in> un_ops \<and> wf_expr T ob m a)"
| "wf_expr T ob m (EAnd a b) = (wf_expr T ob m a \<and> wf_expr T ob m b)"
| "wf_expr T ob m (EOr a b) = (wf_expr T ob m a \<and> wf_expr T ob m b)"
| "wf_expr T ob m (EList es) = wf_args T ob m es"
| "wf_expr T ob m (EMap ps) = wf_pairs T ob m ps"
| "wf_expr T ob m (EFun f es) = (f \<in> set (map bf_num bf_table) \<and> wf_args T ob m es)"
| "wf_expr T ob m (EPass es q) =
     (Option.bind (nth_opt (o_parents ob) 0) as_obj \<noteq> None \<and> wf_args T ob m es)"
| "wf_expr T ob m (EMsg a n es) =
     (sym_str ob (sint n) \<noteq> None \<and> wf_expr T ob m a \<and> wf_args T ob m es)"
| "wf_expr T ob m (EMsgExpr a b es) = (wf_expr T ob m a \<and> wf_expr T ob m b \<and> wf_args T ob m es)"
| "wf_args T ob m [] = True"
| "wf_args T ob m (e # es) = (wf_expr T ob m e \<and> wf_args T ob m es)"
| "wf_pairs T ob m PNil = True"
| "wf_pairs T ob m (PCons a b r) = (wf_expr T ob m a \<and> wf_expr T ob m b \<and> wf_pairs T ob m r)"

text \<open>The cells of the array and the places on the stack that unparsing it takes.\<close>

fun ecells :: "expr \<Rightarrow> nat" and acells :: "expr list \<Rightarrow> nat" and pcells :: "epairs \<Rightarrow> nat" where
  "ecells (EBin p a b) = ecells a + ecells b + 3"
| "ecells (ETern a b c) = ecells a + ecells b + ecells c + 4"
| "ecells (EUn p a) = ecells a + 2"
| "ecells (EAnd a b) = ecells a + ecells b + 3"
| "ecells (EOr a b) = ecells a + ecells b + 3"
| "ecells (EList es) = acells es + length es + 2"
| "ecells (EMap ps) = pcells ps + 2 * pairs_len ps + 2"
| "ecells (EFun f es) = acells es + length es + 2"
| "ecells (EPass es q) = acells es + length es + 3"
| "ecells (EMsg a n es) = ecells a + acells es + length es + 4"
| "ecells (EMsgExpr a b es) = ecells a + ecells b + acells es + length es + 4"
| "ecells _ = 0"
| "acells [] = 0"
| "acells (e # es) = ecells e + acells es"
| "pcells PNil = 0"
| "pcells (PCons a b r) = ecells a + ecells b + pcells r"

fun edepth :: "expr \<Rightarrow> nat" and adepth :: "expr list \<Rightarrow> nat" and pdepth :: "epairs \<Rightarrow> nat" where
  "edepth (EBin p a b) = max (edepth a) (1 + edepth b)"
| "edepth (ETern a b c) = max (edepth a) (max (1 + edepth b) (2 + edepth c))"
| "edepth (EUn p a) = edepth a"
| "edepth (EAnd a b) = max (edepth a) (1 + edepth b)"
| "edepth (EOr a b) = max (edepth a) (1 + edepth b)"
| "edepth (EList es) = 1 + adepth es"
| "edepth (EMap ps) = max 1 (pdepth ps)"
| "edepth (EFun f es) = 1 + adepth es"
| "edepth (EPass es q) = 1 + adepth es"
| "edepth (EMsg a n es) = max (edepth a) (2 + adepth es)"
| "edepth (EMsgExpr a b es) = max (edepth a) (max (1 + edepth b) (3 + adepth es))"
| "edepth _ = 1"
| "adepth [] = 0"
| "adepth (e # es) = max (edepth e) (1 + adepth es)"
| "pdepth PNil = 0"
| "pdepth (PCons a b r) = max (edepth a) (max (1 + edepth b) (2 + pdepth r))"

definition fits :: "expr \<Rightarrow> bool" where
  "fits e \<longleftrightarrow> edepth e < MAX_TSTACK \<and> ecells e < MAX_TREE"

section \<open>The arrays, split at their counters\<close>

definition lay :: "dstate \<Rightarrow> inst list \<Rightarrow> inst list \<Rightarrow> inst list \<Rightarrow> inst list \<Rightarrow> dstate" where
  "lay st S X V R = st\<lparr>d_stack := S @ X, d_sp := int (length S), d_tree := V @ R, d_ptr := length V\<rparr>"

lemma lay_simps [simp]:
  "d_stack (lay st S X V R) = S @ X" "d_sp (lay st S X V R) = int (length S)"
  "d_tree (lay st S X V R) = V @ R" "d_ptr (lay st S X V R) = length V"
  "d_line (lay st S X V R) = d_line st" "d_find (lay st S X V R) = d_find st"
  "d_found (lay st S X V R) = d_found st" "d_buf (lay st S X V R) = d_buf st"
  "d_indent (lay st S X V R) = d_indent st" "d_by (lay st S X V R) = d_by st"
  "d_number (lay st S X V R) = d_number st" "d_brackets (lay st S X V R) = d_brackets st"
  by (simp_all add: lay_def)

lemma see_lay: "see i (lay st S X V R) = lay (see i st) S X V R"
  by (simp add: see_def lay_def)

lemma see_see: "i \<le> j \<Longrightarrow> see j (see i st) = see j st"
  by (auto simp: see_def)

lemma tpush_lay:
  "length S < MAX_TSTACK \<Longrightarrow> tpush t (lay st S (x # X) V R) = Some (lay st (S @ [t]) X V R)"
  by (simp add: tpush_def lay_def list_update_append upd_opt_def)

lemma tpop_lay:
  "length S + 1 < MAX_TSTACK \<Longrightarrow> tpop (lay st (S @ [t]) X V R) = Some (t, lay st S (t # X) V R)"
  by (auto simp: tpop_def lay_def nth_opt_def nth_append)

lemma set_cell_lay:
  "length V + k < MAX_TREE \<Longrightarrow> set_cell (length V + k) x (lay st S X V R) = Some (lay st S X V (R[k := x]))"
  by (simp add: set_cell_def lay_def list_update_append)

lemma put_cell_lay:
  "length V < MAX_TREE \<Longrightarrow> put_cell x (lay st S X V (r # R)) = Some (lay st S X (V @ [x]) R)"
  using set_cell_lay [of V 0 x st S X "r # R"] by (simp add: put_cell_def lay_def)

lemma put_pop_lay:
  "length S + 1 < MAX_TSTACK \<Longrightarrow> length V < MAX_TREE \<Longrightarrow>
     put_pop (lay st (S @ [t]) X V (r # R)) = Some (lay st S (t # X) (V @ [t]) R)"
  by (simp add: put_pop_def tpop_lay put_cell_lay)

lemma put_pops_lay:
  "length S + length rs < MAX_TSTACK \<Longrightarrow> length V + length rs \<le> MAX_TREE \<Longrightarrow> length rs \<le> length R \<Longrightarrow>
     put_pops (length rs) (lay st (S @ rs) X V R) =
       Some (lay st S (rs @ X) (V @ rev rs) (drop (length rs) R))"
proof (induction rs arbitrary: X V R rule: rev_induct)
  case (snoc t rs)
  then obtain r R' where R: "R = r # R'" by (cases R) auto
  with snoc.prems snoc.IH [of "V @ [t]" R' "t # X"] put_pop_lay [of "S @ rs" V st t X r R']
  show ?case by simp
qed simp

lemma count_cells_marked:
  assumes "Num (i32_of O_ARGSTART) \<notin> set rs"
  shows "count_cells (Suc (length S + length rs)) s (S @ Num (i32_of O_ARGSTART) # rs @ Y) c =
    (c + length rs, S @ rs @ s # Y)"
  using assms
proof (induction rs arbitrary: s Y c rule: rev_induct)
  case Nil
  then show ?case by (simp add: Let_def)
next
  case (snoc t rs)
  have n: "(S @ Num (i32_of O_ARGSTART) # rs @ t # Y) ! Suc (length S + length rs) = t"
    by (simp add: nth_append)
  have u: "(S @ Num (i32_of O_ARGSTART) # rs @ t # Y)[Suc (length S + length rs) := s] =
      S @ Num (i32_of O_ARGSTART) # rs @ s # Y"
    by (simp add: list_update_append)
  from snoc.IH [of t "s # Y" "c + 1"] snoc.prems n u show ?case
    by (auto simp: Let_def)
qed

lemma count_args_lay:
  assumes "Num (i32_of O_ARGSTART) \<notin> set rs" "length S + length rs + 1 \<le> MAX_TSTACK"
  shows "tree_count_args (lay st (S @ Num (i32_of O_ARGSTART) # rs) X V R) =
    Some (length rs, lay st (S @ rs) (Num 0 # X) V R)"
proof -
  have "nat (int (length (S @ Num (i32_of O_ARGSTART) # rs))) = Suc (length S + length rs)" by simp
  then show ?thesis using assms(2) count_cells_marked [OF assms(1), of S "Num 0" X 0]
    by (simp add: tree_count_args_def lay_def del: count_cells.simps)
qed

lemma arg_cells_lay:
  "length S + length rs < MAX_TSTACK \<Longrightarrow> length V + length rs \<le> MAX_TREE \<Longrightarrow> length rs \<le> length R \<Longrightarrow>
     arg_cells (length rs) (lay st (S @ rs) X V R) =
       Some (lay st S (rs @ X) V (rs @ drop (length rs) R))"
proof (induction rs arbitrary: X R rule: rev_induct)
  case (snoc t rs)
  let ?R = "R[length rs := t]"
  have d: "drop (length rs) ?R = t # drop (Suc (length rs)) R"
    using snoc.prems(3) by (simp add: drop_update_swap) (simp add: Cons_nth_drop_Suc [symmetric])
  show ?case
    using snoc.prems snoc.IH [of ?R "t # X"] tpop_lay [of "S @ rs" st t X V R]
      set_cell_lay [of V "length rs" t st "S @ rs" "t # X" R] d by simp
qed simp

lemma tree_args_lay:
  assumes "length S + length rs < MAX_TSTACK" "length V + length rs + 1 \<le> MAX_TREE"
    "length rs \<le> length R"
  shows "tree_args (length rs) (lay st (S @ rs) X V (r # R)) =
    Some (lay st S (rs @ X) (V @ Num (of_nat (length rs)) # rs) (drop (length rs) R))"
proof -
  have "put_cell (Num (of_nat (length rs))) (lay st (S @ rs) X V (r # R)) =
      Some (lay st (S @ rs) X (V @ [Num (of_nat (length rs))]) R)"
    using assms(2) by (simp add: put_cell_lay)
  moreover have "arg_cells (length rs) (lay st (S @ rs) X (V @ [Num (of_nat (length rs))]) R) =
      Some (lay st S (rs @ X) (V @ [Num (of_nat (length rs))]) (rs @ drop (length rs) R))"
    using assms by (simp add: arg_cells_lay)
  ultimately show ?thesis by (simp add: tree_args_def lay_def)
qed

section \<open>The nodes, as they are laid out\<close>

lemma tree_op_lay:
  assumes "rs \<noteq> []" "length S + length rs < MAX_TSTACK" "length V + length rs + 1 < MAX_TREE"
    "length rs + 1 \<le> length R"
  shows "tree_op (length rs) c (lay st (S @ rs) X V R) =
    Some (lay st (S @ [TreeP (length V)]) (tl (rs @ X)) (V @ Num c # rev rs) (drop (length rs + 1) R))"
proof -
  obtain r R' where R: "R = r # R'" using assms(4) by (cases R) auto
  obtain x Y where Y: "rs @ X = x # Y" using assms(1) by (cases "rs @ X") auto
  show ?thesis
    using assms put_pops_lay [of S rs "V @ [Num c]" R' st X]
    by (simp add: tree_op_def not_too_big_def put_cell_lay R Y tpush_lay)
qed

lemma args_push_lay:
  assumes "length S + length rs < MAX_TSTACK" "length V + length rs + 1 \<le> MAX_TREE"
    "length rs \<le> length R"
  shows "do { st \<leftarrow> tree_args (length rs) (lay st (S @ rs) (x # X) V (r # R)); tpush t st } =
    Some (lay st (S @ [t]) (tl (rs @ x # X)) (V @ Num (of_nat (length rs)) # rs) (drop (length rs) R))"
proof -
  obtain y Y where "rs @ x # X = y # Y" by (cases rs) auto
  then show ?thesis using assms by (simp add: tree_args_lay tpush_lay)
qed

definition marked :: "inst list \<Rightarrow> inst list \<Rightarrow> inst list" where
  "marked S rs = S @ Num (i32_of O_ARGSTART) # rs"

definition is_ref :: "inst \<Rightarrow> bool" where
  "is_ref r \<longleftrightarrow> (\<forall>n. r \<noteq> Num n)"

lemma refs_no_mark: "list_all is_ref rs \<Longrightarrow> Num n \<notin> set rs"
  by (induction rs) (auto simp: is_ref_def)

lemma count_marked:
  "list_all is_ref rs \<Longrightarrow> length S + length rs + 1 < MAX_TSTACK \<Longrightarrow>
     tree_count_args (lay st (marked S rs) X V R) = Some (length rs, lay st (S @ rs) (Num 0 # X) V R)"
  unfolding marked_def by (rule count_args_lay) (simp_all add: refs_no_mark)

lemma tree_func_lay:
  assumes "list_all is_ref rs" "length S + length rs + 1 < MAX_TSTACK"
    "length V + length rs + 2 < MAX_TREE" "length rs + 2 \<le> length R" "nth_opt (m_code m) i = Some c"
  shows "tree_func m i (lay st (marked S rs) X V R) =
    Some (lay st (S @ [TreeP (length V)]) (tl (rs @ Num 0 # X))
      (V @ Num c # Num (of_nat (length rs)) # rs) (drop (length rs + 2) R))"
proof -
  obtain r q R' where R: "R = r # q # R'" using assms(4) by (cases R; cases "tl R") auto
  show ?thesis
    using assms args_push_lay [of S rs "V @ [Num c]" R' st "Num 0" X q "TreeP (length V)"]
    by (simp add: tree_func_def count_marked not_too_big_def put_cell_lay R del: nth_opt_Some_iff)
qed

lemma tree_list_lay:
  assumes "list_all is_ref rs" "length S + length rs + 1 < MAX_TSTACK"
    "length V + length rs + 2 < MAX_TREE" "length rs + 2 \<le> length R"
  shows "tree_list (lay st (marked S rs) X V R) =
    Some (lay st (S @ [TreeP (length V)]) (tl (rs @ Num 0 # X))
      (V @ Num (i32_of O_LISTPUSH) # Num (of_nat (length rs)) # rs) (drop (length rs + 2) R))"
proof -
  obtain r q R' where R: "R = r # q # R'" using assms(4) by (cases R; cases "tl R") auto
  show ?thesis
    using assms args_push_lay [of S rs "V @ [Num (i32_of O_LISTPUSH)]" R' st "Num 0" X q
        "TreeP (length V)"]
    by (simp add: tree_list_def count_marked not_too_big_def put_cell_lay R)
qed

lemma tree_pass_lay:
  assumes "list_all is_ref rs" "length S + length rs + 1 < MAX_TSTACK"
    "length V + length rs + 3 < MAX_TREE" "length rs + 3 \<le> length R"
    "nth_opt (m_code m) (i + 1) = Some q"
  shows "tree_pass m i (lay st (marked S rs) X V R) =
    Some (lay st (S @ [TreeP (length V)]) (tl (rs @ Num 0 # X))
      (V @ Num (i32_of O_PASS) # Num q # Num (of_nat (length rs)) # rs) (drop (length rs + 3) R))"
proof -
  obtain a b c R' where R: "R = a # b # c # R'"
    using assms(4) by (cases R; cases "tl R"; cases "tl (tl R)") auto
  show ?thesis
    using assms args_push_lay [of S rs "V @ [Num (i32_of O_PASS), Num q]" R' st "Num 0" X c
        "TreeP (length V)"]
    by (simp add: tree_pass_def count_marked not_too_big_def put_cell_lay R eval_nat_numeral
        del: nth_opt_Some_iff)
qed

lemma skip_lay:
  "n = length V + length Q \<Longrightarrow> (lay st S X V (Q @ R))\<lparr>d_ptr := n\<rparr> = lay st S X (V @ Q) R"
  by (simp add: lay_def)

lemma set_laid:
  "k < length V \<Longrightarrow> length V \<le> MAX_TREE \<Longrightarrow> set_cell k x (lay st S X V R) = Some (lay st S X (V[k := x]) R)"
  by (simp add: set_cell_def lay_def list_update_append)

lemma tree_message_lay:
  assumes "list_all is_ref rs" "length S + length rs + 2 < MAX_TSTACK"
    "length V + length rs + 4 < MAX_TREE" "length rs + 4 \<le> length R"
    "nth_opt (m_code m) (i + 1) = Some q"
  shows "tree_message m i (lay st (marked (S @ [d]) rs) X V R) =
    Some (lay st (S @ [TreeP (length V)]) (rs @ Num 0 # X)
      (V @ Num (i32_of O_MESSAGE) # Num q # d # Num (of_nat (length rs)) # rs) (drop (length rs + 4) R))"
proof -
  obtain a b c e R' where R: "R = a # b # c # e # R'"
    using assms(4) by (cases R; cases "tl R"; cases "tl (tl R)"; cases "tl (tl (tl R))") auto
  have t: "tree_args (length rs) (lay st ((S @ [d]) @ rs) (Num 0 # X)
      (V @ [Num (i32_of O_MESSAGE), Num q, c]) (e # R')) =
    Some (lay st (S @ [d]) (rs @ Num 0 # X)
      (V @ Num (i32_of O_MESSAGE) # Num q # c # Num (of_nat (length rs)) # rs) (drop (length rs) R'))"
    using assms R by (subst tree_args_lay) simp_all
  have s: "(lay st (S @ d # rs) (Num 0 # X) (V @ [Num 306, Num q])
      (c # e # R'))\<lparr>d_ptr := Suc (Suc (Suc (length V)))\<rparr> =
    lay st (S @ d # rs) (Num 0 # X) (V @ [Num 306, Num q, c]) (e # R')"
    using skip_lay [of _ "V @ [Num 306, Num q]" "[c]"] by simp
  show ?thesis
    using assms(2,3,5) count_marked [OF assms(1), of "S @ [d]" st X V R] t
    by (simp add: s tree_message_def not_too_big_def put_cell_lay R tpop_lay set_laid
        list_update_append tpush_lay eval_nat_numeral del: nth_opt_Some_iff)
qed

lemma tree_message_expr_lay:
  assumes "list_all is_ref rs" "length S + length rs + 3 < MAX_TSTACK"
    "length V + length rs + 4 < MAX_TREE" "length rs + 4 \<le> length R"
  shows "tree_message_expr (lay st (marked (S @ [d, e]) rs) X V R) =
    Some (lay st (S @ [TreeP (length V)]) (e # rs @ Num 0 # X)
      (V @ Num (i32_of O_MESSAGE_EXPR) # d # e # Num (of_nat (length rs)) # rs) (drop (length rs + 4) R))"
proof -
  obtain a b c f R' where R: "R = a # b # c # f # R'"
    using assms(4) by (cases R; cases "tl R"; cases "tl (tl R)"; cases "tl (tl (tl R))") auto
  let ?V = "V @ [Num 307]"
  have s: "(lay st ((S @ [d, e]) @ rs) (Num 0 # X) ?V (b # c # f # R'))
      \<lparr>d_ptr := Suc (Suc (Suc (length V)))\<rparr> =
    lay st ((S @ [d, e]) @ rs) (Num 0 # X) (?V @ [b, c]) (f # R')"
    using skip_lay [of _ ?V "[b, c]"] by simp
  have t: "tree_args (length rs) (lay st ((S @ [d, e]) @ rs) (Num 0 # X) (?V @ [b, c]) (f # R')) =
    Some (lay st ((S @ [d]) @ [e]) (rs @ Num 0 # X)
      (V @ Num (i32_of O_MESSAGE_EXPR) # b # c # Num (of_nat (length rs)) # rs) (drop (length rs) R'))"
    using assms R by (subst tree_args_lay) simp_all
  show ?thesis
    using assms(2,3) count_marked [OF assms(1), of "S @ [d, e]" st X V R] t
    by (simp add: tree_message_expr_def not_too_big_def put_cell_lay R s tpop_lay set_laid
        list_update_append tpush_lay eval_nat_numeral del: append_assoc)
qed

lemma tree_map_lay:
  assumes "length rs = 2 * n" "length S + length rs < MAX_TSTACK" "X \<noteq> [] \<or> rs \<noteq> []"
    "length V + length rs + 2 < MAX_TREE" "length rs + 2 \<le> length R"
    "nth_opt (m_code m) (i + 1) = Some (of_nat n)"
  shows "tree_map m i (lay st (S @ rs) X V R) =
    Some (lay st (S @ [TreeP (length V)]) (tl (rs @ X))
      (V @ Num (i32_of O_MAPPUSH) # Num (of_nat n) # rev rs) (drop (length rs + 2) R))"
proof -
  obtain a b R' where R: "R = a # b # R'" using assms(5) by (cases R; cases "tl R") auto
  obtain y Y where Y: "rs @ X = y # Y" using assms(3) by (cases "rs @ X") auto
  have n: "sint (of_nat n :: i32) = int n"
    using assms(1,4) sint_i32_of [of "int n"] by (simp add: MAX_TREE_def)
  show ?thesis
    using assms put_pops_lay [of S rs "V @ [Num (i32_of O_MAPPUSH), Num (of_nat n)]" R' st X]
    by (simp add: tree_map_def n put_cell_lay R Y tpush_lay MAX_TREE_def nat_mult_distrib
        del: nth_opt_Some_iff)
qed

section \<open>The nodes, as they are printed\<close>

text \<open>
  The reference \<open>r\<close> prints as the text \<open>t\<close> (which depends on the brackets wanted and the
  precedence around it), in every state whose array starts with \<open>V\<close>.
\<close>

definition prints ::
  "servtab \<Rightarrow> object \<Rightarrow> cmethod \<Rightarrow> inst list \<Rightarrow> inst \<Rightarrow> nat \<Rightarrow> (bool \<Rightarrow> int \<Rightarrow> string) \<Rightarrow> bool" where
  "prints T ob m V r k t \<longleftrightarrow> is_ref r \<and>
     (\<forall>n (st :: dstate) prec b W. d_tree st = V @ W \<longrightarrow> k < n \<longrightarrow>
        decompile_expr n T ob m st r prec b = Some (bcat b (t (d_brackets st) prec)))"

lemma prints_more: "prints T ob m V r k t \<Longrightarrow> k \<le> k' \<Longrightarrow> prints T ob m (V @ N) r k' t"
  by (simp add: prints_def)

lemma printsD:
  "prints T ob m V r k t \<Longrightarrow> d_tree st = V @ W \<Longrightarrow> k < n \<Longrightarrow>
     decompile_expr n T ob m st r prec b = Some (bcat b (t (d_brackets st) prec))"
  by (simp add: prints_def)

text \<open>A node is printed by its case, with brackets around it where they are needed.\<close>

lemma prints_node:
  assumes "\<And>n (st :: dstate) b W. d_tree st = V @ W \<Longrightarrow> k \<le> n \<Longrightarrow>
      expr_case (decompile_expr n T ob m st) T ob m st r opc (expr_prec opc) b =
        Some (bcat b (t (d_brackets st)))"
    "is_ref r" "\<And>(st :: dstate) W. d_tree st = V @ W \<Longrightarrow> num_at m st r 0 = Some opc"
  shows "prints T ob m V r k (\<lambda>br prec. paren br (expr_prec opc) prec (t br))"
  unfolding prints_def
proof (intro conjI allI impI)
  fix n and st :: dstate and prec b W
  assume t: "d_tree st = V @ W" and n: "k < n"
  then obtain n' where n': "n = Suc n'" "k \<le> n'" by (cases n) auto
  have "r \<noteq> Num 0" using assms(2) by (simp add: is_ref_def)
  with n' t assms(1,3)
  show "decompile_expr n T ob m st r prec b =
      Some (bcat b (paren (d_brackets st) (expr_prec opc) prec (t (d_brackets st))))"
    by (auto simp: paren_def Let_def)
qed (rule assms(2))

lemma cell_at_node:
  "d_tree st = (V @ N) @ W \<Longrightarrow> 0 \<le> k \<Longrightarrow> k < int (length N) \<Longrightarrow>
     cell_at m st (TreeP (length V)) k = Some (N ! nat k)"
  using nat_less_iff [of k "length N"] by (simp add: nth_opt_def nat_add_distrib nth_append)

lemma num_at_node:
  "d_tree st = (V @ N) @ W \<Longrightarrow> 0 \<le> k \<Longrightarrow> k < int (length N) \<Longrightarrow> N ! nat k = Num c \<Longrightarrow>
     num_at m st (TreeP (length V)) k = Some (sint c)"
  by (simp add: num_at_def cell_at_node del: cell_at.simps append_assoc)

text \<open>The same for a node in the array, with the opcode in its first cell.\<close>

lemma prints_tree:
  assumes "\<And>n (st :: dstate) b W. d_tree st = (V @ N) @ W \<Longrightarrow> k \<le> n \<Longrightarrow>
      expr_case (decompile_expr n T ob m st) T ob m st (TreeP (length V)) opc (expr_prec opc) b =
        Some (bcat b (t (d_brackets st)))"
    "N = Num c # N'" "sint c = opc"
  shows "prints T ob m (V @ N) (TreeP (length V)) k (\<lambda>br prec. paren br (expr_prec opc) prec (t br))"
proof (rule prints_node)
  show "num_at m st (TreeP (length V)) 0 = Some opc" if "d_tree st = (V @ N) @ W" for st :: dstate and W
    using num_at_node [OF that, of 0] assms(2,3) by simp
qed (use assms(1) in \<open>simp_all add: is_ref_def\<close>)

lemma sint_bin_op: "p \<in> bin_ops \<Longrightarrow> sint (i32_of p) = p"
  by (auto simp: bin_ops_def)

lemma sint_un_op: "p \<in> un_ops \<Longrightarrow> sint (i32_of p) = p"
  by (auto simp: un_ops_def)

lemmas print_tables = binop_text_def unop_text_def leaf_text_def expr_prec_def prec_table_def

lemma prints_bin:
  assumes "p \<in> bin_ops" "prints T ob m V r1 k t1" "prints T ob m V r2 k t2"
  shows "prints T ob m (V @ [Num (i32_of p), r2, r1]) (TreeP (length V)) (k + 1)
    (\<lambda>br prec. paren br (expr_prec p) prec
      (if p = O_INDEX then t1 br 0 @ ''['' @ t2 br 0 @ '']''
       else if p = O_LSUBSET then t1 br 0 @ ''[..'' @ t2 br 0 @ '']''
       else if p = O_RSUBSET then t1 br 0 @ ''['' @ t2 br 0 @ ''..]''
       else t1 br (expr_prec p) @ the (binop_text p) @ t2 br (expr_prec p + 1)))"
proof (rule prints_tree)
  fix n and st :: dstate and b W
  assume t: "d_tree st = (V @ [Num (i32_of p), r2, r1]) @ W" and n: "k + 1 \<le> n"
  have c: "cell_at m st (TreeP (length V)) 1 = Some r2" "cell_at m st (TreeP (length V)) 2 = Some r1"
    using cell_at_node [OF t, of 1 m] cell_at_node [OF t, of 2 m] by simp_all
  have d: "decompile_expr n T ob m st r1 q b = Some (bcat b (t1 (d_brackets st) q))"
    "decompile_expr n T ob m st r2 q b = Some (bcat b (t2 (d_brackets st) q))" for q b
    using assms(2,3) t n by (auto intro!: printsD [where W = "_ @ W"])
  show "expr_case (decompile_expr n T ob m st) T ob m st (TreeP (length V)) p (expr_prec p) b =
      Some (bcat b
       (if p = O_INDEX then t1 (d_brackets st) 0 @ ''['' @ t2 (d_brackets st) 0 @ '']''
        else if p = O_LSUBSET then t1 (d_brackets st) 0 @ ''[..'' @ t2 (d_brackets st) 0 @ '']''
        else if p = O_RSUBSET then t1 (d_brackets st) 0 @ ''['' @ t2 (d_brackets st) 0 @ ''..]''
        else t1 (d_brackets st) (expr_prec p) @ the (binop_text p) @
          t2 (d_brackets st) (expr_prec p + 1)))"
    using assms(1)
    by (auto simp: bin_ops_def expr_case_def c d Let_def print_tables simp del: cell_at.simps)
qed (rule refl, rule sint_bin_op [OF assms(1)])

lemma prints_logic:
  assumes "(p, q, s) \<in> {(O_ENDAND, 4, '' && ''), (O_ENDOR, 3, '' || '')}"
    "prints T ob m V r1 k t1" "prints T ob m V r2 k t2"
  shows "prints T ob m (V @ [Num (i32_of p), r2, r1]) (TreeP (length V)) (k + 1)
    (\<lambda>br prec. paren br q prec (t1 br q @ s @ t2 br (q + 1)))"
proof -
  have q: "expr_prec p = q" "sint (i32_of p) = p" using assms(1) by (auto simp: print_tables)
  have "prints T ob m (V @ [Num (i32_of p), r2, r1]) (TreeP (length V)) (k + 1)
    (\<lambda>br prec. paren br (expr_prec p) prec (t1 br q @ s @ t2 br (q + 1)))"
  proof (rule prints_tree)
    fix n and st :: dstate and b W
    assume t: "d_tree st = (V @ [Num (i32_of p), r2, r1]) @ W" and n: "k + 1 \<le> n"
    have c: "cell_at m st (TreeP (length V)) 1 = Some r2" "cell_at m st (TreeP (length V)) 2 = Some r1"
      using cell_at_node [OF t, of 1 m] cell_at_node [OF t, of 2 m] by simp_all
    have d: "decompile_expr n T ob m st r1 q b = Some (bcat b (t1 (d_brackets st) q))"
      "decompile_expr n T ob m st r2 q b = Some (bcat b (t2 (d_brackets st) q))" for q b
      using assms(2,3) t n by (auto intro!: printsD [where W = "_ @ W"])
    show "expr_case (decompile_expr n T ob m st) T ob m st (TreeP (length V)) p (expr_prec p) b =
        Some (bcat b (t1 (d_brackets st) q @ s @ t2 (d_brackets st) (q + 1)))"
      using assms(1)
      by (auto simp: expr_case_def c d Let_def print_tables simp del: cell_at.simps)
  qed (rule refl, rule q(2))
  then show ?thesis by (simp add: q(1))
qed

lemma prints_un:
  assumes "p \<in> un_ops" "prints T ob m V r1 k t1"
  shows "prints T ob m (V @ [Num (i32_of p), r1]) (TreeP (length V)) (k + 1)
    (\<lambda>br prec. paren br (expr_prec p) prec (the (unop_text p) @ t1 br (expr_prec p)))"
proof (rule prints_tree)
  fix n and st :: dstate and b W
  assume t: "d_tree st = (V @ [Num (i32_of p), r1]) @ W" and n: "k + 1 \<le> n"
  have c: "cell_at m st (TreeP (length V)) 1 = Some r1"
    using cell_at_node [OF t, of 1 m] by simp
  have d: "decompile_expr n T ob m st r1 q b = Some (bcat b (t1 (d_brackets st) q))" for q b
    using assms(2) t n by (auto intro!: printsD [where W = "_ @ W"])
  show "expr_case (decompile_expr n T ob m st) T ob m st (TreeP (length V)) p (expr_prec p) b =
      Some (bcat b (the (unop_text p) @ t1 (d_brackets st) (expr_prec p)))"
    using assms(1)
    by (auto simp: un_ops_def expr_case_def c d Let_def print_tables simp del: cell_at.simps)
qed (rule refl, rule sint_un_op [OF assms(1)])

lemma prints_plain:
  assumes "prints T ob m V r k (\<lambda>br prec. paren br (expr_prec opc) prec (t br))" "expr_prec opc = 0"
  shows "prints T ob m V r k (\<lambda>br prec. t br)"
  using assms by (simp add: paren_def)

lemma prints_subset:
  assumes "prints T ob m V r1 k t1" "prints T ob m V r2 k t2" "prints T ob m V r3 k t3"
  shows "prints T ob m (V @ [Num (i32_of O_SUBSET), r3, r2, r1]) (TreeP (length V)) (k + 1)
    (\<lambda>br prec. t1 br 0 @ ''['' @ t2 br 0 @ ''..'' @ t3 br 0 @ '']'')"
proof (rule prints_plain [where opc = O_SUBSET], rule prints_tree)
  fix n and st :: dstate and b W
  assume t: "d_tree st = (V @ [Num (i32_of O_SUBSET), r3, r2, r1]) @ W" and n: "k + 1 \<le> n"
  have c: "cell_at m st (TreeP (length V)) 1 = Some r3" "cell_at m st (TreeP (length V)) 2 = Some r2"
    "cell_at m st (TreeP (length V)) 3 = Some r1"
    using cell_at_node [OF t, of 1 m] cell_at_node [OF t, of 2 m] cell_at_node [OF t, of 3 m]
    by (simp_all add: eval_nat_numeral)
  have d: "decompile_expr n T ob m st r1 q b = Some (bcat b (t1 (d_brackets st) q))"
    "decompile_expr n T ob m st r2 q b = Some (bcat b (t2 (d_brackets st) q))"
    "decompile_expr n T ob m st r3 q b = Some (bcat b (t3 (d_brackets st) q))" for q b
    using assms t n by (auto intro!: printsD [where W = "_ @ W"])
  show "expr_case (decompile_expr n T ob m st) T ob m st (TreeP (length V)) O_SUBSET
      (expr_prec O_SUBSET) b =
    Some (bcat b (t1 (d_brackets st) 0 @ ''['' @ t2 (d_brackets st) 0 @ ''..'' @
      t3 (d_brackets st) 0 @ '']''))"
    by (auto simp: expr_case_def c d Let_def print_tables simp del: cell_at.simps)
qed (rule refl, simp_all add: print_tables)

section \<open>Arguments and pairs, as they are printed\<close>

lemma mapM_nths:
  "(\<And>i. i < length xs \<Longrightarrow> f i = Some (xs ! i)) \<Longrightarrow> mapM f [0..<length xs] = Some xs"
proof (induction xs rule: rev_induct)
  case (snoc x xs)
  have "mapM f [0..<length xs] = Some xs" using snoc.prems
    by (intro snoc.IH) (simp add: nth_append)
  then show ?case using snoc.prems [of "length xs"] by (simp add: mapM_append)
qed simp

lemma commas_simps [simp]:
  "commas [] = []" "commas [t] = t" "commas (t # u # ts) = t @ '', '' @ commas (u # ts)"
  by (simp_all add: commas_def)

lemma join_args_text:
  "list_all2 (\<lambda>r t. \<forall>b. f r b = Some (bcat b t)) rs ts \<Longrightarrow>
     join_args f rs b = Some (bcat b (commas ts))"
proof (induction rs arbitrary: ts b)
  case (Cons r rs)
  then obtain t us where ts: "ts = t # us" "\<forall>b. f r b = Some (bcat b t)"
    "list_all2 (\<lambda>r t. \<forall>b. f r b = Some (bcat b t)) rs us" by (auto simp: list_all2_Cons1)
  with Cons.IH [OF ts(3), of "bcat b (t @ '', '')"] show ?case
    by (cases rs; cases us) auto
qed simp

definition prints_all ::
  "servtab \<Rightarrow> object \<Rightarrow> cmethod \<Rightarrow> inst list \<Rightarrow> inst list \<Rightarrow> nat \<Rightarrow> (bool \<Rightarrow> int \<Rightarrow> string) list \<Rightarrow> bool" where
  "prints_all T ob m V rs k ts \<longleftrightarrow> list_all2 (\<lambda>r t. prints T ob m V r k t) rs ts"

lemma prints_all_more:
  "prints_all T ob m V rs k ts \<Longrightarrow> k \<le> k' \<Longrightarrow> prints_all T ob m (V @ N) rs k' ts"
  by (auto simp: prints_all_def elim!: list_all2_mono prints_more)

lemma prints_all_refs: "prints_all T ob m V rs k ts \<Longrightarrow> list_all is_ref rs"
  by (simp add: prints_all_def prints_def list_all_length list_all2_conv_all_nth)

lemma decompile_args_text:
  assumes "d_tree st = (V @ Q @ Num (of_nat (length rs)) # rs) @ W" "prints_all T ob m V rs k ts"
    "k < n" "length rs < 2 ^ 31" "off = int (length Q)"
  shows "decompile_args (decompile_expr n T ob m st) m st (TreeP (length V)) off b =
    Some (bcat b (commas (map (\<lambda>t. t (d_brackets st) 0) ts)))"
proof -
  let ?D = "\<lambda>r. decompile_expr n T ob m st r 0"
  have "num_at m st (TreeP (length V)) off = Some (int (length rs))"
    using num_at_node [OF assms(1), of off "of_nat (length rs)"] assms(4,5) sint_i32_of [of "int (length rs)"]
    by (simp add: nth_append)
  moreover have "mapM (\<lambda>i. cell_at m st (TreeP (length V)) (off + int i + 1)) [0..<length rs] = Some rs"
  proof (rule mapM_nths)
    fix i assume i: "i < length rs"
    have "nat (int (length Q) + int i + 1) = length Q + i + 1" by simp
    with cell_at_node [OF assms(1), of "off + int i + 1" m] i assms(5)
    show "cell_at m st (TreeP (length V)) (off + int i + 1) = Some (rs ! i)"
      by (simp add: nth_append del: cell_at.simps)
  qed
  moreover have "list_all2 (\<lambda>r t. \<forall>b. ?D r b = Some (bcat b t)) rs (map (\<lambda>t. t (d_brackets st) 0) ts)"
    using assms(1-3)
    by (auto simp: prints_all_def list_all2_map2 intro!: printsD [where W = "_ @ W"] elim!: list_all2_mono)
  ultimately show ?thesis by (simp add: decompile_args_def join_args_text)
qed

text \<open>A call: the text before the arguments depends on the node.\<close>

lemma prints_list:
  assumes "prints_all T ob m V rs k ts" "length rs < 2 ^ 31"
  shows "prints T ob m (V @ Num (i32_of O_LISTPUSH) # Num (of_nat (length rs)) # rs) (TreeP (length V))
    (k + 1) (\<lambda>br prec. ''{'' @ commas (map (\<lambda>t. t br 0) ts) @ ''}'')"
proof (rule prints_plain [where opc = O_LISTPUSH], rule prints_tree)
  fix n and st :: dstate and b W
  assume t: "d_tree st = (V @ Num (i32_of O_LISTPUSH) # Num (of_nat (length rs)) # rs) @ W" and n: "k + 1 \<le> n"
  have "decompile_args (decompile_expr n T ob m st) m st (TreeP (length V)) 1 b =
      Some (bcat b (commas (map (\<lambda>t. t (d_brackets st) 0) ts)))" for b
    using t n assms
    by (intro decompile_args_text [where Q = "[Num (i32_of O_LISTPUSH)]"]) (simp_all add: Suc_le_eq)
  then show "expr_case (decompile_expr n T ob m st) T ob m st (TreeP (length V)) O_LISTPUSH
      (expr_prec O_LISTPUSH) b =
    Some (bcat b (''{'' @ commas (map (\<lambda>t. t (d_brackets st) 0) ts) @ ''}''))"
    by (simp add: expr_case_def Let_def)
qed (rule refl, simp_all add: print_tables)

text \<open>A built-in: its number is none of the opcodes with a text of their own.\<close>

lemma bf_find_num: "bf_find n t = Some p \<Longrightarrow> bf_num p = n"
  by (induction t) (auto split: if_splits)

lemma bf_table_name:
  assumes "f \<in> set (map bf_num bf_table)"
  shows "bf_id2name f \<noteq> None"
proof -
  have "f \<in> set (map bf_num t) \<Longrightarrow> bf_find f t \<noteq> None" for t
    by (induction t) auto
  with assms show ?thesis by (simp add: bf_id2name_def bf_id2entry_def)
qed

definition is_call :: "int \<Rightarrow> bool" where
  "is_call f \<longleftrightarrow> sint (i32_of f) = f \<and> binop_text f = None \<and> unop_text f = None \<and> leaf_text f = None \<and>
     expr_prec f = 0 \<and> f \<notin> {O_GETLVAR, O_GETGVAR, O_GETSYSVAR, O_MESSAGE, O_MESSAGE_EXPR, O_PASS,
     O_INDEX, O_SUBSET, O_LSUBSET, O_RSUBSET, O_NUMPUSH, O_STRPUSH, O_OBJPUSH, O_LISTPUSH, O_MAPPUSH,
     O_ERRPUSH}"

lemma bf_table_call_ops: "list_all is_call (map bf_num bf_table)"
  by code_simp

lemma bf_table_calls: "f \<in> set (map bf_num bf_table) \<Longrightarrow> is_call f"
  using bf_table_call_ops by (auto simp: list_all_iff)

lemma prints_func:
  assumes "prints_all T ob m V rs k ts" "length rs < 2 ^ 31" "f \<in> set (map bf_num bf_table)"
  shows "prints T ob m (V @ Num (i32_of f) # Num (of_nat (length rs)) # rs) (TreeP (length V))
    (k + 1) (\<lambda>br prec. the (bf_id2name f) @ ''('' @ commas (map (\<lambda>t. t br 0) ts) @ '')'')"
proof (rule prints_plain [where opc = f], rule prints_tree)
  fix n and st :: dstate and b W
  assume t: "d_tree st = (V @ Num (i32_of f) # Num (of_nat (length rs)) # rs) @ W" and n: "k + 1 \<le> n"
  have "decompile_args (decompile_expr n T ob m st) m st (TreeP (length V)) 1 b =
      Some (bcat b (commas (map (\<lambda>t. t (d_brackets st) 0) ts)))" for b
    using t n assms(1,2)
    by (intro decompile_args_text [where Q = "[Num (i32_of f)]"]) (simp_all add: Suc_le_eq)
  with bf_table_name [OF assms(3)] bf_table_calls [OF assms(3)]
  show "expr_case (decompile_expr n T ob m st) T ob m st (TreeP (length V)) f (expr_prec f) b =
    Some (bcat b (the (bf_id2name f) @ ''('' @ commas (map (\<lambda>t. t (d_brackets st) 0) ts) @ '')''))"
    by (auto simp: is_call_def expr_case_def Let_def)
qed (rule refl, use bf_table_calls [OF assms(3)] in \<open>simp_all add: is_call_def\<close>)

lemma prints_pass:
  assumes "prints_all T ob m V rs k ts" "length rs < 2 ^ 31"
    "nth_opt (o_parents ob) 0 = Some (VOBJ par)"
  shows "prints T ob m (V @ Num (i32_of O_PASS) # Num q # Num (of_nat (length rs)) # rs)
    (TreeP (length V)) (k + 1) (\<lambda>br prec. ''pass('' @ commas (map (\<lambda>t. t br 0) ts) @ '')'' @
      (if sint q \<noteq> sint (oid par) then '' to #'' @ num_text (sint q) else []))"
proof (rule prints_plain [where opc = O_PASS], rule prints_tree)
  fix n and st :: dstate and b W
  assume t: "d_tree st = (V @ Num (i32_of O_PASS) # Num q # Num (of_nat (length rs)) # rs) @ W"
    and n: "k + 1 \<le> n"
  have "decompile_args (decompile_expr n T ob m st) m st (TreeP (length V)) 2 b =
      Some (bcat b (commas (map (\<lambda>t. t (d_brackets st) 0) ts)))" for b
    using t n assms(1,2)
    by (intro decompile_args_text [where Q = "[Num (i32_of O_PASS), Num q]"]) (simp_all add: Suc_le_eq)
  moreover have "num_at m st (TreeP (length V)) 1 = Some (sint q)"
    using num_at_node [OF t, of 1] by simp
  ultimately show "expr_case (decompile_expr n T ob m st) T ob m st (TreeP (length V)) O_PASS
      (expr_prec O_PASS) b =
    Some (bcat b (''pass('' @ commas (map (\<lambda>t. t (d_brackets st) 0) ts) @ '')'' @
      (if sint q \<noteq> sint (oid par) then '' to #'' @ num_text (sint q) else [])))"
    using assms(3) by (simp add: expr_case_def Let_def del: nth_opt_Some_iff)
qed (rule refl, simp_all add: print_tables)

text \<open>The arguments of a message, in the fourth cell; there are no brackets around none.\<close>

lemma call_args_text:
  assumes "d_tree st = (V @ Q @ Num (of_nat (length rs)) # rs) @ W" "prints_all T ob m V rs k ts"
    "k < n" "length rs < 2 ^ 31" "length Q = 3"
  shows "do {
      n' \<leftarrow> num_at m st (TreeP (length V)) 3;
      if n' \<noteq> 0 then do {
        b \<leftarrow> decompile_args (decompile_expr n T ob m st) m st (TreeP (length V)) 3 (bcat b ''('');
        Some (bcat b '')'') }
      else Some b } =
    Some (bcat b (call_text (map (\<lambda>t. t (d_brackets st) 0) ts)))"
proof -
  have "num_at m st (TreeP (length V)) 3 = Some (int (length rs))"
    using num_at_node [OF assms(1), of 3 "of_nat (length rs)"] assms(4,5)
      sint_i32_of [of "int (length rs)"] by (simp add: nth_append)
  moreover have "length ts = length rs"
    using assms(2) by (auto simp: prints_all_def dest: list_all2_lengthD)
  ultimately show ?thesis using decompile_args_text [OF assms(1-4), of 3 "bcat b ''(''"] assms(5)
    by (auto simp: call_text_def)
qed

lemma prints_msg:
  assumes "prints T ob m V r k t" "prints_all T ob m V rs k ts" "length rs < 2 ^ 31"
    "sym_str ob (sint q) = Some s"
  shows "prints T ob m (V @ Num (i32_of O_MESSAGE) # Num q # r # Num (of_nat (length rs)) # rs)
    (TreeP (length V)) (k + 1)
    (\<lambda>br prec. t br 0 @ ''.'' @ s @ call_text (map (\<lambda>t. t br 0) ts))"
proof (rule prints_plain [where opc = O_MESSAGE], rule prints_tree)
  fix n and st :: dstate and b W
  assume tr: "d_tree st = (V @ Num (i32_of O_MESSAGE) # Num q # r # Num (of_nat (length rs)) # rs) @ W"
    and n: "k + 1 \<le> n"
  have c: "cell_at m st (TreeP (length V)) 2 = Some r" "num_at m st (TreeP (length V)) 1 = Some (sint q)"
    using cell_at_node [OF tr, of 2 m] num_at_node [OF tr, of 1] by simp_all
  have d: "decompile_expr n T ob m st r 0 b = Some (bcat b (t (d_brackets st) 0))" for b
    using assms(1) tr n by (auto intro!: printsD [where W = "_ @ W"])
  show "expr_case (decompile_expr n T ob m st) T ob m st (TreeP (length V)) O_MESSAGE
      (expr_prec O_MESSAGE) b =
    Some (bcat b (t (d_brackets st) 0 @ ''.'' @ s @ call_text (map (\<lambda>t. t (d_brackets st) 0) ts)))"
    using call_args_text [where Q = "[Num (i32_of O_MESSAGE), Num q, r]", OF _ assms(2) _ assms(3)] tr n
    by (simp add: expr_case_def Let_def c d assms(4) del: cell_at.simps)
qed (rule refl, simp_all add: print_tables)

lemma prints_msg_expr:
  assumes "prints T ob m V r1 k t1" "prints T ob m V r2 k t2" "prints_all T ob m V rs k ts"
    "length rs < 2 ^ 31"
  shows "prints T ob m (V @ Num (i32_of O_MESSAGE_EXPR) # r1 # r2 # Num (of_nat (length rs)) # rs)
    (TreeP (length V)) (k + 1)
    (\<lambda>br prec. t1 br 0 @ ''.('' @ t2 br 0 @ '')'' @ call_text (map (\<lambda>t. t br 0) ts))"
proof (rule prints_plain [where opc = O_MESSAGE_EXPR], rule prints_tree)
  fix n and st :: dstate and b W
  assume tr: "d_tree st =
      (V @ Num (i32_of O_MESSAGE_EXPR) # r1 # r2 # Num (of_nat (length rs)) # rs) @ W"
    and n: "k + 1 \<le> n"
  have c: "cell_at m st (TreeP (length V)) 1 = Some r1" "cell_at m st (TreeP (length V)) 2 = Some r2"
    using cell_at_node [OF tr, of 1 m] cell_at_node [OF tr, of 2 m] by simp_all
  have d: "decompile_expr n T ob m st r1 0 b = Some (bcat b (t1 (d_brackets st) 0))"
    "decompile_expr n T ob m st r2 0 b = Some (bcat b (t2 (d_brackets st) 0))" for b
    using assms(1,2) tr n by (auto intro!: printsD [where W = "_ @ W"])
  show "expr_case (decompile_expr n T ob m st) T ob m st (TreeP (length V)) O_MESSAGE_EXPR
      (expr_prec O_MESSAGE_EXPR) b =
    Some (bcat b (t1 (d_brackets st) 0 @ ''.('' @ t2 (d_brackets st) 0 @ '')'' @
      call_text (map (\<lambda>t. t (d_brackets st) 0) ts)))"
    using call_args_text [where Q = "[Num (i32_of O_MESSAGE_EXPR), r1, r2]", OF _ assms(3) _ assms(4)] tr n
    by (simp add: expr_case_def Let_def c d del: cell_at.simps)
qed (rule refl, simp_all add: print_tables)

text \<open>A mapping is on the stack as key, value, key, value; the last value is on top.\<close>

fun flat :: "(inst \<times> inst) list \<Rightarrow> inst list" where
  "flat [] = []"
| "flat ((k, v) # ps) = k # v # flat ps"

lemma flat_append: "flat (ps @ qs) = flat ps @ flat qs"
  by (induction ps rule: flat.induct) auto

lemma length_flat: "length (flat ps) = 2 * length ps"
  by (induction ps rule: flat.induct) auto

lemma rev_flat_nth:
  "i < length ps \<Longrightarrow> rev (flat ps) ! (2 * i) = snd (rev ps ! i) \<and>
     rev (flat ps) ! (2 * i + 1) = fst (rev ps ! i)"
proof (induction ps arbitrary: i rule: rev_induct)
  case (snoc p ps)
  obtain k v where p: "p = (k, v)" by fastforce
  show ?case
  proof (cases i)
    case (Suc j)
    with snoc p show ?thesis by (simp add: flat_append)
  qed (simp add: p flat_append)
qed simp

lemma join_pairs_text:
  "list_all2 (\<lambda>p t. \<forall>b. f (snd p) b = Some (bcat b (fst t)) \<and> f (fst p) b = Some (bcat b (snd t))) rs ts \<Longrightarrow>
     join_pairs f rs b = Some (bcat b (commas (map (\<lambda>(k, v). k @ '' => '' @ v) ts)))"
proof (induction rs arbitrary: ts b)
  case (Cons p rs)
  then obtain t us where ts: "ts = t # us"
    "\<forall>b. f (snd p) b = Some (bcat b (fst t)) \<and> f (fst p) b = Some (bcat b (snd t))"
    "list_all2 (\<lambda>p t. \<forall>b. f (snd p) b = Some (bcat b (fst t)) \<and> f (fst p) b = Some (bcat b (snd t))) rs us"
    by (auto simp: list_all2_Cons1)
  with Cons.IH [OF ts(3), of "bcat b (fst t @ '' => '' @ snd t @ '', '')"] show ?case
    by (cases p; cases rs; cases us) (auto split: prod.splits)
qed simp

definition prints_pairs ::
  "servtab \<Rightarrow> object \<Rightarrow> cmethod \<Rightarrow> inst list \<Rightarrow> (inst \<times> inst) list \<Rightarrow> nat \<Rightarrow>
     ((bool \<Rightarrow> int \<Rightarrow> string) \<times> (bool \<Rightarrow> int \<Rightarrow> string)) list \<Rightarrow> bool" where
  "prints_pairs T ob m V ps k ts \<longleftrightarrow>
     list_all2 (\<lambda>p t. prints T ob m V (fst p) k (fst t) \<and> prints T ob m V (snd p) k (snd t)) ps ts"

lemma prints_pairs_more:
  "prints_pairs T ob m V ps k ts \<Longrightarrow> k \<le> k' \<Longrightarrow> prints_pairs T ob m (V @ N) ps k' ts"
  by (auto simp: prints_pairs_def elim!: list_all2_mono prints_more)

lemma prints_map:
  assumes "prints_pairs T ob m V ps k ts" "length ps < 2 ^ 31"
  shows "prints T ob m (V @ Num (i32_of O_MAPPUSH) # Num (of_nat (length ps)) # rev (flat ps))
    (TreeP (length V)) (k + 1)
    (\<lambda>br prec. ''['' @ commas (rev (map (\<lambda>t. fst t br 0 @ '' => '' @ snd t br 0) ts)) @ '']'')"
proof (rule prints_plain [where opc = O_MAPPUSH], rule prints_tree)
  fix n and st :: dstate and b W
  assume tr: "d_tree st =
      (V @ Num (i32_of O_MAPPUSH) # Num (of_nat (length ps)) # rev (flat ps)) @ W" and n: "k + 1 \<le> n"
  let ?D = "\<lambda>r. decompile_expr n T ob m st r 0" and ?t = "TreeP (length V)" and ?br = "d_brackets st"
  let ?rs = "map prod.swap (rev ps)" and ?ts = "map (\<lambda>t. (fst t ?br 0, snd t ?br 0)) (rev ts)"
  have len: "num_at m st ?t 1 = Some (int (length ps))"
    using num_at_node [OF tr, of 1 "of_nat (length ps)"] assms(2) sint_i32_of [of "int (length ps)"]
    by simp
  have cells: "mapM (\<lambda>i. do {
      v \<leftarrow> cell_at m st ?t (1 + 2 * int i + 1);
      k \<leftarrow> cell_at m st ?t (1 + 2 * int i + 2);
      Some (v, k) }) [0..<length ?rs] = Some ?rs"
  proof (rule mapM_nths)
    fix i assume i: "i < length ?rs"
    have j: "nat (1 + 2 * int i + 1) = Suc (Suc (2 * i))" "nat (1 + 2 * int i + 2) = Suc (Suc (2 * i + 1))"
      by simp_all
    have "cell_at m st ?t (1 + 2 * int i + 1) = Some (rev (flat ps) ! (2 * i))"
      using cell_at_node [OF tr, of "1 + 2 * int i + 1" m] i j by (simp add: length_flat del: cell_at.simps)
    moreover have "cell_at m st ?t (1 + 2 * int i + 2) = Some (rev (flat ps) ! (2 * i + 1))"
      using cell_at_node [OF tr, of "1 + 2 * int i + 2" m] i j by (simp add: length_flat del: cell_at.simps)
    ultimately show "do {
        v \<leftarrow> cell_at m st ?t (1 + 2 * int i + 1);
        k \<leftarrow> cell_at m st ?t (1 + 2 * int i + 2);
        Some (v, k) } = Some (?rs ! i)"
      using rev_flat_nth [of i ps] i by (simp add: prod.swap_def del: cell_at.simps)
  qed
  have d: "?D r b = Some (bcat b (t ?br 0))" if "prints T ob m V r k t" for r t b
    using that tr n by (auto intro!: printsD [where W = "_ @ W"])
  have "list_all2 (\<lambda>p t. \<forall>b. ?D (snd p) b = Some (bcat b (fst t)) \<and> ?D (fst p) b = Some (bcat b (snd t))) ?rs ?ts"
    using assms(1) d by (auto simp: prints_pairs_def list_all2_map1 list_all2_map2 elim!: list_all2_mono)
  from join_pairs_text [OF this] have
    "decompile_map (decompile_expr n T ob m st) m st ?t 1 b =
      Some (bcat b (commas (rev (map (\<lambda>t. fst t ?br 0 @ '' => '' @ snd t ?br 0) ts))))" for b
    using cells len by (simp add: decompile_map_def rev_map split_beta comp_def del: cell_at.simps)
  then show "expr_case (decompile_expr n T ob m st) T ob m st ?t O_MAPPUSH (expr_prec O_MAPPUSH) b =
    Some (bcat b (''['' @ commas (rev (map (\<lambda>t. fst t ?br 0 @ '' => '' @ snd t ?br 0) ts)) @ '']''))"
    by (simp add: expr_case_def Let_def)
qed (rule refl, simp_all add: print_tables)

end
