(* ===== verification/Unparse.thy ===== *)
theory Unparse
  imports Listing
begin

text \<open>
  The unparser over compiled code: running over the code of an expression pushes one reference,
  which prints as the text of the expression, and the lines of a statement come out as its
  listing. An instruction of an expression is a step that pushes a node; the steps are composed
  along the productions of the grammar.
\<close>

section \<open>Code in place\<close>

text \<open>\<open>has m i xs\<close>: the code of the method has \<open>xs\<close> at \<open>i\<close>.\<close>

fun has :: "cmethod \<Rightarrow> nat \<Rightarrow> i32 list \<Rightarrow> bool" where
  "has m i [] \<longleftrightarrow> True"
| "has m i (x # xs) \<longleftrightarrow> i < length (m_code m) \<and> m_code m ! i = x \<and> has m (i + 1) xs"

lemma has_append: "has m i (xs @ ys) \<longleftrightarrow> has m i xs \<and> has m (i + length xs) ys"
  by (induction m i xs rule: has.induct) (auto simp: add.commute add.left_commute)

lemma has_suffix: "m_code m = A @ xs @ B \<Longrightarrow> length A = i \<Longrightarrow> has m i xs"
proof (induction xs arbitrary: A i)
  case (Cons x xs)
  then have "has m (i + 1) xs" by (intro Cons.IH [of "A @ [x]"]) simp_all
  with Cons.prems show ?case by (auto simp: nth_append)
qed simp

lemma has_code: "has m 0 (m_code m)"
  using has_suffix [of m "[]" "m_code m" "[]"] by simp

lemma has_nth: "has m i xs \<Longrightarrow> k < length xs \<Longrightarrow> nth_opt (m_code m) (int i + int k) = Some (xs ! k)"
proof (induction m i xs arbitrary: k rule: has.induct)
  case (2 m i x xs)
  then show ?case
  proof (cases k)
    case (Suc j)
    with 2 have "nth_opt (m_code m) (int (i + 1) + int j) = Some (xs ! j)" by auto
    with Suc show ?thesis by (simp add: algebra_simps)
  qed simp
qed simp

lemma has_code_at: "has m i xs \<Longrightarrow> k < length xs \<Longrightarrow> inst_at m (int i + int k) = Some (sint (xs ! k))"
  unfolding inst_at_def by (simp only: has_nth option.map)

lemma has_num_at:
  "has m i xs \<Longrightarrow> k < length xs \<Longrightarrow> num_at m st (CodeP (int i)) (int k) = Some (sint (xs ! k))"
  unfolding num_at_def cell_at.simps by (simp only: has_nth option.map option.case inst.case)

text \<open>A leaf prints from the code itself.\<close>

lemma prints_leaf:
  assumes "has m i (c # xs)" "sint c = opc" "expr_prec opc = 0"
    "\<And>n (st :: dstate) b. expr_case (decompile_expr n T ob m st) T ob m st (CodeP (int i)) opc 0 b =
      Some (bcat b t)"
  shows "prints T ob m V (CodeP (int i)) k (\<lambda>br prec. t)"
proof (rule prints_more [where V = "[]" and k = 0, simplified], rule prints_plain [where opc = opc],
    rule prints_node)
  show "num_at m st (CodeP (int i)) 0 = Some opc" for st :: dstate
    using has_num_at [OF assms(1), of 0] assms(2) by simp
qed (use assms in \<open>simp_all add: is_ref_def\<close>)

section \<open>Running over the code of an expression\<close>

text \<open>
  \<open>runs T ob m i st j st'\<close>: the loop goes on from \<open>j\<close> and \<open>st'\<close>, having used less fuel than
  it has passed instructions. The line found is left out of account between two instructions,
  since the next test finds it as well.
\<close>

definition runs :: "servtab \<Rightarrow> object \<Rightarrow> cmethod \<Rightarrow> nat \<Rightarrow> dstate \<Rightarrow> nat \<Rightarrow> dstate \<Rightarrow> bool" where
  "runs T ob m i st j st' \<longleftrightarrow> (\<exists>k. i + k \<le> j \<and>
     (\<forall>n. decompile_stmts (k + Suc n) T ob m (int i) st = decompile_stmts (Suc n) T ob m (int j) st'))"

lemma runs_refl: "runs T ob m i st i st"
  unfolding runs_def by (intro exI [of _ 0]) (simp del: decompile_stmts.simps)

lemma runs_trans:
  assumes "runs T ob m i st j st'" "runs T ob m j st' k st''"
  shows "runs T ob m i st k st''"
proof -
  from assms obtain a b where a: "i + a \<le> j"
    "\<And>n. decompile_stmts (a + Suc n) T ob m (int i) st = decompile_stmts (Suc n) T ob m (int j) st'"
    and b: "j + b \<le> k"
    "\<And>n. decompile_stmts (b + Suc n) T ob m (int j) st' = decompile_stmts (Suc n) T ob m (int k) st''"
    unfolding runs_def by blast
  have "decompile_stmts ((a + b) + Suc n) T ob m (int i) st = decompile_stmts (Suc n) T ob m (int k) st''" for n
    using a(2) [of "b + n"] b(2) [of n] by (simp add: add.assoc)
  with a(1) b(1) show ?thesis unfolding runs_def by (intro exI [of _ "a + b"]) auto
qed

lemma stmts_see:
  "i \<le> j \<Longrightarrow> decompile_stmts (Suc n) T ob m j (see i st) = decompile_stmts (Suc n) T ob m j st"
  by (simp only: decompile_stmts.simps see_see Let_def)

definition stmt_ops :: "int set" where
  "stmt_ops = {O_STOP, O_IF, O_ELSEIF, O_FOR, O_FORRNG, O_WHILE, O_AT, O_ELSE, O_DO, O_DOWHILE, O_POP,
     O_ASGNGVAR, O_ASGNLVAR, O_ASGNGVARINDEX, O_ASGNLVARINDEX, O_SETPLAYER, O_T_RETURN, O_T_RAISE,
     O_CONTINUE, O_BREAK}"

lemma stmts_tree_step:
  assumes "inst_at m i = Some opc" "opc \<notin> stmt_ops" "tree_step m opc i (see i st) = Some (st', j)"
  shows "decompile_stmts (Suc n) T ob m i st = decompile_stmts n T ob m j st'"
proof -
  have "line_step T ob m opc i (see i st) = None"
    using assms(2) by (simp add: stmt_ops_def line_step_def Let_def)
  then show ?thesis using assms by (simp add: stmt_ops_def Let_def)
qed

text \<open>One instruction of an expression, whatever the other fields are.\<close>

lemma runs_step:
  assumes "has m i (c # xs)" "sint c = opc" "opc \<notin> stmt_ops"
    "\<And>st. tree_step m opc (int i) (lay st S X V R) = Some (lay st S' X' V' R', int j)" "i < j"
  shows "runs T ob m i (lay st S X V R) j (lay st S' X' V' R')"
proof -
  have "inst_at m (int i) = Some opc" using has_code_at [OF assms(1), of 0] assms(2) by simp
  moreover have "tree_step m opc (int i) (see (int i) (lay st S X V R)) =
      Some (see (int i) (lay st S' X' V' R'), int j)"
    by (simp only: see_lay assms(4))
  ultimately have "decompile_stmts (Suc (Suc n)) T ob m (int i) (lay st S X V R) =
      decompile_stmts (Suc n) T ob m (int j) (see (int i) (lay st S' X' V' R'))" for n
    using assms(3) by (intro stmts_tree_step)
  then have "decompile_stmts (1 + Suc n) T ob m (int i) (lay st S X V R) =
      decompile_stmts (Suc n) T ob m (int j) (lay st S' X' V' R')" for n
    using assms(5) by (simp only: plus_1_eq_Suc stmts_see)
  with assms(5) show ?thesis unfolding runs_def by (intro exI [of _ 1]) simp
qed

text \<open>
  \<open>builds m i c d k t\<close>: running over the code \<open>c\<close> at \<open>i\<close> pushes a reference that prints as
  \<open>t\<close>, with \<open>k\<close> more cells in use and never more than \<open>d\<close> places of the stack.
\<close>

definition builds ::
  "servtab \<Rightarrow> object \<Rightarrow> cmethod \<Rightarrow> nat \<Rightarrow> i32 list \<Rightarrow> nat \<Rightarrow> nat \<Rightarrow> (bool \<Rightarrow> int \<Rightarrow> string) \<Rightarrow> bool" where
  "builds T ob m i c d k t \<longleftrightarrow>
     (\<forall>st S X V R. length S + d < MAX_TSTACK \<longrightarrow> length S + length X = MAX_TSTACK \<longrightarrow>
        length V + k < MAX_TREE \<longrightarrow> length V + length R = MAX_TREE \<longrightarrow>
        (\<exists>r X' N. runs T ob m i (lay st S X V R) (i + length c) (lay st (S @ [r]) X' (V @ N) (drop k R)) \<and>
           length S + 1 + length X' = MAX_TSTACK \<and> length N = k \<and> prints T ob m (V @ N) r k t))"

lemma buildsD:
  assumes "builds T ob m i c d k t" "length S + d < MAX_TSTACK" "length S + length X = MAX_TSTACK"
    "length V + k < MAX_TREE" "length V + length R = MAX_TREE"
  obtains r X' N where "runs T ob m i (lay st S X V R) (i + length c) (lay st (S @ [r]) X' (V @ N) (drop k R))"
    "length S + 1 + length X' = MAX_TSTACK" "length N = k" "prints T ob m (V @ N) r k t"
  using assms unfolding builds_def by blast

lemma builds_leaf:
  assumes "has m i c" "c = p # xs" "sint p = opc" "opc \<notin> stmt_ops" "expr_prec opc = 0"
    "\<And>st. tree_step m opc (int i) st = map_option (\<lambda>st. (st, int i + int (length c))) (tpush (CodeP (int i)) st)"
    "\<And>n (st :: dstate) b. expr_case (decompile_expr n T ob m st) T ob m st (CodeP (int i)) opc 0 b =
      Some (bcat b t)"
  shows "builds T ob m i c 1 0 (\<lambda>br prec. t)"
  unfolding builds_def
proof (intro allI impI)
  fix st and S X V R :: "inst list"
  assume s: "length S + 1 < MAX_TSTACK" "length S + length X = MAX_TSTACK"
  then obtain x Y where X: "X = x # Y" by (cases X) auto
  have "runs T ob m i (lay st S X V R) (i + length c) (lay st (S @ [CodeP (int i)]) Y V R)"
    using assms(2,6) s X by (intro runs_step [OF assms(1) [unfolded assms(2)] assms(3,4)])
      (simp_all add: tpush_lay)
  moreover have "prints T ob m V (CodeP (int i)) 0 (\<lambda>br prec. t)"
    using assms by (intro prints_leaf [of m i p xs opc]) simp_all
  ultimately show "\<exists>r X' N. runs T ob m i (lay st S X V R) (i + length c)
      (lay st (S @ [r]) X' (V @ N) (drop 0 R)) \<and> length S + 1 + length X' = MAX_TSTACK \<and>
      length N = 0 \<and> prints T ob m (V @ N) r 0 (\<lambda>br prec. t)"
    using s X by (intro exI [of _ "CodeP (int i)"] exI [of _ Y] exI [of _ "[]"]) simp
qed

text \<open>The same for a sequence of expressions, each of which pushes a reference.\<close>

definition builds_all ::
  "servtab \<Rightarrow> object \<Rightarrow> cmethod \<Rightarrow> nat \<Rightarrow> i32 list \<Rightarrow> nat \<Rightarrow> nat \<Rightarrow> (bool \<Rightarrow> int \<Rightarrow> string) list \<Rightarrow> bool" where
  "builds_all T ob m i c d k ts \<longleftrightarrow>
     (\<forall>st S X V R. length S + d < MAX_TSTACK \<longrightarrow> length S + length X = MAX_TSTACK \<longrightarrow>
        length V + k < MAX_TREE \<longrightarrow> length V + length R = MAX_TREE \<longrightarrow>
        (\<exists>rs X' N. runs T ob m i (lay st S X V R) (i + length c) (lay st (S @ rs) X' (V @ N) (drop k R)) \<and>
           length S + length rs + length X' = MAX_TSTACK \<and> length N = k \<and>
           prints_all T ob m (V @ N) rs k ts))"

lemma builds_allD:
  assumes "builds_all T ob m i c d k ts" "length S + d < MAX_TSTACK" "length S + length X = MAX_TSTACK"
    "length V + k < MAX_TREE" "length V + length R = MAX_TREE"
  obtains rs X' N where "runs T ob m i (lay st S X V R) (i + length c) (lay st (S @ rs) X' (V @ N) (drop k R))"
    "length S + length rs + length X' = MAX_TSTACK" "length N = k" "prints_all T ob m (V @ N) rs k ts"
  using assms unfolding builds_all_def by blast

lemma builds_all_nil: "builds_all T ob m i [] 0 0 []"
  unfolding builds_all_def
proof (intro allI impI)
  fix st and S X V R :: "inst list"
  assume "length S + length X = MAX_TSTACK"
  then show "\<exists>rs X' N. runs T ob m i (lay st S X V R) (i + length []) (lay st (S @ rs) X' (V @ N) (drop 0 R)) \<and>
      length S + length rs + length X' = MAX_TSTACK \<and> length N = 0 \<and> prints_all T ob m (V @ N) rs 0 []"
    by (intro exI [of _ "[]"] exI [of _ X]) (simp add: runs_refl prints_all_def)
qed

lemma builds_all_cons:
  assumes "builds T ob m i c1 d1 k1 t" "builds_all T ob m (i + length c1) c2 d2 k2 ts"
  shows "builds_all T ob m i (c1 @ c2) (max d1 (1 + d2)) (k1 + k2) (t # ts)"
  unfolding builds_all_def
proof (intro allI impI)
  fix st and S X V R :: "inst list"
  assume s: "length S + max d1 (1 + d2) < MAX_TSTACK" "length S + length X = MAX_TSTACK"
    "length V + (k1 + k2) < MAX_TREE" "length V + length R = MAX_TREE"
  obtain r X1 N1 where 1: "runs T ob m i (lay st S X V R) (i + length c1)
      (lay st (S @ [r]) X1 (V @ N1) (drop k1 R))"
    "length S + 1 + length X1 = MAX_TSTACK" "length N1 = k1" "prints T ob m (V @ N1) r k1 t"
    by (rule buildsD [OF assms(1), of S X V R]) (use s in auto)
  obtain rs X2 N2 where 2: "runs T ob m (i + length c1) (lay st (S @ [r]) X1 (V @ N1) (drop k1 R))
      (i + length c1 + length c2) (lay st ((S @ [r]) @ rs) X2 ((V @ N1) @ N2) (drop k2 (drop k1 R)))"
    "length (S @ [r]) + length rs + length X2 = MAX_TSTACK" "length N2 = k2"
    "prints_all T ob m ((V @ N1) @ N2) rs k2 ts"
    by (rule builds_allD [OF assms(2), of "S @ [r]" X1 "V @ N1" "drop k1 R"]) (use s 1 in auto)
  have "prints_all T ob m (V @ N1 @ N2) (r # rs) (k1 + k2) (t # ts)"
    using prints_more [OF 1(4), of "k1 + k2" N2] prints_all_more [OF 2(4), of "k1 + k2" "[]"]
    by (simp add: prints_all_def)
  with runs_trans [OF 1(1) 2(1)] 2(2,3) 1(3)
  show "\<exists>rs X' N. runs T ob m i (lay st S X V R) (i + length (c1 @ c2))
      (lay st (S @ rs) X' (V @ N) (drop (k1 + k2) R)) \<and>
      length S + length rs + length X' = MAX_TSTACK \<and> length N = k1 + k2 \<and>
      prints_all T ob m (V @ N) rs (k1 + k2) (t # ts)"
    by (intro exI [of _ "r # rs"] exI [of _ X2] exI [of _ "N1 @ N2"])
      (simp add: add.assoc add.commute [of k1])
qed

lemma builds_single:
  "builds T ob m i c d k t \<Longrightarrow> 1 \<le> d \<Longrightarrow> builds_all T ob m i c d k [t]"
  using builds_all_cons [OF _ builds_all_nil, of T ob m i c d k t] by (simp add: max_absorb1)

lemma builds_jump:
  assumes "builds T ob m i c d k t" "has m (i + length c) [p, x]" "sint p \<in> {O_AND, O_OR}"
  shows "builds T ob m i (c @ [p, x]) d k t"
  unfolding builds_def
proof (intro allI impI)
  fix st and S X V R :: "inst list"
  assume s: "length S + d < MAX_TSTACK" "length S + length X = MAX_TSTACK"
    "length V + k < MAX_TREE" "length V + length R = MAX_TREE"
  obtain r X1 N1 where 1: "runs T ob m i (lay st S X V R) (i + length c)
      (lay st (S @ [r]) X1 (V @ N1) (drop k R))"
    "length S + 1 + length X1 = MAX_TSTACK" "length N1 = k" "prints T ob m (V @ N1) r k t"
    by (rule buildsD [OF assms(1), of S X V R]) (use s in auto)
  have "runs T ob m (i + length c) (lay st (S @ [r]) X1 (V @ N1) (drop k R))
      (i + length (c @ [p, x])) (lay st (S @ [r]) X1 (V @ N1) (drop k R))"
    using assms(3)
    by (intro runs_step [OF assms(2) refl]) (auto simp: stmt_ops_def tree_step_def)
  from runs_trans [OF 1(1) this] 1(2-4)
  show "\<exists>r X' N. runs T ob m i (lay st S X V R) (i + length (c @ [p, x]))
      (lay st (S @ [r]) X' (V @ N) (drop k R)) \<and> length S + 1 + length X' = MAX_TSTACK \<and>
      length N = k \<and> prints T ob m (V @ N) r k t"
    by blast
qed

text \<open>
  An operator after its operands. \<open>node\<close> says what its instruction does to the arrays and how
  the new node prints.
\<close>

definition node_step ::
  "servtab \<Rightarrow> object \<Rightarrow> cmethod \<Rightarrow> int \<Rightarrow> int \<Rightarrow> inst list \<Rightarrow> inst list \<Rightarrow> inst list \<Rightarrow> inst list \<Rightarrow>
     inst list \<Rightarrow> nat \<Rightarrow> nat \<Rightarrow> nat \<Rightarrow> (bool \<Rightarrow> int \<Rightarrow> string) \<Rightarrow> bool" where
  "node_step T ob m opc i S S' X V R len k' k t \<longleftrightarrow>
     (\<exists>X' N. length S + 1 + length X' = MAX_TSTACK \<and> length N = k' \<and>
        (\<forall>st. tree_step m opc i (lay st S' X V R) =
           Some (lay st (S @ [TreeP (length V)]) X' (V @ N) (drop k' R), i + int len)) \<and>
        prints T ob m (V @ N) (TreeP (length V)) k t)"

lemma builds_node:
  assumes "builds_all T ob m i c d k ts" "has m (i + length c) (p # xs)" "sint p = opc"
    "opc \<notin> stmt_ops" "length ts \<le> d" "len = Suc (length xs)"
    "\<And>S X V R rs. prints_all T ob m V rs k ts \<Longrightarrow> length S + length rs < MAX_TSTACK \<Longrightarrow>
       length S + length rs + length X = MAX_TSTACK \<Longrightarrow> length V + k' < MAX_TREE \<Longrightarrow>
       length V + length R = MAX_TREE \<Longrightarrow>
       node_step T ob m opc (int (i + length c)) S (S @ rs) X V R len k' (k + k') t"
  shows "builds T ob m i (c @ p # xs) d (k + k') t"
  unfolding builds_def
proof (intro allI impI)
  fix st and S X V R :: "inst list"
  assume s: "length S + d < MAX_TSTACK" "length S + length X = MAX_TSTACK"
    "length V + (k + k') < MAX_TREE" "length V + length R = MAX_TREE"
  obtain rs X1 N1 where 1: "runs T ob m i (lay st S X V R) (i + length c)
      (lay st (S @ rs) X1 (V @ N1) (drop k R))"
    "length S + length rs + length X1 = MAX_TSTACK" "length N1 = k" "prints_all T ob m (V @ N1) rs k ts"
    by (rule builds_allD [OF assms(1), of S X V R]) (use s in auto)
  have "length rs = length ts" using 1(4) by (auto simp: prints_all_def dest: list_all2_lengthD)
  with assms(5) 1 s have "node_step T ob m opc (int (i + length c)) S (S @ rs) X1 (V @ N1) (drop k R)
      len k' (k + k') t"
    by (intro assms(7)) auto
  then obtain X' N where n: "length S + 1 + length X' = MAX_TSTACK" "length N = k'"
    "\<And>st. tree_step m opc (int (i + length c)) (lay st (S @ rs) X1 (V @ N1) (drop k R)) =
      Some (lay st (S @ [TreeP (length (V @ N1))]) X' ((V @ N1) @ N) (drop k' (drop k R)),
        int (i + length c) + int len)"
    "prints T ob m ((V @ N1) @ N) (TreeP (length (V @ N1))) (k + k') t"
    unfolding node_step_def by blast
  have "runs T ob m (i + length c) (lay st (S @ rs) X1 (V @ N1) (drop k R))
      (i + length (c @ p # xs)) (lay st (S @ [TreeP (length (V @ N1))]) X' ((V @ N1) @ N) (drop k' (drop k R)))"
    using n(3) assms(6) by (intro runs_step [OF assms(2,3,4)]) simp_all
  from runs_trans [OF 1(1) this] n 1(3)
  show "\<exists>r X' N. runs T ob m i (lay st S X V R) (i + length (c @ p # xs))
      (lay st (S @ [r]) X' (V @ N) (drop (k + k') R)) \<and> length S + 1 + length X' = MAX_TSTACK \<and>
      length N = k + k' \<and> prints T ob m (V @ N) r (k + k') t"
    by (intro exI [of _ "TreeP (length (V @ N1))"] exI [of _ X'] exI [of _ "N1 @ N"])
      (simp add: add.commute [of k])
qed

text \<open>A call: operands before the mark, the mark, and the arguments.\<close>

lemma builds_call:
  assumes "builds_all T ob m i c0 d0 k0 ts0" "has m (i + length c0) [i32_of O_ARGSTART]"
    "builds_all T ob m (i + length c0 + 1) c1 d1 k1 ts1"
    "has m (i + length c0 + 1 + length c1) (p # xs)" "sint p = opc" "opc \<notin> stmt_ops" "length ts1 \<le> d1"
    "len = Suc (length xs)"
    "\<And>S X V R rs0 rs. prints_all T ob m V rs0 k0 ts0 \<Longrightarrow> prints_all T ob m V rs k1 ts1 \<Longrightarrow>
       length S + length rs0 + 1 + length rs < MAX_TSTACK \<Longrightarrow>
       length S + length rs0 + 1 + length rs + length X = MAX_TSTACK \<Longrightarrow>
       length V + k' < MAX_TREE \<Longrightarrow> length V + length R = MAX_TREE \<Longrightarrow>
       node_step T ob m opc (int (i + length c0 + 1 + length c1)) S (marked (S @ rs0) rs) X V R
         len k' (k0 + k1 + k') t"
  shows "builds T ob m i (c0 @ i32_of O_ARGSTART # c1 @ p # xs) (max d0 (length ts0 + 1 + d1))
    (k0 + k1 + k') t"
  unfolding builds_def
proof (intro allI impI)
  fix st and S X V R :: "inst list"
  assume s: "length S + max d0 (length ts0 + 1 + d1) < MAX_TSTACK" "length S + length X = MAX_TSTACK"
    "length V + (k0 + k1 + k') < MAX_TREE" "length V + length R = MAX_TREE"
  obtain rs0 X0 N0 where 0: "runs T ob m i (lay st S X V R) (i + length c0)
      (lay st (S @ rs0) X0 (V @ N0) (drop k0 R))"
    "length S + length rs0 + length X0 = MAX_TSTACK" "length N0 = k0" "prints_all T ob m (V @ N0) rs0 k0 ts0"
    by (rule builds_allD [OF assms(1), of S X V R]) (use s in auto)
  have l0: "length rs0 = length ts0" using 0(4) by (auto simp: prints_all_def dest: list_all2_lengthD)
  with 0(2) s(1) obtain x Y0 where X0: "X0 = x # Y0" by (cases X0) auto
  let ?S1 = "(S @ rs0) @ [Num (i32_of O_ARGSTART)]"
  have a: "runs T ob m (i + length c0) (lay st (S @ rs0) X0 (V @ N0) (drop k0 R))
      (i + length c0 + 1) (lay st ?S1 Y0 (V @ N0) (drop k0 R))"
    using s(1) l0 by (intro runs_step [OF assms(2) refl])
      (auto simp: stmt_ops_def tree_step_def X0 tpush_lay)
  obtain rs X1 N1 where 1: "runs T ob m (i + length c0 + 1) (lay st ?S1 Y0 (V @ N0) (drop k0 R))
      (i + length c0 + 1 + length c1) (lay st (?S1 @ rs) X1 ((V @ N0) @ N1) (drop k1 (drop k0 R)))"
    "length ?S1 + length rs + length X1 = MAX_TSTACK" "length N1 = k1"
    "prints_all T ob m ((V @ N0) @ N1) rs k1 ts1"
    by (rule builds_allD [OF assms(3), of ?S1 Y0 "V @ N0" "drop k0 R"]) (use s 0 X0 l0 in auto)
  let ?V = "(V @ N0) @ N1" and ?R = "drop k1 (drop k0 R)"
  have l1: "length rs = length ts1" using 1(4) by (auto simp: prints_all_def dest: list_all2_lengthD)
  have "node_step T ob m opc (int (i + length c0 + 1 + length c1)) S (marked (S @ rs0) rs) X1 ?V ?R
      len k' (k0 + k1 + k') t"
    using prints_all_more [OF 0(4), of k0 N1] 1 0(3) s l0 l1 assms(7) by (intro assms(9)) auto
  then obtain X' N where n: "length S + 1 + length X' = MAX_TSTACK" "length N = k'"
    "\<And>st. tree_step m opc (int (i + length c0 + 1 + length c1)) (lay st (marked (S @ rs0) rs) X1 ?V ?R) =
      Some (lay st (S @ [TreeP (length ?V)]) X' (?V @ N) (drop k' ?R),
        int (i + length c0 + 1 + length c1) + int len)"
    "prints T ob m (?V @ N) (TreeP (length ?V)) (k0 + k1 + k') t"
    unfolding node_step_def by blast
  have mk: "?S1 @ rs = marked (S @ rs0) rs" by (simp add: marked_def)
  have "runs T ob m (i + length c0 + 1 + length c1) (lay st (?S1 @ rs) X1 ?V ?R)
      (i + length (c0 @ i32_of O_ARGSTART # c1 @ p # xs)) (lay st (S @ [TreeP (length ?V)]) X' (?V @ N) (drop k' ?R))"
    unfolding mk using n(3) assms(8) by (intro runs_step [OF assms(4,5,6)]) simp_all
  from runs_trans [OF runs_trans [OF runs_trans [OF 0(1) a] 1(1)] this] n 0(3) 1(3)
  show "\<exists>r X' N. runs T ob m i (lay st S X V R) (i + length (c0 @ i32_of O_ARGSTART # c1 @ p # xs))
      (lay st (S @ [r]) X' (V @ N) (drop (k0 + k1 + k') R)) \<and> length S + 1 + length X' = MAX_TSTACK \<and>
      length N = k0 + k1 + k' \<and> prints T ob m (V @ N) r (k0 + k1 + k') t"
    by (intro exI [of _ "TreeP (length ?V)"] exI [of _ X'] exI [of _ "N0 @ N1 @ N"])
      (simp add: add.commute add.left_commute)
qed

section \<open>Every production\<close>

text \<open>The step of an operator on its operands, from what it does to the arrays.\<close>

lemma node_stepI:
  assumes "\<And>st. f (lay st S' X V R) = Some (lay st (S @ [TreeP (length V)]) X' (V @ N) (drop k' R))"
    "\<And>st. tree_step m opc i st = map_option (\<lambda>st. (st, i + int len)) (f st)"
    "prints T ob m (V @ N) (TreeP (length V)) j t" "j \<le> k" "length S + 1 + length X' = MAX_TSTACK"
    "length N = k'"
  shows "node_step T ob m opc i S S' X V R len k' k t"
  unfolding node_step_def
  using assms prints_more [OF assms(3,4), of "[]"]
  by (intro exI [of _ X'] exI [of _ N]) simp

lemma node_bin:
  assumes "p \<in> bin_ops" "prints_all T ob m V rs k [t1, t2]" "length S + length rs < MAX_TSTACK"
    "length S + length rs + length X = MAX_TSTACK" "length V + 3 < MAX_TREE" "length V + length R = MAX_TREE"
  shows "node_step T ob m p i S (S @ rs) X V R 1 3 (k + 3) (\<lambda>br prec. paren br (expr_prec p) prec
      (if p = O_INDEX then t1 br 0 @ ''['' @ t2 br 0 @ '']''
       else if p = O_LSUBSET then t1 br 0 @ ''[..'' @ t2 br 0 @ '']''
       else if p = O_RSUBSET then t1 br 0 @ ''['' @ t2 br 0 @ ''..]''
       else t1 br (expr_prec p) @ the (binop_text p) @ t2 br (expr_prec p + 1)))"
proof -
  from assms(2) obtain r1 r2 where r: "rs = [r1, r2]" "prints T ob m V r1 k t1" "prints T ob m V r2 k t2"
    by (auto simp: prints_all_def list_all2_Cons2)
  show ?thesis
    using assms r(1) tree_op_lay [of rs S V R "i32_of p" _ X]
    by (intro node_stepI [where f = "tree_op 2 (i32_of p)", OF _ _ prints_bin [OF assms(1) r(2,3)]])
      (auto simp: bin_ops_def tree_step_def Let_def eval_nat_numeral)
qed

lemma node_logic:
  assumes "(p, q, s) \<in> {(O_ENDAND, 4, '' && ''), (O_ENDOR, 3, '' || '')}"
    "prints_all T ob m V rs k [t1, t2]" "length S + length rs < MAX_TSTACK"
    "length S + length rs + length X = MAX_TSTACK" "length V + 3 < MAX_TREE" "length V + length R = MAX_TREE"
  shows "node_step T ob m p i S (S @ rs) X V R 1 3 (k + 3)
    (\<lambda>br prec. paren br q prec (t1 br q @ s @ t2 br (q + 1)))"
proof -
  from assms(2) obtain r1 r2 where r: "rs = [r1, r2]" "prints T ob m V r1 k t1" "prints T ob m V r2 k t2"
    by (auto simp: prints_all_def list_all2_Cons2)
  show ?thesis
    using assms r(1) tree_op_lay [of rs S V R "i32_of p" _ X]
    by (intro node_stepI [where f = "tree_op 2 (i32_of p)", OF _ _ prints_logic [OF assms(1) r(2,3)]])
      (auto simp: tree_step_def Let_def eval_nat_numeral)
qed

lemma node_subset:
  assumes "prints_all T ob m V rs k [t1, t2, t3]" "length S + length rs < MAX_TSTACK"
    "length S + length rs + length X = MAX_TSTACK" "length V + 4 < MAX_TREE" "length V + length R = MAX_TREE"
  shows "node_step T ob m O_SUBSET i S (S @ rs) X V R 1 4 (k + 4)
    (\<lambda>br prec. t1 br 0 @ ''['' @ t2 br 0 @ ''..'' @ t3 br 0 @ '']'')"
proof -
  from assms(1) obtain r1 r2 r3 where r: "rs = [r1, r2, r3]" "prints T ob m V r1 k t1"
    "prints T ob m V r2 k t2" "prints T ob m V r3 k t3"
    by (auto simp: prints_all_def list_all2_Cons2)
  show ?thesis
    using assms r(1) tree_op_lay [of rs S V R "i32_of O_SUBSET" _ X]
    by (intro node_stepI [where f = "tree_op 3 (i32_of O_SUBSET)", OF _ _ prints_subset [OF r(2-4)]])
      (auto simp: tree_step_def Let_def eval_nat_numeral)
qed

lemma node_un:
  assumes "p \<in> un_ops" "prints_all T ob m V rs k [t1]" "length S + length rs < MAX_TSTACK"
    "length S + length rs + length X = MAX_TSTACK" "length V + 2 < MAX_TREE" "length V + length R = MAX_TREE"
  shows "node_step T ob m p i S (S @ rs) X V R 1 2 (k + 2)
    (\<lambda>br prec. paren br (expr_prec p) prec (the (unop_text p) @ t1 br (expr_prec p)))"
proof -
  from assms(2) obtain r1 where r: "rs = [r1]" "prints T ob m V r1 k t1"
    by (auto simp: prints_all_def list_all2_Cons2)
  show ?thesis
    using assms r(1) tree_op_lay [of rs S V R "i32_of p" _ X]
    by (intro node_stepI [where f = "tree_op 1 (i32_of p)", OF _ _ prints_un [OF assms(1) r(2)]])
      (auto simp: un_ops_def tree_step_def Let_def eval_nat_numeral)
qed

lemma prints_all_length: "prints_all T ob m V rs k ts \<Longrightarrow> length rs = length ts"
  by (auto simp: prints_all_def dest: list_all2_lengthD)

lemma node_list:
  assumes "prints_all T ob m V rs k ts" "length S + 1 + length rs < MAX_TSTACK"
    "length S + 1 + length rs + length X = MAX_TSTACK" "length V + (length ts + 2) < MAX_TREE"
    "length V + length R = MAX_TREE"
  shows "node_step T ob m O_LISTPUSH i S (marked S rs) X V R 1 (length ts + 2) (k + (length ts + 2))
    (\<lambda>br prec. ''{'' @ commas (map (\<lambda>t. t br 0) ts) @ ''}'')"
proof -
  have len: "length rs = length ts" using assms(1) by (rule prints_all_length)
  have "prints T ob m (V @ Num (i32_of O_LISTPUSH) # Num (of_nat (length rs)) # rs) (TreeP (length V))
      (k + 1) (\<lambda>br prec. ''{'' @ commas (map (\<lambda>t. t br 0) ts) @ ''}'')"
    using assms(4) len by (intro prints_list [OF assms(1)]) (simp add: MAX_TREE_def)
  then show ?thesis
    using assms len tree_list_lay [OF prints_all_refs [OF assms(1)], of S V R _ X]
    by (intro node_stepI [where f = tree_list]) (auto simp: tree_step_def Let_def)
qed

lemma node_func:
  assumes "f \<in> set (map bf_num bf_table)" "nth_opt (m_code m) i = Some (i32_of f)"
    "prints_all T ob m V rs k ts" "length S + 1 + length rs < MAX_TSTACK"
    "length S + 1 + length rs + length X = MAX_TSTACK" "length V + (length ts + 2) < MAX_TREE"
    "length V + length R = MAX_TREE" "\<And>st. tree_step m f i st = map_option (\<lambda>st. (st, i + int 1)) (tree_func m i st)"
  shows "node_step T ob m f i S (marked S rs) X V R 1 (length ts + 2) (k + (length ts + 2))
    (\<lambda>br prec. the (bf_id2name f) @ ''('' @ commas (map (\<lambda>t. t br 0) ts) @ '')'')"
proof -
  have len: "length rs = length ts" using assms(3) by (rule prints_all_length)
  have "prints T ob m (V @ Num (i32_of f) # Num (of_nat (length rs)) # rs) (TreeP (length V))
      (k + 1) (\<lambda>br prec. the (bf_id2name f) @ ''('' @ commas (map (\<lambda>t. t br 0) ts) @ '')'')"
    using assms(1,6) len by (intro prints_func [OF assms(3)]) (simp_all add: MAX_TREE_def)
  then show ?thesis
    using assms len tree_func_lay [OF prints_all_refs [OF assms(3)], of S V R m i "i32_of f" _ X]
    by (intro node_stepI [where f = "tree_func m i"]) auto
qed

lemma node_pass:
  assumes "nth_opt (o_parents ob) 0 = Some (VOBJ par)" "nth_opt (m_code m) (i + 1) = Some q"
    "prints_all T ob m V rs k ts" "length S + 1 + length rs < MAX_TSTACK"
    "length S + 1 + length rs + length X = MAX_TSTACK" "length V + (length ts + 3) < MAX_TREE"
    "length V + length R = MAX_TREE"
  shows "node_step T ob m O_PASS i S (marked S rs) X V R 2 (length ts + 3) (k + (length ts + 3))
    (\<lambda>br prec. ''pass('' @ commas (map (\<lambda>t. t br 0) ts) @ '')'' @
      (if sint q \<noteq> sint (oid par) then '' to #'' @ num_text (sint q) else []))"
proof -
  have len: "length rs = length ts" using assms(3) by (rule prints_all_length)
  have "prints T ob m (V @ Num (i32_of O_PASS) # Num q # Num (of_nat (length rs)) # rs)
    (TreeP (length V)) (k + 1) (\<lambda>br prec. ''pass('' @ commas (map (\<lambda>t. t br 0) ts) @ '')'' @
      (if sint q \<noteq> sint (oid par) then '' to #'' @ num_text (sint q) else []))"
    using assms(1,6) len by (intro prints_pass [OF assms(3)]) (simp_all add: MAX_TREE_def)
  then show ?thesis
    using assms len tree_pass_lay [OF prints_all_refs [OF assms(3)], of S V R m i q _ X]
    by (intro node_stepI [where f = "tree_pass m i"]) (auto simp: tree_step_def Let_def)
qed

lemma node_msg:
  assumes "sym_str ob (sint q) = Some s" "nth_opt (m_code m) (i + 1) = Some q"
    "prints_all T ob m V rs0 k [t]" "prints_all T ob m V rs k ts"
    "length S + length rs0 + 1 + length rs < MAX_TSTACK"
    "length S + length rs0 + 1 + length rs + length X = MAX_TSTACK"
    "length V + (length ts + 4) < MAX_TREE" "length V + length R = MAX_TREE"
  shows "node_step T ob m O_MESSAGE i S (marked (S @ rs0) rs) X V R 2 (length ts + 4) (k + (length ts + 4))
    (\<lambda>br prec. t br 0 @ ''.'' @ s @ call_text (map (\<lambda>t. t br 0) ts))"
proof -
  have len: "length rs = length ts" using assms(4) by (rule prints_all_length)
  from assms(3) obtain r where r: "rs0 = [r]" "prints T ob m V r k t"
    by (auto simp: prints_all_def list_all2_Cons2)
  have "prints T ob m (V @ Num (i32_of O_MESSAGE) # Num q # r # Num (of_nat (length rs)) # rs)
    (TreeP (length V)) (k + 1) (\<lambda>br prec. t br 0 @ ''.'' @ s @ call_text (map (\<lambda>t. t br 0) ts))"
    using assms(1,7) len by (intro prints_msg [OF r(2) assms(4)]) (simp_all add: MAX_TREE_def)
  then show ?thesis
    using assms len r tree_message_lay [OF prints_all_refs [OF assms(4)], where d = r]
    by (intro node_stepI [where f = "tree_message m i"]) (auto simp: tree_step_def Let_def)
qed

lemma node_msg_expr:
  assumes "prints_all T ob m V rs0 k [t1, t2]" "prints_all T ob m V rs k ts"
    "length S + length rs0 + 1 + length rs < MAX_TSTACK"
    "length S + length rs0 + 1 + length rs + length X = MAX_TSTACK"
    "length V + (length ts + 4) < MAX_TREE" "length V + length R = MAX_TREE"
  shows "node_step T ob m O_MESSAGE_EXPR i S (marked (S @ rs0) rs) X V R 1 (length ts + 4)
    (k + (length ts + 4))
    (\<lambda>br prec. t1 br 0 @ ''.('' @ t2 br 0 @ '')'' @ call_text (map (\<lambda>t. t br 0) ts))"
proof -
  have len: "length rs = length ts" using assms(2) by (rule prints_all_length)
  from assms(1) obtain r1 r2 where r: "rs0 = [r1, r2]" "prints T ob m V r1 k t1" "prints T ob m V r2 k t2"
    by (auto simp: prints_all_def list_all2_Cons2)
  have "prints T ob m (V @ Num (i32_of O_MESSAGE_EXPR) # r1 # r2 # Num (of_nat (length rs)) # rs)
    (TreeP (length V)) (k + 1)
    (\<lambda>br prec. t1 br 0 @ ''.('' @ t2 br 0 @ '')'' @ call_text (map (\<lambda>t. t br 0) ts))"
    using assms(5) len by (intro prints_msg_expr [OF r(2,3) assms(2)]) (simp_all add: MAX_TREE_def)
  then show ?thesis
    using assms len r tree_message_expr_lay [OF prints_all_refs [OF assms(2)], where d = r1 and e = r2]
    by (intro node_stepI [where f = tree_message_expr]) (auto simp: tree_step_def Let_def)
qed

lemma prints_flat:
  "prints_all T ob m V rs k (concat (map (\<lambda>t. [fst t, snd t]) ts)) \<Longrightarrow>
     \<exists>ps. rs = flat ps \<and> prints_pairs T ob m V ps k ts"
proof (induction ts arbitrary: rs)
  case (Cons t ts)
  then obtain r q rs' where r: "rs = r # q # rs'" "prints T ob m V r k (fst t)" "prints T ob m V q k (snd t)"
    "prints_all T ob m V rs' k (concat (map (\<lambda>t. [fst t, snd t]) ts))"
    by (auto simp: prints_all_def list_all2_Cons2)
  from Cons.IH [OF r(4)] obtain ps where "rs' = flat ps" "prints_pairs T ob m V ps k ts" by blast
  with r show ?case by (intro exI [of _ "(r, q) # ps"]) (simp add: prints_pairs_def)
qed (auto simp: prints_all_def prints_pairs_def intro: exI [of _ "[]"])

lemma node_map:
  assumes "nth_opt (m_code m) (i + 1) = Some (of_nat (length ts))"
    "prints_all T ob m V rs k (concat (map (\<lambda>t. [fst t, snd t]) ts))" "length S + length rs < MAX_TSTACK"
    "length S + length rs + length X = MAX_TSTACK" "length V + (2 * length ts + 2) < MAX_TREE"
    "length V + length R = MAX_TREE"
  shows "node_step T ob m O_MAPPUSH i S (S @ rs) X V R 2 (2 * length ts + 2) (k + (2 * length ts + 2))
    (\<lambda>br prec. ''['' @ commas (rev (map (\<lambda>t. fst t br 0 @ '' => '' @ snd t br 0) ts)) @ '']'')"
proof -
  from prints_flat [OF assms(2)] obtain ps where ps: "rs = flat ps" "prints_pairs T ob m V ps k ts" by blast
  have len: "length ps = length ts" using ps(2) by (auto simp: prints_pairs_def dest: list_all2_lengthD)
  have "prints T ob m (V @ Num (i32_of O_MAPPUSH) # Num (of_nat (length ps)) # rev (flat ps))
    (TreeP (length V)) (k + 1)
    (\<lambda>br prec. ''['' @ commas (rev (map (\<lambda>t. fst t br 0 @ '' => '' @ snd t br 0) ts)) @ '']'')"
    using assms(5) len by (intro prints_map [OF ps(2)]) (simp add: MAX_TREE_def)
  moreover have "X \<noteq> []" using assms(3,4) by auto
  ultimately show ?thesis
    using assms len ps tree_map_lay [of rs "length ps" S X V R m i]
    by (intro node_stepI [where f = "tree_map m i"])
      (auto simp: tree_step_def Let_def length_flat)
qed

fun pair_fns :: "servtab \<Rightarrow> object \<Rightarrow> cmethod \<Rightarrow> epairs \<Rightarrow>
     ((bool \<Rightarrow> int \<Rightarrow> string) \<times> (bool \<Rightarrow> int \<Rightarrow> string)) list" where
  "pair_fns T ob m PNil = []"
| "pair_fns T ob m (PCons a b r) =
     ((\<lambda>br p. expr_text T ob m br p a), (\<lambda>br p. expr_text T ob m br p b)) # pair_fns T ob m r"

lemma pair_fns_text:
  "map (\<lambda>t. fst t br 0 @ '' => '' @ snd t br 0) (pair_fns T ob m ps) = pairs_text T ob m br ps"
  by (induction ps rule: pairs_len.induct) auto

lemma pair_fns_length: "length (pair_fns T ob m ps) = pairs_len ps"
  by (induction ps rule: pairs_len.induct) auto

lemma args_text_map: "args_text T ob m br es = map (\<lambda>e. expr_text T ob m br 0 e) es"
  by (induction es) auto

lemma edepth_pos: "0 < edepth e" and "0 \<le> adepth es" and "0 \<le> pdepth ps"
  by (induction e and es and ps rule: edepth_adepth_pdepth.induct) auto

lemma adepth_length: "length es \<le> adepth es"
  by (induction es) auto

lemma pdepth_length: "2 * pairs_len ps \<le> pdepth ps"
  by (induction ps rule: pairs_len.induct) auto

lemma builds_all_deeper: "builds_all T ob m i c d k ts \<Longrightarrow> d \<le> d' \<Longrightarrow> builds_all T ob m i c d' k ts"
  unfolding builds_all_def by (meson le_less_trans nat_add_left_cancel_le)

text \<open>Leaves with one inline argument or none.\<close>

lemma builds_leaf1:
  assumes "has m i [i32_of p, n]"
    "p \<in> {O_NUMPUSH, O_STRPUSH, O_ERRPUSH, O_GETLVAR, O_GETGVAR, O_GETSYSVAR}"
    "\<And>n' (st :: dstate) b. num_at m st (CodeP (int i)) 1 = Some (sint n) \<Longrightarrow>
       expr_case (decompile_expr n' T ob m st) T ob m st (CodeP (int i)) p 0 b = Some (bcat b t)"
  shows "builds T ob m i [i32_of p, n] 1 0 (\<lambda>br prec. t)"
proof -
  have "num_at m st (CodeP (int i)) 1 = Some (sint n)" for st :: dstate
    using has_num_at [OF assms(1), of 1] by simp
  then have e: "expr_case (decompile_expr n' T ob m st) T ob m st (CodeP (int i)) p 0 b =
      Some (bcat b t)" for n' and st :: dstate and b by (rule assms(3))
  have p: "sint (i32_of p) = p" "p \<notin> stmt_ops" "expr_prec p = 0"
    using assms(2) by (auto simp: stmt_ops_def print_tables)
  have "tree_step m p (int i) st =
      map_option (\<lambda>st. (st, int i + int (length [i32_of p, n]))) (tpush (CodeP (int i)) st)" for st
    using assms(2) by (auto simp: tree_step_def Let_def)
  from builds_leaf [OF assms(1) refl p this e] show ?thesis .
qed

lemma builds_leaf0:
  assumes "has m i [i32_of p]" "p \<in> leaf_ops"
  shows "builds T ob m i [i32_of p] 1 0 (\<lambda>br prec. the (leaf_text p))"
proof -
  have p: "sint (i32_of p) = p" "p \<notin> stmt_ops" "expr_prec p = 0"
    using assms(2) by (auto simp: leaf_ops_def stmt_ops_def print_tables)
  have t: "tree_step m p (int i) st =
      map_option (\<lambda>st. (st, int i + int (length [i32_of p]))) (tpush (CodeP (int i)) st)" for st
    using assms(2) by (auto simp: leaf_ops_def tree_step_def Let_def)
  have "expr_case (decompile_expr n T ob m st) T ob m st (CodeP (int i)) p 0 b =
      Some (bcat b (the (leaf_text p)))" for n and st :: dstate and b
    using assms(2) by (auto simp: leaf_ops_def expr_case_def Let_def print_tables)
  from builds_leaf [OF assms(1) refl p t this] show ?thesis .
qed

lemma builds_obj:
  assumes "has m i [i32_of O_OBJPUSH, n, sv]"
    "catobj T [] \<lparr>server = scast sv, oid = n\<rparr> ((scast sv :: i16) \<noteq> 0) = Some t"
  shows "builds T ob m i [i32_of O_OBJPUSH, n, sv] 1 0 (\<lambda>br prec. t)"
proof -
  have n: "num_at m st (CodeP (int i)) 1 = Some (sint n)" "num_at m st (CodeP (int i)) 2 = Some (sint sv)"
    for st :: dstate
    using has_num_at [OF assms(1), of 1] has_num_at [OF assms(1), of 2] by simp_all
  have w: "word_of_int (sint sv) = (scast sv :: i16)" by (rule scast_eq [symmetric])
  have e: "expr_case (decompile_expr n' T ob m st) T ob m st (CodeP (int i)) O_OBJPUSH 0 b =
      Some (bcat b t)" for n' and st :: dstate and b
    using assms(2) by (simp add: expr_case_def n w string_catobj_def)
  have "sint (i32_of O_OBJPUSH) = O_OBJPUSH" "O_OBJPUSH \<notin> stmt_ops" "expr_prec O_OBJPUSH = 0"
    by (simp_all add: stmt_ops_def print_tables)
  from builds_leaf [OF assms(1) refl this _ e] show ?thesis
    by (simp add: tree_step_def)
qed

lemma bf_table_steps:
  "f \<in> set (map bf_num bf_table) \<Longrightarrow> f \<notin> stmt_ops \<and>
     tree_step m f i st = map_option (\<lambda>st. (st, i + 1)) (tree_func m i st)"
proof -
  let ?ops = "stmt_ops \<union> leaf_ops \<union> bin_ops \<union> un_ops \<union> {O_NUMPUSH, O_STRPUSH, O_ERRPUSH, O_GETLVAR,
    O_GETGVAR, O_GETSYSVAR, O_OBJPUSH, O_LISTPUSH, O_MAPPUSH, O_MESSAGE, O_MESSAGE_EXPR, O_PASS,
    O_ENDAND, O_ENDOR, O_SUBSET, O_AND, O_OR, O_PUSHPC, O_ARGSTART}"
  have "list_all (\<lambda>f. f \<notin> ?ops) (map bf_num bf_table)" by code_simp
  moreover assume "f \<in> set (map bf_num bf_table)"
  ultimately have "f \<notin> ?ops" unfolding list_all_iff by blast
  then show ?thesis
    by (simp add: stmt_ops_def leaf_ops_def bin_ops_def un_ops_def tree_step_def Let_def)
qed

section \<open>Every expression\<close>

abbreviation etext :: "servtab \<Rightarrow> object \<Rightarrow> cmethod \<Rightarrow> expr \<Rightarrow> bool \<Rightarrow> int \<Rightarrow> string" where
  "etext T ob m e \<equiv> (\<lambda>br p. expr_text T ob m br p e)"

lemma builds_two:
  assumes "builds T ob m i c1 d1 k1 t1" "builds T ob m (i + length c1) c2 d2 k2 t2" "0 < d2"
  shows "builds_all T ob m i (c1 @ c2) (max d1 (1 + d2)) (k1 + k2) [t1, t2]"
  using builds_all_cons [OF assms(1) builds_single [OF assms(2)]] assms(3) by simp

lemma builds_bin:
  assumes "builds T ob m i c1 d1 k1 t1" "builds T ob m (i + length c1) c2 d2 k2 t2" "0 < d2"
    "has m (i + length c1 + length c2) [i32_of p]" "p \<in> bin_ops"
  shows "builds T ob m i (c1 @ c2 @ [i32_of p]) (max d1 (1 + d2)) (k1 + k2 + 3)
    (\<lambda>br prec. paren br (expr_prec p) prec
      (if p = O_INDEX then t1 br 0 @ ''['' @ t2 br 0 @ '']''
       else if p = O_LSUBSET then t1 br 0 @ ''[..'' @ t2 br 0 @ '']''
       else if p = O_RSUBSET then t1 br 0 @ ''['' @ t2 br 0 @ ''..]''
       else t1 br (expr_prec p) @ the (binop_text p) @ t2 br (expr_prec p + 1)))"
proof -
  have p: "p \<notin> stmt_ops" using assms(5) by (auto simp: bin_ops_def stmt_ops_def)
  have "has m (i + length (c1 @ c2)) [i32_of p]" using assms(4) by (simp add: add.assoc)
  then have "builds T ob m i ((c1 @ c2) @ [i32_of p]) (max d1 (1 + d2)) (k1 + k2 + 3)
    (\<lambda>br prec. paren br (expr_prec p) prec
      (if p = O_INDEX then t1 br 0 @ ''['' @ t2 br 0 @ '']''
       else if p = O_LSUBSET then t1 br 0 @ ''[..'' @ t2 br 0 @ '']''
       else if p = O_RSUBSET then t1 br 0 @ ''['' @ t2 br 0 @ ''..]''
       else t1 br (expr_prec p) @ the (binop_text p) @ t2 br (expr_prec p + 1)))"
    using assms(3)
    by (intro builds_node [OF builds_two [OF assms(1-3)] _ sint_bin_op [OF assms(5)] p, where len = 1]
        node_bin [OF assms(5)]) simp_all
  then show ?thesis by simp
qed

lemma builds_logic:
  assumes "builds T ob m i c1 d1 k1 t1" "builds T ob m (i + length c1 + 2) c2 d2 k2 t2" "0 < d2"
    "has m (i + length c1) [p1, x]" "sint p1 \<in> {O_AND, O_OR}"
    "has m (i + length c1 + 2 + length c2) [i32_of p]"
    "(p, q, s) \<in> {(O_ENDAND, 4, '' && ''), (O_ENDOR, 3, '' || '')}"
  shows "builds T ob m i (c1 @ [p1, x] @ c2 @ [i32_of p]) (max d1 (1 + d2)) (k1 + k2 + 3)
    (\<lambda>br prec. paren br q prec (t1 br q @ s @ t2 br (q + 1)))"
proof -
  have p: "sint (i32_of p) = p" "p \<notin> stmt_ops" using assms(7) by (auto simp: stmt_ops_def)
  have b: "builds_all T ob m i ((c1 @ [p1, x]) @ c2) (max d1 (1 + d2)) (k1 + k2) [t1, t2]"
    using assms(2,3) by (intro builds_two [OF builds_jump [OF assms(1,4,5)]]) simp_all
  have "has m (i + length ((c1 @ [p1, x]) @ c2)) [i32_of p]" using assms(6) by (simp add: add.assoc)
  then have "builds T ob m i (((c1 @ [p1, x]) @ c2) @ [i32_of p]) (max d1 (1 + d2)) (k1 + k2 + 3)
    (\<lambda>br prec. paren br q prec (t1 br q @ s @ t2 br (q + 1)))"
    using assms(3)
    by (intro builds_node [OF b _ p, where len = 1] node_logic [OF assms(7)]) simp_all
  then show ?thesis by simp
qed

lemma builds_subset:
  assumes "builds T ob m i c1 d1 k1 t1" "builds T ob m (i + length c1) c2 d2 k2 t2"
    "builds T ob m (i + length c1 + length c2) c3 d3 k3 t3" "0 < d3"
    "has m (i + length c1 + length c2 + length c3) [i32_of O_SUBSET]"
  shows "builds T ob m i (c1 @ c2 @ c3 @ [i32_of O_SUBSET]) (max d1 (max (1 + d2) (2 + d3)))
    (k1 + k2 + k3 + 4) (\<lambda>br prec. t1 br 0 @ ''['' @ t2 br 0 @ ''..'' @ t3 br 0 @ '']'')"
proof -
  have p: "sint (i32_of O_SUBSET) = O_SUBSET" "O_SUBSET \<notin> stmt_ops" by (simp_all add: stmt_ops_def)
  have b: "builds_all T ob m i (c1 @ c2 @ c3) (max d1 (1 + max d2 (1 + d3))) (k1 + (k2 + k3)) [t1, t2, t3]"
    using assms(3,4) by (intro builds_all_cons [OF assms(1) builds_two [OF assms(2)]]) simp_all
  have "has m (i + length (c1 @ c2 @ c3)) [i32_of O_SUBSET]" using assms(5) by (simp add: add.assoc)
  then have "builds T ob m i ((c1 @ c2 @ c3) @ [i32_of O_SUBSET]) (max d1 (1 + max d2 (1 + d3)))
    (k1 + (k2 + k3) + 4) (\<lambda>br prec. t1 br 0 @ ''['' @ t2 br 0 @ ''..'' @ t3 br 0 @ '']'')"
    using assms(4) by (intro builds_node [OF b _ p, where len = 1] node_subset) simp_all
  then show ?thesis by (simp add: add.assoc)
qed

lemma builds_un:
  assumes "builds T ob m i c d k t" "0 < d" "has m (i + length c) [i32_of p]" "p \<in> un_ops"
  shows "builds T ob m i (c @ [i32_of p]) d (k + 2)
    (\<lambda>br prec. paren br (expr_prec p) prec (the (unop_text p) @ t br (expr_prec p)))"
proof -
  have p: "p \<notin> stmt_ops" using assms(4) by (auto simp: un_ops_def stmt_ops_def)
  have b: "builds_all T ob m i c d k [t]" using assms(1,2) by (intro builds_single) simp_all
  show ?thesis using assms(2,3)
    by (intro builds_node [OF b _ sint_un_op [OF assms(4)] p, where len = 1] node_un [OF assms(4)]) simp_all
qed

text \<open>Calls, whose arguments are a sequence.\<close>

lemma builds_call0:
  assumes "has m i [i32_of O_ARGSTART]" "builds_all T ob m (i + 1) c d k ts"
    "has m (i + 1 + length c) (p # xs)" "sint p = opc" "opc \<notin> stmt_ops" "length ts \<le> d"
    "len = Suc (length xs)"
    "\<And>S X V R rs. prints_all T ob m V rs k ts \<Longrightarrow> length S + 1 + length rs < MAX_TSTACK \<Longrightarrow>
       length S + 1 + length rs + length X = MAX_TSTACK \<Longrightarrow>
       length V + k' < MAX_TREE \<Longrightarrow> length V + length R = MAX_TREE \<Longrightarrow>
       node_step T ob m opc (int (i + 1 + length c)) S (marked S rs) X V R len k' (k + k') t"
  shows "builds T ob m i (i32_of O_ARGSTART # c @ p # xs) (1 + d) (k + k') t"
proof -
  have "builds T ob m i ([] @ i32_of O_ARGSTART # c @ p # xs)
      (max 0 (length ([] :: (bool \<Rightarrow> int \<Rightarrow> string) list) + 1 + d)) (0 + k + k') t"
  proof (rule builds_call [OF builds_all_nil _ _ _ assms(4,5,6,7)])
    fix S X V R rs0 rs :: "inst list"
    assume "prints_all T ob m V rs0 0 []" and r: "prints_all T ob m V rs k ts"
      "length S + length rs0 + 1 + length rs < MAX_TSTACK"
      "length S + length rs0 + 1 + length rs + length X = MAX_TSTACK"
      "length V + k' < MAX_TREE" "length V + length R = MAX_TREE"
    then have "rs0 = []" by (simp add: prints_all_def)
    with r assms(8) [of V rs S X R] show "node_step T ob m opc (int (i + length [] + 1 + length c)) S
        (marked (S @ rs0) rs) X V R len k' (0 + k + k') t" by simp
  qed (use assms(1-3) in simp_all)
  then show ?thesis by simp
qed

lemma builds_list:
  assumes "builds_all T ob m (i + 1) c d k ts" "has m i [i32_of O_ARGSTART]"
    "has m (i + 1 + length c) [i32_of O_LISTPUSH]" "length ts \<le> d"
  shows "builds T ob m i (i32_of O_ARGSTART # c @ [i32_of O_LISTPUSH]) (1 + d) (k + (length ts + 2))
    (\<lambda>br prec. ''{'' @ commas (map (\<lambda>t. t br 0) ts) @ ''}'')"
  by (rule builds_call0 [OF assms(2,1,3) _ _ assms(4), where opc = O_LISTPUSH and len = 1])
    (simp, simp add: stmt_ops_def, simp, rule node_list)

lemma builds_func:
  assumes "builds_all T ob m (i + 1) c d k ts" "has m i [i32_of O_ARGSTART]"
    "has m (i + 1 + length c) [i32_of f]" "length ts \<le> d" "f \<in> set (map bf_num bf_table)"
  shows "builds T ob m i (i32_of O_ARGSTART # c @ [i32_of f]) (1 + d) (k + (length ts + 2))
    (\<lambda>br prec. the (bf_id2name f) @ ''('' @ commas (map (\<lambda>t. t br 0) ts) @ '')'')"
proof -
  have p: "sint (i32_of f) = f" "f \<notin> stmt_ops"
    using bf_table_calls [OF assms(5)] bf_table_steps [OF assms(5)] by (simp_all add: is_call_def)
  have n: "nth_opt (m_code m) (int (i + 1 + length c)) = Some (i32_of f)"
    using has_nth [OF assms(3), of 0] by (simp del: nth_opt_Some_iff)
  have st: "tree_step m f (int (i + 1 + length c)) st =
      map_option (\<lambda>st. (st, int (i + 1 + length c) + int 1)) (tree_func m (int (i + 1 + length c)) st)" for st
    using bf_table_steps [OF assms(5), of m "int (i + 1 + length c)" st] by simp
  show ?thesis
    by (rule builds_call0 [OF assms(2,1,3) p assms(4), where len = 1])
      (simp, rule node_func [OF assms(5) n _ _ _ _ _ st])
qed

lemma builds_pass:
  assumes "builds_all T ob m (i + 1) c d k ts" "has m i [i32_of O_ARGSTART]"
    "has m (i + 1 + length c) [i32_of O_PASS, q]" "length ts \<le> d"
    "nth_opt (o_parents ob) 0 = Some (VOBJ par)"
  shows "builds T ob m i (i32_of O_ARGSTART # c @ [i32_of O_PASS, q]) (1 + d) (k + (length ts + 3))
    (\<lambda>br prec. ''pass('' @ commas (map (\<lambda>t. t br 0) ts) @ '')'' @
      (if sint q \<noteq> sint (oid par) then '' to #'' @ num_text (sint q) else []))"
proof -
  have p: "sint (i32_of O_PASS) = O_PASS" "O_PASS \<notin> stmt_ops" by (simp_all add: stmt_ops_def)
  have n: "nth_opt (m_code m) (int (i + 1 + length c) + 1) = Some q"
    using has_nth [OF assms(3), of 1] by (simp del: nth_opt_Some_iff)
  show ?thesis
    by (rule builds_call0 [OF assms(2,1,3) p assms(4), where len = 2])
      (simp, rule node_pass [OF assms(5) n])
qed

lemma builds_msg:
  assumes "builds T ob m i c0 d0 k0 t" "0 < d0" "has m (i + length c0) [i32_of O_ARGSTART]"
    "builds_all T ob m (i + length c0 + 1) c d k ts"
    "has m (i + length c0 + 1 + length c) [i32_of O_MESSAGE, q]" "length ts \<le> d"
    "sym_str ob (sint q) = Some s"
  shows "builds T ob m i (c0 @ i32_of O_ARGSTART # c @ [i32_of O_MESSAGE, q]) (max d0 (2 + d))
    (k0 + k + (length ts + 4)) (\<lambda>br prec. t br 0 @ ''.'' @ s @ call_text (map (\<lambda>t. t br 0) ts))"
proof -
  have p: "sint (i32_of O_MESSAGE) = O_MESSAGE" "O_MESSAGE \<notin> stmt_ops" by (simp_all add: stmt_ops_def)
  have b: "builds_all T ob m i c0 d0 k0 [t]" using assms(2) by (intro builds_single assms(1)) simp
  have n: "nth_opt (m_code m) (int (i + length c0 + 1 + length c) + 1) = Some q"
    using has_nth [OF assms(5), of 1] by (simp del: nth_opt_Some_iff)
  have "builds T ob m i (c0 @ i32_of O_ARGSTART # c @ [i32_of O_MESSAGE, q]) (max d0 (length [t] + 1 + d))
    (k0 + k + (length ts + 4)) (\<lambda>br prec. t br 0 @ ''.'' @ s @ call_text (map (\<lambda>t. t br 0) ts))"
  proof (rule builds_call [OF b assms(3,4,5) p assms(6), where len = 2])
    fix S X V R rs0 rs :: "inst list"
    assume r: "prints_all T ob m V rs0 k0 [t]" "prints_all T ob m V rs k ts"
    assume "length S + length rs0 + 1 + length rs < MAX_TSTACK"
      "length S + length rs0 + 1 + length rs + length X = MAX_TSTACK"
      "length V + (length ts + 4) < MAX_TREE" "length V + length R = MAX_TREE"
    then show "node_step T ob m O_MESSAGE (int (i + length c0 + 1 + length c)) S (marked (S @ rs0) rs) X V R
      2 (length ts + 4) (k0 + k + (length ts + 4))
      (\<lambda>br prec. t br 0 @ ''.'' @ s @ call_text (map (\<lambda>t. t br 0) ts))"
      using prints_all_more [OF r(1), of "k0 + k" "[]"] prints_all_more [OF r(2), of "k0 + k" "[]"]
      by (intro node_msg [OF assms(7) n]) simp_all
  qed simp
  then show ?thesis by simp
qed

lemma builds_msg_expr:
  assumes "builds T ob m i c1 d1 k1 t1" "builds T ob m (i + length c1) c2 d2 k2 t2" "0 < d2"
    "has m (i + length c1 + length c2) [i32_of O_ARGSTART]"
    "builds_all T ob m (i + length c1 + length c2 + 1) c d k ts"
    "has m (i + length c1 + length c2 + 1 + length c) [i32_of O_MESSAGE_EXPR]" "length ts \<le> d"
  shows "builds T ob m i (c1 @ c2 @ i32_of O_ARGSTART # c @ [i32_of O_MESSAGE_EXPR])
    (max d1 (max (1 + d2) (3 + d))) (k1 + k2 + k + (length ts + 4))
    (\<lambda>br prec. t1 br 0 @ ''.('' @ t2 br 0 @ '')'' @ call_text (map (\<lambda>t. t br 0) ts))"
proof -
  have p: "sint (i32_of O_MESSAGE_EXPR) = O_MESSAGE_EXPR" "O_MESSAGE_EXPR \<notin> stmt_ops"
    by (simp_all add: stmt_ops_def)
  have "builds T ob m i ((c1 @ c2) @ i32_of O_ARGSTART # c @ [i32_of O_MESSAGE_EXPR])
    (max (max d1 (1 + d2)) (length [t1, t2] + 1 + d)) ((k1 + k2) + k + (length ts + 4))
    (\<lambda>br prec. t1 br 0 @ ''.('' @ t2 br 0 @ '')'' @ call_text (map (\<lambda>t. t br 0) ts))"
  proof (rule builds_call [OF builds_two [OF assms(1-3)] _ _ _ p assms(7), where len = 1])
    fix S X V R rs0 rs :: "inst list"
    assume r: "prints_all T ob m V rs0 (k1 + k2) [t1, t2]" "prints_all T ob m V rs k ts"
    assume "length S + length rs0 + 1 + length rs < MAX_TSTACK"
      "length S + length rs0 + 1 + length rs + length X = MAX_TSTACK"
      "length V + (length ts + 4) < MAX_TREE" "length V + length R = MAX_TREE"
    then show "node_step T ob m O_MESSAGE_EXPR (int (i + length (c1 @ c2) + 1 + length c)) S
      (marked (S @ rs0) rs) X V R 1 (length ts + 4) (k1 + k2 + k + (length ts + 4))
      (\<lambda>br prec. t1 br 0 @ ''.('' @ t2 br 0 @ '')'' @ call_text (map (\<lambda>t. t br 0) ts))"
      using prints_all_more [OF r(1), of "k1 + k2 + k" "[]"] prints_all_more [OF r(2), of "k1 + k2 + k" "[]"]
      by (intro node_msg_expr) simp_all
  qed (use assms(4-6) in \<open>simp_all add: add.assoc\<close>)
  then show ?thesis by (simp add: max.assoc eval_nat_numeral)
qed

lemma builds_map:
  assumes "builds_all T ob m i c d k (concat (map (\<lambda>t. [fst t, snd t]) ts))" "1 \<le> d" "2 * length ts \<le> d"
    "has m (i + length c) [i32_of O_MAPPUSH, of_nat (length ts)]"
  shows "builds T ob m i (c @ [i32_of O_MAPPUSH, of_nat (length ts)]) d (k + (2 * length ts + 2))
    (\<lambda>br prec. ''['' @ commas (rev (map (\<lambda>t. fst t br 0 @ '' => '' @ snd t br 0) ts)) @ '']'')"
proof -
  have p: "sint (i32_of O_MAPPUSH) = O_MAPPUSH" "O_MAPPUSH \<notin> stmt_ops" by (simp_all add: stmt_ops_def)
  have n: "nth_opt (m_code m) (int (i + length c) + 1) = Some (of_nat (length ts))"
    using has_nth [OF assms(4), of 1] by (simp del: nth_opt_Some_iff)
  have "length (concat (map (\<lambda>t. [fst t, snd t]) ts)) = 2 * length ts" by (induction ts) auto
  with assms(3) show ?thesis
    by (intro builds_node [OF assms(1,4) p, where len = 2] node_map [OF n]) simp_all
qed

theorem builds_expr:
  "wf_expr T ob m e \<Longrightarrow> has m a (emit a e) \<Longrightarrow>
     builds T ob m a (emit a e) (edepth e) (ecells e) (etext T ob m e)"
  "wf_args T ob m es \<Longrightarrow> has m a (emit_args a es) \<Longrightarrow>
     builds_all T ob m a (emit_args a es) (adepth es) (acells es) (map (etext T ob m) es)"
  "wf_pairs T ob m ps \<Longrightarrow> has m a (emit_pairs a ps) \<Longrightarrow>
     builds_all T ob m a (emit_pairs a ps) (pdepth ps) (pcells ps)
       (concat (map (\<lambda>t. [fst t, snd t]) (pair_fns T ob m ps)))"
proof (induction a e and a es and a ps rule: emit_emit_args_emit_pairs.induct)
  case (1 a n)
  then show ?case using builds_leaf1 [of m a O_NUMPUSH n T ob] by (simp add: expr_case_def)
next
  case (2 a n)
  then obtain s t where "sym_str ob (sint n) = Some s" "backslash s = Some t"
    by (cases "sym_str ob (sint n)") auto
  with 2 show ?case using builds_leaf1 [of m a O_STRPUSH n T ob]
    by (simp add: expr_case_def string_backslash_def)
next
  case (3 a n)
  then show ?case using builds_leaf1 [of m a O_ERRPUSH n T ob] by (simp add: expr_case_def)
next
  case (4 a n sv)
  then show ?case using builds_obj [of m a n sv T] by auto
next
  case (5 a n)
  then show ?case using builds_leaf1 [of m a O_GETSYSVAR n T ob] by (auto simp: expr_case_def)
next
  case (6 a n)
  then show ?case using builds_leaf1 [of m a O_GETLVAR n T ob] by (auto simp: expr_case_def)
next
  case (7 a n)
  then show ?case using builds_leaf1 [of m a O_GETGVAR n T ob] by (auto simp: expr_case_def)
next
  case (8 a p)
  then show ?case using builds_leaf0 [of m a p T ob] by simp
next
  case (9 a p x y)
  then show ?case using builds_bin [of T ob m a "emit a x" _ _ "etext T ob m x"
        "emit (a + length (emit a x)) y" _ _ "etext T ob m y" p] edepth_pos [of y]
    by (simp add: has_append Let_def add.assoc)
next
  case (10 a x y z)
  let ?c = "emit a x"
  let ?d = "emit (a + length ?c) y"
  let ?e = "emit (a + length ?c + length ?d) z"
  have "builds T ob m a (?c @ ?d @ ?e @ [i32_of O_SUBSET])
      (max (edepth x) (max (1 + edepth y) (2 + edepth z))) (ecells x + ecells y + ecells z + 4)
      (\<lambda>br prec. etext T ob m x br 0 @ ''['' @ etext T ob m y br 0 @ ''..'' @ etext T ob m z br 0 @ '']'')"
    using 10 edepth_pos [of z]
    by (intro builds_subset) (simp_all add: has_append Let_def add.assoc)
  then show ?case by (simp add: Let_def)
next
  case (11 a p x)
  then show ?case using builds_un [of T ob m a "emit a x" _ _ "etext T ob m x" p] edepth_pos [of x]
    by (simp add: has_append)
next
  case (12 a x y)
  then show ?case using builds_logic [of T ob m a "emit a x" _ _ "etext T ob m x"
        "emit (a + length (emit a x) + 2) y" _ _ "etext T ob m y" _ _ O_ENDAND 4 "'' && ''"] edepth_pos [of y]
    by (simp add: has_append Let_def add.assoc)
next
  case (13 a x y)
  then show ?case using builds_logic [of T ob m a "emit a x" _ _ "etext T ob m x"
        "emit (a + length (emit a x) + 2) y" _ _ "etext T ob m y" _ _ O_ENDOR 3 "'' || ''"] edepth_pos [of y]
    by (simp add: has_append Let_def add.assoc)
next
  case (14 a es)
  then show ?case using builds_list [of T ob m a "emit_args (a + 1) es" _ _ "map (etext T ob m) es"]
      adepth_length [of es]
    by (simp add: has_append args_text_map comp_def)
next
  case (15 a ps)
  then show ?case
    using builds_map [of T ob m a "emit_pairs a ps" "max 1 (pdepth ps)" _ "pair_fns T ob m ps"]
      builds_all_deeper [of T ob m a _ "pdepth ps" _ _ "max 1 (pdepth ps)"] pdepth_length [of ps]
    by (simp add: has_append pair_fns_text pair_fns_length del: append_Cons append.simps)
next
  case (16 a f es)
  then show ?case using builds_func [of T ob m a "emit_args (a + 1) es" _ _ "map (etext T ob m) es" f]
      adepth_length [of es]
    by (simp add: has_append args_text_map comp_def)
next
  case (17 a es q)
  then obtain par where "nth_opt (o_parents ob) 0 = Some (VOBJ par)"
    by (cases "o_parents ob"; cases "hd (o_parents ob)") (auto simp: nth_opt_def)
  note par = this
  then have p: "o_parents ob ! 0 = VOBJ par" by (simp add: nth_opt_def split: if_splits)
  have "builds T ob m a (i32_of O_ARGSTART # emit_args (a + 1) es @ [i32_of O_PASS, q]) (1 + adepth es)
      (acells es + (length (map (etext T ob m) es) + 3))
      (\<lambda>br prec. ''pass('' @ commas (map (\<lambda>t. t br 0) (map (etext T ob m) es)) @ '')'' @
        (if sint q \<noteq> sint (oid par) then '' to #'' @ num_text (sint q) else []))"
    using 17 adepth_length [of es] by (intro builds_pass [OF _ _ _ _ par]) (simp_all add: has_append)
  then show ?case by (simp add: args_text_map comp_def p add.assoc split del: if_split)
next
  case (18 a x msg es)
  then show ?case using builds_msg [of T ob m a "emit a x" _ _ "etext T ob m x"
        "emit_args (a + length (emit a x) + 1) es" _ _ "map (etext T ob m) es" msg]
      adepth_length [of es] edepth_pos [of x]
    by (auto simp: has_append Let_def add.assoc args_text_map comp_def)
next
  case (19 a x y es)
  then show ?case using builds_msg_expr [of T ob m a "emit a x" _ _ "etext T ob m x"
        "emit (a + length (emit a x)) y" _ _ "etext T ob m y"
        "emit_args (a + length (emit a x) + length (emit (a + length (emit a x)) y) + 1) es" _ _
        "map (etext T ob m) es"] adepth_length [of es] edepth_pos [of y]
    by (simp add: has_append Let_def add.assoc args_text_map comp_def)
next
  case (20 a)
  then show ?case by (simp add: builds_all_nil)
next
  case (21 a e es)
  then show ?case using builds_all_cons [of T ob m a "emit a e" _ _ "etext T ob m e"]
    by (simp add: has_append Let_def)
next
  case (22 a)
  then show ?case by (simp add: builds_all_nil)
next
  case (23 a x y r)
  let ?c = "emit a x" and ?d = "emit (a + length (emit a x)) y"
  have "builds_all T ob m a (?c @ ?d @ emit_pairs (a + length ?c + length ?d) r)
    (max (edepth x) (1 + max (edepth y) (1 + pdepth r))) (ecells x + (ecells y + pcells r))
    (etext T ob m x # etext T ob m y # concat (map (\<lambda>t. [fst t, snd t]) (pair_fns T ob m r)))"
    using 23 by (intro builds_all_cons) (simp_all add: has_append Let_def add.assoc)
  then show ?case by (simp add: Let_def add.assoc)
qed

end
