(* ===== verification/Lines.thy ===== *)
theory Lines
  imports Unparse
begin

text \<open>
  The lines the unparser writes for the statements of a method, and the line it finds for an
  instruction. The listing of a parse tree is a list of lines with their indentation. The marks of
  a tree are the instructions at which the unparser can find a line, each with the number of the
  line it then reports.
\<close>

section \<open>The listing of statements\<close>

type_synonym sline = "int \<times> string"

definition loop_text :: "string \<Rightarrow> i32 \<Rightarrow> string" where
  "loop_text s n = loop_count s (sint n)"

fun stmt_lines :: "servtab \<Rightarrow> object \<Rightarrow> cmethod \<Rightarrow> bool \<Rightarrow> int \<Rightarrow> int \<Rightarrow> stmt \<Rightarrow> sline list"
  and stmts_lines :: "servtab \<Rightarrow> object \<Rightarrow> cmethod \<Rightarrow> bool \<Rightarrow> int \<Rightarrow> int \<Rightarrow> stmt list \<Rightarrow> sline list"
  and elifs_lines :: "servtab \<Rightarrow> object \<Rightarrow> cmethod \<Rightarrow> bool \<Rightarrow> int \<Rightarrow> int \<Rightarrow> elifs \<Rightarrow> sline list" where
  "stmt_lines T ob m br ib d (SIf e ss r) =
     (d, ''if ('' @ expr_text T ob m br 0 e @ '')'') # stmts_lines T ob m br ib (d + ib) ss @
     elifs_lines T ob m br ib d r @ [(d, ''endif'')]"
| "stmt_lines T ob m br ib d (SFor v e ss) =
     (d, ''for '' @ the (local_name ob m (sint v)) @ '' in ('' @ expr_text T ob m br 0 e @ '')'') #
     stmts_lines T ob m br ib (d + ib) ss @ [(d, ''endfor'')]"
| "stmt_lines T ob m br ib d (SForRng v e f ss) =
     (d, ''for '' @ the (local_name ob m (sint v)) @ '' in ['' @ expr_text T ob m br 0 e @ ''..'' @
        expr_text T ob m br 0 f @ '']'') #
     stmts_lines T ob m br ib (d + ib) ss @ [(d, ''endfor'')]"
| "stmt_lines T ob m br ib d (SWhile e ss) =
     (d, ''while ('' @ expr_text T ob m br 0 e @ '')'') #
     stmts_lines T ob m br ib (d + ib) ss @ [(d, ''endwhile'')]"
| "stmt_lines T ob m br ib d (SDo ss e) =
     (d, ''do'') # stmts_lines T ob m br ib (d + ib) ss @
     [(d, ''while ('' @ expr_text T ob m br 0 e @ '');'')]"
| "stmt_lines T ob m br ib d (SAt e ss) =
     (d, ''at ('' @ expr_text T ob m br 0 e @ '')'') #
     stmts_lines T ob m br ib (d + ib) ss @ [(d, ''endat'')]"
| "stmt_lines T ob m br ib d (SExpr e) = [(d, expr_text T ob m br 0 e @ '';'')]"
| "stmt_lines T ob m br ib d (SAsgnL v e) =
     [(d, the (local_name ob m (sint v)) @ '' = '' @ expr_text T ob m br 0 e @ '';'')]"
| "stmt_lines T ob m br ib d (SAsgnG v e) =
     [(d, the (sym_str ob (sint v)) @ '' = '' @ expr_text T ob m br 0 e @ '';'')]"
| "stmt_lines T ob m br ib d (SIndexL v e f) =
     [(d, the (local_name ob m (sint v)) @ ''['' @ expr_text T ob m br 0 e @ ''] = '' @
        expr_text T ob m br 0 f @ '';'')]"
| "stmt_lines T ob m br ib d (SIndexG v e f) =
     [(d, the (sym_str ob (sint v)) @ ''['' @ expr_text T ob m br 0 e @ ''] = '' @
        expr_text T ob m br 0 f @ '';'')]"
| "stmt_lines T ob m br ib d (SPlayer e) = [(d, ''player = '' @ expr_text T ob m br 0 e @ '';'')]"
| "stmt_lines T ob m br ib d (SReturn e) = [(d, ''return '' @ expr_text T ob m br 0 e @ '';'')]"
| "stmt_lines T ob m br ib d SReturn0 = [(d, ''return 0;'')]"
| "stmt_lines T ob m br ib d (SRaise e) = [(d, ''raise '' @ expr_text T ob m br 0 e @ '';'')]"
| "stmt_lines T ob m br ib d (SContinue n) = [(d, loop_text ''continue'' n)]"
| "stmt_lines T ob m br ib d (SBreak n) = [(d, loop_text ''break'' n)]"
| "stmts_lines T ob m br ib d [] = []"
| "stmts_lines T ob m br ib d (s # ss) =
     stmt_lines T ob m br ib d s @ stmts_lines T ob m br ib d ss"
| "elifs_lines T ob m br ib d EndIf = []"
| "elifs_lines T ob m br ib d (Else ss) = (d, ''else'') # stmts_lines T ob m br ib (d + ib) ss"
| "elifs_lines T ob m br ib d (ElseIf e ss r) =
     (d, ''elseif ('' @ expr_text T ob m br 0 e @ '')'') # stmts_lines T ob m br ib (d + ib) ss @
     elifs_lines T ob m br ib d r"

text \<open>The number of lines, which neither the brackets nor the indentation change.\<close>

fun stmt_count :: "stmt \<Rightarrow> int" and stmts_count :: "stmt list \<Rightarrow> int" and elifs_count :: "elifs \<Rightarrow> int" where
  "stmt_count (SIf e ss r) = 2 + stmts_count ss + elifs_count r"
| "stmt_count (SFor v e ss) = 2 + stmts_count ss"
| "stmt_count (SForRng v e f ss) = 2 + stmts_count ss"
| "stmt_count (SWhile e ss) = 2 + stmts_count ss"
| "stmt_count (SDo ss e) = 2 + stmts_count ss"
| "stmt_count (SAt e ss) = 2 + stmts_count ss"
| "stmt_count _ = 1"
| "stmts_count [] = 0"
| "stmts_count (s # ss) = stmt_count s + stmts_count ss"
| "elifs_count EndIf = 0"
| "elifs_count (Else ss) = 1 + stmts_count ss"
| "elifs_count (ElseIf e ss r) = 1 + stmts_count ss + elifs_count r"

lemma lines_count:
  "int (length (stmt_lines T ob m br ib d s)) = stmt_count s"
  "int (length (stmts_lines T ob m br ib d ss)) = stmts_count ss"
  "int (length (elifs_lines T ob m br ib d r)) = elifs_count r"
  by (induction s and ss and r arbitrary: d and d and d rule: stmt_count_stmts_count_elifs_count.induct) auto

definition line_text :: "bool \<Rightarrow> int \<Rightarrow> sline \<Rightarrow> string" where
  "line_text number L l =
     (if number then pad3 (num_text L) @ '':  '' else []) @ replicate (nat (fst l)) CHR '' '' @ snd l @ eol"

fun render :: "bool \<Rightarrow> int \<Rightarrow> sline list \<Rightarrow> string" where
  "render number L [] = []"
| "render number L (l # ls) = line_text number L l @ render number (L + 1) ls"

lemma render_append:
  "render number L (ls @ ks) = render number L ls @ render number (L + int (length ls)) ks"
  by (induction ls arbitrary: L) (simp_all add: algebra_simps)

section \<open>The marks\<close>

text \<open>
  In the order in which the unparser comes by. An instruction of an expression has the mark of
  the instruction that ends its line.
\<close>

fun stmt_marks :: "nat \<Rightarrow> int \<Rightarrow> stmt \<Rightarrow> (nat \<times> int) list"
  and stmts_marks :: "nat \<Rightarrow> int \<Rightarrow> stmt list \<Rightarrow> (nat \<times> int) list"
  and elifs_marks :: "nat \<Rightarrow> int \<Rightarrow> elifs \<Rightarrow> (nat \<times> int) list" where
  "stmt_marks a L (SIf e ss r) =
     (let p = a + length (emit a e); b = p + 3; q = b + length (emit_stmts b ss);
          K = L + 1 + stmts_count ss
      in (p, L) # stmts_marks b (L + 1) ss @ (q, K) # (if r = EndIf then [] else elifs_marks (q + 1) K r))"
| "stmt_marks a L (SFor v e ss) =
     (let p = a + length (emit a e) + 2; b = p + 3
      in (p, L) # stmts_marks b (L + 1) ss @ [(b + length (emit_stmts b ss), L + 1 + stmts_count ss)])"
| "stmt_marks a L (SForRng v e f ss) =
     (let p = a + length (emit a e) + length (emit (a + length (emit a e)) f); b = p + 3
      in (p, L) # stmts_marks b (L + 1) ss @ [(b + length (emit_stmts b ss), L + 1 + stmts_count ss)])"
| "stmt_marks a L (SWhile e ss) =
     (let p = a + 1 + length (emit (a + 1) e); b = p + 2
      in (p, L) # stmts_marks b (L + 1) ss @ [(b + length (emit_stmts b ss), L + 1 + stmts_count ss)])"
| "stmt_marks a L (SDo ss e) =
     (let b = a + 2 + length (emit_stmts (a + 2) ss)
      in (a, L) # stmts_marks (a + 2) (L + 1) ss @ [(b + length (emit b e), L + 1 + stmts_count ss)])"
| "stmt_marks a L (SAt e ss) =
     (let p = a + length (emit a e); b = p + 2
      in (p, L) # stmts_marks b (L + 1) ss @ [(b + length (emit_stmts b ss), L + 1 + stmts_count ss)])"
| "stmt_marks a L (SExpr e) = [(a + length (emit a e), L)]"
| "stmt_marks a L (SAsgnL v e) = [(a + length (emit a e), L)]"
| "stmt_marks a L (SAsgnG v e) = [(a + length (emit a e), L)]"
| "stmt_marks a L (SIndexL v e f) =
     [(a + length (emit a e) + length (emit (a + length (emit a e)) f), L)]"
| "stmt_marks a L (SIndexG v e f) =
     [(a + length (emit a e) + length (emit (a + length (emit a e)) f), L)]"
| "stmt_marks a L (SPlayer e) = [(a + length (emit a e), L)]"
| "stmt_marks a L (SReturn e) = [(a + length (emit a e), L)]"
| "stmt_marks a L SReturn0 = [(a + 2, L)]"
| "stmt_marks a L (SRaise e) = [(a + length (emit a e), L)]"
| "stmt_marks a L (SContinue n) = [(a, L)]"
| "stmt_marks a L (SBreak n) = [(a, L)]"
| "stmts_marks a L [] = []"
| "stmts_marks a L (s # ss) =
     stmt_marks a L s @ stmts_marks (a + length (emit_stmt a s)) (L + stmt_count s) ss"
| "elifs_marks a L EndIf = [(a, L)]"
| "elifs_marks a L (Else ss) =
     (a, L) # stmts_marks (a + 1) (L + 1) ss @
     [(a + 1 + length (emit_stmts (a + 1) ss), L + 1 + stmts_count ss)]"
| "elifs_marks a L (ElseIf e ss r) =
     (let p = a + length (emit a e); b = p + 2; q = b + length (emit_stmts b ss);
          K = L + 1 + stmts_count ss
      in (p, L) # stmts_marks b (L + 1) ss @ (q, K) # elifs_marks (q + 1) K r)"

definition see_mark :: "nat \<times> int \<Rightarrow> dstate \<Rightarrow> dstate" where
  "see_mark p st =
     (if 0 \<le> d_find st \<and> d_find st \<le> int (fst p) then st\<lparr>d_found := snd p, d_find := -1\<rparr> else st)"

abbreviation seen :: "(nat \<times> int) list \<Rightarrow> dstate \<Rightarrow> dstate" where
  "seen ms \<equiv> fold see_mark ms"

text \<open>What statements do to the state: the lines are written and counted, the marks are seen.\<close>

definition wr :: "sline list \<Rightarrow> (nat \<times> int) list \<Rightarrow> dstate \<Rightarrow> dstate" where
  "wr ls ms st = (seen ms st)\<lparr>d_buf := bcat (d_buf st) (render (d_number st) (d_line st) ls),
     d_line := d_line st + int (length ls)\<rparr>"

lemma seen_fields [simp]:
  "d_stack (seen ms st) = d_stack st" "d_sp (seen ms st) = d_sp st" "d_tree (seen ms st) = d_tree st"
  "d_ptr (seen ms st) = d_ptr st" "d_indent (seen ms st) = d_indent st" "d_by (seen ms st) = d_by st"
  "d_brackets (seen ms st) = d_brackets st" "d_line (seen ms st) = d_line st"
  "d_number (seen ms st) = d_number st" "d_buf (seen ms st) = d_buf st"
  by (induction ms arbitrary: st; simp add: see_mark_def)+

lemma see_mark_update:
  "see_mark p (st\<lparr>d_line := l\<rparr>) = (see_mark p st)\<lparr>d_line := l\<rparr>"
  "see_mark p (st\<lparr>d_buf := b\<rparr>) = (see_mark p st)\<lparr>d_buf := b\<rparr>"
  "see_mark p (st\<lparr>d_indent := x\<rparr>) = (see_mark p st)\<lparr>d_indent := x\<rparr>"
  by (simp_all add: see_mark_def)

lemma seen_update [simp]:
  "seen ms (st\<lparr>d_line := l\<rparr>) = (seen ms st)\<lparr>d_line := l\<rparr>"
  "seen ms (st\<lparr>d_buf := b\<rparr>) = (seen ms st)\<lparr>d_buf := b\<rparr>"
  "seen ms (st\<lparr>d_indent := x\<rparr>) = (seen ms st)\<lparr>d_indent := x\<rparr>"
  by (induction ms arbitrary: st; simp add: see_mark_update)+

lemma wr_fields [simp]:
  "d_indent (wr ls ms st) = d_indent st" "d_by (wr ls ms st) = d_by st"
  "d_brackets (wr ls ms st) = d_brackets st" "d_line (wr ls ms st) = d_line st + int (length ls)"
  "d_number (wr ls ms st) = d_number st"
  by (simp_all add: wr_def)

lemma wr_wr: "wr ks ns (wr ls ms st) = wr (ls @ ks) (ms @ ns) st"
  by (simp add: wr_def render_append add.assoc)

lemma wr_indent: "wr ls ms (st\<lparr>d_indent := x\<rparr>) = (wr ls ms st)\<lparr>d_indent := x\<rparr>"
  by (simp add: wr_def)

lemma wr_nil [simp]: "wr [] [] st = st"
  by (simp add: wr_def)

lemma see_wr: "see (int i) st = wr [] [(i, d_line st)] st"
  by (simp add: see_def wr_def see_mark_def)

section \<open>Lines of one expression\<close>

lemma lay_wr: "wr ls ms (lay st S X V R) = lay (wr ls ms st) S X V R"
proof -
  have m: "see_mark p (lay st S X V R) = lay (see_mark p st) S X V R" for p st
    by (simp add: see_mark_def lay_def)
  have "seen ms (lay st S X V R) = lay (seen ms st) S X V R"
    by (induction ms arbitrary: st) (simp_all add: m)
  then show ?thesis by (simp add: wr_def lay_def)
qed

lemma see_lay_mark: "see (int i) (lay st S X V R) = lay (wr [] [(i, d_line st)] st) S X V R"
  by (simp add: see_wr lay_wr)

lemma string_indent_cat_ok:
  "0 \<le> n \<Longrightarrow> string_indent_cat b n s = Some (bcat b (replicate (nat n) CHR '' '' @ s))"
  by (cases b) (simp_all add: string_indent_cat_def bcat_some_def)

text \<open>A line that has begun, before it is ended.\<close>

definition begun :: "int \<Rightarrow> string \<Rightarrow> dstate \<Rightarrow> dstate" where
  "begun d s st = st\<lparr>d_buf := bcat (d_buf st)
     ((if d_number st then pad3 (num_text (d_line st)) @ '':  '' else []) @
      replicate (nat d) CHR '' '' @ s)\<rparr>"

lemma line_start_lay:
  "0 \<le> d \<Longrightarrow> line_start d s (lay st S X V R) = Some (lay (begun d s st) S X V R)"
  by (simp add: line_start_def string_indent_cat_ok put_def begun_def lay_def)

lemma begun_put: "begun d s st\<lparr>d_buf := bcat (d_buf (begun d s st)) t\<rparr> = begun d (s @ t) st"
  by (simp add: begun_def)

lemma begun_fields [simp]: "d_brackets (begun d s st) = d_brackets st"
  by (simp add: begun_def)

lemma begun_end: "(begun d (s @ eol) st)\<lparr>d_line := d_line st + 1\<rparr> = wr [(d, s)] [] st"
  by (simp add: begun_def wr_def line_text_def)

lemma put_expr_lay:
  assumes "prints T ob m V r k t" "k < MAX_TREE"
  shows "put_expr T ob m r (lay (begun d s st) S X (V @ W) R) =
    Some (lay (begun d (s @ t (d_brackets st) 0) st) S X (V @ W) R)"
proof -
  have "decompile_expr EXPR_FUEL T ob m (lay (begun d s st) S X (V @ W) R) r 0 b =
      Some (bcat b (t (d_brackets st) 0))" for b
    using assms(2) printsD [OF assms(1), of "lay (begun d s st) S X (V @ W) R" "W @ R" EXPR_FUEL 0 b]
    by (simp add: EXPR_FUEL_def)
  then show ?thesis by (simp add: put_expr_def begun_def lay_def)
qed

lemma put_popped_lay:
  assumes "prints T ob m V r k t" "k < MAX_TREE" "length S + 1 < MAX_TSTACK"
  shows "put_popped T ob m (lay (begun d s st) (S @ [r]) X (V @ W) R) =
    Some (lay (begun d (s @ t (d_brackets st) 0) st) S (r # X) (V @ W) R)"
  using assms(3) by (simp add: put_popped_def tpop_lay put_expr_lay [OF assms(1,2)])

lemma end_line_lay:
  "(put (t @ eol) (lay (begun d s st) S X V R))
     \<lparr>d_ptr := 0, d_line := d_line (put (t @ eol) (lay (begun d s st) S X V R)) + 1\<rparr> =
   lay (wr [(d, s @ t)] [] st) S X [] (V @ R)"
proof -
  have "(put (t @ eol) (lay (begun d s st) S X V R))
       \<lparr>d_ptr := 0, d_line := d_line (put (t @ eol) (lay (begun d s st) S X V R)) + 1\<rparr> =
     lay ((begun d ((s @ t) @ eol) st)\<lparr>d_line := d_line st + 1\<rparr>) S X [] (V @ R)"
    by (simp add: put_def lay_def begun_def)
  then show ?thesis by (simp only: begun_end)
qed

lemma line_expr_lay:
  assumes "prints T ob m V r k t" "k < MAX_TREE" "0 \<le> d"
  shows "line_expr T ob m d h e (lay st [r] X V R) =
    Some (lay (wr [(d, h @ t (d_brackets st) 0 @ e)] [] st) [] (r # X) [] (V @ R))"
  using line_start_lay [OF assms(3), of h st "[r]" X V R]
    put_popped_lay [OF assms(1,2), of "[]" d h st X "[]" R]
  by (simp add: line_expr_def end_line_lay MAX_TSTACK_def)

lemma line_expr2_lay:
  assumes "prints_all T ob m V rs k [t1, t2]" "k < MAX_TREE" "0 \<le> d"
  shows "line_expr2 T ob m d h b e (lay st rs X V R) =
    Some (lay (wr [(d, h @ t1 (d_brackets st) 0 @ b @ t2 (d_brackets st) 0 @ e)] [] st) [] (rs @ X) [] (V @ R))"
proof -
  from assms(1) obtain r q where r: "rs = [] @ [r] @ [q]" "prints T ob m V r k t1" "prints T ob m V q k t2"
    by (auto simp: prints_all_def list_all2_Cons2)
  have p: "tpop (lay (begun d h st) ([r] @ [q]) X V R) = Some (q, lay (begun d h st) [r] (q # X) V R)"
    by (rule tpop_lay) (simp add: MAX_TSTACK_def)
  have "put b (lay (begun d (h @ t1 (d_brackets st) 0) st) [] (r # q # X) V R) =
      lay (begun d (h @ t1 (d_brackets st) 0 @ b) st) [] (r # q # X) V R"
    by (simp add: put_def begun_def lay_def)
  moreover have "put_popped T ob m (lay (begun d h st) [r] (q # X) V R) =
      Some (lay (begun d (h @ t1 (d_brackets st) 0) st) [] (r # q # X) V R)"
    using put_popped_lay [OF r(2) assms(2), of "[]" d h st "q # X" "[]" R] by (simp add: MAX_TSTACK_def)
  moreover have "put_expr T ob m q (lay (begun d (h @ t1 (d_brackets st) 0 @ b) st) [] (r # q # X) V R) =
      Some (lay (begun d (h @ t1 (d_brackets st) 0 @ b @ t2 (d_brackets st) 0) st) [] (r # q # X) V R)"
    using put_expr_lay [OF r(3) assms(2), of d "h @ t1 (d_brackets st) 0 @ b" st "[]" "r # q # X" "[]" R]
    by simp
  ultimately show ?thesis
    using line_start_lay [OF assms(3), of h st "[r, q]" X V R] p r(1)
    by (simp add: line_expr2_def end_line_lay)
qed

lemma line_plain_lay:
  assumes "0 \<le> d"
  shows "line_plain d s (lay st S X V R) = Some (lay (wr [(d, s)] [] st) S X V R)"
proof -
  have "next_line (lay (begun d (s @ eol) st) S X V R) =
      lay ((begun d (s @ eol) st)\<lparr>d_line := d_line st + 1\<rparr>) S X V R"
    by (simp add: lay_def begun_def)
  then show ?thesis by (simp add: line_plain_def line_start_lay [OF assms] begun_end)
qed

section \<open>More fuel\<close>

definition le_opt :: "'a option \<Rightarrow> 'a option \<Rightarrow> bool" where
  "le_opt x y \<longleftrightarrow> (\<forall>r. x = Some r \<longrightarrow> y = Some r)"

lemma le_opt_intros:
  "le_opt x x"
  "le_opt x y \<Longrightarrow> (\<And>a. le_opt (f a) (g a)) \<Longrightarrow> le_opt (Option.bind x f) (Option.bind y g)"
  "le_opt x y \<Longrightarrow> le_opt x' y' \<Longrightarrow> le_opt (if c then x else x') (if c then y else y')"
  by (auto simp: le_opt_def split: bind_splits)

lemma le_opt_prod: "(\<And>a b. le_opt (f a b) (g a b)) \<Longrightarrow> le_opt (case_prod f p) (case_prod g p)"
  by (cases p) simp

lemma decompile_stmts_Suc:
  "le_opt (decompile_stmts n T ob m i st) (decompile_stmts (Suc n) T ob m i st)"
proof (induction n arbitrary: i st)
  case (Suc n)
  show ?case
    by (subst (1 2) decompile_stmts.simps(2))
      (unfold Let_def, (intro le_opt_intros le_opt_prod Suc.IH)+)
qed (simp add: le_opt_def)

lemma decompile_stmts_mono:
  assumes "decompile_stmts n T ob m i st = Some r" "n \<le> n'"
  shows "decompile_stmts n' T ob m i st = Some r"
  using assms(2,1)
  by (induction n' rule: dec_induct)
    (use decompile_stmts_Suc [unfolded le_opt_def] in \<open>blast+\<close>)

section \<open>From one statement to the next\<close>

text \<open>
  \<open>leads T ob m i st j st'\<close>: whatever the unparser returns from \<open>j\<close> and \<open>st'\<close> it returns from
  \<open>i\<close> and \<open>st\<close>, with one more unit of fuel for every instruction between.
\<close>

definition leads :: "servtab \<Rightarrow> object \<Rightarrow> cmethod \<Rightarrow> nat \<Rightarrow> dstate \<Rightarrow> nat \<Rightarrow> dstate \<Rightarrow> bool" where
  "leads T ob m i st j st' \<longleftrightarrow> i \<le> j \<and>
     (\<forall>n r. decompile_stmts (Suc n) T ob m (int j) st' = Some r \<longrightarrow>
        decompile_stmts (j - i + Suc n) T ob m (int i) st = Some r)"

lemma leads_refl: "leads T ob m i st i st"
  by (simp add: leads_def del: decompile_stmts.simps)

lemma leads_le: "leads T ob m i st j st' \<Longrightarrow> i \<le> j"
  by (simp add: leads_def)

lemma leadsD:
  assumes "leads T ob m i st j st'" "decompile_stmts (Suc n) T ob m (int j) st' = Some r" "j - i + Suc n \<le> n'"
  shows "decompile_stmts n' T ob m (int i) st = Some r"
proof -
  have "decompile_stmts (j - i + Suc n) T ob m (int i) st = Some r"
    using assms(1,2) unfolding leads_def by blast
  then show ?thesis using assms(3) by (rule decompile_stmts_mono)
qed

lemma leads_trans:
  assumes "leads T ob m i st j st'" "leads T ob m j st' k st''"
  shows "leads T ob m i st k st''"
  unfolding leads_def
proof (intro conjI allI impI)
  have o: "i \<le> j" "j \<le> k" using assms leads_le by blast+
  then show "i \<le> k" by simp
  fix n r assume "decompile_stmts (Suc n) T ob m (int k) st'' = Some r"
  from leadsD [OF assms(2) this, of "Suc (k - j + n)"]
  have "decompile_stmts (Suc (k - j + n)) T ob m (int j) st' = Some r" by simp
  from leadsD [OF assms(1) this, of "k - i + Suc n"] o
  show "decompile_stmts (k - i + Suc n) T ob m (int i) st = Some r" by simp
qed

lemma runs_leads:
  assumes "runs T ob m i st j st'"
  shows "leads T ob m i st j st'"
  unfolding leads_def
proof (intro conjI allI impI)
  from assms obtain k where k: "i + k \<le> j"
    "\<And>n. decompile_stmts (k + Suc n) T ob m (int i) st = decompile_stmts (Suc n) T ob m (int j) st'"
    unfolding runs_def by blast
  then show "i \<le> j" by simp
  fix n r assume "decompile_stmts (Suc n) T ob m (int j) st' = Some r"
  with k(2) have "decompile_stmts (k + Suc n) T ob m (int i) st = Some r" by simp
  then show "decompile_stmts (j - i + Suc n) T ob m (int i) st = Some r"
    by (rule decompile_stmts_mono) (use k(1) in simp)
qed

text \<open>\<open>ends\<close>: the unparser returns \<open>st'\<close>, with the fuel to pass the given number of instructions.\<close>

definition ends :: "servtab \<Rightarrow> object \<Rightarrow> cmethod \<Rightarrow> nat \<Rightarrow> dstate \<Rightarrow> nat \<Rightarrow> dstate \<Rightarrow> bool" where
  "ends T ob m i st len st' \<longleftrightarrow>
     (\<forall>n. len \<le> n \<longrightarrow> decompile_stmts n T ob m (int i) st = Some st')"

lemma leads_stop:
  assumes "leads T ob m i st j st'" "has m j (c # xs)" "sint c = O_STOP"
  shows "ends T ob m i st (Suc (j - i)) (see (int j) st')"
  unfolding ends_def
proof (intro allI impI)
  fix n assume n: "Suc (j - i) \<le> n"
  have "inst_at m (int j) = Some O_STOP" using has_code_at [OF assms(2), of 0] assms(3) by simp
  then have "decompile_stmts (Suc 0) T ob m (int j) st' = Some (see (int j) st')"
    by (simp add: Let_def)
  from leadsD [OF assms(1) this, of n] n
  show "decompile_stmts n T ob m (int i) st = Some (see (int j) st')" by simp
qed

lemma leads_ends:
  assumes "leads T ob m i st j st'" "ends T ob m j st' len st''" "0 < len"
  shows "ends T ob m i st (j - i + len) st''"
  unfolding ends_def
proof (intro allI impI)
  fix n assume n: "j - i + len \<le> n"
  obtain l where l: "len = Suc l" using assms(3) by (cases len) auto
  with assms(2) have "decompile_stmts (Suc l) T ob m (int j) st' = Some st''"
    by (simp add: ends_def del: decompile_stmts.simps)
  from leadsD [OF assms(1) this, of n] n l
  show "decompile_stmts n T ob m (int i) st = Some st''" by simp
qed

text \<open>One instruction that ends a line and has no statements inside.\<close>

lemma leads_line:
  assumes "has m i (c # xs)" "sint c = opc" "line_step T ob m opc (int i) (see (int i) st) = Some (Some (st', int j))"
    "opc \<notin> {O_STOP, O_IF, O_ELSEIF, O_FOR, O_FORRNG, O_WHILE, O_AT}" "i < j"
  shows "leads T ob m i st j st'"
  unfolding leads_def
proof (intro conjI allI impI)
  have c: "inst_at m (int i) = Some opc" using has_code_at [OF assms(1), of 0] assms(2) by simp
  fix n r assume "decompile_stmts (Suc n) T ob m (int j) st' = Some r"
  then have "decompile_stmts (Suc (Suc n)) T ob m (int i) st = Some r"
    using assms(3,4) c by (subst decompile_stmts.simps) (simp add: Let_def del: decompile_stmts.simps)
  then show "decompile_stmts (j - i + Suc n) T ob m (int i) st = Some r"
    by (rule decompile_stmts_mono) (use assms(5) in simp)
qed (use assms(5) in simp)

section \<open>Statements at the boundary\<close>

text \<open>
  Between statements both counters are 0. \<open>goes\<close> and \<open>halts\<close> speak of the other fields; what
  the arrays hold does not matter then.
\<close>

definition goes :: "servtab \<Rightarrow> object \<Rightarrow> cmethod \<Rightarrow> nat \<Rightarrow> dstate \<Rightarrow> nat \<Rightarrow> dstate \<Rightarrow> bool" where
  "goes T ob m i st j st' \<longleftrightarrow>
     (\<forall>X R. length X = MAX_TSTACK \<longrightarrow> length R = MAX_TREE \<longrightarrow>
        (\<exists>X' R'. length X' = MAX_TSTACK \<and> length R' = MAX_TREE \<and>
           leads T ob m i (lay st [] X [] R) j (lay st' [] X' [] R')))"

definition halts :: "servtab \<Rightarrow> object \<Rightarrow> cmethod \<Rightarrow> nat \<Rightarrow> dstate \<Rightarrow> nat \<Rightarrow> dstate \<Rightarrow> bool" where
  "halts T ob m i st len st' \<longleftrightarrow>
     (\<forall>X R. length X = MAX_TSTACK \<longrightarrow> length R = MAX_TREE \<longrightarrow>
        (\<exists>X' R'. length X' = MAX_TSTACK \<and> length R' = MAX_TREE \<and>
           ends T ob m i (lay st [] X [] R) len (lay st' [] X' [] R')))"

lemma goes_refl: "goes T ob m i st i st"
  using leads_refl by (fastforce simp: goes_def)

lemma goes_trans:
  assumes "goes T ob m i st j st'" "goes T ob m j st' k st''"
  shows "goes T ob m i st k st''"
  unfolding goes_def
proof (intro allI impI)
  fix X R :: "inst list"
  assume l: "length X = MAX_TSTACK" "length R = MAX_TREE"
  with assms(1) obtain Y Q where y: "length Y = MAX_TSTACK" "length Q = MAX_TREE"
    "leads T ob m i (lay st [] X [] R) j (lay st' [] Y [] Q)" unfolding goes_def by blast
  with assms(2) obtain Z P where "length Z = MAX_TSTACK" "length P = MAX_TREE"
    "leads T ob m j (lay st' [] Y [] Q) k (lay st'' [] Z [] P)" unfolding goes_def by blast
  with leads_trans [OF y(3)] show "\<exists>X' R'. length X' = MAX_TSTACK \<and> length R' = MAX_TREE \<and>
      leads T ob m i (lay st [] X [] R) k (lay st'' [] X' [] R')" by blast
qed

lemma goes_stop:
  assumes "goes T ob m i st j st'" "has m j (i32_of O_STOP # xs)"
  shows "halts T ob m i st (Suc (j - i)) (wr [] [(j, d_line st')] st')"
  unfolding halts_def
proof (intro allI impI)
  fix X R :: "inst list"
  assume "length X = MAX_TSTACK" "length R = MAX_TREE"
  with assms(1) obtain Y Q where y: "length Y = MAX_TSTACK" "length Q = MAX_TREE"
    "leads T ob m i (lay st [] X [] R) j (lay st' [] Y [] Q)" unfolding goes_def by blast
  have "ends T ob m i (lay st [] X [] R) (Suc (j - i)) (lay (wr [] [(j, d_line st')] st') [] Y [] Q)"
    using leads_stop [OF y(3) assms(2)] by (simp add: see_lay_mark)
  with y show "\<exists>X' R'. length X' = MAX_TSTACK \<and> length R' = MAX_TREE \<and>
      ends T ob m i (lay st [] X [] R) (Suc (j - i)) (lay (wr [] [(j, d_line st')] st') [] X' [] R')" by blast
qed

lemma halts_len: "halts T ob m i st len st' \<Longrightarrow> len \<le> len' \<Longrightarrow> halts T ob m i st len' st'"
  unfolding halts_def ends_def by (meson order_trans)

lemma goes_halts:
  assumes "goes T ob m i st j st'" "halts T ob m j st' len st''" "0 < len"
  shows "halts T ob m i st (j - i + len) st''"
  unfolding halts_def
proof (intro allI impI)
  fix X R :: "inst list"
  assume "length X = MAX_TSTACK" "length R = MAX_TREE"
  with assms(1) obtain Y Q where y: "length Y = MAX_TSTACK" "length Q = MAX_TREE"
    "leads T ob m i (lay st [] X [] R) j (lay st' [] Y [] Q)" unfolding goes_def by blast
  with assms(2) obtain Z P where "length Z = MAX_TSTACK" "length P = MAX_TREE"
    "ends T ob m j (lay st' [] Y [] Q) len (lay st'' [] Z [] P)" unfolding halts_def by blast
  with leads_ends [OF y(3) _ assms(3)] show "\<exists>X' R'. length X' = MAX_TSTACK \<and> length R' = MAX_TREE \<and>
      ends T ob m i (lay st [] X [] R) (j - i + len) (lay st'' [] X' [] R')" by blast
qed

definition ok1 :: "servtab \<Rightarrow> object \<Rightarrow> cmethod \<Rightarrow> expr \<Rightarrow> bool" where
  "ok1 T ob m e \<longleftrightarrow> wf_expr T ob m e \<and> edepth e < MAX_TSTACK \<and> ecells e < MAX_TREE"

definition ok2 :: "servtab \<Rightarrow> object \<Rightarrow> cmethod \<Rightarrow> expr \<Rightarrow> expr \<Rightarrow> bool" where
  "ok2 T ob m e f \<longleftrightarrow> wf_expr T ob m e \<and> wf_expr T ob m f \<and>
     max (edepth e) (1 + edepth f) < MAX_TSTACK \<and> ecells e + ecells f < MAX_TREE"

lemma expr_leads:
  assumes "ok1 T ob m e" "has m a (emit a e)" "length X = MAX_TSTACK" "length R = MAX_TREE"
  obtains r X' V R' where "leads T ob m a (lay st [] X [] R) (a + length (emit a e)) (lay st [r] X' V R')"
    "1 + length X' = MAX_TSTACK" "length V + length R' = MAX_TREE"
    "prints T ob m V r (ecells e) (etext T ob m e)"
proof -
  have "builds T ob m a (emit a e) (edepth e) (ecells e) (etext T ob m e)"
    using assms by (intro builds_expr(1)) (simp_all add: ok1_def)
  then obtain r X' N where
    "runs T ob m a (lay st [] X [] R) (a + length (emit a e)) (lay st ([] @ [r]) X' ([] @ N) (drop (ecells e) R))"
    "length ([] :: inst list) + 1 + length X' = MAX_TSTACK" "length N = ecells e"
    "prints T ob m ([] @ N) r (ecells e) (etext T ob m e)"
    by (rule buildsD [of _ _ _ _ _ _ _ _ "[]" X "[]" R]) (use assms in \<open>auto simp: ok1_def\<close>)
  with that [of r X' N "drop (ecells e) R"] assms runs_leads show ?thesis by (auto simp: ok1_def)
qed

lemma expr2_leads:
  assumes "ok2 T ob m e f" "has m a (emit a e)" "has m (a + length (emit a e)) (emit (a + length (emit a e)) f)"
    "length X = MAX_TSTACK" "length R = MAX_TREE"
  obtains rs X' V R' where "leads T ob m a (lay st [] X [] R)
      (a + length (emit a e) + length (emit (a + length (emit a e)) f)) (lay st rs X' V R')"
    "length rs + length X' = MAX_TSTACK" "length V + length R' = MAX_TREE"
    "prints_all T ob m V rs (ecells e + ecells f) [etext T ob m e, etext T ob m f]"
proof -
  let ?c = "emit a e"
  let ?d = "emit (a + length ?c) f"
  have "builds_all T ob m a (?c @ ?d) (max (edepth e) (1 + edepth f)) (ecells e + ecells f)
      [etext T ob m e, etext T ob m f]"
    using assms edepth_pos [of f] by (intro builds_two builds_expr(1)) (simp_all add: ok2_def)
  then obtain rs X' N where
    "runs T ob m a (lay st [] X [] R) (a + length (?c @ ?d))
       (lay st ([] @ rs) X' ([] @ N) (drop (ecells e + ecells f) R))"
    "length ([] :: inst list) + length rs + length X' = MAX_TSTACK" "length N = ecells e + ecells f"
    "prints_all T ob m ([] @ N) rs (ecells e + ecells f) [etext T ob m e, etext T ob m f]"
    by (rule builds_allD [of _ _ _ _ _ _ _ _ "[]" X "[]" R]) (use assms in \<open>auto simp: ok2_def\<close>)
  with that [of rs X' N "drop (ecells e + ecells f) R"] assms runs_leads show ?thesis
    by (auto simp: ok2_def add.assoc)
qed

section \<open>Statements without statements inside\<close>

definition block_ops :: "int set" where
  "block_ops = {O_STOP, O_IF, O_ELSEIF, O_FOR, O_FORRNG, O_WHILE, O_AT}"

lemma goesI:
  assumes "\<And>X R. length X = MAX_TSTACK \<Longrightarrow> length R = MAX_TREE \<Longrightarrow>
    \<exists>X' R'. length X' = MAX_TSTACK \<and> length R' = MAX_TREE \<and>
      leads T ob m i (lay st [] X [] R) j (lay st' [] X' [] R')"
  shows "goes T ob m i st j st'"
  using assms unfolding goes_def by blast

lemma goes_line1:
  assumes "ok1 T ob m e" "has m a (emit a e)" "p = a + length (emit a e)" "has m p (c # xs)"
    "sint c = opc" "opc \<notin> block_ops" "p < j" "0 \<le> d_indent st"
    "\<And>st X V R r. line_step T ob m opc (int p) (lay st [r] X V R) =
       Some (map_option (\<lambda>st. (st, int j)) (line_expr T ob m (d_indent st) h t (lay st [r] X V R)))"
  shows "goes T ob m a st j
    (wr [(d_indent st, h @ expr_text T ob m (d_brackets st) 0 e @ t)] [(p, d_line st)] st)"
proof (rule goesI)
  fix X R :: "inst list"
  assume l: "length X = MAX_TSTACK" "length R = MAX_TREE"
  obtain r Y V Q where e: "leads T ob m a (lay st [] X [] R) p (lay st [r] Y V Q)"
    "1 + length Y = MAX_TSTACK" "length V + length Q = MAX_TREE"
    "prints T ob m V r (ecells e) (etext T ob m e)"
    unfolding assms(3) by (rule expr_leads [OF assms(1,2) l]) blast
  let ?st = "wr [] [(p, d_line st)] st"
  have "line_expr T ob m (d_indent ?st) h t (lay ?st [r] Y V Q) =
      Some (lay (wr [(d_indent ?st, h @ expr_text T ob m (d_brackets ?st) 0 e @ t)] [] ?st) [] (r # Y) [] (V @ Q))"
    using assms(1,8) by (intro line_expr_lay [OF e(4)]) (simp_all add: ok1_def)
  then have "leads T ob m p (lay st [r] Y V Q) j
      (lay (wr [(d_indent st, h @ expr_text T ob m (d_brackets st) 0 e @ t)] [(p, d_line st)] st)
        [] (r # Y) [] (V @ Q))"
    using assms(6,7,9)
    by (intro leads_line [OF assms(4,5)]) (simp_all add: see_lay_mark wr_wr block_ops_def)
  with leads_trans [OF e(1)] e(2,3)
  show "\<exists>X' R'. length X' = MAX_TSTACK \<and> length R' = MAX_TREE \<and> leads T ob m a (lay st [] X [] R) j
      (lay (wr [(d_indent st, h @ expr_text T ob m (d_brackets st) 0 e @ t)] [(p, d_line st)] st) [] X' [] R')"
    by (intro exI [of _ "r # Y"] exI [of _ "V @ Q"]) simp
qed

lemma goes_line2:
  assumes "ok2 T ob m e f" "has m a (emit a e)" "q = a + length (emit a e)" "has m q (emit q f)"
    "p = q + length (emit q f)" "has m p (c # xs)" "sint c = opc" "opc \<notin> block_ops" "p < j"
    "0 \<le> d_indent st"
    "\<And>st X V R rs. line_step T ob m opc (int p) (lay st rs X V R) =
       Some (map_option (\<lambda>st. (st, int j)) (line_expr2 T ob m (d_indent st) h b t (lay st rs X V R)))"
  shows "goes T ob m a st j
    (wr [(d_indent st, h @ expr_text T ob m (d_brackets st) 0 e @ b @
        expr_text T ob m (d_brackets st) 0 f @ t)] [(p, d_line st)] st)"
proof (rule goesI)
  fix X R :: "inst list"
  assume l: "length X = MAX_TSTACK" "length R = MAX_TREE"
  obtain rs Y V Q where e: "leads T ob m a (lay st [] X [] R) p (lay st rs Y V Q)"
    "length rs + length Y = MAX_TSTACK" "length V + length Q = MAX_TREE"
    "prints_all T ob m V rs (ecells e + ecells f) [etext T ob m e, etext T ob m f]"
    unfolding assms(5,3) by (rule expr2_leads [OF assms(1,2) _ l]) (use assms(3,4) in auto)
  let ?st = "wr [] [(p, d_line st)] st"
  have "line_expr2 T ob m (d_indent ?st) h b t (lay ?st rs Y V Q) =
      Some (lay (wr [(d_indent ?st, h @ expr_text T ob m (d_brackets ?st) 0 e @ b @
        expr_text T ob m (d_brackets ?st) 0 f @ t)] [] ?st) [] (rs @ Y) [] (V @ Q))"
    using assms(1,10) by (intro line_expr2_lay [OF e(4)]) (simp_all add: ok2_def)
  then have "leads T ob m p (lay st rs Y V Q) j
      (lay (wr [(d_indent st, h @ expr_text T ob m (d_brackets st) 0 e @ b @
        expr_text T ob m (d_brackets st) 0 f @ t)] [(p, d_line st)] st) [] (rs @ Y) [] (V @ Q))"
    using assms(8,9,11)
    by (intro leads_line [OF assms(6,7)]) (simp_all add: see_lay_mark wr_wr block_ops_def)
  with leads_trans [OF e(1)] e(2,3)
  show "\<exists>X' R'. length X' = MAX_TSTACK \<and> length R' = MAX_TREE \<and> leads T ob m a (lay st [] X [] R) j
      (lay (wr [(d_indent st, h @ expr_text T ob m (d_brackets st) 0 e @ b @
        expr_text T ob m (d_brackets st) 0 f @ t)] [(p, d_line st)] st) [] X' [] R')"
    by (intro exI [of _ "rs @ Y"] exI [of _ "V @ Q"]) simp
qed

lemma goes_plain:
  assumes "has m p (c # xs)" "sint c = opc" "opc \<notin> block_ops" "p < j" "0 \<le> d"
    "\<And>X R. line_step T ob m opc (int p) (lay (wr [] [(p, d_line st)] st) [] X [] R) = Some (map_option
       (\<lambda>st. (f st, int j)) (line_plain d s (lay (wr [] [(p, d_line st)] st) [] X [] R)))"
    "\<And>st X R. f (lay st [] X [] R) = lay (f st) [] X [] R"
  shows "goes T ob m p st j (f (wr [(d, s)] [(p, d_line st)] st))"
proof (rule goesI)
  fix X R :: "inst list"
  assume l: "length X = MAX_TSTACK" "length R = MAX_TREE"
  let ?st = "wr [] [(p, d_line st)] st"
  have "line_plain d s (lay ?st [] X [] R) = Some (lay (wr [(d, s)] [] ?st) [] X [] R)"
    by (rule line_plain_lay [OF assms(5)])
  then have "leads T ob m p (lay st [] X [] R) j (lay (f (wr [(d, s)] [(p, d_line st)] st)) [] X [] R)"
    using assms(3,4,6,7)
    by (intro leads_line [OF assms(1,2)]) (simp_all add: see_lay_mark wr_wr block_ops_def)
  with l show "\<exists>X' R'. length X' = MAX_TSTACK \<and> length R' = MAX_TREE \<and> leads T ob m p (lay st [] X [] R) j
      (lay (f (wr [(d, s)] [(p, d_line st)] st)) [] X' [] R')" by blast
qed

section \<open>Blocks\<close>

abbreviation inner :: "dstate \<Rightarrow> dstate" where
  "inner st \<equiv> st\<lparr>d_indent := d_indent st + d_by st\<rparr>"

lemma same_indent: "x = d_indent st \<Longrightarrow> st\<lparr>d_indent := x\<rparr> = st"
  by (cases st) simp

lemma lay_indent: "(lay st S X V R)\<lparr>d_indent := x\<rparr> = lay (st\<lparr>d_indent := x\<rparr>) S X V R"
  by (simp add: lay_def)

text \<open>The loops and \<open>at\<close>: a line that begins the block, its statements, the line that ends it.\<close>

lemma leads_loop:
  assumes "\<And>n. decompile_stmts (Suc n) T ob m (int p) st = do {
      st \<leftarrow> H;
      st \<leftarrow> decompile_stmts n T ob m (int b) (indent_more st);
      st \<leftarrow> line_plain (d_indent (indent_less st)) s (indent_less st);
      j \<leftarrow> inst_at m k;
      decompile_stmts n T ob m j st }"
    "H = Some (lay st1 [] X [] R)" "length X = MAX_TSTACK" "length R = MAX_TREE"
    "halts T ob m b (inner st1) len (inner st2)" "0 \<le> d_indent st2"
    "inst_at m k = Some (int j)" "p < j" "len \<le> j - p"
  shows "\<exists>X' R'. length X' = MAX_TSTACK \<and> length R' = MAX_TREE \<and>
    leads T ob m p st j (lay (wr [(d_indent st2, s)] [] st2) [] X' [] R')"
proof -
  from assms(3,4,5) obtain X' R' where l: "length X' = MAX_TSTACK" "length R' = MAX_TREE"
    and e: "ends T ob m b (lay (inner st1) [] X [] R) len (lay (inner st2) [] X' [] R')"
    unfolding halts_def by blast
  have less: "indent_less (lay (inner st2) [] X' [] R') = lay st2 [] X' [] R'"
    by (cases st2) (simp add: lay_def)
  have "leads T ob m p st j (lay (wr [(d_indent st2, s)] [] st2) [] X' [] R')"
    unfolding leads_def
  proof (intro conjI allI impI)
    fix n r
    assume d: "decompile_stmts (Suc n) T ob m (int j) (lay (wr [(d_indent st2, s)] [] st2) [] X' [] R') = Some r"
    let ?n = "j - p + n"
    have "decompile_stmts ?n T ob m (int j) (lay (wr [(d_indent st2, s)] [] st2) [] X' [] R') = Some r"
      using d by (rule decompile_stmts_mono) (use assms(8) in simp)
    moreover have "decompile_stmts ?n T ob m (int b) (lay (inner st1) [] X [] R) =
        Some (lay (inner st2) [] X' [] R')"
      using e assms(9) by (simp add: ends_def)
    ultimately have "decompile_stmts (Suc ?n) T ob m (int p) st = Some r"
      unfolding assms(1) assms(2)
      by (simp add: lay_indent less assms(7) line_plain_lay [OF assms(6)] del: decompile_stmts.simps)
    then show "decompile_stmts (j - p + Suc n) T ob m (int p) st = Some r" by simp
  qed (use assms(8) in simp)
  with l show ?thesis by blast
qed

text \<open>Jump targets are inside the code, whose length an \<open>int\<close> holds.\<close>

lemma has_le: "has m i xs \<Longrightarrow> xs \<noteq> [] \<Longrightarrow> i + length xs \<le> length (m_code m)"
proof (induction m i xs rule: has.induct)
  case (2 m i x xs)
  then show ?case by (cases xs) auto
qed simp

lemma code_at_target:
  assumes "has m i xs" "k < length xs" "xs ! k = of_nat j" "j < 2 ^ 31"
  shows "inst_at m (int i + int k) = Some (int j)"
  using has_code_at [OF assms(1,2)] assms(3,4) sint_i32_of [of "int j"] by simp

lemma bind_map: "Option.bind x (\<lambda>a. Some (f a)) = map_option f x"
  by (cases x) auto

lemma goes_loop1:
  assumes "ok1 T ob m e" "has m a (emit a e)" "p = a + length (emit a e)" "0 \<le> d_indent st"
    "\<And>n st. decompile_stmts (Suc n) T ob m (int p) st = do {
      st \<leftarrow> line_expr T ob m (d_indent (see (int p) st)) h t (see (int p) st);
      st \<leftarrow> decompile_stmts n T ob m (int b) (indent_more st);
      st \<leftarrow> line_plain (d_indent (indent_less st)) s (indent_less st);
      j \<leftarrow> inst_at m k;
      decompile_stmts n T ob m j st }"
    "halts T ob m b (inner (wr [(d_indent st, h @ expr_text T ob m (d_brackets st) 0 e @ t)]
       [(p, d_line st)] st)) len (inner (wr ls ms st))"
    "inst_at m k = Some (int j)" "p < j" "len \<le> j - p"
  shows "goes T ob m a st j (wr (ls @ [(d_indent st, s)]) ms st)"
proof (rule goesI)
  fix X R :: "inst list"
  assume l: "length X = MAX_TSTACK" "length R = MAX_TREE"
  obtain r Y V Q where e: "leads T ob m a (lay st [] X [] R) p (lay st [r] Y V Q)"
    "1 + length Y = MAX_TSTACK" "length V + length Q = MAX_TREE"
    "prints T ob m V r (ecells e) (etext T ob m e)"
    unfolding assms(3) by (rule expr_leads [OF assms(1,2) l]) blast
  let ?st = "wr [] [(p, d_line st)] st"
  have "line_expr T ob m (d_indent ?st) h t (lay ?st [r] Y V Q) =
      Some (lay (wr [(d_indent ?st, h @ expr_text T ob m (d_brackets ?st) 0 e @ t)] [] ?st) [] (r # Y) [] (V @ Q))"
    using assms(1,4) by (intro line_expr_lay [OF e(4)]) (simp_all add: ok1_def)
  then have h: "line_expr T ob m (d_indent (see (int p) (lay st [r] Y V Q))) h t (see (int p) (lay st [r] Y V Q)) =
      Some (lay (wr [(d_indent st, h @ expr_text T ob m (d_brackets st) 0 e @ t)] [(p, d_line st)] st)
        [] (r # Y) [] (V @ Q))"
    by (simp add: see_lay_mark wr_wr)
  have "\<exists>X' R'. length X' = MAX_TSTACK \<and> length R' = MAX_TREE \<and>
      leads T ob m p (lay st [r] Y V Q) j (lay (wr [(d_indent (wr ls ms st), s)] [] (wr ls ms st)) [] X' [] R')"
    using e(2,3) assms(4)
    by (intro leads_loop [OF assms(5) h _ _ assms(6) _ assms(7,8,9)]) simp_all
  then show "\<exists>X' R'. length X' = MAX_TSTACK \<and> length R' = MAX_TREE \<and>
      leads T ob m a (lay st [] X [] R) j (lay (wr (ls @ [(d_indent st, s)]) ms st) [] X' [] R')"
    using leads_trans [OF e(1)] by (auto simp: wr_wr)
qed

lemma goes_loop2:
  assumes "ok2 T ob m e f" "has m a (emit a e)" "q = a + length (emit a e)" "has m q (emit q f)"
    "p = q + length (emit q f)" "0 \<le> d_indent st"
    "\<And>n st. decompile_stmts (Suc n) T ob m (int p) st = do {
      st \<leftarrow> line_expr2 T ob m (d_indent (see (int p) st)) h b' t (see (int p) st);
      st \<leftarrow> decompile_stmts n T ob m (int b) (indent_more st);
      st \<leftarrow> line_plain (d_indent (indent_less st)) s (indent_less st);
      j \<leftarrow> inst_at m k;
      decompile_stmts n T ob m j st }"
    "halts T ob m b (inner (wr [(d_indent st, h @ expr_text T ob m (d_brackets st) 0 e @ b' @
       expr_text T ob m (d_brackets st) 0 f @ t)] [(p, d_line st)] st)) len (inner (wr ls ms st))"
    "inst_at m k = Some (int j)" "p < j" "len \<le> j - p"
  shows "goes T ob m a st j (wr (ls @ [(d_indent st, s)]) ms st)"
proof (rule goesI)
  fix X R :: "inst list"
  assume l: "length X = MAX_TSTACK" "length R = MAX_TREE"
  obtain rs Y V Q where e: "leads T ob m a (lay st [] X [] R) p (lay st rs Y V Q)"
    "length rs + length Y = MAX_TSTACK" "length V + length Q = MAX_TREE"
    "prints_all T ob m V rs (ecells e + ecells f) [etext T ob m e, etext T ob m f]"
    unfolding assms(5,3) by (rule expr2_leads [OF assms(1,2) _ l]) (use assms(3,4) in auto)
  let ?st = "wr [] [(p, d_line st)] st"
  have "line_expr2 T ob m (d_indent ?st) h b' t (lay ?st rs Y V Q) =
      Some (lay (wr [(d_indent ?st, h @ expr_text T ob m (d_brackets ?st) 0 e @ b' @
        expr_text T ob m (d_brackets ?st) 0 f @ t)] [] ?st) [] (rs @ Y) [] (V @ Q))"
    using assms(1,6) by (intro line_expr2_lay [OF e(4)]) (simp_all add: ok2_def)
  then have h: "line_expr2 T ob m (d_indent (see (int p) (lay st rs Y V Q))) h b' t (see (int p) (lay st rs Y V Q)) =
      Some (lay (wr [(d_indent st, h @ expr_text T ob m (d_brackets st) 0 e @ b' @
        expr_text T ob m (d_brackets st) 0 f @ t)] [(p, d_line st)] st) [] (rs @ Y) [] (V @ Q))"
    by (simp add: see_lay_mark wr_wr)
  have "\<exists>X' R'. length X' = MAX_TSTACK \<and> length R' = MAX_TREE \<and>
      leads T ob m p (lay st rs Y V Q) j (lay (wr [(d_indent (wr ls ms st), s)] [] (wr ls ms st)) [] X' [] R')"
    using e(2,3) assms(6)
    by (intro leads_loop [OF assms(7) h _ _ assms(8) _ assms(9,10,11)]) simp_all
  then show "\<exists>X' R'. length X' = MAX_TSTACK \<and> length R' = MAX_TREE \<and>
      leads T ob m a (lay st [] X [] R) j (lay (wr (ls @ [(d_indent st, s)]) ms st) [] X' [] R')"
    using leads_trans [OF e(1)] by (auto simp: wr_wr)
qed

text \<open>\<open>for ... in (list)\<close> has pushed its counter, which is popped before the list is.\<close>

lemma goes_for:
  assumes "ok1 T ob m e" "has m a (emit a e)" "q = a + length (emit a e)" "has m q [i32_of O_NUMPUSH, 0]"
    "p = q + 2" "0 \<le> d_indent st"
    "\<And>n st. decompile_stmts (Suc n) T ob m (int p) st = do {
      st \<leftarrow> do { (x, st) \<leftarrow> tpop (see (int p) st); line_expr T ob m (d_indent st) h t st };
      st \<leftarrow> decompile_stmts n T ob m (int b) (indent_more st);
      st \<leftarrow> line_plain (d_indent (indent_less st)) s (indent_less st);
      j \<leftarrow> inst_at m k;
      decompile_stmts n T ob m j st }"
    "halts T ob m b (inner (wr [(d_indent st, h @ expr_text T ob m (d_brackets st) 0 e @ t)]
       [(p, d_line st)] st)) len (inner (wr ls ms st))"
    "inst_at m k = Some (int j)" "p < j" "len \<le> j - p"
  shows "goes T ob m a st j (wr (ls @ [(d_indent st, s)]) ms st)"
proof (rule goesI)
  fix X R :: "inst list"
  assume l: "length X = MAX_TSTACK" "length R = MAX_TREE"
  obtain r Y V Q where e: "leads T ob m a (lay st [] X [] R) q (lay st [r] Y V Q)"
    "1 + length Y = MAX_TSTACK" "length V + length Q = MAX_TREE"
    "prints T ob m V r (ecells e) (etext T ob m e)"
    unfolding assms(3) by (rule expr_leads [OF assms(1,2) l]) blast
  obtain y Z where Y: "Y = y # Z" using e(2) by (cases Y) (auto simp: MAX_TSTACK_def)
  have "runs T ob m q (lay st [r] Y V Q) p (lay st ([r] @ [CodeP (int q)]) Z V Q)"
    by (rule runs_step [OF assms(4), of O_NUMPUSH])
      (simp_all add: stmt_ops_def tree_step_def Y tpush_lay MAX_TSTACK_def assms(5))
  from leads_trans [OF e(1) runs_leads [OF this]]
  have e2: "leads T ob m a (lay st [] X [] R) p (lay st ([r] @ [CodeP (int q)]) Z V Q)" .
  let ?st = "wr [] [(p, d_line st)] st" and ?s = "lay st ([r] @ [CodeP (int q)]) Z V Q"
  have pop: "tpop (see (int p) ?s) = Some (CodeP (int q), lay ?st [r] (CodeP (int q) # Z) V Q)"
    unfolding see_lay_mark by (rule tpop_lay) (simp add: MAX_TSTACK_def)
  have "line_expr T ob m (d_indent ?st) h t (lay ?st [r] (CodeP (int q) # Z) V Q) =
      Some (lay (wr [(d_indent ?st, h @ expr_text T ob m (d_brackets ?st) 0 e @ t)] [] ?st) []
        (r # CodeP (int q) # Z) [] (V @ Q))"
    using assms(1,6) by (intro line_expr_lay [OF e(4)]) (simp_all add: ok1_def)
  then have h: "do { (x, st) \<leftarrow> tpop (see (int p) ?s); line_expr T ob m (d_indent st) h t st } =
      Some (lay (wr [(d_indent st, h @ expr_text T ob m (d_brackets st) 0 e @ t)] [(p, d_line st)] st)
        [] (r # CodeP (int q) # Z) [] (V @ Q))"
    by (simp add: pop [simplified] wr_wr)
  have "\<exists>X' R'. length X' = MAX_TSTACK \<and> length R' = MAX_TREE \<and>
      leads T ob m p ?s j (lay (wr [(d_indent (wr ls ms st), s)] [] (wr ls ms st)) [] X' [] R')"
    using e(2,3) assms(6) Y
    by (intro leads_loop [OF assms(7) h _ _ assms(8) _ assms(9,10,11)]) simp_all
  then show "\<exists>X' R'. length X' = MAX_TSTACK \<and> length R' = MAX_TREE \<and>
      leads T ob m a (lay st [] X [] R) j (lay (wr (ls @ [(d_indent st, s)]) ms st) [] X' [] R')"
    using leads_trans [OF e2] by (auto simp: wr_wr)
qed

lemma goes_elseif:
  assumes "ok1 T ob m e" "has m a (emit a e)" "p = a + length (emit a e)"
    "has m p [i32_of O_ELSEIF, of_nat j]" "j < 2 ^ 31" "0 \<le> d_indent st - d_by st"
    "halts T ob m (p + 2) (wr [(d_indent st - d_by st, ''elseif ('' @ expr_text T ob m (d_brackets st) 0 e @ '')'')]
       [(p, d_line st)] st) len (wr ls ms st)"
    "p < j" "len \<le> j - p"
  shows "goes T ob m a st j (wr ls ms st)"
proof (rule goesI)
  fix X R :: "inst list"
  assume l: "length X = MAX_TSTACK" "length R = MAX_TREE"
  obtain r Y V Q where e: "leads T ob m a (lay st [] X [] R) p (lay st [r] Y V Q)"
    "1 + length Y = MAX_TSTACK" "length V + length Q = MAX_TREE"
    "prints T ob m V r (ecells e) (etext T ob m e)"
    unfolding assms(3) by (rule expr_leads [OF assms(1,2) l]) blast
  let ?st = "wr [] [(p, d_line st)] st" and ?d = "d_indent st - d_by st"
  let ?st1 = "wr [(?d, ''elseif ('' @ expr_text T ob m (d_brackets st) 0 e @ '')'')] [(p, d_line st)] st"
  have "line_expr T ob m ?d ''elseif ('' '')'' (lay ?st [r] Y V Q) =
      Some (lay (wr [(?d, ''elseif ('' @ expr_text T ob m (d_brackets ?st) 0 e @ '')'')] [] ?st) []
        (r # Y) [] (V @ Q))"
    using assms(1,6) by (intro line_expr_lay [OF e(4)]) (simp_all add: ok1_def)
  then have h: "line_expr T ob m ?d ''elseif ('' '')'' (lay ?st [r] Y V Q) =
      Some (lay ?st1 [] (r # Y) [] (V @ Q))" by (simp add: wr_wr)
  have "length (r # Y) = MAX_TSTACK" "length (V @ Q) = MAX_TREE" using e(2,3) by simp_all
  with assms(7) obtain X' R' where x: "length X' = MAX_TSTACK" "length R' = MAX_TREE"
    "ends T ob m (p + 2) (lay ?st1 [] (r # Y) [] (V @ Q)) len (lay (wr ls ms st) [] X' [] R')"
    unfolding halts_def by blast
  have c: "inst_at m (int p) = Some O_ELSEIF" "inst_at m (int p + 1) = Some (int j)"
    using has_code_at [OF assms(4), of 0] code_at_target [OF assms(4), of 1 j] assms(5) by simp_all
  have "leads T ob m p (lay st [r] Y V Q) j (lay (wr ls ms st) [] X' [] R')"
    unfolding leads_def
  proof (intro conjI allI impI)
    fix n q
    assume d: "decompile_stmts (Suc n) T ob m (int j) (lay (wr ls ms st) [] X' [] R') = Some q"
    let ?n = "j - p + n"
    have "decompile_stmts ?n T ob m (int j) (lay (wr ls ms st) [] X' [] R') = Some q"
      using d by (rule decompile_stmts_mono) (use assms(8) in simp)
    moreover have "decompile_stmts ?n T ob m (int p + 2) (lay ?st1 [] (r # Y) [] (V @ Q)) =
        Some (lay (wr ls ms st) [] X' [] R')"
      using x(3) assms(9) by (simp add: ends_def add.commute)
    ultimately have "decompile_stmts (Suc ?n) T ob m (int p) (lay st [r] Y V Q) = Some q"
      using h c by (subst decompile_stmts.simps)
        (simp add: Let_def see_lay_mark del: decompile_stmts.simps)
    then show "decompile_stmts (j - p + Suc n) T ob m (int p) (lay st [r] Y V Q) = Some q" by simp
  qed (use assms(8) in simp)
  from leads_trans [OF e(1) this] x(1,2) show "\<exists>X' R'. length X' = MAX_TSTACK \<and> length R' = MAX_TREE \<and>
      leads T ob m a (lay st [] X [] R) j (lay (wr ls ms st) [] X' [] R')" by blast
qed

lemma goes_if:
  assumes "ok1 T ob m e" "has m a (emit a e)" "p = a + length (emit a e)"
    "has m p [i32_of O_IF, of_nat q, of_nat j]" "j < 2 ^ 31" "0 \<le> d_indent st"
    "halts T ob m (p + 3) (inner (wr [(d_indent st, ''if ('' @ expr_text T ob m (d_brackets st) 0 e @ '')'')]
       [(p, d_line st)] st)) len (inner (wr ls ms st))"
    "has m q (c # xs)"
    "if sint c = O_STOP then ls' = ls \<and> ms' = ms
     else halts T ob m q (inner (wr ls ms st)) len' (inner (wr ls' ms' st))"
    "p < j" "q \<le> j" "len \<le> j - p" "len' \<le> j - p"
  shows "goes T ob m a st j (wr (ls' @ [(d_indent st, ''endif'')]) ms' st)"
proof (rule goesI)
  fix X R :: "inst list"
  assume l: "length X = MAX_TSTACK" "length R = MAX_TREE"
  obtain r Y V Q where e: "leads T ob m a (lay st [] X [] R) p (lay st [r] Y V Q)"
    "1 + length Y = MAX_TSTACK" "length V + length Q = MAX_TREE"
    "prints T ob m V r (ecells e) (etext T ob m e)"
    unfolding assms(3) by (rule expr_leads [OF assms(1,2) l]) blast
  let ?st = "wr [] [(p, d_line st)] st" and ?d = "d_indent st"
  let ?st1 = "wr [(?d, ''if ('' @ expr_text T ob m (d_brackets st) 0 e @ '')'')] [(p, d_line st)] st"
  have "line_expr T ob m ?d ''if ('' '')'' (lay ?st [r] Y V Q) =
      Some (lay (wr [(?d, ''if ('' @ expr_text T ob m (d_brackets ?st) 0 e @ '')'')] [] ?st) []
        (r # Y) [] (V @ Q))"
    using assms(1,6) by (intro line_expr_lay [OF e(4)]) (simp_all add: ok1_def)
  then have h: "line_expr T ob m ?d ''if ('' '')'' (lay ?st [r] Y V Q) =
      Some (lay ?st1 [] (r # Y) [] (V @ Q))" by (simp add: wr_wr)
  have "length (r # Y) = MAX_TSTACK" "length (V @ Q) = MAX_TREE" using e(2,3) by simp_all
  with assms(7) obtain X1 R1 where x: "length X1 = MAX_TSTACK" "length R1 = MAX_TREE"
    "ends T ob m (p + 3) (lay (inner ?st1) [] (r # Y) [] (V @ Q)) len (lay (inner (wr ls ms st)) [] X1 [] R1)"
    unfolding halts_def by blast
  obtain X' R' where y: "length X' = MAX_TSTACK" "length R' = MAX_TREE"
    "\<And>n. len' \<le> n \<Longrightarrow> (if sint c \<noteq> O_STOP
       then decompile_stmts n T ob m (int q) (lay (inner (wr ls ms st)) [] X1 [] R1)
       else Some (lay (inner (wr ls ms st)) [] X1 [] R1)) = Some (lay (inner (wr ls' ms' st)) [] X' [] R')"
  proof (cases "sint c = O_STOP")
    case True
    with assms(9) x(1,2) that [of X1 R1] show ?thesis by simp
  next
    case False
    with assms(9) have "halts T ob m q (inner (wr ls ms st)) len' (inner (wr ls' ms' st))" by simp
    with x(1,2) obtain X' R' where "length X' = MAX_TSTACK" "length R' = MAX_TREE"
      "ends T ob m q (lay (inner (wr ls ms st)) [] X1 [] R1) len' (lay (inner (wr ls' ms' st)) [] X' [] R')"
      unfolding halts_def by blast
    with False that [of X' R'] show ?thesis by (auto simp: ends_def)
  qed
  have less: "(wr ls' ms' st)\<lparr>d_indent := d_indent st\<rparr> = wr ls' ms' st" by (simp add: same_indent)
  have b: "q < 2 ^ 31" using assms(5,11) by simp
  have cd: "inst_at m (int p) = Some O_IF" "inst_at m (int p + 1) = Some (int q)"
    "inst_at m (int p + 2) = Some (int j)" "inst_at m (int q) = Some (sint c)"
    using has_code_at [OF assms(4), of 0] code_at_target [OF assms(4), of 1 q]
      code_at_target [OF assms(4), of 2 j] has_code_at [OF assms(8), of 0] assms(5) b by simp_all
  let ?fin = "wr (ls' @ [(?d, ''endif'')]) ms' st"
  have e2: "line_plain (d_indent (wr ls' ms' st)) ''endif'' (lay (wr ls' ms' st) [] X' [] R') =
      Some (lay ?fin [] X' [] R')"
    using line_plain_lay [of "d_indent (wr ls' ms' st)" "''endif''" "wr ls' ms' st" "[]" X' "[]" R'] assms(6)
    by (simp add: wr_wr)
  have "leads T ob m p (lay st [r] Y V Q) j (lay ?fin [] X' [] R')"
    unfolding leads_def
  proof (intro conjI allI impI)
    fix n res
    assume d: "decompile_stmts (Suc n) T ob m (int j) (lay ?fin [] X' [] R') = Some res"
    let ?n = "j - p + n"
    have "decompile_stmts ?n T ob m (int j) (lay ?fin [] X' [] R') = Some res"
      using d by (rule decompile_stmts_mono) (use assms(10) in simp)
    moreover have "decompile_stmts ?n T ob m (int p + 3) (lay (inner ?st1) [] (r # Y) [] (V @ Q)) =
        Some (lay (inner (wr ls ms st)) [] X1 [] R1)"
      using x(3) assms(12) by (simp add: ends_def add.commute)
    moreover note y(3) [of ?n]
    ultimately have "decompile_stmts (Suc ?n) T ob m (int p) (lay st [r] Y V Q) = Some res"
      using h cd e2 assms(13) by (subst decompile_stmts.simps; cases "sint c = O_STOP")
        (simp_all add: Let_def see_lay_mark lay_indent less del: decompile_stmts.simps)
    then show "decompile_stmts (j - p + Suc n) T ob m (int p) (lay st [r] Y V Q) = Some res" by simp
  qed (use assms(10) in simp)
  from leads_trans [OF e(1) this] y(1,2) show "\<exists>X' R'. length X' = MAX_TSTACK \<and> length R' = MAX_TREE \<and>
      leads T ob m a (lay st [] X [] R) j (lay ?fin [] X' [] R')" by blast
qed

end
