(* ===== verification/DecodeSpecs.thy ===== *)
theory DecodeSpecs
  imports Lines
begin

text \<open>
  What the decompiler promises: the listing of a compiled method is the text of its source, and
  the line it reports for an instruction is the line whose code holds it. And where it does not:
  lines after a \<open>raise\<close>, expressions whose brackets are lost, and arguments that make it run
  outside its buffers.
\<close>

section \<open>Statements that can be listed\<close>

fun ok_stmt :: "servtab \<Rightarrow> object \<Rightarrow> cmethod \<Rightarrow> stmt \<Rightarrow> bool"
  and ok_stmts :: "servtab \<Rightarrow> object \<Rightarrow> cmethod \<Rightarrow> stmt list \<Rightarrow> bool"
  and ok_elifs :: "servtab \<Rightarrow> object \<Rightarrow> cmethod \<Rightarrow> elifs \<Rightarrow> bool" where
  "ok_stmt T ob m (SIf e ss r) \<longleftrightarrow> ok1 T ob m e \<and> ok_stmts T ob m ss \<and> ok_elifs T ob m r"
| "ok_stmt T ob m (SFor v e ss) \<longleftrightarrow>
     local_name ob m (sint v) \<noteq> None \<and> ok1 T ob m e \<and> ok_stmts T ob m ss"
| "ok_stmt T ob m (SForRng v e f ss) \<longleftrightarrow>
     local_name ob m (sint v) \<noteq> None \<and> ok2 T ob m e f \<and> ok_stmts T ob m ss"
| "ok_stmt T ob m (SWhile e ss) \<longleftrightarrow> ok1 T ob m e \<and> ok_stmts T ob m ss"
| "ok_stmt T ob m (SDo ss e) \<longleftrightarrow> ok1 T ob m e \<and> ok_stmts T ob m ss"
| "ok_stmt T ob m (SAt e ss) \<longleftrightarrow> ok1 T ob m e \<and> ok_stmts T ob m ss"
| "ok_stmt T ob m (SExpr e) \<longleftrightarrow> ok1 T ob m e"
| "ok_stmt T ob m (SAsgnL v e) \<longleftrightarrow> local_name ob m (sint v) \<noteq> None \<and> ok1 T ob m e"
| "ok_stmt T ob m (SAsgnG v e) \<longleftrightarrow> sym_str ob (sint v) \<noteq> None \<and> ok1 T ob m e"
| "ok_stmt T ob m (SIndexL v e f) \<longleftrightarrow> local_name ob m (sint v) \<noteq> None \<and> ok2 T ob m e f"
| "ok_stmt T ob m (SIndexG v e f) \<longleftrightarrow> sym_str ob (sint v) \<noteq> None \<and> ok2 T ob m e f"
| "ok_stmt T ob m (SPlayer e) \<longleftrightarrow> ok1 T ob m e"
| "ok_stmt T ob m (SReturn e) \<longleftrightarrow> ok1 T ob m e"
| "ok_stmt T ob m SReturn0 \<longleftrightarrow> True"
| "ok_stmt T ob m (SRaise e) \<longleftrightarrow> ok1 T ob m e"
| "ok_stmt T ob m (SContinue n) \<longleftrightarrow> True"
| "ok_stmt T ob m (SBreak n) \<longleftrightarrow> True"
| "ok_stmts T ob m [] \<longleftrightarrow> True"
| "ok_stmts T ob m (s # ss) \<longleftrightarrow> ok_stmt T ob m s \<and> ok_stmts T ob m ss"
| "ok_elifs T ob m EndIf \<longleftrightarrow> True"
| "ok_elifs T ob m (Else ss) \<longleftrightarrow> ok_stmts T ob m ss"
| "ok_elifs T ob m (ElseIf e ss r) \<longleftrightarrow> ok1 T ob m e \<and> ok_stmts T ob m ss \<and> ok_elifs T ob m r"

section \<open>The loops, unfolded once\<close>

lemma while_unfold:
  "inst_at m (int p) = Some O_WHILE \<Longrightarrow> decompile_stmts (Suc n) T ob m (int p) st = do {
     st \<leftarrow> line_expr T ob m (d_indent (see (int p) st)) ''while ('' '')'' (see (int p) st);
     st \<leftarrow> decompile_stmts n T ob m (int (p + 2)) (indent_more st);
     st \<leftarrow> line_plain (d_indent (indent_less st)) ''endwhile'' (indent_less st);
     j \<leftarrow> inst_at m (int p + 1);
     decompile_stmts n T ob m j st }"
  by (subst decompile_stmts.simps) (simp add: Let_def add.commute del: decompile_stmts.simps)

lemma at_unfold:
  "inst_at m (int p) = Some O_AT \<Longrightarrow> decompile_stmts (Suc n) T ob m (int p) st = do {
     st \<leftarrow> line_expr T ob m (d_indent (see (int p) st)) ''at ('' '')'' (see (int p) st);
     st \<leftarrow> decompile_stmts n T ob m (int (p + 2)) (indent_more st);
     st \<leftarrow> line_plain (d_indent (indent_less st)) ''endat'' (indent_less st);
     j \<leftarrow> inst_at m (int p + 1);
     decompile_stmts n T ob m j st }"
  by (subst decompile_stmts.simps) (simp add: Let_def add.commute del: decompile_stmts.simps)

lemma for_unfold:
  "inst_at m (int p) = Some O_FOR \<Longrightarrow> inst_at m (int p + 1) = Some k \<Longrightarrow> local_name ob m k = Some v \<Longrightarrow>
   decompile_stmts (Suc n) T ob m (int p) st = do {
     st \<leftarrow> do { (x, st) \<leftarrow> tpop (see (int p) st);
       line_expr T ob m (d_indent st) (''for '' @ v @ '' in ('') '')'' st };
     st \<leftarrow> decompile_stmts n T ob m (int (p + 3)) (indent_more st);
     st \<leftarrow> line_plain (d_indent (indent_less st)) ''endfor'' (indent_less st);
     j \<leftarrow> inst_at m (int p + 2);
     decompile_stmts n T ob m j st }"
  by (subst decompile_stmts.simps) (cases "tpop (see (int p) st)"; simp add: Let_def split_beta add.commute del: decompile_stmts.simps)

lemma forrng_unfold:
  "inst_at m (int p) = Some O_FORRNG \<Longrightarrow> inst_at m (int p + 1) = Some k \<Longrightarrow> local_name ob m k = Some v \<Longrightarrow>
   decompile_stmts (Suc n) T ob m (int p) st = do {
     st \<leftarrow> line_expr2 T ob m (d_indent (see (int p) st)) (''for '' @ v @ '' in ['') ''..'' '']'' (see (int p) st);
     st \<leftarrow> decompile_stmts n T ob m (int (p + 3)) (indent_more st);
     st \<leftarrow> line_plain (d_indent (indent_less st)) ''endfor'' (indent_less st);
     j \<leftarrow> inst_at m (int p + 2);
     decompile_stmts n T ob m j st }"
  by (subst decompile_stmts.simps) (simp add: Let_def add.commute del: decompile_stmts.simps)

section \<open>Every statement is listed\<close>

definition lists_stmt :: "servtab \<Rightarrow> object \<Rightarrow> cmethod \<Rightarrow> nat \<Rightarrow> stmt \<Rightarrow> bool" where
  "lists_stmt T ob m a s \<longleftrightarrow> (\<forall>st. ok_stmt T ob m s \<longrightarrow> has m a (emit_stmt a s) \<longrightarrow>
     0 \<le> d_indent st \<longrightarrow> 0 \<le> d_by st \<longrightarrow>
     goes T ob m a st (a + length (emit_stmt a s))
       (wr (stmt_lines T ob m (d_brackets st) (d_by st) (d_indent st) s) (stmt_marks a (d_line st) s) st))"

definition lists_stmts :: "servtab \<Rightarrow> object \<Rightarrow> cmethod \<Rightarrow> nat \<Rightarrow> stmt list \<Rightarrow> bool" where
  "lists_stmts T ob m a ss \<longleftrightarrow> (\<forall>st. ok_stmts T ob m ss \<longrightarrow> has m a (emit_stmts a ss) \<longrightarrow>
     0 \<le> d_indent st \<longrightarrow> 0 \<le> d_by st \<longrightarrow>
     goes T ob m a st (a + length (emit_stmts a ss))
       (wr (stmts_lines T ob m (d_brackets st) (d_by st) (d_indent st) ss) (stmts_marks a (d_line st) ss) st))"

text \<open>The parts after the first of an \<open>if\<close> are entered with the indentation of its statements.\<close>

definition lists_elifs :: "servtab \<Rightarrow> object \<Rightarrow> cmethod \<Rightarrow> nat \<Rightarrow> elifs \<Rightarrow> bool" where
  "lists_elifs T ob m a r \<longleftrightarrow> (\<forall>st. ok_elifs T ob m r \<longrightarrow> has m a (emit_elifs a r @ [i32_of O_STOP]) \<longrightarrow>
     0 \<le> d_indent st - d_by st \<longrightarrow> 0 \<le> d_by st \<longrightarrow>
     halts T ob m a st (length (emit_elifs a r) + 1)
       (wr (elifs_lines T ob m (d_brackets st) (d_by st) (d_indent st - d_by st) r)
         (elifs_marks a (d_line st) r) st))"

lemma lists_stmtsD:
  "lists_stmts T ob m a ss \<Longrightarrow> ok_stmts T ob m ss \<Longrightarrow> has m a (emit_stmts a ss) \<Longrightarrow>
   0 \<le> d_indent st \<Longrightarrow> 0 \<le> d_by st \<Longrightarrow>
   goes T ob m a st (a + length (emit_stmts a ss))
     (wr (stmts_lines T ob m (d_brackets st) (d_by st) (d_indent st) ss) (stmts_marks a (d_line st) ss) st)"
  unfolding lists_stmts_def by blast

lemma lists_elifsD:
  "lists_elifs T ob m a r \<Longrightarrow> ok_elifs T ob m r \<Longrightarrow> has m a (emit_elifs a r @ [i32_of O_STOP]) \<Longrightarrow>
   0 \<le> d_indent st - d_by st \<Longrightarrow> 0 \<le> d_by st \<Longrightarrow>
   halts T ob m a st (length (emit_elifs a r) + 1)
     (wr (elifs_lines T ob m (d_brackets st) (d_by st) (d_indent st - d_by st) r)
       (elifs_marks a (d_line st) r) st)"
  unfolding lists_elifs_def by blast

text \<open>The statements of a block, up to the \<open>STOP\<close> behind them.\<close>

lemma block_halts:
  assumes "lists_stmts T ob m b ss" "ok_stmts T ob m ss" "has m b (emit_stmts b ss @ [i32_of O_STOP])"
    "0 \<le> d_indent st" "0 \<le> d_by st"
  shows "halts T ob m b st (Suc (length (emit_stmts b ss)))
    (wr (stmts_lines T ob m (d_brackets st) (d_by st) (d_indent st) ss)
      (stmts_marks b (d_line st) ss @ [(b + length (emit_stmts b ss), d_line st + stmts_count ss)]) st)"
proof -
  let ?j = "b + length (emit_stmts b ss)"
  have "goes T ob m b st ?j (wr (stmts_lines T ob m (d_brackets st) (d_by st) (d_indent st) ss)
      (stmts_marks b (d_line st) ss) st)"
    using assms unfolding lists_stmts_def has_append by blast
  from goes_stop [OF this, of "[]"] assms(3) show ?thesis
    by (simp add: has_append wr_wr lines_count)
qed

lemma inner_halts:
  assumes "lists_stmts T ob m b ss" "ok_stmts T ob m ss" "has m b (emit_stmts b ss @ [i32_of O_STOP])"
    "0 \<le> d_indent st" "0 \<le> d_by st"
  shows "halts T ob m b (inner (wr [l] ms st)) (Suc (length (emit_stmts b ss)))
    (inner (wr (l # stmts_lines T ob m (d_brackets st) (d_by st) (d_indent st + d_by st) ss)
      (ms @ stmts_marks b (d_line st + 1) ss @
        [(b + length (emit_stmts b ss), d_line st + 1 + stmts_count ss)]) st))"
  using block_halts [OF assms(1,2,3), of "inner (wr [l] ms st)"] assms(4,5)
  by (simp add: wr_indent wr_wr)

lemma place_simps:
  fixes i :: nat
  shows "i + length [x, y, z] = i + 3" "i + length [v, w, x, y, z] = i + 5"
    "i + length (xs @ [x]) = i + length xs + 1" "i + length [x] = i + 1"
  by simp_all

lemma has_five: "has m i [v, w, x, y, z] \<longleftrightarrow> has m i [v, w] \<and> has m (i + 2) [x, y, z]"
  by (simp add: numeral_eq_Suc)

lemma has_short: "has m i xs \<Longrightarrow> xs \<noteq> [] \<Longrightarrow> length (m_code m) < 2 ^ 31 \<Longrightarrow> i + length xs < 2 ^ 31"
  using has_le by fastforce

text \<open>The goal of a compound statement, with the lines and the marks left to be found.\<close>

definition listed :: "servtab \<Rightarrow> object \<Rightarrow> cmethod \<Rightarrow> nat \<Rightarrow> stmt \<Rightarrow> dstate \<Rightarrow> nat \<Rightarrow> sline list \<Rightarrow>
    (nat \<times> int) list \<Rightarrow> bool" where
  "listed T ob m a s st j ls ms \<longleftrightarrow> goes T ob m a st j (wr ls ms st) \<and>
     ls = stmt_lines T ob m (d_brackets st) (d_by st) (d_indent st) s \<and> ms = stmt_marks a (d_line st) s"

lemma lists_stmtI:
  assumes "\<And>st :: dstate. ok_stmt T ob m s \<Longrightarrow> has m a (emit_stmt a s) \<Longrightarrow> 0 \<le> d_indent st \<Longrightarrow> 0 \<le> d_by st \<Longrightarrow>
    \<exists>ls ms. listed T ob m a s st (a + length (emit_stmt a s)) ls ms"
  shows "lists_stmt T ob m a s"
  using assms unfolding lists_stmt_def listed_def by blast

lemma listedI:
  "goes T ob m a st j (wr ls ms st) \<Longrightarrow>
   ls = stmt_lines T ob m (d_brackets st) (d_by st) (d_indent st) s \<Longrightarrow> ms = stmt_marks a (d_line st) s \<Longrightarrow>
   \<exists>ls ms. listed T ob m a s st j ls ms"
  by (auto simp: listed_def)

lemma lists_while:
  assumes "length (m_code m) < 2 ^ 31"
    "\<And>c b. c = emit (a + 1) e \<Longrightarrow> b = a + length c + 3 \<Longrightarrow> lists_stmts T ob m b ss"
  shows "lists_stmt T ob m a (SWhile e ss)"
proof (rule lists_stmtI)
  fix st :: dstate
  assume ok: "ok_stmt T ob m (SWhile e ss)" and h: "has m a (emit_stmt a (SWhile e ss))"
    and i: "0 \<le> d_indent st" "0 \<le> d_by st"
  let ?c = "emit (a + 1) e" and ?a = "a + 1"
  let ?p = "?a + length ?c"
  let ?b = "?p + 2"
  let ?cs = "emit_stmts ?b ss"
  let ?j = "?b + length ?cs + 1"
  have b: "a + length ?c + 3 = ?b" by simp
  have len: "a + length (emit_stmt a (SWhile e ss)) = ?j"
    unfolding emit_stmt.simps Let_def b by simp
  have hh: "has m a [i32_of O_PUSHPC]" "has m ?a ?c" "has m ?p [i32_of O_WHILE, of_nat ?j]"
    "has m ?b (?cs @ [i32_of O_STOP])"
    using h unfolding emit_stmt.simps Let_def has_append b by (simp_all add: has_append add.assoc)
  have j: "?j < 2 ^ 31" using has_short [OF hh(4) _ assms(1)] by simp
  have c: "inst_at m (int ?p) = Some O_WHILE" "inst_at m (int ?p + 1) = Some (int ?j)"
    using has_code_at [OF hh(3), of 0] code_at_target [OF hh(3), of 1 ?j] j by simp_all
  have "leads T ob m a (lay st [] X [] R) ?a (lay st [] X [] R)" for X R
    by (rule runs_leads, rule runs_step [OF hh(1), of O_PUSHPC]) (simp_all add: stmt_ops_def tree_step_def)
  then have s: "goes T ob m a st ?a st" by (intro goesI) blast
  have l: "lists_stmts T ob m ?b ss" by (rule assms(2) [OF refl b [symmetric]])
  show "\<exists>ls ms. listed T ob m a (SWhile e ss) st (a + length (emit_stmt a (SWhile e ss))) ls ms"
    unfolding len
    by (rule listedI, rule goes_trans [OF s],
        rule goes_loop1 [OF _ hh(2) refl i(1) while_unfold [OF c(1)] inner_halts [OF l _ hh(4) i] c(2)])
      (use ok in \<open>simp_all add: b Let_def\<close>)
qed

lemma lists_at:
  assumes "length (m_code m) < 2 ^ 31"
    "\<And>c b. c = emit a e \<Longrightarrow> b = a + length c + 2 \<Longrightarrow> lists_stmts T ob m b ss"
  shows "lists_stmt T ob m a (SAt e ss)"
proof (rule lists_stmtI)
  fix st :: dstate
  assume ok: "ok_stmt T ob m (SAt e ss)" and h: "has m a (emit_stmt a (SAt e ss))"
    and i: "0 \<le> d_indent st" "0 \<le> d_by st"
  let ?c = "emit a e"
  let ?p = "a + length ?c"
  let ?b = "?p + 2"
  let ?cs = "emit_stmts ?b ss"
  let ?j = "?b + length ?cs + 1"
  have len: "a + length (emit_stmt a (SAt e ss)) = ?j"
    unfolding emit_stmt.simps Let_def by simp
  have hh: "has m a ?c" "has m ?p [i32_of O_AT, of_nat ?j]" "has m ?b (?cs @ [i32_of O_STOP])"
    using h unfolding emit_stmt.simps Let_def has_append by (simp_all add: has_append add.assoc)
  have j: "?j < 2 ^ 31" using has_short [OF hh(3) _ assms(1)] by simp
  have c: "inst_at m (int ?p) = Some O_AT" "inst_at m (int ?p + 1) = Some (int ?j)"
    using has_code_at [OF hh(2), of 0] code_at_target [OF hh(2), of 1 ?j] j by simp_all
  have l: "lists_stmts T ob m ?b ss" by (rule assms(2) [OF refl refl])
  show "\<exists>ls ms. listed T ob m a (SAt e ss) st (a + length (emit_stmt a (SAt e ss))) ls ms"
    unfolding len
    by (rule listedI,
        rule goes_loop1 [OF _ hh(1) refl i(1) at_unfold [OF c(1)] inner_halts [OF l _ hh(3) i] c(2)])
      (use ok in \<open>simp_all add: Let_def\<close>)
qed

lemma lists_forrng:
  assumes "length (m_code m) < 2 ^ 31"
    "\<And>c d b. c = emit a e \<Longrightarrow> d = emit (a + length c) f \<Longrightarrow> b = a + length c + length d + 3 \<Longrightarrow> lists_stmts T ob m b ss"
  shows "lists_stmt T ob m a (SForRng v e f ss)"
proof (rule lists_stmtI)
  fix st :: dstate
  assume ok: "ok_stmt T ob m (SForRng v e f ss)" and h: "has m a (emit_stmt a (SForRng v e f ss))"
    and i: "0 \<le> d_indent st" "0 \<le> d_by st"
  let ?c = "emit a e"
  let ?q = "a + length ?c"
  let ?d = "emit ?q f"
  let ?p = "?q + length ?d"
  let ?b = "?p + 3"
  let ?cs = "emit_stmts ?b ss"
  let ?j = "?b + length ?cs + 1"
  have len: "a + length (emit_stmt a (SForRng v e f ss)) = ?j"
    unfolding emit_stmt.simps Let_def by simp
  have hh: "has m a ?c" "has m ?q ?d" "has m ?p [i32_of O_FORRNG, v, of_nat ?j]" "has m ?b (?cs @ [i32_of O_STOP])"
    using h unfolding emit_stmt.simps Let_def has_append place_simps by blast+
  have j: "?j < 2 ^ 31" using has_short [OF hh(4) _ assms(1)] by simp
  have c: "inst_at m (int ?p) = Some O_FORRNG" "inst_at m (int ?p + 1) = Some (sint v)"
      "inst_at m (int ?p + 2) = Some (int ?j)"
    using has_code_at [OF hh(3), of 0] has_code_at [OF hh(3), of 1] code_at_target [OF hh(3), of 2 ?j] j
    by simp_all
  obtain n where n: "local_name ob m (sint v) = Some n" using ok by auto
  have l: "lists_stmts T ob m ?b ss" by (rule assms(2) [OF refl refl refl])
  show "\<exists>ls ms. listed T ob m a (SForRng v e f ss) st (a + length (emit_stmt a (SForRng v e f ss))) ls ms"
    unfolding len
    by (rule listedI,
        rule goes_loop2 [OF _ hh(1) refl hh(2) refl i(1) forrng_unfold [OF c(1,2) n]
          inner_halts [OF l _ hh(4) i] c(3)])
      (use ok n in \<open>simp_all add: Let_def\<close>)
qed

lemma lists_for:
  assumes "length (m_code m) < 2 ^ 31"
    "\<And>c b. c = emit a e \<Longrightarrow> b = a + length c + 5 \<Longrightarrow> lists_stmts T ob m b ss"
  shows "lists_stmt T ob m a (SFor v e ss)"
proof (rule lists_stmtI)
  fix st :: dstate
  assume ok: "ok_stmt T ob m (SFor v e ss)" and h: "has m a (emit_stmt a (SFor v e ss))"
    and i: "0 \<le> d_indent st" "0 \<le> d_by st"
  let ?c = "emit a e"
  let ?q = "a + length ?c"
  let ?p = "?q + 2"
  let ?b = "?p + 3"
  let ?cs = "emit_stmts ?b ss"
  let ?j = "?b + length ?cs + 1"
  have b: "a + length ?c + 5 = ?b" by simp
  have len: "a + length (emit_stmt a (SFor v e ss)) = ?j"
    unfolding emit_stmt.simps Let_def b by simp
  have hh: "has m a ?c" "has m ?q [i32_of O_NUMPUSH, 0]" "has m ?p [i32_of O_FOR, v, of_nat ?j]" "has m ?b (?cs @ [i32_of O_STOP])"
    using h unfolding emit_stmt.simps Let_def has_append place_simps has_five b by blast+
  have j: "?j < 2 ^ 31" using has_short [OF hh(4) _ assms(1)] by simp
  have c: "inst_at m (int ?p) = Some O_FOR" "inst_at m (int ?p + 1) = Some (sint v)"
      "inst_at m (int ?p + 2) = Some (int ?j)"
    using has_code_at [OF hh(3), of 0] has_code_at [OF hh(3), of 1] code_at_target [OF hh(3), of 2 ?j] j
    by simp_all
  obtain n where n: "local_name ob m (sint v) = Some n" using ok by auto
  have l: "lists_stmts T ob m ?b ss" by (rule assms(2) [OF refl b [symmetric]])
  show "\<exists>ls ms. listed T ob m a (SFor v e ss) st (a + length (emit_stmt a (SFor v e ss))) ls ms"
    unfolding len
    by (rule listedI,
        rule goes_for [OF _ hh(1) refl hh(2) refl i(1) for_unfold [OF c(1,2) n]
          inner_halts [OF l _ hh(4) i] c(3)])
      (use ok n in \<open>simp_all add: b Let_def\<close>)
qed

section \<open>Statements of one line\<close>

lemma int_Suc_add: "int (p + Suc n) = int p + (1 + int n)"
  by simp

lemma lists_line1:
  assumes "emit_stmt a s = emit a e @ c # xs" "ok_stmt T ob m s \<Longrightarrow> ok1 T ob m e"
    "sint c = opc" "opc \<notin> block_ops"
    "\<And>br ib d. ok_stmt T ob m s \<Longrightarrow> stmt_lines T ob m br ib d s = [(d, h @ expr_text T ob m br 0 e @ t)]"
    "\<And>L. stmt_marks a L s = [(a + length (emit a e), L)]"
    "\<And>p st X V R r. ok_stmt T ob m s \<Longrightarrow> has m p (c # xs) \<Longrightarrow>
       line_step T ob m opc (int p) (lay st [r] X V R) = Some (map_option
         (\<lambda>st. (st, int p + (1 + int (length xs)))) (line_expr T ob m (d_indent st) h t (lay st [r] X V R)))"
  shows "lists_stmt T ob m a s"
proof (rule lists_stmtI)
  fix st :: dstate
  assume ok: "ok_stmt T ob m s" and "has m a (emit_stmt a s)" and i: "0 \<le> d_indent st"
  then have h: "has m a (emit a e)" "has m (a + length (emit a e)) (c # xs)"
    unfolding assms(1) has_append by blast+
  let ?p = "a + length (emit a e)"
  have g: "goes T ob m a st (?p + Suc (length xs))
      (wr [(d_indent st, h @ expr_text T ob m (d_brackets st) 0 e @ t)] [(?p, d_line st)] st)"
    by (rule goes_line1 [OF assms(2) [OF ok] h(1) refl h(2) assms(3,4) _ i], simp)
      (use assms(7) [OF ok h(2)] in \<open>simp only: int_Suc_add\<close>)
  have len: "a + length (emit_stmt a s) = ?p + Suc (length xs)" using assms(1) by simp
  show "\<exists>ls ms. listed T ob m a s st (a + length (emit_stmt a s)) ls ms"
    unfolding len by (rule listedI [OF g assms(5) [OF ok, symmetric] assms(6) [symmetric]])
qed

lemma lists_line2:
  assumes "\<And>q. q = a + length (emit a e) \<Longrightarrow> emit_stmt a s = emit a e @ emit q f @ c # xs"
    "ok_stmt T ob m s \<Longrightarrow> ok2 T ob m e f" "sint c = opc" "opc \<notin> block_ops"
    "\<And>br ib d. ok_stmt T ob m s \<Longrightarrow>
       stmt_lines T ob m br ib d s = [(d, h @ expr_text T ob m br 0 e @ b @ expr_text T ob m br 0 f @ t)]"
    "\<And>L. stmt_marks a L s = [(a + length (emit a e) + length (emit (a + length (emit a e)) f), L)]"
    "\<And>p st X V R rs. ok_stmt T ob m s \<Longrightarrow> has m p (c # xs) \<Longrightarrow>
       line_step T ob m opc (int p) (lay st rs X V R) = Some (map_option
         (\<lambda>st. (st, int p + (1 + int (length xs)))) (line_expr2 T ob m (d_indent st) h b t (lay st rs X V R)))"
  shows "lists_stmt T ob m a s"
proof (rule lists_stmtI)
  fix st :: dstate
  assume ok: "ok_stmt T ob m s" and h: "has m a (emit_stmt a s)" and i: "0 \<le> d_indent st"
  let ?q = "a + length (emit a e)"
  note e = assms(1) [OF refl]
  have h: "has m a (emit a e)" "has m ?q (emit ?q f)" "has m (?q + length (emit ?q f)) (c # xs)"
    using h unfolding e has_append by blast+
  let ?p = "?q + length (emit ?q f)"
  have g: "goes T ob m a st (?p + Suc (length xs))
      (wr [(d_indent st, h @ expr_text T ob m (d_brackets st) 0 e @ b @
        expr_text T ob m (d_brackets st) 0 f @ t)] [(?p, d_line st)] st)"
    by (rule goes_line2 [OF assms(2) [OF ok] h(1) refl h(2) refl h(3) assms(3,4) _ i], simp)
      (use assms(7) [OF ok h(3)] in \<open>simp only: int_Suc_add\<close>)
  have len: "a + length (emit_stmt a s) = ?p + Suc (length xs)" using e by simp
  show "\<exists>ls ms. listed T ob m a s st (a + length (emit_stmt a s)) ls ms"
    unfolding len by (rule listedI [OF g assms(5) [OF ok, symmetric] assms(6) [symmetric]])
qed

lemma lists_jump:
  assumes "opc \<notin> block_ops" "sint (i32_of opc) = opc" "emit_stmt a s = [i32_of opc, n]"
    "\<And>L. stmt_marks a L s = [(a, L)]" "\<And>br ib d. stmt_lines T ob m br ib d s = [(d, loop_text w n)]"
    "\<And>p st X R. inst_at m (int p + 1) = Some (sint n) \<Longrightarrow>
       line_step T ob m opc (int p) (lay st [] X [] R) = Some (map_option
         (\<lambda>st. (st, int p + 2)) (line_plain (d_indent st) (loop_text w n) (lay st [] X [] R)))"
  shows "lists_stmt T ob m a s"
proof (rule lists_stmtI)
  fix st :: dstate
  assume h: "has m a (emit_stmt a s)" and i: "0 \<le> d_indent st"
  then have h: "has m a [i32_of opc, n]" unfolding assms(3) by blast
  have n: "inst_at m (int a + 1) = Some (sint n)" using has_code_at [OF h, of 1] by simp
  show "\<exists>ls ms. listed T ob m a s st (a + length (emit_stmt a s)) ls ms"
    unfolding assms(3)
    by (rule listedI, rule goes_plain [OF h assms(2,1) _ i, where f = "\<lambda>st. st"])
      (simp_all add: assms(4,5) assms(6) [OF n, simplified] add.commute)
qed

text \<open>\<open>do\<close> is a line of its own, and its \<open>while\<close> ends it.\<close>

lemma goes_dowhile:
  assumes "ok1 T ob m e" "has m a (emit a e)" "p = a + length (emit a e)"
    "has m p (i32_of O_DOWHILE # xs)" "0 \<le> d_indent st"
  shows "goes T ob m a (inner st) (p + 3)
    (wr [(d_indent st, ''while ('' @ expr_text T ob m (d_brackets st) 0 e @ '');'')] [(p, d_line st)] st)"
proof (rule goesI)
  fix X R :: "inst list"
  assume l: "length X = MAX_TSTACK" "length R = MAX_TREE"
  obtain r Y V Q where e: "leads T ob m a (lay (inner st) [] X [] R) p (lay (inner st) [r] Y V Q)"
    "1 + length Y = MAX_TSTACK" "length V + length Q = MAX_TREE"
    "prints T ob m V r (ecells e) (etext T ob m e)"
    unfolding assms(3) by (rule expr_leads [OF assms(1,2) l]) blast
  let ?st = "wr [] [(p, d_line st)] st"
  have less: "indent_less (lay (inner ?st) [r] Y V Q) = lay ?st [r] Y V Q"
    by (cases st) (simp add: lay_def wr_def)
  have "line_expr T ob m (d_indent ?st) ''while ('' '');'' (lay ?st [r] Y V Q) =
      Some (lay (wr [(d_indent ?st, ''while ('' @ expr_text T ob m (d_brackets ?st) 0 e @ '');'')] [] ?st) []
        (r # Y) [] (V @ Q))"
    using assms(1,5) by (intro line_expr_lay [OF e(4)]) (simp_all add: ok1_def)
  then have "leads T ob m p (lay (inner st) [r] Y V Q) (p + 3)
      (lay (wr [(d_indent st, ''while ('' @ expr_text T ob m (d_brackets st) 0 e @ '');'')] [(p, d_line st)] st)
        [] (r # Y) [] (V @ Q))"
    by (intro leads_line [OF assms(4), of O_DOWHILE])
      (simp_all add: see_lay_mark wr_indent wr_wr line_step_def less [simplified] lay_indent same_indent)
  with leads_trans [OF e(1)] e(2,3)
  show "\<exists>X' R'. length X' = MAX_TSTACK \<and> length R' = MAX_TREE \<and> leads T ob m a (lay (inner st) [] X [] R) (p + 3)
      (lay (wr [(d_indent st, ''while ('' @ expr_text T ob m (d_brackets st) 0 e @ '');'')] [(p, d_line st)] st) [] X' [] R')"
    by (intro exI [of _ "r # Y"] exI [of _ "V @ Q"]) simp
qed

lemma lists_do:
  assumes "\<And>b. b = a + 2 \<Longrightarrow> lists_stmts T ob m b ss"
  shows "lists_stmt T ob m a (SDo ss e)"
proof (rule lists_stmtI)
  fix st :: dstate
  assume ok: "ok_stmt T ob m (SDo ss e)" and h: "has m a (emit_stmt a (SDo ss e))"
    and i: "0 \<le> d_indent st" "0 \<le> d_by st"
  let ?cs = "emit_stmts (a + 2) ss"
  let ?b = "a + 2 + length ?cs"
  let ?p = "?b + length (emit ?b e)"
  have len: "a + length (emit_stmt a (SDo ss e)) = ?p + 3"
    unfolding emit_stmt.simps Let_def by simp
  have two: "length [x, y] = 2" for x y :: i32 by simp
  obtain xs ys where hh: "has m a (i32_of O_DO # xs)" "has m (a + 2) ?cs" "has m ?b (emit ?b e)"
      "has m ?p (i32_of O_DOWHILE # ys)"
    using h unfolding emit_stmt.simps Let_def has_append two by blast
  let ?st = "wr [(d_indent st, ''do'')] [(a, d_line st)] st"
  have g1: "goes T ob m a st (a + 2) (inner ?st)"
    by (rule goes_plain [OF hh(1), of O_DO])
      (use i in \<open>simp_all add: line_step_def block_ops_def lay_indent add.commute\<close>)
  have "goes T ob m (a + 2) (inner ?st) ?b
      (wr (stmts_lines T ob m (d_brackets st) (d_by st) (d_indent st + d_by st) ss)
        (stmts_marks (a + 2) (d_line st + 1) ss) (inner ?st))"
    using lists_stmtsD [OF assms [OF refl] _ hh(2), of "inner ?st"] ok i by simp
  then have g2: "goes T ob m (a + 2) (inner ?st) ?b
      (inner (wr ((d_indent st, ''do'') # stmts_lines T ob m (d_brackets st) (d_by st) (d_indent st + d_by st) ss)
        ((a, d_line st) # stmts_marks (a + 2) (d_line st + 1) ss) st))"
    by (simp add: wr_indent wr_wr)
  show "\<exists>ls ms. listed T ob m a (SDo ss e) st (a + length (emit_stmt a (SDo ss e))) ls ms"
    unfolding len
    by (rule listedI, rule goes_trans [OF g1], rule goes_trans [OF g2],
        rule goes_dowhile [OF _ hh(3) refl hh(4), of T ob "wr _ _ st", unfolded wr_wr])
      (use ok i in \<open>simp_all add: Let_def lines_count add.assoc\<close>)
qed

section \<open>The parts of an \<open>if\<close>\<close>

lemma not_stop:
  "p \<in> leaf_ops \<Longrightarrow> sint (i32_of p) \<noteq> O_STOP"
  by (auto simp: leaf_ops_def)

text \<open>The code of an expression does not begin with \<open>STOP\<close>.\<close>

lemma emit_head:
  "wf_expr T ob m e \<Longrightarrow> \<exists>c xs. emit a e = c # xs \<and> sint c \<noteq> O_STOP"
  "emit_args a es = emit_args a es"
  "wf_pairs T ob m ps \<Longrightarrow> ps \<noteq> PNil \<Longrightarrow> \<exists>c xs. emit_pairs a ps = c # xs \<and> sint c \<noteq> O_STOP"
proof (induction a e and a es and a ps rule: emit_emit_args_emit_pairs.induct)
  case (8 a p)
  then show ?case using not_stop by auto
next
  case (15 a ps)
  then show ?case by (cases ps) auto
qed (auto simp: Let_def)

lemma elifs_head:
  assumes "ok_elifs T ob m r" "r \<noteq> EndIf"
  shows "\<exists>c xs. emit_elifs a r = c # xs \<and> sint c \<noteq> O_STOP"
proof (cases r)
  case (ElseIf e ss q)
  with assms emit_head(1) [of T ob m e a] show ?thesis by (auto simp: ok1_def Let_def)
qed (use assms in auto)

lemma lists_else:
  assumes "\<And>b. b = a + 1 \<Longrightarrow> lists_stmts T ob m b ss"
  shows "lists_elifs T ob m a (Else ss)"
  unfolding lists_elifs_def
proof (intro allI impI)
  fix st :: dstate
  assume ok: "ok_elifs T ob m (Else ss)" and h: "has m a (emit_elifs a (Else ss) @ [i32_of O_STOP])"
    and i: "0 \<le> d_indent st - d_by st" "0 \<le> d_by st"
  let ?cs = "emit_stmts (a + 1) ss"
  have hh: "has m a [i32_of O_ELSE]" "has m (a + 1) (?cs @ [i32_of O_STOP])"
    using h by (simp_all add: has_append)
  let ?st = "wr [(d_indent st - d_by st, ''else'')] [(a, d_line st)] st"
  have g: "goes T ob m a st (a + 1) ?st"
    by (rule goes_plain [OF hh(1), of O_ELSE, where f = "\<lambda>st. st"])
      (use i in \<open>simp_all add: line_step_def block_ops_def add.commute\<close>)
  have "halts T ob m (a + 1) ?st (Suc (length ?cs))
      (wr (elifs_lines T ob m (d_brackets st) (d_by st) (d_indent st - d_by st) (Else ss))
        (elifs_marks a (d_line st) (Else ss)) st)"
    using block_halts [OF assms [OF refl] _ hh(2), of ?st] ok i by (simp add: wr_wr)
  from goes_halts [OF g this zero_less_Suc]
  show "halts T ob m a st (length (emit_elifs a (Else ss)) + 1)
      (wr (elifs_lines T ob m (d_brackets st) (d_by st) (d_indent st - d_by st) (Else ss))
        (elifs_marks a (d_line st) (Else ss)) st)"
    by (rule halts_len) simp
qed

lemma lists_elseif:
  assumes "length (m_code m) < 2 ^ 31"
    "\<And>c b. c = emit a e \<Longrightarrow> b = a + length c + 2 \<Longrightarrow> lists_stmts T ob m b ss"
    "\<And>c b j. c = emit a e \<Longrightarrow> b = a + length c + 2 \<Longrightarrow> j = b + length (emit_stmts b ss @ [i32_of O_STOP]) \<Longrightarrow>
       lists_elifs T ob m j r"
  shows "lists_elifs T ob m a (ElseIf e ss r)"
  unfolding lists_elifs_def
proof (intro allI impI)
  fix st :: dstate
  assume ok: "ok_elifs T ob m (ElseIf e ss r)" and h: "has m a (emit_elifs a (ElseIf e ss r) @ [i32_of O_STOP])"
    and i: "0 \<le> d_indent st - d_by st" "0 \<le> d_by st"
  let ?p = "a + length (emit a e)"
  let ?b = "?p + 2"
  let ?cs = "emit_stmts ?b ss"
  let ?j = "?b + length ?cs + 1"
  let ?cr = "emit_elifs ?j r"
  have two: "i + length [x, y] = i + 2" for x y :: i32 and i by simp
  have hh: "has m a (emit a e)" "has m ?p [i32_of O_ELSEIF, of_nat ?j]"
      "has m ?b (?cs @ [i32_of O_STOP])" "has m ?j (?cr @ [i32_of O_STOP])"
    using h unfolding emit_elifs.simps Let_def append_assoc has_append place_simps two
    by blast+
  have len: "length (emit_elifs a (ElseIf e ss r)) + 1 = ?j - a + (length ?cr + 1)"
    unfolding emit_elifs.simps Let_def place_simps by simp
  have j: "?j < 2 ^ 31" using has_short [OF hh(3) _ assms(1)] by simp
  let ?st = "wr ((d_indent st - d_by st, ''elseif ('' @ expr_text T ob m (d_brackets st) 0 e @ '')'') #
      stmts_lines T ob m (d_brackets st) (d_by st) (d_indent st) ss)
    ((?p, d_line st) # stmts_marks ?b (d_line st + 1) ss @
      [(?b + length ?cs, d_line st + 1 + stmts_count ss)]) st"
  have "halts T ob m ?b (wr [(d_indent st - d_by st, ''elseif ('' @ expr_text T ob m (d_brackets st) 0 e @ '')'')]
      [(?p, d_line st)] st) (Suc (length ?cs)) ?st"
    using block_halts [OF assms(2) [OF refl refl] _ hh(3), of "wr [_] [_] st"] ok i by (simp add: wr_wr)
  from goes_elseif [OF _ hh(1) refl hh(2) j i(1) this] ok
  have g: "goes T ob m a st ?j ?st" by simp
  have r: "lists_elifs T ob m ?j r" by (rule assms(3) [OF refl refl]) simp
  have "halts T ob m ?j ?st (length ?cr + 1)
      (wr (elifs_lines T ob m (d_brackets ?st) (d_by ?st) (d_indent ?st - d_by ?st) r)
        (elifs_marks ?j (d_line ?st) r) ?st)"
    using lists_elifsD [OF r _ hh(4), of ?st] ok i by simp
  from goes_halts [OF g this]
  show "halts T ob m a st (length (emit_elifs a (ElseIf e ss r)) + 1)
      (wr (elifs_lines T ob m (d_brackets st) (d_by st) (d_indent st - d_by st) (ElseIf e ss r))
        (elifs_marks a (d_line st) (ElseIf e ss r)) st)"
    unfolding len by (simp add: wr_wr lines_count Let_def add.assoc del: One_nat_def)
qed

lemma lists_if:
  assumes "length (m_code m) < 2 ^ 31"
    "\<And>c b. c = emit a e \<Longrightarrow> b = a + length c + 3 \<Longrightarrow> lists_stmts T ob m b ss"
    "\<And>c b q. c = emit a e \<Longrightarrow> b = a + length c + 3 \<Longrightarrow> q = b + length (emit_stmts b ss @ [i32_of O_STOP]) \<Longrightarrow>
       lists_elifs T ob m q r"
  shows "lists_stmt T ob m a (SIf e ss r)"
proof (rule lists_stmtI)
  fix st :: dstate
  assume ok: "ok_stmt T ob m (SIf e ss r)" and h: "has m a (emit_stmt a (SIf e ss r))"
    and i: "0 \<le> d_indent st" "0 \<le> d_by st"
  let ?p = "a + length (emit a e)"
  let ?b = "?p + 3"
  let ?cs = "emit_stmts ?b ss"
  let ?k = "?b + length ?cs"
  let ?q = "?k + 1"
  let ?cr = "emit_elifs ?q r"
  let ?j = "?q + length ?cr + 1"
  have len: "a + length (emit_stmt a (SIf e ss r)) = ?j"
    unfolding emit_stmt.simps Let_def place_simps by simp
  have hh: "has m a (emit a e)" "has m ?p [i32_of O_IF, of_nat ?q, of_nat ?j]"
      "has m ?b (?cs @ [i32_of O_STOP])" "has m ?q (?cr @ [i32_of O_STOP])"
    using h unfolding emit_stmt.simps Let_def has_append place_simps by blast+
  have j: "?j < 2 ^ 31" using has_short [OF hh(4) _ assms(1)] by simp
  let ?l = "(d_indent st, ''if ('' @ expr_text T ob m (d_brackets st) 0 e @ '')'')"
  let ?ls = "?l # stmts_lines T ob m (d_brackets st) (d_by st) (d_indent st + d_by st) ss"
  let ?ms = "(?p, d_line st) # stmts_marks ?b (d_line st + 1) ss @ [(?k, d_line st + 1 + stmts_count ss)]"
  let ?ls' = "?ls @ elifs_lines T ob m (d_brackets st) (d_by st) (d_indent st) r"
  let ?ms' = "?ms @ (if r = EndIf then [] else elifs_marks ?q (d_line st + 1 + stmts_count ss) r)"
  have body: "halts T ob m ?b (inner (wr [?l] [(?p, d_line st)] st)) (Suc (length ?cs)) (inner (wr ?ls ?ms st))"
    using inner_halts [OF assms(2) [OF refl refl] _ hh(3) i, of ?l "[(?p, d_line st)]"] ok by simp
  have r: "lists_elifs T ob m ?q r" by (rule assms(3) [OF refl refl]) simp
  have rest: "halts T ob m ?q (inner (wr ?ls ?ms st)) (length ?cr + 1) (inner (wr ?ls' ?ms' st))" if "r \<noteq> EndIf"
    using lists_elifsD [OF r _ hh(4), of "inner (wr ?ls ?ms st)"] ok i that
    by (simp add: wr_indent wr_wr lines_count add.assoc)
  obtain c xs where c: "has m ?q (c # xs)" "sint c = O_STOP \<longleftrightarrow> r = EndIf"
  proof (cases "r = EndIf")
    case True
    with hh(4) that [of "i32_of O_STOP" "[]"] show ?thesis by simp
  next
    case False
    with ok elifs_head obtain c ys where "?cr = c # ys" "sint c \<noteq> O_STOP" by force
    with hh(4) that [of c "ys @ [i32_of O_STOP]"] False show ?thesis by simp
  qed
  have last: "if sint c = O_STOP then ?ls' = ?ls \<and> ?ms' = ?ms
      else halts T ob m ?q (inner (wr ?ls ?ms st)) (length ?cr + 1) (inner (wr ?ls' ?ms' st))"
  proof (cases "r = EndIf")
    case False
    with c(2) have n: "sint c \<noteq> O_STOP" by blast
    show ?thesis unfolding if_not_P [OF n] by (rule rest [OF False])
  qed (use c(2) in simp)
  have "goes T ob m a st ?j (wr (?ls' @ [(d_indent st, ''endif'')]) ?ms' st)"
    by (rule goes_if [OF _ hh(1) refl hh(2) j i(1) body c(1) last]) (use ok in auto)
  then show "\<exists>ls ms. listed T ob m a (SIf e ss r) st (a + length (emit_stmt a (SIf e ss r))) ls ms"
    unfolding len by (rule listedI) (simp_all add: Let_def)
qed

section \<open>The listing of a compiled method\<close>

lemma ok_zero: "ok1 T ob m (ENum 0)"
  by (simp add: ok1_def MAX_TSTACK_def MAX_TREE_def)

lemma num_text_zero: "num_text 0 = ''0''"
  by code_simp

lemma lists_cons:
  assumes "lists_stmt T ob m a s" "\<And>c. c = emit_stmt a s \<Longrightarrow> lists_stmts T ob m (a + length c) ss"
  shows "lists_stmts T ob m a (s # ss)"
  unfolding lists_stmts_def
proof (intro allI impI)
  fix st :: dstate
  assume ok: "ok_stmts T ob m (s # ss)" and h: "has m a (emit_stmts a (s # ss))"
    and i: "0 \<le> d_indent st" "0 \<le> d_by st"
  let ?j = "a + length (emit_stmt a s)"
  let ?st = "wr (stmt_lines T ob m (d_brackets st) (d_by st) (d_indent st) s) (stmt_marks a (d_line st) s) st"
  have hh: "has m a (emit_stmt a s)" "has m ?j (emit_stmts ?j ss)"
    using h by (simp_all add: has_append Let_def)
  have g: "goes T ob m a st ?j ?st"
    using assms(1) ok hh(1) i unfolding lists_stmt_def by simp
  from goes_trans [OF g lists_stmtsD [OF assms(2) [OF refl] _ hh(2), of ?st]] ok i
  show "goes T ob m a st (a + length (emit_stmts a (s # ss)))
      (wr (stmts_lines T ob m (d_brackets st) (d_by st) (d_indent st) (s # ss))
        (stmts_marks a (d_line st) (s # ss)) st)"
    by (simp add: wr_wr lines_count Let_def add.assoc)
qed

lemma has_second: "has m p [c, v] \<Longrightarrow> inst_at m (int p + 1) = Some (sint v)"
  using has_code_at [of m p "[c, v]" 1] by simp

lemmas line_rules = line_step_def block_ops_def loop_text_def

lemma lists_all:
  assumes "length (m_code m) < 2 ^ 31"
  shows "lists_stmt T ob m a s" "lists_stmts T ob m a ss" "lists_elifs T ob m a r"
proof (induction a s and a ss and a r rule: emit_stmt_emit_stmts_emit_elifs.induct)
  case (1 a e ss r)
  then show ?case by (intro lists_if [OF assms]) simp_all
next
  case (2 a v e ss)
  then show ?case by (intro lists_for [OF assms]) simp_all
next
  case (3 a v e f ss)
  then show ?case by (intro lists_forrng [OF assms]) simp_all
next
  case (4 a e ss)
  then show ?case by (intro lists_while [OF assms]) simp_all
next
  case (5 a ss e)
  then show ?case by (intro lists_do) simp_all
next
  case (6 a e ss)
  then show ?case by (intro lists_at [OF assms]) simp_all
next
  case (7 a e)
  show ?case
    by (rule lists_line1 [where e = "e" and h = "[]" and t = "'';''" and opc = O_POP and c = "i32_of O_POP" and xs = "[]"])
      (simp_all add: line_rules)
next
  case (8 a v e)
  show ?case
    by (rule lists_line1 [where e = e and h = "the (local_name ob m (sint v)) @ '' = ''" and t = "'';''" and opc = O_ASGNLVAR
        and c = "i32_of O_ASGNLVAR" and xs = "[v]"])
      (auto simp: line_rules has_second)
next
  case (9 a v e)
  show ?case
    by (rule lists_line1 [where e = e and h = "the (sym_str ob (sint v)) @ '' = ''" and t = "'';''" and opc = O_ASGNGVAR
        and c = "i32_of O_ASGNGVAR" and xs = "[v]"])
      (auto simp: line_rules has_second)
next
  case (10 a v e f)
  show ?case
    by (rule lists_line2 [where e = e and f = f and h = "the (local_name ob m (sint v)) @ ''[''" and b = "''] = ''" and t = "'';''"
        and opc = O_ASGNLVARINDEX and c = "i32_of O_ASGNLVARINDEX" and xs = "[v]"])
      (auto simp: line_rules has_second bind_map Let_def)
next
  case (11 a v e f)
  show ?case
    by (rule lists_line2 [where e = e and f = f and h = "the (sym_str ob (sint v)) @ ''[''" and b = "''] = ''" and t = "'';''"
        and opc = O_ASGNGVARINDEX and c = "i32_of O_ASGNGVARINDEX" and xs = "[v]"])
      (auto simp: line_rules has_second bind_map Let_def)
next
  case (12 a e)
  show ?case
    by (rule lists_line1 [where e = "e" and h = "''player = ''" and t = "'';''" and opc = O_SETPLAYER and c = "i32_of O_SETPLAYER" and xs = "[]"])
      (simp_all add: line_rules)
next
  case (13 a e)
  show ?case
    by (rule lists_line1 [where e = "e" and h = "''return ''" and t = "'';''" and opc = O_T_RETURN and c = "i32_of O_T_RETURN" and xs = "[]"])
      (simp_all add: line_rules)
next
  case (14 a)
  show ?case
    by (rule lists_line1 [where e = "ENum 0" and h = "''return ''" and t = "'';''" and opc = O_T_RETURN and c = "i32_of O_T_RETURN" and xs = "[]"])
      (simp_all add: line_rules ok_zero num_text_zero)
next
  case (15 a e)
  show ?case
    by (rule lists_line1 [where e = "e" and h = "''raise ''" and t = "'';''" and opc = O_T_RAISE and c = "i32_of O_T_RAISE" and xs = "[]"])
      (simp_all add: line_rules)
next
  case (16 a n)
  show ?case by (rule lists_jump [where opc = O_CONTINUE and w = "''continue''" and n = n]) (simp_all add: line_rules bind_map)
next
  case (17 a n)
  show ?case by (rule lists_jump [where opc = O_BREAK and w = "''break''" and n = n]) (simp_all add: line_rules bind_map)
next
  case (18 a)
  show ?case by (simp add: lists_stmts_def goes_refl)
next
  case (19 a s ss)
  then show ?case by (intro lists_cons) simp_all
next
  case (20 a)
  show ?case
    unfolding lists_elifs_def using goes_stop [OF goes_refl, of m a "[]"] by (simp del: has.simps)
next
  case (21 a ss)
  then show ?case by (intro lists_else) simp_all
next
  case (22 a e ss r)
  then show ?case by (intro lists_elseif [OF assms]) simp_all
qed 

text \<open>The declarations before the statements, and the whole listing.\<close>

definition header_text :: "object \<Rightarrow> cmethod \<Rightarrow> int \<Rightarrow> string" where
  "header_text ob m d =
     (if m_vars m = [] then [] else replicate (nat d) CHR '' '' @ ''var '' @
        commas (map (\<lambda>v. the (sym_str ob (vd_name v))) (m_vars m)) @ '';'' @ eol) @
     (let es = filter (\<lambda>i. m_ehandler m ! i = EH_IGNORE) [0..<NERRS] in
      if es = [] then [] else replicate (nat d) CHR '' '' @ ''ignore '' @
        commas (map (\<lambda>i. err_id2name (of_nat i)) es) @ '';'' @ eol)"

definition listing :: "servtab \<Rightarrow> object \<Rightarrow> cmethod \<Rightarrow> bool \<Rightarrow> bool \<Rightarrow> int \<Rightarrow> int \<Rightarrow> stmt list \<Rightarrow> string" where
  "listing T ob m number br ib d ss =
     header_text ob m (d + (if number then 6 else 0)) @ render number 1 (stmts_lines T ob m br ib d ss)"

text \<open>The line of the first mark at or after the instruction.\<close>

fun line_at :: "int \<Rightarrow> int \<Rightarrow> (nat \<times> int) list \<Rightarrow> int" where
  "line_at L pc [] = L"
| "line_at L pc ((i, K) # ms) = (if pc \<le> int i then K else line_at L pc ms)"

definition method_marks :: "stmt list \<Rightarrow> (nat \<times> int) list" where
  "method_marks ss = stmts_marks 0 1 ss @ [(length (emit_stmts 0 ss), 1 + stmts_count ss)]"

definition reported_line :: "int \<Rightarrow> stmt list \<Rightarrow> int" where
  "reported_line pc ss = (if 0 \<le> pc then line_at 1 pc (method_marks ss) else 1)"

lemma found_seen:
  "d_found (seen ms st) = (if 0 \<le> d_find st then line_at (d_found st) (d_find st) ms else d_found st)"
proof (induction ms arbitrary: st)
  case (Cons p ms)
  have "d_found (seen (p # ms) st) = d_found (seen ms (see_mark p st))" by simp
  also note Cons.IH
  also have "(if 0 \<le> d_find (see_mark p st)
      then line_at (d_found (see_mark p st)) (d_find (see_mark p st)) ms else d_found (see_mark p st)) =
    (if 0 \<le> d_find st then line_at (d_found st) (d_find st) (p # ms) else d_found st)"
    by (cases p) (simp add: see_mark_def)
  finally show ?case .
qed simp

lemma header_written:
  assumes "NERRS \<le> length (m_ehandler m)" "\<forall>v\<in>set (m_vars m). sym_str ob (vd_name v) \<noteq> None" "0 \<le> d_indent st"
  shows "Option.bind (decompile_local_vars ob m st) (decompile_ehandler m) = Some (st\<lparr>d_buf :=
    bcat (d_buf st) (header_text ob m (d_indent st + (if d_number st then 6 else 0)))\<rparr>)"
proof -
  let ?d = "d_indent st + (if d_number st then 6 else 0)"
  have d: "0 \<le> ?d" using assms(3) by simp
  have "mapM (\<lambda>v. sym_str ob (vd_name v)) vs = Some (map (\<lambda>v. the (sym_str ob (vd_name v))) vs)"
    if "\<forall>v\<in>set vs. sym_str ob (vd_name v) \<noteq> None" for vs
    using that by (induction vs) auto
  from this [OF assms(2)] have v: "decompile_local_vars ob m st = Some (st\<lparr>d_buf := bcat (d_buf st)
      (if m_vars m = [] then [] else replicate (nat ?d) CHR '' '' @ ''var '' @
        commas (map (\<lambda>v. the (sym_str ob (vd_name v))) (m_vars m)) @ '';'' @ eol)\<rparr>)"
    using string_indent_cat_ok [OF d] by (simp add: decompile_local_vars_def)
  show ?thesis
    unfolding v using assms(1) string_indent_cat_ok [OF d]
    by (simp add: decompile_ehandler_def header_text_def Let_def)
qed

text \<open>
  What a listing takes: code no longer than an \<open>int\<close> can count, names that are in the symbol
  table, expressions that fit in the two arrays, a handler for every error.
\<close>

definition listable :: "servtab \<Rightarrow> object \<Rightarrow> cmethod \<Rightarrow> stmt list \<Rightarrow> bool" where
  "listable T ob m ss \<longleftrightarrow> length (m_code m) < 2 ^ 31 \<and> ok_stmts T ob m ss \<and>
     NERRS \<le> length (m_ehandler m) \<and> (\<forall>v\<in>set (m_vars m). sym_str ob (vd_name v) \<noteq> None)"

definition statics_ok :: "dstate \<Rightarrow> bool" where
  "statics_ok st \<longleftrightarrow> length (d_stack st) = MAX_TSTACK \<and> length (d_tree st) = MAX_TREE"

text \<open>The text comes to this before its last line end is taken off.\<close>

lemma decompile_method_runs:
  assumes "m_code m = emit_stmts 0 ss @ [i32_of O_STOP]" "listable T ob m ss" "statics_ok st"
    "0 \<le> indent" "0 \<le> by" "length (m_code m) \<le> fuel"
  shows "\<exists>st'. d_buf st' = bcat b (listing T ob m (number \<noteq> 0) (brackets \<noteq> 0) by indent ss) \<and>
    decompile_method fuel T b ob m number brackets by indent pc st =
      (case d_buf st' of
         None \<Rightarrow> Some (None, reported_line pc ss, st')
       | Some s \<Rightarrow> if length s < 2 then None
                 else Some (Some (take (length s - 2) s), reported_line pc ss, st'))"
proof -
  let ?st = "st\<lparr>d_ptr := 0, d_sp := 0, d_number := number \<noteq> 0, d_by := by, d_brackets := brackets \<noteq> 0,
    d_line := 1, d_found := 1, d_find := pc, d_indent := indent, d_buf := b\<rparr>"
  let ?h = "header_text ob m (indent + (if number \<noteq> 0 then 6 else 0))"
  let ?s1 = "?st\<lparr>d_buf := bcat b ?h\<rparr>"
  have hs: "has m 0 (emit_stmts 0 ss @ [i32_of O_STOP])" using has_code [of m] assms(1) by simp
  have h: "Option.bind (decompile_local_vars ob m ?st) (decompile_ehandler m) = Some ?s1"
    using header_written [of m ob ?st] assms(2,4) by (simp add: listable_def)
  let ?ls = "stmts_lines T ob m (brackets \<noteq> 0) by indent ss"
  have "halts T ob m 0 ?s1 (Suc (length (emit_stmts 0 ss))) (wr ?ls (method_marks ss) ?s1)"
    using block_halts [OF lists_all(2) _ hs, of T ob ?s1] assms(2,4,5)
    by (simp add: method_marks_def listable_def)
  moreover have "?s1 = lay ?s1 [] (d_stack st) [] (d_tree st)" by (simp add: lay_def)
  ultimately obtain X' R' where e: "ends T ob m 0 ?s1 (Suc (length (emit_stmts 0 ss)))
      (lay (wr ?ls (method_marks ss) ?s1) [] X' [] R')"
    using assms(3) unfolding halts_def statics_ok_def by metis
  let ?st' = "lay (wr ?ls (method_marks ss) ?s1) [] X' [] R'"
  have d: "decompile_stmts fuel T ob m 0 ?s1 = Some ?st'"
    using e assms(1,6) by (simp add: ends_def)
  have f: "d_found ?st' = reported_line pc ss"
    by (simp add: wr_def lay_def found_seen reported_line_def)
  have g: "d_buf ?st' = bcat b (listing T ob m (number \<noteq> 0) (brackets \<noteq> 0) by indent ss)"
    by (simp add: wr_def lay_def listing_def)
  obtain y where y: "decompile_local_vars ob m ?st = Some y" "decompile_ehandler m y = Some ?s1"
    using h by (auto simp: bind_eq_Some_conv)
  have "decompile_method fuel T b ob m number brackets by indent pc st =
    (case d_buf ?st' of None \<Rightarrow> Some (None, d_found ?st', ?st')
     | Some s \<Rightarrow> if length s < 2 then None else Some (Some (take (length s - 2) s), d_found ?st', ?st'))"
    unfolding decompile_method_def Let_def y bind.bind_lunit by (simp only: y d bind.bind_lunit)
  then show ?thesis unfolding f by (intro exI [of _ ?st'] conjI g)
qed

lemma compiled_code:
  "mach_ok mc \<Longrightarrow> mc_progi mc = 0 \<Longrightarrow> m_code (fst (compile_body m ss mc)) = emit_stmts 0 ss @ [i32_of O_STOP]"
  by (simp add: compile_body_code)


section \<open>The line of an instruction\<close>

definition within :: "nat \<Rightarrow> nat \<Rightarrow> (nat \<times> int) list \<Rightarrow> bool" where
  "within lo hi ms \<longleftrightarrow> (\<forall>p\<in>set ms. lo \<le> fst p \<and> fst p < hi)"

lemma within_simps:
  "within lo hi []"
  "within lo hi (p # ms) \<longleftrightarrow> lo \<le> fst p \<and> fst p < hi \<and> within lo hi ms"
  "within lo hi (ms @ ns) \<longleftrightarrow> within lo hi ms \<and> within lo hi ns"
  by (auto simp: within_def)

lemma marks_within:
  "lo \<le> a \<Longrightarrow> a + length (emit_stmt a s) \<le> hi \<Longrightarrow> within lo hi (stmt_marks a L s)"
  "lo \<le> a \<Longrightarrow> a + length (emit_stmts a ss) \<le> hi \<Longrightarrow> within lo hi (stmts_marks a L ss)"
  "lo \<le> a \<Longrightarrow> a + length (emit_elifs a r) < hi \<Longrightarrow> within lo hi (elifs_marks a L r)"
  by (induction s and ss and r arbitrary: lo hi a L and lo hi a L and lo hi a L
      rule: stmt_count_stmts_count_elifs_count.induct)
    (auto simp: Let_def within_simps numeral_eq_Suc)

lemma emit_stmts_append:
  "emit_stmts a (xs @ ys) = emit_stmts a xs @ emit_stmts (a + length (emit_stmts a xs)) ys"
  by (induction xs arbitrary: a) (simp_all add: Let_def add.assoc)

lemma stmts_count_append: "stmts_count (xs @ ys) = stmts_count xs + stmts_count ys"
  by (induction xs) simp_all

lemma stmts_marks_append:
  "stmts_marks a L (xs @ ys) = stmts_marks a L xs @
     stmts_marks (a + length (emit_stmts a xs)) (L + stmts_count xs) ys"
  by (induction xs arbitrary: a L) (simp_all add: Let_def add.assoc)

lemma first_mark: "\<exists>i ms. stmt_marks a L s = (i, L) # ms"
  by (cases s) (simp_all add: Let_def)

lemma line_at_skip:
  "\<forall>(i, K) \<in> set ms. int i < pc \<Longrightarrow> line_at L pc (ms @ ns) = line_at L pc ns"
  by (induction ms) auto

lemma reported_line_at:
  assumes "int (length (emit_stmts 0 pre)) \<le> pc"
  shows "reported_line pc (pre @ post) = line_at 1 pc
    (stmts_marks (length (emit_stmts 0 pre)) (1 + stmts_count pre) post @
      [(length (emit_stmts 0 (pre @ post)), 1 + stmts_count (pre @ post))])"
proof -
  have "\<forall>(i, K) \<in> set (stmts_marks 0 1 pre). int i < pc"
    using marks_within(2) [of 0 0 pre _ 1] assms by (fastforce simp: within_def)
  then show ?thesis
    using assms by (simp add: reported_line_def method_marks_def stmts_marks_append line_at_skip)
qed

text \<open>Between its first instruction and the one that ends its first line, a statement is on its line.\<close>

lemma reported_inside:
  assumes "int (length (emit_stmts 0 pre)) \<le> pc"
    "pc \<le> int (fst (hd (stmt_marks (length (emit_stmts 0 pre)) 1 s)))"
  shows "reported_line pc (pre @ s # post) = 1 + stmts_count pre"
proof -
  let ?a = "length (emit_stmts 0 pre)"
  have "fst (hd (stmt_marks ?a L s)) = fst (hd (stmt_marks ?a 1 s))" for L by (cases s) (simp_all add: Let_def)
  with first_mark [of ?a "1 + stmts_count pre" s] assms(2)
  obtain i ms where "stmt_marks ?a (1 + stmts_count pre) s = (i, 1 + stmts_count pre) # ms" "pc \<le> int i"
    by (metis fst_conv list.sel(1))
  then show ?thesis using reported_line_at [OF assms(1), of "s # post"] by (simp add: Let_def)
qed

text \<open>Just behind a statement, the line is that of the next one.\<close>

lemma reported_behind:
  assumes "pc = int (length (emit_stmts 0 pre))"
  shows "reported_line pc (pre @ post) = 1 + stmts_count pre"
proof (cases post)
  case Nil
  then show ?thesis using reported_line_at [of pre pc "[]"] assms by simp
next
  case (Cons s ss)
  let ?a = "length (emit_stmts 0 pre)"
  obtain i ms where f: "stmt_marks ?a 1 s = (i, 1) # ms" using first_mark by blast
  then have "?a \<le> i" using marks_within(1) [of ?a ?a s "?a + length (emit_stmt ?a s)" 1] by (simp add: within_simps)
  then show ?thesis using reported_inside [of pre pc s ss] assms f Cons by simp
qed

end
