(* ===== verification/TraceSpecs.thy ===== *)
theory TraceSpecs
  imports Locks DecodeSpecs
begin

text \<open>
  The unparser at work in the interpreter: the line a traceback names, the listing of a method.
  The theorems of the last section say where a listing or a line is not what it should be.
\<close>

section \<open>A method with lines\<close>

text \<open>
  \<open>while (1)  this.(0);  endwhile  raise 7;\<close>, compiled on a fresh array.
\<close>

definition demo_body :: "stmt list" where
  "demo_body = [SWhile (ENum 1) [SExpr (EMsgExpr (ELeaf O_THIS) (ENum 0) [])], SRaise (ENum 7)]"

definition demo_compiled :: cmethod where
  "demo_compiled = fst (compile_body (demo_method []) demo_body \<lparr>mc_mem = [], mc_progi = 0\<rparr>)"

lemma demo_fresh: "mach_ok \<lparr>mc_mem = [], mc_progi = 0\<rparr>" "mc_progi \<lparr>mc_mem = [], mc_progi = 0\<rparr> = 0"
  by (simp_all add: mach_ok_def)

lemma demo_compiled_fields:
  "m_code demo_compiled = emit_stmts 0 demo_body @ [i32_of O_STOP]"
  "m_vars demo_compiled = []" "m_ehandler demo_compiled = replicate 25 EH_DEFAULT" "m_name demo_compiled = 0"
  by (simp_all add: demo_compiled_def compile_body_code mach_ok_def demo_method_def)

lemma demo_length: "length (m_code demo_compiled) = 16"
  by (simp add: demo_compiled_fields demo_body_def Let_def)

lemma demo_listable: "listable T ob demo_compiled demo_body"
  unfolding listable_def demo_length
  by (simp add: demo_compiled_fields demo_body_def ok1_def leaf_ops_def MAX_TSTACK_def MAX_TREE_def NERRS_def)

lemma demo_statics_ok: "statics_ok demo_statics"
  by (simp add: statics_ok_def demo_statics_def)

lemma demo_digits: "num_text 1 = ''1''" "num_text 7 = ''7''" "num_text 3 = ''3''" "num_text 4 = ''4''"
  by code_simp+


text \<open>
  C16: the generator, which writes instruction by instruction into an array that doubles when it is
  full and patches the jumps afterwards, leaves in the method exactly the code of its statements,
  each jump with its target, and a \<open>STOP\<close>; the array is given back.
\<close>

theorem generator_writes_code:
  assumes "mach_ok mc" "mc_progi mc = 0"
  shows "compile_body m ss mc =
    (m\<lparr>m_code := emit_stmts 0 ss @ [i32_of O_STOP]\<rparr>, \<lparr>mc_mem = [], mc_progi = 0\<rparr>)"
  using assms by (rule compile_body_code)

theorem generator_writes_code_witness:
  "length (m_code (fst (compile_body (demo_method []) (replicate 20 (SReturn (ENum 7)))
     \<lparr>mc_mem = [], mc_progi = 0\<rparr>))) = 61"
  using generator_writes_code [OF demo_fresh, of "demo_method []" "replicate 20 (SReturn (ENum 7))"]
  by (simp add: eval_nat_numeral)

section \<open>The line a traceback names\<close>

lemma find_lineno_compiled:
  assumes "m_code m = emit_stmts 0 ss @ [i32_of O_STOP]" "listable (e_servers E) ob m ss"
    "statics_ok (e_statics E w)" "length (m_code m) \<le> e_fuel E"
  shows "find_lineno E ob m i w = Some (reported_line i ss)"
  using decompile_method_runs [OF assms(1-3) _ _ assms(4), of 0 0 None 0 0 i]
  by (auto simp: find_lineno_def)


lemma demo_limits: "e_max_ticks demo_env = 10" "e_max_age demo_env = 20"
  by (simp_all add: demo_env_def)

lemma demo_env_fields: "e_servers demo_env = demo_servers" "e_fuel demo_env = 20"
  "e_statics demo_env w = demo_statics"
  by (simp_all add: demo_env_def)


text \<open>
  C36: an error at the instruction that ends a line is reported on the next one, since the counter
  has moved on by then. So is every \<open>raise\<close>.
\<close>

theorem raise_names_next_line:
  assumes "mach_ok mc" "mc_progi mc = 0" "m = fst (compile_body m0 (pre @ SRaise e # post) mc)"
    "listable (e_servers E) ob m (pre @ SRaise e # post)" "\<And>w. statics_ok (e_statics E w)"
    "length (m_code m) \<le> e_fuel E"
    "ev_on (w_frame w) = ob" "ev_m (w_frame w) = m"
    "ev_pc (w_frame w) = int (length (emit_stmts 0 (pre @ [SRaise e])))"
    "stack w = S @ [VERR n]" "server (ev_caller (w_frame w)) = 0" "0 \<le> sint (ev_msgid (w_frame w))"
    "sym_str ob (m_name m) \<noteq> None" "obj_text (e_servers E) (o_id ob) \<noteq> None"
  shows "\<exists>w' msg t. op_raise E w = Some w' \<and> w_state w' = RAISED \<and> w_msgs w' = w_msgs w @ [msg] \<and>
    ms_args msg = [VERR n, VSTRs (t @ '', line '' @ num_text (2 + stmts_count pre))]"
proof -
  have c: "m_code m = emit_stmts 0 (pre @ SRaise e # post) @ [i32_of O_STOP]"
    unfolding assms(3) by (rule compiled_code [OF assms(1,2)])
  have "reported_line (int (length (emit_stmts 0 (pre @ [SRaise e])))) ((pre @ [SRaise e]) @ post) =
      1 + stmts_count (pre @ [SRaise e])"
    by (rule reported_behind) (rule refl)
  then have "find_lineno E ob m (int (length (emit_stmts 0 (pre @ [SRaise e])))) w' = Some (2 + stmts_count pre)" for w'
    using find_lineno_compiled [OF c assms(4,5,6)] by (simp add: stmts_count_append)
  with assms(7-14) show ?thesis
    by (auto simp: op_raise_def pop_def add_traceback_header_def add_traceback_def send_raise_def
      send_message_def frame_message_def msg_add_def Let_def)
qed

text \<open>The demo method, behind its \<open>raise\<close> in the fourth line.\<close>

definition demo_raising :: world where
  "demo_raising = (demo_world [] [VERR 2])\<lparr>w_frame := (demo_frame [] [VERR 2])
     \<lparr>ev_m := demo_compiled, ev_pc := 15, ev_caller := local_id 2\<rparr>\<rparr>"

theorem raise_names_next_line_witness:
  "\<exists>w' msg t. op_raise demo_env demo_raising = Some w' \<and> w_msgs w' = [msg] \<and>
     ms_args msg = [VERR 2, VSTRs (t @ '', line 5'')]"
proof -
  have s: "demo_body = [SWhile (ENum 1) [SExpr (EMsgExpr (ELeaf O_THIS) (ENum 0) [])]] @ SRaise (ENum 7) # []"
    by (simp add: demo_body_def)
  have id: "o_id (demo_root []) = local_id 1" by (simp add: demo_root_def)
  have five: "num_text 5 = ''5''" by code_simp
  have t: "obj_text demo_servers (local_id 1) \<noteq> None"
    by (simp add: obj_text_def catobj_def serv_id2name_def serv_find_def demo_servers_def
      demo_self_def demo_server_def)
  show ?thesis
    using raise_names_next_line [OF demo_fresh demo_compiled_def [unfolded s], of demo_env "demo_root []"
        demo_raising "[]" 2] t
      demo_listable [unfolded s] demo_statics_ok demo_length demo_name
    by (simp add: demo_env_fields demo_compiled_fields demo_raising_def demo_world_def demo_frame_def
      Let_def five id) blast
qed

section \<open>Listings that are not the source\<close>

text \<open>
  C37: brackets around the receiver of a message are lost: \<open>(x + y).n\<close> and \<open>x + y.n\<close> have the same
  listing, and are not the same code.
\<close>

theorem receiver_brackets_lost:
  assumes "mach_ok mc" "mc_progi mc = 0"
    "m1 = fst (compile_body m0 [SReturn (EMsg (EBin O_ADD (ELocal x) (ELocal y)) n [])] mc)"
    "m2 = fst (compile_body m0 [SReturn (EBin O_ADD (ELocal x) (EMsg (ELocal y) n []))] mc)"
    "listable T ob m1 [SReturn (EMsg (EBin O_ADD (ELocal x) (ELocal y)) n [])]"
    "listable T ob m2 [SReturn (EBin O_ADD (ELocal x) (EMsg (ELocal y) n []))]"
    "statics_ok st" "0 \<le> indent" "0 \<le> by" "20 \<le> fuel"
  shows "m_code m1 \<noteq> m_code m2 \<and>
    map_option fst (decompile_method fuel T b ob m1 number 0 by indent i st) =
    map_option fst (decompile_method fuel T b ob m2 number 0 by indent i st)"
proof -
  let ?s1 = "[SReturn (EMsg (EBin O_ADD (ELocal x) (ELocal y)) n [])]"
  let ?s2 = "[SReturn (EBin O_ADD (ELocal x) (EMsg (ELocal y) n []))]"
  have c: "m_code m1 = emit_stmts 0 ?s1 @ [i32_of O_STOP]" "m_code m2 = emit_stmts 0 ?s2 @ [i32_of O_STOP]"
    unfolding assms(3,4) by (rule compiled_code [OF assms(1,2)])+
  have f: "m_vars m1 = m_vars m2" "m_ehandler m1 = m_ehandler m2"
    using compile_body_code [OF assms(1,2)] assms(3,4) by simp_all
  then have n: "local_name ob m1 k = local_name ob m2 k" for k
    by (simp add: local_name_def var_find_local_def)
  have l: "listing T ob m1 (number \<noteq> 0) False by indent ?s1 = listing T ob m2 (number \<noteq> 0) False by indent ?s2"
    by (simp add: listing_def header_text_def f n paren_def expr_prec_def prec_table_def)
  have z: "length (m_code m1) \<le> fuel" "length (m_code m2) \<le> fuel" using c assms(10) by (simp_all add: Let_def)
  obtain st1 st2 where
    "d_buf st1 = bcat b (listing T ob m1 (number \<noteq> 0) False by indent ?s1)"
    "decompile_method fuel T b ob m1 number 0 by indent i st = (case d_buf st1 of
       None \<Rightarrow> Some (None, reported_line i ?s1, st1)
     | Some s \<Rightarrow> if length s < 2 then None else Some (Some (take (length s - 2) s), reported_line i ?s1, st1))"
    "d_buf st2 = bcat b (listing T ob m2 (number \<noteq> 0) False by indent ?s2)"
    "decompile_method fuel T b ob m2 number 0 by indent i st = (case d_buf st2 of
       None \<Rightarrow> Some (None, reported_line i ?s2, st2)
     | Some s \<Rightarrow> if length s < 2 then None else Some (Some (take (length s - 2) s), reported_line i ?s2, st2))"
    using decompile_method_runs [OF c(1) assms(5,7-9) z(1), of b number 0 i]
      decompile_method_runs [OF c(2) assms(6,7-9) z(2), of b number 0 i] by auto
  moreover have "m_code m1 \<noteq> m_code m2" unfolding c by (simp add: Let_def)
  ultimately show ?thesis by (simp add: l split: option.split)
qed

text \<open>A method of two local variables.\<close>

definition demo_twice :: cmethod where
  "demo_twice = (demo_method [])\<lparr>m_vars := [\<lparr>vd_name = 0, vd_value = VNUM 0\<rparr>, \<lparr>vd_name = 0, vd_value = VNUM 0\<rparr>]\<rparr>"

theorem receiver_brackets_lost_witness:
  "\<exists>c1 c2 t. c1 \<noteq> c2 \<and> (\<exists>st1 st2.
     decompile_method 20 demo_servers (Some []) (demo_root []) (demo_twice\<lparr>m_code := c1\<rparr>) 0 0 2 0 0 demo_statics =
       Some (t, st1) \<and>
     decompile_method 20 demo_servers (Some []) (demo_root []) (demo_twice\<lparr>m_code := c2\<rparr>) 0 0 2 0 0 demo_statics =
       Some (t, st2))"
proof -
  let ?s1 = "[SReturn (EMsg (EBin O_ADD (ELocal 0) (ELocal 1)) 0 [])]"
  let ?s2 = "[SReturn (EBin O_ADD (ELocal 0) (EMsg (ELocal 1) 0 []))]"
  let ?m1 = "demo_twice\<lparr>m_code := emit_stmts 0 ?s1 @ [i32_of O_STOP]\<rparr>"
  let ?m2 = "demo_twice\<lparr>m_code := emit_stmts 0 ?s2 @ [i32_of O_STOP]\<rparr>"
  have m: "?m1 = fst (compile_body demo_twice ?s1 \<lparr>mc_mem = [], mc_progi = 0\<rparr>)"
    "?m2 = fst (compile_body demo_twice ?s2 \<lparr>mc_mem = [], mc_progi = 0\<rparr>)"
    by (simp_all only: compile_body_code [OF demo_fresh] fst_conv)
  have n: "local_name (demo_root []) (demo_twice\<lparr>m_code := c\<rparr>) 0 = Some ''run''"
    "local_name (demo_root []) (demo_twice\<lparr>m_code := c\<rparr>) 1 = Some ''run''" for c
    by (simp_all add: local_name_def var_find_local_def demo_twice_def demo_name)
  have l: "listable demo_servers (demo_root []) ?m1 ?s1" "listable demo_servers (demo_root []) ?m2 ?s2"
    by (simp_all add: listable_def n ok1_def bin_ops_def demo_name MAX_TSTACK_def MAX_TREE_def NERRS_def Let_def)
      (simp_all add: demo_twice_def demo_method_def demo_name)
  have v: "header_text (demo_root []) ?m1 0 \<noteq> []" 
    by (simp add: header_text_def demo_twice_def)
  have len: "length (m_code ?m1) \<le> 20" by (simp add: Let_def)
  obtain st1 where d: "d_buf st1 = bcat (Some []) (listing demo_servers (demo_root []) ?m1 False False 2 0 ?s1)"
    "decompile_method 20 demo_servers (Some []) (demo_root []) ?m1 0 0 2 0 0 demo_statics = (case d_buf st1 of
       None \<Rightarrow> Some (None, reported_line 0 ?s1, st1)
     | Some s \<Rightarrow> if length s < 2 then None else Some (Some (take (length s - 2) s), reported_line 0 ?s1, st1))"
    using decompile_method_runs [OF _ l(1) demo_statics_ok _ _ len, of 0 2 "Some []" 0 0 0] by auto
  have "2 \<le> length (listing demo_servers (demo_root []) ?m1 False False 2 0 ?s1)"
    by (simp add: listing_def line_text_def)
  with d obtain t u where t: "decompile_method 20 demo_servers (Some []) (demo_root []) ?m1 0 0 2 0 0 demo_statics = Some (t, u)"
    by simp
  have r: "m_code ?m1 \<noteq> m_code ?m2"
    "map_option fst (decompile_method 20 demo_servers (Some []) (demo_root []) ?m1 0 0 2 0 0 demo_statics) =
     map_option fst (decompile_method 20 demo_servers (Some []) (demo_root []) ?m2 0 0 2 0 0 demo_statics)"
    using receiver_brackets_lost [OF demo_fresh m l demo_statics_ok, of 0 2 20 "Some []" 0 0] by simp_all
  have "map_option fst (decompile_method 20 demo_servers (Some []) (demo_root []) ?m2 0 0 2 0 0 demo_statics) = Some t"
    unfolding r(2) [symmetric] t by simp
  then obtain u' where
    "decompile_method 20 demo_servers (Some []) (demo_root []) ?m2 0 0 2 0 0 demo_statics = Some (t, u')"
    unfolding map_option_eq_Some by (metis prod.collapse)
  moreover have "emit_stmts 0 ?s1 @ [i32_of O_STOP] \<noteq> emit_stmts 0 ?s2 @ [i32_of O_STOP]"
    by (simp add: Let_def)
  ultimately show ?thesis using t by blast
qed

text \<open>
  The listing of a method without statements and declarations is undefined: its text is
  empty, and \<open>decompile_method\<close> takes two characters off it.
\<close>

theorem empty_listing_undefined:
  assumes "mach_ok mc" "mc_progi mc = 0" "m = fst (compile_body m0 [] mc)"
    "m_vars m0 = []" "NERRS \<le> length (m_ehandler m0)" "\<forall>k<NERRS. m_ehandler m0 ! k \<noteq> EH_IGNORE"
    "statics_ok (e_statics E w)" "0 \<le> indent" "0 < e_fuel E"
  shows "list_method E number brackets indent w ob m = None"
proof -
  have c: "m_code m = emit_stmts 0 [] @ [i32_of O_STOP]"
    unfolding assms(3) by (rule compiled_code [OF assms(1,2)])
  have f: "m_vars m = []" "m_ehandler m = m_ehandler m0"
    using compile_body_code [OF assms(1,2)] assms(3,4) by simp_all
  have "listable (e_servers E) ob m []" using c f assms(5) by (simp add: listable_def)
  moreover have "listing (e_servers E) ob m (number \<noteq> 0) (brackets \<noteq> 0) indent 0 [] = []"
    using f assms(6) by (simp add: listing_def header_text_def filter_empty_conv)
  moreover have "length (m_code m) \<le> e_fuel E" using c assms(9) by simp
  ultimately show ?thesis
    using decompile_method_runs [OF c _ assms(7) order_refl assms(8), of "e_servers E" ob "e_fuel E" "Some []" number brackets 0]
    by (auto simp: list_method_def)
qed

theorem empty_listing_undefined_witness:
  "list_method demo_env 1 0 2 (demo_world [] []) (demo_root []) (demo_method [305]) = None"
proof -
  have "demo_method [305] = fst (compile_body (demo_method []) [] \<lparr>mc_mem = [], mc_progi = 0\<rparr>)"
    by (simp add: compile_body_code mach_ok_def demo_method_def)
  from empty_listing_undefined [OF demo_fresh this, of demo_env "demo_world [] []" 2] show ?thesis
    by (simp add: demo_env_fields demo_statics_ok demo_method_def NERRS_def)
qed

section \<open>A call at the last tick\<close>

text \<open>The statement \<open>this.(0);\<close>, about to send.\<close>

definition demo_call :: "i32 list" where
  "demo_call = emit_stmts 0 [SExpr (EMsgExpr (ELeaf O_THIS) (ENum 0) [])] @ [i32_of O_STOP]"

lemma demo_call_line:
  "find_lineno demo_env (demo_root demo_call) (demo_method demo_call) 5 w = Some 1"
proof -
  let ?s = "[SExpr (EMsgExpr (ELeaf O_THIS) (ENum 0) [])]"
  have "listable (e_servers demo_env) (demo_root demo_call) (demo_method demo_call) ?s"
    by (simp add: listable_def demo_method_def demo_call_def ok1_def leaf_ops_def MAX_TSTACK_def
      MAX_TREE_def NERRS_def)
  moreover have "reported_line 5 ?s = 1" by (simp add: reported_line_def method_marks_def)
  ultimately show ?thesis
    using find_lineno_compiled [of "demo_method demo_call" ?s demo_env "demo_root demo_call" w 5]
    by (simp add: demo_method_def demo_call_def demo_env_fields demo_statics_ok)
qed

theorem blocked_at_limit_witness:
  "\<exists>w' go. exec_op demo_env ((demo_world demo_call [])
      \<lparr>w_frame := (demo_frame demo_call [VOBJ (local_id 2), VSTRs ''run'', VPC (-405)])
         \<lparr>ev_ticks := 9, ev_pc := 4\<rparr>\<rparr>) = Some (w', go) \<and> w_state w' = RAISED \<and> w_events w' \<noteq> []"
proof -
  let ?f = "(demo_frame demo_call [VOBJ (local_id 2), VSTRs ''run'', VPC (-405)])\<lparr>ev_ticks := 9, ev_pc := 4\<rparr>"
  let ?w = "(demo_world demo_call [])\<lparr>w_frame := ?f\<rparr>"
  let ?start = "set_frame (\<lambda>f. f\<lparr>ev_last := O_MESSAGE_EXPR, ev_pc := ev_pc f + 1\<rparr>) ?w"
  have op: "\<exists>ent. opcodes O_MESSAGE_EXPR = Some (Some ent)"
    by (simp add: opcodes_def opcode_info_def LAST_TOKEN_def)
  have code: "code_at ?w (pc ?w) = Some O_MESSAGE_EXPR"
    by (simp add: code_at_def demo_machine demo_method_def nth_opt_def demo_call_def)
  have fn: "call_op O_MESSAGE_EXPR demo_env ?start = op_message_expr demo_env ?start"
    by (simp add: call_op_def bf_id2entry_def bf_table_def op_call_def op_functions_def)
  obtain w1 e where w1: "op_message_expr demo_env ?start = Some w1" "w_state w1 = BLOCKED"
    "w_events w1 = w_events ?w @ [e]" "stack w1 = []" "ev_m (w_frame w1) = demo_method demo_call"
    "ev_on (w_frame w1) = demo_root demo_call" "ev_ticks (w_frame w1) = 9"
    "ev_caller (w_frame w1) = local_id 2" "ev_pc (w_frame w1) = 5"
    by (simp add: op_message_expr_def count_args_def pop_args_def pop_def send_message_and_block_def
      send_message_def msg_add_def event_add_def demo_machine ARGSTART_MARK_def Let_def)
  have t: "\<exists>t. obj_text demo_servers (local_id 1) = Some t"
    by (simp add: obj_text_def catobj_def serv_id2name_def serv_find_def demo_servers_def
      demo_self_def demo_server_def)
  have "\<exists>w'. tick demo_env w1 = Some w'"
    using t w1(4-9) demo_call_line by (auto simp: tick_def raise_code_def push_def STACK_SIZE_def raise_core_def
      add_traceback_header_def add_traceback_def send_raise_def send_message_def frame_message_def
      demo_name demo_env_fields demo_limits Let_def demo_method_def err_num_def all_errs_def nth_opt_def)
  then obtain w' where "tick demo_env w1 = Some w'" ..
  with code op fn w1(1) have x: "exec_op demo_env ?w = Some (w', True)"
    by (auto simp: exec_op_def)
  from op obtain ent where ent: "opcodes O_MESSAGE_EXPR = Some (Some ent)" ..
  have "w_state w' = RAISED \<and> e \<in> set (w_events w')"
  proof (rule blocked_at_limit [OF ent code _ w1(2,3) demo_compiler_keeps _ _ _ x])
    show "call_op O_MESSAGE_EXPR demo_env ?start = Some w1" using fn w1(1) by simp
    show "compiled_handlers (ev_m (w_frame ?w))" using demo_handlers by (simp add: demo_frame_def)
    show "length (stack ?w) \<le> STACK_SIZE" by (simp add: demo_frame_def STACK_SIZE_def)
    show "e_max_ticks demo_env \<le> sint (ev_ticks (w_frame ?w) + 1)" by (simp add: demo_env_def)
  qed
  with x show ?thesis by force
qed

end
