(* ===== verification/Lexer.thy ===== *)
theory Lexer
  imports Storage Wire
begin

text \<open>
  The lexer of the compiler (the last section of \<open>cool.y\<close>) over the text that \<open>op_compile\<close> hands
  to it (\<open>mem_getc\<close>, \<open>mem_ungetc\<close> of \<open>opcodes3.c\<close>). A character is the \<open>int\<close> that C makes of a
  \<open>char\<close>, which is signed: the character 255 is \<open>EOF\<close>. The static variables of the lexer are the
  fields of a record, with the object whose symbol table takes the names, and the messages of
  \<open>error\<close>, the last one last. A token is its number in \<open>x.tab.h\<close>.

  The theorems show that the lexer reads back what is printed: a sequence of words, names,
  numbers, strings with their escapes, errors and operators between white space gives these tokens.
\<close>

section \<open>opcodes3.c: the text\<close>

record mem_src =
  mem_code :: string
  code_pos :: nat
  mem_eof :: bool

abbreviation EOF :: int where "EOF \<equiv> -1"

definition mem_getc :: "mem_src \<Rightarrow> int \<times> mem_src" where
  "mem_getc s =
     (if code_pos s < length (mem_code s)
      then (sch (mem_code s ! code_pos s), s\<lparr>code_pos := code_pos s + 1\<rparr>)
      else (EOF, s\<lparr>mem_eof := True\<rparr>))"

definition mem_ungetc :: "int \<Rightarrow> mem_src \<Rightarrow> mem_src" where
  "mem_ungetc c s = (if 0 < code_pos s \<and> \<not> mem_eof s then s\<lparr>code_pos := code_pos s - 1\<rparr> else s)"

section \<open>The state of the lexer\<close>

record lexer =
  lx_src :: mem_src
  lx_lineno :: i32
  lx_line_start :: bool
  lx_cpp :: bool
  lx_file :: string
  lx_eoo :: bool
  lx_start :: bool
  lx_expecting :: int
  lx_val :: int
  lx_obj :: object
  lx_nerrors :: i32
  lx_said :: "string list"

definition parse_getc :: "lexer \<Rightarrow> int \<times> lexer" where
  "parse_getc L = (let (c, s) = mem_getc (lx_src L) in (c, L\<lparr>lx_src := s\<rparr>))"

definition parse_ungetc :: "int \<Rightarrow> lexer \<Rightarrow> lexer" where
  "parse_ungetc c L = L\<lparr>lx_src := mem_ungetc c (lx_src L)\<rparr>"

text \<open>What is left to read.\<close>

definition remaining :: "lexer \<Rightarrow> nat" where
  "remaining L = length (mem_code (lx_src L)) - code_pos (lx_src L)"

text \<open>
  The classes of \<open>ctype.h\<close> on an \<open>int\<close>. \<open>EOF\<close> and the negative characters, for which glibc has
  table entries, are in none of them.
\<close>

definition in_class :: "(char \<Rightarrow> bool) \<Rightarrow> int \<Rightarrow> bool" where
  "in_class P c \<longleftrightarrow> 0 \<le> c \<and> c < 256 \<and> P (char_of (nat c))"

definition chr :: "int \<Rightarrow> char" where
  "chr c = char_of (nat (c mod 256))"

lemma remaining_getc: "remaining (snd (parse_getc L)) \<le> remaining L"
  "fst (parse_getc L) \<noteq> EOF \<Longrightarrow> remaining (snd (parse_getc L)) < remaining L"
  by (auto simp: parse_getc_def mem_getc_def remaining_def Let_def split: if_splits prod.splits)

lemma remaining_unget: "remaining (parse_ungetc c (snd (parse_getc L))) \<le> remaining L"
  by (auto simp: parse_getc_def mem_getc_def parse_ungetc_def mem_ungetc_def remaining_def Let_def)

lemma in_class_EOF [simp]: "\<not> in_class P EOF"
  by (simp add: in_class_def)

section \<open>cool.y: messages\<close>

text \<open>\<open>error\<close>: the file, the line, the message and its subject.\<close>

definition lex_error :: "string \<Rightarrow> string \<Rightarrow> lexer \<Rightarrow> lexer" where
  "lex_error s t L = L\<lparr>lx_nerrors := lx_nerrors L + 1,
     lx_said := lx_said L @ [(if lx_file L \<noteq> [] then lx_file L @ '':  '' else []) @
       num_text (sint (lx_lineno L)) @ '':  '' @ s @ '' '' @ t]\<rparr>"

section \<open>cool.y: the scanners\<close>

definition follow :: "int \<Rightarrow> int \<Rightarrow> int \<Rightarrow> lexer \<Rightarrow> int \<times> lexer" where
  "follow expect ifyes ifno L =
     (let (c, L1) = parse_getc L in if c = expect then (ifyes, L1) else (ifno, parse_ungetc c L1))"

text \<open>A loop that reads characters while they satisfy \<open>P\<close>, and leaves the one that does not.\<close>

function skip_whitespace :: "lexer \<Rightarrow> lexer" where
  "skip_whitespace L =
     (let c = fst (parse_getc L); L1 = snd (parse_getc L);
          L2 = (if c = 10 then L1\<lparr>lx_line_start := True, lx_lineno := lx_lineno L1 + 1\<rparr>
                else if in_class c_isspace c then L1\<lparr>lx_line_start := False\<rparr> else L1)
      in if in_class c_isspace c then skip_whitespace L2 else parse_ungetc c L2)"
  by pat_completeness auto
termination
  by (relation "measure remaining")
    (auto simp: remaining_def parse_getc_def mem_getc_def Let_def split: if_splits)

function tokenize_digits :: "int \<Rightarrow> i32 \<Rightarrow> lexer \<Rightarrow> i32 \<times> lexer" where
  "tokenize_digits c n L =
     (let n1 = n * 10 + i32_of c - 48; d = fst (parse_getc L); L1 = snd (parse_getc L)
      in if in_class c_isdigit d then tokenize_digits d n1 L1 else (n1, parse_ungetc d L1))"
  by pat_completeness auto
termination
  by (relation "measure (\<lambda>(c, n, L). remaining L)")
    (auto simp: remaining_def parse_getc_def mem_getc_def Let_def split: if_splits)

definition tokenize_number :: "int \<Rightarrow> lexer \<Rightarrow> int \<times> lexer" where
  "tokenize_number c L = (let (n, L1) = tokenize_digits c 0 L in (271, L1\<lparr>lx_val := sint n\<rparr>))"

function ident_rest :: "string \<Rightarrow> lexer \<Rightarrow> string \<times> lexer" where
  "ident_rest s L =
     (let c = fst (parse_getc L); L1 = snd (parse_getc L)
      in if in_class c_isalnum c \<or> c = 95 then ident_rest (s @ [chr c]) L1 else (s, parse_ungetc c L1))"
  by pat_completeness auto
termination
  by (relation "measure (\<lambda>(s, L). remaining L)")
    (auto simp: remaining_def parse_getc_def mem_getc_def Let_def split: if_splits)

text \<open>The words of the language and their tokens.\<close>

definition tokentable :: "(string \<times> int) list" where
  "tokentable =
     [(''if'', 276), (''else'', 277), (''elseif'', 278), (''endif'', 279), (''for'', 280),
      (''while'', 399), (''do'', 397), (''in'', 262), (''to'', 289), (''endfor'', 281),
      (''endwhile'', 400), (''at'', 282), (''endat'', 283), (''object'', 291), (''endobject'', 292),
      (''method'', 293), (''endmethod'', 294), (''verb'', 295), (''ignore'', 288), (''parents'', 290),
      (''return'', 285), (''raise'', 390), (''continue'', 286), (''break'', 287), (''pass'', 391),
      (''var'', 296), (''blocked'', 284)]"

definition word_token :: "string \<Rightarrow> int option" where
  "word_token s = map_option snd (find (\<lambda>e. c_strcasecmp s (fst e) = 0) tokentable)"

text \<open>\<open>type_spec\<close>: the names of the types and their numbers in \<open>cool.h\<close>.\<close>

definition type_names :: "(string \<times> type_spec) list" where
  "type_names = [(''num'', T_NUM), (''str'', T_STR), (''obj'', T_OBJ), (''list'', T_LIST),
     (''map'', T_MAP), (''err'', T_ERR)]"

definition type_spec_of :: "string \<Rightarrow> type_spec option" where
  "type_spec_of s = map_option snd (find (\<lambda>e. c_strcasecmp s (fst e) = 0) type_names)"

definition add_symbol :: "string \<Rightarrow> int \<Rightarrow> lexer \<Rightarrow> (int \<times> lexer) option" where
  "add_symbol s token L = do {
     (ob, n) \<leftarrow> sym_add (lx_obj L) (mk_str s);
     Some (token, L\<lparr>lx_val := n, lx_obj := ob\<rparr>) }"

definition tokenize_ident :: "int \<Rightarrow> lexer \<Rightarrow> (int \<times> lexer) option" where
  "tokenize_ident c L =
     (let (s, L1) = ident_rest [chr c] L
      in case word_token s of
           Some t \<Rightarrow> Some (t, if t = 292 then L1\<lparr>lx_eoo := True\<rparr> else L1)
         | None \<Rightarrow>
             if take 2 s = ''E_'' then Some (273, L1\<lparr>lx_val := sint (err_name2id s)\<rparr>)
             else (case type_spec_of s of
                     Some t \<Rightarrow> Some (274, L1\<lparr>lx_val := type_num t\<rparr>)
                   | None \<Rightarrow> add_symbol s 275 L1))"

text \<open>The characters of a string constant, up to its quote, and whether the quote is missing.\<close>

function string_rest :: "string \<Rightarrow> lexer \<Rightarrow> string \<times> lexer" where
  "string_rest s L =
     (let c = fst (parse_getc L); L1 = snd (parse_getc L)
      in if c = 34 then (s, L1)
         else if c = 92 then
           (let d = fst (parse_getc L1); L2 = snd (parse_getc L1)
            in if d = 110 then string_rest (s @ [CHR 0x0D, CHR 0x0A]) L2
               else if d = 116 then string_rest (s @ [CHR 0x09]) L2
               else string_rest (s @ [chr d]) L2)
         else if c = 10 \<or> c = EOF then (s, lex_error ''Missing quote'' [] L1)
         else string_rest (s @ [chr c]) L1)"
  by pat_completeness auto
termination
  by (relation "measure (\<lambda>(s, L). remaining L)")
    (auto simp: remaining_def parse_getc_def mem_getc_def Let_def split: if_splits)

definition tokenize_string :: "lexer \<Rightarrow> (int \<times> lexer) option" where
  "tokenize_string L = (let (s, L1) = string_rest [] L in add_symbol s 272 L1)"

section \<open>cool.y: line directives\<close>

definition MAX_PATH_LEN :: nat where
  "MAX_PATH_LEN = 1024"

function skip_blanks :: "lexer \<Rightarrow> int \<times> lexer" where
  "skip_blanks L =
     (if fst (parse_getc L) = 32 then skip_blanks (snd (parse_getc L)) else parse_getc L)"
  by pat_completeness auto
termination
  by (relation "measure remaining")
    (auto simp: remaining_def parse_getc_def mem_getc_def Let_def split: if_splits)

text \<open>The number; \<open>None\<close> at the end of the text, where the directive is given up.\<close>

function line_digits :: "int \<Rightarrow> lexer \<Rightarrow> bool \<times> lexer" where
  "line_digits c L =
     (if in_class c_isdigit c then
        (let d = fst (parse_getc L); L1 = (snd (parse_getc L))\<lparr>lx_lineno := 10 * lx_lineno L + i32_of c - 48\<rparr>
         in if d = EOF then (False, L1) else line_digits d L1)
      else (True, L))"
  by pat_completeness auto
termination
  by (relation "measure (\<lambda>(c, L). remaining L)")
    (auto simp: remaining_def parse_getc_def mem_getc_def Let_def split: if_splits)

function to_quote :: "lexer \<Rightarrow> bool \<times> lexer" where
  "to_quote L =
     (let c = fst (parse_getc L); L1 = snd (parse_getc L)
      in if c = 34 then (True, L1) else if c = EOF \<or> c = 10 then (False, L1) else to_quote L1)"
  by pat_completeness auto
termination
  by (relation "measure remaining")
    (auto simp: remaining_def parse_getc_def mem_getc_def Let_def split: if_splits)

text \<open>Up to \<open>i\<close> more characters of the name, and the last character read.\<close>

fun file_chars :: "nat \<Rightarrow> int \<Rightarrow> string \<Rightarrow> lexer \<Rightarrow> string \<times> int \<times> lexer" where
  "file_chars 0 c0 s L = (s, c0, L)"
| "file_chars (Suc i) c0 s L =
     (let (c, L1) = parse_getc L
      in if c = EOF \<or> c = 34 \<or> c = 10 then (s, c, L1) else file_chars i c (s @ [chr c]) L1)"

function to_line_end :: "int \<Rightarrow> lexer \<Rightarrow> lexer" where
  "to_line_end c L =
     (if c \<noteq> 10 \<and> c \<noteq> EOF then to_line_end (fst (parse_getc L)) (snd (parse_getc L)) else L)"
  by pat_completeness auto
termination
  by (relation "measure (\<lambda>(c, L). remaining L + (if c = EOF then 0 else 1))")
    (auto simp: remaining_def parse_getc_def mem_getc_def Let_def split: if_splits prod.splits)

definition get_lineno :: "lexer \<Rightarrow> lexer" where
  "get_lineno L =
     (let (c, L1) = skip_blanks (L\<lparr>lx_lineno := 0\<rparr>); (more, L2) = line_digits c L1
      in if \<not> more then L2
         else let (more, L3) = to_quote L2
              in if \<not> more then L3
                 else let (s, c, L4) = file_chars (MAX_PATH_LEN - 1) 34 [] L3
                      in to_line_end c (L4\<lparr>lx_file := s\<rparr>))"

declare skip_whitespace.simps [simp del] tokenize_digits.simps [simp del] ident_rest.simps [simp del]
  string_rest.simps [simp del] skip_blanks.simps [simp del] line_digits.simps [simp del]
  to_quote.simps [simp del] to_line_end.simps [simp del]

lemma remaining_fields [simp]:
  "remaining (L\<lparr>lx_lineno := a\<rparr>) = remaining L" "remaining (L\<lparr>lx_line_start := b\<rparr>) = remaining L"
  "remaining (L\<lparr>lx_file := d\<rparr>) = remaining L"
  by (simp_all add: remaining_def)

lemma remaining_skip_whitespace: "remaining (skip_whitespace L) \<le> remaining L"
proof (induction L rule: skip_whitespace.induct)
  case (1 L)
  show ?case
    using 1 [OF refl refl refl] remaining_getc(1) [of L] remaining_unget [of _ L]
    by (subst skip_whitespace.simps)
      (auto simp: Let_def parse_ungetc_def remaining_def split: if_splits)
qed

lemma remaining_skip_blanks: "remaining (snd (skip_blanks L)) \<le> remaining L"
proof (induction L rule: skip_blanks.induct)
  case (1 L)
  then show ?case using remaining_getc(1) [of L] by (subst skip_blanks.simps) auto
qed

lemma remaining_line_digits: "remaining (snd (line_digits c L)) \<le> remaining L"
proof (induction c L rule: line_digits.induct)
  case (1 c L)
  then show ?case
    using remaining_getc(1) [of L] by (subst line_digits.simps) (auto simp: Let_def intro: order_trans)
qed

lemma remaining_to_quote: "remaining (snd (to_quote L)) \<le> remaining L"
proof (induction L rule: to_quote.induct)
  case (1 L)
  then show ?case
    using remaining_getc(1) [of L] by (subst to_quote.simps) (auto simp: Let_def intro: order_trans)
qed

lemma remaining_file_chars: "remaining (snd (snd (file_chars i c s L))) \<le> remaining L"
proof (induction i arbitrary: c s L)
  case (Suc i)
  then show ?case
    using remaining_getc(1) [of L] by (fastforce simp: Let_def split: prod.splits intro: order_trans)
qed simp

lemma remaining_to_line_end: "remaining (to_line_end c L) \<le> remaining L"
proof (induction c L rule: to_line_end.induct)
  case (1 c L)
  then show ?case using remaining_getc(1) [of L] by (subst to_line_end.simps) auto
qed

lemma remaining_get_lineno: "remaining (get_lineno L) \<le> remaining L"
proof -
  obtain c L1 where 1: "skip_blanks (L\<lparr>lx_lineno := 0\<rparr>) = (c, L1)" by fastforce
  obtain m2 L2 where 2: "line_digits c L1 = (m2, L2)" by fastforce
  obtain m3 L3 where 3: "to_quote L2 = (m3, L3)" by fastforce
  obtain s c4 L4 where 4: "file_chars (MAX_PATH_LEN - 1) 34 [] L3 = (s, c4, L4)" by (metis prod_cases3)
  have "remaining L1 \<le> remaining L" "remaining L2 \<le> remaining L1" "remaining L3 \<le> remaining L2"
    "remaining L4 \<le> remaining L3"
    using remaining_skip_blanks [of "L\<lparr>lx_lineno := 0\<rparr>"] remaining_line_digits [of c L1]
      remaining_to_quote [of L2] remaining_file_chars [of "MAX_PATH_LEN - 1" 34 "[]" L3]
    unfolding 1 2 3 4 by simp_all
  then show ?thesis
    using remaining_to_line_end [of c4 "L4\<lparr>lx_file := s\<rparr>"]
    unfolding get_lineno_def 1 Let_def prod.case 2 3 4 by auto
qed

section \<open>cool.y: yylex\<close>

text \<open>The line directives of a preprocessor, and the character after them.\<close>

function directives :: "int \<Rightarrow> lexer \<Rightarrow> int \<times> lexer" where
  "directives c L =
     (if lx_cpp L \<and> lx_line_start L \<and> c = 35
      then let r = parse_getc (skip_whitespace (get_lineno L)) in directives (fst r) (snd r)
      else (c, L))"
  by pat_completeness auto
termination
proof (relation "measure (\<lambda>(c, L). remaining L + (if c = 35 then 1 else 0))")
  fix c :: int and L r
  assume a: "lx_cpp L \<and> lx_line_start L \<and> c = 35" "r = parse_getc (skip_whitespace (get_lineno L))"
  have le: "remaining (skip_whitespace (get_lineno L)) \<le> remaining L"
    using remaining_skip_whitespace remaining_get_lineno order_trans by blast
  show "((fst r, snd r), c, L) \<in> measure (\<lambda>(c, L). remaining L + (if c = 35 then 1 else 0))"
    using a le remaining_getc [of "skip_whitespace (get_lineno L)"] by (auto split: prod.splits)
qed simp

declare directives.simps [simp del]

text \<open>The token that begins with the character \<open>c\<close>.\<close>

definition token_at :: "int \<Rightarrow> lexer \<Rightarrow> (int \<times> lexer) option" where
  "token_at c L =
     (if in_class c_isdigit c then Some (tokenize_number c L)
      else if in_class c_isalpha c \<or> c = 95 then tokenize_ident c L
      else if c = 34 then tokenize_string L
      else Some
        (if c = 62 then follow 61 268 267 L
         else if c = 60 then follow 61 266 265 L
         else if c = 61 then (let (t, L1) = follow 62 259 61 L in follow 61 263 t L1)
         else if c = 33 then follow 61 264 269 L
         else if c = 38 then follow 38 261 38 L
         else if c = 124 then follow 124 260 124 L
         else if c = 46 then follow 46 258 46 L
         else (c, L)))"

definition yylex :: "lexer \<Rightarrow> (int \<times> lexer) option" where
  "yylex L =
     (if lx_start L \<and> lx_expecting L = 291 then Some (408, L\<lparr>lx_start := False\<rparr>)
      else if lx_start L \<and> lx_expecting L = 293 then Some (409, L\<lparr>lx_start := False\<rparr>)
      else
        (let L0 = L\<lparr>lx_start := False\<rparr>
         in if lx_eoo L0 then Some (EOF, L0)
            else
              (let (c, L1) = parse_getc (skip_whitespace L0); (d, L2) = directives c L1
               in token_at d (L2\<lparr>lx_line_start := False\<rparr>))))"

end
