(* ===== verification/Compile.thy ===== *)
theory Compile
  imports Lexer Codegen
begin

text \<open>
  The compiler around the grammar (\<open>cool.y\<close>): the actions that look names up, declare variables,
  verbs, errors and parents and begin and end a method, and \<open>compile\<close>, which reads objects or one
  method. The parser that yacc generates runs the actions; it is the argument \<open>yyparse\<close>.

  The static variables are a record over the lexer, which holds the object that is compiled and the
  messages. \<open>None\<close> is undefined behaviour: a name that has been freed, an index outside an array.
\<close>

record compiler =
  cp_lex :: lexer
  cp_method :: "cmethod option"
  cp_loops :: int
  cp_mach :: mach
  cp_db :: db
  cp_prog :: objid
  cp_inits :: "objid list"

abbreviation cp_obj :: "compiler \<Rightarrow> object" where
  "cp_obj C \<equiv> lx_obj (cp_lex C)"

definition set_obj :: "object \<Rightarrow> compiler \<Rightarrow> compiler" where
  "set_obj ob C = C\<lparr>cp_lex := (cp_lex C)\<lparr>lx_obj := ob\<rparr>\<rparr>"

text \<open>\<open>error\<close> and \<open>yyerror\<close>, and a line for the programmer.\<close>

definition error_at :: "string \<Rightarrow> string \<Rightarrow> compiler \<Rightarrow> compiler" where
  "error_at s t C = C\<lparr>cp_lex := lex_error s t (cp_lex C)\<rparr>"

definition parse_perror :: "string \<Rightarrow> compiler \<Rightarrow> compiler" where
  "parse_perror s C = C\<lparr>cp_lex := (cp_lex C)\<lparr>lx_said := lx_said (cp_lex C) @ [s]\<rparr>\<rparr>"

definition free_name :: "int \<Rightarrow> compiler \<Rightarrow> compiler option" where
  "free_name n C = do { ob \<leftarrow> sym_free (cp_obj C) n; Some (set_obj ob C) }"

text \<open>An error about a name, which is dropped.\<close>

definition reject_name :: "string \<Rightarrow> int \<Rightarrow> compiler \<Rightarrow> compiler option" where
  "reject_name s n C = do { t \<leftarrow> sym_str (cp_obj C) n; free_name n (error_at s t C) }"

definition emit_code :: "int list \<Rightarrow> compiler \<Rightarrow> int \<times> compiler" where
  "emit_code xs C = (let (a, mc) = codes xs (cp_mach C) in (int a, C\<lparr>cp_mach := mc\<rparr>))"

section \<open>Names of variables\<close>

definition builtin_var :: "object \<Rightarrow> int \<Rightarrow> int option" where
  "builtin_var ob n = do {
     name \<leftarrow> sym_str ob n;
     Some (if c_strcasecmp name ''player'' = 0 then O_PLAYER
           else if c_strcasecmp name ''caller'' = 0 then O_CALLER
           else if c_strcasecmp name ''args'' = 0 then O_ARGS
           else if c_strcasecmp name ''this'' = 0 then O_THIS
           else 0) }"

definition local_number :: "int \<Rightarrow> compiler \<Rightarrow> nat option" where
  "local_number n C =
     (case cp_method C of None \<Rightarrow> None | Some m \<Rightarrow> map_option snd (var_find (m_vars m) n 0))"

definition inherits_global :: "nat \<Rightarrow> int \<Rightarrow> compiler \<Rightarrow> var option option" where
  "inherits_global fuel n C = do {
     name \<leftarrow> sym_str (cp_obj C) n;
     var_get_global fuel (cp_db C) (cp_obj C) name }"

text \<open>\<open>code_assign\<close>: the address of the instruction, 0 after an error.\<close>

definition code_assign :: "nat \<Rightarrow> int \<Rightarrow> int \<Rightarrow> int \<Rightarrow> compiler \<Rightarrow> (int \<times> compiler) option" where
  "code_assign fuel n lop gop C = do {
     b \<leftarrow> builtin_var (cp_obj C) n;
     name \<leftarrow> sym_str (cp_obj C) n;
     if b \<noteq> 0 then
       Some (0, if lop = O_ASGNLVARINDEX then error_at ''Cannot index assign built-in variable'' name C
                else if b = O_PLAYER then snd (emit_code [O_SETPLAYER] C)
                else error_at ''Cannot assign to built-in variable'' name C)
     else
       (case local_number n C of
          Some v \<Rightarrow> do {
            let (a, C1) = emit_code [lop, int v] C;
            C2 \<leftarrow> free_name n C1;
            Some (a, C2) }
        | None \<Rightarrow> do {
            g \<leftarrow> inherits_global fuel n C;
            if g \<noteq> None then Some (emit_code [gop, n] C)
            else do { C1 \<leftarrow> reject_name ''Variable not declared:  '' n C; Some (0, C1) } }) }"

text \<open>The production \<open>var\<close>: a name in an expression.\<close>

definition code_var :: "nat \<Rightarrow> int \<Rightarrow> compiler \<Rightarrow> compiler option" where
  "code_var fuel n C = do {
     b \<leftarrow> builtin_var (cp_obj C) n;
     if b \<noteq> 0 then Some (snd (emit_code [b] C))
     else
       (case local_number n C of
          Some v \<Rightarrow> free_name n (snd (emit_code [O_GETLVAR, int v] C))
        | None \<Rightarrow> do {
            g \<leftarrow> inherits_global fuel n C;
            if g \<noteq> None then Some (snd (emit_code [O_GETGVAR, n] C))
            else reject_name ''Variable not declared:  '' n C }) }"

section \<open>Declarations\<close>

definition add_parent :: "object \<Rightarrow> objid \<Rightarrow> object" where
  "add_parent ob p = ob\<lparr>o_parents := (if o_parents ob = [] then [VOBJ p]
     else if list_all (\<lambda>q. q \<noteq> VOBJ p) (o_parents ob) then o_parents ob @ [VOBJ p] else o_parents ob)\<rparr>"

definition parents_message :: "err \<Rightarrow> string" where
  "parents_message e =
     (case e of
        E_INVIND \<Rightarrow> ''Parent must be local''
      | E_OBJNF \<Rightarrow> ''Parent does not exist''
      | E_MAXREC \<Rightarrow> ''Parents list would cause a loop''
      | E_RANGE \<Rightarrow> ''Object must have at least one parent''
      | E_PERM \<Rightarrow> ''Cannot use parent; Permission Denied''
      | _ \<Rightarrow> ''Parents list invalid'')"

definition do_check_parents :: "nat \<Rightarrow> compiler \<Rightarrow> compiler option" where
  "do_check_parents fuel C = do {
     e \<leftarrow> check_parents fuel (cp_db C) (cp_prog C) (cp_obj C) (o_parents (cp_obj C));
     Some (if e = E_NONE then C else error_at (parents_message e) [] C) }"

text \<open>\<open>NOIGNORE\<close> of \<open>cool.h\<close>, and the production \<open>error_const\<close> of an \<open>ignore\<close> declaration.\<close>

definition noignore :: "i32 \<Rightarrow> bool" where
  "noignore e \<longleftrightarrow> e \<in> {err_code E_STACKUND, err_code E_STACKOVR, err_code E_INTERNAL, err_code E_TICKS}"

definition ignore_error :: "i32 \<Rightarrow> compiler \<Rightarrow> compiler option" where
  "ignore_error e C =
     (if noignore e then Some (error_at ''Cannot catch or ignore:'' (err_id2name e) C)
      else
        (case cp_method C of
           None \<Rightarrow> Some C
         | Some m \<Rightarrow> do {
             hs \<leftarrow> upd_opt (m_ehandler m) (sint e) EH_IGNORE;
             Some (C\<lparr>cp_method := Some (m\<lparr>m_ehandler := hs\<rparr>)\<rparr>) }))"

text \<open>The production \<open>local_item\<close>.\<close>

definition local_item :: "int \<Rightarrow> compiler \<Rightarrow> compiler option" where
  "local_item n C =
     (case cp_method C of
        None \<Rightarrow> Some C
      | Some m \<Rightarrow>
          (let (m1, known, i) = var_add_local m n; C1 = C\<lparr>cp_method := Some m1\<rparr>
           in if known then reject_name ''Variable multiply defined:  '' n C1 else Some C1))"

definition find_loopvar :: "nat \<Rightarrow> int \<Rightarrow> compiler \<Rightarrow> (int \<times> compiler) option" where
  "find_loopvar fuel n C = do {
     g \<leftarrow> inherits_global fuel n C;
     if g \<noteq> None then Some (-1, error_at (CHR 0x27 # ''for'' @ CHR 0x27 # '' variable must be local'') [] C)
     else do {
       m \<leftarrow> cp_method C;
       let (m1, known, i) = var_add_local m n;
       C1 \<leftarrow> (if known then free_name n (C\<lparr>cp_method := Some m1\<rparr>) else Some (C\<lparr>cp_method := Some m1\<rparr>));
       Some (int i, C1) } }"

definition new_global_var :: "nat \<Rightarrow> int \<Rightarrow> type_spec \<Rightarrow> var \<Rightarrow> compiler \<Rightarrow> compiler option" where
  "new_global_var fuel n t v C = do {
     C1 \<leftarrow> (if t \<noteq> vtype v then reject_name ''Type mismatch on initializer for variable: '' n C else Some C);
     g \<leftarrow> inherits_global fuel n C1;
     C2 \<leftarrow> (case g of
              None \<Rightarrow> Some C1
            | Some r \<Rightarrow> if t \<noteq> vtype r then reject_name ''Type mismatch on inherited variable: '' n C1 else Some C1);
     (ob, known) \<leftarrow> var_add_global (cp_obj C2) n v;
     let C3 = set_obj ob C2;
     if known then reject_name ''Variable multiply defined:  '' n C3 else Some C3 }"

section \<open>Methods and objects\<close>

definition start_method :: "int \<Rightarrow> bool \<Rightarrow> compiler \<Rightarrow> compiler" where
  "start_method n blocked C = C\<lparr>cp_loops := 0, cp_method := Some \<lparr>m_name = n, m_code = [],
     m_ehandler = replicate NERRS EH_DEFAULT, m_vars = [], m_blocked = blocked\<rparr>\<rparr>"

text \<open>
  \<open>end_method\<close>. When one method is compiled it takes the place of the one that had its name, which
  is freed unless it is running; among the methods of an object a second one is an error.
\<close>

definition end_method :: "bool \<Rightarrow> compiler \<Rightarrow> compiler option" where
  "end_method last_ref C =
     (case cp_method C of
        None \<Rightarrow> Some C
      | Some m0 \<Rightarrow> do {
          let (m, mc) = code_copy m0 (snd (codes [O_STOP] (cp_mach C)));
          let C1 = C\<lparr>cp_mach := mc, cp_method := Some m\<rparr>;
          name \<leftarrow> sym_str (cp_obj C1) (m_name m);
          if lx_expecting (cp_lex C1) = 293 then do {
            (ob1, e) \<leftarrow> rm_method last_ref (cp_obj C1) name;
            ob2 \<leftarrow> add_method ob1 m;
            Some (set_obj ob2 C1) }
          else do {
            found \<leftarrow> find_method (cp_obj C1) name;
            case found of
              Some x \<Rightarrow> do {
                t \<leftarrow> sym_str (cp_obj C1) (m_name x);
                let C2 = error_at ''Method multiply defined:  '' t C1;
                ob \<leftarrow> free_method True (cp_obj C2) m;
                Some (set_obj ob C2) }
            | None \<Rightarrow> do { ob \<leftarrow> add_method (cp_obj C1) m; Some (set_obj ob C1) } } })"

text \<open>\<open>obj_result\<close>: whether the object was refused. \<open>expecting\<close> is -1 when new objects may be made.\<close>

definition obj_result ::
  "(vmap \<Rightarrow> vmap \<Rightarrow> bool) \<Rightarrow> nat \<Rightarrow> int \<Rightarrow> bool \<Rightarrow> compiler \<Rightarrow> (bool \<times> compiler) option" where
  "obj_result same fuel expecting do_init C = do {
     let new = cp_obj C; let i = o_id new; let exists = valid (cp_db C) i;
     let num = num_text (sint (oid i)); let errs = num_text (sint (lx_nerrors (cp_lex C)));
     if 0 < sint (lx_nerrors (cp_lex C)) then
       Some (True, parse_perror (errs @ (if 0 \<le> sint (oid i)
         then '' error(s).  Object #'' @ num @ '' not programmed.'' else '' error(s).'')) C)
     else if 0 \<le> expecting \<and> \<not> exists then
       Some (True, parse_perror (''Object #'' @ num @ '' does not exist.'') C)
     else do {
       may \<leftarrow> (if 0 \<le> expecting then can_program same fuel (cp_db C) (cp_prog C) i else Some True);
       if \<not> may then Some (True, parse_perror (''Object #'' @ num @ '':  Permission denied.'') C)
       else do {
         d \<leftarrow> assign_object fuel (cp_db C) i new;
         let C1 = C\<lparr>cp_db := d\<rparr>;
         Some (False, if exists then parse_perror (''Object #'' @ num @ '' reprogrammed.'') C1
           else parse_perror (''Object #'' @ num @ '' programmed.'')
             (if do_init then C1\<lparr>cp_inits := cp_inits C1 @ [i]\<rparr> else C1)) } } }"

text \<open>The start of \<open>compile\<close>, its loop over objects, and one method.\<close>

definition compile_start :: "i32 \<Rightarrow> bool \<Rightarrow> compiler \<Rightarrow> compiler" where
  "compile_start player is_cpp C = C\<lparr>cp_lex := (cp_lex C)\<lparr>lx_cpp := is_cpp, lx_nerrors := 0, lx_lineno := 1,
     lx_line_start := True, lx_eoo := False, lx_file := []\<rparr>, cp_prog := \<lparr>server = 0, oid = player\<rparr>,
     cp_method := None\<rparr>"

fun compile_objects ::
  "(compiler \<Rightarrow> compiler option) \<Rightarrow> (vmap \<Rightarrow> vmap \<Rightarrow> bool) \<Rightarrow> nat \<Rightarrow> int \<Rightarrow> bool \<Rightarrow> nat \<Rightarrow> compiler \<Rightarrow> compiler option" where
  "compile_objects yyparse same fuel expecting do_init 0 C = None"
| "compile_objects yyparse same fuel expecting do_init (Suc k) C =
     (let (c, L) = parse_getc (cp_lex C)
      in if c = EOF then Some (C\<lparr>cp_lex := L\<rparr>)
         else do {
           let L1 = (parse_ungetc c L)\<lparr>lx_obj := new_object, lx_start := True\<rparr>;
           C1 \<leftarrow> yyparse (C\<lparr>cp_lex := L1, cp_method := None\<rparr>);
           (bad, C2) \<leftarrow> obj_result same fuel expecting do_init (C1\<lparr>cp_lex := (cp_lex C1)\<lparr>lx_eoo := False\<rparr>\<rparr>);
           if bad then Some C2
           else compile_objects yyparse same fuel expecting do_init k
             (C2\<lparr>cp_lex := skip_whitespace (cp_lex C2)\<rparr>) })"

text \<open>The object is changed where it is in memory, whether the method compiles or not.\<close>

definition compile_method ::
  "(compiler \<Rightarrow> compiler option) \<Rightarrow> bool \<Rightarrow> object \<Rightarrow> string \<Rightarrow> compiler \<Rightarrow> compiler option" where
  "compile_method yyparse last_ref ob mname C = do {
     (ob1, n) \<leftarrow> sym_add ob (mk_str mname);
     C1 \<leftarrow> yyparse (start_method n False
       (C\<lparr>cp_lex := (cp_lex C)\<lparr>lx_start := True, lx_expecting := 293, lx_obj := ob1\<rparr>\<rparr>));
     C2 \<leftarrow> (if lx_nerrors (cp_lex C1) \<noteq> 0 then do {
               let C2 = parse_perror (num_text (sint (lx_nerrors (cp_lex C1))) @
                 '' error(s).  Method not programmed.'') C1;
               m0 \<leftarrow> cp_method C2;
               let (m, mc) = code_copy m0 (cp_mach C2);
               ob2 \<leftarrow> free_method True (cp_obj C2) m;
               Some (set_obj ob2 (C2\<lparr>cp_mach := mc, cp_method := Some m\<rparr>)) }
             else end_method last_ref C1);
     Some (C2\<lparr>cp_db := (cp_db C2)(oid (o_id (cp_obj C2)) := Some (cp_obj C2))\<rparr>) }"

definition compile ::
  "(compiler \<Rightarrow> compiler option) \<Rightarrow> (vmap \<Rightarrow> vmap \<Rightarrow> bool) \<Rightarrow> nat \<Rightarrow> nat \<Rightarrow> bool \<Rightarrow> i32 \<Rightarrow> int \<Rightarrow> object \<Rightarrow> string \<Rightarrow>
     bool \<Rightarrow> bool \<Rightarrow> compiler \<Rightarrow> (i32 \<times> compiler) option" where
  "compile yyparse same fuel k last_ref player expecting ob mname is_cpp do_init C = do {
     let C0 = compile_start player is_cpp C;
     C1 \<leftarrow> (if expecting = 1 then compile_method yyparse last_ref ob mname C0
            else if expecting = 0 \<or> expecting = -1
            then compile_objects yyparse same fuel expecting do_init k
              (C0\<lparr>cp_lex := (cp_lex C0)\<lparr>lx_expecting := 291\<rparr>\<rparr>)
            else Some C0);
     Some (lx_nerrors (cp_lex C1), C1) }"

end
