(* ===== verification/LexSpecs.thy ===== *)
theory LexSpecs
  imports Lexer
begin

text \<open>
  What the lexer does on the text that is left. A reader is an interface: it hands out the
  characters of a text one by one and takes the last one back; \<open>mem_getc\<close> and \<open>mem_ungetc\<close> are
  one. Each scanner then is described by the text it takes off and what it leaves, and a printed
  sequence of tokens is read back, whatever white space is between them.
\<close>

section \<open>Characters as numbers\<close>

lemma sch_eq: "0 \<le> k \<Longrightarrow> k < 128 \<Longrightarrow> sch c = k \<longleftrightarrow> c = char_of (nat k)"
proof -
  assume k: "0 \<le> k" "k < 128"
  have "sch c = k \<longleftrightarrow> chn c = nat k" using k chn_less [of c] by (auto simp: sch_def simp del: chn_less)
  also have "\<dots> \<longleftrightarrow> c = char_of (nat k)"
    using k of_char_eq_iff [of c "char_of (nat k)", where 'a = nat] by simp
  finally show ?thesis .
qed

lemma sch_codes [simp]:
  "sch c = 10 \<longleftrightarrow> c = CHR 0x0A" "sch c = 33 \<longleftrightarrow> c = CHR ''!''" "sch c = 34 \<longleftrightarrow> c = CHR 0x22"
  "sch c = 35 \<longleftrightarrow> c = CHR ''#''" "sch c = 38 \<longleftrightarrow> c = CHR ''&''" "sch c = 46 \<longleftrightarrow> c = CHR ''.''"
  "sch c = 60 \<longleftrightarrow> c = CHR ''<''" "sch c = 61 \<longleftrightarrow> c = CHR ''=''" "sch c = 62 \<longleftrightarrow> c = CHR ''>''"
  "sch c = 92 \<longleftrightarrow> c = CHR 0x5C" "sch c = 95 \<longleftrightarrow> c = CHR ''_''" "sch c = 110 \<longleftrightarrow> c = CHR ''n''"
  "sch c = 116 \<longleftrightarrow> c = CHR ''t''" "sch c = 124 \<longleftrightarrow> c = CHR ''|''"
  by (simp_all add: sch_eq char_of_def bit_0)

lemma sch_EOF [simp]: "sch c = EOF \<longleftrightarrow> c = CHR 0xFF"
proof -
  have "sch c = EOF \<longleftrightarrow> chn c = chn (CHR 0xFF)" using chn_less [of c] by (auto simp: sch_def)
  then show ?thesis by (simp only: of_char_eq_iff)
qed

lemma chr_sch [simp]: "chr (sch c) = c"
proof -
  have "sch c mod 256 = int (chn c)" using chn_less [of c] by (simp add: sch_def del: chn_less)
  then show ?thesis by (simp add: chr_def)
qed

lemma in_class_sch: "in_class P (sch c) \<longleftrightarrow> chn c < 128 \<and> P c"
  using chn_less [of c] by (auto simp: in_class_def sch_def simp del: chn_less)

lemma in_class_ctype [simp]:
  "in_class c_isdigit (sch c) \<longleftrightarrow> c_isdigit c" "in_class c_isspace (sch c) \<longleftrightarrow> c_isspace c"
  "in_class c_isalpha (sch c) \<longleftrightarrow> c_isalpha c" "in_class c_isalnum (sch c) \<longleftrightarrow> c_isalnum c"
  by (auto simp: in_class_sch ctype_defs)

lemma i32_sch: "chn c < 128 \<Longrightarrow> i32_of (sch c) = of_nat (chn c)"
  by (simp add: sch_def)

section \<open>Readers\<close>

locale reader =
  fixes getc :: "'s \<Rightarrow> int \<times> 's" and ungetc :: "int \<Rightarrow> 's \<Rightarrow> 's" and rest :: "'s \<Rightarrow> string \<Rightarrow> bool"
  assumes getc_char: "rest s (c # r) \<Longrightarrow> \<exists>t. getc s = (sch c, t) \<and> rest t r \<and> rest (ungetc (sch c) t) (c # r)"
    and getc_end: "rest s [] \<Longrightarrow> \<exists>t. getc s = (EOF, t) \<and> rest t [] \<and> rest (ungetc EOF t) []"
begin

text \<open>The character that comes next, and looking at it without taking it.\<close>

definition ahead :: "string \<Rightarrow> int" where
  "ahead r = (case r of [] \<Rightarrow> EOF | c # _ \<Rightarrow> sch c)"

lemma getc_ahead: "rest s r \<Longrightarrow> \<exists>t. getc s = (ahead r, t) \<and> rest t (tl r) \<and> rest (ungetc (ahead r) t) r"
  using getc_char getc_end by (cases r) (fastforce simp: ahead_def)+

end

definition unread :: "mem_src \<Rightarrow> string \<Rightarrow> bool" where
  "unread s r \<longleftrightarrow> code_pos s \<le> length (mem_code s) \<and> drop (code_pos s) (mem_code s) = r \<and>
     (mem_eof s \<longrightarrow> r = [])"

interpretation mem: reader mem_getc mem_ungetc unread
proof
  fix s c r
  assume u: "unread s (c # r)"
  then have p: "code_pos s < length (mem_code s)" by (cases "code_pos s < length (mem_code s)") (auto simp: unread_def)
  then have "drop (code_pos s) (mem_code s) = mem_code s ! code_pos s # drop (code_pos s + 1) (mem_code s)"
    by (simp add: Cons_nth_drop_Suc)
  with u p show "\<exists>t. mem_getc s = (sch c, t) \<and> unread t r \<and> unread (mem_ungetc (sch c) t) (c # r)"
    by (auto simp: unread_def mem_getc_def mem_ungetc_def)
next
  fix s
  assume "unread s []"
  then show "\<exists>t. mem_getc s = (EOF, t) \<and> unread t [] \<and> unread (mem_ungetc EOF t) []"
    by (auto simp: unread_def mem_getc_def mem_ungetc_def)
qed

abbreviation at_text :: "lexer \<Rightarrow> string \<Rightarrow> bool" where
  "at_text L r \<equiv> unread (lx_src L) r"

text \<open>\<open>moved L L'\<close>: the lexer has only read.\<close>

definition moved :: "lexer \<Rightarrow> lexer \<Rightarrow> bool" where
  "moved L L' \<longleftrightarrow> L' = L\<lparr>lx_src := lx_src L'\<rparr>"

lemma moved_refl [simp]: "moved L L"
  by (simp add: moved_def)

lemma moved_trans: "moved A B \<Longrightarrow> moved B C \<Longrightarrow> moved A C"
  unfolding moved_def by (metis lexer.update_convs(1) lexer.surjective lexer.fold_congs(1) lexer.unfold_congs(1))

lemma moved_fields:
  "moved L L' \<Longrightarrow> lx_lineno L' = lx_lineno L \<and> lx_line_start L' = lx_line_start L \<and> lx_cpp L' = lx_cpp L \<and>
     lx_eoo L' = lx_eoo L \<and> lx_start L' = lx_start L \<and> lx_expecting L' = lx_expecting L \<and>
     lx_obj L' = lx_obj L \<and> lx_said L' = lx_said L \<and> lx_val L' = lx_val L"
  unfolding moved_def by (metis lexer.simps(3-14) lexer.ext_inject lexer.surjective lexer.update_convs(1))

lemma read_char:
  "at_text L (c # r) \<Longrightarrow> \<exists>L1. parse_getc L = (sch c, L1) \<and> moved L L1 \<and> at_text L1 r \<and>
     moved L (parse_ungetc (sch c) L1) \<and> at_text (parse_ungetc (sch c) L1) (c # r)"
  using mem.getc_char [of "lx_src L" c r] by (auto simp: parse_getc_def parse_ungetc_def moved_def)

lemma peek_char:
  assumes "at_text L r"
  obtains L1 where "parse_getc L = (mem.ahead r, L1)" "moved L L1" "at_text L1 (tl r)"
    "moved L (parse_ungetc (mem.ahead r) L1)" "at_text (parse_ungetc (mem.ahead r) L1) r"
  using mem.getc_ahead [of "lx_src L" r] assms by (auto simp: parse_getc_def parse_ungetc_def moved_def)

lemma ahead_simps [simp]:
  "mem.ahead [] = EOF" "mem.ahead (c # r) = sch c"
  by (simp_all add: mem.ahead_def)

section \<open>The scanners\<close>

lemma follow_yes:
  assumes "at_text L (c # r)" "sch c = expect"
  obtains L1 where "follow expect y n L = (y, L1)" "moved L L1" "at_text L1 r"
  using read_char [OF assms(1)] assms(2) by (auto simp: follow_def)

lemma follow_no:
  assumes "at_text L r" "mem.ahead r \<noteq> expect"
  obtains L1 where "follow expect y n L = (n, L1)" "moved L L1" "at_text L1 r"
proof -
  from peek_char [OF assms(1)] obtain L1 where g: "parse_getc L = (mem.ahead r, L1)"
    "moved L (parse_ungetc (mem.ahead r) L1)" "at_text (parse_ungetc (mem.ahead r) L1) r" by metis
  show ?thesis by (rule that [OF _ g(2,3)]) (use g(1) assms(2) in \<open>simp add: follow_def\<close>)
qed

text \<open>The fields that reading and skipping white space keep.\<close>

definition keeps :: "lexer \<Rightarrow> lexer \<Rightarrow> bool" where
  "keeps L L' \<longleftrightarrow> lx_cpp L' = lx_cpp L \<and> lx_eoo L' = lx_eoo L \<and> lx_start L' = lx_start L \<and>
     lx_obj L' = lx_obj L \<and> lx_said L' = lx_said L"

lemma moved_keeps: "moved L L' \<Longrightarrow> keeps L L'"
  using moved_fields by (simp add: keeps_def)

lemma keeps_trans: "keeps A B \<Longrightarrow> keeps B C \<Longrightarrow> keeps A C"
  by (simp add: keeps_def)

definition starts :: "(char \<Rightarrow> bool) \<Rightarrow> string \<Rightarrow> bool" where
  "starts P r \<longleftrightarrow> (case r of [] \<Rightarrow> False | c # _ \<Rightarrow> P c)"

lemma starts_simps [simp]: "\<not> starts P []" "starts P (c # r) \<longleftrightarrow> P c"
  by (simp_all add: starts_def)

lemma ahead_class:
  "in_class c_isdigit (mem.ahead r) \<longleftrightarrow> starts c_isdigit r"
  "in_class c_isspace (mem.ahead r) \<longleftrightarrow> starts c_isspace r"
  "in_class c_isalnum (mem.ahead r) \<longleftrightarrow> starts c_isalnum r"
  by (cases r; simp)+

lemma skip_stop:
  assumes "at_text L r" "\<not> starts c_isspace r"
  shows "\<exists>L1. skip_whitespace L = L1 \<and> keeps L L1 \<and> at_text L1 r"
proof -
  from peek_char [OF assms(1)] obtain L1 where g: "parse_getc L = (mem.ahead r, L1)"
    "moved L (parse_ungetc (mem.ahead r) L1)" "at_text (parse_ungetc (mem.ahead r) L1) r" by metis
  have "mem.ahead r \<noteq> 10" using assms(2) by (cases r) (auto simp: c_isspace_def)
  with g show ?thesis
    using assms(2) by (subst skip_whitespace.simps) (simp add: ahead_class moved_keeps Let_def)
qed

lemma skip_spec:
  "at_text L (b @ r) \<Longrightarrow> list_all c_isspace b \<Longrightarrow> \<not> starts c_isspace r \<Longrightarrow>
     \<exists>L1. skip_whitespace L = L1 \<and> keeps L L1 \<and> at_text L1 r"
proof (induction b arbitrary: L)
  case Nil
  then show ?case using skip_stop by simp
next
  case (Cons c b)
  from read_char [of L c "b @ r"] Cons.prems(1) obtain L1 where g: "parse_getc L = (sch c, L1)"
    "moved L L1" "at_text L1 (b @ r)" by auto
  define L2 where "L2 = (if sch c = 10 then L1\<lparr>lx_line_start := True, lx_lineno := lx_lineno L1 + 1\<rparr>
    else L1\<lparr>lx_line_start := False\<rparr>)"
  have "skip_whitespace L = skip_whitespace L2"
    using g(1) Cons.prems(2) unfolding L2_def by (subst skip_whitespace.simps) (simp add: Let_def)
  moreover have at: "at_text L2 (b @ r)" and k: "keeps L L2"
    using g(2,3) unfolding L2_def by (auto simp: keeps_def dest: moved_fields)
  moreover have "list_all c_isspace b" using Cons.prems(2) by simp
  ultimately show ?case using Cons.IH [OF at _ Cons.prems(3)] keeps_trans [OF k] by auto
qed

definition ident_char :: "char \<Rightarrow> bool" where
  "ident_char c \<longleftrightarrow> c_isalnum c \<or> c = CHR ''_''"

lemma ident_spec:
  "at_text L (w @ r) \<Longrightarrow> list_all ident_char w \<Longrightarrow> \<not> starts ident_char r \<Longrightarrow>
     \<exists>L1. ident_rest s L = (s @ w, L1) \<and> moved L L1 \<and> at_text L1 r"
proof (induction w arbitrary: L s)
  case Nil
  then have "at_text L r" by simp
  from peek_char [OF this] obtain L1 where g: "parse_getc L = (mem.ahead r, L1)"
    "moved L (parse_ungetc (mem.ahead r) L1)" "at_text (parse_ungetc (mem.ahead r) L1) r" by metis
  have "mem.ahead r \<noteq> 95" "\<not> starts c_isalnum r"
    using Nil(3) by (cases r; simp add: ident_char_def)+
  with g show ?case by (subst ident_rest.simps) (simp add: ahead_class Let_def)
next
  case (Cons c w)
  from read_char [of L c "w @ r"] Cons.prems(1) obtain L1 where g: "parse_getc L = (sch c, L1)"
    "moved L L1" "at_text L1 (w @ r)" by auto
  have "ident_rest s L = ident_rest (s @ [c]) L1"
    using g(1) Cons.prems(2) by (subst ident_rest.simps) (simp add: ident_char_def Let_def)
  with Cons.IH [OF g(3), of "s @ [c]"] Cons.prems(2,3) g(2) show ?case by (auto intro: moved_trans)
qed

lemma digits_spec:
  "at_text L s \<Longrightarrow> \<exists>L1. tokenize_digits c n L = (fst (parse_digits (n * 10 + i32_of c - 48) s), L1) \<and>
     moved L L1 \<and> at_text L1 (snd (parse_digits (n * 10 + i32_of c - 48) s))"
proof (induction s arbitrary: c n L)
  case Nil
  from peek_char [OF this] obtain L1 where "parse_getc L = (EOF, L1)"
    "moved L (parse_ungetc EOF L1)" "at_text (parse_ungetc EOF L1) []" by (metis ahead_simps(1))
  then show ?case by (subst tokenize_digits.simps) (simp add: Let_def)
next
  case (Cons d s)
  from read_char [OF Cons.prems] obtain L1 where g: "parse_getc L = (sch d, L1)"
    "moved L L1" "at_text L1 s" "moved L (parse_ungetc (sch d) L1)"
    "at_text (parse_ungetc (sch d) L1) (d # s)" by auto
  show ?case
  proof (cases "c_isdigit d")
    case True
    then have "i32_of (sch d) = of_nat (chn d)" by (intro i32_sch) (simp add: c_isdigit_def)
    moreover have "tokenize_digits c n L = tokenize_digits (sch d) (n * 10 + i32_of c - 48) L1"
      using True g(1) by (subst tokenize_digits.simps) (simp add: Let_def)
    ultimately show ?thesis
      using True Cons.IH [OF g(3), of "sch d" "n * 10 + i32_of c - 48"] g(2) by (auto intro: moved_trans)
  next
    case False
    with g show ?thesis by (subst tokenize_digits.simps) (simp add: Let_def)
  qed
qed

lemma string_plain:
  assumes "at_text L (c # r)" "c \<notin> {CHR 0x22, CHR 0x5C, CHR 0x0A, CHR 0xFF}"
  obtains L1 where "string_rest s L = string_rest (s @ [c]) L1" "moved L L1" "at_text L1 r"
proof -
  from read_char [OF assms(1)] obtain L1 where g: "parse_getc L = (sch c, L1)" "moved L L1" "at_text L1 r"
    by auto
  have "string_rest s L = string_rest (s @ [c]) L1"
    using assms(2) g(1) by (subst string_rest.simps) (simp add: Let_def)
  with g(2,3) that show ?thesis by blast
qed

lemma string_escape:
  assumes "at_text L (CHR 0x5C # d # r)"
  obtains L1 where "string_rest s L = string_rest (s @
      (if d = CHR ''n'' then [CHR 0x0D, CHR 0x0A] else if d = CHR ''t'' then [CHR 0x09] else [d])) L1"
    "moved L L1" "at_text L1 r"
proof -
  from read_char [OF assms] obtain L1 where g: "parse_getc L = (sch (CHR 0x5C), L1)" "moved L L1"
    "at_text L1 (d # r)" by auto
  from read_char [OF g(3)] obtain L2 where h: "parse_getc L1 = (sch d, L2)" "moved L1 L2" "at_text L2 r"
    by auto
  have "string_rest s L = string_rest (s @
      (if d = CHR ''n'' then [CHR 0x0D, CHR 0x0A] else if d = CHR ''t'' then [CHR 0x09] else [d])) L2"
    using g(1) h(1) by (subst string_rest.simps) (simp add: Let_def)
  then show ?thesis using that g(2) h(2,3) moved_trans by blast
qed

lemma string_quote:
  assumes "at_text L (CHR 0x22 # r)"
  obtains L1 where "string_rest s L = (s, L1)" "moved L L1" "at_text L1 r"
proof -
  from read_char [OF assms] obtain L1 where g: "parse_getc L = (sch (CHR 0x22), L1)" "moved L L1"
    "at_text L1 r" by auto
  then have "string_rest s L = (s, L1)" by (subst string_rest.simps) (simp add: Let_def)
  with g(2,3) that show ?thesis by blast
qed

text \<open>A string constant is read back from its printed form.\<close>

lemma string_spec:
  "crlf x \<Longrightarrow> CHR 0xFF \<notin> set x \<Longrightarrow> backslash x = Some b \<Longrightarrow> at_text L (b @ CHR 0x22 # r) \<Longrightarrow>
     \<exists>L1. string_rest s L = (s @ x, L1) \<and> moved L L1 \<and> at_text L1 r"
proof (induction x arbitrary: b L s rule: crlf.induct)
  case 1
  then show ?case using string_quote [of L r s] by (metis append_Nil append_Nil2 backslash.simps(1) option.inject)
next
  case (2 c x)
  show ?case
  proof (cases "c = CHR 0x0D")
    case True
    with 2(3,4,5) obtain x' b' where x: "x = CHR 0x0A # x'" "crlf x'" "backslash x' = Some b'"
      "b = CHR 0x5C # CHR ''n'' # b'" "CHR 0xFF \<notin> set x'" by (cases x) auto
    have "at_text L (CHR 0x5C # CHR ''n'' # b' @ CHR 0x22 # r)" using 2(6) x(4) by simp
    then obtain L1 where L1: "string_rest s L = string_rest (s @ [CHR 0x0D, CHR 0x0A]) L1" "moved L L1"
      "at_text L1 (b' @ CHR 0x22 # r)" by (rule string_escape [of _ _ _ s]) simp
    with 2(1) [OF True x(1) x(2,5,3) L1(3), of "s @ [CHR 0x0D, CHR 0x0A]"] True x(1) show ?thesis
      by (auto intro: moved_trans)
  next
    case False
    with 2(3) have lf: "c \<noteq> CHR 0x0A" "crlf x" by simp_all
    define e where "e = (if c = CHR 0x09 then [CHR 0x5C, CHR ''t''] else if c = CHR 0x5C then [c, c]
      else if c = CHR 0x22 then [CHR 0x5C, c] else [c])"
    from 2(5) False lf obtain b' where b: "backslash x = Some b'" "b = e @ b'"
      by (auto simp: e_def split: if_splits)
    have at: "at_text L (e @ b' @ CHR 0x22 # r)" using 2(6) b(2) by simp
    have "\<exists>L1. string_rest s L = string_rest (s @ [c]) L1 \<and> moved L L1 \<and> at_text L1 (b' @ CHR 0x22 # r)"
    proof (cases "c \<in> {CHR 0x09, CHR 0x5C, CHR 0x22}")
      case True
      then obtain d where d: "e = [CHR 0x5C, d]" "d \<noteq> CHR ''n''" "(if d = CHR ''t'' then CHR 0x09 else d) = c"
        by (auto simp: e_def)
      from at have "at_text L (CHR 0x5C # d # b' @ CHR 0x22 # r)" by (simp add: d(1))
      then show ?thesis by (rule string_escape [of _ _ _ s]) (use d in \<open>auto split: if_splits\<close>)
    next
      case plain: False
      then have "e = [c]" by (simp add: e_def)
      with at have "at_text L (c # b' @ CHR 0x22 # r)" by simp
      then show ?thesis by (rule string_plain [of _ _ _ s]) (use plain lf 2(4) in auto)
    qed
    then obtain L1 where L1: "string_rest s L = string_rest (s @ [c]) L1" "moved L L1"
      "at_text L1 (b' @ CHR 0x22 # r)" by blast
    have "CHR 0xFF \<notin> set x" using 2(4) by simp
    with 2(2) [OF False lf(2) _ b(1) L1(3), of "s @ [c]"] L1 show ?thesis by (auto intro: moved_trans)
  qed
qed

section \<open>Tokens and their text\<close>

datatype token =
    Number nat
  | Text string
  | Err err
  | Name string
  | Word string
  | Kind string
  | Sign string

definition sign_tokens :: "(string \<times> int) list" where
  "sign_tokens =
     [(''>='', 268), (''>'', 267), (''<='', 266), (''<'', 265), (''=='', 263), (''=>'', 259), (''='', 61),
      (''!='', 264), (''!'', 269), (''&&'', 261), (''||'', 260), (''..'', 258), (''.'', 46),
      (''('', 40), ('')'', 41), (''['', 91), ('']'', 93), ([CHR 0x7B], 123), ([CHR 0x7D], 125),
      ('','', 44), ('';'', 59), ('':'', 58), (''@'', 64), (''#'', 35), (''$'', 36), (''+'', 43), (''-'', 45),
      (''*'', 42), (''/'', 47), (''%'', 37)]"

fun token_text :: "token \<Rightarrow> string" where
  "token_text (Number n) = dec n"
| "token_text (Text s) = (case backslash s of None \<Rightarrow> [] | Some b \<Rightarrow> CHR 0x22 # b @ [CHR 0x22])"
| "token_text (Err e) = err_id2name (err_code e)"
| "token_text (Name s) = s"
| "token_text (Word s) = s"
| "token_text (Kind s) = s"
| "token_text (Sign s) = s"

fun token_num :: "token \<Rightarrow> int" where
  "token_num (Number n) = 271"
| "token_num (Text s) = 272"
| "token_num (Err e) = 273"
| "token_num (Name s) = 275"
| "token_num (Word s) = the (map_of tokentable s)"
| "token_num (Kind s) = 274"
| "token_num (Sign s) = the (map_of sign_tokens s)"

text \<open>The value that comes with a token.\<close>

fun token_val :: "token \<Rightarrow> lexer \<Rightarrow> bool" where
  "token_val (Number n) L \<longleftrightarrow> lx_val L = sint (of_nat n :: i32)"
| "token_val (Text s) L \<longleftrightarrow> sym_str (lx_obj L) (lx_val L) = Some s"
| "token_val (Err e) L \<longleftrightarrow> lx_val L = sint (err_code e :: i32)"
| "token_val (Name s) L \<longleftrightarrow> sym_str (lx_obj L) (lx_val L) = Some s"
| "token_val (Word s) L \<longleftrightarrow> True"
| "token_val (Kind s) L \<longleftrightarrow> lx_val L = type_num (the (map_of type_names s))"
| "token_val (Sign s) L \<longleftrightarrow> True"

text \<open>
  Which tokens have a text of their own: strings whose line ends are CR LF and which do not have the
  character that is taken for the end of the text, names that are not words of the language.
\<close>

fun token_ok :: "token \<Rightarrow> bool" where
  "token_ok (Text s) \<longleftrightarrow> crlf s \<and> CHR 0xFF \<notin> set s \<and> nul_free s"
| "token_ok (Name s) \<longleftrightarrow> valid_ident s \<and> word_token s = None \<and> take 2 s \<noteq> ''E_'' \<and> type_spec_of s = None"
| "token_ok (Word s) \<longleftrightarrow> s \<in> fst ` set tokentable \<and> s \<noteq> ''endobject''"
| "token_ok (Kind s) \<longleftrightarrow> s \<in> fst ` set type_names"
| "token_ok (Sign s) \<longleftrightarrow> s \<in> fst ` set sign_tokens"
| "token_ok _ \<longleftrightarrow> True"

text \<open>
  Which text may follow a token without becoming part of it. After \<open>=>\<close> there may be no \<open>=\<close>: the
  lexer looks for the \<open>>\<close> first, and then takes a \<open>=\<close> for the second one of \<open>==\<close>.
\<close>

fun ends :: "token \<Rightarrow> string \<Rightarrow> bool" where
  "ends (Number n) r \<longleftrightarrow> \<not> starts c_isdigit r"
| "ends (Text s) r \<longleftrightarrow> True"
| "ends (Sign s) r \<longleftrightarrow>
     (if s \<in> {''>'', ''<'', ''!'', ''=>''} then \<not> starts (\<lambda>c. c = CHR ''='') r
      else if s = ''='' then \<not> starts (\<lambda>c. c = CHR ''='' \<or> c = CHR ''>'') r
      else s = ''.'' \<longrightarrow> \<not> starts (\<lambda>c. c = CHR ''.'') r)"
| "ends _ r \<longleftrightarrow> \<not> starts ident_char r"

text \<open>Tokens with white space before them, and white space at the end.\<close>

fun layout :: "(string \<times> token) list \<Rightarrow> string \<Rightarrow> string" where
  "layout [] e = e"
| "layout ((b, t) # ts) e = b @ token_text t @ layout ts e"

fun apart :: "(string \<times> token) list \<Rightarrow> string \<Rightarrow> bool" where
  "apart [] e \<longleftrightarrow> list_all c_isspace e"
| "apart ((b, t) # ts) e \<longleftrightarrow>
     list_all c_isspace b \<and> token_ok t \<and> ends t (layout ts e) \<and> apart ts e"

text \<open>The lexer delivers these tokens, without a message, and then the end of the text.\<close>

fun delivers :: "lexer \<Rightarrow> token list \<Rightarrow> bool" where
  "delivers L [] \<longleftrightarrow> (case yylex L of None \<Rightarrow> False | Some (n, L1) \<Rightarrow> n = EOF)"
| "delivers L (t # ts) \<longleftrightarrow>
     (case yylex L of None \<Rightarrow> False
      | Some (n, L1) \<Rightarrow> n = token_num t \<and> token_val t L1 \<and> lx_said L1 = lx_said L \<and> delivers L1 ts)"

section \<open>Each token is read back\<close>

definition ready :: "lexer \<Rightarrow> bool" where
  "ready L \<longleftrightarrow> \<not> lx_start L \<and> \<not> lx_eoo L \<and> \<not> lx_cpp L"

lemma yylex_char:
  assumes "ready L" "at_text L (b @ c # r)" "list_all c_isspace b" "\<not> c_isspace c"
  obtains L1 where "yylex L = token_at (sch c) L1" "keeps L L1" "at_text L1 r"
proof -
  have s: "L\<lparr>lx_start := False\<rparr> = L" using assms(1) by (simp add: ready_def)
  obtain L1 where 1: "skip_whitespace L = L1" "keeps L L1" "at_text L1 (c # r)"
    using skip_spec [OF assms(2,3)] assms(4) by auto
  obtain L2 where 2: "parse_getc L1 = (sch c, L2)" "moved L1 L2" "at_text L2 r"
    using read_char [OF 1(3)] by auto
  have k: "keeps L (L2\<lparr>lx_line_start := False\<rparr>)"
    using 1(2) 2(2) by (auto simp: keeps_def dest!: moved_fields)
  have "\<not> lx_cpp L2" using k assms(1) by (simp add: keeps_def ready_def)
  then have "directives (sch c) L2 = (sch c, L2)" by (subst directives.simps) simp
  then have "yylex L = token_at (sch c) (L2\<lparr>lx_line_start := False\<rparr>)"
    using assms(1) by (simp add: yylex_def s 1(1) 2(1) ready_def Let_def)
  with k 2(3) show ?thesis using that by simp
qed

lemma yylex_end:
  assumes "ready L" "at_text L e" "list_all c_isspace e"
  shows "delivers L []"
proof -
  have s: "L\<lparr>lx_start := False\<rparr> = L" using assms(1) by (simp add: ready_def)
  obtain L1 where 1: "skip_whitespace L = L1" "keeps L L1" "at_text L1 []"
    using skip_spec [of L e "[]"] assms(2,3) by auto
  obtain L2 where 2: "parse_getc L1 = (EOF, L2)" "moved L1 L2"
    using peek_char [OF 1(3)] by (metis ahead_simps(1))
  have "\<not> lx_cpp L2"
    using 1(2) 2(2) assms(1) by (auto simp: keeps_def ready_def dest!: moved_fields)
  then have "directives EOF L2 = (EOF, L2)" by (subst directives.simps) simp
  then show ?thesis
    using assms(1) by (simp add: yylex_def s 1(1) 2(1) ready_def Let_def token_at_def)
qed

lemma EOF_sch [simp]: "EOF = sch c \<longleftrightarrow> c = CHR 0xFF"
  using sch_EOF [of c] by metis

lemma sch_inj [simp]: "sch c = sch d \<longleftrightarrow> c = d"
  by (metis chr_sch)

lemma pair_back:
  assumes "at_text L (t @ r)" "t = [] \<and> \<not> starts (\<lambda>c. c = x) r \<or> t = [x]" "x \<noteq> CHR 0xFF" "sch x = k"
  shows "\<exists>L1. follow k y n L = (if t = [] then n else y, L1) \<and> moved L L1 \<and> at_text L1 r"
proof (cases "t = []")
  case True
  then have "mem.ahead r \<noteq> k" using assms(2-4) by (cases r) auto
  with True assms(1) show ?thesis by (auto elim: follow_no [of L r k y n])
next
  case False
  with assms have "at_text L (x # r)" "t \<noteq> []" by auto
  then show ?thesis using assms(4) by (auto elim: follow_yes [of L x r k y n])
qed

definition plain_signs :: string where
  "plain_signs = ''()[]'' @ [CHR 0x7B, CHR 0x7D] @ '',;:@#$+-*/%''"

lemma sign_texts: "fst ` set sign_tokens = (\<lambda>c. [c]) ` set plain_signs \<union>
    {''>'', ''>='', ''<'', ''<='', ''='', ''=='', ''=>'', ''!'', ''!='', ''&&'', ''||'', ''.'', ''..''}"
  unfolding sign_tokens_def plain_signs_def by (simp add: insert_commute)

lemma sign_cases:
  assumes "s \<in> fst ` set sign_tokens"
  obtains (plain) c where "s = [c]" "c \<in> set plain_signs"
  | (gt) "s = ''>'' \<or> s = ''>=''"
  | (lt) "s = ''<'' \<or> s = ''<=''"
  | (eq) "s = ''='' \<or> s = ''==''"
  | (to) "s = ''=>''"
  | (nt) "s = ''!'' \<or> s = ''!=''"
  | (an) "s = ''&&''"
  | (or) "s = ''||''"
  | (up) "s = ''.'' \<or> s = ''..''"
proof -
  from assms have "s \<in> (\<lambda>c. [c]) ` set plain_signs \<or> s = ''>'' \<or> s = ''>='' \<or> s = ''<'' \<or> s = ''<='' \<or>
      s = ''='' \<or> s = ''=='' \<or> s = ''=>'' \<or> s = ''!'' \<or> s = ''!='' \<or> s = ''&&'' \<or> s = ''||'' \<or>
      s = ''.'' \<or> s = ''..''"
    unfolding sign_texts by (simp only: Un_iff insert_iff empty_iff simp_thms)
  then show ?thesis
  proof (elim disjE imageE)
    fix c assume "s = [c]" "c \<in> set plain_signs"
    then show ?thesis by (rule plain)
  qed (rule gt lt eq to nt an or up, simp only: simp_thms)+
qed

lemma plain_props:
  "list_all (\<lambda>c. \<not> c_isdigit c \<and> \<not> c_isalpha c \<and> c \<notin> set ''_><=!&|.'' \<and> c \<noteq> CHR 0x22 \<and>
     map_of sign_tokens [c] = Some (sch c)) plain_signs"
  by (simp add: plain_signs_def sign_tokens_def ctype_defs sch_def)

lemma plain_back:
  assumes "c \<in> set plain_signs"
  shows "token_at (sch c) L = Some (the (map_of sign_tokens [c]), L)"
proof -
  have "\<not> c_isdigit c" "\<not> c_isalpha c" "c \<notin> set ''_><=!&|.''" "c \<noteq> CHR 0x22"
    "map_of sign_tokens [c] = Some (sch c)"
    using plain_props assms unfolding list_all_iff by blast+
  then show ?thesis by (simp add: token_at_def)
qed

lemma token_at_sign:
  "token_at (sch (CHR ''>'')) L = Some (follow 61 268 267 L)"
  "token_at (sch (CHR ''<'')) L = Some (follow 61 266 265 L)"
  "token_at (sch (CHR ''='')) L = Some (let (t, L1) = follow 62 259 61 L in follow 61 263 t L1)"
  "token_at (sch (CHR ''!'')) L = Some (follow 61 264 269 L)"
  "token_at (sch (CHR ''&'')) L = Some (follow 38 261 38 L)"
  "token_at (sch (CHR ''|'')) L = Some (follow 124 260 124 L)"
  "token_at (sch (CHR ''.'')) L = Some (follow 46 258 46 L)"
  by (simp_all add: token_at_def ctype_defs)

lemma sign_nums:
  "map_of sign_tokens ''>'' = Some 267" "map_of sign_tokens ''>='' = Some 268"
  "map_of sign_tokens ''<'' = Some 265" "map_of sign_tokens ''<='' = Some 266"
  "map_of sign_tokens ''='' = Some 61" "map_of sign_tokens ''=='' = Some 263"
  "map_of sign_tokens ''=>'' = Some 259" "map_of sign_tokens ''!'' = Some 269"
  "map_of sign_tokens ''!='' = Some 264" "map_of sign_tokens ''&&'' = Some 261"
  "map_of sign_tokens ''||'' = Some 260" "map_of sign_tokens ''.'' = Some 46"
  "map_of sign_tokens ''..'' = Some 258"
  by (simp_all add: sign_tokens_def)

lemma sch_signs: "sch (CHR ''='') = 61" "sch (CHR ''>'') = 62" "sch (CHR ''&'') = 38"
  "sch (CHR ''|'') = 124" "sch (CHR ''.'') = 46"
  by simp_all

lemma sign_back:
  assumes "at_text L (tl s @ r)" "s \<in> fst ` set sign_tokens" "ends (Sign s) r"
  shows "\<exists>L1. token_at (sch (hd s)) L = Some (the (map_of sign_tokens s), L1) \<and> moved L L1 \<and> at_text L1 r"
  using assms(2)
proof (cases rule: sign_cases)
  case (plain c)
  then show ?thesis using plain_back [of c L] assms(1) by auto
next
  case gt
  then have "tl s = [] \<and> \<not> starts (\<lambda>c. c = CHR ''='') r \<or> tl s = ''=''" using assms(3) by auto
  with gt show ?thesis
    using pair_back [of L "tl s" r "CHR ''=''" 61 268 267] assms(1)
    by (auto simp: token_at_sign sign_nums)
next
  case lt
  then have "tl s = [] \<and> \<not> starts (\<lambda>c. c = CHR ''='') r \<or> tl s = ''=''" using assms(3) by auto
  with lt show ?thesis
    using pair_back [of L "tl s" r "CHR ''=''" 61 266 265] assms(1)
    by (auto simp: token_at_sign sign_nums)
next
  case nt
  then have "tl s = [] \<and> \<not> starts (\<lambda>c. c = CHR ''='') r \<or> tl s = ''=''" using assms(3) by auto
  with nt show ?thesis
    using pair_back [of L "tl s" r "CHR ''=''" 61 264 269] assms(1)
    by (auto simp: token_at_sign sign_nums)
next
  case up
  then have "tl s = [] \<and> \<not> starts (\<lambda>c. c = CHR ''.'') r \<or> tl s = ''.''" using assms(3) by auto
  with up show ?thesis
    using pair_back [of L "tl s" r "CHR ''.''" 46 258 46] assms(1)
    by (auto simp: token_at_sign sign_nums)
next
  case an
  then show ?thesis
    using pair_back [of L "''&''" r "CHR ''&''" 38 261 38] assms(1)
    by (auto simp: token_at_sign sign_nums)
next
  case or
  then show ?thesis
    using pair_back [of L "''|''" r "CHR ''|''" 124 260 124] assms(1)
    by (auto simp: token_at_sign sign_nums)
next
  case eq
  define t where "t = tl s"
  with eq have t: "t = [] \<and> s = ''='' \<or> t = ''='' \<and> s = ''==''" by auto
  then have "\<not> starts (\<lambda>c. c = CHR ''>'') (t @ r)" using assms(3) by (cases r) auto
  with assms(1) t_def obtain L1 where 1: "follow 62 259 61 L = (61, L1)" "moved L L1" "at_text L1 (t @ r)"
    using pair_back [of L "[]" "t @ r" "CHR ''>''" 62 259 61] by auto
  have "t = [] \<and> \<not> starts (\<lambda>c. c = CHR ''='') r \<or> t = ''=''" using t assms(3) by (cases r) auto
  with 1(3) obtain L2 where "follow 61 263 61 L1 = (if t = [] then 61 else 263, L2)" "moved L1 L2" "at_text L2 r"
    using pair_back [of L1 t r "CHR ''=''" 61 263 61] by auto
  with 1 t show ?thesis
    by (auto simp: token_at_sign sign_nums intro: moved_trans)
next
  case to
  with assms(1) obtain L1 where 1: "follow 62 259 61 L = (259, L1)" "moved L L1" "at_text L1 r"
    using pair_back [of L "''>''" r "CHR ''>''" 62 259 61] by auto
  obtain L2 where "follow 61 263 259 L1 = (259, L2)" "moved L1 L2" "at_text L2 r"
    using pair_back [of L1 "[]" r "CHR ''=''" 61 263 259] 1(3) assms(3) to by auto
  with 1 to show ?thesis
    by (auto simp: token_at_sign sign_nums intro: moved_trans)
qed

lemma ready_keeps: "keeps L L1 \<Longrightarrow> ready L \<Longrightarrow> ready L1"
  by (simp add: keeps_def ready_def)

lemma keeps_obj: "keeps L L1 \<Longrightarrow> lx_obj L1 = lx_obj L" "keeps L L1 \<Longrightarrow> lx_said L1 = lx_said L"
  by (simp_all add: keeps_def)

text \<open>What is asked of one token.\<close>

definition symbols_ok :: "lexer \<Rightarrow> bool" where
  "symbols_ok L \<longleftrightarrow> (\<exists>us. sym_ok (o_symbols (lx_obj L)) us)"

definition token_back :: "token \<Rightarrow> (int \<times> lexer) option \<Rightarrow> lexer \<Rightarrow> string \<Rightarrow> bool" where
  "token_back t res L r \<longleftrightarrow> (\<exists>L1. res = Some (token_num t, L1) \<and> token_val t L1 \<and>
     lx_said L1 = lx_said L \<and> ready L1 \<and> symbols_ok L1 \<and> at_text L1 r)"

lemma add_symbol_back:
  assumes "symbols_ok L" "nul_free s"
  obtains L1 where "add_symbol s k L = Some (k, L1)" "sym_str (lx_obj L1) (lx_val L1) = Some s"
    "lx_said L1 = lx_said L" "symbols_ok L1" "lx_src L1 = lx_src L" "ready L1 \<longleftrightarrow> ready L"
proof -
  from assms(1) obtain us where us: "sym_ok (o_symbols (lx_obj L)) us" by (auto simp: symbols_ok_def)
  obtain ob n where "sym_add (lx_obj L) (mk_str s) = Some (ob, n)" "sym_str ob n = Some s"
    "sym_ok (o_symbols ob) (n # us)"
    using sym_add_ok [OF us, of "mk_str s"] assms(2) by (metis cstr.select_convs(2) mk_str_def)
  then show ?thesis
    by (intro that [of "L\<lparr>lx_val := n, lx_obj := ob\<rparr>"]) (auto simp: add_symbol_def symbols_ok_def ready_def)
qed

lemma words_props:
  "list_all (\<lambda>(w, n). valid_ident w \<and> word_token w = Some n \<and> map_of tokentable w = Some n \<and>
     (n = 292 \<longrightarrow> w = ''endobject'')) tokentable"
  by code_simp

lemma kinds_props:
  "list_all (\<lambda>(w, n). valid_ident w \<and> word_token w = None \<and> take 2 w \<noteq> ''E_'' \<and> type_spec_of w = Some n \<and>
     map_of type_names w = Some n) type_names"
  by code_simp

lemma E_words:
  assumes "nul_free w"
  shows "word_token (CHR ''E'' # CHR ''_'' # w) = None"
proof -
  have words: "list_all (\<lambda>e. nul_free (fst e) \<and> take 1 (drop 1 (map c_tolower (fst e))) \<noteq> ''_'') tokentable"
    by code_simp
  have "c_strcasecmp (CHR ''E'' # CHR ''_'' # w) (fst e) \<noteq> 0" if "e \<in> set tokentable" for e
  proof
    assume "c_strcasecmp (CHR ''E'' # CHR ''_'' # w) (fst e) = 0"
    moreover have "nul_free (fst e)" "take 1 (drop 1 (map c_tolower (fst e))) \<noteq> ''_''"
      using words that by (auto simp: list_all_iff)
    ultimately have "map c_tolower (fst e) = map c_tolower (CHR ''E'' # CHR ''_'' # w)"
      using assms by (simp add: strcasecmp_zero_iff)
    then have "take 1 (drop 1 (map c_tolower (fst e))) = [c_tolower (CHR ''_'')]" by simp
    with \<open>take 1 _ \<noteq> ''_''\<close> show False by (simp add: c_tolower_def c_isupper_def)
  qed
  then show ?thesis unfolding word_token_def by (auto simp only: find_None_iff map_option_is_None)
qed

lemma errs_props:
  "list_all (\<lambda>(x, w, d). valid_ident w \<and> take 2 w = ''E_'') errors"
  by (simp add: errors_def valid_ident_def ctype_defs)

lemma err_name:
  obtains d where "(e, err_id2name (err_code e), d) \<in> set errors"
proof -
  have "find (\<lambda>(x, nd). x = e) errors \<noteq> None"
    using errors_all [of e] by (auto simp: find_None_iff)
  then obtain x n d where f: "find (\<lambda>(x, nd). x = e) errors = Some (x, n, d)" by (metis not_Some_eq prod_cases3)
  then have "x = e" "(x, n, d) \<in> set errors" by (auto simp: find_Some_iff) (metis nth_mem)
  with f show ?thesis using that by (simp add: err_id2name_def err_lookup_find)
qed

lemma valid_ident_split:
  assumes "valid_ident s"
  obtains c w where "s = c # w" "c_isalpha c \<or> c = CHR ''_''" "list_all ident_char w" "\<not> c_isspace c"
  using assms that by (cases s) (auto simp: valid_ident_def list_all_iff ident_char_def ctype_defs)

text \<open>An identifier, before it is looked up.\<close>

lemma ident_token:
  assumes "ready L" "symbols_ok L" "at_text L (b @ s @ r)" "list_all c_isspace b" "valid_ident s"
    "\<not> starts ident_char r"
  obtains L1 where "ready L1" "symbols_ok L1" "at_text L1 r" "lx_said L1 = lx_said L"
    "yylex L = (case word_token s of
         Some t \<Rightarrow> Some (t, if t = 292 then L1\<lparr>lx_eoo := True\<rparr> else L1)
       | None \<Rightarrow> if take 2 s = ''E_'' then Some (273, L1\<lparr>lx_val := sint (err_name2id s)\<rparr>)
           else (case type_spec_of s of Some t \<Rightarrow> Some (274, L1\<lparr>lx_val := type_num t\<rparr>)
                 | None \<Rightarrow> add_symbol s 275 L1))"
proof -
  from valid_ident_split [OF assms(5)] obtain c w where s: "s = c # w" "c_isalpha c \<or> c = CHR ''_''"
    "list_all ident_char w" "\<not> c_isspace c" by blast
  from assms(3) s(1) have at: "at_text L (b @ c # w @ r)" by simp
  obtain L1 where 1: "yylex L = token_at (sch c) L1" "keeps L L1" "at_text L1 (w @ r)"
    using yylex_char [OF assms(1) at assms(4) s(4)] by blast
  obtain L2 where 2: "ident_rest [c] L1 = (s, L2)" "moved L1 L2" "at_text L2 r"
    using ident_spec [OF 1(3) s(3) assms(6), of "[c]"] s(1) by auto
  have k: "keeps L L2" using 1(2) moved_keeps [OF 2(2)] by (rule keeps_trans)
  have "\<not> c_isdigit c" using s(2) by (auto simp: ctype_defs)
  then have "token_at (sch c) L1 = tokenize_ident (sch c) L1" using s(2) by (auto simp: token_at_def)
  with 1(1) 2(1) have y: "yylex L = (case word_token s of
         Some t \<Rightarrow> Some (t, if t = 292 then L2\<lparr>lx_eoo := True\<rparr> else L2)
       | None \<Rightarrow> if take 2 s = ''E_'' then Some (273, L2\<lparr>lx_val := sint (err_name2id s)\<rparr>)
           else (case type_spec_of s of Some t \<Rightarrow> Some (274, L2\<lparr>lx_val := type_num t\<rparr>)
                 | None \<Rightarrow> add_symbol s 275 L2))"
    by (simp add: tokenize_ident_def)
  show ?thesis
    using that [OF ready_keeps [OF k assms(1)] _ 2(3) keeps_obj(2) [OF k] y] keeps_obj(1) [OF k] assms(2)
    by (simp add: symbols_ok_def)
qed

lemma number_back:
  assumes "ready L" "symbols_ok L" "at_text L (b @ dec n @ r)" "list_all c_isspace b" "\<not> starts c_isdigit r"
  shows "token_back (Number n) (yylex L) L r"
proof -
  obtain c w where d: "dec n = c # w" "c_isdigit c" using dec_start by blast
  have at: "at_text L (b @ c # w @ r)" "\<not> c_isspace c"
    using assms(3) d(1) isdigit_props [OF d(2)] by simp_all
  obtain L1 where 1: "yylex L = token_at (sch c) L1" "keeps L L1" "at_text L1 (w @ r)"
    using yylex_char [OF assms(1) at(1) assms(4) at(2)] by blast
  have "i32_of (sch c) = of_nat (chn c)" using d(2) by (intro i32_sch) (simp add: c_isdigit_def)
  moreover have "no_digit r" using assms(5) by (cases r) (auto simp: no_digit_def)
  then have "parse_digits 0 (dec n @ r) = (of_nat n, r)"
    using parse_digits_dec [of 0 n r] parse_digits_stop [of r] by simp
  ultimately have p: "parse_digits (0 * 10 + i32_of (sch c) - 48) (w @ r) = (of_nat n, r)"
    using d by simp
  obtain L2 where 2: "tokenize_digits (sch c) 0 L1 = (of_nat n, L2)" "moved L1 L2" "at_text L2 r"
    using digits_spec [OF 1(3), of "sch c" 0] unfolding p by auto
  have k: "keeps L L2" using 1(2) moved_keeps [OF 2(2)] by (rule keeps_trans)
  have y: "yylex L = Some (271, L2\<lparr>lx_val := sint (of_nat n :: i32)\<rparr>)"
    using 1(1) 2(1) d(2) by (simp add: token_at_def tokenize_number_def)
  show ?thesis
    unfolding token_back_def y
    using ready_keeps [OF k assms(1)] keeps_obj [OF k] assms(2) 2(3)
    by (auto simp: symbols_ok_def ready_def)
qed

lemma text_back:
  assumes "ready L" "symbols_ok L" "at_text L (b @ token_text (Text s) @ r)" "list_all c_isspace b" "token_ok (Text s)"
  shows "token_back (Text s) (yylex L) L r"
proof -
  obtain x where x: "backslash s = Some x" using string_wire [of s] assms(5) by auto
  have at: "at_text L (b @ CHR 0x22 # x @ CHR 0x22 # r)" using assms(3) x by simp
  obtain L1 where 1: "yylex L = token_at (sch (CHR 0x22)) L1" "keeps L L1" "at_text L1 (x @ CHR 0x22 # r)"
    using yylex_char [OF assms(1) at assms(4)] by (auto simp: c_isspace_def)
  obtain L2 where 2: "string_rest [] L1 = (s, L2)" "moved L1 L2" "at_text L2 r"
    using string_spec [OF _ _ x 1(3), of "[]"] assms(5) by auto
  have k: "keeps L L2" using 1(2) moved_keeps [OF 2(2)] by (rule keeps_trans)
  have "symbols_ok L2" using assms(2) keeps_obj(1) [OF k] by (simp add: symbols_ok_def)
  then obtain L3 where 3: "add_symbol s 272 L2 = Some (272, L3)" "sym_str (lx_obj L3) (lx_val L3) = Some s"
    "lx_said L3 = lx_said L2" "symbols_ok L3" "lx_src L3 = lx_src L2" "ready L3 \<longleftrightarrow> ready L2"
    using add_symbol_back [of L2 s 272] assms(5) by auto
  have "yylex L = Some (272, L3)"
    using 1(1) 2(1) 3(1) by (simp add: token_at_def tokenize_string_def ctype_defs)
  then show ?thesis
    using 2(3) 3 ready_keeps [OF k assms(1)] keeps_obj(2) [OF k] by (simp add: token_back_def)
qed

theorem token_read_back:
  assumes "ready L" "symbols_ok L" "at_text L (b @ token_text t @ r)" "list_all c_isspace b"
    "token_ok t" "ends t r"
  shows "token_back t (yylex L) L r"
proof (cases t)
  case (Number n)
  then show ?thesis using number_back [OF assms(1,2)] assms(3-6) by simp
next
  case (Text s)
  then show ?thesis using text_back [OF assms(1,2)] assms(3-5) by simp
next
  case (Err e)
  obtain d where "(e, err_id2name (err_code e), d) \<in> set errors" by (rule err_name)
  then have v: "valid_ident (err_id2name (err_code e))" "take 2 (err_id2name (err_code e)) = ''E_''"
    using errs_props by (auto simp: list_all_iff)
  then obtain w where "err_id2name (err_code e) = CHR ''E'' # CHR ''_'' # w"
    by (metis append_Cons append_Nil append_take_drop_id)
  moreover from this have "nul_free w"
    using v(1) by (auto simp: valid_ident_def nul_free_def ctype_defs)
  ultimately have p: "valid_ident (err_id2name (err_code e))"
    "word_token (err_id2name (err_code e)) = None" "take 2 (err_id2name (err_code e)) = ''E_''"
    using v E_words [of w] by simp_all
  obtain L1 where "ready L1" "symbols_ok L1" "at_text L1 r" "lx_said L1 = lx_said L"
    "yylex L = Some (273, L1\<lparr>lx_val := sint (err_code e :: i32)\<rparr>)"
    using ident_token [OF assms(1,2) _ assms(4) p(1)] assms(3,6) Err p(2,3) err_wire(1) [of e] by auto
  then show ?thesis using Err by (auto simp: token_back_def ready_def symbols_ok_def)
next
  case (Name s)
  with assms(5) have n: "valid_ident s" "word_token s = None" "take 2 s \<noteq> ''E_''" "type_spec_of s = None"
    by simp_all
  obtain L1 where 1: "ready L1" "symbols_ok L1" "at_text L1 r" "lx_said L1 = lx_said L"
    "yylex L = add_symbol s 275 L1"
    using ident_token [OF assms(1,2) _ assms(4) n(1)] assms(3,6) Name n(2-4) by auto
  have "nul_free s" using n(1) by (cases s) (auto simp: valid_ident_def nul_free_def ctype_defs)
  then obtain L2 where "add_symbol s 275 L1 = Some (275, L2)" "sym_str (lx_obj L2) (lx_val L2) = Some s"
    "lx_said L2 = lx_said L1" "symbols_ok L2" "lx_src L2 = lx_src L1" "ready L2 \<longleftrightarrow> ready L1"
    using add_symbol_back [OF 1(2), of s 275] by blast
  with 1 Name show ?thesis by (auto simp: token_back_def)
next
  case (Word w)
  then obtain n where "(w, n) \<in> set tokentable" "w \<noteq> ''endobject''" using assms(5) by auto
  then have n: "valid_ident w" "word_token w = Some n" "map_of tokentable w = Some n" "n \<noteq> 292"
    using words_props by (auto simp: list_all_iff)
  obtain L1 where "ready L1" "symbols_ok L1" "at_text L1 r" "lx_said L1 = lx_said L" "yylex L = Some (n, L1)"
    using ident_token [OF assms(1,2) _ assms(4) n(1)] assms(3,6) Word n(2,4) by auto
  then show ?thesis using Word n(3) by (auto simp: token_back_def)
next
  case (Kind w)
  then obtain n where "(w, n) \<in> set type_names" using assms(5) by auto
  then have n: "valid_ident w" "word_token w = None" "take 2 w \<noteq> ''E_''" "type_spec_of w = Some n"
    "map_of type_names w = Some n"
    using kinds_props by (auto simp: list_all_iff)
  obtain L1 where "ready L1" "symbols_ok L1" "at_text L1 r" "lx_said L1 = lx_said L"
    "yylex L = Some (274, L1\<lparr>lx_val := type_num n\<rparr>)"
    using ident_token [OF assms(1,2) _ assms(4) n(1)] assms(3,6) Kind n(2-4) by auto
  then show ?thesis using Kind n(5) by (auto simp: token_back_def ready_def symbols_ok_def)
next
  case (Sign s)
  then have s: "s \<in> fst ` set sign_tokens" using assms(5) by simp
  have "list_all (\<lambda>c. \<not> c_isspace c) plain_signs" by (simp add: plain_signs_def c_isspace_def)
  then have ne: "s = hd s # tl s \<and> \<not> c_isspace (hd s)"
    using s by (elim sign_cases) (auto simp: list_all_iff c_isspace_def)
  have "at_text L (b @ hd s # tl s @ r)" using assms(3) Sign ne by (metis append_Cons token_text.simps(7))
  then obtain L1 where 1: "yylex L = token_at (sch (hd s)) L1" "keeps L L1" "at_text L1 (tl s @ r)"
    using yylex_char [OF assms(1) _ assms(4)] ne by blast
  obtain L2 where 2: "token_at (sch (hd s)) L1 = Some (the (map_of sign_tokens s), L2)" "moved L1 L2" "at_text L2 r"
    using sign_back [OF 1(3) s] assms(6) Sign by auto
  have k: "keeps L L2" using 1(2) moved_keeps [OF 2(2)] by (rule keeps_trans)
  show ?thesis
    using 1(1) 2 ready_keeps [OF k assms(1)] keeps_obj [OF k] assms(2) Sign
    by (simp add: token_back_def symbols_ok_def)
qed

section \<open>Sequences of tokens\<close>

text \<open>
  C19: a text of tokens, with white space between them wherever two of them would grow together, is
  read as these tokens with their values (numbers as 32-bit numbers, names and strings through
  the symbol table of the object), without a message, and then the end of the text.
\<close>

theorem tokens_read_back:
  "ready L \<Longrightarrow> symbols_ok L \<Longrightarrow> at_text L (layout ts e) \<Longrightarrow> apart ts e \<Longrightarrow> delivers L (map snd ts)"
proof (induction ts arbitrary: L)
  case Nil
  then show ?case using yylex_end [of L e] by simp
next
  case (Cons bt ts)
  obtain b t where bt: "bt = (b, t)" by fastforce
  with Cons.prems have "at_text L (b @ token_text t @ layout ts e)" "list_all c_isspace b" "token_ok t"
    "ends t (layout ts e)" "apart ts e" by simp_all
  with token_read_back [OF Cons.prems(1,2)] obtain L1 where "yylex L = Some (token_num t, L1)" "token_val t L1"
    "lx_said L1 = lx_said L" "ready L1" "symbols_ok L1" "at_text L1 (layout ts e)"
    unfolding token_back_def by blast
  with Cons.IH [of L1] \<open>apart ts e\<close> bt show ?case by simp
qed

definition demo_lexer :: "string \<Rightarrow> lexer" where
  "demo_lexer s = \<lparr>lx_src = \<lparr>mem_code = s, code_pos = 0, mem_eof = False\<rparr>, lx_lineno = 1,
     lx_line_start = True, lx_cpp = False, lx_file = [], lx_eoo = False, lx_start = False,
     lx_expecting = 293, lx_val = 0, lx_obj = new_object, lx_nerrors = 0, lx_said = []\<rparr>"

lemma demo_lexer_ready: "ready (demo_lexer s)" "symbols_ok (demo_lexer s)" "at_text (demo_lexer s) s"
proof -
  have "sym_ok (o_symbols (lx_obj (demo_lexer s))) []"
    by (simp add: demo_lexer_def new_object_def sym_ok_def)
  then show "symbols_ok (demo_lexer s)" by (auto simp: symbols_ok_def)
qed (simp_all add: demo_lexer_def ready_def unread_def)

text \<open>\<open>if(x==12)say"a\"b";raise E_PERM;endif\<close>\<close>

definition demo_tokens :: "(string \<times> token) list" where
  "demo_tokens = [([], Word ''if''), ([], Sign ''(''), ([], Name ''x''), ([], Sign ''==''), ([], Number 12),
     ([], Sign '')''), ([], Name ''say''), ([], Text [CHR ''a'', CHR 0x22, CHR ''b'']), ([], Sign '';''),
     ('' '', Word ''raise''), ('' '', Err E_PERM), ([], Sign '';''), ([CHR 0x0A], Word ''endif'')]"

theorem tokens_read_back_witness:
  "layout demo_tokens [] = ''if(x==12)say'' @ [CHR 0x22, CHR ''a'', CHR 0x5C, CHR 0x22, CHR ''b'', CHR 0x22] @
       ''; raise E_PERM;'' @ [CHR 0x0A] @ ''endif'' \<and>
     delivers (demo_lexer (layout demo_tokens [])) (map snd demo_tokens)"
proof -
  have "apart demo_tokens []" unfolding demo_tokens_def by code_simp
  moreover have "layout demo_tokens [] = ''if(x==12)say'' @ [CHR 0x22, CHR ''a'', CHR 0x5C, CHR 0x22, CHR ''b'', CHR 0x22] @
       ''; raise E_PERM;'' @ [CHR 0x0A] @ ''endif''"
    unfolding demo_tokens_def by code_simp
  ultimately show ?thesis using tokens_read_back demo_lexer_ready by blast
qed

end
