(* ===== verification/CompileSpecs.thy ===== *)
theory CompileSpecs
  imports Compile LexSpecs DiskSpecs
begin

text \<open>
  The compiler around the grammar: a method that is compiled without an error takes the place of the
  one that had its name, and the symbol table still counts every use; with errors nothing is
  programmed. The last section has the declarations that are not handled.
\<close>

section \<open>Freeing names\<close>

lemma sym_free_all_ok:
  assumes "sym_ok (o_symbols ob) (ns @ us)"
  shows "\<exists>ob'. sym_free_all ob ns = Some ob' \<and> sym_ok (o_symbols ob') us \<and>
    (\<forall>k\<in>set us. sym_get ob' k = sym_get ob k) \<and> same_but_symbols ob ob'"
  using assms
proof (induction ns arbitrary: ob)
  case (Cons n ns)
  then have "sym_ok (o_symbols ob) (n # (ns @ us))" by simp
  from sym_free_ok [OF this] obtain ob1 where 1: "sym_free ob n = Some ob1" "sym_ok (o_symbols ob1) (ns @ us)"
    "\<forall>k\<in>set (ns @ us). sym_get ob1 k = sym_get ob k" "same_but_symbols ob ob1" by blast
  from Cons.IH [OF 1(2)] 1 show ?case by (auto simp: same_but_symbols_def)
qed simp

lemma free_method_ok:
  assumes "sym_ok (o_symbols ob) (method_uses m @ us)" "code_symbols (length (m_code m) + 1) (m_code m) \<noteq> None"
  shows "\<exists>ob'. free_method lr ob m = Some ob' \<and> sym_ok (o_symbols ob') us \<and>
    (\<forall>k\<in>set us. sym_get ob' k = sym_get ob k) \<and> same_but_symbols ob ob'"
proof (cases lr)
  case False
  have "sym_ok (o_symbols ob) us" using assms(1) by (rule sym_ok_mono) (auto simp: count_list_append)
  with False show ?thesis by (simp add: free_method_def)
next
  case True
  obtain ns where ns: "code_symbols (length (m_code m) + 1) (m_code m) = Some ns" using assms(2) by blast
  let ?vs = "map vd_name (m_vars m)"
  have "sym_ok (o_symbols ob) (m_name m # (?vs @ ns @ us))" using assms(1) ns by (simp add: method_uses_def)
  from sym_free_ok [OF this] obtain ob1 where 1: "sym_free ob (m_name m) = Some ob1"
    "sym_ok (o_symbols ob1) (?vs @ ns @ us)" "\<forall>k\<in>set (?vs @ ns @ us). sym_get ob1 k = sym_get ob k"
    "same_but_symbols ob ob1" by blast
  from sym_free_all_ok [OF 1(2)] obtain ob2 where 2: "sym_free_all ob1 ?vs = Some ob2"
    "sym_ok (o_symbols ob2) (ns @ us)" "\<forall>k\<in>set (ns @ us). sym_get ob2 k = sym_get ob1 k"
    "same_but_symbols ob1 ob2" by blast
  from sym_free_all_ok [OF 2(2)] obtain ob3 where 3: "sym_free_all ob2 ns = Some ob3"
    "sym_ok (o_symbols ob3) us" "\<forall>k\<in>set us. sym_get ob3 k = sym_get ob2 k" "same_but_symbols ob2 ob3"
    by blast
  from True ns 1 2 3 show ?thesis
    by (auto simp: free_method_def opcode_free_symbols_def same_but_symbols_def)
qed

section \<open>Taking a method out\<close>

definition named_methods :: "object \<Rightarrow> cmethod list \<Rightarrow> bool" where
  "named_methods ob l \<longleftrightarrow> (\<forall>m\<in>set l. \<exists>s. sym_str ob (m_name m) = Some s \<and> nul_free s)"

lemma method_rm_in_spec:
  "named_methods ob l \<Longrightarrow> nul_free s \<Longrightarrow> \<exists>r. method_rm_in ob s l = Some r \<and>
     (case r of None \<Rightarrow> (\<forall>m\<in>set l. mname ob m \<noteq> lower s)
      | Some (m, rest) \<Rightarrow> mname ob m = lower s \<and> (\<exists>us vs. l = us @ m # vs \<and> rest = us @ vs))"
proof (induction l)
  case (Cons m l)
  from Cons.prems obtain t where t: "sym_str ob (m_name m) = Some t" "nul_free t"
    by (auto simp: named_methods_def)
  then have mn: "mname ob m = lower t" by (simp add: mname_def)
  from Cons obtain r where r: "method_rm_in ob s l = Some r"
    "case r of None \<Rightarrow> (\<forall>m\<in>set l. mname ob m \<noteq> lower s)
      | Some (m, rest) \<Rightarrow> mname ob m = lower s \<and> (\<exists>us vs. l = us @ m # vs \<and> rest = us @ vs)"
    by (auto simp: named_methods_def)
  show ?case
  proof (cases "lower t = lower s")
    case True
    have "\<exists>us vs. m # l = us @ m # vs \<and> l = us @ vs" by (rule exI [of _ "[]"]) simp
    with True t mn Cons.prems(2) show ?thesis by (simp add: strcasecmp_zero_iff)
  next
    case False
    show ?thesis
    proof (cases r)
      case None
      with False t mn Cons.prems(2) r show ?thesis by (simp add: strcasecmp_zero_iff)
    next
      case (Some p)
      obtain x rest where p: "p = (x, rest)" by fastforce
      with Some r(2) obtain us vs where "mname ob x = lower s" "l = us @ x # vs" "rest = us @ vs" by auto
      then have "m # l = (m # us) @ x # vs \<and> m # rest = (m # us) @ vs" by simp
      then have "\<exists>us vs. m # l = us @ x # vs \<and> m # rest = us @ vs" by blast
      with False t mn Cons.prems(2) r Some p \<open>mname ob x = lower s\<close> show ?thesis
        by (simp add: strcasecmp_zero_iff)
    qed
  qed
qed simp

lemma mset_concat_cong: "mset xs = mset ys \<Longrightarrow> mset (concat (map f xs)) = mset (concat (map f ys))"
  by (simp add: mset_concat_map)

lemma distinct_map_mset: "mset xs = mset ys \<Longrightarrow> distinct (map f xs) \<longleftrightarrow> distinct (map f ys)"
  by (metis mset_eq_imp_distinct_iff mset_map)

lemma with_methods [simp]:
  "sym_get (ob\<lparr>o_methods := t\<rparr>) n = sym_get ob n" "sym_str (ob\<lparr>o_methods := t\<rparr>) n = sym_str ob n"
  "mname (ob\<lparr>o_methods := t\<rparr>) m = mname ob m"
  by (simp_all add: sym_get_def sym_str_def mname_def)

lemma methods_uses_mset:
  assumes "o_methods ob = Some h" "mset (hentries h) = add_mset m (mset (hentries h'))"
  shows "mset (sym_uses ob) = mset (method_uses m @ sym_uses (ob\<lparr>o_methods := Some h'\<rparr>))"
proof -
  have "mset (hentries h) = mset (m # hentries h')" using assms(2) by simp
  from mset_concat_cong [OF this, of method_uses] show ?thesis
    using assms(1) by (simp add: sym_uses_def other_uses_def)
qed

lemma methods_wf_bucket:
  assumes "methods_wf ob h" "i < hsize h" "htable h ! i = us @ x # vs"
  shows "methods_wf ob (HashT (hnum h - 1) ((htable h)[i := us @ vs]))"
    "mset (hentries h) = add_mset x (mset (hentries (HashT (hnum h - 1) ((htable h)[i := us @ vs]))))"
proof -
  let ?h = "HashT (hnum h - 1) ((htable h)[i := us @ vs])"
  show ms: "mset (hentries h) = add_mset x (mset (hentries ?h))"
    using mset_concat_update [OF assms(2), of "us @ vs"] assms(3) by simp
  then have "length (hentries h) = Suc (length (hentries ?h))" by (metis size_mset size_add_mset)
  moreover have "\<exists>s. sym_str ob (m_name m) = Some s \<and> nul_free s \<and> hash_index (hash s) (hsize ?h) = Some j"
    if "j < hsize ?h" "m \<in> set (htable ?h ! j)" for j m
    using that assms by (cases "j = i") (auto simp: methods_wf_def)
  ultimately show "methods_wf ob ?h" using assms(1) by (simp add: methods_wf_def)
qed

text \<open>The invariant of the methods: their names, their code, and no two names alike.\<close>

definition methods_inv :: "object \<Rightarrow> bool" where
  "methods_inv ob \<longleftrightarrow> (\<forall>h. o_methods ob = Some h \<longrightarrow> methods_wf ob h) \<and>
     distinct (map (mname ob) (entries (o_methods ob))) \<and>
     (\<forall>m\<in>set (entries (o_methods ob)). code_symbols (length (m_code m) + 1) (m_code m) \<noteq> None)"

lemma methods_inv_found:
  assumes "methods_inv ob" "m \<in> set (entries (o_methods ob))"
  shows "\<exists>s. sym_str ob (m_name m) = Some s \<and> find_method ob s = Some (Some m)"
  using assms find_own_method [of ob _ m] by (cases "o_methods ob") (auto simp: methods_inv_def)

lemma same_names:
  assumes "\<forall>k\<in>set us. sym_get ob' k = sym_get ob k" "m_name m \<in> set us"
  shows "sym_str ob' (m_name m) = sym_str ob (m_name m)" "mname ob' m = mname ob m"
  using assms by (simp_all add: sym_str_def mname_def)

lemma methods_inv_cong:
  assumes "methods_inv ob" "o_methods ob' = o_methods ob"
    "\<forall>m\<in>set (entries (o_methods ob)). sym_str ob' (m_name m) = sym_str ob (m_name m)"
  shows "methods_inv ob'"
proof -
  have "map (mname ob') (entries (o_methods ob)) = map (mname ob) (entries (o_methods ob))"
    using assms(3) by (simp add: mname_def)
  moreover have "methods_wf ob' h" if h: "o_methods ob = Some h" for h
  proof -
    have "sym_str ob' (m_name m) = sym_str ob (m_name m)" if "i < hsize h" "m \<in> set (htable h ! i)" for i m
      using assms(3) h that by (auto simp: in_set_conv_nth) (metis nth_mem)
    then show ?thesis using assms(1) h by (auto simp: methods_inv_def methods_wf_def)
  qed
  moreover have "distinct (map (mname ob) (entries (o_methods ob)))" using assms(1) by (simp add: methods_inv_def)
  ultimately show ?thesis
    using assms(1) unfolding methods_inv_def assms(2) by (simp only: simp_thms) blast
qed

text \<open>Taking a method out of an object.\<close>

lemma rm_method_ok:
  assumes inv: "methods_inv ob" and sy: "sym_ok (o_symbols ob) (us @ sym_uses ob)" and s: "nul_free s"
    and one: "\<forall>m\<in>set (entries (o_methods ob)). mname ob m = lower s \<longrightarrow> sym_str ob (m_name m) = Some s"
  shows "\<exists>ob1 e. rm_method lr ob s = Some (ob1, e) \<and> methods_inv ob1 \<and>
    sym_ok (o_symbols ob1) (us @ sym_uses ob1) \<and> (\<forall>k\<in>set us. sym_get ob1 k = sym_get ob k) \<and>
    (\<forall>m\<in>set (entries (o_methods ob1)). mname ob1 m \<noteq> lower s) \<and>
    (\<forall>m\<in>set (entries (o_methods ob)). mname ob m \<noteq> lower s \<longrightarrow>
       m \<in> set (entries (o_methods ob1)) \<and> sym_str ob1 (m_name m) = sym_str ob (m_name m))"
proof (cases "o_methods ob")
  case None
  then show ?thesis using inv sy by (simp add: rm_method_def)
next
  case (Some h)
  have wf: "methods_wf ob h" using inv Some by (simp add: methods_inv_def)
  obtain i where i: "hash_index (hash s) (hsize h) = Some i" "i < hsize h"
    using hash_index_name [of "hsize h" s] wf by (auto simp: methods_wf_def)
  have "named_methods ob (htable h ! i)" using wf i(2) by (fastforce simp: methods_wf_def named_methods_def)
  from method_rm_in_spec [OF this s] obtain r where r: "method_rm_in ob s (htable h ! i) = Some r"
    "case r of None \<Rightarrow> (\<forall>m\<in>set (htable h ! i). mname ob m \<noteq> lower s)
      | Some (m, rest) \<Rightarrow> mname ob m = lower s \<and> (\<exists>us vs. htable h ! i = us @ m # vs \<and> rest = us @ vs)"
    by blast
  have here: "m \<in> set (htable h ! i)" if m: "m \<in> set (hentries h)" "mname ob m = lower s" for m
  proof -
    obtain j where j: "j < hsize h" "m \<in> set (htable h ! j)" using concat_bucket [OF m(1)] by blast
    have "m \<in> set (entries (o_methods ob))" using Some m(1) by simp
    then have "sym_str ob (m_name m) = Some s" using one m(2) by blast
    then have "hash_index (hash s) (hsize h) = Some j" using wf j by (fastforce simp: methods_wf_def)
    with i j show ?thesis by simp
  qed
  show ?thesis
  proof (cases r)
    case None
    have "\<forall>m\<in>set (hentries h). mname ob m \<noteq> lower s" using r(2) None here by auto
    then show ?thesis using inv sy Some i r(1) None by (auto simp: rm_method_def)
  next
    case p: (Some p)
    obtain x rest where x: "p = (x, rest)" by fastforce
    with p r(2) obtain ys vs where b: "htable h ! i = ys @ x # vs" "rest = ys @ vs" "mname ob x = lower s" by auto
    define h1 where "h1 = HashT (hnum h - 1) ((htable h)[i := ys @ vs])"
    define ob0 where "ob0 = ob\<lparr>o_methods := Some h1\<rparr>"
    have wf1: "methods_wf ob h1" and ms: "mset (hentries h) = add_mset x (mset (hentries h1))"
      using methods_wf_bucket [OF wf i(2) b(1)] by (simp_all add: h1_def)
    have "x \<in> set (hentries h)" "set (hentries h) = insert x (set (hentries h1))"
      using arg_cong [OF ms, of set_mset] by simp_all
    have d: "distinct (map (mname ob) (hentries h))" using inv Some by (simp add: methods_inv_def)
    moreover have "mset (hentries h) = mset (x # hentries h1)" using ms by simp
    ultimately have "distinct (map (mname ob) (x # hentries h1))" using distinct_map_mset by blast
    then have d1: "distinct (map (mname ob) (hentries h1))" "mname ob x \<notin> mname ob ` set (hentries h1)"
      by simp_all
    have "mset (us @ sym_uses ob) = mset (method_uses x @ us @ sym_uses ob0)"
      using methods_uses_mset [OF Some ms] by (simp add: ob0_def)
    from sym_ok_mset [OF this] have sy0: "sym_ok (o_symbols ob0) (method_uses x @ us @ sym_uses ob0)"
      using sy by (simp add: ob0_def)
    have "code_symbols (length (m_code x) + 1) (m_code x) \<noteq> None"
    proof -
      have "x \<in> set (entries (o_methods ob))" using \<open>x \<in> set (hentries h)\<close> Some by simp
      then show ?thesis using inv unfolding methods_inv_def by blast
    qed
    from free_method_ok [OF sy0 this, of lr] obtain ob1 where ob1: "free_method lr ob0 x = Some ob1"
      "sym_ok (o_symbols ob1) (us @ sym_uses ob0)" "\<forall>k\<in>set (us @ sym_uses ob0). sym_get ob1 k = sym_get ob0 k"
      "same_but_symbols ob0 ob1" by blast
    have o1: "o_methods ob1 = Some h1" using ob1(4) by (simp add: same_but_symbols_def ob0_def)
    have n1: "sym_str ob1 (m_name m) = sym_str ob (m_name m)" if m: "m \<in> set (hentries h1)" for m
    proof -
      have "m_name m \<in> set (method_uses m)" by (simp add: method_uses_def)
      then have "m_name m \<in> set (us @ sym_uses ob0)"
        using m by (auto simp: sym_uses_def other_uses_def ob0_def)
      with ob1(3) show ?thesis by (simp add: sym_str_def ob0_def)
    qed
    have "methods_inv ob0"
    proof -
      have "methods_wf ob0 h1" using wf1 by (simp add: methods_wf_def ob0_def)
      moreover have "mname ob0 = mname ob" by (simp add: fun_eq_iff ob0_def)
      ultimately show ?thesis
        using inv Some d1(1) \<open>set (hentries h) = _\<close> by (auto simp: methods_inv_def ob0_def)
    qed
    then have inv1: "methods_inv ob1"
      by (rule methods_inv_cong) (use o1 n1 in \<open>auto simp: ob0_def\<close>)
    have "rm_method lr ob s = Some (ob1, E_NONE)"
      using Some i(1) r(1) p x b(2) ob1(1) by (simp add: rm_method_def ob0_def h1_def)
    moreover have "sym_ok (o_symbols ob1) (us @ sym_uses ob1)"
      using ob1(2) same_but_symbols_uses [OF ob1(4)] by simp
    moreover have "\<forall>k\<in>set us. sym_get ob1 k = sym_get ob k"
      using ob1(3) by (simp add: ob0_def)
    moreover have "mname ob1 m \<noteq> lower s" if "m \<in> set (hentries h1)" for m
    proof -
      have "mname ob1 m = mname ob m" using n1 [OF that] by (simp add: mname_def)
      with d1(2) b(3) that show ?thesis by (metis imageI)
    qed
    then have "\<forall>m\<in>set (hentries h1). mname ob1 m \<noteq> lower s" by blast
    moreover have "\<forall>m\<in>set (hentries h). mname ob m \<noteq> lower s \<longrightarrow>
        m \<in> set (hentries h1) \<and> sym_str ob1 (m_name m) = sym_str ob (m_name m)"
      using \<open>set (hentries h) = _\<close> b(3) n1 by auto
    ultimately show ?thesis using inv1 o1 Some by auto
  qed
qed

text \<open>Putting one in.\<close>

lemma add_method_ok:
  assumes inv: "methods_inv ob" and sy: "sym_ok (o_symbols ob) (method_uses m @ sym_uses ob)"
    and s: "sym_str ob (m_name m) = Some s" "nul_free s"
    and new: "\<forall>x\<in>set (entries (o_methods ob)). mname ob x \<noteq> lower s"
    and code: "code_symbols (length (m_code m) + 1) (m_code m) \<noteq> None"
  shows "\<exists>ob1. add_method ob m = Some ob1 \<and> methods_inv ob1 \<and> sym_ok (o_symbols ob1) (sym_uses ob1) \<and>
    set (entries (o_methods ob1)) = insert m (set (entries (o_methods ob))) \<and> (\<forall>k. sym_get ob1 k = sym_get ob k) \<and>
    o_symbols ob1 = o_symbols ob \<and> mset (sym_uses ob1) = mset (method_uses m @ sym_uses ob)"
proof -
  define h where "h = (case o_methods ob of None \<Rightarrow> hash_new HASH_INIT_SIZE | Some h \<Rightarrow> h)"
  define ob0 where "ob0 = ob\<lparr>o_methods := Some h\<rparr>"
  have es: "hentries h = entries (o_methods ob)"
    by (simp add: h_def hash_new_def split: option.splits)
  have "methods_wf ob h"
    using inv by (auto simp: h_def methods_inv_def methods_wf_def hash_new_def HASH_INIT_SIZE_def split: option.splits)
  then have wf: "methods_wf ob0 h" by (simp add: methods_wf_def ob0_def)
  have "\<forall>x\<in>set [m]. \<exists>s. sym_str ob0 (m_name x) = Some s \<and> nul_free s"
    using s by (simp add: ob0_def)
  from add_methods_ok [OF wf _ this] obtain h' where h': "add_methods ob0 [m] = Some (ob0\<lparr>o_methods := Some h'\<rparr>)"
    "methods_wf ob0 h'" "mset (hentries h') = mset (hentries h) + mset [m]" by (auto simp: ob0_def)
  let ?ob1 = "ob\<lparr>o_methods := Some h'\<rparr>"
  have "add_method ob m = add_method ob0 m" by (simp add: add_method_def ob0_def h_def split: option.splits)
  also have "\<dots> = Some ?ob1" using h'(1) by (auto simp: ob0_def split: bind_splits)
  finally have add: "add_method ob m = Some ?ob1" .
  have ms: "mset (hentries h') = add_mset m (mset (entries (o_methods ob)))" using h'(3) es by simp
  have st: "set (hentries h') = insert m (set (entries (o_methods ob)))"
    using arg_cong [OF ms, of set_mset] by simp
  have mn: "mname ?ob1 = mname ob" by (simp add: fun_eq_iff)
  have "distinct (map (mname ob) (m # entries (o_methods ob)))"
  proof -
    have "mname ob m = lower s" using s(1) by (simp add: mname_def)
    then have "mname ob m \<notin> mname ob ` set (entries (o_methods ob))" using new by (metis imageE)
    then show ?thesis using inv by (simp only: methods_inv_def list.map distinct.simps set_map) blast
  qed
  moreover have me: "mset (hentries h') = mset (m # entries (o_methods ob))" using ms by simp
  ultimately have "distinct (map (mname ob) (hentries h'))" using distinct_map_mset by blast
  moreover have "methods_wf ?ob1 h'" using h'(2) by (simp add: methods_wf_def ob0_def)
  ultimately have inv1: "methods_inv ?ob1"
    using inv st code unfolding methods_inv_def mn by simp
  from mset_concat_cong [OF me, of method_uses]
  have "mset (sym_uses ?ob1) = mset (method_uses m @ sym_uses ob)"
    by (simp add: sym_uses_def other_uses_def split: option.splits)
  note us = this
  then have "sym_ok (o_symbols ?ob1) (sym_uses ?ob1)" using sy sym_ok_mset by (metis object.select_convs(7) object.surjective object.update_convs(4))
  with add inv1 st us show ?thesis by (intro exI [of _ ?ob1]) simp
qed

section \<open>The end of a method\<close>

text \<open>
  C20: when a method has been compiled on its own, the object finds it under its name, with the code
  of the machine array closed by a \<open>STOP\<close>; every method of another name is found as before, the one
  that had the name is gone, and the symbol table counts the names of the methods the object has.
\<close>

theorem method_replaced:
  assumes m0: "cp_method C = Some m0" and m: "m = fst (code_copy m0 (snd (codes [O_STOP] (cp_mach C))))"
    and x: "lx_expecting (cp_lex C) = 293"
    and inv: "methods_inv (cp_obj C)" and sy: "sym_ok (o_symbols (cp_obj C)) (method_uses m @ sym_uses (cp_obj C))"
    and s: "sym_str (cp_obj C) (m_name m) = Some s" "nul_free s"
    and one: "\<forall>x\<in>set (entries (o_methods (cp_obj C))). mname (cp_obj C) x = lower s \<longrightarrow> sym_str (cp_obj C) (m_name x) = Some s"
    and code: "code_symbols (length (m_code m) + 1) (m_code m) \<noteq> None"
  shows "\<exists>C'. end_method lr C = Some C' \<and> find_method (cp_obj C') s = Some (Some m) \<and>
    (\<forall>x\<in>set (entries (o_methods (cp_obj C))). mname (cp_obj C) x \<noteq> lower s \<longrightarrow>
       (\<exists>t. sym_str (cp_obj C) (m_name x) = Some t \<and> find_method (cp_obj C') t = Some (Some x))) \<and>
    (\<forall>x\<in>set (entries (o_methods (cp_obj C'))). mname (cp_obj C') x = lower s \<longrightarrow> x = m) \<and>
    methods_inv (cp_obj C') \<and> sym_ok (o_symbols (cp_obj C')) (sym_uses (cp_obj C'))"
proof -
  let ?ob = "cp_obj C"
  obtain mc where mc: "code_copy m0 (snd (codes [O_STOP] (cp_mach C))) = (m, mc)" using m by (metis fst_conv surj_pair)
  from rm_method_ok [OF inv sy s(2) one, of lr] obtain ob1 e where 1: "rm_method lr ?ob s = Some (ob1, e)"
    "methods_inv ob1" "sym_ok (o_symbols ob1) (method_uses m @ sym_uses ob1)"
    "\<forall>k\<in>set (method_uses m). sym_get ob1 k = sym_get ?ob k" "\<forall>m\<in>set (entries (o_methods ob1)). mname ob1 m \<noteq> lower s"
    "\<forall>m\<in>set (entries (o_methods ?ob)). mname ?ob m \<noteq> lower s \<longrightarrow>
       m \<in> set (entries (o_methods ob1)) \<and> sym_str ob1 (m_name m) = sym_str ?ob (m_name m)" by blast
  have s1: "sym_str ob1 (m_name m) = Some s"
    using 1(4) s(1) by (simp add: sym_str_def method_uses_def)
  from add_method_ok [OF 1(2,3) s1 s(2) 1(5) code] obtain ob2 where 2: "add_method ob1 m = Some ob2"
    "methods_inv ob2" "sym_ok (o_symbols ob2) (sym_uses ob2)"
    "set (entries (o_methods ob2)) = insert m (set (entries (o_methods ob1)))" "\<forall>k. sym_get ob2 k = sym_get ob1 k"
    by blast
  have s2: "sym_str ob2 = sym_str ob1" "mname ob2 = mname ob1"
    using 2(5) by (simp_all add: sym_str_def mname_def fun_eq_iff)
  have here: "find_method ob2 t = Some (Some x)" if "x \<in> set (entries (o_methods ob2))" "sym_str ob1 (m_name x) = Some t" for x t
    using methods_inv_found [OF 2(2) that(1)] that(2) s2(1) by auto
  have other: "\<exists>t. sym_str ?ob (m_name x) = Some t \<and> find_method ob2 t = Some (Some x)"
    if y: "x \<in> set (entries (o_methods ?ob))" "mname ?ob x \<noteq> lower s" for x
  proof -
    obtain t where "sym_str ?ob (m_name x) = Some t" using methods_inv_found [OF inv y(1)] by blast
    with 1(6) y 2(4) here [of x t] show ?thesis by auto
  qed
  have "end_method lr C = Some (set_obj ob2 (C\<lparr>cp_mach := mc, cp_method := Some m\<rparr>))"
    using m0 mc x s(1) 1(1) 2(1) by (simp add: end_method_def)
  moreover have "cp_obj (set_obj ob2 (C\<lparr>cp_mach := mc, cp_method := Some m\<rparr>)) = ob2" by (simp add: set_obj_def)
  moreover have "\<forall>x\<in>set (entries (o_methods ob2)). mname ob2 x = lower s \<longrightarrow> x = m"
    using 2(4) 1(5) s2(2) by auto
  moreover have "find_method ob2 s = Some (Some m)" using here [of m s] 2(4) s1 by simp
  ultimately show ?thesis
    using 2(2,3) other
    by (intro exI [of _ "set_obj ob2 (C\<lparr>cp_mach := mc, cp_method := Some m\<rparr>)"] conjI ballI impI) (simp_all only:)
qed

section \<open>Errors\<close>

text \<open>
  An error in the source leaves what was programmed: an object with errors is refused, and a method
  with errors is dropped, with the names it used, while the object keeps its methods.
\<close>

lemma refused_keeps_db:
  "obj_result same fuel expecting do_init C = Some (True, C') \<Longrightarrow>
     cp_db C' = cp_db C \<and> cp_inits C' = cp_inits C \<and> lx_nerrors (cp_lex C') = lx_nerrors (cp_lex C)"
  by (auto simp: obj_result_def parse_perror_def Let_def split: if_splits bind_splits)

lemma errors_refuse:
  assumes "0 < sint (lx_nerrors (cp_lex C))"
  shows "\<exists>C'. obj_result same fuel expecting do_init C = Some (True, C')"
  using assms by (simp add: obj_result_def Let_def)

theorem errors_keep_methods:
  assumes add: "sym_add ob (mk_str name) = Some (ob1, n)"
    and parse: "yyparse (start_method n False
       (C\<lparr>cp_lex := (cp_lex C)\<lparr>lx_start := True, lx_expecting := 293, lx_obj := ob1\<rparr>\<rparr>)) = Some C1"
    and err: "lx_nerrors (cp_lex C1) \<noteq> 0" "cp_method C1 = Some m0"
    and m: "m = fst (code_copy m0 (cp_mach C1))" "code_symbols (length (m_code m) + 1) (m_code m) \<noteq> None"
    and sy: "sym_ok (o_symbols (cp_obj C1)) (method_uses m @ sym_uses (cp_obj C1))"
  shows "\<exists>C'. compile_method yyparse lr ob name C = Some C' \<and> same_but_symbols (cp_obj C1) (cp_obj C') \<and>
    (\<forall>k\<in>set (sym_uses (cp_obj C1)). sym_get (cp_obj C') k = sym_get (cp_obj C1) k) \<and>
    sym_ok (o_symbols (cp_obj C')) (sym_uses (cp_obj C')) \<and>
    cp_db C' = (cp_db C1)(oid (o_id (cp_obj C')) := Some (cp_obj C'))"
proof -
  obtain mc where mc: "code_copy m0 (cp_mach C1) = (m, mc)" using m(1) by (metis fst_conv surj_pair)
  from free_method_ok [OF sy m(2), of True] obtain ob2 where 2: "free_method True (cp_obj C1) m = Some ob2"
    "sym_ok (o_symbols ob2) (sym_uses (cp_obj C1))"
    "\<forall>k\<in>set (sym_uses (cp_obj C1)). sym_get ob2 k = sym_get (cp_obj C1) k" "same_but_symbols (cp_obj C1) ob2"
    by blast
  then show ?thesis
    using add parse err mc same_but_symbols_uses [OF 2(4)]
    by (simp add: compile_method_def set_obj_def parse_perror_def)
qed

section \<open>Declarations that are not handled\<close>

text \<open>
  \<open>ignore\<close> with a name that is no error writes in front of the handlers of the method: the lexer
  takes every name that begins with \<open>E_\<close> for an error and gives the unknown ones the number -1.
\<close>

theorem ignore_unknown_undefined:
  assumes "\<forall>(e, name, d)\<in>set errors. c_strcasecmp name s \<noteq> 0" "cp_method C = Some m"
  shows "ignore_error (err_name2id s) C = None"
proof -
  have "err_find_name s es = -1" if "\<forall>(e, name, d)\<in>set es. c_strcasecmp name s \<noteq> 0" for es
    using that by (induction es) auto
  then have n: "err_name2id s = -1" using assms(1) by (simp add: err_name2id_def)
  have "\<not> noignore (-1)" by (simp add: noignore_def) code_simp
  then show ?thesis using assms(2) by (simp add: ignore_error_def n upd_opt_def)
qed

text \<open>
  A variable of an object whose initial value has another type is reported, its name is dropped, and
  then looked up: when the declaration was its only use, the name is gone.
\<close>

theorem mismatch_uses_freed_name:
  assumes "t \<noteq> vtype v" "0 \<le> n" "n < int (length (o_symbols (cp_obj C)))"
    "s_ref (o_symbols (cp_obj C) ! nat n) = 1"
  shows "new_global_var fuel n t v C = None"
  using assms
  by (auto simp: new_global_var_def reject_name_def free_name_def sym_free_def inherits_global_def set_obj_def
      error_at_def lex_error_def sym_str_def sym_get_def nth_opt_def Let_def split: bind_splits)

section \<open>Witnesses\<close>

text \<open>An object with a method \<open>go\<close>, which is compiled again.\<close>

definition demo_go :: cmethod where
  "demo_go = \<lparr>m_name = 0, m_code = [i32_of O_STOP], m_ehandler = replicate NERRS EH_DEFAULT, m_vars = [],
     m_blocked = False\<rparr>"

definition demo_base :: object where
  "demo_base = new_object\<lparr>o_symbols := [\<lparr>s_ref = 2, s_str = Some (mk_str ''go'')\<rparr>]\<rparr>"

definition demo_compiler :: "object \<Rightarrow> compiler" where
  "demo_compiler ob = \<lparr>cp_lex = (demo_lexer [])\<lparr>lx_obj := ob\<rparr>, cp_method = Some (demo_go\<lparr>m_code := []\<rparr>),
     cp_loops = 0, cp_mach = snd (codes [O_NUMPUSH, 1, O_T_RETURN] \<lparr>mc_mem = [], mc_progi = 0\<rparr>),
     cp_db = (\<lambda>_. None), cp_prog = \<lparr>server = 0, oid = 1\<rparr>, cp_inits = []\<rparr>"

lemma demo_go_code:
  "code_symbols (length (m_code demo_go) + 1) (m_code demo_go) = Some []"
  "fst (code_copy (demo_go\<lparr>m_code := []\<rparr>) (snd (codes [O_STOP] (cp_mach (demo_compiler ob))))) =
     demo_go\<lparr>m_code := map i32_of [O_NUMPUSH, 1, O_T_RETURN, O_STOP]\<rparr>"
  "code_symbols 5 (map i32_of [O_NUMPUSH, 1, O_T_RETURN, O_STOP]) = Some []"
  unfolding demo_go_def demo_compiler_def by code_simp+

lemma demo_base_ok:
  "sym_str demo_base 0 = Some ''go''" "sym_ok (o_symbols demo_base) [0, 0]" "sym_uses demo_base = []"
  "methods_inv demo_base" "o_methods demo_base = None"
  by (simp_all add: demo_base_def new_object_def sym_str_def sym_get_def sym_ok_def mk_str_def sym_uses_def
    other_uses_def methods_inv_def nth_opt_def)

theorem method_replaced_witness:
  "\<exists>ob C'. find_method ob ''go'' = Some (Some demo_go) \<and> end_method True (demo_compiler ob) = Some C' \<and>
     find_method (cp_obj C') ''go'' =
       Some (Some (demo_go\<lparr>m_code := map i32_of [O_NUMPUSH, 1, O_T_RETURN, O_STOP]\<rparr>))"
proof -
  let ?m = "demo_go\<lparr>m_code := map i32_of [O_NUMPUSH, 1, O_T_RETURN, O_STOP]\<rparr>"
  have u: "method_uses demo_go = [0]" "method_uses ?m = [0]" "m_name demo_go = 0"
    unfolding demo_go_def by code_simp+
  have n: "nul_free ''go''" by simp
  have "sym_ok (o_symbols demo_base) (method_uses demo_go @ sym_uses demo_base)"
    using sym_ok_mono [OF demo_base_ok(2), of "[0]"] u demo_base_ok(3) by simp
  from add_method_ok [OF demo_base_ok(4) this _ n] demo_base_ok u(3) demo_go_code(1) obtain ob where ob:
    "methods_inv ob" "set (entries (o_methods ob)) = {demo_go}" "\<forall>k. sym_get ob k = sym_get demo_base k"
    "o_symbols ob = o_symbols demo_base" "mset (sym_uses ob) = {#0#}" using u(1) by auto
  have s: "sym_str ob 0 = Some ''go''" using ob(3) demo_base_ok(1) by (simp add: sym_str_def)
  have "mset [0, 0] = mset (method_uses ?m @ sym_uses ob)" using u(2) ob(5) by simp
  from sym_ok_mset [OF this, of "o_symbols ob"] have sy: "sym_ok (o_symbols ob) (method_uses ?m @ sym_uses ob)"
    using demo_base_ok(2) ob(4) by simp
  have f: "cp_obj (demo_compiler ob) = ob" "cp_method (demo_compiler ob) = Some (demo_go\<lparr>m_code := []\<rparr>)"
    "lx_expecting (cp_lex (demo_compiler ob)) = 293" "m_name ?m = 0"
    using u(3) by (simp_all add: demo_compiler_def demo_lexer_def)
  have old: "find_method ob ''go'' = Some (Some demo_go)"
    using methods_inv_found [OF ob(1), of demo_go] ob(2) s u(3) by auto
  have one: "\<forall>x\<in>set (entries (o_methods ob)). mname ob x = lower ''go'' \<longrightarrow> sym_str ob (m_name x) = Some ''go''"
    using ob(2) s u(3) by simp
  have code: "code_symbols (length (m_code ?m) + 1) (m_code ?m) \<noteq> None" unfolding demo_go_def by code_simp
  from method_replaced [OF f(2) demo_go_code(2) [symmetric, of ob] f(3), unfolded f(1,4), OF ob(1) sy s n one code, of True]
  show ?thesis using old by blast
qed

theorem ignore_unknown_undefined_witness:
  "ignore_error (err_name2id ''E_FOO'') (demo_compiler demo_base) = None"
  by (rule ignore_unknown_undefined [of _ _ "demo_go\<lparr>m_code := []\<rparr>"])
    (simp_all add: errors_def demo_compiler_def c_tolower_def c_isupper_def)

end
